(* ===== verification/Engine_Prelude.thy ===== *)
theory Engine_Prelude
  imports Main "HOL-Library.Word" "HOL-Library.Signed_Division"
begin

unbundle bit_operations_syntax

text \<open>
  What the components share: the machine types of the engine's C code, the outcome
  type whose left values are the faults of a C execution, the first-match search that
  the code writes as an indexed \<^verbatim>\<open>for\<close> loop with an early exit, the little-endian
  byte images of integers, and the generic list lemmas.  Three collections feed the
  automation: \<open>outcome_simps\<close> (sequencing of outcomes), \<open>search_simps\<close> (facts on the
  search loop) and \<open>bytes_simps\<close> (byte images).
\<close>

named_theorems outcome_simps
named_theorems search_simps
named_theorems bytes_simps

section \<open>Machine types\<close>

type_synonym u8 = "8 word"
type_synonym u16 = "16 word"
type_synonym u32 = "32 word"
type_synonym u64 = "64 word"
type_synonym i32 = "32 word"   \<comment> \<open>a C int; its value is read with sint\<close>
type_synonym bytes = "8 word list"

section \<open>Faults and outcomes\<close>

text \<open>
  A fault is a way in which the C program leaves the defined behaviour (or is stopped by
  its runtime): the model stops there with the fault as a value.
\<close>

datatype fault =
    Null_deref            \<comment> \<open>access through a null pointer\<close>
  | Out_of_bounds         \<comment> \<open>index or pointer outside its object\<close>
  | Use_after_free        \<comment> \<open>access to a released block\<close>
  | Bad_free              \<comment> \<open>release of something that is not a live block's start\<close>
  | Invalid_parameter     \<comment> \<open>the secure CRT's invalid parameter handler\<close>
  | Div_by_zero
  | Assert_failed
  | Misuse                \<comment> \<open>a call outside the protocol of the called object\<close>
  | Waits_forever         \<comment> \<open>a call that waits for what no other thread will do\<close>

type_synonym 'a outcome = "fault + 'a"

definition bind_ok :: "'a outcome \<Rightarrow> ('a \<Rightarrow> 'b outcome) \<Rightarrow> 'b outcome" where
  "bind_ok r f = (case r of Inl e \<Rightarrow> Inl e | Inr x \<Rightarrow> f x)"

lemma bind_ok_simps [simp, outcome_simps]:
  "bind_ok (Inl e) f = Inl e"
  "bind_ok (Inr x) f = f x"
  by (simp_all add: bind_ok_def)

lemma bind_ok_Inr_iff [outcome_simps]:
  "bind_ok r f = Inr y \<longleftrightarrow> (\<exists>x. r = Inr x \<and> f x = Inr y)"
  by (cases r) auto

lemma bind_ok_Inr_right [simp]: "bind_ok r Inr = r"
  by (cases r) auto

lemma bind_ok_assoc: "bind_ok (bind_ok r f) g = bind_ok r (\<lambda>x. bind_ok (f x) g)"
  by (cases r) auto

lemma bind_ok_cong [fundef_cong]:
  "r = r' \<Longrightarrow> (\<And>x. r' = Inr x \<Longrightarrow> f x = g x) \<Longrightarrow> bind_ok r f = bind_ok r' g"
  by (cases r') (auto simp: bind_ok_def)

text \<open>A checked array read and write: the index is a C int, the array has a fixed length.\<close>

definition array_get :: "'a list \<Rightarrow> int \<Rightarrow> 'a outcome" where
  "array_get xs i = (if 0 \<le> i \<and> i < int (length xs) then Inr (xs ! nat i) else Inl Out_of_bounds)"

definition array_set :: "'a list \<Rightarrow> int \<Rightarrow> 'a \<Rightarrow> 'a list outcome" where
  "array_set xs i v = (if 0 \<le> i \<and> i < int (length xs) then Inr (xs[nat i := v]) else Inl Out_of_bounds)"

lemma array_get_nat [simp, outcome_simps]:
  "i < length xs \<Longrightarrow> array_get xs (int i) = Inr (xs ! i)"
  by (simp add: array_get_def)

lemma array_set_nat [simp, outcome_simps]:
  "i < length xs \<Longrightarrow> array_set xs (int i) v = Inr (xs[i := v])"
  by (simp add: array_set_def)

lemma array_get_Inr_iff [outcome_simps]:
  "array_get xs i = Inr v \<longleftrightarrow> 0 \<le> i \<and> i < int (length xs) \<and> v = xs ! nat i"
  by (auto simp: array_get_def)

section \<open>The search loop\<close>

text \<open>
  \<^verbatim>\<open>for (int i = lo; i < n; ++i) if (P(i)) return i;\<close>
\<close>

function find_from :: "(nat \<Rightarrow> bool) \<Rightarrow> nat \<Rightarrow> nat \<Rightarrow> nat option" where
  "find_from P lo n = (if lo < n then (if P lo then Some lo else find_from P (Suc lo) n) else None)"
  by pat_completeness auto
termination
  by (relation "measure (\<lambda>(P, lo, n). n - lo)") auto

declare find_from.simps [simp del]

lemma find_from_code_step [search_simps]:
  "lo < n \<Longrightarrow> P lo \<Longrightarrow> find_from P lo n = Some lo"
  "lo < n \<Longrightarrow> \<not> P lo \<Longrightarrow> find_from P lo n = find_from P (Suc lo) n"
  "n \<le> lo \<Longrightarrow> find_from P lo n = None"
  by (simp_all add: find_from.simps [of P lo n])

lemma find_from_None_iff [search_simps]:
  "find_from P lo n = None \<longleftrightarrow> (\<forall>i. lo \<le> i \<and> i < n \<longrightarrow> \<not> P i)"
proof (induction P lo n rule: find_from.induct)
  case (1 P lo n)
  show ?case
  proof (cases "lo < n \<and> \<not> P lo")
    case True
    have "(\<forall>i. lo \<le> i \<and> i < n \<longrightarrow> \<not> P i) \<longleftrightarrow> (\<forall>i. Suc lo \<le> i \<and> i < n \<longrightarrow> \<not> P i)"
      using True by (metis Suc_leD le_antisym not_less_eq_eq)
    with True 1 show ?thesis by (simp add: find_from.simps [of P lo n])
  next
    case False
    then show ?thesis by (auto simp: find_from.simps [of P lo n])
  qed
qed

lemma find_from_SomeD:
  "find_from P lo n = Some i \<Longrightarrow> lo \<le> i \<and> i < n \<and> P i \<and> (\<forall>j. lo \<le> j \<and> j < i \<longrightarrow> \<not> P j)"
proof (induction P lo n rule: find_from.induct)
  case (1 P lo n)
  show ?case
  proof (cases "lo < n \<and> \<not> P lo")
    case True
    then have "find_from P (Suc lo) n = Some i"
      using "1.prems" by (simp add: find_from.simps [of P lo n])
    with True "1.IH" have "Suc lo \<le> i \<and> i < n \<and> P i \<and> (\<forall>j. Suc lo \<le> j \<and> j < i \<longrightarrow> \<not> P j)"
      by simp
    with True show ?thesis by (metis Suc_leD le_antisym not_less_eq_eq)
  next
    case False
    with "1.prems" show ?thesis
      by (auto simp: find_from.simps [of P lo n] split: if_splits)
  qed
qed

lemma find_from_Some_iff [search_simps]:
  "find_from P lo n = Some i \<longleftrightarrow>
     lo \<le> i \<and> i < n \<and> P i \<and> (\<forall>j. lo \<le> j \<and> j < i \<longrightarrow> \<not> P j)"
proof
  assume "find_from P lo n = Some i"
  then show "lo \<le> i \<and> i < n \<and> P i \<and> (\<forall>j. lo \<le> j \<and> j < i \<longrightarrow> \<not> P j)"
    by (rule find_from_SomeD)
next
  assume r: "lo \<le> i \<and> i < n \<and> P i \<and> (\<forall>j. lo \<le> j \<and> j < i \<longrightarrow> \<not> P j)"
  then have "find_from P lo n \<noteq> None" by (auto simp: find_from_None_iff)
  then obtain k where k: "find_from P lo n = Some k" by auto
  from find_from_SomeD [OF k] r have "k = i" by (metis linorder_neqE_nat)
  with k show "find_from P lo n = Some i" by simp
qed

lemma find_from_cong:
  assumes "\<And>i. lo \<le> i \<Longrightarrow> i < n \<Longrightarrow> P i = Q i"
  shows "find_from P lo n = find_from Q lo n"
proof (cases "find_from Q lo n")
  case None
  with assms have "find_from P lo n = None" by (auto simp: find_from_None_iff)
  with None show ?thesis by simp
next
  case (Some i)
  with assms have "find_from P lo n = Some i" by (auto simp: find_from_Some_iff)
  with Some show ?thesis by simp
qed

section \<open>Little-endian byte images\<close>

fun le_encode :: "nat \<Rightarrow> nat \<Rightarrow> bytes" where
  "le_encode 0 n = []"
| "le_encode (Suc k) n = word_of_nat (n mod 256) # le_encode k (n div 256)"

fun le_decode :: "bytes \<Rightarrow> nat" where
  "le_decode [] = 0"
| "le_decode (b # bs) = unat b + 256 * le_decode bs"

lemma length_le_encode [simp, bytes_simps]: "length (le_encode k n) = k"
  by (induction k arbitrary: n) auto

lemma le_decode_encode [bytes_simps]: "le_decode (le_encode k n) = n mod 256 ^ k"
proof (induction k arbitrary: n)
  case 0
  then show ?case by simp
next
  case (Suc k)
  have "unat (word_of_nat (n mod 256) :: u8) = n mod 256"
    by (simp add: unat_of_nat)
  with Suc show ?case
    by (simp add: mod_mult2_eq mult.commute)
qed

lemma le_encode_decode [bytes_simps]: "le_encode (length bs) (le_decode bs) = bs"
proof (induction bs)
  case Nil
  then show ?case by simp
next
  case (Cons b bs)
  have "unat b < 256" using unsigned_less [of b] by simp
  with Cons show ?case by simp
qed

lemma le_decode_bound: "le_decode bs < 256 ^ length bs"
proof (induction bs)
  case Nil
  then show ?case by simp
next
  case (Cons b bs)
  have "unat b < 256" using unsigned_less [of b] by simp
  with Cons show ?case by simp
qed

definition le32 :: "32 word \<Rightarrow> bytes" where
  "le32 w = le_encode 4 (unat w)"

definition le64 :: "64 word \<Rightarrow> bytes" where
  "le64 w = le_encode 8 (unat w)"

definition of_le32 :: "bytes \<Rightarrow> 32 word" where
  "of_le32 bs = word_of_nat (le_decode bs)"

definition of_le64 :: "bytes \<Rightarrow> 64 word" where
  "of_le64 bs = word_of_nat (le_decode bs)"

lemma length_le32 [simp, bytes_simps]: "length (le32 w) = 4"
  by (simp add: le32_def)

lemma length_le64 [simp, bytes_simps]: "length (le64 w) = 8"
  by (simp add: le64_def)

lemma of_le32_le32 [simp, bytes_simps]: "of_le32 (le32 w) = w"
proof -
  have "unat w < 256 ^ 4" using unsigned_less [of w] by simp
  then show ?thesis by (simp add: of_le32_def le32_def le_decode_encode)
qed

lemma of_le64_le64 [simp, bytes_simps]: "of_le64 (le64 w) = w"
proof -
  have "unat w < 256 ^ 8" using unsigned_less [of w] by simp
  then show ?thesis by (simp add: of_le64_def le64_def le_decode_encode)
qed

section \<open>Lists\<close>

lemma take_drop_append_mid [simp, bytes_simps]:
  "length xs = n \<Longrightarrow> length ys = k \<Longrightarrow> take k (drop n (xs @ ys @ zs)) = ys"
  by simp

lemma nth_update_if: "i < length xs \<Longrightarrow> xs[i := v] ! j = (if i = j then v else xs ! j)"
  by simp

lemma length_concat_const:
  "\<forall>x \<in> set xs. length (f x) = k \<Longrightarrow> length (concat (map f xs)) = k * length xs"
  by (induction xs) auto

text \<open>The \<open>j\<close>-th chunk of a concatenation of chunks of one size.\<close>

lemma chunk_of_concat:
  "\<forall>x \<in> set xs. length (f x) = k \<Longrightarrow> j < length xs \<Longrightarrow>
     take k (drop (j * k) (concat (map f xs) @ rest)) = f (xs ! j)"
proof (induction xs arbitrary: j)
  case Nil
  then show ?case by simp
next
  case (Cons x xs)
  show ?case
  proof (cases j)
    case 0
    with Cons.prems show ?thesis by simp
  next
    case (Suc i)
    with Cons show ?thesis by (simp add: drop_append)
  qed
qed

section \<open>Masks of words\<close>

lemma and_not_mask_unat:
  fixes x :: "'a::len word"
  shows "unat (x AND NOT (mask k)) = unat x - unat x mod 2 ^ k"
proof -
  have "x = (x AND NOT (mask k)) + (x AND mask k)"
    by (subst disjunctive_add) (auto simp: bit_simps bit_eq_iff)
  moreover have "x AND mask k = take_bit k x" by (simp add: take_bit_eq_mask)
  ultimately have eq: "x AND NOT (mask k) = x - take_bit k x"
    by (metis add_diff_cancel_right')
  have "take_bit k x \<le> x"
    by (simp add: word_le_nat_alt unsigned_take_bit_eq take_bit_nat_less_eq_self)
  then have "unat (x AND NOT (mask k)) = unat x - take_bit k (unat x)"
    by (simp add: eq unat_sub unsigned_take_bit_eq)
  then show ?thesis by (simp only: take_bit_eq_mod)
qed

lemma unat_mask_small: "k \<le> LENGTH('a) \<Longrightarrow> unat (mask k :: 'a::len word) = 2 ^ k - 1"
proof -
  assume k: "k \<le> LENGTH('a)"
  have "(mask k :: 'a word) = take_bit k (-1)" by (simp add: take_bit_minus_one_eq_mask)
  then have "unat (mask k :: 'a word) = take_bit k (unat (-1 :: 'a word))"
    by (simp only: unsigned_take_bit_eq)
  also have "\<dots> = mask k"
    using k by (simp add: unsigned_minus_1_eq_mask min_def)
  finally show ?thesis by (simp add: mask_eq_exp_minus_1)
qed

end
