(* ===== verification/Memory.thy ===== *)
theory Memory
  imports Engine_Prelude
begin

text \<open>
  The engine's dynamic memory as its clients see it through \<^verbatim>\<open>heap.h\<close>: a set of blocks,
  each with its bytes, addressed by a block number and an offset.  A block that was released
  keeps its number, so an access through a stale pointer is a fault (\<open>Use_after_free\<close>) and not a
  silent read of something else.  Fresh memory is not cleared: it holds \<open>junk\<close>, about which
  nothing is assumed.  \<open>os_avail\<close> bounds what the operating system will still commit; an
  allocation beyond it returns a null pointer, and so does an allocation of 0 bytes (\<^verbatim>\<open>tlsf\<close>
  returns null for a zero size).  The locale \<open>allocator\<close> states the contract clients rely on;
  it is interpreted on this model.
\<close>

section \<open>Blocks and pointers\<close>

type_synonym ptr = "nat \<times> nat"   \<comment> \<open>block number, byte offset; a null pointer is \<open>None\<close>\<close>

record mem =
  blocks :: "nat \<Rightarrow> bytes option"
  next_block :: nat
  os_avail :: nat
  junk :: u8

text \<open>The memory of a process that has allocated nothing yet.\<close>

definition mem_init :: "nat \<Rightarrow> u8 \<Rightarrow> mem" where
  "mem_init avail j = \<lparr>blocks = (\<lambda>_. None), next_block = 0, os_avail = avail, junk = j\<rparr>"

definition mem_ok :: "mem \<Rightarrow> bool" where
  "mem_ok m \<longleftrightarrow> (\<forall>b. blocks m b \<noteq> None \<longrightarrow> b < next_block m)"

definition heap_alloc :: "mem \<Rightarrow> nat \<Rightarrow> nat \<Rightarrow> mem \<times> ptr option" where
  "heap_alloc m n alignment =
     (if n = 0 \<or> os_avail m < n then (m, None)
      else (m\<lparr>blocks := (blocks m)(next_block m := Some (replicate n (junk m))),
              next_block := Suc (next_block m), os_avail := os_avail m - n\<rparr>,
            Some (next_block m, 0)))"

definition heap_free :: "mem \<Rightarrow> ptr option \<Rightarrow> mem outcome" where
  "heap_free m p =
     (case p of None \<Rightarrow> Inr m
      | Some (b, off) \<Rightarrow>
          (case blocks m b of
             None \<Rightarrow> Inl Bad_free
           | Some bs \<Rightarrow> if off = 0 then Inr (m\<lparr>blocks := (blocks m)(b := None),
                                                os_avail := os_avail m + length bs\<rparr>)
                        else Inl Bad_free))"

definition mem_read :: "mem \<Rightarrow> ptr option \<Rightarrow> nat \<Rightarrow> bytes outcome" where
  "mem_read m p n =
     (case p of None \<Rightarrow> if n = 0 then Inr [] else Inl Null_deref
      | Some (b, off) \<Rightarrow>
          (case blocks m b of
             None \<Rightarrow> Inl Use_after_free
           | Some bs \<Rightarrow> if off + n \<le> length bs then Inr (take n (drop off bs))
                        else Inl Out_of_bounds))"

definition splice :: "bytes \<Rightarrow> nat \<Rightarrow> bytes \<Rightarrow> bytes" where
  "splice bs off xs = take off bs @ xs @ drop (off + length xs) bs"

definition mem_write :: "mem \<Rightarrow> ptr option \<Rightarrow> bytes \<Rightarrow> mem outcome" where
  "mem_write m p xs =
     (case p of None \<Rightarrow> if xs = [] then Inr m else Inl Null_deref
      | Some (b, off) \<Rightarrow>
          (case blocks m b of
             None \<Rightarrow> Inl Use_after_free
           | Some bs \<Rightarrow> if off + length xs \<le> length bs
                        then Inr (m\<lparr>blocks := (blocks m)(b := Some (splice bs off xs))\<rparr>)
                        else Inl Out_of_bounds))"

definition memset :: "mem \<Rightarrow> ptr option \<Rightarrow> u8 \<Rightarrow> nat \<Rightarrow> mem outcome" where
  "memset m p v n = mem_write m p (replicate n v)"

section \<open>Facts on single operations\<close>

lemma length_splice [simp]: "off + length xs \<le> length bs \<Longrightarrow> length (splice bs off xs) = length bs"
  by (simp add: splice_def)

lemma splice_read_same [simp]:
  "off + length xs \<le> length bs \<Longrightarrow> take (length xs) (drop off (splice bs off xs)) = xs"
  by (simp add: splice_def)

lemma splice_nth:
  assumes "off + length xs \<le> length bs" and "i < length bs"
  shows "splice bs off xs ! i =
    (if off \<le> i \<and> i < off + length xs then xs ! (i - off) else bs ! i)"
  using assms by (auto simp: splice_def nth_append)

lemma splice_read_other:
  assumes "off + length xs \<le> length bs" and "o2 + n \<le> length bs"
    and "o2 + n \<le> off \<or> off + length xs \<le> o2"
  shows "take n (drop o2 (splice bs off xs)) = take n (drop o2 bs)"
  using assms by (intro nth_equalityI) (auto simp: splice_nth)

lemma heap_alloc_Some:
  assumes "heap_alloc m n a = (m', Some p)"
  shows "p = (next_block m, 0)" "n > 0"
    "blocks m' = (blocks m)(next_block m := Some (replicate n (junk m)))"
    "next_block m' = Suc (next_block m)" "junk m' = junk m"
  using assms by (auto simp: heap_alloc_def split: if_splits)

lemma heap_alloc_None: "heap_alloc m n a = (m', None) \<Longrightarrow> m' = m"
  by (auto simp: heap_alloc_def split: if_splits)

lemma mem_ok_alloc: "mem_ok m \<Longrightarrow> mem_ok (fst (heap_alloc m n a))"
  by (auto simp: mem_ok_def heap_alloc_def less_Suc_eq)

lemma mem_ok_free: "mem_ok m \<Longrightarrow> heap_free m p = Inr m' \<Longrightarrow> mem_ok m'"
  by (auto simp: mem_ok_def heap_free_def split: option.splits if_splits)

lemma mem_ok_write: "mem_ok m \<Longrightarrow> mem_write m p xs = Inr m' \<Longrightarrow> mem_ok m'"
  by (auto simp: mem_ok_def mem_write_def split: option.splits if_splits prod.splits)

lemma mem_write_read:
  "mem_write m p xs = Inr m' \<Longrightarrow> mem_read m' p (length xs) = Inr xs"
  by (auto simp: mem_write_def mem_read_def split: option.splits if_splits prod.splits)

lemma mem_write_other_block:
  "mem_write m (Some (b, off)) xs = Inr m' \<Longrightarrow> b' \<noteq> b \<Longrightarrow> blocks m' b' = blocks m b'"
  by (auto simp: mem_write_def split: option.splits if_splits)

lemma mem_write_read_disjoint:
  assumes "mem_write m (Some (b, off)) xs = Inr m'"
    and "b' \<noteq> b \<or> o2 + n \<le> off \<or> off + length xs \<le> o2"
  shows "mem_read m' (Some (b', o2)) n = mem_read m (Some (b', o2)) n"
  using assms
  by (auto simp: mem_write_def mem_read_def splice_read_other split: option.splits if_splits)

lemma heap_free_read:
  "heap_free m (Some (b, 0)) = Inr m' \<Longrightarrow> mem_read m' (Some (b, off)) n = Inl Use_after_free"
  by (auto simp: heap_free_def mem_read_def split: option.splits)

lemma mem_init_ok [simp]: "mem_ok (mem_init n j)"
  by (simp add: mem_ok_def mem_init_def)

lemma mem_init_sel [simp]:
  "blocks (mem_init n j) = (\<lambda>_. None)" "next_block (mem_init n j) = 0"
  "os_avail (mem_init n j) = n" "junk (mem_init n j) = j"
  by (simp_all add: mem_init_def)

text \<open>Allocating and clearing a block, as every \<^verbatim>\<open>*_create\<close> that calls \<^verbatim>\<open>memset\<close> does.\<close>

lemma alloc_clear:
  assumes "0 < n" and "n \<le> os_avail m" and "heap_alloc m n a = (m1, p)"
  shows "p = Some (next_block m, 0)"
    "memset m1 p v n = Inr (m1\<lparr>blocks := (blocks m)(next_block m := Some (replicate n v))\<rparr>)"
  using assms by (auto simp: heap_alloc_def memset_def mem_write_def splice_def)

section \<open>The allocator's contract\<close>

text \<open>
  What \<^verbatim>\<open>heap.h\<close> promises, over an abstract state: \<open>size_of s p\<close> is the size of the live
  allocation that starts at \<open>p\<close>, if there is one.
\<close>

locale allocator =
  fixes alloc :: "'s \<Rightarrow> nat \<Rightarrow> nat \<Rightarrow> 's \<times> 'p option"
    and free :: "'s \<Rightarrow> 'p option \<Rightarrow> 's outcome"
    and size_of :: "'s \<Rightarrow> 'p \<Rightarrow> nat option"
    and ok :: "'s \<Rightarrow> bool"
  assumes alloc_fresh: "ok s \<Longrightarrow> alloc s n a = (s', Some p) \<Longrightarrow> size_of s p = None"
    and alloc_size: "ok s \<Longrightarrow> alloc s n a = (s', Some p) \<Longrightarrow> size_of s' p = Some n"
    and alloc_other: "ok s \<Longrightarrow> alloc s n a = (s', Some p) \<Longrightarrow> q \<noteq> p \<Longrightarrow> size_of s' q = size_of s q"
    and alloc_null: "ok s \<Longrightarrow> alloc s n a = (s', None) \<Longrightarrow> size_of s' = size_of s"
    and free_gone: "ok s \<Longrightarrow> free s (Some p) = Inr s' \<Longrightarrow> size_of s' p = None"
    and free_other: "ok s \<Longrightarrow> free s (Some p) = Inr s' \<Longrightarrow> q \<noteq> p \<Longrightarrow> size_of s' q = size_of s q"
    and free_live: "ok s \<Longrightarrow> size_of s p \<noteq> None \<Longrightarrow> \<exists>s'. free s (Some p) = Inr s'"
    and free_dead: "ok s \<Longrightarrow> size_of s p = None \<Longrightarrow> free s (Some p) = Inl Bad_free"
    and alloc_ok: "ok s \<Longrightarrow> ok (fst (alloc s n a))"
    and free_ok: "ok s \<Longrightarrow> free s r = Inr s' \<Longrightarrow> ok s'"
begin

text \<open>Allocating and releasing again leaves the live set as it was.\<close>

lemma alloc_free_live_set:
  assumes "ok s" and "alloc s n a = (s1, Some p)"
  shows "\<exists>s2. free s1 (Some p) = Inr s2 \<and> size_of s2 = size_of s"
proof -
  from assms have ok1: "ok s1" using alloc_ok [of s n a] by simp
  from assms have "size_of s1 p = Some n" by (rule alloc_size)
  with ok1 obtain s2 where s2: "free s1 (Some p) = Inr s2" using free_live by blast
  have "size_of s2 q = size_of s q" for q
  proof (cases "q = p")
    case True
    with assms ok1 s2 show ?thesis by (simp add: free_gone alloc_fresh)
  next
    case False
    with assms ok1 s2 show ?thesis by (simp add: free_other alloc_other)
  qed
  with s2 show ?thesis by blast
qed

text \<open>A second release of the same allocation is refused.\<close>

lemma no_double_free:
  assumes "ok s" and "free s (Some p) = Inr s1"
  shows "free s1 (Some p) = Inl Bad_free"
  using assms by (simp add: free_dead free_gone free_ok)

text \<open>Two allocations that are live together are different.\<close>

lemma alloc_distinct:
  assumes "ok s" and "size_of s q \<noteq> None" and "alloc s n a = (s', Some p)"
  shows "p \<noteq> q"
  using assms alloc_fresh by auto

end

definition block_size :: "mem \<Rightarrow> ptr \<Rightarrow> nat option" where
  "block_size m p = (if snd p = 0 then map_option length (blocks m (fst p)) else None)"

lemma block_size_write: "mem_write m p xs = Inr m' \<Longrightarrow> block_size m' = block_size m"
  by (auto simp: mem_write_def block_size_def fun_eq_iff split: option.splits if_splits)

interpretation heap_mem: allocator heap_alloc heap_free block_size mem_ok
proof (unfold_locales, goal_cases)
  case (1 s n a s' p)
  then show ?case by (auto simp: block_size_def mem_ok_def dest!: heap_alloc_Some(1))
next
  case (2 s n a s' p)
  then show ?case
    using heap_alloc_Some(1,3) [OF 2(2)] by (simp add: block_size_def)
next
  case (3 s n a s' p q)
  then show ?case
    by (cases q) (auto simp: block_size_def heap_alloc_Some(3) dest: heap_alloc_Some(1))
next
  case (4 s n a s')
  then show ?case by (auto dest: heap_alloc_None)
next
  case (9 s n a)
  then show ?case by (rule mem_ok_alloc)
next
  case (10 s p s')
  then show ?case by (rule mem_ok_free)
qed (auto simp: block_size_def heap_free_def split: option.splits if_splits prod.splits)

end
