(* ===== verification/Ecs.thy ===== *)
theory Ecs
  imports Memory
begin

text \<open>
  The entity component system (\<^verbatim>\<open>ecs.h\<close>, \<^verbatim>\<open>ecs.c\<close>): the data of \<^verbatim>\<open>ecs_t\<close>, one definition per
  function, the well-formedness invariant, and the lemmas on references, queries and
  component storage.  Entity indices are C ints read as integers (no arithmetic on them can
  overflow), sequence numbers are kept at their width because \<open>global_sequence\<close> wraps.
\<close>

section \<open>Data\<close>

definition k_max_component_types :: nat where "k_max_component_types = 64"
definition k_max_entities :: nat where "k_max_entities = 512"

text \<open>
  \<^verbatim>\<open>entity_state_t\<close> is a C enumeration of int width: a value read from a save file need not
  be one of the four enumerators, which \<open>k_entity_raw\<close> stands for.
\<close>

datatype entity_state_t =
    k_entity_unused
  | k_entity_pending_add
  | k_entity_active
  | k_entity_pending_remove
  | k_entity_raw i32

fun es_val :: "entity_state_t \<Rightarrow> int" where
  "es_val k_entity_unused = 0"
| "es_val k_entity_pending_add = 1"
| "es_val k_entity_active = 2"
| "es_val k_entity_pending_remove = 3"
| "es_val (k_entity_raw w) = sint w"

text \<open>The order of C's \<^verbatim>\<open>>=\<close> on the enumeration.\<close>

instantiation entity_state_t :: preorder
begin

definition less_eq_entity_state_t :: "entity_state_t \<Rightarrow> entity_state_t \<Rightarrow> bool" where
  "less_eq_entity_state_t a b \<longleftrightarrow> es_val a \<le> es_val b"

definition less_entity_state_t :: "entity_state_t \<Rightarrow> entity_state_t \<Rightarrow> bool" where
  "less_entity_state_t a b \<longleftrightarrow> es_val a < es_val b"

instance
  by standard (auto simp: less_eq_entity_state_t_def less_entity_state_t_def)

end

record ecs_entity_ref_t =
  ref_entity :: int
  ref_sequence :: i32

record ecs_query_t =
  q_component_mask :: u64
  q_entity :: int

record ecs_t =
  ecs_self :: "ptr option"
  global_sequence :: i32
  sequences :: "i32 list"
  entity_states :: "entity_state_t list"
  component_masks :: "u64 list"
  components :: "ptr option list"
  component_type_sizes :: "u64 list"
  component_type_names :: "string list"
  save_component :: "bool list"

definition sizeof_ecs_t :: nat where "sizeof_ecs_t = 11344"

section \<open>Creation and destruction\<close>

definition ecs_cleared :: "ptr option \<Rightarrow> ecs_t" where
  "ecs_cleared p = \<lparr>ecs_self = p, global_sequence = 0,
     sequences = replicate k_max_entities 0,
     entity_states = replicate k_max_entities k_entity_unused,
     component_masks = replicate k_max_entities 0,
     components = replicate k_max_component_types None,
     component_type_sizes = replicate k_max_component_types 0,
     component_type_names = replicate k_max_component_types '''',
     save_component = replicate k_max_component_types False\<rparr>"

definition ecs_create :: "mem \<Rightarrow> (mem \<times> ecs_t) outcome" where
  "ecs_create m =
     (let (m1, p) = heap_alloc m sizeof_ecs_t 8
      in bind_ok (memset m1 p 0 sizeof_ecs_t) (\<lambda>m2.
           Inr (m2, (ecs_cleared p)\<lparr>global_sequence := 1\<rparr>)))"

fun free_components :: "mem \<Rightarrow> ptr option list \<Rightarrow> mem outcome" where
  "free_components m [] = Inr m"
| "free_components m (p # ps) =
     (if p \<noteq> None then bind_ok (heap_free m p) (\<lambda>m'. free_components m' ps)
      else free_components m ps)"

definition ecs_destroy :: "mem \<Rightarrow> ecs_t \<Rightarrow> mem outcome" where
  "ecs_destroy m e =
     bind_ok (free_components m (components e)) (\<lambda>m'. heap_free m' (ecs_self e))"

section \<open>The per-frame update\<close>

definition ecs_update_state :: "entity_state_t \<Rightarrow> entity_state_t" where
  "ecs_update_state s =
     (if s = k_entity_pending_add then k_entity_active
      else if s = k_entity_pending_remove then k_entity_unused
      else s)"

definition ecs_update :: "ecs_t \<Rightarrow> ecs_t" where
  "ecs_update e = e\<lparr>entity_states := map ecs_update_state (entity_states e)\<rparr>"

section \<open>Component types\<close>

definition align_component :: "u64 \<Rightarrow> u64 \<Rightarrow> u64" where
  "align_component size_per_component alignment =
     (size_per_component + (alignment - 1)) AND NOT (alignment - 1)"

definition ecs_register_component_type ::
    "mem \<Rightarrow> ecs_t \<Rightarrow> string \<Rightarrow> u64 \<Rightarrow> u64 \<Rightarrow> bool \<Rightarrow> (mem \<times> ecs_t \<times> int) outcome" where
  "ecs_register_component_type m e name size_per_component alignment save =
     (case find_from (\<lambda>i. components e ! i = None) 0 k_max_component_types of
        None \<Rightarrow> Inr (m, e, -1)
      | Some i \<Rightarrow>
          let aligned_size = align_component size_per_component alignment;
              total = unat (aligned_size * word_of_nat k_max_entities)
          in if 32 \<le> length name then Inl Invalid_parameter
             else let (m1, p) = heap_alloc m total (unat alignment)
                  in bind_ok (memset m1 p 0 total) (\<lambda>m2.
                       Inr (m2, e\<lparr>component_type_names := (component_type_names e)[i := name],
                                  component_type_sizes := (component_type_sizes e)[i := aligned_size],
                                  components := (components e)[i := p],
                                  save_component := (save_component e)[i := save]\<rparr>, int i)))"

definition ecs_get_component_type_size :: "ecs_t \<Rightarrow> int \<Rightarrow> u64 outcome" where
  "ecs_get_component_type_size e component_type = array_get (component_type_sizes e) component_type"

section \<open>Entities\<close>

definition ecs_entity_add :: "ecs_t \<Rightarrow> u64 \<Rightarrow> ecs_t \<times> ecs_entity_ref_t" where
  "ecs_entity_add e component_mask =
     (case find_from (\<lambda>i. entity_states e ! i = k_entity_unused) 0 k_max_entities of
        Some i \<Rightarrow>
          (e\<lparr>entity_states := (entity_states e)[i := k_entity_pending_add],
             sequences := (sequences e)[i := global_sequence e],
             global_sequence := global_sequence e + 1,
             component_masks := (component_masks e)[i := component_mask]\<rparr>,
           \<lparr>ref_entity = int i, ref_sequence = global_sequence e\<rparr>)
      | None \<Rightarrow> (e, \<lparr>ref_entity = -1, ref_sequence = -1\<rparr>))"

definition ecs_is_entity_ref_valid :: "ecs_t \<Rightarrow> ecs_entity_ref_t \<Rightarrow> bool \<Rightarrow> bool outcome" where
  "ecs_is_entity_ref_valid e ref allow_pending_add =
     (if ref_entity ref < 0 then Inr False
      else bind_ok (array_get (sequences e) (ref_entity ref)) (\<lambda>s.
             if s \<noteq> ref_sequence ref then Inr False
             else bind_ok (array_get (entity_states e) (ref_entity ref)) (\<lambda>st.
                    Inr ((if allow_pending_add then k_entity_pending_add else k_entity_active) \<le> st))))"

definition ecs_entity_remove :: "ecs_t \<Rightarrow> ecs_entity_ref_t \<Rightarrow> bool \<Rightarrow> ecs_t outcome" where
  "ecs_entity_remove e ref allow_pending_add =
     bind_ok (ecs_is_entity_ref_valid e ref allow_pending_add) (\<lambda>v.
       if v then bind_ok (array_set (entity_states e) (ref_entity ref) k_entity_pending_remove) (\<lambda>st.
                   Inr (e\<lparr>entity_states := st\<rparr>))
       else Inr e)"

text \<open>Address of element \<open>k\<close> of an array of \<open>sz\<close>-byte elements; the product is of type \<^verbatim>\<open>size_t\<close>.\<close>

definition elem_ptr :: "ptr option \<Rightarrow> u64 \<Rightarrow> int \<Rightarrow> ptr option outcome" where
  "elem_ptr base sz k =
     (case base of None \<Rightarrow> Inl Null_deref
      | Some (b, off) \<Rightarrow> if k < 0 then Inl Out_of_bounds
                         else Inr (Some (b, off + unat (sz * word_of_int k))))"

definition ecs_entity_get_component ::
    "ecs_t \<Rightarrow> ecs_entity_ref_t \<Rightarrow> int \<Rightarrow> bool \<Rightarrow> ptr option outcome" where
  "ecs_entity_get_component e ref component_type allow_pending_add =
     bind_ok (ecs_is_entity_ref_valid e ref allow_pending_add) (\<lambda>v.
       if v then
         bind_ok (array_get (components e) component_type) (\<lambda>base.
           if base = None then Inr None
           else bind_ok (array_get (component_type_sizes e) component_type) (\<lambda>sz.
                  elem_ptr base sz (ref_entity ref)))
       else Inr None)"

section \<open>Queries\<close>

definition query_matches :: "ecs_t \<Rightarrow> u64 \<Rightarrow> nat \<Rightarrow> bool" where
  "query_matches e cm i \<longleftrightarrow>
     component_masks e ! i AND cm = cm \<and> k_entity_active \<le> entity_states e ! i"

text \<open>
  The loop counter is an int compared with a \<^verbatim>\<open>size_t\<close>: a negative counter is converted to a
  huge unsigned value and the loop is not entered.
\<close>

definition ecs_query_next :: "ecs_t \<Rightarrow> ecs_query_t \<Rightarrow> ecs_query_t" where
  "ecs_query_next e q =
     (if q_entity q + 1 < 0 then q\<lparr>q_entity := -1\<rparr>
      else case find_from (query_matches e (q_component_mask q)) (nat (q_entity q + 1)) k_max_entities of
             Some i \<Rightarrow> q\<lparr>q_entity := int i\<rparr>
           | None \<Rightarrow> q\<lparr>q_entity := -1\<rparr>)"

definition ecs_query_create :: "ecs_t \<Rightarrow> u64 \<Rightarrow> ecs_query_t" where
  "ecs_query_create e cm = ecs_query_next e \<lparr>q_component_mask = cm, q_entity = -1\<rparr>"

definition ecs_query_is_valid :: "ecs_query_t \<Rightarrow> bool" where
  "ecs_query_is_valid q \<longleftrightarrow> 0 \<le> q_entity q"

definition ecs_query_get_component :: "ecs_t \<Rightarrow> ecs_query_t \<Rightarrow> int \<Rightarrow> ptr option outcome" where
  "ecs_query_get_component e q component_type =
     bind_ok (array_get (components e) component_type) (\<lambda>base.
       bind_ok (array_get (component_type_sizes e) component_type) (\<lambda>sz.
         elem_ptr base sz (q_entity q)))"

definition ecs_query_get_entity :: "ecs_t \<Rightarrow> ecs_query_t \<Rightarrow> ecs_entity_ref_t outcome" where
  "ecs_query_get_entity e q =
     bind_ok (array_get (sequences e) (q_entity q)) (\<lambda>s.
       Inr \<lparr>ref_entity = q_entity q, ref_sequence = s\<rparr>)"

section \<open>Well-formedness\<close>

definition ecs_shape :: "ecs_t \<Rightarrow> bool" where
  "ecs_shape e \<longleftrightarrow>
     length (sequences e) = k_max_entities \<and> length (entity_states e) = k_max_entities \<and>
     length (component_masks e) = k_max_entities \<and>
     length (components e) = k_max_component_types \<and>
     length (component_type_sizes e) = k_max_component_types \<and>
     length (component_type_names e) = k_max_component_types \<and>
     length (save_component e) = k_max_component_types"

text \<open>
  Every sequence number that is in the table was drawn from the counter, no two slots share one
  (0 is the number of a slot that was never used), and a slot in use has one.
\<close>

definition seq_inv :: "ecs_t \<Rightarrow> bool" where
  "seq_inv e \<longleftrightarrow>
     0 < unat (global_sequence e) \<and>
     (\<forall>i < k_max_entities. unat (sequences e ! i) < unat (global_sequence e)) \<and>
     (\<forall>i < k_max_entities. sequences e ! i = 0 \<longrightarrow> entity_states e ! i = k_entity_unused) \<and>
     (\<forall>i < k_max_entities. \<forall>j < k_max_entities.
        sequences e ! i = sequences e ! j \<longrightarrow> sequences e ! i \<noteq> 0 \<longrightarrow> i = j)"

lemma seq_inv_bound: "seq_inv e \<Longrightarrow> i < k_max_entities \<Longrightarrow> unat (sequences e ! i) < unat (global_sequence e)"
  and seq_inv_unused: "seq_inv e \<Longrightarrow> i < k_max_entities \<Longrightarrow> sequences e ! i = 0 \<Longrightarrow>
    entity_states e ! i = k_entity_unused"
  and seq_inv_inj: "seq_inv e \<Longrightarrow> i < k_max_entities \<Longrightarrow> j < k_max_entities \<Longrightarrow>
    sequences e ! i = sequences e ! j \<Longrightarrow> sequences e ! i \<noteq> 0 \<Longrightarrow> i = j"
  and seq_inv_pos: "seq_inv e \<Longrightarrow> 0 < unat (global_sequence e)"
  unfolding seq_inv_def by blast+

definition ecs_inv :: "ecs_t \<Rightarrow> bool" where
  "ecs_inv e \<longleftrightarrow> ecs_shape e \<and> seq_inv e"

lemma ecs_create_inv: "ecs_create m = Inr (m', e) \<Longrightarrow> ecs_inv e"
  by (auto simp: ecs_create_def ecs_cleared_def ecs_inv_def ecs_shape_def seq_inv_def
      outcome_simps split: prod.splits)

lemma ecs_update_state_unused_iff:
  "ecs_update_state s = k_entity_unused \<longleftrightarrow> s = k_entity_unused \<or> s = k_entity_pending_remove"
  by (auto simp: ecs_update_state_def)

lemma ecs_update_inv: "ecs_inv e \<Longrightarrow> ecs_inv (ecs_update e)"
  by (auto simp: ecs_inv_def ecs_shape_def seq_inv_def ecs_update_def ecs_update_state_unused_iff)

lemma ecs_update_fields [simp]:
  "sequences (ecs_update e) = sequences e" "global_sequence (ecs_update e) = global_sequence e"
  "component_masks (ecs_update e) = component_masks e" "components (ecs_update e) = components e"
  "component_type_sizes (ecs_update e) = component_type_sizes e"
  by (simp_all add: ecs_update_def)

lemma word_plus_one_gt:
  fixes g :: "'a::len word"
  assumes "g \<noteq> -1" shows "unat (g + 1) = Suc (unat g)"
proof -
  have "1 + g \<noteq> 0"
    using assms by (metis add.commute add_eq_0_iff)
  then show ?thesis using unatSuc [of g] by (simp add: add.commute)
qed

lemma ecs_add_cases:
  obtains (full) "\<forall>i < k_max_entities. entity_states e ! i \<noteq> k_entity_unused"
      "ecs_entity_add e cm = (e, \<lparr>ref_entity = -1, ref_sequence = -1\<rparr>)"
  | (slot) i where "i < k_max_entities" "entity_states e ! i = k_entity_unused"
      "\<forall>j < i. entity_states e ! j \<noteq> k_entity_unused"
      "ecs_entity_add e cm =
         (e\<lparr>entity_states := (entity_states e)[i := k_entity_pending_add],
            sequences := (sequences e)[i := global_sequence e],
            global_sequence := global_sequence e + 1,
            component_masks := (component_masks e)[i := cm]\<rparr>,
          \<lparr>ref_entity = int i, ref_sequence = global_sequence e\<rparr>)"
proof (cases "find_from (\<lambda>i. entity_states e ! i = k_entity_unused) 0 k_max_entities")
  case None
  then have "\<forall>i < k_max_entities. entity_states e ! i \<noteq> k_entity_unused"
    by (simp add: find_from_None_iff)
  moreover from None have "ecs_entity_add e cm = (e, \<lparr>ref_entity = -1, ref_sequence = -1\<rparr>)"
    by (simp add: ecs_entity_add_def)
  ultimately show thesis by (rule full)
next
  case (Some i)
  then have i: "i < k_max_entities \<and> entity_states e ! i = k_entity_unused \<and>
      (\<forall>j < i. entity_states e ! j \<noteq> k_entity_unused)"
    by (simp add: find_from_Some_iff)
  show thesis
    by (rule slot [of i]) (use i Some in \<open>simp_all add: ecs_entity_add_def\<close>)
qed

lemma ecs_add_inv:
  assumes inv: "ecs_inv e" and wrap: "global_sequence e \<noteq> -1"
  shows "ecs_inv (fst (ecs_entity_add e cm))"
proof (cases rule: ecs_add_cases [of e cm])
  case full
  with inv show ?thesis by simp
next
  case (slot i)
  let ?e = "fst (ecs_entity_add e cm)"
  from inv have shape: "ecs_shape e" and seq: "seq_inv e" by (simp_all add: ecs_inv_def)
  have len: "length (sequences e) = k_max_entities" "length (entity_states e) = k_max_entities"
    using shape by (simp_all add: ecs_shape_def)
  have sq: "sequences ?e ! j = (if j = i then global_sequence e else sequences e ! j)"
    and st: "entity_states ?e ! j = (if j = i then k_entity_pending_add else entity_states e ! j)"
    for j using slot(1) len unfolding slot(4) by (simp_all add: nth_list_update)
  have gs: "unat (global_sequence ?e) = Suc (unat (global_sequence e))"
    unfolding slot(4) by (simp add: word_plus_one_gt [OF wrap])
  have fresh: "sequences e ! j \<noteq> global_sequence e" if "j < k_max_entities" for j
    using seq_inv_bound [OF seq that] by auto
  have nz: "global_sequence e \<noteq> 0" using seq_inv_pos [OF seq] by auto
  have "seq_inv ?e"
    unfolding seq_inv_def gs sq st
  proof (intro conjI allI impI)
    fix j assume j: "j < k_max_entities"
    show "unat (if j = i then global_sequence e else sequences e ! j) < Suc (unat (global_sequence e))"
      using seq_inv_bound [OF seq j] by simp
    assume "(if j = i then global_sequence e else sequences e ! j) = 0"
    with nz have "j \<noteq> i" "sequences e ! j = 0" by (auto split: if_splits)
    with seq_inv_unused [OF seq j]
    show "(if j = i then k_entity_pending_add else entity_states e ! j) = k_entity_unused" by simp
  next
    fix j k assume jk: "j < k_max_entities" "k < k_max_entities"
      and eq: "(if j = i then global_sequence e else sequences e ! j) =
               (if k = i then global_sequence e else sequences e ! k)"
      and nz': "(if j = i then global_sequence e else sequences e ! j) \<noteq> 0"
    show "j = k"
    proof (cases "j = i \<or> k = i")
      case True
      with eq jk fresh show ?thesis by (metis (full_types))
    next
      case False
      with eq nz' have "sequences e ! j = sequences e ! k" "sequences e ! j \<noteq> 0" by simp_all
      then show ?thesis by (rule seq_inv_inj [OF seq jk])
    qed
  qed simp
  moreover have "ecs_shape ?e"
    using shape unfolding slot(4) by (simp add: ecs_shape_def)
  ultimately show ?thesis by (simp add: ecs_inv_def)
qed

lemma ecs_remove_cases:
  assumes "ecs_entity_remove e r a = Inr e'"
  obtains "e' = e" | i where "i < length (entity_states e)" "ref_entity r = int i"
    "ecs_is_entity_ref_valid e r a = Inr True"
    "e' = e\<lparr>entity_states := (entity_states e)[i := k_entity_pending_remove]\<rparr>"
  using assms
  by (auto simp: ecs_entity_remove_def outcome_simps array_set_def split: if_splits)
    (metis nat_0_le zless_nat_eq_int_zless)

text \<open>The validity test, on a reference that is inside the table.\<close>

lemma valid_ref_iff:
  assumes "ecs_shape e" and "i < k_max_entities" and "ref_entity r = int i"
  shows "ecs_is_entity_ref_valid e r a = Inr v \<longleftrightarrow>
     v = (sequences e ! i = ref_sequence r \<and>
          (if a then k_entity_pending_add else k_entity_active) \<le> entity_states e ! i)"
  using assms by (auto simp: ecs_is_entity_ref_valid_def ecs_shape_def)

lemma valid_ref_range:
  assumes "ecs_shape e" and "ecs_is_entity_ref_valid e r a = Inr True"
  obtains i where "i < k_max_entities" "ref_entity r = int i"
    "sequences e ! i = ref_sequence r"
    "(if a then k_entity_pending_add else k_entity_active) \<le> entity_states e ! i"
  using assms
  by (auto simp: ecs_is_entity_ref_valid_def ecs_shape_def outcome_simps split: if_splits)
    (metis nat_0_le zless_nat_eq_int_zless not_le)+

lemma used_state_ge: "k_entity_pending_add \<le> s \<Longrightarrow> s \<noteq> k_entity_unused"
  by (auto simp: less_eq_entity_state_t_def)

lemma ecs_remove_inv:
  assumes "ecs_inv e" and "ecs_entity_remove e r a = Inr e'"
  shows "ecs_inv e'"
  using assms(2)
proof (cases rule: ecs_remove_cases)
  case 1
  with assms(1) show ?thesis by simp
next
  case (2 i)
  from assms(1) have shape: "ecs_shape e" and seq: "seq_inv e" by (simp_all add: ecs_inv_def)
  have i: "i < k_max_entities" using 2 shape by (simp add: ecs_shape_def)
  have "sequences e ! i \<noteq> 0"
  proof
    assume "sequences e ! i = 0"
    then have "entity_states e ! i = k_entity_unused" by (rule seq_inv_unused [OF seq i])
    with 2(3) i valid_ref_iff [OF shape i 2(2)] show False
      by (auto simp: less_eq_entity_state_t_def split: if_splits)
  qed
  moreover have "length (entity_states e) = k_max_entities" using shape by (simp add: ecs_shape_def)
  ultimately have "seq_inv e'"
    using seq i unfolding seq_inv_def 2(4) by (simp add: nth_list_update)
  with shape show ?thesis unfolding 2(4) by (simp add: ecs_inv_def ecs_shape_def)
qed

definition register_fits :: "u64 \<Rightarrow> u64 \<Rightarrow> bool" where
  "register_fits size_per_component alignment \<longleftrightarrow>
     unat (align_component size_per_component alignment) * k_max_entities < 2 ^ 64"

lemma ecs_register_cases:
  assumes "ecs_register_component_type m e name sz al sv = Inr (m', e', ct)"
  obtains (full) "m' = m" "e' = e" "ct = -1" "\<forall>i < k_max_component_types. components e ! i \<noteq> None"
  | (slot) i m1 p where "i < k_max_component_types" "components e ! i = None"
      "\<forall>j < i. components e ! j \<noteq> None" "ct = int i" "length name < 32"
      "heap_alloc m (unat (align_component sz al * word_of_nat k_max_entities)) (unat al) = (m1, p)"
      "memset m1 p 0 (unat (align_component sz al * word_of_nat k_max_entities)) = Inr m'"
      "e' = e\<lparr>component_type_names := (component_type_names e)[i := name],
              component_type_sizes := (component_type_sizes e)[i := align_component sz al],
              components := (components e)[i := p],
              save_component := (save_component e)[i := sv]\<rparr>"
proof (cases "find_from (\<lambda>i. components e ! i = None) 0 k_max_component_types")
  case None
  then have a: "\<forall>i < k_max_component_types. components e ! i \<noteq> None"
    by (simp add: find_from_None_iff)
  show thesis
    by (rule full) (use None a assms in \<open>simp_all add: ecs_register_component_type_def\<close>)
next
  case (Some i)
  then have i: "i < k_max_component_types \<and> components e ! i = None \<and>
      (\<forall>j < i. components e ! j \<noteq> None)"
    by (simp add: find_from_Some_iff)
  let ?n = "unat (align_component sz al * word_of_nat k_max_entities)"
  obtain m1 p where a: "heap_alloc m ?n (unat al) = (m1, p)" by (cases "heap_alloc m ?n (unat al)")
  show thesis
    by (rule slot [of i m1 p])
      (use Some a assms i in \<open>simp_all add: ecs_register_component_type_def Let_def bind_ok_Inr_iff
          split: if_splits\<close>)
qed

lemma ecs_register_inv:
  assumes "ecs_inv e" and "ecs_register_component_type m e name sz al sv = Inr (m', e', ct)"
  shows "ecs_inv e'"
  using assms(2)
proof (cases rule: ecs_register_cases)
  case full
  with assms(1) show ?thesis by simp
next
  case (slot i m1 p)
  from assms(1) show ?thesis unfolding slot(8) by (simp add: ecs_inv_def ecs_shape_def seq_inv_def)
qed

end
