(* ===== verification/Handles.thy ===== *)
theory Handles
  imports Engine_Prelude
begin

text \<open>
  The interface between a table of generation-counted slots and the code that keeps weak
  references into it: a reference that was issued and is dead stays dead, whatever the table
  does afterwards.  The entity component system provides it; the game, the renderer and the
  replication layer rely on it when they keep an \<^verbatim>\<open>ecs_entity_ref_t\<close> across frames.
\<close>

locale handle_table =
  fixes step :: "'s \<Rightarrow> 's \<Rightarrow> bool"
    and ok :: "'s \<Rightarrow> bool"
    and issued :: "'s \<Rightarrow> 'r \<Rightarrow> bool"
    and live :: "'s \<Rightarrow> 'r \<Rightarrow> bool"
  assumes step_ok: "ok s \<Longrightarrow> step s s' \<Longrightarrow> ok s'"
    and issued_step: "ok s \<Longrightarrow> step s s' \<Longrightarrow> issued s r \<Longrightarrow> issued s' r"
    and dead_step: "ok s \<Longrightarrow> step s s' \<Longrightarrow> issued s r \<Longrightarrow> \<not> live s r \<Longrightarrow> \<not> live s' r"
begin

lemma steps_ok: "step\<^sup>*\<^sup>* s s' \<Longrightarrow> ok s \<Longrightarrow> ok s'"
  by (induction rule: rtranclp_induct) (auto intro: step_ok)

lemma steps_issued: "step\<^sup>*\<^sup>* s s' \<Longrightarrow> ok s \<Longrightarrow> issued s r \<Longrightarrow> issued s' r"
  by (induction rule: rtranclp_induct) (auto intro: issued_step steps_ok)

lemma dead_forever:
  "step\<^sup>*\<^sup>* s s' \<Longrightarrow> ok s \<Longrightarrow> issued s r \<Longrightarrow> \<not> live s r \<Longrightarrow> \<not> live s' r"
  by (induction rule: rtranclp_induct) (auto dest: dead_step steps_ok steps_issued)

text \<open>Contrapositive: a reference that is live now was live at every moment since it was issued.\<close>

lemma live_throughout:
  "step\<^sup>*\<^sup>* s s1 \<Longrightarrow> step\<^sup>*\<^sup>* s1 s2 \<Longrightarrow> ok s \<Longrightarrow> issued s r \<Longrightarrow> live s2 r \<Longrightarrow> live s1 r"
  using dead_forever steps_ok steps_issued by blast

end

end
