(* ===== verification/Ecs_Refs.thy ===== *)
theory Ecs_Refs
  imports Ecs Handles
begin

text \<open>
  The entity table as a state machine: the step relation of the calls that change it in place, the
  weak-reference guarantee (by interpretation of \<open>handle_table\<close>), the life cycle of one entity
  over the frame update, and the query loop.
\<close>

section \<open>The step relation\<close>

text \<open>
  One step is one call of \<^verbatim>\<open>ecs_register_component_type\<close>, \<^verbatim>\<open>ecs_entity_add\<close>, \<^verbatim>\<open>ecs_entity_remove\<close> or
  \<^verbatim>\<open>ecs_update\<close>: the calls that change the tables in place.  \<^verbatim>\<open>ecs_load_game\<close>, which replaces the tables
  by those of a file, is not a step (it is in \<open>Ecs_Save\<close>): what is proved of these steps is about
  the time between two loads, and \<open>ecs_load_revives_stale_reference\<close> and
  \<open>ecs_load_leaves_dangling_components\<close> there show that it does not extend over a load.  \<open>step_add\<close>
  excludes the addition that would wrap \<^verbatim>\<open>global_sequence\<close> to 0, the one at which a generation number
  could be drawn a second time; \<open>step_register\<close> excludes component sizes whose 512-fold does not fit
  a \<^verbatim>\<open>size_t\<close>.
\<close>

inductive ecs_step :: "mem \<times> ecs_t \<Rightarrow> mem \<times> ecs_t \<Rightarrow> bool" where
  step_register: "ecs_register_component_type m e name sz al sv = Inr (m', e', ct) \<Longrightarrow>
     register_fits sz al \<Longrightarrow> ecs_step (m, e) (m', e')"
| step_add: "global_sequence e \<noteq> -1 \<Longrightarrow> ecs_step (m, e) (m, fst (ecs_entity_add e cm))"
| step_remove: "ecs_entity_remove e r a = Inr e' \<Longrightarrow> ecs_step (m, e) (m, e')"
| step_update: "ecs_step (m, e) (m, ecs_update e)"

inductive_cases ecs_stepE: "ecs_step (m, e) (m', e')"

lemmas ecs_step_cases = ecs_stepE [consumes 1, case_names register add remove update]

definition ref_issued :: "ecs_t \<Rightarrow> ecs_entity_ref_t \<Rightarrow> bool" where
  "ref_issued e r \<longleftrightarrow> 0 \<le> ref_entity r \<and> ref_entity r < int k_max_entities \<and>
     0 < unat (ref_sequence r) \<and> unat (ref_sequence r) < unat (global_sequence e)"

definition ref_live :: "ecs_t \<Rightarrow> ecs_entity_ref_t \<Rightarrow> bool" where
  "ref_live e r \<longleftrightarrow> ecs_is_entity_ref_valid e r True = Inr True"

lemma ref_issued_index:
  assumes "ref_issued e r"
  obtains i where "i < k_max_entities" "ref_entity r = int i"
  using assms that [of "nat (ref_entity r)"] by (auto simp: ref_issued_def)

lemma ref_live_iff:
  assumes "ecs_shape e" and "i < k_max_entities" and "ref_entity r = int i"
  shows "ref_live e r \<longleftrightarrow>
     sequences e ! i = ref_sequence r \<and> k_entity_pending_add \<le> entity_states e ! i"
  using valid_ref_iff [OF assms, of True True] by (simp add: ref_live_def)

lemma ecs_step_inv: "ecs_step (m, e) (m', e') \<Longrightarrow> ecs_inv e \<Longrightarrow> ecs_inv e'"
  by (elim ecs_stepE)
    (auto intro: ecs_register_inv ecs_add_inv ecs_remove_inv ecs_update_inv)

lemma ecs_update_state_live:
  "k_entity_pending_add \<le> ecs_update_state s \<Longrightarrow> k_entity_pending_add \<le> s"
  by (auto simp: ecs_update_state_def less_eq_entity_state_t_def split: if_splits)

lemma ecs_add_sequence:
  "global_sequence e \<noteq> -1 \<Longrightarrow> unat (global_sequence e) \<le> unat (global_sequence (fst (ecs_entity_add e cm)))"
  by (cases rule: ecs_add_cases [of e cm]) (simp_all add: word_plus_one_gt)

lemma ecs_step_sequence:
  "ecs_step (m, e) (m', e') \<Longrightarrow> unat (global_sequence e) \<le> unat (global_sequence e')"
  by (elim ecs_stepE)
    (auto elim!: ecs_register_cases ecs_remove_cases simp: ecs_add_sequence)

lemma ecs_step_issued: "ecs_step (m, e) (m', e') \<Longrightarrow> ref_issued e r \<Longrightarrow> ref_issued e' r"
  using ecs_step_sequence [of m e m' e'] by (auto simp: ref_issued_def)

lemma ecs_step_dead:
  assumes step: "ecs_step (m, e) (m', e')" and inv: "ecs_inv e"
    and iss: "ref_issued e r" and dead: "\<not> ref_live e r"
  shows "\<not> ref_live e' r"
proof -
  from iss obtain i where i: "i < k_max_entities" "ref_entity r = int i" by (rule ref_issued_index)
  have shape: "ecs_shape e" and shape': "ecs_shape e'"
    using inv ecs_step_inv [OF step inv] by (simp_all add: ecs_inv_def)
  note live = ref_live_iff [OF shape i] and live' = ref_live_iff [OF shape' i]
  from step show ?thesis
  proof (cases rule: ecs_step_cases)
    case register
    from register(1) have "global_sequence e' = global_sequence e \<and> sequences e' = sequences e \<and>
        entity_states e' = entity_states e"
      by (cases rule: ecs_register_cases) auto
    with iss dead live live' show ?thesis by (simp add: ref_issued_def)
  next
    case (add cm)
    show ?thesis
    proof (cases rule: ecs_add_cases [of e cm])
      case full
      with add iss dead show ?thesis by simp
    next
      case (slot j)
      have e': "e' = fst (ecs_entity_add e cm)" using add by simp
      have seq: "sequences e' ! i = (if i = j then global_sequence e else sequences e ! i)"
        and st: "entity_states e' ! i = (if i = j then k_entity_pending_add else entity_states e ! i)"
        using i slot(1) shape unfolding e' slot(4) by (simp_all add: ecs_shape_def nth_list_update)
      have new: "ref_sequence r \<noteq> global_sequence e" using iss by (auto simp: ref_issued_def)
      show ?thesis
        using dead new live unfolding live' seq st by (cases "i = j") auto
    qed
  next
    case (remove r' a)
    from remove(2) show ?thesis
    proof (cases rule: ecs_remove_cases)
      case 1
      with iss dead show ?thesis by simp
    next
      case (2 j)
      from 2(3) obtain k where k: "ref_entity r' = int k" "sequences e ! k = ref_sequence r'"
          "(if a then k_entity_pending_add else k_entity_active) \<le> entity_states e ! k"
        by (rule valid_ref_range [OF shape])
      then have "k_entity_pending_add \<le> entity_states e ! j"
        using 2(2) by (auto simp: less_eq_entity_state_t_def split: if_splits)
      then have "k_entity_pending_add \<le> entity_states e ! i" if "i = j" using that by simp
      with iss dead live live' show ?thesis
        using 2(1) unfolding 2(4) by (auto simp: ref_issued_def nth_list_update)
    qed
  next
    case update
    have "entity_states e' ! i = ecs_update_state (entity_states e ! i)"
      using update i shape by (simp add: ecs_update_def ecs_shape_def)
    with update iss dead live live' ecs_update_state_live show ?thesis
      by (auto simp: ref_issued_def)
  qed
qed

interpretation ecs_refs: handle_table ecs_step "\<lambda>s. ecs_inv (snd s)"
  "\<lambda>s. ref_issued (snd s)" "\<lambda>s. ref_live (snd s)"
  by unfold_locales (auto dest: ecs_step_inv ecs_step_issued ecs_step_dead)

lemmas ecs_step_facts = ecs_step_inv ecs_step_issued ecs_step_dead

section \<open>The query loop\<close>

text \<open>
  \<^verbatim>\<open>for (q = ecs_query_create(ecs, mask); ecs_query_is_valid(ecs, &q); ecs_query_next(ecs, &q))\<close>:
  the entities at which the body runs.
\<close>

lemma ecs_query_next_entity:
  "q_entity (ecs_query_next e q) = -1 \<or>
   (q_entity q < q_entity (ecs_query_next e q) \<and> q_entity (ecs_query_next e q) < int k_max_entities)"
  by (auto simp: ecs_query_next_def split: option.splits dest!: find_from_SomeD)

function query_visits :: "ecs_t \<Rightarrow> ecs_query_t \<Rightarrow> int list" where
  "query_visits e q =
     (if ecs_query_is_valid q then q_entity q # query_visits e (ecs_query_next e q) else [])"
  by pat_completeness auto
termination
proof (relation "measure (\<lambda>(e, q). if q_entity q < 0 then 0 else Suc (k_max_entities - nat (q_entity q)))",
    goal_cases)
  case 1
  show ?case by simp
next
  case (2 e q)
  then show ?case
    using ecs_query_next_entity [of e q] by (auto simp: ecs_query_is_valid_def)
qed

declare query_visits.simps [simp del]

lemma query_next_mask [simp]: "q_component_mask (ecs_query_next e q) = q_component_mask q"
  by (simp add: ecs_query_next_def split: option.splits)

lemma filter_upt_find:
  "map int (filter P [lo..<n]) =
     (case find_from P lo n of None \<Rightarrow> [] | Some i \<Rightarrow> int i # map int (filter P [Suc i..<n]))"
proof (induction P lo n rule: find_from.induct)
  case (1 P lo n)
  show ?case
  proof (cases "lo < n")
    case True
    then have "[lo..<n] = lo # [Suc lo..<n]" by (rule upt_conv_Cons)
    with True 1 show ?thesis by (cases "P lo") (simp_all add: find_from.simps [of P lo n])
  next
    case False
    then show ?thesis by (simp add: find_from.simps [of P lo n])
  qed
qed

lemma query_visits_next:
  assumes "-1 \<le> q_entity q"
  shows "query_visits e (ecs_query_next e q) =
    map int (filter (query_matches e (q_component_mask q)) [nat (q_entity q + 1)..<k_max_entities])"
  using assms
proof (induction "k_max_entities - nat (q_entity q + 1)" arbitrary: q rule: less_induct)
  case less
  let ?P = "query_matches e (q_component_mask q)" and ?lo = "nat (q_entity q + 1)"
  show ?case
  proof (cases "find_from ?P ?lo k_max_entities")
    case None
    with less.prems show ?thesis
      by (simp add: filter_upt_find ecs_query_next_def query_visits.simps [of e "_\<lparr>q_entity := -1\<rparr>"]
          ecs_query_is_valid_def)
  next
    case (Some i)
    let ?q = "q\<lparr>q_entity := int i\<rparr>"
    from Some have i: "?lo \<le> i" "i < k_max_entities" by (auto dest!: find_from_SomeD)
    then have "k_max_entities - nat (q_entity ?q + 1) < k_max_entities - ?lo" by simp
    moreover have "-1 \<le> q_entity ?q" by simp
    ultimately have "query_visits e (ecs_query_next e ?q) =
        map int (filter (query_matches e (q_component_mask ?q)) [nat (q_entity ?q + 1)..<k_max_entities])"
      by (rule less.hyps)
    moreover have "nat (int i + 1) = Suc i" by simp
    ultimately have "query_visits e ?q = int i # map int (filter ?P [Suc i..<k_max_entities])"
      by (simp add: query_visits.simps [of e ?q] ecs_query_is_valid_def)
    moreover have "ecs_query_next e q = ?q"
      using Some less.prems by (simp add: ecs_query_next_def)
    ultimately show ?thesis using Some by (simp add: filter_upt_find [of _ ?lo])
  qed
qed

end
