(* ===== verification/Ecs_Store.thy ===== *)
theory Ecs_Store
  imports Ecs_Refs
begin

text \<open>
  Where the entity component system keeps its component data: the rounding of component sizes,
  the storage invariant (every registered type owns a live block of 512 elements, no two types
  share one), the addresses handed out, and the release of everything by \<^verbatim>\<open>ecs_destroy\<close>.
\<close>

section \<open>Rounding up to the alignment\<close>

lemma align_component_unat:
  assumes "k < 64" and "unat sz + 2 ^ k - 1 < 2 ^ 64"
  shows "unat (align_component sz (2 ^ k)) = (unat sz + (2 ^ k - 1)) div 2 ^ k * 2 ^ k"
proof -
  have m: "(2 ^ k - 1 :: u64) = mask k" by (simp add: mask_eq_exp_minus_1)
  have um: "unat (mask k :: u64) = 2 ^ k - 1"
    using assms(1) by (simp add: unat_mask_small)
  have "unat (sz + mask k) = unat sz + (2 ^ k - 1)"
    using assms(2) um by (subst unat_add_lem [THEN iffD1]) (simp_all add: um)
  then show ?thesis
    by (simp add: align_component_def m and_not_mask_unat minus_mod_eq_div_mult)
qed

section \<open>The storage invariant\<close>

text \<open>
  \<open>m0\<close> is the memory before \<^verbatim>\<open>ecs_create\<close>: what is live beyond it is exactly the system's own
  block and the component blocks.
\<close>

definition store_inv :: "mem \<Rightarrow> mem \<Rightarrow> ecs_t \<Rightarrow> bool" where
  "store_inv m0 m e \<longleftrightarrow>
     mem_ok m \<and> ecs_shape e \<and>
     (\<exists>s. ecs_self e = Some s \<and> block_size m s = Some sizeof_ecs_t \<and> block_size m0 s = None) \<and>
     (\<forall>i < k_max_component_types. \<forall>p. components e ! i = Some p \<longrightarrow>
        block_size m p = Some (unat (component_type_sizes e ! i) * k_max_entities) \<and>
        block_size m0 p = None \<and> ecs_self e \<noteq> Some p \<and>
        unat (component_type_sizes e ! i) * k_max_entities < 2 ^ 64) \<and>
     (\<forall>i < k_max_component_types. \<forall>j < k_max_component_types.
        components e ! i = components e ! j \<longrightarrow> components e ! i \<noteq> None \<longrightarrow> i = j) \<and>
     (\<forall>q. Some q \<notin> set (components e) \<longrightarrow> ecs_self e \<noteq> Some q \<longrightarrow>
        block_size m q = block_size m0 q)"

lemma store_invD:
  assumes "store_inv m0 m e"
  shows store_inv_mem: "mem_ok m" and store_inv_shape: "ecs_shape e"
    and store_inv_self: "\<exists>s. ecs_self e = Some s \<and> block_size m s = Some sizeof_ecs_t \<and> block_size m0 s = None"
    and store_inv_comp: "i < k_max_component_types \<Longrightarrow> components e ! i = Some p \<Longrightarrow>
        block_size m p = Some (unat (component_type_sizes e ! i) * k_max_entities) \<and>
        block_size m0 p = None \<and> ecs_self e \<noteq> Some p \<and>
        unat (component_type_sizes e ! i) * k_max_entities < 2 ^ 64"
    and store_inv_inj: "i < k_max_component_types \<Longrightarrow> j < k_max_component_types \<Longrightarrow>
        components e ! i = components e ! j \<Longrightarrow> components e ! i \<noteq> None \<Longrightarrow> i = j"
    and store_inv_rest: "Some q \<notin> set (components e) \<Longrightarrow> ecs_self e \<noteq> Some q \<Longrightarrow>
        block_size m q = block_size m0 q"
  using assms unfolding store_inv_def by blast+

lemma block_size_memset: "memset m p v n = Inr m' \<Longrightarrow> block_size m' q = block_size m q"
  by (simp add: memset_def block_size_write)

lemma mem_ok_memset: "mem_ok m \<Longrightarrow> memset m p v n = Inr m' \<Longrightarrow> mem_ok m'"
  by (simp add: memset_def mem_ok_write)

lemma ecs_create_store:
  assumes ok: "mem_ok m0" and c: "ecs_create m0 = Inr (m, e)"
  shows "store_inv m0 m e"
proof -
  obtain m1 p where a: "heap_alloc m0 sizeof_ecs_t 8 = (m1, p)" by (cases "heap_alloc m0 sizeof_ecs_t 8")
  with c obtain ms: "memset m1 p 0 sizeof_ecs_t = Inr m"
    and e: "e = (ecs_cleared p)\<lparr>global_sequence := 1\<rparr>"
    by (auto simp: ecs_create_def outcome_simps)
  then obtain s where s: "p = Some s"
    by (cases p) (auto simp: memset_def mem_write_def sizeof_ecs_t_def split: if_splits)
  have ok1: "mem_ok m1" using mem_ok_alloc [OF ok, of sizeof_ecs_t 8] a by simp
  have bs: "block_size m q = block_size m1 q" for q using ms by (rule block_size_memset)
  note facts = heap_mem.alloc_fresh [OF ok a [unfolded s]] heap_mem.alloc_size [OF ok a [unfolded s]]
    heap_mem.alloc_other [OF ok a [unfolded s]]
  show ?thesis
    unfolding store_inv_def
    using mem_ok_memset [OF ok1 ms] facts s e bs
    by (auto simp: ecs_cleared_def ecs_shape_def)
qed

lemma store_inv_cong:
  assumes "store_inv m0 m e" and "ecs_shape e'" and "ecs_self e' = ecs_self e"
    and "components e' = components e" and "component_type_sizes e' = component_type_sizes e"
  shows "store_inv m0 m e'"
  using assms unfolding store_inv_def by simp

lemma ecs_register_store:
  assumes inv: "store_inv m0 m e" and fits: "register_fits sz al"
    and r: "ecs_register_component_type m e name sz al sv = Inr (m', e', ct)"
  shows "store_inv m0 m' e'"
  using r
proof (cases rule: ecs_register_cases)
  case full
  with inv show ?thesis by simp
next
  case (slot i m1 p)
  note shape = store_inv_shape [OF inv]
  have shape': "ecs_shape e'" using shape unfolding slot(8) by (simp add: ecs_shape_def)
  let ?n = "unat (align_component sz al * word_of_nat k_max_entities)"
  have n: "?n = unat (align_component sz al) * k_max_entities"
    using fits by (simp add: register_fits_def unat_word_ariths unat_of_nat k_max_entities_def)
  have ok1: "mem_ok m1" using mem_ok_alloc [OF store_inv_mem [OF inv], of ?n "unat al"] slot(6) by simp
  have ok': "mem_ok m'" using ok1 slot(7) by (rule mem_ok_memset)
  have bs: "block_size m' q = block_size m1 q" for q using slot(7) by (rule block_size_memset)
  have len: "length (components e) = k_max_component_types"
    "length (component_type_sizes e) = k_max_component_types"
    using shape by (simp_all add: ecs_shape_def)
  have self: "ecs_self e' = ecs_self e" unfolding slot(8) by simp
  have ce: "components e' ! j = (if j = i then p else components e ! j)"
    and se: "component_type_sizes e' ! j =
      (if j = i then align_component sz al else component_type_sizes e ! j)" for j
    using len slot(1) unfolding slot(8) by (simp_all add: nth_list_update)
  have kept: "block_size m' x = block_size m x" if "p \<noteq> Some x" for x
    using that heap_alloc_None [of m ?n "unat al" m1] slot(6) bs
      heap_mem.alloc_other [OF store_inv_mem [OF inv], of ?n "unat al" m1]
    by (cases p) auto
  have new: "block_size m q = None \<and> block_size m' q = Some ?n \<and> block_size m0 q = None" if "p = Some q" for q
  proof -
    have a: "heap_alloc m ?n (unat al) = (m1, Some q)" using slot(6) that by simp
    note fresh = heap_mem.alloc_fresh [OF store_inv_mem [OF inv] a]
      and sized = heap_mem.alloc_size [OF store_inv_mem [OF inv] a]
    have "block_size m0 q = None"
    proof (rule ccontr)
      assume "block_size m0 q \<noteq> None"
      moreover have "Some q \<notin> set (components e)"
      proof
        assume "Some q \<in> set (components e)"
        then obtain k where "k < k_max_component_types" "components e ! k = Some q"
          using len(1) by (auto simp: in_set_conv_nth)
        then show False using store_inv_comp [OF inv, of k q] fresh by simp
      qed
      moreover have "ecs_self e \<noteq> Some q" using fresh store_inv_self [OF inv] by auto
      ultimately show False using fresh store_inv_rest [OF inv] by auto
    qed
    with fresh sized bs show ?thesis by simp
  qed
  have old_live: "p \<noteq> Some x" if "block_size m x \<noteq> None" for x
    using that new by (metis option.distinct(1))
  have in_comp: "Some x \<in> set (components e')" if a: "p = Some x \<or> Some x \<in> set (components e)" for x
  proof -
    have "\<exists>j < k_max_component_types. components e' ! j = Some x"
    proof (cases "p = Some x")
      case True
      then show ?thesis using ce slot(1) by auto
    next
      case False
      then obtain j where "j < k_max_component_types" "components e ! j = Some x"
        using a len by (auto simp: in_set_conv_nth)
      then show ?thesis using ce slot(2) by (intro exI [of _ j]) auto
    qed
    then show ?thesis using shape' by (auto simp: ecs_shape_def in_set_conv_nth)
  qed
  show ?thesis
    unfolding store_inv_def
  proof (intro conjI allI impI)
    show "\<exists>s. ecs_self e' = Some s \<and> block_size m' s = Some sizeof_ecs_t \<and> block_size m0 s = None"
      using store_inv_self [OF inv] kept old_live unfolding self by (metis option.distinct(1))
  next
    fix j x assume j: "j < k_max_component_types" "components e' ! j = Some x"
    show "block_size m' x = Some (unat (component_type_sizes e' ! j) * k_max_entities) "
      using j ce se new n kept old_live store_inv_comp [OF inv] by (cases "j = i") auto
    show "block_size m0 x = None"
      using j ce new store_inv_comp [OF inv] by (cases "j = i") auto
    show "unat (component_type_sizes e' ! j) * k_max_entities < 2 ^ 64"
      using j ce se fits store_inv_comp [OF inv] by (cases "j = i") (auto simp: register_fits_def)
    show "ecs_self e' \<noteq> Some x"
      using j ce new store_inv_comp [OF inv] store_inv_self [OF inv] unfolding self by (cases "j = i") auto
  next
    fix j k assume jk: "j < k_max_component_types" "k < k_max_component_types"
      "components e' ! j = components e' ! k" "components e' ! j \<noteq> None"
    then obtain x where x: "components e' ! j = Some x" by auto
    have other: "components e ! l \<noteq> p" if "l < k_max_component_types" "p \<noteq> None" for l
      using that store_inv_comp [OF inv] new by fastforce
    show "j = k"
      using jk ce other store_inv_inj [OF inv] by (cases "j = i"; cases "k = i") auto
  next
    fix x assume "Some x \<notin> set (components e')" "ecs_self e' \<noteq> Some x"
    with in_comp kept store_inv_rest [OF inv] self show "block_size m' x = block_size m0 x" by metis
  qed (use ok' shape' in auto)
qed

lemma store_inv_step:
  assumes "ecs_step (m, e) (m', e')" and inv: "store_inv m0 m e"
  shows "store_inv m0 m' e'"
  using assms(1)
proof (cases rule: ecs_step_cases)
  case register
  with inv show ?thesis by (blast intro: ecs_register_store)
next
  case (add cm)
  with inv show ?thesis
    by (cases rule: ecs_add_cases [of e cm])
      (auto intro!: store_inv_cong [OF inv] simp: store_inv_shape [OF inv, unfolded ecs_shape_def] ecs_shape_def)
next
  case (remove r a)
  from remove(2) show ?thesis
    using remove(1) inv
    by (cases rule: ecs_remove_cases)
      (auto intro!: store_inv_cong [OF inv] simp: store_inv_shape [OF inv, unfolded ecs_shape_def] ecs_shape_def)
next
  case update
  with inv show ?thesis
    by (auto intro!: store_inv_cong [OF inv]
        simp: store_inv_shape [OF inv, unfolded ecs_shape_def] ecs_shape_def ecs_update_def)
qed

lemma store_inv_steps:
  "ecs_step\<^sup>*\<^sup>* s s' \<Longrightarrow> store_inv m0 (fst s) (snd s) \<Longrightarrow> store_inv m0 (fst s') (snd s')"
  by (induction rule: rtranclp_induct) (auto dest: store_inv_step split: prod.splits)

section \<open>Addresses of components\<close>

lemma elem_offset:
  assumes "unat sz * k_max_entities < 2 ^ 64" and "i < k_max_entities"
  shows "unat (sz * word_of_int (int i) :: u64) = unat sz * i"
proof -
  have "unat sz * i \<le> unat sz * k_max_entities" using assms(2) by (intro mult_le_mono2) simp
  then have "unat sz * i < 2 ^ 64" using assms(1) by (rule le_less_trans)
  moreover have "i < 2 ^ 64" using assms(2) by (simp add: k_max_entities_def)
  ultimately show ?thesis by (simp add: unat_word_ariths unat_of_nat)
qed

lemma ecs_component_address:
  assumes inv: "store_inv m0 m e" and v: "ecs_is_entity_ref_valid e r a = Inr True"
    and ct: "ct < k_max_component_types" and p: "components e ! ct = Some p"
  obtains i where "i < k_max_entities" "ref_entity r = int i"
    "ecs_entity_get_component e r (int ct) a =
       Inr (Some (fst p, unat (component_type_sizes e ! ct) * i))"
    "\<exists>bs. blocks m (fst p) = Some bs \<and>
       length bs = unat (component_type_sizes e ! ct) * k_max_entities"
proof -
  note shape = store_inv_shape [OF inv] and c = store_inv_comp [OF inv ct p]
  from shape v obtain i where i: "i < k_max_entities" "ref_entity r = int i"
    by (rule valid_ref_range)
  have bs: "snd p = 0" "\<exists>bs. blocks m (fst p) = Some bs \<and>
       length bs = unat (component_type_sizes e ! ct) * k_max_entities"
    using c by (auto simp: block_size_def split: if_splits)
  have "length (components e) = k_max_component_types"
    "length (component_type_sizes e) = k_max_component_types"
    using shape by (simp_all add: ecs_shape_def)
  then have "ecs_entity_get_component e r (int ct) a =
       Inr (Some (fst p, unat (component_type_sizes e ! ct) * i))"
    using v i ct p c elem_offset [of "component_type_sizes e ! ct" i] bs(1)
    by (cases p) (simp add: ecs_entity_get_component_def elem_ptr_def)
  with i show thesis using bs(2) by (rule that)
qed

text \<open>Element ranges of one array are disjoint.\<close>

lemma elem_ranges_disjoint: "(i :: nat) \<noteq> j \<Longrightarrow> n * i + n \<le> n * j \<or> n * j + n \<le> n * i"
  by (metis Suc_leI linorder_neqE_nat mult_Suc_right mult_le_mono2 add.commute)

lemma elem_range_in_block: "(i :: nat) < k \<Longrightarrow> n * i + n \<le> n * k"
  by (metis Suc_leI mult_Suc_right mult_le_mono2 add.commute)

lemma component_blocks_separate:
  assumes inv: "store_inv m0 m e" and c1: "c1 < k_max_component_types" "components e ! c1 = Some p1"
    and c2: "c2 < k_max_component_types" "components e ! c2 = Some p2" and "i \<noteq> j \<or> c1 \<noteq> c2"
  shows "fst p1 \<noteq> fst p2 \<or> (c1 = c2 \<and> i \<noteq> j)"
proof (cases "c1 = c2")
  case False
  then have "p1 \<noteq> p2" using store_inv_inj [OF inv c1(1) c2(1)] c1(2) c2(2) by auto
  moreover have "snd p1 = 0" "snd p2 = 0"
    using store_inv_comp [OF inv c1] store_inv_comp [OF inv c2] by (auto simp: block_size_def split: if_splits)
  ultimately show ?thesis by (simp add: prod_eq_iff)
qed (use assms(6) in simp)

section \<open>Releasing everything\<close>

lemma free_components_all:
  assumes "mem_ok m" and "distinct (filter (\<lambda>p. p \<noteq> None) ps)"
    and "\<forall>p. Some p \<in> set ps \<longrightarrow> block_size m p \<noteq> None"
  shows "\<exists>m'. free_components m ps = Inr m' \<and> mem_ok m' \<and>
    (\<forall>q. block_size m' q = (if Some q \<in> set ps then None else block_size m q))"
  using assms
proof (induction ps arbitrary: m)
  case Nil
  then show ?case by simp
next
  case (Cons p ps)
  show ?case
  proof (cases p)
    case None
    with Cons show ?thesis by simp
  next
    case (Some x)
    with Cons.prems obtain m1 where m1: "heap_free m (Some x) = Inr m1"
      using heap_mem.free_live by fastforce
    have ok1: "mem_ok m1" using Cons.prems(1) m1 by (rule mem_ok_free)
    have gone: "block_size m1 x = None" and other: "\<And>q. q \<noteq> x \<Longrightarrow> block_size m1 q = block_size m q"
      using heap_mem.free_gone [OF Cons.prems(1) m1] heap_mem.free_other [OF Cons.prems(1) m1] by auto
    have "Some x \<notin> set ps" using Cons.prems(2) Some by auto
    moreover have "distinct (filter (\<lambda>p. p \<noteq> None) ps)" using Cons.prems(2) Some by simp
    ultimately obtain m' where "free_components m1 ps = Inr m'" "mem_ok m'"
      "\<forall>q. block_size m' q = (if Some q \<in> set ps then None else block_size m1 q)"
      using Cons.IH [OF ok1] Cons.prems(3) other by (metis list.set_intros(2))
    with Some m1 gone other show ?thesis by auto
  qed
qed

lemma distinct_filter_nth:
  "(\<And>i j. i < length xs \<Longrightarrow> j < length xs \<Longrightarrow> xs ! i = xs ! j \<Longrightarrow> P (xs ! i) \<Longrightarrow> i = j) \<Longrightarrow>
   distinct (filter P xs)"
proof (induction xs)
  case Nil
  then show ?case by simp
next
  case (Cons x xs)
  have "distinct (filter P xs)"
    by (rule Cons.IH) (use Cons.prems [of "Suc _" "Suc _"] in auto)
  moreover have "x \<notin> set xs" if "P x"
    using Cons.prems [of 0 "Suc _"] that by (auto simp: in_set_conv_nth)
  ultimately show ?case by auto
qed

lemma ecs_destroy_store:
  assumes inv: "store_inv m0 m e"
  shows "\<exists>m'. ecs_destroy m e = Inr m' \<and> mem_ok m' \<and> (\<forall>q. block_size m' q = block_size m0 q)"
proof -
  have len: "length (components e) = k_max_component_types"
    using store_inv_shape [OF inv] by (simp add: ecs_shape_def)
  from store_inv_self [OF inv] obtain s where s: "ecs_self e = Some s" "block_size m s = Some sizeof_ecs_t"
    "block_size m0 s = None" by auto
  have "distinct (filter (\<lambda>p. p \<noteq> None) (components e))"
    using store_inv_inj [OF inv] len by (intro distinct_filter_nth) auto
  moreover have comp: "\<forall>p. Some p \<in> set (components e) \<longrightarrow>
      block_size m p \<noteq> None \<and> block_size m0 p = None \<and> ecs_self e \<noteq> Some p"
    using store_inv_comp [OF inv] len by (auto simp: in_set_conv_nth)
  ultimately obtain m1 where m1: "free_components m (components e) = Inr m1" "mem_ok m1"
    "\<forall>q. block_size m1 q = (if Some q \<in> set (components e) then None else block_size m q)"
    using free_components_all [OF store_inv_mem [OF inv]] by blast
  have "Some s \<notin> set (components e)" using comp s(1) by blast
  with s(2) spec [OF m1(3), of s] have "block_size m1 s = Some sizeof_ecs_t" by simp
  then obtain m2 where m2: "heap_free m1 (Some s) = Inr m2" using heap_mem.free_live [OF m1(2), of s] by auto
  have "block_size m2 q = block_size m0 q" for q
  proof (cases "q = s")
    case True
    with heap_mem.free_gone [OF m1(2) m2] s(3) show ?thesis by simp
  next
    case False
    then have "block_size m2 q = block_size m1 q" using heap_mem.free_other [OF m1(2) m2] by simp
    also have "\<dots> = block_size m0 q"
      using spec [OF m1(3), of q] spec [OF comp, of q] store_inv_rest [OF inv, of q] False s(1) by auto
    finally show ?thesis .
  qed
  moreover have "mem_ok m2" using m1(2) m2 by (rule mem_ok_free)
  ultimately show ?thesis using m1(1) m2 s(1) by (auto simp: ecs_destroy_def)
qed

end
