(* ===== verification/Ecs_Props.thy ===== *)
theory Ecs_Props
  imports Ecs_Store
begin

text \<open>
  The properties of the entity component system, each with its witness where it has a
  hypothesis.
\<close>

section \<open>A concrete system for the witnesses\<close>

lemma ecs_create_ok:
  assumes "sizeof_ecs_t \<le> os_avail m"
  obtains m' where "ecs_create m = Inr (m', (ecs_cleared (Some (next_block m, 0)))\<lparr>global_sequence := 1\<rparr>)"
proof -
  obtain m1 p where a: "heap_alloc m sizeof_ecs_t 8 = (m1, p)" by (cases "heap_alloc m sizeof_ecs_t 8")
  have pos: "0 < sizeof_ecs_t" by (simp add: sizeof_ecs_t_def)
  show thesis
    using alloc_clear(1) [OF pos assms a] alloc_clear(2) [OF pos assms a, of 0] a
    by (intro that) (simp add: ecs_create_def)
qed

lemma ecs_cleared_sel [simp]:
  "global_sequence (ecs_cleared p) = 0" "ecs_self (ecs_cleared p) = p"
  "sequences (ecs_cleared p) = replicate k_max_entities 0"
  "entity_states (ecs_cleared p) = replicate k_max_entities k_entity_unused"
  "component_masks (ecs_cleared p) = replicate k_max_entities 0"
  "components (ecs_cleared p) = replicate k_max_component_types None"
  "component_type_sizes (ecs_cleared p) = replicate k_max_component_types 0"
  by (simp_all add: ecs_cleared_def)

lemma ecs_add_slot:
  assumes "i < k_max_entities" and "entity_states e ! i = k_entity_unused"
    and "\<forall>j < i. entity_states e ! j \<noteq> k_entity_unused"
  shows "ecs_entity_add e cm =
     (e\<lparr>entity_states := (entity_states e)[i := k_entity_pending_add],
        sequences := (sequences e)[i := global_sequence e],
        global_sequence := global_sequence e + 1,
        component_masks := (component_masks e)[i := cm]\<rparr>,
      \<lparr>ref_entity = int i, ref_sequence = global_sequence e\<rparr>)"
proof -
  have "find_from (\<lambda>i. entity_states e ! i = k_entity_unused) 0 k_max_entities = Some i"
    using assms by (simp add: find_from_Some_iff)
  then show ?thesis by (simp add: ecs_entity_add_def)
qed

section \<open>References\<close>

text \<open>
  C1. Weak references are safe as long as no game is loaded. Once a reference that
  \<^verbatim>\<open>ecs_entity_add\<close> issued no longer denotes an entity, no later sequence of registrations, additions,
  removals and updates makes it valid again, with either setting of \<open>allow_pending_add\<close>: a
  recycled slot is never reached through a stale reference.  Two things are excluded: that
  \<^verbatim>\<open>global_sequence\<close> wraps, and a call of \<^verbatim>\<open>ecs_load_game\<close>, which brings the tables of the file back and
  with them the references of that time.
\<close>

theorem ecs_stale_reference_stays_stale:
  assumes "ecs_create m0 = Inr s0" and "ecs_step\<^sup>*\<^sup>* s0 s1" and "ref_issued (snd s1) r"
    and "ecs_is_entity_ref_valid (snd s1) r True = Inr False" and "ecs_step\<^sup>*\<^sup>* s1 s2"
  shows "ecs_is_entity_ref_valid (snd s2) r a = Inr False"
proof -
  have "ecs_inv (snd s0)" using assms(1) ecs_create_inv by (cases s0) auto
  then have ok1: "ecs_inv (snd s1)" using assms(2) by (rule ecs_refs.steps_ok [rotated])
  have dead: "\<not> ref_live (snd s2) r"
    using ecs_refs.dead_forever [OF assms(5) ok1 assms(3)] assms(4) by (simp add: ref_live_def)
  have ok2: "ecs_shape (snd s2)"
    using ecs_refs.steps_ok [OF assms(5) ok1] by (simp add: ecs_inv_def)
  from assms(3) obtain i where i: "i < k_max_entities" "ref_entity r = int i" by (rule ref_issued_index)
  from dead ref_live_iff [OF ok2 i] show ?thesis
    unfolding valid_ref_iff [OF ok2 i]
    by (auto simp: less_eq_entity_state_t_def)
qed

theorem ecs_stale_reference_stays_stale_witness:
  "\<exists>m0 s0 s1 s2 r. ecs_create m0 = Inr s0 \<and> ecs_step\<^sup>*\<^sup>* s0 s1 \<and> ecs_step\<^sup>*\<^sup>* s1 s2 \<and>
     ref_issued (snd s1) r \<and> entity_states (snd s2) ! 0 = k_entity_pending_add \<and> ref_entity r = 0 \<and>
     ecs_is_entity_ref_valid (snd s2) r True = Inr False"
proof -
  define e where e: "e = (ecs_cleared (Some (0, 0)))\<lparr>global_sequence := 1\<rparr>"
  obtain m where c: "ecs_create (mem_init 20000 0) = Inr (m, e)"
    by (rule ecs_create_ok [of "mem_init 20000 0"]) (simp_all add: sizeof_ecs_t_def e)
  define e1 where "e1 = fst (ecs_entity_add e 7)"
  define r where "r = snd (ecs_entity_add e 7)"
  define e2 where "e2 = e1\<lparr>entity_states := (entity_states e1)[0 := k_entity_pending_remove]\<rparr>"
  define e3 where "e3 = ecs_update e2"
  define e4 where "e4 = fst (ecs_entity_add e3 9)"
  have len: "0 < k_max_entities" by (simp add: k_max_entities_def)
  have e1': "e1 = e\<lparr>entity_states := (entity_states e)[0 := k_entity_pending_add],
      sequences := (sequences e)[0 := 1], global_sequence := 2,
      component_masks := (component_masks e)[0 := 7]\<rparr>"
    and r': "r = \<lparr>ref_entity = 0, ref_sequence = 1\<rparr>"
    unfolding e1_def r_def using len by (simp_all add: ecs_add_slot [of 0] e)
  have rm: "ecs_entity_remove e1 r True = Inr e2"
    using len unfolding e2_def r' e1' e
    by (simp add: ecs_entity_remove_def ecs_is_entity_ref_valid_def array_get_def array_set_def
        less_eq_entity_state_t_def)
  have s01: "ecs_step\<^sup>*\<^sup>* (m, e) (m, e3)"
  proof -
    have "ecs_step (m, e) (m, e1)" unfolding e1_def by (rule step_add) (simp add: e)
    moreover have "ecs_step (m, e1) (m, e2)" using rm by (rule step_remove)
    moreover have "ecs_step (m, e2) (m, e3)" unfolding e3_def by (rule step_update)
    ultimately show ?thesis by (meson rtranclp.rtrancl_into_rtrancl rtranclp.rtrancl_refl)
  qed
  have e3': "entity_states e3 ! 0 = k_entity_unused" "sequences e3 ! 0 = 1" "global_sequence e3 = 2"
    "length (entity_states e3) = k_max_entities" "length (sequences e3) = k_max_entities"
    using len by (simp_all add: e3_def e2_def e1' e ecs_update_def ecs_update_state_def)
  have s12: "ecs_step\<^sup>*\<^sup>* (m, e3) (m, e4)"
    unfolding e4_def by (rule r_into_rtranclp, rule step_add) (simp add: e3')
  have iss: "ref_issued e3 r" using len by (simp add: ref_issued_def r' e3')
  have inv: "ecs_is_entity_ref_valid e3 r True = Inr False"
    using len e3' by (simp add: ecs_is_entity_ref_valid_def r' array_get_def less_eq_entity_state_t_def)
  have "ecs_is_entity_ref_valid (snd (m, e4)) r True = Inr False"
    by (rule ecs_stale_reference_stays_stale [OF c s01 _ _ s12]) (simp_all add: iss inv)
  moreover have "entity_states e4 ! 0 = k_entity_pending_add"
    using len e3' by (simp add: e4_def ecs_add_slot [of 0])
  ultimately show ?thesis using c s01 s12 iss r'
    by (intro exI [of _ "mem_init 20000 0"] exI [of _ "(m, e)"] exI [of _ "(m, e3)"]
        exI [of _ "(m, e4)"] exI [of _ r]) simp
qed

text \<open>
  C2. The life of an entity. \<^verbatim>\<open>ecs_entity_add\<close> on a table with a free slot returns a reference
  that is valid only with \<open>allow_pending_add\<close> and that no query sees; after the next
  \<^verbatim>\<open>ecs_update\<close> it is valid either way and every query for (part of) its mask matches it;
  after \<^verbatim>\<open>ecs_entity_remove\<close> it stays valid for the rest of the frame, and the next update ends
  it.  References to other slots are not affected by the addition.
\<close>

theorem ecs_entity_life_cycle:
  assumes inv: "ecs_inv e" and free: "\<exists>i < k_max_entities. entity_states e ! i = k_entity_unused"
    and add: "ecs_entity_add e cm = (e1, r)"
  shows "ecs_is_entity_ref_valid e1 r True = Inr True \<and>
    ecs_is_entity_ref_valid e1 r False = Inr False \<and>
    \<not> query_matches e1 qm (nat (ref_entity r)) \<and>
    ecs_is_entity_ref_valid (ecs_update e1) r False = Inr True \<and>
    (qm AND cm = qm \<longrightarrow> query_matches (ecs_update e1) qm (nat (ref_entity r))) \<and>
    (\<exists>e2. ecs_entity_remove (ecs_update e1) r a = Inr e2 \<and>
       ecs_is_entity_ref_valid e2 r False = Inr True \<and>
       ecs_is_entity_ref_valid (ecs_update e2) r True = Inr False) \<and>
    (\<forall>r' b. ref_entity r' \<noteq> ref_entity r \<longrightarrow>
       ecs_is_entity_ref_valid e1 r' b = ecs_is_entity_ref_valid e r' b)"
proof -
  have len: "length (sequences e) = k_max_entities" "length (entity_states e) = k_max_entities"
    "length (component_masks e) = k_max_entities"
    using inv by (simp_all add: ecs_inv_def ecs_shape_def)
  show ?thesis
  proof (cases rule: ecs_add_cases [of e cm])
    case full
    with free show ?thesis by blast
  next
    case (slot i)
    have r: "r = \<lparr>ref_entity = int i, ref_sequence = global_sequence e\<rparr>"
      and e1: "e1 = e\<lparr>entity_states := (entity_states e)[i := k_entity_pending_add],
            sequences := (sequences e)[i := global_sequence e],
            global_sequence := global_sequence e + 1,
            component_masks := (component_masks e)[i := cm]\<rparr>"
      using add slot(4) by simp_all
    have mm: "qm AND cm = qm \<Longrightarrow> cm AND qm = qm" by (simp add: and.commute)
    note defs = ecs_is_entity_ref_valid_def ecs_update_def ecs_update_state_def query_matches_def
      less_eq_entity_state_t_def ecs_entity_remove_def array_set_def array_get_def
    have "ecs_is_entity_ref_valid e1 r' b = ecs_is_entity_ref_valid e r' b"
      if "ref_entity r' \<noteq> int i" for r' b
    proof -
      have "nat (ref_entity r') \<noteq> i" if "0 \<le> ref_entity r'" using \<open>ref_entity r' \<noteq> int i\<close> that by auto
      then show ?thesis
        using len unfolding e1 by (auto simp: ecs_is_entity_ref_valid_def array_get_def bind_ok_def)
    qed
    then show ?thesis
      using slot(1) len mm unfolding r e1 by (simp add: defs)
  qed
qed

theorem ecs_entity_life_cycle_witness:
  "\<exists>e e1 r. ecs_entity_add e 5 = (e1, r) \<and> ref_entity r = 0 \<and>
     ecs_is_entity_ref_valid e1 r False = Inr False \<and>
     query_matches (ecs_update e1) 4 (nat (ref_entity r))"
proof -
  define e where "e = (ecs_cleared None)\<lparr>global_sequence := 1\<rparr>"
  have inv: "ecs_inv e" by (simp add: e_def ecs_inv_def ecs_shape_def seq_inv_def ecs_cleared_def)
  have free: "\<exists>i < k_max_entities. entity_states e ! i = k_entity_unused"
    by (intro exI [of _ 0]) (simp add: e_def k_max_entities_def)
  obtain e1 r where add: "ecs_entity_add e 5 = (e1, r)" by (cases "ecs_entity_add e 5")
  have "ecs_entity_add e 5 = (e\<lparr>entity_states := (entity_states e)[0 := k_entity_pending_add],
      sequences := (sequences e)[0 := 1], global_sequence := 2,
      component_masks := (component_masks e)[0 := 5]\<rparr>, \<lparr>ref_entity = 0, ref_sequence = 1\<rparr>)"
    by (subst ecs_add_slot [of 0]) (simp_all add: e_def k_max_entities_def)
  with add have "ref_entity r = 0" by auto
  then show ?thesis
    using add ecs_entity_life_cycle [OF inv free add, of 4 True]
    by (intro exI [of _ e] exI [of _ e1] exI [of _ r]) simp
qed

section \<open>Queries\<close>

text \<open>
  C3. The query loop is complete, ordered and terminates: the loop that starts with
  \<^verbatim>\<open>ecs_query_create\<close> and advances with \<^verbatim>\<open>ecs_query_next\<close> visits exactly the entities that are
  active (or pending removal) and have all the requested components, each once, in ascending
  order.
\<close>

theorem ecs_query_loop_visits:
  "query_visits e (ecs_query_create e cm) =
     map int (filter (query_matches e cm) [0..<k_max_entities])"
  using query_visits_next [of "\<lparr>q_component_mask = cm, q_entity = -1\<rparr>" e]
  by (simp add: ecs_query_create_def)

section \<open>Component storage\<close>

text \<open>
  C4. Component data of different entities, and of different component types, never overlap:
  in every state reached from \<^verbatim>\<open>ecs_create\<close> by registrations, additions, removals and updates (and
  not by \<^verbatim>\<open>ecs_load_game\<close>), two valid references and two registered types give two addresses inside
  live blocks, and writing a component through one of them leaves the component at the other as it
  was.  The address is given whether or not the type is in the entity's component mask: \<^verbatim>\<open>ecs.h\<close>
  promises a null pointer for a type that is not on the entity, and the code does not look.
\<close>

theorem ecs_component_storage_separate:
  assumes ok: "mem_ok m0" and create: "ecs_create m0 = Inr s0" and steps: "ecs_step\<^sup>*\<^sup>* s0 (m, e)"
    and v1: "ecs_is_entity_ref_valid e r1 True = Inr True"
    and v2: "ecs_is_entity_ref_valid e r2 True = Inr True"
    and c1: "c1 < k_max_component_types" "components e ! c1 = Some p1"
    and c2: "c2 < k_max_component_types" "components e ! c2 = Some p2"
    and diff: "ref_entity r1 \<noteq> ref_entity r2 \<or> c1 \<noteq> c2"
    and len: "length xs = unat (component_type_sizes e ! c1)"
  shows "\<exists>a1 a2 m' ys. ecs_entity_get_component e r1 (int c1) True = Inr (Some a1) \<and>
     ecs_entity_get_component e r2 (int c2) True = Inr (Some a2) \<and>
     mem_write m (Some a1) xs = Inr m' \<and> mem_read m' (Some a1) (length xs) = Inr xs \<and>
     mem_read m (Some a2) (unat (component_type_sizes e ! c2)) = Inr ys \<and>
     mem_read m' (Some a2) (unat (component_type_sizes e ! c2)) = Inr ys"
proof -
  have "store_inv m0 (fst s0) (snd s0)" using ecs_create_store [OF ok] create by (cases s0) auto
  from store_inv_steps [OF steps this] have inv: "store_inv m0 m e" by simp
  from inv v1 c1 obtain i where i: "i < k_max_entities" "ref_entity r1 = int i"
    "ecs_entity_get_component e r1 (int c1) True = Inr (Some (fst p1, unat (component_type_sizes e ! c1) * i))"
    "\<exists>bs. blocks m (fst p1) = Some bs \<and> length bs = unat (component_type_sizes e ! c1) * k_max_entities"
    by (rule ecs_component_address)
  from inv v2 c2 obtain j where j: "j < k_max_entities" "ref_entity r2 = int j"
    "ecs_entity_get_component e r2 (int c2) True = Inr (Some (fst p2, unat (component_type_sizes e ! c2) * j))"
    "\<exists>bs. blocks m (fst p2) = Some bs \<and> length bs = unat (component_type_sizes e ! c2) * k_max_entities"
    by (rule ecs_component_address)
  let ?a1 = "(fst p1, unat (component_type_sizes e ! c1) * i)"
    and ?a2 = "(fst p2, unat (component_type_sizes e ! c2) * j)"
    and ?n2 = "unat (component_type_sizes e ! c2)"
  obtain m' where w: "mem_write m (Some ?a1) xs = Inr m'"
    using i(4) elem_range_in_block [OF i(1), of "unat (component_type_sizes e ! c1)"] len
    by (auto simp: mem_write_def)
  obtain ys where rd: "mem_read m (Some ?a2) ?n2 = Inr ys"
    using j(4) elem_range_in_block [OF j(1), of ?n2] by (auto simp: mem_read_def)
  have "fst p1 \<noteq> fst p2 \<or> (c1 = c2 \<and> i \<noteq> j)"
    using diff i(2) j(2) by (intro component_blocks_separate [OF inv c1 c2]) auto
  then have "mem_read m' (Some ?a2) ?n2 = mem_read m (Some ?a2) ?n2"
    by (intro mem_write_read_disjoint [OF w]) (use len elem_ranges_disjoint in auto)
  then show ?thesis using i(3) j(3) w mem_write_read [OF w] rd by auto
qed

text \<open>The divergence from \<^verbatim>\<open>ecs.h\<close>: the entity's mask plays no part.\<close>

lemma ecs_get_component_ignores_mask:
  "ecs_entity_get_component (e\<lparr>component_masks := ms\<rparr>) r c a = ecs_entity_get_component e r c a"
  by (simp add: ecs_entity_get_component_def ecs_is_entity_ref_valid_def cong: if_cong)

text \<open>A system with one component type of 40 bytes and two entities, for the next witnesses.\<close>

lemma demo_system:
  obtains s0 m e r1 r2 p where "ecs_create (mem_init (100000 + n) 0) = Inr s0" "ecs_step\<^sup>*\<^sup>* s0 (m, e)"
    "ecs_is_entity_ref_valid e r1 True = Inr True" "ecs_is_entity_ref_valid e r2 True = Inr True"
    "ref_entity r1 = 0" "ref_entity r2 = 1" "components e ! 0 = Some p"
    "component_type_sizes e ! 0 = 40" "os_avail m = 68176 + n"
proof -
  have k: "0 < k_max_entities" "1 < k_max_entities" "0 < k_max_component_types"
    "Suc 0 < k_max_entities"
    by (simp_all add: k_max_entities_def k_max_component_types_def)
  define e where "e = (ecs_cleared (Some (0, 0)))\<lparr>global_sequence := 1\<rparr>"
  obtain m where c: "ecs_create (mem_init (100000 + n) 0) = Inr (m, e)"
    and avail: "os_avail m = 88656 + n"
  proof -
    obtain m1 p where a: "heap_alloc (mem_init (100000 + n) 0) sizeof_ecs_t 8 = (m1, p)"
      by (cases "heap_alloc (mem_init (100000 + n) 0) sizeof_ecs_t 8")
    have pre: "0 < sizeof_ecs_t" "sizeof_ecs_t \<le> os_avail (mem_init (100000 + n) 0)"
      by (simp_all add: sizeof_ecs_t_def)
    show thesis
      using alloc_clear(1) [OF pre a] alloc_clear(2) [OF pre a, of 0] a
      by (intro that) (simp add: ecs_create_def e_def, auto simp: heap_alloc_def sizeof_ecs_t_def)
  qed
  have al: "align_component 40 4 = 40" by (simp add: align_component_def)
  have tot: "unat ((40 :: u64) * word_of_nat k_max_entities) = 20480" by (simp add: k_max_entities_def)
  obtain m1 p where a: "heap_alloc m 20480 4 = (m1, p)" by (cases "heap_alloc m 20480 4")
  define m2 where "m2 = m1\<lparr>blocks := (blocks m)(next_block m := Some (replicate 20480 0))\<rparr>"
  have p: "p = Some (next_block m, 0)" and ms: "memset m1 p 0 20480 = Inr m2"
    using alloc_clear(1) [OF _ _ a] alloc_clear(2) [OF _ _ a, of 0] avail by (simp_all add: m2_def)
  have left: "os_avail m2 = 68176 + n" using a avail by (auto simp: m2_def heap_alloc_def)
  define e1 where "e1 = e\<lparr>component_type_names := (component_type_names e)[0 := ''transform''],
      component_type_sizes := (component_type_sizes e)[0 := 40], components := (components e)[0 := p],
      save_component := (save_component e)[0 := True]\<rparr>"
  have ff: "find_from (\<lambda>i. components e ! i = None) 0 k_max_component_types = Some 0"
    using k by (simp add: find_from_code_step e_def)
  have reg: "ecs_register_component_type m e ''transform'' 40 4 True = Inr (m2, e1, 0)"
    unfolding ecs_register_component_type_def ff option.case Let_def al tot
    using a ms by (simp add: e1_def)
  define e2 where "e2 = fst (ecs_entity_add e1 1)"
  define e3 where "e3 = fst (ecs_entity_add e2 1)"
  have e2': "e2 = e1\<lparr>entity_states := (entity_states e1)[0 := k_entity_pending_add],
      sequences := (sequences e1)[0 := 1], global_sequence := 2,
      component_masks := (component_masks e1)[0 := 1]\<rparr>"
    unfolding e2_def using k by (subst ecs_add_slot [of 0]) (simp_all add: e1_def e_def)
  have e3': "e3 = e2\<lparr>entity_states := (entity_states e2)[1 := k_entity_pending_add],
      sequences := (sequences e2)[1 := 2], global_sequence := 3,
      component_masks := (component_masks e2)[1 := 1]\<rparr>"
    unfolding e3_def using k by (subst ecs_add_slot [of 1]) (simp_all add: e2' e1_def e_def nth_list_update)
  have "ecs_step (m, e) (m2, e1)"
    by (rule step_register [OF reg]) (simp add: register_fits_def al k_max_entities_def)
  moreover have "ecs_step (m2, e1) (m2, e2)" unfolding e2_def by (rule step_add) (simp add: e1_def e_def)
  moreover have "ecs_step (m2, e2) (m2, e3)" unfolding e3_def by (rule step_add) (simp add: e2')
  ultimately have steps: "ecs_step\<^sup>*\<^sup>* (m, e) (m2, e3)"
    by (meson rtranclp.rtrancl_into_rtrancl rtranclp.rtrancl_refl)
  show thesis
    by (rule that [OF c steps, of "\<lparr>ref_entity = 0, ref_sequence = 1\<rparr>"
          "\<lparr>ref_entity = 1, ref_sequence = 2\<rparr>" "(next_block m, 0)"])
      (use k left in \<open>simp_all add: e3' e2' e1_def e_def p ecs_is_entity_ref_valid_def array_get_def
          less_eq_entity_state_t_def nth_list_update\<close>)
qed

theorem ecs_component_storage_separate_witness:
  "\<exists>m e r1 r2 a1 a2 m' ys. ecs_entity_get_component e r1 0 True = Inr (Some a1) \<and>
     ecs_entity_get_component e r2 0 True = Inr (Some a2) \<and>
     mem_write m (Some a1) (replicate 40 7) = Inr m' \<and>
     mem_read m (Some a2) 40 = Inr ys \<and> mem_read m' (Some a2) 40 = Inr ys"
proof -
  obtain s0 m e r1 r2 p where d: "ecs_create (mem_init 100000 0) = Inr s0" "ecs_step\<^sup>*\<^sup>* s0 (m, e)"
    "ecs_is_entity_ref_valid e r1 True = Inr True" "ecs_is_entity_ref_valid e r2 True = Inr True"
    "ref_entity r1 = 0" "ref_entity r2 = 1" "components e ! 0 = Some p"
    "component_type_sizes e ! 0 = 40"
    by (rule demo_system [of 0, simplified])
  have "0 < k_max_component_types" by (simp add: k_max_component_types_def)
  with ecs_component_storage_separate [OF mem_init_ok d(1,2,3,4) _ d(7) _ d(7), of "replicate 40 7"] d(5,6,8)
  obtain a1 a2 m' ys where "ecs_entity_get_component e r1 0 True = Inr (Some a1)"
     "ecs_entity_get_component e r2 0 True = Inr (Some a2)"
     "mem_write m (Some a1) (replicate 40 7) = Inr m'"
     "mem_read m (Some a2) 40 = Inr ys" "mem_read m' (Some a2) 40 = Inr ys"
    by auto
  then show ?thesis by blast
qed

text \<open>
  C5. Nothing is leaked and nothing is released twice, as long as no game is loaded: after any
  sequence of registrations, additions, removals and updates from \<^verbatim>\<open>ecs_create\<close> on, \<^verbatim>\<open>ecs_destroy\<close>
  succeeds and the live allocations are the ones there were before the system was created.  (After
  an \<^verbatim>\<open>ecs_load_game\<close> it cannot succeed: \<open>ecs_load_leaves_dangling_components\<close> in \<open>Ecs_Save\<close>.)
\<close>

theorem ecs_destroy_releases_everything:
  assumes "mem_ok m0" and "ecs_create m0 = Inr s0" and "ecs_step\<^sup>*\<^sup>* s0 (m, e)"
  shows "\<exists>m'. ecs_destroy m e = Inr m' \<and> (\<forall>p. block_size m' p = block_size m0 p)"
proof -
  have "store_inv m0 (fst s0) (snd s0)" using ecs_create_store [OF assms(1)] assms(2) by (cases s0) auto
  from store_inv_steps [OF assms(3) this] have inv: "store_inv m0 m e" by simp
  from ecs_destroy_store [OF inv] show ?thesis by blast
qed

theorem ecs_destroy_releases_everything_witness:
  "\<exists>m e m' p. components e ! 0 = Some p \<and> ecs_destroy m e = Inr m' \<and>
     (\<forall>q. block_size m' q = block_size (mem_init 100000 0) q)"
proof -
  obtain s0 m e r1 r2 p where "ecs_create (mem_init 100000 0) = Inr s0" "ecs_step\<^sup>*\<^sup>* s0 (m, e)"
    "components e ! 0 = Some p"
    by (rule demo_system [of 0, simplified])
  with ecs_destroy_releases_everything [OF mem_init_ok] show ?thesis by metis
qed

text \<open>
  A component's stride is its size rounded up to the alignment (a power of two): the
  smallest multiple of the alignment that holds it.
\<close>

theorem align_component_rounds_up:
  assumes "k < 64" and "unat sz + 2 ^ k - 1 < 2 ^ 64"
  shows "2 ^ k dvd unat (align_component sz (2 ^ k)) \<and> unat sz \<le> unat (align_component sz (2 ^ k)) \<and>
    unat (align_component sz (2 ^ k)) < unat sz + 2 ^ k"
proof -
  let ?n = "unat sz + (2 ^ k - 1)"
  have pos: "(0 :: nat) < 2 ^ k" by simp
  have "?n div 2 ^ k * 2 ^ k + ?n mod 2 ^ k = ?n" by (rule div_mult_mod_eq)
  moreover have "?n mod 2 ^ k < 2 ^ k" using pos by (rule mod_less_divisor)
  moreover have "(2 :: nat) ^ k - 1 + 1 = 2 ^ k" using pos by simp
  ultimately have "unat sz \<le> ?n div 2 ^ k * 2 ^ k" "?n div 2 ^ k * 2 ^ k < unat sz + 2 ^ k"
    by linarith+
  then show ?thesis unfolding align_component_unat [OF assms] by simp
qed

theorem align_component_rounds_up_witness:
  "unat (align_component 42 (2 ^ 4)) = 48 \<and> 2 ^ 4 dvd unat (align_component 42 (2 ^ 4))"
  using align_component_rounds_up [of 4 42] by (simp add: align_component_def)

end
