(* ===== verification/Sync.thy ===== *)
theory Sync
  imports Engine_Prelude
begin

text \<open>
  The synchronisation wrappers: \<^verbatim>\<open>atomic.c\<close>, \<^verbatim>\<open>semaphore.c\<close>, \<^verbatim>\<open>mutex.c\<close>, \<^verbatim>\<open>event.c\<close> and
  \<^verbatim>\<open>thread.c\<close>.  Each wrapper is one call of the Windows API, whose documented behaviour on the
  object is written out here (interlocked operations, counting semaphores, recursive mutexes,
  manual-reset events).  A call that would wait is \<open>None\<close>: the step is not enabled.
\<close>

section \<open>Atomic integers (atomic.c)\<close>

text \<open>The interlocked operations of the platform: the returned value and the new cell.\<close>

definition interlocked_increment :: "i32 \<Rightarrow> i32 \<times> i32" where
  "interlocked_increment v = (v + 1, v + 1)"

definition interlocked_decrement :: "i32 \<Rightarrow> i32 \<times> i32" where
  "interlocked_decrement v = (v - 1, v - 1)"

definition interlocked_compare_exchange :: "i32 \<Rightarrow> i32 \<Rightarrow> i32 \<Rightarrow> i32 \<times> i32" where
  "interlocked_compare_exchange v xchg comparand = (v, if v = comparand then xchg else v)"

definition atomic_increment :: "i32 \<Rightarrow> i32 \<times> i32" where
  "atomic_increment v = (let (r, v') = interlocked_increment v in (r - 1, v'))"

definition atomic_decrement :: "i32 \<Rightarrow> i32 \<times> i32" where
  "atomic_decrement v = (let (r, v') = interlocked_decrement v in (r + 1, v'))"

definition atomic_compare_and_exchange :: "i32 \<Rightarrow> i32 \<Rightarrow> i32 \<Rightarrow> i32 \<times> i32" where
  "atomic_compare_and_exchange dest compare xchg = interlocked_compare_exchange dest xchg compare"

definition atomic_load :: "i32 \<Rightarrow> i32" where
  "atomic_load v = v"

definition atomic_store :: "i32 \<Rightarrow> i32 \<Rightarrow> i32" where
  "atomic_store v new_value = new_value"

text \<open>What \<^verbatim>\<open>atomic.h\<close> promises: the old value is returned, the cell is updated.\<close>

lemma atomic_increment_old [simp]: "atomic_increment v = (v, v + 1)"
  by (simp add: atomic_increment_def interlocked_increment_def)

lemma atomic_decrement_old [simp]: "atomic_decrement v = (v, v - 1)"
  by (simp add: atomic_decrement_def interlocked_decrement_def)

lemma atomic_compare_and_exchange_old [simp]:
  "atomic_compare_and_exchange v c x = (v, if v = c then x else v)"
  by (simp add: atomic_compare_and_exchange_def interlocked_compare_exchange_def)

section \<open>Counting semaphores (semaphore.c)\<close>

record semaphore =
  sem_count :: nat
  sem_max :: nat

text \<open>\<^verbatim>\<open>CreateSemaphore\<close> fails (a null handle) unless \<open>0 \<le> initial \<le> max\<close> and \<open>0 < max\<close>.\<close>

definition semaphore_create :: "int \<Rightarrow> int \<Rightarrow> semaphore option" where
  "semaphore_create initial_count max_count =
     (if 0 \<le> initial_count \<and> initial_count \<le> max_count \<and> 0 < max_count
      then Some \<lparr>sem_count = nat initial_count, sem_max = nat max_count\<rparr> else None)"

definition semaphore_acquire :: "semaphore \<Rightarrow> semaphore option" where
  "semaphore_acquire s = (if sem_count s = 0 then None else Some (s\<lparr>sem_count := sem_count s - 1\<rparr>))"

definition semaphore_try_acquire :: "semaphore \<Rightarrow> semaphore \<times> bool" where
  "semaphore_try_acquire s =
     (if sem_count s = 0 then (s, False) else (s\<lparr>sem_count := sem_count s - 1\<rparr>, True))"

text \<open>\<^verbatim>\<open>ReleaseSemaphore\<close> fails and leaves the count alone at the maximum; the wrapper ignores that.\<close>

definition semaphore_release :: "semaphore \<Rightarrow> semaphore" where
  "semaphore_release s = (if sem_count s < sem_max s then s\<lparr>sem_count := Suc (sem_count s)\<rparr> else s)"

definition semaphore_ok :: "semaphore \<Rightarrow> bool" where
  "semaphore_ok s \<longleftrightarrow> sem_count s \<le> sem_max s \<and> 0 < sem_max s"

lemma semaphore_ok_ops:
  "semaphore_create i m = Some s \<Longrightarrow> semaphore_ok s"
  "semaphore_ok s \<Longrightarrow> semaphore_acquire s = Some s' \<Longrightarrow> semaphore_ok s'"
  "semaphore_ok s \<Longrightarrow> semaphore_ok (fst (semaphore_try_acquire s))"
  "semaphore_ok s \<Longrightarrow> semaphore_ok (semaphore_release s)"
  by (auto simp: semaphore_create_def semaphore_acquire_def semaphore_try_acquire_def
      semaphore_release_def semaphore_ok_def split: if_splits)

section \<open>Mutexes (mutex.c)\<close>

text \<open>A Windows mutex: its owning thread and how often the owner has locked it.\<close>

record win_mutex =
  mx_owner :: "nat option"
  mx_depth :: nat

definition mutex_create :: win_mutex where
  "mutex_create = \<lparr>mx_owner = None, mx_depth = 0\<rparr>"

definition mutex_lock :: "nat \<Rightarrow> win_mutex \<Rightarrow> win_mutex option" where
  "mutex_lock tid mx =
     (case mx_owner mx of
        None \<Rightarrow> Some \<lparr>mx_owner = Some tid, mx_depth = 1\<rparr>
      | Some o' \<Rightarrow> if o' = tid then Some (mx\<lparr>mx_depth := Suc (mx_depth mx)\<rparr>) else None)"

definition mutex_unlock :: "nat \<Rightarrow> win_mutex \<Rightarrow> win_mutex" where
  "mutex_unlock tid mx =
     (if mx_owner mx = Some tid
      then (if mx_depth mx \<le> 1 then \<lparr>mx_owner = None, mx_depth = 0\<rparr>
            else mx\<lparr>mx_depth := mx_depth mx - 1\<rparr>)
      else mx)"

lemma mutex_lock_exclusive:
  "mutex_lock t mx = Some mx' \<Longrightarrow> t' \<noteq> t \<Longrightarrow> mutex_lock t' mx' = None"
  by (auto simp: mutex_lock_def split: option.splits if_splits)

lemma mutex_lock_unlock:
  "mx_owner mx = None \<Longrightarrow> mutex_lock t mx = Some mx' \<Longrightarrow> mx_owner (mutex_unlock t mx') = None"
  by (auto simp: mutex_lock_def mutex_unlock_def)

section \<open>Manual-reset events (event.c)\<close>

type_synonym event = bool

definition event_create :: event where
  "event_create = False"

definition event_signal :: "event \<Rightarrow> event" where
  "event_signal ev = True"

definition event_wait :: "event \<Rightarrow> event option" where
  "event_wait ev = (if ev then Some ev else None)"

definition event_is_raised :: "event \<Rightarrow> bool" where
  "event_is_raised ev = ev"

text \<open>A signalled event stays signalled: every waiter, now and later, goes through.\<close>

lemma event_signal_wait [simp]: "event_wait (event_signal ev) = Some (event_signal ev)"
  by (simp add: event_wait_def event_signal_def)

section \<open>Threads (thread.c)\<close>

text \<open>
  \<^verbatim>\<open>CreateThread\<close> reports failure by a null handle (\<open>None\<close>).  The wrapper compares with
  \<^verbatim>\<open>INVALID_HANDLE_VALUE\<close> (all bits set) instead, so its warning is never printed: the null
  handle is resumed (which fails without effect) and returned.  The result is the handle and
  whether the warning was printed.
\<close>

definition invalid_handle_value :: u64 where "invalid_handle_value = -1"

definition thread_create :: "u64 option \<Rightarrow> u64 \<times> bool" where
  "thread_create created =
     (let h = (case created of None \<Rightarrow> 0 | Some h \<Rightarrow> h)
      in if h = invalid_handle_value then (0, True) else (h, False))"

text \<open>\<^verbatim>\<open>thread_destroy\<close> waits for the thread's end and returns its exit code.\<close>

definition thread_destroy :: "i32 option \<Rightarrow> i32 option" where
  "thread_destroy exit_code = exit_code"

lemma thread_create_failure_silent: "thread_create None = (0, False)"
  by (simp add: thread_create_def invalid_handle_value_def)

section \<open>System handles\<close>

text \<open>The open handles of the process.  A null handle is \<open>None\<close>; closing it has no effect.\<close>

record win_handles =
  h_open :: "nat set"
  h_next :: nat

definition open_handle :: "win_handles \<Rightarrow> win_handles \<times> nat option" where
  "open_handle os = (os\<lparr>h_open := insert (h_next os) (h_open os), h_next := Suc (h_next os)\<rparr>, Some (h_next os))"

definition close_handle :: "win_handles \<Rightarrow> nat option \<Rightarrow> win_handles" where
  "close_handle os h = (case h of None \<Rightarrow> os | Some n \<Rightarrow> os\<lparr>h_open := h_open os - {n}\<rparr>)"

definition semaphore_destroy :: "win_handles \<Rightarrow> nat option \<Rightarrow> win_handles" where
  "semaphore_destroy os semaphore = close_handle os semaphore"

definition mutex_destroy :: "win_handles \<Rightarrow> nat option \<Rightarrow> win_handles" where
  "mutex_destroy os mutex = close_handle os mutex"

definition event_destroy :: "win_handles \<Rightarrow> nat option \<Rightarrow> win_handles" where
  "event_destroy os ev = close_handle os ev"

text \<open>The end of \<^verbatim>\<open>thread_destroy\<close>: the exit code, once the thread has ended, and its handle closed.\<close>

definition thread_join :: "win_handles \<Rightarrow> nat option \<Rightarrow> i32 option \<Rightarrow> (win_handles \<times> i32) option" where
  "thread_join os thread exit_code =
     map_option (\<lambda>code. (close_handle os thread, code)) (thread_destroy exit_code)"

text \<open>\<^verbatim>\<open>Sleep\<close>: the first millisecond at which the thread may go on; \<^verbatim>\<open>INFINITE\<close> is never.\<close>

definition thread_sleep :: "u32 \<Rightarrow> nat \<Rightarrow> nat option" where
  "thread_sleep ms now = (if ms = 0xFFFFFFFF then None else Some (now + unat ms))"

lemma close_handle_sel [simp]:
  "h_open (close_handle os h) = h_open os - set_option h" "h_next (close_handle os h) = h_next os"
  by (cases h; simp add: close_handle_def)+

end
