(* ===== verification/Ring_Queue.thy ===== *)
theory Ring_Queue
  imports Sync
begin

text \<open>
  The bounded queue (\<^verbatim>\<open>queue.h\<close>, \<^verbatim>\<open>queue.c\<close>): a ring of \<open>capacity\<close> slots, two counting semaphores
  and two ever-increasing 32-bit indices.  Here every operation is one step; \<open>Queue_Threads\<close>
  interleaves their parts.  The locale \<open>bounded_fifo\<close> is the contract that \<^verbatim>\<open>fs.c\<close>, \<^verbatim>\<open>net.c\<close> and
  \<^verbatim>\<open>render.c\<close> rely on; the ring is interpreted as one.
\<close>

section \<open>Data and operations\<close>

record 'a queue_t =
  used_items :: semaphore
  free_items :: semaphore
  items :: "'a list"
  capacity :: i32
  head_index :: i32
  tail_index :: i32

text \<open>
  \<open>fresh\<close> is what the uninitialised slot array holds.  A capacity that is not positive gives
  null semaphores: the model stops with \<open>Invalid_parameter\<close>.
\<close>

definition queue_create :: "'a list \<Rightarrow> i32 \<Rightarrow> 'a queue_t outcome" where
  "queue_create fresh cap =
     (case (semaphore_create 0 (sint cap), semaphore_create (sint cap) (sint cap)) of
        (Some used, Some free) \<Rightarrow>
          Inr \<lparr>used_items = used, free_items = free, items = take (nat (sint cap)) fresh,
               capacity = cap, head_index = 0, tail_index = 0\<rparr>
      | _ \<Rightarrow> Inl Invalid_parameter)"

text \<open>C's \<^verbatim>\<open>%\<close> on ints truncates towards zero: a negative index has a negative remainder.\<close>

definition slot_index :: "i32 \<Rightarrow> i32 \<Rightarrow> int outcome" where
  "slot_index i cap = (if cap = 0 then Inl Div_by_zero else Inr (sint i smod sint cap))"

text \<open>The part of a push after the acquisition of \<^verbatim>\<open>free_items\<close>, and of a pop after \<^verbatim>\<open>used_items\<close>.\<close>

definition queue_put :: "'a queue_t \<Rightarrow> 'a \<Rightarrow> 'a queue_t outcome" where
  "queue_put q item =
     (let (old, tail') = atomic_increment (tail_index q)
      in bind_ok (slot_index old (capacity q)) (\<lambda>index.
           bind_ok (array_set (items q) index item) (\<lambda>items'.
             Inr (q\<lparr>tail_index := tail', items := items',
                    used_items := semaphore_release (used_items q)\<rparr>))))"

definition queue_take :: "'a queue_t \<Rightarrow> ('a queue_t \<times> 'a) outcome" where
  "queue_take q =
     (let (old, head') = atomic_increment (head_index q)
      in bind_ok (slot_index old (capacity q)) (\<lambda>index.
           bind_ok (array_get (items q) index) (\<lambda>item.
             Inr (q\<lparr>head_index := head', free_items := semaphore_release (free_items q)\<rparr>, item))))"

text \<open>A blocking call that has to wait is \<open>Inr None\<close>.\<close>

definition queue_push :: "'a queue_t \<Rightarrow> 'a \<Rightarrow> 'a queue_t option outcome" where
  "queue_push q item =
     (case semaphore_acquire (free_items q) of
        None \<Rightarrow> Inr None
      | Some free' \<Rightarrow> bind_ok (queue_put (q\<lparr>free_items := free'\<rparr>) item) (\<lambda>q'. Inr (Some q')))"

definition queue_pop :: "'a queue_t \<Rightarrow> ('a queue_t \<times> 'a) option outcome" where
  "queue_pop q =
     (case semaphore_acquire (used_items q) of
        None \<Rightarrow> Inr None
      | Some used' \<Rightarrow> bind_ok (queue_take (q\<lparr>used_items := used'\<rparr>)) (\<lambda>r. Inr (Some r)))"

definition queue_try_push :: "'a queue_t \<Rightarrow> 'a \<Rightarrow> ('a queue_t \<times> bool) outcome" where
  "queue_try_push q item =
     (let (free', got) = semaphore_try_acquire (free_items q)
      in if got then bind_ok (queue_put (q\<lparr>free_items := free'\<rparr>) item) (\<lambda>q'. Inr (q', True))
         else Inr (q\<lparr>free_items := free'\<rparr>, False))"

definition queue_try_pop :: "'a queue_t \<Rightarrow> ('a queue_t \<times> 'a option) outcome" where
  "queue_try_pop q =
     (let (used', got) = semaphore_try_acquire (used_items q)
      in if got then bind_ok (queue_take (q\<lparr>used_items := used'\<rparr>)) (\<lambda>(q', x). Inr (q', Some x))
         else Inr (q\<lparr>used_items := used'\<rparr>, None))"

section \<open>Invariant and abstraction\<close>

definition q_cap :: "'a queue_t \<Rightarrow> nat" where "q_cap q = nat (sint (capacity q))"
definition q_head :: "'a queue_t \<Rightarrow> nat" where "q_head q = nat (sint (head_index q))"
definition q_tail :: "'a queue_t \<Rightarrow> nat" where "q_tail q = nat (sint (tail_index q))"

definition queue_inv :: "'a queue_t \<Rightarrow> bool" where
  "queue_inv q \<longleftrightarrow>
     0 < sint (capacity q) \<and> length (items q) = q_cap q \<and>
     0 \<le> sint (head_index q) \<and> sint (head_index q) \<le> sint (tail_index q) \<and>
     used_items q = \<lparr>sem_count = q_tail q - q_head q, sem_max = q_cap q\<rparr> \<and>
     free_items q = \<lparr>sem_count = q_cap q - (q_tail q - q_head q), sem_max = q_cap q\<rparr> \<and>
     q_tail q - q_head q \<le> q_cap q"

definition queue_list :: "'a queue_t \<Rightarrow> 'a list" where
  "queue_list q = map (\<lambda>k. items q ! (k mod q_cap q)) [q_head q..<q_tail q]"

text \<open>The number of pushes before the tail index leaves the non-negative ints.\<close>

definition index_limit :: nat where "index_limit = 2 ^ 31 - 1"

lemma sint_plus_one:
  fixes i :: i32
  assumes "0 \<le> sint i" and "nat (sint i) < index_limit"
  shows "sint (i + 1) = sint i + 1"
proof -
  have "sint i + 1 < 2 ^ 31" using assms by (simp add: index_limit_def)
  then have "signed_take_bit 31 (sint i + 1) = sint i + 1"
    using assms(1) by (intro signed_take_bit_int_eq_self) simp_all
  then show ?thesis by (simp add: signed_word_eqI sint_word_ariths)
qed

lemma slot_index_nonneg:
  assumes "0 \<le> sint i" and "0 < sint cap"
  shows "slot_index i cap = Inr (int (nat (sint i) mod nat (sint cap)))"
proof -
  have "sint i smod sint cap = sint i mod sint cap"
    using assms by (simp add: smod_int_alt_def sgn_if)
  also have "\<dots> = int (nat (sint i) mod nat (sint cap))"
    using assms by (simp add: zmod_int)
  finally show ?thesis using assms by (auto simp: slot_index_def)
qed

lemma queue_create_inv:
  assumes "0 < sint cap" and "nat (sint cap) \<le> length fresh"
  shows "\<exists>q. queue_create fresh cap = Inr q \<and> queue_inv q \<and> queue_list q = [] \<and>
    q_cap q = nat (sint cap) \<and> q_tail q = 0"
  using assms
  by (simp add: queue_create_def semaphore_create_def queue_inv_def queue_list_def q_cap_def
      q_head_def q_tail_def)

section \<open>The ring refines the list\<close>

lemma queue_invD:
  assumes "queue_inv q"
  shows "0 < sint (capacity q)" "length (items q) = q_cap q" "0 \<le> sint (head_index q)"
    "q_head q \<le> q_tail q" "0 \<le> sint (tail_index q)" "0 < q_cap q"
    "used_items q = \<lparr>sem_count = q_tail q - q_head q, sem_max = q_cap q\<rparr>"
    "free_items q = \<lparr>sem_count = q_cap q - (q_tail q - q_head q), sem_max = q_cap q\<rparr>"
    "q_tail q - q_head q \<le> q_cap q"
  using assms by (auto simp: queue_inv_def q_cap_def q_head_def q_tail_def)

lemma length_queue_list: "length (queue_list q) = q_tail q - q_head q"
  by (simp add: queue_list_def)

text \<open>Different positions of the window are different slots.\<close>

lemma window_slots_differ:
  assumes "(h :: nat) \<le> k" "k < t" "t - h < c" shows "k mod c \<noteq> t mod c"
proof
  assume "k mod c = t mod c"
  then have "c dvd t - k" by (metis assms(2) less_imp_le_nat mod_eq_dvd_iff_nat)
  with assms show False by (auto dest: dvd_imp_le)
qed

lemma queue_push_room:
  assumes inv: "queue_inv q" and lim: "q_tail q < index_limit" and room: "q_tail q - q_head q < q_cap q"
  shows "\<exists>q'. queue_push q x = Inr (Some q') \<and> queue_inv q' \<and> queue_list q' = queue_list q @ [x] \<and>
    q_cap q' = q_cap q \<and> q_tail q' = Suc (q_tail q)"
proof -
  note D = queue_invD [OF inv]
  let ?i = "q_tail q mod q_cap q"
  define q' where "q' = q\<lparr>free_items := \<lparr>sem_count = q_cap q - (q_tail q - q_head q) - 1, sem_max = q_cap q\<rparr>,
      tail_index := tail_index q + 1, items := (items q)[?i := x],
      used_items := \<lparr>sem_count = Suc (q_tail q - q_head q), sem_max = q_cap q\<rparr>\<rparr>"
  have idx: "slot_index (tail_index q) (capacity q) = Inr (int ?i)"
    using slot_index_nonneg [OF D(5,1)] by (simp add: q_tail_def q_cap_def)
  have lt: "?i < length (items q)" using D by simp
  have s1: "sint (tail_index q + 1) = sint (tail_index q) + 1"
    using sint_plus_one [OF D(5)] lim by (simp add: q_tail_def)
  have F: "q_tail q' = Suc (q_tail q)" "q_head q' = q_head q" "q_cap q' = q_cap q"
    "items q' = (items q)[?i := x]" "capacity q' = capacity q" "head_index q' = head_index q"
    "sint (tail_index q') = sint (tail_index q) + 1"
    "used_items q' = \<lparr>sem_count = Suc (q_tail q - q_head q), sem_max = q_cap q\<rparr>"
    "free_items q' = \<lparr>sem_count = q_cap q - (q_tail q - q_head q) - 1, sem_max = q_cap q\<rparr>"
    using s1 D(5) by (simp_all add: q'_def q_tail_def q_head_def q_cap_def nat_add_distrib)
  have push: "queue_push q x = Inr (Some q')"
    using D(7,8) room idx lt
    by (simp add: queue_push_def semaphore_acquire_def queue_put_def semaphore_release_def q'_def)
  have "sint (head_index q) \<le> sint (tail_index q)" using inv by (simp add: queue_inv_def)
  then have inv': "queue_inv q'"
    using D room unfolding queue_inv_def F by (simp add: Suc_diff_le F)
  have old: "(items q)[?i := x] ! (k mod q_cap q) = items q ! (k mod q_cap q)"
    if "k \<in> set [q_head q..<q_tail q]" for k
    using that window_slots_differ [of "q_head q" k "q_tail q" "q_cap q"] room by auto
  have new: "(items q)[?i := x] ! ?i = x" using lt by simp
  have "queue_list q' = queue_list q @ [x]"
    unfolding queue_list_def F using D(4) old new by simp
  with push inv' F(1,3) show ?thesis by blast
qed

lemma queue_push_full:
  "queue_inv q \<Longrightarrow> q_tail q - q_head q = q_cap q \<Longrightarrow> queue_push q x = Inr None"
  by (simp add: queue_push_def semaphore_acquire_def queue_invD(8))

lemma queue_pop_item:
  assumes inv: "queue_inv q" and lim: "q_tail q \<le> index_limit" and ne: "queue_list q = y # ys"
  shows "\<exists>q'. queue_pop q = Inr (Some (q', y)) \<and> queue_inv q' \<and> queue_list q' = ys \<and>
    q_cap q' = q_cap q \<and> q_tail q' = q_tail q"
proof -
  note D = queue_invD [OF inv]
  let ?i = "q_head q mod q_cap q"
  define q' where "q' = q\<lparr>used_items := \<lparr>sem_count = q_tail q - q_head q - 1, sem_max = q_cap q\<rparr>,
      head_index := head_index q + 1,
      free_items := \<lparr>sem_count = Suc (q_cap q - (q_tail q - q_head q)), sem_max = q_cap q\<rparr>\<rparr>"
  have lt: "q_head q < q_tail q" using arg_cong [OF ne, of length] by (simp add: length_queue_list)
  have idx: "slot_index (head_index q) (capacity q) = Inr (int ?i)"
    using slot_index_nonneg [OF D(3,1)] by (simp add: q_head_def q_cap_def)
  have s1: "sint (head_index q + 1) = sint (head_index q) + 1"
    using sint_plus_one [OF D(3)] lt lim by (simp add: q_head_def)
  have F: "q_tail q' = q_tail q" "q_head q' = Suc (q_head q)" "q_cap q' = q_cap q"
    "items q' = items q" "capacity q' = capacity q" "tail_index q' = tail_index q"
    "sint (head_index q') = sint (head_index q) + 1"
    "used_items q' = \<lparr>sem_count = q_tail q - q_head q - 1, sem_max = q_cap q\<rparr>"
    "free_items q' = \<lparr>sem_count = Suc (q_cap q - (q_tail q - q_head q)), sem_max = q_cap q\<rparr>"
    using s1 D(3) by (simp_all add: q'_def q_tail_def q_head_def q_cap_def nat_add_distrib)
  have split: "queue_list q = items q ! ?i # map (\<lambda>k. items q ! (k mod q_cap q)) [Suc (q_head q)..<q_tail q]"
    unfolding queue_list_def using lt by (simp add: upt_conv_Cons)
  have room: "?i < length (items q)" using D by simp
  have pop: "queue_pop q = Inr (Some (q', items q ! ?i))"
    using D(4,7,8,9) lt idx room
    by (simp add: queue_pop_def semaphore_acquire_def queue_take_def semaphore_release_def q'_def)
  have step: "sint (head_index q) + 1 \<le> sint (tail_index q)" using lt by (simp add: q_head_def q_tail_def)
  have "Suc (q_cap q - (q_tail q - q_head q)) = q_cap q - (q_tail q - Suc (q_head q))"
    and "q_tail q - Suc (q_head q) \<le> q_cap q" using D(9) lt by linarith+
  with D step have inv': "queue_inv q'"
    unfolding queue_inv_def F by simp
  have "queue_list q' = ys" "y = items q ! ?i"
    using ne split unfolding queue_list_def [of q'] F by simp_all
  with pop inv' F(1,3) show ?thesis by blast
qed

lemma queue_pop_empty:
  assumes "queue_inv q" and "queue_list q = []"
  shows "queue_pop q = Inr None"
proof -
  have "q_tail q - q_head q = 0" using assms(2) length_queue_list [of q] by simp
  then show ?thesis
    by (simp add: queue_pop_def semaphore_acquire_def queue_invD(7) [OF assms(1)])
qed

text \<open>Both outcomes of a call, for clients that share the queue.\<close>

lemma queue_push_cases:
  assumes "queue_inv q" and "q_tail q < index_limit"
  obtains (pushed) q' where "queue_push q x = Inr (Some q')" "queue_inv q'"
      "queue_list q' = queue_list q @ [x]" "q_cap q' = q_cap q" "q_tail q' = Suc (q_tail q)"
      "length (queue_list q) < q_cap q"
    | (full) "queue_push q x = Inr None" "length (queue_list q) = q_cap q"
proof (cases "q_tail q - q_head q < q_cap q")
  case True
  with queue_push_room [OF assms True, of x] show thesis
    by (auto simp: length_queue_list intro: pushed)
next
  case False
  then have "q_tail q - q_head q = q_cap q" using queue_invD(9) [OF assms(1)] by simp
  with queue_push_full [OF assms(1) this] show thesis
    by (intro full) (simp_all add: length_queue_list)
qed

lemma queue_pop_cases:
  assumes "queue_inv q" and "q_tail q \<le> index_limit"
  obtains (popped) q' y ys where "queue_pop q = Inr (Some (q', y))" "queue_inv q'"
      "queue_list q = y # ys" "queue_list q' = ys" "q_cap q' = q_cap q" "q_tail q' = q_tail q"
    | (empty) "queue_pop q = Inr None" "queue_list q = []"
proof (cases "queue_list q")
  case Nil
  with queue_pop_empty [OF assms(1) Nil] show thesis by (intro empty)
next
  case (Cons y ys)
  from queue_pop_item [OF assms Cons] Cons show thesis by (auto intro: popped)
qed

text \<open>The non-blocking calls agree with the blocking ones where those do not wait.\<close>

lemma queue_try_push_alt:
  "queue_try_push q x = bind_ok (queue_push q x) (\<lambda>r. Inr (case r of None \<Rightarrow> (q, False) | Some q' \<Rightarrow> (q', True)))"
  by (simp add: queue_try_push_def queue_push_def semaphore_try_acquire_def semaphore_acquire_def
      bind_ok_assoc)

lemma queue_try_pop_alt:
  "queue_try_pop q = bind_ok (queue_pop q) (\<lambda>r. Inr (case r of None \<Rightarrow> (q, None) | Some (q', x) \<Rightarrow> (q', Some x)))"
  by (simp add: queue_try_pop_def queue_pop_def semaphore_try_acquire_def semaphore_acquire_def
      bind_ok_assoc case_prod_unfold)

section \<open>The contract of a bounded FIFO\<close>

text \<open>\<open>ok n q\<close>: the queue is in order and \<open>n\<close> more pushes are within its index range.\<close>

datatype 'a queue_op = Q_push 'a | Q_pop

fun fifo_spec :: "nat \<Rightarrow> 'a list \<Rightarrow> 'a queue_op list \<Rightarrow> 'a list \<times> 'a list" where
  "fifo_spec c xs [] = (xs, [])"
| "fifo_spec c xs (Q_push x # ops) =
     (if length xs < c then fifo_spec c (xs @ [x]) ops else fifo_spec c xs ops)"
| "fifo_spec c xs (Q_pop # ops) =
     (case xs of [] \<Rightarrow> fifo_spec c [] ops
      | y # ys \<Rightarrow> (let (r, out) = fifo_spec c ys ops in (r, y # out)))"

text \<open>A client's calls in turn; the items its pops return.\<close>

fun fifo_run :: "('q \<Rightarrow> 'a \<Rightarrow> ('q \<times> bool) outcome) \<Rightarrow> ('q \<Rightarrow> ('q \<times> 'a option) outcome) \<Rightarrow>
    'q \<Rightarrow> 'a queue_op list \<Rightarrow> ('q \<times> 'a list) outcome" where
  "fifo_run push pop q [] = Inr (q, [])"
| "fifo_run push pop q (Q_push x # ops) = bind_ok (push q x) (\<lambda>(q', _). fifo_run push pop q' ops)"
| "fifo_run push pop q (Q_pop # ops) = bind_ok (pop q) (\<lambda>(q', r).
     bind_ok (fifo_run push pop q' ops)
       (\<lambda>(q'', out). Inr (q'', (case r of None \<Rightarrow> out | Some x \<Rightarrow> x # out))))"

locale bounded_fifo =
  fixes push :: "'q \<Rightarrow> 'a \<Rightarrow> ('q \<times> bool) outcome"
    and pop :: "'q \<Rightarrow> ('q \<times> 'a option) outcome"
    and contents :: "'q \<Rightarrow> 'a list"
    and cap :: "'q \<Rightarrow> nat"
    and ok :: "nat \<Rightarrow> 'q \<Rightarrow> bool"
  assumes push_room: "ok (Suc n) q \<Longrightarrow> length (contents q) < cap q \<Longrightarrow>
      \<exists>q'. push q x = Inr (q', True) \<and> contents q' = contents q @ [x] \<and> cap q' = cap q \<and> ok n q'"
    and push_full: "ok n q \<Longrightarrow> \<not> length (contents q) < cap q \<Longrightarrow> push q x = Inr (q, False)"
    and pop_item: "ok n q \<Longrightarrow> contents q = y # ys \<Longrightarrow>
      \<exists>q'. pop q = Inr (q', Some y) \<and> contents q' = ys \<and> cap q' = cap q \<and> ok n q'"
    and pop_empty: "ok n q \<Longrightarrow> contents q = [] \<Longrightarrow> pop q = Inr (q, None)"
    and ok_mono: "ok (Suc n) q \<Longrightarrow> ok n q"
begin

lemma run_refines_fifo:
  "ok (length ops) q \<Longrightarrow>
   \<exists>q'. fifo_run push pop q ops = Inr (q', snd (fifo_spec (cap q) (contents q) ops)) \<and>
     contents q' = fst (fifo_spec (cap q) (contents q) ops)"
proof (induction ops arbitrary: q)
  case Nil
  then show ?case by simp
next
  case (Cons op ops)
  have ok1: "ok (length ops) q" using Cons.prems by (simp add: ok_mono)
  show ?case
  proof (cases op)
    case (Q_push x)
    show ?thesis
    proof (cases "length (contents q) < cap q")
      case True
      with Cons.prems push_room [of "length ops" q x] obtain q'
        where "push q x = Inr (q', True)" "contents q' = contents q @ [x]" "cap q' = cap q"
          "ok (length ops) q'" by auto
      with Cons.IH [of q'] True Q_push show ?thesis by simp
    next
      case False
      with push_full [OF ok1 False] Cons.IH [OF ok1] Q_push show ?thesis by simp
    qed
  next
    case Q_pop
    show ?thesis
    proof (cases "contents q")
      case Nil
      with pop_empty [OF ok1] Cons.IH [OF ok1] Q_pop show ?thesis by (auto simp: case_prod_beta)
    next
      case (Cons y ys)
      with pop_item [OF ok1] obtain q' where "pop q = Inr (q', Some y)" "contents q' = ys"
        "cap q' = cap q" "ok (length ops) q'" by blast
      with Cons.IH [of q'] Cons Q_pop show ?thesis by (auto simp: case_prod_beta)
    qed
  qed
qed

end

definition queue_ready :: "nat \<Rightarrow> 'a queue_t \<Rightarrow> bool" where
  "queue_ready n q \<longleftrightarrow> queue_inv q \<and> q_tail q + n \<le> index_limit"

interpretation ring: bounded_fifo queue_try_push queue_try_pop queue_list q_cap queue_ready
proof (unfold_locales, goal_cases)
  case (1 n q x)
  then obtain q' where "queue_push q x = Inr (Some q') \<and> queue_inv q' \<and> queue_list q' = queue_list q @ [x] \<and>
    q_cap q' = q_cap q \<and> q_tail q' = Suc (q_tail q)"
    using queue_push_room [of q x] by (auto simp: queue_ready_def length_queue_list)
  with 1 show ?case by (auto simp: queue_try_push_alt queue_ready_def)
next
  case (2 n q x)
  then have "queue_push q x = Inr None"
    using queue_push_full [of q x] queue_invD(9) [of q] by (auto simp: queue_ready_def length_queue_list)
  then show ?case by (simp add: queue_try_push_alt)
next
  case (3 n q y ys)
  then obtain q' where "queue_pop q = Inr (Some (q', y)) \<and> queue_inv q' \<and> queue_list q' = ys \<and>
    q_cap q' = q_cap q \<and> q_tail q' = q_tail q"
    using queue_pop_item [of q y ys] by (auto simp: queue_ready_def)
  with 3 show ?case by (auto simp: queue_try_pop_alt queue_ready_def)
next
  case (4 n q)
  then show ?case by (simp add: queue_try_pop_alt queue_ready_def queue_pop_empty)
next
  case (5 n q)
  then show ?case by (simp add: queue_ready_def)
qed

section \<open>Beyond the index range\<close>

lemma slot_index_negative:
  assumes "sint i < 0" and "0 < sint cap"
  shows "slot_index i cap = Inr (- (- sint i mod sint cap))"
  using assms by (auto simp: slot_index_def smod_int_alt_def sgn_if)

lemma queue_push_slot:
  assumes "0 < sem_count (free_items q)" and "slot_index (tail_index q) (capacity q) = Inr k"
    and "0 \<le> k" and "k < int (length (items q))"
  shows "\<exists>q'. queue_push q x = Inr (Some q') \<and> tail_index q' = tail_index q + 1 \<and>
    capacity q' = capacity q \<and> length (items q') = length (items q) \<and>
    Suc (sem_count (free_items q')) = sem_count (free_items q)"
  using assms by (simp add: queue_push_def semaphore_acquire_def queue_put_def array_set_def)

lemma queue_push_negative_slot:
  assumes "0 < sem_count (free_items q)" and "sint (tail_index q) < 0" and "0 < sint (capacity q)"
    and "- sint (tail_index q) mod sint (capacity q) \<noteq> 0"
  shows "queue_push q x = Inl Out_of_bounds"
proof -
  have "0 < - sint (tail_index q) mod sint (capacity q)"
    using assms(3,4) pos_mod_sign [of "sint (capacity q)" "- sint (tail_index q)"] by linarith
  then show ?thesis
    using assms slot_index_negative [OF assms(2,3)]
    by (simp add: queue_push_def semaphore_acquire_def queue_put_def array_set_def)
qed

section \<open>Properties\<close>

text \<open>
  C6. The ring buffer is a bounded FIFO. Whatever non-blocking pushes and pops one client makes
  on a new queue, in any order, no access leaves the slot array, a push is refused exactly when
  \<open>capacity\<close> items are queued, and the pops return the items a list-backed FIFO of that capacity
  would: in order, none lost, none invented. The bound is the range of the 32-bit indices.
\<close>

theorem queue_refines_fifo:
  assumes "queue_create fresh cap = Inr q" and "0 < sint cap" and "nat (sint cap) \<le> length fresh"
    and "length ops \<le> index_limit"
  shows "\<exists>q'. fifo_run queue_try_push queue_try_pop q ops =
      Inr (q', snd (fifo_spec (nat (sint cap)) [] ops)) \<and>
    queue_list q' = fst (fifo_spec (nat (sint cap)) [] ops)"
proof -
  from queue_create_inv [OF assms(2,3)] assms(1)
  have "queue_ready (length ops) q" "queue_list q = []" "q_cap q = nat (sint cap)"
    using assms(4) by (auto simp: queue_ready_def)
  then show ?thesis using ring.run_refines_fifo [of ops q] by simp
qed

theorem queue_refines_fifo_witness:
  "\<exists>q q'. queue_create [0, 0, 0 :: nat] 3 = Inr q \<and>
    fifo_run queue_try_push queue_try_pop q
      [Q_push 1, Q_push 2, Q_pop, Q_push 3, Q_push 4, Q_push 5, Q_pop, Q_pop] = Inr (q', [1, 2, 3]) \<and>
    queue_list q' = [4]"
proof -
  obtain q where q: "queue_create [0, 0, 0 :: nat] 3 = Inr q"
    using queue_create_inv [of 3 "[0, 0, 0 :: nat]"] by auto
  from queue_refines_fifo [OF q, of "[Q_push 1, Q_push 2, Q_pop, Q_push 3, Q_push 4, Q_push 5, Q_pop, Q_pop]"]
  show ?thesis using q by (simp add: index_limit_def)
qed

text \<open>
  C7. The indices are never reduced, so a queue has a finite life. When \<open>tail_index\<close> stands at
  \<open>INT_MAX\<close> the next push still lands in its slot, but it wraps the index to \<open>INT_MIN\<close>, and
  then, for every capacity above 1, one of the next two pushes computes a negative slot and
  writes before the array.
\<close>

theorem queue_push_after_index_wrap:
  assumes "tail_index q = 0x7FFFFFFF" and "1 < sint (capacity q)"
    and "length (items q) = nat (sint (capacity q))" and "3 \<le> sem_count (free_items q)"
  shows "\<exists>q1. queue_push q x = Inr (Some q1) \<and>
    (queue_push q1 y = Inl Out_of_bounds \<or>
     (\<exists>q2. queue_push q1 y = Inr (Some q2) \<and> queue_push q2 z = Inl Out_of_bounds))"
proof -
  let ?c = "sint (capacity q)"
  have t0: "sint (tail_index q) = 2147483647" using assms(1) by simp
  have "slot_index (tail_index q) (capacity q) = Inr (2147483647 mod ?c)"
    using slot_index_nonneg [of "tail_index q" "capacity q"] t0 assms(2) by (simp add: zmod_int)
  from queue_push_slot [OF _ this, of x] assms(2,3,4) obtain q1
    where q1: "queue_push q x = Inr (Some q1)" "tail_index q1 = 0x80000000" "capacity q1 = capacity q"
      "length (items q1) = nat ?c" "2 \<le> sem_count (free_items q1)"
    by (auto simp: assms(1))
  have t1: "sint (tail_index q1) = - 2147483648" using q1(2) by simp
  show ?thesis
  proof (cases "2147483648 mod ?c = 0")
    case False
    then have "queue_push q1 y = Inl Out_of_bounds"
      using q1 t1 assms(2) by (intro queue_push_negative_slot) simp_all
    with q1(1) show ?thesis by blast
  next
    case True
    have "slot_index (tail_index q1) (capacity q1) = Inr 0"
      using slot_index_negative [of "tail_index q1" "capacity q1"] t1 q1(3) assms(2) True by simp
    from queue_push_slot [OF _ this, of y] q1(2-5) assms(2) obtain q2
      where q2: "queue_push q1 y = Inr (Some q2)" "tail_index q2 = 0x80000001" "capacity q2 = capacity q"
        "0 < sem_count (free_items q2)"
      by auto
    have t2: "sint (tail_index q2) = - 2147483647" using q2(2) by simp
    have "2147483647 mod ?c \<noteq> 0"
    proof
      assume "2147483647 mod ?c = 0"
      with True have "?c dvd 2147483648 - 2147483647" by (intro dvd_diff) auto
      with assms(2) show False by (simp add: zdvd1_eq)
    qed
    then have "queue_push q2 z = Inl Out_of_bounds"
      using q2 t2 assms(2) by (intro queue_push_negative_slot) simp_all
    with q1(1) q2(1) show ?thesis by blast
  qed
qed

theorem queue_push_after_index_wrap_witness:
  "\<exists>q q1. tail_index q = 0x7FFFFFFF \<and> capacity q = 3 \<and> queue_inv q \<and> queue_list q = [] \<and>
     queue_push q (1 :: nat) = Inr (Some q1) \<and>
     (queue_push q1 2 = Inl Out_of_bounds \<or>
       (\<exists>q2. queue_push q1 2 = Inr (Some q2) \<and> queue_push q2 3 = Inl Out_of_bounds))"
proof -
  define q :: "nat queue_t" where "q = \<lparr>used_items = \<lparr>sem_count = 0, sem_max = 3\<rparr>,
    free_items = \<lparr>sem_count = 3, sem_max = 3\<rparr>, items = [0, 0, 0], capacity = 3,
    head_index = 0x7FFFFFFF, tail_index = 0x7FFFFFFF\<rparr>"
  have f: "queue_inv q" "queue_list q = []" "tail_index q = 0x7FFFFFFF" "capacity q = 3"
    "length (items q) = nat (sint (capacity q))" "3 \<le> sem_count (free_items q)" "1 < sint (capacity q)"
    by (simp_all add: q_def queue_inv_def queue_list_def q_cap_def q_head_def q_tail_def)
  from queue_push_after_index_wrap [OF f(3,7,5,6), of 1 2 3] obtain q1
    where "queue_push q 1 = Inr (Some q1)"
      "queue_push q1 2 = Inl Out_of_bounds \<or>
        (\<exists>q2. queue_push q1 2 = Inr (Some q2) \<and> queue_push q2 3 = Inl Out_of_bounds)"
    by blast
  with f(1-4) show ?thesis by (intro exI [of _ q] exI [of _ q1] conjI)
qed

end
