(* ===== verification/Queue_Threads.thy ===== *)
theory Queue_Threads
  imports Ring_Queue
begin

text \<open>
  The queue under concurrency.  A call of \<^verbatim>\<open>queue_push\<close> is four atomic actions (acquire
  \<^verbatim>\<open>free_items\<close>, claim an index, store, release \<^verbatim>\<open>used_items\<close>) and a call of \<^verbatim>\<open>queue_pop\<close> four more;
  the threads' actions interleave in any order.  Producers push a list of items each, consumers
  pop for ever.  \<open>spsc_inv\<close> is the invariant of one producer and one consumer.
\<close>

section \<open>The actions of a call\<close>

datatype push_pc = P_start | P_acquired | P_slot int | P_stored

datatype 'a pop_pc = C_start | C_acquired | C_slot int | C_loaded 'a

text \<open>A producer is the items left to push and its position in the current call; a consumer is its
  position and the items it got.  \<open>None\<close>: the thread waits, or has nothing left to do.\<close>

type_synonym 'a producer = "'a list \<times> push_pc"
type_synonym 'a consumer = "'a pop_pc \<times> 'a list"

fun push_step :: "'a queue_t \<Rightarrow> 'a producer \<Rightarrow> ('a queue_t \<times> 'a producer) option outcome" where
  "push_step q ([], pc) = Inr None"
| "push_step q (x # xs, P_start) =
     (case semaphore_acquire (free_items q) of None \<Rightarrow> Inr None
      | Some s \<Rightarrow> Inr (Some (q\<lparr>free_items := s\<rparr>, (x # xs, P_acquired))))"
| "push_step q (x # xs, P_acquired) =
     (let (old, tail') = atomic_increment (tail_index q)
      in bind_ok (slot_index old (capacity q)) (\<lambda>i.
           Inr (Some (q\<lparr>tail_index := tail'\<rparr>, (x # xs, P_slot i)))))"
| "push_step q (x # xs, P_slot i) =
     bind_ok (array_set (items q) i x) (\<lambda>items'.
       Inr (Some (q\<lparr>items := items'\<rparr>, (x # xs, P_stored))))"
| "push_step q (x # xs, P_stored) =
     Inr (Some (q\<lparr>used_items := semaphore_release (used_items q)\<rparr>, (xs, P_start)))"

fun pop_step :: "'a queue_t \<Rightarrow> 'a consumer \<Rightarrow> ('a queue_t \<times> 'a consumer) option outcome" where
  "pop_step q (C_start, got) =
     (case semaphore_acquire (used_items q) of None \<Rightarrow> Inr None
      | Some s \<Rightarrow> Inr (Some (q\<lparr>used_items := s\<rparr>, (C_acquired, got))))"
| "pop_step q (C_acquired, got) =
     (let (old, head') = atomic_increment (head_index q)
      in bind_ok (slot_index old (capacity q)) (\<lambda>i.
           Inr (Some (q\<lparr>head_index := head'\<rparr>, (C_slot i, got)))))"
| "pop_step q (C_slot i, got) =
     bind_ok (array_get (items q) i) (\<lambda>x. Inr (Some (q, (C_loaded x, got))))"
| "pop_step q (C_loaded x, got) =
     Inr (Some (q\<lparr>free_items := semaphore_release (free_items q)\<rparr>, (C_start, got @ [x])))"

record 'a queue_system =
  shared_queue :: "'a queue_t"
  producers :: "'a producer list"
  consumers :: "'a consumer list"

datatype queue_thread = Producer nat | Consumer nat

fun thread_step :: "queue_thread \<Rightarrow> 'a queue_system \<Rightarrow> 'a queue_system option outcome" where
  "thread_step (Producer i) s =
     (if i < length (producers s)
      then bind_ok (push_step (shared_queue s) (producers s ! i)) (\<lambda>r.
        Inr (case r of None \<Rightarrow> None
             | Some (q, p) \<Rightarrow> Some (s\<lparr>shared_queue := q, producers := (producers s)[i := p]\<rparr>)))
      else Inr None)"
| "thread_step (Consumer i) s =
     (if i < length (consumers s)
      then bind_ok (pop_step (shared_queue s) (consumers s ! i)) (\<lambda>r.
        Inr (case r of None \<Rightarrow> None
             | Some (q, c) \<Rightarrow> Some (s\<lparr>shared_queue := q, consumers := (consumers s)[i := c]\<rparr>)))
      else Inr None)"

inductive queue_step :: "'a queue_system \<Rightarrow> 'a queue_system \<Rightarrow> bool" where
  sched: "thread_step t s = Inr (Some s') \<Longrightarrow> queue_step s s'"

text \<open>A schedule; a thread that has to wait is skipped.\<close>

fun run_schedule :: "queue_thread list \<Rightarrow> 'a queue_system \<Rightarrow> 'a queue_system outcome" where
  "run_schedule [] s = Inr s"
| "run_schedule (t # ts) s =
     bind_ok (thread_step t s) (\<lambda>r. run_schedule ts (case r of None \<Rightarrow> s | Some s' \<Rightarrow> s'))"

lemma run_schedule_steps: "run_schedule ts s = Inr s' \<Longrightarrow> queue_step\<^sup>*\<^sup>* s s'"
proof (induction ts arbitrary: s)
  case Nil
  then show ?case by simp
next
  case (Cons t ts)
  then obtain r where r: "thread_step t s = Inr r"
    and rest: "run_schedule ts (case r of None \<Rightarrow> s | Some s' \<Rightarrow> s') = Inr s'"
    by (auto simp: bind_ok_Inr_iff)
  then show ?case
    using Cons.IH [OF rest] sched [of t s] by (cases r) (auto intro: converse_rtranclp_into_rtranclp)
qed

text \<open>A schedule in which no thread waits is as many steps.\<close>

fun runs_through :: "queue_thread list \<Rightarrow> 'a queue_system \<Rightarrow> bool" where
  "runs_through [] s = True"
| "runs_through (t # ts) s = (case thread_step t s of Inr (Some s') \<Rightarrow> runs_through ts s' | _ \<Rightarrow> False)"

lemma schedule_relpow: "runs_through ts s \<Longrightarrow> \<exists>s'. (queue_step ^^ length ts) s s'"
proof (induction ts arbitrary: s)
  case Nil
  then show ?case by auto
next
  case (Cons t ts)
  then obtain u where "thread_step t s = Inr (Some u)" "runs_through ts u"
    by (auto split: sum.splits option.splits)
  with Cons.IH [of u] sched [of t s u] show ?case by (auto simp del: relpowp.simps(2) intro: relpowp_Suc_I2)
qed

text \<open>Threads in front of a new queue.\<close>

definition queue_system_start :: "'a queue_t \<Rightarrow> 'a list list \<Rightarrow> nat \<Rightarrow> 'a queue_system" where
  "queue_system_start q work n =
     \<lparr>shared_queue = q, producers = map (\<lambda>w. (w, P_start)) work, consumers = replicate n (C_start, [])\<rparr>"

section \<open>One producer, one consumer\<close>

fun p_claimed :: "push_pc \<Rightarrow> nat" where
  "p_claimed P_start = 0" | "p_claimed _ = 1"

fun p_indexed :: "push_pc \<Rightarrow> nat" where
  "p_indexed P_start = 0" | "p_indexed P_acquired = 0" | "p_indexed _ = 1"

fun c_claimed :: "'a pop_pc \<Rightarrow> nat" where
  "c_claimed C_start = 0" | "c_claimed _ = 1"

fun c_indexed :: "'a pop_pc \<Rightarrow> nat" where
  "c_indexed C_start = 0" | "c_indexed C_acquired = 0" | "c_indexed _ = 1"

text \<open>\<open>k\<close> items are handed over, \<open>g\<close> of them are consumed.\<close>

definition spsc_at :: "'a list \<Rightarrow> 'a queue_t \<Rightarrow> 'a list \<Rightarrow> push_pc \<Rightarrow> 'a pop_pc \<Rightarrow> 'a list \<Rightarrow> nat \<Rightarrow> nat \<Rightarrow> bool" where
  "spsc_at work q todo pc cc got k g \<longleftrightarrow>
     0 < sint (capacity q) \<and> length (items q) = q_cap q \<and>
     length todo + k = length work \<and> todo = drop k work \<and> length got = g \<and> got = take g work \<and>
     (todo = [] \<longrightarrow> pc = P_start) \<and>
     sint (tail_index q) = int (k + p_indexed pc) \<and> sint (head_index q) = int (g + c_indexed cc) \<and>
     sem_max (used_items q) = q_cap q \<and> sem_max (free_items q) = q_cap q \<and>
     sem_count (used_items q) + g + c_claimed cc = k \<and>
     sem_count (free_items q) + k + p_claimed pc = q_cap q + g \<and>
     (\<forall>i. pc = P_slot i \<longrightarrow> i = int (k mod q_cap q)) \<and>
     (\<forall>i. cc = C_slot i \<longrightarrow> i = int (g mod q_cap q)) \<and>
     (\<forall>x. cc = C_loaded x \<longrightarrow> x = work ! g) \<and>
     (\<forall>j. g \<le> j \<and> j < k \<longrightarrow> items q ! (j mod q_cap q) = work ! j) \<and>
     (pc = P_stored \<longrightarrow> items q ! (k mod q_cap q) = work ! k)"

definition spsc_ok :: "'a list \<Rightarrow> 'a queue_t \<Rightarrow> 'a producer \<Rightarrow> 'a consumer \<Rightarrow> bool" where
  "spsc_ok work q p c \<longleftrightarrow> (\<exists>k g. spsc_at work q (fst p) (snd p) (fst c) (snd c) k g)"

lemma spsc_okI: "spsc_at work q todo pc cc got k g \<Longrightarrow> spsc_ok work q (todo, pc) (cc, got)"
  by (auto simp: spsc_ok_def)

lemma spsc_okE:
  assumes "spsc_ok work q (todo, pc) (cc, got)"
  obtains k g where "spsc_at work q todo pc cc got k g"
  using assms by (auto simp: spsc_ok_def)

lemma slot_index_int:
  "sint i = int n \<Longrightarrow> 0 < sint cap \<Longrightarrow> slot_index i cap = Inr (int (n mod nat (sint cap)))"
  using slot_index_nonneg [of i cap] by simp

lemma sint_next: "sint i = int n \<Longrightarrow> n < index_limit \<Longrightarrow> sint (i + 1 :: i32) = int (Suc n)"
  using sint_plus_one [of i] by simp

lemma q_cap_update [simp]:
  "q_cap (q\<lparr>free_items := f\<rparr>) = q_cap q" "q_cap (q\<lparr>used_items := f\<rparr>) = q_cap q"
  "q_cap (q\<lparr>items := xs\<rparr>) = q_cap q" "q_cap (q\<lparr>head_index := i\<rparr>) = q_cap q"
  "q_cap (q\<lparr>tail_index := i\<rparr>) = q_cap q"
  by (simp_all add: q_cap_def)

lemma spsc_push:
  assumes ok: "spsc_ok work q (todo, pc) c" and lim: "length work \<le> index_limit"
  shows "(\<exists>q' p'. push_step q (todo, pc) = Inr (Some (q', p')) \<and> spsc_ok work q' p' c) \<or>
    push_step q (todo, pc) = Inr None \<and> (todo = [] \<or> pc = P_start \<and> sem_count (free_items q) = 0)"
proof (cases todo)
  case Nil
  then show ?thesis by simp
next
  case (Cons x xs)
  obtain cc got where c: "c = (cc, got)" by (cases c)
  from ok [unfolded c] obtain k g where A: "spsc_at work q todo pc cc got k g" by (rule spsc_okE)
  then have I: "0 < sint (capacity q)" "length (items q) = q_cap q"
    "length todo + k = length work" "todo = drop k work" "length got = g" "got = take g work"
    "sint (tail_index q) = int (k + p_indexed pc)" "sint (head_index q) = int (g + c_indexed cc)"
    "sem_max (used_items q) = q_cap q" "sem_max (free_items q) = q_cap q"
    "sem_count (used_items q) + g + c_claimed cc = k"
    "sem_count (free_items q) + k + p_claimed pc = q_cap q + g"
    "\<forall>i. pc = P_slot i \<longrightarrow> i = int (k mod q_cap q)"
    "\<forall>i. cc = C_slot i \<longrightarrow> i = int (g mod q_cap q)"
    "\<forall>x. cc = C_loaded x \<longrightarrow> x = work ! g"
    "\<forall>j. g \<le> j \<and> j < k \<longrightarrow> items q ! (j mod q_cap q) = work ! j"
    "pc = P_stored \<longrightarrow> items q ! (k mod q_cap q) = work ! k"
    unfolding spsc_at_def by blast+
  have dk: "drop k work = x # xs" using I(4) Cons by simp
  have x: "x = work ! k" "xs = drop (Suc k) work" "k < length work" "length xs + Suc k = length work"
    using nth_via_drop [OF dk] arg_cong [OF dk, of tl] I(3) Cons
    by (simp_all add: drop_Suc tl_drop)
  show ?thesis
  proof (cases pc)
    case P_start
    show ?thesis
    proof (cases "sem_count (free_items q) = 0")
      case True
      then show ?thesis using Cons P_start by (simp add: semaphore_acquire_def)
    next
      case False
      have "spsc_ok work (q\<lparr>free_items := (free_items q)\<lparr>sem_count := sem_count (free_items q) - 1\<rparr>\<rparr>)
          (x # xs, P_acquired) c"
        unfolding c using I Cons P_start False x
        by (intro spsc_okI [where k = k and g = g]) (simp add: spsc_at_def)
      then show ?thesis using Cons P_start False by (simp add: semaphore_acquire_def)
    qed
  next
    case P_acquired
    have i: "slot_index (tail_index q) (capacity q) = Inr (int (k mod q_cap q))"
      using slot_index_int [of "tail_index q" k "capacity q"] I(1,7) P_acquired by (simp add: q_cap_def)
    have "sint (tail_index q + 1) = int (Suc k)"
      using sint_next [of "tail_index q" k] I(7) P_acquired x(3) lim by simp
    then have "spsc_ok work (q\<lparr>tail_index := tail_index q + 1\<rparr>) (x # xs, P_slot (int (k mod q_cap q))) c"
      unfolding c using I Cons P_acquired x
      by (intro spsc_okI [where k = k and g = g]) (simp add: spsc_at_def)
    then show ?thesis using Cons P_acquired i by simp
  next
    case (P_slot i)
    have i: "i = int (k mod q_cap q)" and cp: "0 < q_cap q"
      using I(1,13) P_slot by (simp_all add: q_cap_def)
    have set: "array_set (items q) i x = Inr ((items q)[k mod q_cap q := x])"
      using i cp I(2) by (simp add: array_set_def)
    have room: "k - g < q_cap q" using I(11,12) P_slot by simp
    have old: "(items q)[k mod q_cap q := x] ! (j mod q_cap q) = work ! j" if "g \<le> j" "j < k" for j
      using window_slots_differ [OF that room] I(16) that by (simp add: nth_list_update)
    have new: "(items q)[k mod q_cap q := x] ! (k mod q_cap q) = work ! k"
      using cp I(2) x(1) by simp
    have "spsc_ok work (q\<lparr>items := (items q)[k mod q_cap q := x]\<rparr>) (x # xs, P_stored) c"
      unfolding c using I(1-15) Cons P_slot old new x(3)
      by (intro spsc_okI [where k = k and g = g]) (simp add: spsc_at_def)
    then show ?thesis using Cons P_slot set by simp
  next
    case P_stored
    have cnt: "sem_count (used_items q) < sem_max (used_items q)"
      using I(9,11,12) P_stored by simp
    have win: "\<forall>j. g \<le> j \<and> j < Suc k \<longrightarrow> items q ! (j mod q_cap q) = work ! j"
      using I(16,17) P_stored by (auto simp: less_Suc_eq)
    have "spsc_ok work (q\<lparr>used_items := (used_items q)\<lparr>sem_count := Suc (sem_count (used_items q))\<rparr>\<rparr>)
        (xs, P_start) c"
      unfolding c using I(1-13,14,15) P_stored x win
      by (intro spsc_okI [where k = "Suc k" and g = g]) (simp add: spsc_at_def)
    then show ?thesis using Cons P_stored cnt by (simp add: semaphore_release_def)
  qed
qed

lemma spsc_pop:
  assumes ok: "spsc_ok work q p (cc, got)" and lim: "length work \<le> index_limit"
  shows "(\<exists>q' c'. pop_step q (cc, got) = Inr (Some (q', c')) \<and> spsc_ok work q' p c') \<or>
    pop_step q (cc, got) = Inr None \<and> cc = C_start \<and> sem_count (used_items q) = 0"
proof -
  obtain todo pc where p: "p = (todo, pc)" by (cases p)
  from ok [unfolded p] obtain k g where A: "spsc_at work q todo pc cc got k g" by (rule spsc_okE)
  then have I: "0 < sint (capacity q)" "length (items q) = q_cap q"
    "length todo + k = length work" "todo = drop k work" "length got = g" "got = take g work"
    "sint (tail_index q) = int (k + p_indexed pc)" "sint (head_index q) = int (g + c_indexed cc)"
    "sem_max (used_items q) = q_cap q" "sem_max (free_items q) = q_cap q"
    "sem_count (used_items q) + g + c_claimed cc = k"
    "sem_count (free_items q) + k + p_claimed pc = q_cap q + g"
    "\<forall>i. pc = P_slot i \<longrightarrow> i = int (k mod q_cap q)"
    "\<forall>i. cc = C_slot i \<longrightarrow> i = int (g mod q_cap q)"
    "\<forall>x. cc = C_loaded x \<longrightarrow> x = work ! g"
    "\<forall>j. g \<le> j \<and> j < k \<longrightarrow> items q ! (j mod q_cap q) = work ! j"
    "pc = P_stored \<longrightarrow> items q ! (k mod q_cap q) = work ! k" "todo = [] \<longrightarrow> pc = P_start"
    unfolding spsc_at_def by blast+
  have cp: "0 < q_cap q" using I(1) by (simp add: q_cap_def)
  show ?thesis
  proof (cases cc)
    case C_start
    show ?thesis
    proof (cases "sem_count (used_items q) = 0")
      case True
      then show ?thesis using C_start by (simp add: semaphore_acquire_def)
    next
      case False
      have "spsc_ok work (q\<lparr>used_items := (used_items q)\<lparr>sem_count := sem_count (used_items q) - 1\<rparr>\<rparr>)
          p (C_acquired, got)"
        unfolding p using I C_start False
        by (intro spsc_okI [where k = k and g = g]) (simp add: spsc_at_def)
      then show ?thesis using C_start False by (simp add: semaphore_acquire_def)
    qed
  next
    case C_acquired
    have i: "slot_index (head_index q) (capacity q) = Inr (int (g mod q_cap q))"
      using slot_index_int [of "head_index q" g "capacity q"] I(1,8) C_acquired by (simp add: q_cap_def)
    have "sint (head_index q + 1) = int (Suc g)"
      using sint_next [of "head_index q" g] I(3,8,11) C_acquired lim by simp
    then have "spsc_ok work (q\<lparr>head_index := head_index q + 1\<rparr>) p (C_slot (int (g mod q_cap q)), got)"
      unfolding p using I C_acquired
      by (intro spsc_okI [where k = k and g = g]) (simp add: spsc_at_def)
    then show ?thesis using C_acquired i by simp
  next
    case (C_slot i)
    have "array_get (items q) i = Inr (items q ! (g mod q_cap q))"
      using I(2,14) C_slot cp by (simp add: array_get_def)
    moreover have "items q ! (g mod q_cap q) = work ! g" using I(11,16) C_slot by simp
    moreover have "spsc_ok work q p (C_loaded (work ! g), got)"
      unfolding p using I C_slot by (intro spsc_okI [where k = k and g = g]) (simp add: spsc_at_def)
    ultimately show ?thesis using C_slot by simp
  next
    case (C_loaded x)
    have cnt: "sem_count (free_items q) < sem_max (free_items q)"
      using I(10,11,12) C_loaded by simp
    have "take (Suc g) work = got @ [x]"
      using I(3,6,11,15) C_loaded by (simp add: take_Suc_conv_app_nth)
    then have "spsc_ok work (q\<lparr>free_items := (free_items q)\<lparr>sem_count := Suc (sem_count (free_items q))\<rparr>\<rparr>)
        p (C_start, got @ [x])"
      unfolding p using I C_loaded
      by (intro spsc_okI [where k = k and g = "Suc g"]) (simp add: spsc_at_def)
    then show ?thesis using C_loaded cnt by (simp add: semaphore_release_def)
  qed
qed

text \<open>A state of one producer and one consumer, its order and its measure.\<close>

definition spsc_inv :: "'a list \<Rightarrow> 'a queue_system \<Rightarrow> bool" where
  "spsc_inv work s \<longleftrightarrow> (\<exists>p c. producers s = [p] \<and> consumers s = [c] \<and> spsc_ok work (shared_queue s) p c)"

lemma spsc_inv_thread:
  assumes inv: "spsc_inv work s" and lim: "length work \<le> index_limit"
  shows "\<exists>r. thread_step t s = Inr r \<and> (\<forall>s'. r = Some s' \<longrightarrow> spsc_inv work s')"
proof -
  from inv obtain todo pc cc got where st: "producers s = [(todo, pc)]" "consumers s = [(cc, got)]"
    and ok: "spsc_ok work (shared_queue s) (todo, pc) (cc, got)"
    by (auto simp: spsc_inv_def)
  show ?thesis
  proof (cases t)
    case (Producer i)
    with spsc_push [OF ok lim] st show ?thesis by (cases "i = 0") (auto simp: spsc_inv_def)
  next
    case (Consumer i)
    with spsc_pop [OF ok lim] st show ?thesis by (cases "i = 0") (auto simp: spsc_inv_def)
  qed
qed

lemma spsc_inv_steps:
  assumes "queue_step\<^sup>*\<^sup>* s s'" and "spsc_inv work s" and "length work \<le> index_limit"
  shows "spsc_inv work s'"
  using assms(1,2)
proof (induction rule: rtranclp_induct)
  case base
  then show ?case .
next
  case (step t u)
  from step.hyps(2) obtain th where "thread_step th t = Inr (Some u)" by (auto elim: queue_step.cases)
  with spsc_inv_thread [OF step.IH [OF step.prems] assms(3), of th] show ?case by auto
qed

lemma spsc_inv_start:
  assumes "queue_create fresh cap = Inr q" and "0 < sint cap" and "nat (sint cap) \<le> length fresh"
  shows "spsc_inv work (queue_system_start q [work] 1)"
proof -
  have q: "q = \<lparr>used_items = \<lparr>sem_count = 0, sem_max = nat (sint cap)\<rparr>,
      free_items = \<lparr>sem_count = nat (sint cap), sem_max = nat (sint cap)\<rparr>,
      items = take (nat (sint cap)) fresh, capacity = cap, head_index = 0, tail_index = 0\<rparr>"
    using assms by (simp add: queue_create_def semaphore_create_def)
  have "spsc_at work q work P_start C_start [] 0 0"
    unfolding q spsc_at_def using assms by (simp add: q_cap_def)
  then show ?thesis by (auto simp: spsc_inv_def queue_system_start_def spsc_ok_def)
qed

lemma spsc_inv_stuck:
  assumes inv: "spsc_inv work s" and lim: "length work \<le> index_limit"
    and stuck: "\<And>t. thread_step t s = Inr None"
  shows "consumers s = [(C_start, work)]"
proof -
  from inv obtain todo pc cc got where st: "producers s = [(todo, pc)]" "consumers s = [(cc, got)]"
    and ok: "spsc_ok work (shared_queue s) (todo, pc) (cc, got)"
    by (auto simp: spsc_inv_def)
  have p: "push_step (shared_queue s) (todo, pc) = Inr None"
  proof -
    from stuck [of "Producer 0"] st obtain r where "push_step (shared_queue s) (todo, pc) = Inr r"
      "(case r of None \<Rightarrow> True | Some _ \<Rightarrow> False)"
      by (auto simp: bind_ok_Inr_iff split: option.splits)
    then show ?thesis by (cases r) auto
  qed
  have c: "pop_step (shared_queue s) (cc, got) = Inr None"
  proof -
    from stuck [of "Consumer 0"] st obtain r where "pop_step (shared_queue s) (cc, got) = Inr r"
      "(case r of None \<Rightarrow> True | Some _ \<Rightarrow> False)"
      by (auto simp: bind_ok_Inr_iff split: option.splits)
    then show ?thesis by (cases r) auto
  qed
  from spsc_push [OF ok lim] p
  have p': "todo = [] \<or> pc = P_start \<and> sem_count (free_items (shared_queue s)) = 0" by auto
  from spsc_pop [OF ok lim] c
  have c': "cc = C_start" "sem_count (used_items (shared_queue s)) = 0" by auto
  from ok obtain k g where A: "spsc_at work (shared_queue s) todo pc cc got k g" by (rule spsc_okE)
  have kg: "g = k" "sem_count (free_items (shared_queue s)) + k + p_claimed pc = q_cap (shared_queue s) + g"
    "0 < q_cap (shared_queue s)"
    using A c' unfolding spsc_at_def q_cap_def by simp_all
  with p' have "todo = []" by auto
  then have "k = length work" "got = take g work" using A unfolding spsc_at_def by simp_all
  with kg(1) st c'(1) show ?thesis by simp
qed

section \<open>Every run ends\<close>

fun push_rank :: "push_pc \<Rightarrow> nat" where
  "push_rank P_start = 0" | "push_rank P_acquired = 1" | "push_rank (P_slot _) = 2" | "push_rank P_stored = 3"

fun pop_rank :: "'a pop_pc \<Rightarrow> nat" where
  "pop_rank C_start = 0" | "pop_rank C_acquired = 1" | "pop_rank (C_slot _) = 2" | "pop_rank (C_loaded _) = 3"

text \<open>The actions that are still to come.\<close>

definition spsc_left :: "'a list \<Rightarrow> 'a queue_system \<Rightarrow> nat" where
  "spsc_left work s =
     4 * length (fst (hd (producers s))) - push_rank (snd (hd (producers s))) +
     (4 * (length work - length (snd (hd (consumers s)))) - pop_rank (fst (hd (consumers s))))"

lemma push_step_rank:
  "push_step q (todo, pc) = Inr (Some (q', (todo', pc'))) \<Longrightarrow>
   Suc (4 * length todo' - push_rank pc') = 4 * length todo - push_rank pc"
  by (cases "(q, (todo, pc))" rule: push_step.cases)
    (auto simp: bind_ok_Inr_iff split: option.splits)

lemma pop_step_rank:
  "pop_step q (cc, got) = Inr (Some (q', (cc', got'))) \<Longrightarrow> length got < n \<Longrightarrow>
   Suc (4 * (n - length got') - pop_rank cc') = 4 * (n - length got) - pop_rank cc"
  by (cases "(q, (cc, got))" rule: pop_step.cases)
    (auto simp: bind_ok_Inr_iff split: option.splits)

lemma spsc_step_left:
  assumes inv: "spsc_inv work s" and step: "queue_step s s'"
  shows "Suc (spsc_left work s') = spsc_left work s"
proof -
  from inv obtain todo pc cc got where st: "producers s = [(todo, pc)]" "consumers s = [(cc, got)]"
    and ok: "spsc_ok work (shared_queue s) (todo, pc) (cc, got)"
    by (auto simp: spsc_inv_def)
  from step obtain t where t: "thread_step t s = Inr (Some s')" by (auto elim: queue_step.cases)
  from ok obtain k g where A: "spsc_at work (shared_queue s) todo pc cc got k g" by (rule spsc_okE)
  show ?thesis
  proof (cases t)
    case (Producer i)
    with t st obtain q' todo' pc' where p: "push_step (shared_queue s) (todo, pc) = Inr (Some (q', (todo', pc')))"
      and s': "s' = s\<lparr>shared_queue := q', producers := [(todo', pc')]\<rparr>"
      by (auto simp: bind_ok_Inr_iff split: if_splits option.splits)
    show ?thesis using push_step_rank [OF p] by (simp add: spsc_left_def st s')
  next
    case (Consumer i)
    with t st obtain q' cc' got' where p: "pop_step (shared_queue s) (cc, got) = Inr (Some (q', (cc', got')))"
      and s': "s' = s\<lparr>shared_queue := q', consumers := [(cc', got')]\<rparr>"
      by (auto simp: bind_ok_Inr_iff split: if_splits option.splits)
    have "length got < length work"
    proof (cases "cc = C_start")
      case True
      with p have "sem_count (used_items (shared_queue s)) \<noteq> 0" by (auto simp: semaphore_acquire_def split: if_splits)
      with A show ?thesis unfolding spsc_at_def by simp
    next
      case False
      then have "c_claimed cc = 1" by (cases cc) auto
      with A show ?thesis unfolding spsc_at_def by simp
    qed
    note rank = pop_step_rank [OF p this]
    have "spsc_left work s = 4 * length todo - push_rank pc + (4 * (length work - length got) - pop_rank cc)"
      "spsc_left work s' = 4 * length todo - push_rank pc + (4 * (length work - length got') - pop_rank cc')"
      by (simp_all add: spsc_left_def st s')
    with rank show ?thesis by linarith
  qed
qed

lemma spsc_run_bound:
  assumes "(queue_step ^^ n) s s'" and "spsc_inv work s" and "length work \<le> index_limit"
  shows "n + spsc_left work s' = spsc_left work s"
  using assms(1)
proof (induction n arbitrary: s')
  case 0
  then show ?case by simp
next
  case (Suc n)
  then obtain t where t: "(queue_step ^^ n) s t" "queue_step t s'" by auto
  have "spsc_inv work t"
    using spsc_inv_steps [OF relpowp_imp_rtranclp [OF t(1)] assms(2,3)] .
  from Suc.IH [OF t(1)] spsc_step_left [OF this t(2)] show ?case by linarith
qed

section \<open>Properties\<close>

text \<open>
  C8. One producer thread and one consumer thread may share a queue without a lock: in every
  interleaving of their atomic actions, no action faults, and what the consumer has got is
  always a prefix of what the producer was given to push -- in order, nothing twice, nothing
  torn. (The render and network queues are used this way.)
\<close>

theorem spsc_delivers_in_order:
  assumes "queue_create fresh cap = Inr q" and "0 < sint cap" and "nat (sint cap) \<le> length fresh"
    and "length work \<le> index_limit" and "queue_step\<^sup>*\<^sup>* (queue_system_start q [work] 1) s"
  shows "(\<exists>n. snd (consumers s ! 0) = take n work) \<and> (\<forall>t f. thread_step t s \<noteq> Inl f)"
proof
  have inv: "spsc_inv work s"
    using spsc_inv_steps [OF assms(5) spsc_inv_start [OF assms(1-3)] assms(4)] .
  then obtain todo pc cc got where "consumers s = [(cc, got)]"
    and "spsc_ok work (shared_queue s) (todo, pc) (cc, got)"
    by (auto simp: spsc_inv_def)
  then show "\<exists>n. snd (consumers s ! 0) = take n work"
    by (auto simp: spsc_ok_def spsc_at_def)
  show "\<forall>t f. thread_step t s \<noteq> Inl f"
    using spsc_inv_thread [OF inv assms(4)] by (metis sum.distinct(1))
qed

theorem spsc_delivers_in_order_witness:
  "\<exists>q s. queue_create [0, 0 :: nat] 2 = Inr q \<and>
     run_schedule [Producer 0, Producer 0, Producer 0, Consumer 0, Producer 0, Consumer 0, Producer 0,
       Consumer 0, Consumer 0, Consumer 0] (queue_system_start q [[7, 8]] 1) = Inr s \<and>
     snd (consumers s ! 0) = [7] \<and> (\<exists>n. snd (consumers s ! 0) = take n [7, 8]) \<and>
     (\<forall>t f. thread_step t s \<noteq> Inl f)"
proof -
  obtain q where q: "queue_create [0, 0 :: nat] 2 = Inr q"
    by (simp add: queue_create_def semaphore_create_def)
  have "\<exists>s. run_schedule [Producer 0, Producer 0, Producer 0, Consumer 0, Producer 0, Consumer 0,
       Producer 0, Consumer 0, Consumer 0, Consumer 0] (queue_system_start q [[7, 8]] 1) = Inr s \<and> snd (consumers s ! 0) = [7]"
    using q by (auto simp: queue_create_def semaphore_create_def queue_system_start_def
        semaphore_acquire_def semaphore_release_def slot_index_nonneg array_get_def array_set_def)
  then obtain s where s: "run_schedule [Producer 0, Producer 0, Producer 0, Consumer 0, Producer 0, Consumer 0,
       Producer 0, Consumer 0, Consumer 0, Consumer 0] (queue_system_start q [[7, 8]] 1) = Inr s" "snd (consumers s ! 0) = [7]"
    by blast
  from spsc_delivers_in_order [OF q _ _ _ run_schedule_steps [OF s(1)]] q s show ?thesis
    by (auto simp: index_limit_def)
qed

text \<open>
  C9. The single producer / single consumer hand-over always completes: every execution has
  at most 8 actions per item, and an execution that cannot go on has delivered every item, so
  the two semaphores never deadlock the pair and never lose a wake-up.
\<close>

theorem spsc_delivers_everything:
  assumes "queue_create fresh cap = Inr q" and "0 < sint cap" and "nat (sint cap) \<le> length fresh"
    and "length work \<le> index_limit" and "(queue_step ^^ n) (queue_system_start q [work] 1) s"
  shows "n \<le> 8 * length work \<and> ((\<forall>t. thread_step t s = Inr None) \<longrightarrow> consumers s = [(C_start, work)])"
proof -
  have init: "spsc_inv work (queue_system_start q [work] 1)" by (rule spsc_inv_start [OF assms(1-3)])
  have "spsc_left work (queue_system_start q [work] 1) = 8 * length work"
    by (simp add: spsc_left_def queue_system_start_def)
  then have "n \<le> 8 * length work" using spsc_run_bound [OF assms(5) init assms(4)] by linarith
  moreover have "spsc_inv work s"
    using spsc_inv_steps [OF relpowp_imp_rtranclp [OF assms(5)] init assms(4)] .
  ultimately show ?thesis using spsc_inv_stuck [OF _ assms(4)] by blast
qed

theorem spsc_delivers_everything_witness:
  "\<exists>q s. queue_create [0 :: nat] 1 = Inr q \<and> (queue_step ^^ 8) (queue_system_start q [[7]] 1) s \<and>
     (8 :: nat) \<le> 8 * length [7 :: nat] \<and>
     ((\<forall>t. thread_step t s = Inr None) \<longrightarrow> consumers s = [(C_start, [7])])"
proof -
  obtain q where q: "queue_create [0 :: nat] 1 = Inr q"
    by (simp add: queue_create_def semaphore_create_def)
  let ?ts = "[Producer 0, Producer 0, Producer 0, Producer 0, Consumer 0, Consumer 0, Consumer 0, Consumer 0]"
  have "runs_through ?ts (queue_system_start q [[7]] 1)"
    using q by (auto simp: queue_create_def semaphore_create_def queue_system_start_def
        semaphore_acquire_def semaphore_release_def slot_index_nonneg array_get_def array_set_def)
  moreover have "length ?ts = 8" by simp
  ultimately have "\<exists>s. (queue_step ^^ 8) (queue_system_start q [[7]] 1) s"
    using schedule_relpow by metis
  then obtain s where s: "(queue_step ^^ 8) (queue_system_start q [[7]] 1) s" by blast
  have "(8 :: nat) \<le> 8 * length [7 :: nat] \<and>
      ((\<forall>t. thread_step t s = Inr None) \<longrightarrow> consumers s = [(C_start, [7])])"
    by (rule spsc_delivers_everything [OF q _ _ _ s]) (simp_all add: index_limit_def)
  with q s show ?thesis by blast
qed

text \<open>
  C10. More than one producer is not safe. Two producers and one consumer on a queue of two:
  the first producer claims slot 0 and is delayed, the second fills slot 1 and signals, and the
  consumer, woken by that signal, reads slot 0, which nobody has written: it gets whatever the
  uninitialised slot array held.
\<close>

theorem two_producers_hand_over_unwritten_slot:
  "\<exists>q s. queue_create [99, 98 :: nat] 2 = Inr q \<and>
     queue_step\<^sup>*\<^sup>* (queue_system_start q [[1], [2]] 1) s \<and> consumers s = [(C_start, [99])]"
proof -
  obtain q where q: "queue_create [99, 98 :: nat] 2 = Inr q"
    by (simp add: queue_create_def semaphore_create_def)
  have "\<exists>s. run_schedule [Producer 0, Producer 0, Producer 1, Producer 1, Producer 1, Producer 1,
      Consumer 0, Consumer 0, Consumer 0, Consumer 0] (queue_system_start q [[1], [2]] 1) = Inr s \<and>
      consumers s = [(C_start, [99])]"
    using q by (auto simp: queue_create_def semaphore_create_def queue_system_start_def
        semaphore_acquire_def semaphore_release_def slot_index_nonneg array_get_def array_set_def)
  with q run_schedule_steps show ?thesis by blast
qed

end
