(* ===== verification/Fs.thy ===== *)
theory Fs
  imports Memory Sync
begin

text \<open>
  The file system worker's operations (\<^verbatim>\<open>fs.h\<close>, \<^verbatim>\<open>fs.c\<close>) on one work item: what the file thread
  and the compression thread do between taking it from a queue and passing it on.  \<open>Fs_Threads\<close>
  composes them with the queues and threads.  The Windows file calls and the LZ4 functions are
  parameters (records \<open>fs_io\<close> and \<open>lz4_lib\<close>); \<open>fs_io_contract\<close> and \<open>lz4_contract\<close> state what
  their documentation promises.
\<close>

section \<open>Parameters\<close>

text \<open>File calls over a disk of type \<open>'d\<close>; \<open>Inl\<close> carries \<^verbatim>\<open>GetLastError\<close>.  \<open>io_wide\<close> is the result
  of \<^verbatim>\<open>MultiByteToWideChar\<close> on the path.\<close>

record 'd fs_io =
  io_wide :: "string \<Rightarrow> int"
  io_open_read :: "'d \<Rightarrow> string \<Rightarrow> i32 + 'd"
  io_open_write :: "'d \<Rightarrow> string \<Rightarrow> i32 + 'd"
  io_size :: "'d \<Rightarrow> string \<Rightarrow> i32 + u64"
  io_read :: "'d \<Rightarrow> string \<Rightarrow> u32 \<Rightarrow> i32 + bytes"
  io_write :: "'d \<Rightarrow> string \<Rightarrow> bytes \<Rightarrow> i32 + ('d \<times> u32)"

text \<open>\<open>lz4_compress src cap\<close> is what \<^verbatim>\<open>LZ4_compress_default\<close> writes to the destination (its length is
  the return value, 0 on failure); \<open>lz4_decompress src cap\<close> what \<^verbatim>\<open>LZ4_decompress_safe\<close> writes.\<close>

record lz4_lib =
  lz4_compress :: "bytes \<Rightarrow> nat \<Rightarrow> bytes"
  lz4_decompress :: "bytes \<Rightarrow> int \<Rightarrow> bytes"

definition LZ4_MAX_INPUT_SIZE :: int where "LZ4_MAX_INPUT_SIZE = 0x7E000000"

text \<open>The macro \<^verbatim>\<open>LZ4_COMPRESSBOUND\<close>.\<close>

definition LZ4_compressBound :: "i32 \<Rightarrow> i32" where
  "LZ4_compressBound n =
     (if LZ4_MAX_INPUT_SIZE < uint n then 0 else word_of_int (sint n + sint n div 255 + 16))"

definition lz4_contract :: "lz4_lib \<Rightarrow> bool" where
  "lz4_contract L \<longleftrightarrow>
     (\<forall>src cap. length (lz4_compress L src cap) \<le> cap) \<and>
     (\<forall>src cap. 0 \<le> cap \<longrightarrow> length (lz4_decompress L src cap) \<le> nat cap) \<and>
     (\<forall>src cap. int (length src) \<le> LZ4_MAX_INPUT_SIZE \<longrightarrow>
        length src + length src div 255 + 16 \<le> cap \<longrightarrow>
        lz4_decompress L (lz4_compress L src cap) (int (length src)) = src)"

text \<open>A file that was written completely is there, with its bytes.\<close>

definition fs_io_contract :: "'d fs_io \<Rightarrow> string \<Rightarrow> 'd \<Rightarrow> 'd \<Rightarrow> bytes \<Rightarrow> bool" where
  "fs_io_contract io path d d' bs \<longleftrightarrow>
     0 < io_wide io path \<and>
     (\<exists>d1. io_open_write io d path = Inr d1 \<and> io_write io d1 path bs = Inr (d', word_of_nat (length bs))) \<and>
     (\<exists>d2. io_open_read io d' path = Inr d2 \<and> io_size io d2 path = Inr (word_of_nat (length bs)) \<and>
        io_read io d2 path (word_of_nat (length bs)) = Inr bs)"

section \<open>Work items\<close>

datatype fs_work_op_t = k_fs_work_op_read | k_fs_work_op_write

record fs_work_t =
  w_self :: "ptr option"
  w_op :: fs_work_op_t
  w_path :: string
  w_null_terminate :: bool
  w_use_compression :: bool
  w_buffer :: "ptr option"
  w_size :: u64
  w_done :: event
  w_result :: i32

definition sizeof_fs_work_t :: nat where "sizeof_fs_work_t = 1080"

definition k_path_size :: nat where "k_path_size = 1024"

text \<open>The part of \<^verbatim>\<open>fs_read\<close> and \<^verbatim>\<open>fs_write\<close> before the push.  A null work pointer faults at once;
  \<^verbatim>\<open>strcpy_s\<close> stops the program when the path does not fit.\<close>

definition fs_work_new ::
    "mem \<Rightarrow> fs_work_op_t \<Rightarrow> string \<Rightarrow> ptr option \<Rightarrow> u64 \<Rightarrow> bool \<Rightarrow> bool \<Rightarrow> (mem \<times> fs_work_t) outcome" where
  "fs_work_new m op path buf sz null_terminate use_compression =
     (let (m1, p) = heap_alloc m sizeof_fs_work_t 8
      in if p = None then Inl Null_deref
         else if k_path_size \<le> length path then Inl Invalid_parameter
         else Inr (m1, \<lparr>w_self = p, w_op = op, w_path = path, w_null_terminate = null_terminate,
                        w_use_compression = use_compression, w_buffer = buf, w_size = sz,
                        w_done = event_create, w_result = 0\<rparr>))"

definition fs_read_work :: "mem \<Rightarrow> string \<Rightarrow> bool \<Rightarrow> bool \<Rightarrow> (mem \<times> fs_work_t) outcome" where
  "fs_read_work m path null_terminate use_compression =
     fs_work_new m k_fs_work_op_read path None 0 null_terminate use_compression"

definition fs_write_work :: "mem \<Rightarrow> string \<Rightarrow> ptr option \<Rightarrow> u64 \<Rightarrow> bool \<Rightarrow> (mem \<times> fs_work_t) outcome" where
  "fs_write_work m path buf sz use_compression =
     fs_work_new m k_fs_work_op_write path buf sz False use_compression"

text \<open>The accessors wait for \<open>done\<close>: \<open>None\<close> while they have to.\<close>

definition fs_work_is_done :: "fs_work_t option \<Rightarrow> bool" where
  "fs_work_is_done work = (case work of None \<Rightarrow> True | Some w \<Rightarrow> event_is_raised (w_done w))"

definition fs_work_wait :: "fs_work_t option \<Rightarrow> unit option" where
  "fs_work_wait work = (case work of None \<Rightarrow> Some () | Some w \<Rightarrow> map_option (\<lambda>_. ()) (event_wait (w_done w)))"

definition fs_work_get_result :: "fs_work_t option \<Rightarrow> i32 option" where
  "fs_work_get_result work =
     (case fs_work_wait work of None \<Rightarrow> None
      | Some _ \<Rightarrow> Some (case work of None \<Rightarrow> -1 | Some w \<Rightarrow> w_result w))"

definition fs_work_get_buffer :: "fs_work_t option \<Rightarrow> ptr option option" where
  "fs_work_get_buffer work =
     (case fs_work_wait work of None \<Rightarrow> None
      | Some _ \<Rightarrow> Some (case work of None \<Rightarrow> None | Some w \<Rightarrow> w_buffer w))"

definition fs_work_get_size :: "fs_work_t option \<Rightarrow> u64 option" where
  "fs_work_get_size work =
     (case fs_work_wait work of None \<Rightarrow> None
      | Some _ \<Rightarrow> Some (case work of None \<Rightarrow> 0 | Some w \<Rightarrow> w_size w))"

definition fs_work_destroy :: "mem \<Rightarrow> fs_work_t option \<Rightarrow> mem outcome option" where
  "fs_work_destroy m work =
     (case work of None \<Rightarrow> Some (Inr m)
      | Some w \<Rightarrow> (case event_wait (w_done w) of None \<Rightarrow> None
                   | Some _ \<Rightarrow> Some (heap_free m (w_self w))))"

definition work_failed :: "fs_work_t \<Rightarrow> i32 \<Rightarrow> fs_work_t" where
  "work_failed w e = w\<lparr>w_result := e, w_done := event_signal (w_done w)\<rparr>"

definition work_done :: "fs_work_t \<Rightarrow> fs_work_t" where
  "work_done w = w\<lparr>w_done := event_signal (w_done w)\<rparr>"

section \<open>The file thread's part\<close>

definition ptr_add :: "ptr option \<Rightarrow> nat \<Rightarrow> ptr option" where
  "ptr_add p n = map_option (\<lambda>(b, off). (b, off + n)) p"

text \<open>The result's flag says whether the work goes on to the compression queue.\<close>

definition file_read :: "'d fs_io \<Rightarrow> 'd \<Rightarrow> mem \<Rightarrow> fs_work_t \<Rightarrow> ('d \<times> mem \<times> fs_work_t \<times> bool) outcome" where
  "file_read io d m w =
     (if io_wide io (w_path w) \<le> 0 then Inr (d, m, work_failed w (-1), False)
      else case io_open_read io d (w_path w) of
        Inl e \<Rightarrow> Inr (d, m, work_failed w e, False)
      | Inr d1 \<Rightarrow>
          (case io_size io d1 (w_path w) of
             Inl e \<Rightarrow> Inr (d1, m, work_failed w e, False)
           | Inr sz \<Rightarrow>
               (let (m1, p) = heap_alloc m (unat (if w_null_terminate w then sz + 1 else sz)) 8;
                    w1 = w\<lparr>w_size := sz, w_buffer := p\<rparr>
                in case io_read io d1 (w_path w) (ucast sz) of
                     Inl e \<Rightarrow> Inr (d1, m1, work_failed w1 e, False)
                   | Inr bs \<Rightarrow>
                       bind_ok (mem_write m1 p bs) (\<lambda>m2.
                       bind_ok (if w_null_terminate w then mem_write m2 (ptr_add p (length bs)) [0]
                                else Inr m2) (\<lambda>m3.
                         let w2 = w1\<lparr>w_size := word_of_nat (length bs)\<rparr>
                         in if w_use_compression w then Inr (d1, m3, w2, True)
                            else Inr (d1, m3, work_done w2, False))))))"

definition file_write :: "'d fs_io \<Rightarrow> 'd \<Rightarrow> mem \<Rightarrow> fs_work_t \<Rightarrow> ('d \<times> fs_work_t) outcome" where
  "file_write io d m w =
     (if io_wide io (w_path w) \<le> 0 then Inr (d, work_failed w (-1))
      else case io_open_write io d (w_path w) of
        Inl e \<Rightarrow> Inr (d, work_failed w e)
      | Inr d1 \<Rightarrow>
          bind_ok (mem_read m (w_buffer w) (unat (ucast (w_size w) :: u32))) (\<lambda>bs.
            case io_write io d1 (w_path w) bs of
              Inl e \<Rightarrow> Inr (d1, work_failed w e)
            | Inr (d2, n) \<Rightarrow> Inr (d2, work_done (w\<lparr>w_size := ucast n\<rparr>))))"

section \<open>The compression thread's part\<close>

text \<open>The decimal size fields: one digit of each per iteration, \<open>i\<close> from 9 down to 0; \<^verbatim>\<open>/\<close> and \<^verbatim>\<open>%\<close>
  truncate towards zero.\<close>

definition digit_char :: "i32 \<Rightarrow> u8" where
  "digit_char v = 48 + word_of_int (sint v smod 10)"

fun write_sizes :: "nat \<Rightarrow> bytes \<Rightarrow> i32 \<Rightarrow> i32 \<Rightarrow> bytes" where
  "write_sizes 0 buffer c d = buffer"
| "write_sizes (Suc i) buffer c d =
     write_sizes i (buffer[i := digit_char c, i + 11 := digit_char d])
       (word_of_int (sint c sdiv 10)) (word_of_int (sint d sdiv 10))"

definition size_header :: "i32 \<Rightarrow> i32 \<Rightarrow> bytes" where
  "size_header c d = (write_sizes 10 (replicate 22 0) c d)[10 := 10, 21 := 10]"

text \<open>Reading them back, \<open>i\<close> from 0 to 9; \<^verbatim>\<open>char\<close> is signed.\<close>

fun read_sizes :: "nat \<Rightarrow> bytes \<Rightarrow> i32 \<times> i32" where
  "read_sizes 0 buffer = (0, 0)"
| "read_sizes (Suc i) buffer =
     (let (c, d) = read_sizes i buffer
      in (c * 10 + (scast (buffer ! i) - 48), d * 10 + (scast (buffer ! (i + 11)) - 48)))"

definition file_compress :: "lz4_lib \<Rightarrow> mem \<Rightarrow> fs_work_t \<Rightarrow> (mem \<times> fs_work_t) outcome" where
  "file_compress L m w =
     (let n = ucast (w_size w) :: i32;
          max_size = LZ4_compressBound n;
          (m1, p) = heap_alloc m (nat (sint (max_size + 22))) 8
      in bind_ok (if sint n < 0 \<or> LZ4_MAX_INPUT_SIZE < sint n then Inr []
                  else bind_ok (mem_read m1 (w_buffer w) (nat (sint n)))
                         (\<lambda>src. Inr (lz4_compress L src (nat (sint max_size))))) (\<lambda>out.
         bind_ok (mem_write m1 (ptr_add p 22) out) (\<lambda>m2.
         bind_ok (mem_write m2 p (size_header (word_of_nat (length out)) n)) (\<lambda>m3.
           Inr (m3, w\<lparr>w_size := word_of_nat (length out + 22), w_buffer := p\<rparr>)))))"

definition file_decompress :: "lz4_lib \<Rightarrow> mem \<Rightarrow> fs_work_t \<Rightarrow> (mem \<times> fs_work_t) outcome" where
  "file_decompress L m w =
     bind_ok (mem_read m (w_buffer w) 21) (\<lambda>hdr.
       let (compressed_size, decompressed_size) = read_sizes 10 hdr;
           (m1, p) = heap_alloc m (unat (scast (if w_null_terminate w then decompressed_size + 1
                                                else decompressed_size) :: u64)) 8
       in bind_ok (mem_read m1 (ptr_add (w_buffer w) 22) (nat (sint compressed_size))) (\<lambda>src.
          bind_ok (mem_write m1 p (lz4_decompress L src (sint decompressed_size))) (\<lambda>m2.
          bind_ok (if w_null_terminate w
                   then (if sint decompressed_size < 0 then Inl Out_of_bounds
                         else mem_write m2 (ptr_add p (nat (sint decompressed_size))) [0])
                   else Inr m2) (\<lambda>m3.
          bind_ok (heap_free m3 (w_buffer w)) (\<lambda>m4.
            Inr (m4, work_done (w\<lparr>w_buffer := p, w_size := scast decompressed_size\<rparr>)))))))"

text \<open>An unused helper: the remainder of the address, as a signed number, by the count.\<close>

definition get_hash :: "u64 \<Rightarrow> i32 \<Rightarrow> i32 outcome" where
  "get_hash address bucket_count =
     (if bucket_count = 0 then Inl Div_by_zero else Inr (word_of_int (sint address smod sint bucket_count)))"

lemma get_hash_bucket:
  assumes "get_hash address n = Inr r" and "0 < sint n" and "0 \<le> sint address"
  shows "0 \<le> sint r \<and> sint r < sint n"
proof -
  have "n \<noteq> 0" using assms(2) by auto
  then have r: "r = word_of_int (sint address smod sint n)" using assms(1) by (simp add: get_hash_def)
  have m: "sint address smod sint n = sint address mod sint n"
    using assms(2,3) by (simp add: smod_int_alt_def sgn_if)
  have "sint n < 2 ^ 31" using sint_lt [of n] by simp
  then have "signed_take_bit 31 (sint address mod sint n) = sint address mod sint n"
    using assms(2) by (intro signed_take_bit_int_eq_self)
      (use pos_mod_sign [OF assms(2), of "sint address"] pos_mod_bound [OF assms(2), of "sint address"] in linarith)+
  then have "sint r = sint address mod sint n" by (simp add: r m signed_of_int)
  then show ?thesis using assms(2) by simp
qed

end
