(* ===== verification/Fs_Threads.thy ===== *)
theory Fs_Threads
  imports Fs Ring_Queue
begin

text \<open>
  The file system as a whole: a client, the file thread and the compression thread around two
  bounded queues (\<^verbatim>\<open>fs_create\<close>, \<^verbatim>\<open>fs_read\<close>, \<^verbatim>\<open>fs_write\<close>, \<^verbatim>\<open>fs_destroy\<close>, the two thread functions).
  Work items are numbered; a null item is the request to stop.  The steps interleave in any
  order; a call that would block is a step that is not enabled (\<open>None\<close>).
\<close>

section \<open>State and steps\<close>

datatype worker =
    W_wait            \<comment> \<open>at the pop\<close>
  | W_has nat         \<comment> \<open>popped, before the operation\<close>
  | W_push nat        \<comment> \<open>at the push onto the other queue\<close>
  | W_stopped

record 'd fs_t =
  file_queue :: "nat option queue_t"
  compression_queue :: "nat option queue_t"
  file_thread :: worker
  compression_thread :: worker
  fs_works :: "nat \<Rightarrow> fs_work_t option"
  fs_next :: nat
  fs_mem :: mem
  fs_disk :: 'd

definition fs_create :: "mem \<Rightarrow> 'd \<Rightarrow> nat option list \<Rightarrow> nat option list \<Rightarrow> i32 \<Rightarrow> 'd fs_t outcome" where
  "fs_create m d fresh1 fresh2 queue_capacity =
     bind_ok (queue_create fresh1 queue_capacity) (\<lambda>q1.
     bind_ok (queue_create fresh2 queue_capacity) (\<lambda>q2.
       Inr \<lparr>file_queue = q1, compression_queue = q2, file_thread = W_wait, compression_thread = W_wait,
            fs_works = (\<lambda>_. None), fs_next = 0, fs_mem = m, fs_disk = d\<rparr>))"

text \<open>Queueing a new work item, on the compression queue or the file queue.\<close>

definition fs_submit :: "'d fs_t \<Rightarrow> bool \<Rightarrow> mem \<Rightarrow> fs_work_t \<Rightarrow> 'd fs_t option outcome" where
  "fs_submit s compress m w =
     (let s1 = s\<lparr>fs_mem := m, fs_works := (fs_works s)(fs_next s := Some w), fs_next := Suc (fs_next s)\<rparr>
      in if compress
         then bind_ok (queue_push (compression_queue s) (Some (fs_next s))) (\<lambda>r.
                Inr (map_option (\<lambda>q. s1\<lparr>compression_queue := q\<rparr>) r))
         else bind_ok (queue_push (file_queue s) (Some (fs_next s))) (\<lambda>r.
                Inr (map_option (\<lambda>q. s1\<lparr>file_queue := q\<rparr>) r)))"

definition fs_read :: "'d fs_t \<Rightarrow> string \<Rightarrow> bool \<Rightarrow> bool \<Rightarrow> 'd fs_t option outcome" where
  "fs_read s path null_terminate use_compression =
     bind_ok (fs_read_work (fs_mem s) path null_terminate use_compression) (\<lambda>(m, w). fs_submit s False m w)"

definition fs_write :: "'d fs_t \<Rightarrow> string \<Rightarrow> ptr option \<Rightarrow> u64 \<Rightarrow> bool \<Rightarrow> 'd fs_t option outcome" where
  "fs_write s path buf sz use_compression =
     bind_ok (fs_write_work (fs_mem s) path buf sz use_compression) (\<lambda>(m, w). fs_submit s use_compression m w)"

definition set_work :: "'d fs_t \<Rightarrow> nat \<Rightarrow> fs_work_t \<Rightarrow> 'd fs_t" where
  "set_work s i w = s\<lparr>fs_works := (fs_works s)(i := Some w)\<rparr>"

definition file_thread_func :: "'d fs_io \<Rightarrow> 'd fs_t \<Rightarrow> 'd fs_t option outcome" where
  "file_thread_func io s =
     (case file_thread s of
        W_wait \<Rightarrow>
          bind_ok (queue_pop (file_queue s)) (\<lambda>r.
            Inr (map_option (\<lambda>(q, work). s\<lparr>file_queue := q,
              file_thread := (case work of None \<Rightarrow> W_stopped | Some i \<Rightarrow> W_has i)\<rparr>) r))
      | W_has i \<Rightarrow>
          (case fs_works s i of None \<Rightarrow> Inl Use_after_free
           | Some w \<Rightarrow>
               (case w_op w of
                  k_fs_work_op_read \<Rightarrow>
                    bind_ok (file_read io (fs_disk s) (fs_mem s) w) (\<lambda>(d, m, w', onward).
                      Inr (Some ((set_work s i w')\<lparr>fs_disk := d, fs_mem := m,
                        file_thread := (if onward then W_push i else W_wait)\<rparr>)))
                | k_fs_work_op_write \<Rightarrow>
                    bind_ok (file_write io (fs_disk s) (fs_mem s) w) (\<lambda>(d, w').
                      Inr (Some ((set_work s i w')\<lparr>fs_disk := d, file_thread := W_wait\<rparr>)))))
      | W_push i \<Rightarrow>
          bind_ok (queue_push (compression_queue s) (Some i)) (\<lambda>r.
            Inr (map_option (\<lambda>q. s\<lparr>compression_queue := q, file_thread := W_wait\<rparr>) r))
      | W_stopped \<Rightarrow> Inr None)"

definition compression_thread_func :: "lz4_lib \<Rightarrow> 'd fs_t \<Rightarrow> 'd fs_t option outcome" where
  "compression_thread_func L s =
     (case compression_thread s of
        W_wait \<Rightarrow>
          bind_ok (queue_pop (compression_queue s)) (\<lambda>r.
            Inr (map_option (\<lambda>(q, work). s\<lparr>compression_queue := q,
              compression_thread := (case work of None \<Rightarrow> W_stopped | Some i \<Rightarrow> W_has i)\<rparr>) r))
      | W_has i \<Rightarrow>
          (case fs_works s i of None \<Rightarrow> Inl Use_after_free
           | Some w \<Rightarrow>
               (case w_op w of
                  k_fs_work_op_read \<Rightarrow>
                    bind_ok (file_decompress L (fs_mem s) w) (\<lambda>(m, w').
                      Inr (Some ((set_work s i w')\<lparr>fs_mem := m, compression_thread := W_wait\<rparr>)))
                | k_fs_work_op_write \<Rightarrow>
                    bind_ok (file_compress L (fs_mem s) w) (\<lambda>(m, w').
                      Inr (Some ((set_work s i w')\<lparr>fs_mem := m, compression_thread := W_push i\<rparr>)))))
      | W_push i \<Rightarrow>
          bind_ok (queue_push (file_queue s) (Some i)) (\<lambda>r.
            Inr (map_option (\<lambda>q. s\<lparr>file_queue := q, compression_thread := W_wait\<rparr>) r))
      | W_stopped \<Rightarrow> Inr None)"

text \<open>\<^verbatim>\<open>fs_destroy\<close>: a null item for each thread, then it waits for the file thread to end (and
  releases its queue), then for the compression thread.\<close>

definition fs_stop_file :: "'d fs_t \<Rightarrow> 'd fs_t option outcome" where
  "fs_stop_file s =
     bind_ok (queue_push (file_queue s) None) (\<lambda>r. Inr (map_option (\<lambda>q. s\<lparr>file_queue := q\<rparr>) r))"

definition fs_stop_compression :: "'d fs_t \<Rightarrow> 'd fs_t option outcome" where
  "fs_stop_compression s =
     bind_ok (queue_push (compression_queue s) None) (\<lambda>r.
       Inr (map_option (\<lambda>q. s\<lparr>compression_queue := q\<rparr>) r))"

definition fs_stopped :: "'d fs_t \<Rightarrow> bool" where
  "fs_stopped s \<longleftrightarrow> file_thread s = W_stopped \<and> compression_thread s = W_stopped"

inductive worker_step :: "'d fs_io \<Rightarrow> lz4_lib \<Rightarrow> 'd fs_t \<Rightarrow> 'd fs_t \<Rightarrow> bool"
  for io L where
  step_file: "file_thread_func io s = Inr (Some s') \<Longrightarrow> worker_step io L s s'"
| step_compression: "compression_thread_func L s = Inr (Some s') \<Longrightarrow> worker_step io L s s'"

inductive fs_step :: "'d fs_io \<Rightarrow> lz4_lib \<Rightarrow> 'd fs_t \<Rightarrow> 'd fs_t \<Rightarrow> bool"
  for io L where
  step_worker: "worker_step io L s s' \<Longrightarrow> fs_step io L s s'"
| step_read: "fs_read s path nt c = Inr (Some s') \<Longrightarrow> fs_step io L s s'"
| step_write: "fs_write s path buf sz c = Inr (Some s') \<Longrightarrow> fs_step io L s s'"

inductive_cases fs_step_elims: "fs_step io L s s'"
inductive_cases worker_step_elims: "worker_step io L s s'"

lemmas fs_step_cases = fs_step_elims [consumes 1, case_names work reading writing]
lemmas worker_step_cases = worker_step_elims [consumes 1, case_names filing compressing]

section \<open>Where the work items are\<close>

fun held :: "worker \<Rightarrow> nat list" where
  "held (W_has i) = [i]" | "held (W_push i) = [i]" | "held _ = []"

definition in_file_part :: "'d fs_t \<Rightarrow> nat list" where
  "in_file_part s = held (file_thread s) @ map the (queue_list (file_queue s))"

definition in_compression_part :: "'d fs_t \<Rightarrow> nat list" where
  "in_compression_part s = held (compression_thread s) @ map the (queue_list (compression_queue s))"

definition work_is_read :: "(nat \<Rightarrow> fs_work_t option) \<Rightarrow> nat \<Rightarrow> bool" where
  "work_is_read wk i \<longleftrightarrow> (\<exists>w. wk i = Some w \<and> w_op w = k_fs_work_op_read)"

definition unfinished :: "(nat \<Rightarrow> fs_work_t option) \<Rightarrow> nat set" where
  "unfinished wk = {i. \<exists>w. wk i = Some w \<and> \<not> w_done w}"

text \<open>Items that still have a second stage before them: each accounts for one more push.\<close>

definition first_stage :: "'d fs_t \<Rightarrow> nat list" where
  "first_stage s = filter (work_is_read (fs_works s)) (in_file_part s) @
     filter (\<lambda>i. \<not> work_is_read (fs_works s) i) (in_compression_part s)"

definition fs_inv :: "nat \<Rightarrow> 'd fs_t \<Rightarrow> bool" where
  "fs_inv cap s \<longleftrightarrow>
     queue_inv (file_queue s) \<and> queue_inv (compression_queue s) \<and>
     q_cap (file_queue s) = cap \<and> q_cap (compression_queue s) = cap \<and>
     None \<notin> set (queue_list (file_queue s)) \<and> None \<notin> set (queue_list (compression_queue s)) \<and>
     file_thread s \<noteq> W_stopped \<and> compression_thread s \<noteq> W_stopped \<and>
     (\<forall>i. file_thread s = W_push i \<longrightarrow> work_is_read (fs_works s) i) \<and>
     (\<forall>i. compression_thread s = W_push i \<longrightarrow> \<not> work_is_read (fs_works s) i) \<and>
     distinct (in_file_part s @ in_compression_part s) \<and>
     set (in_file_part s @ in_compression_part s) = unfinished (fs_works s) \<and>
     (\<forall>i. fs_next s \<le> i \<longrightarrow> fs_works s i = None) \<and>
     q_tail (file_queue s) + q_tail (compression_queue s) + length (first_stage s) \<le> 2 * fs_next s"

lemma work_is_read_same_op:
  "wk i = Some w \<Longrightarrow> w_op w' = w_op w \<Longrightarrow> work_is_read (wk(i \<mapsto> w')) = work_is_read wk"
  by (auto simp: work_is_read_def fun_eq_iff)

lemma unfinished_upd:
  "unfinished (wk(i \<mapsto> w)) = (if w_done w then unfinished wk - {i} else insert i (unfinished wk))"
  by (auto simp: unfinished_def)

lemmas fs_parts = in_file_part_def in_compression_part_def first_stage_def

section \<open>What the operations do to the work item\<close>

lemma file_read_item:
  assumes "file_read io d m w = Inr (d', m', w', onward)"
  shows "w_op w' = w_op w" "w_done w' \<longleftrightarrow> (if onward then w_done w else True)"
proof -
  have "w_op w' = w_op w \<and> (w_done w' \<longleftrightarrow> (if onward then w_done w else True))"
  proof (cases "io_wide io (w_path w) \<le> 0")
    case True
    with assms show ?thesis by (auto simp: file_read_def work_failed_def event_signal_def)
  next
    case wide: False
    show ?thesis
    proof (cases "io_open_read io d (w_path w)")
      case (Inl e)
      with wide assms show ?thesis by (auto simp: file_read_def work_failed_def event_signal_def)
    next
      case op: (Inr d1)
      show ?thesis
      proof (cases "io_size io d1 (w_path w)")
        case (Inl e)
        with wide op assms show ?thesis by (auto simp: file_read_def work_failed_def event_signal_def)
      next
        case sz: (Inr n)
        obtain m1 p where a: "heap_alloc m (unat (if w_null_terminate w then n + 1 else n)) 8 = (m1, p)"
          by (cases "heap_alloc m (unat (if w_null_terminate w then n + 1 else n)) 8")
        show ?thesis
        proof (cases "io_read io d1 (w_path w) (ucast n)")
          case (Inl e)
          with wide op sz a assms show ?thesis
            by (auto simp: file_read_def work_failed_def event_signal_def simp del: if_split)
        next
          case (Inr bs)
          with wide op sz a assms show ?thesis
            by (auto simp: file_read_def work_done_def event_signal_def Let_def bind_ok_Inr_iff
                split: if_split_asm simp del: if_split)
        qed
      qed
    qed
  qed
  then show "w_op w' = w_op w" "w_done w' \<longleftrightarrow> (if onward then w_done w else True)" by auto
qed

lemma file_write_item:
  assumes "file_write io d m w = Inr (d', w')"
  shows "w_op w' = w_op w" "w_done w'"
proof -
  have "w_op w' = w_op w \<and> w_done w'"
  proof (cases "io_wide io (w_path w) \<le> 0")
    case True
    with assms show ?thesis by (auto simp: file_write_def work_failed_def event_signal_def)
  next
    case wide: False
    show ?thesis
    proof (cases "io_open_write io d (w_path w)")
      case (Inl e)
      with wide assms show ?thesis by (auto simp: file_write_def work_failed_def event_signal_def)
    next
      case (Inr d1)
      with wide assms obtain bs where bs: "(case io_write io d1 (w_path w) bs of
          Inl e \<Rightarrow> Inr (d1, work_failed w e)
        | Inr (d2, n) \<Rightarrow> Inr (d2, work_done (w\<lparr>w_size := ucast n\<rparr>))) = (Inr (d', w') :: _ outcome)"
        by (auto simp: file_write_def bind_ok_Inr_iff)
      then show ?thesis
        by (cases "io_write io d1 (w_path w) bs") (auto simp: work_failed_def work_done_def event_signal_def)
    qed
  qed
  then show "w_op w' = w_op w" "w_done w'" by auto
qed

lemma file_compress_item:
  "file_compress L m w = Inr (m', w') \<Longrightarrow> w_op w' = w_op w \<and> w_done w' = w_done w"
  by (auto simp: file_compress_def Let_def bind_ok_Inr_iff split: prod.split_asm)

lemma file_decompress_item:
  "file_decompress L m w = Inr (m', w') \<Longrightarrow> w_op w' = w_op w \<and> w_done w'"
  by (auto simp: file_decompress_def Let_def bind_ok_Inr_iff work_done_def event_signal_def
      case_prod_unfold)

lemma fs_work_new_item:
  "fs_work_new m op path buf sz nt c = Inr (m', w) \<Longrightarrow>
    w_op w = op \<and> \<not> w_done w \<and> w_use_compression w = c"
  by (auto simp: fs_work_new_def Let_def event_create_def split: prod.split_asm if_split_asm)

section \<open>The invariant is kept\<close>

lemma fs_inv_tails:
  assumes "fs_inv cap s" and "2 * fs_next s \<le> index_limit"
  shows "q_tail (file_queue s) \<le> index_limit" "q_tail (compression_queue s) \<le> index_limit"
    "file_thread s = W_push i \<Longrightarrow> q_tail (compression_queue s) < index_limit"
    "compression_thread s = W_push i \<Longrightarrow> q_tail (file_queue s) < index_limit"
proof -
  have T: "q_tail (file_queue s) + q_tail (compression_queue s) + length (first_stage s) \<le> 2 * fs_next s"
    using assms(1) by (simp add: fs_inv_def)
  then show "q_tail (file_queue s) \<le> index_limit" "q_tail (compression_queue s) \<le> index_limit"
    using assms(2) by linarith+
  show "q_tail (compression_queue s) < index_limit" if "file_thread s = W_push i"
  proof -
    have "0 < length (first_stage s)" using assms(1) that by (simp add: fs_inv_def fs_parts)
    then show ?thesis using T assms(2) by linarith
  qed
  show "q_tail (file_queue s) < index_limit" if "compression_thread s = W_push i"
  proof -
    have "0 < length (first_stage s)" using assms(1) that by (simp add: fs_inv_def fs_parts)
    then show ?thesis using T assms(2) by linarith
  qed
qed

lemma fs_inv_held:
  assumes "fs_inv cap s" and "file_thread s = W_has i \<or> compression_thread s = W_has i"
  obtains w where "fs_works s i = Some w" "\<not> w_done w"
proof -
  have "i \<in> unfinished (fs_works s)" using assms by (auto simp: fs_inv_def fs_parts)
  with that show thesis by (auto simp: unfinished_def)
qed

lemma fs_inv_pop_file:
  assumes inv: "fs_inv cap s" and st: "file_thread s = W_wait"
    and q: "queue_inv q" "queue_list (file_queue s) = Some i # queue_list q"
      "q_cap q = q_cap (file_queue s)" "q_tail q = q_tail (file_queue s)"
  shows "fs_inv cap (s\<lparr>file_queue := q, file_thread := W_has i\<rparr>)"
  using inv st q by (simp add: fs_inv_def fs_parts)

lemma fs_inv_pop_compression:
  assumes inv: "fs_inv cap s" and st: "compression_thread s = W_wait"
    and q: "queue_inv q" "queue_list (compression_queue s) = Some i # queue_list q"
      "q_cap q = q_cap (compression_queue s)" "q_tail q = q_tail (compression_queue s)"
  shows "fs_inv cap (s\<lparr>compression_queue := q, compression_thread := W_has i\<rparr>)"
  using inv st q by (simp add: fs_inv_def fs_parts)

lemma fs_inv_push_file:
  assumes inv: "fs_inv cap s" and st: "compression_thread s = W_push i"
    and q: "queue_inv q" "queue_list q = queue_list (file_queue s) @ [Some i]"
      "q_cap q = q_cap (file_queue s)" "q_tail q = Suc (q_tail (file_queue s))"
  shows "fs_inv cap (s\<lparr>file_queue := q, compression_thread := W_wait\<rparr>)"
  using inv st q unfolding fs_inv_def fs_parts by (auto simp: ac_simps)

lemma fs_inv_push_compression:
  assumes inv: "fs_inv cap s" and st: "file_thread s = W_push i"
    and q: "queue_inv q" "queue_list q = queue_list (compression_queue s) @ [Some i]"
      "q_cap q = q_cap (compression_queue s)" "q_tail q = Suc (q_tail (compression_queue s))"
  shows "fs_inv cap (s\<lparr>compression_queue := q, file_thread := W_wait\<rparr>)"
  using inv st q unfolding fs_inv_def fs_parts by (auto simp: ac_simps)

lemma fs_inv_file_done:
  assumes inv: "fs_inv cap s" and st: "file_thread s = W_has i" and w: "fs_works s i = Some w"
    and w': "w_op w' = w_op w" "w_done w'"
  shows "fs_inv cap ((set_work s i w')\<lparr>fs_disk := d, fs_mem := m, file_thread := W_wait\<rparr>)"
  using inv st w'(2) w unfolding fs_inv_def fs_parts
  by (auto simp: set_work_def work_is_read_same_op [of "fs_works s" i w w', OF w w'(1)] unfinished_upd split: if_split_asm)

lemma fs_inv_file_onward:
  assumes inv: "fs_inv cap s" and st: "file_thread s = W_has i" and w: "fs_works s i = Some w"
    and w': "w_op w' = w_op w" "\<not> w_done w'" "w_op w = k_fs_work_op_read"
  shows "fs_inv cap ((set_work s i w')\<lparr>fs_disk := d, fs_mem := m, file_thread := W_push i\<rparr>)"
proof -
  have "work_is_read (fs_works s) i" using w w'(3) by (simp add: work_is_read_def)
  then show ?thesis
    using inv st w'(2) w unfolding fs_inv_def fs_parts
    by (auto simp: set_work_def work_is_read_same_op [of "fs_works s" i w w', OF w w'(1)] unfinished_upd split: if_split_asm)
qed

lemma fs_inv_compression_done:
  assumes inv: "fs_inv cap s" and st: "compression_thread s = W_has i" and w: "fs_works s i = Some w"
    and w': "w_op w' = w_op w" "w_done w'"
  shows "fs_inv cap ((set_work s i w')\<lparr>fs_mem := m, compression_thread := W_wait\<rparr>)"
  using inv st w'(2) w unfolding fs_inv_def fs_parts
  by (auto simp: set_work_def work_is_read_same_op [of "fs_works s" i w w', OF w w'(1)] unfinished_upd split: if_split_asm)

lemma fs_inv_compression_onward:
  assumes inv: "fs_inv cap s" and st: "compression_thread s = W_has i" and w: "fs_works s i = Some w"
    and w': "w_op w' = w_op w" "\<not> w_done w'" "w_op w = k_fs_work_op_write"
  shows "fs_inv cap ((set_work s i w')\<lparr>fs_mem := m, compression_thread := W_push i\<rparr>)"
proof -
  have "\<not> work_is_read (fs_works s) i" using w w'(3) by (simp add: work_is_read_def)
  then show ?thesis
    using inv st w'(2) w unfolding fs_inv_def fs_parts
    by (auto simp: set_work_def work_is_read_same_op [of "fs_works s" i w w', OF w w'(1)] unfinished_upd split: if_split_asm)
qed

text \<open>A new item: its number is not in use.\<close>

lemma fs_inv_submit:
  assumes inv: "fs_inv cap s" and lim: "2 * Suc (fs_next s) \<le> index_limit"
    and w: "\<not> w_done w" "compress \<longrightarrow> w_op w = k_fs_work_op_write"
    and step: "fs_submit s compress m w = Inr (Some s')"
  shows "fs_inv cap s'"
proof -
  let ?n = "fs_next s"
  have fresh: "fs_works s ?n = None" using inv by (simp add: fs_inv_def)
  have new: "?n \<notin> set (in_file_part s @ in_compression_part s)"
    using inv fresh by (auto simp: fs_inv_def unfinished_def)
  have same: "work_is_read ((fs_works s)(?n \<mapsto> w)) j = work_is_read (fs_works s) j" if "j \<noteq> ?n" for j
    using that by (simp add: work_is_read_def)
  have filt: "filter (work_is_read ((fs_works s)(?n \<mapsto> w))) xs = filter (work_is_read (fs_works s)) xs"
    "filter (\<lambda>i. \<not> work_is_read ((fs_works s)(?n \<mapsto> w)) i) xs = filter (\<lambda>i. \<not> work_is_read (fs_works s) i) xs"
    if "?n \<notin> set xs" for xs
    using that by (auto simp: work_is_read_def intro!: filter_cong split: if_split_asm)
  have unf: "unfinished ((fs_works s)(?n \<mapsto> w)) = insert ?n (unfinished (fs_works s))"
    using w(1) by (simp add: unfinished_upd)
  have pf: "\<forall>i. file_thread s = W_push i \<longrightarrow> work_is_read ((fs_works s)(?n \<mapsto> w)) i"
    and pc: "\<forall>i. compression_thread s = W_push i \<longrightarrow> \<not> work_is_read ((fs_works s)(?n \<mapsto> w)) i"
  proof -
    have "i \<noteq> ?n" if "file_thread s = W_push i \<or> compression_thread s = W_push i" for i
      using that new by (auto simp: fs_parts)
    then show "\<forall>i. file_thread s = W_push i \<longrightarrow> work_is_read ((fs_works s)(?n \<mapsto> w)) i"
      "\<forall>i. compression_thread s = W_push i \<longrightarrow> \<not> work_is_read ((fs_works s)(?n \<mapsto> w)) i"
      using inv same by (simp_all add: fs_inv_def)
  qed
  have T: "q_tail (file_queue s) < index_limit" "q_tail (compression_queue s) < index_limit"
    using inv lim by (simp_all add: fs_inv_def)
  show ?thesis
  proof (cases compress)
    case True
    from inv have qi: "queue_inv (compression_queue s)" by (simp add: fs_inv_def)
    from step True obtain q where q: "queue_push (compression_queue s) (Some ?n) = Inr (Some q)"
      and s': "s' = s\<lparr>fs_mem := m, fs_works := (fs_works s)(?n \<mapsto> w), fs_next := Suc ?n, compression_queue := q\<rparr>"
      by (auto simp: fs_submit_def Let_def bind_ok_Inr_iff)
    from q queue_push_cases [OF qi T(2), of "Some ?n"] have Q: "queue_inv q"
      "queue_list q = queue_list (compression_queue s) @ [Some ?n]" "q_cap q = q_cap (compression_queue s)"
      "q_tail q = Suc (q_tail (compression_queue s))" by auto
    have wr: "\<not> work_is_read ((fs_works s)(?n \<mapsto> w)) ?n" using True w(2) by (simp add: work_is_read_def)
    have parts: "in_file_part s' = in_file_part s" "in_compression_part s' = in_compression_part s @ [?n]"
      using Q by (simp_all add: s' in_file_part_def in_compression_part_def)
    have "first_stage s' = first_stage s @ [?n]"
      using new wr filt unfolding first_stage_def parts by (simp add: s')
    with inv new Q unf pf pc parts show ?thesis
      unfolding fs_inv_def by (simp add: s', use new in auto)
  next
    case False
    from inv have qi: "queue_inv (file_queue s)" by (simp add: fs_inv_def)
    from step False obtain q where q: "queue_push (file_queue s) (Some ?n) = Inr (Some q)"
      and s': "s' = s\<lparr>fs_mem := m, fs_works := (fs_works s)(?n \<mapsto> w), fs_next := Suc ?n, file_queue := q\<rparr>"
      by (auto simp: fs_submit_def Let_def bind_ok_Inr_iff)
    from q queue_push_cases [OF qi T(1), of "Some ?n"] have Q: "queue_inv q"
      "queue_list q = queue_list (file_queue s) @ [Some ?n]" "q_cap q = q_cap (file_queue s)"
      "q_tail q = Suc (q_tail (file_queue s))" by auto
    have parts: "in_file_part s' = in_file_part s @ [?n]" "in_compression_part s' = in_compression_part s"
      using Q by (simp_all add: s' in_file_part_def in_compression_part_def)
    have "length (first_stage s') \<le> Suc (length (first_stage s))"
      using new filt unfolding first_stage_def parts by (simp add: s')
    with inv new Q unf pf pc parts show ?thesis
      unfolding fs_inv_def by (simp add: s', use new in auto)
  qed
qed

section \<open>The workers always get on\<close>

text \<open>An upper bound for the actions a worker still has to make for an item: being popped, the
  operation, and the push onto the other queue, for each of the two stages.\<close>

fun held_left :: "(nat \<Rightarrow> bool) \<Rightarrow> worker \<Rightarrow> nat" where
  "held_left first (W_has i) = (if first i then 5 else 2)"
| "held_left first (W_push i) = 4"
| "held_left first _ = 0"

definition queued_left :: "(nat \<Rightarrow> bool) \<Rightarrow> nat option list \<Rightarrow> nat" where
  "queued_left first xs = sum_list (map (\<lambda>x. if first (the x) then 6 else 3) xs)"

definition actions_left :: "'d fs_t \<Rightarrow> nat" where
  "actions_left s =
     held_left (work_is_read (fs_works s)) (file_thread s) +
     queued_left (work_is_read (fs_works s)) (queue_list (file_queue s)) +
     held_left (\<lambda>i. \<not> work_is_read (fs_works s) i) (compression_thread s) +
     queued_left (\<lambda>i. \<not> work_is_read (fs_works s) i) (queue_list (compression_queue s))"

definition worker_moved :: "nat \<Rightarrow> 'd fs_t \<Rightarrow> 'd fs_t \<Rightarrow> bool" where
  "worker_moved cap s s' \<longleftrightarrow> fs_inv cap s' \<and> fs_next s' = fs_next s \<and>
     unfinished (fs_works s') \<subseteq> unfinished (fs_works s) \<and> actions_left s' < actions_left s"

lemma file_thread_progress:
  assumes inv: "fs_inv cap s" and lim: "2 * fs_next s \<le> index_limit"
  obtains (fault) f where "file_thread_func io s = Inl f"
    | (blocked) "file_thread_func io s = Inr None"
        "file_thread s = W_wait \<and> queue_list (file_queue s) = [] \<or>
         (\<exists>i. file_thread s = W_push i \<and> length (queue_list (compression_queue s)) = cap)"
    | (moved) s' where "file_thread_func io s = Inr (Some s')" "worker_moved cap s s'"
proof (cases "file_thread s")
  case W_wait
  from inv have qi: "queue_inv (file_queue s)" "None \<notin> set (queue_list (file_queue s))"
    by (simp_all add: fs_inv_def)
  show thesis
  proof (cases rule: queue_pop_cases [OF qi(1) fs_inv_tails(1) [OF inv lim]])
    case (1 q' y ys)
    then obtain i where y: "y = Some i" using qi(2) by (cases y) auto
    have "fs_inv cap (s\<lparr>file_queue := q', file_thread := W_has i\<rparr>)"
      using 1 y by (intro fs_inv_pop_file [OF inv W_wait]) simp_all
    moreover have "actions_left (s\<lparr>file_queue := q', file_thread := W_has i\<rparr>) < actions_left s"
      using 1 y W_wait by (simp add: actions_left_def queued_left_def)
    ultimately show thesis
      using 1 y W_wait
      by (intro moved [of "s\<lparr>file_queue := q', file_thread := W_has i\<rparr>"]) (simp_all add: file_thread_func_def worker_moved_def)
  next
    case 2
    then show thesis using W_wait by (intro blocked) (simp_all add: file_thread_func_def)
  qed
next
  case (W_has i)
  then obtain w where w: "fs_works s i = Some w" "\<not> w_done w" using fs_inv_held [OF inv] by blast
  show thesis
  proof (cases "file_thread_func io s")
    case (Inl f)
    then show thesis by (rule fault)
  next
    case (Inr r)
    show thesis
    proof (cases "w_op w")
      case k_fs_work_op_read
      with Inr W_has w obtain d m w' onward where f: "file_read io (fs_disk s) (fs_mem s) w = Inr (d, m, w', onward)"
        and r: "r = Some ((set_work s i w')\<lparr>fs_disk := d, fs_mem := m,
          file_thread := (if onward then W_push i else W_wait)\<rparr>)"
        by (auto simp: file_thread_func_def bind_ok_Inr_iff)
      note item = file_read_item [OF f]
      have rd: "work_is_read (fs_works s) i" using w k_fs_work_op_read by (simp add: work_is_read_def)
      let ?s = "(set_work s i w')\<lparr>fs_disk := d, fs_mem := m, file_thread := (if onward then W_push i else W_wait)\<rparr>"
      have "fs_inv cap ?s"
        using fs_inv_file_onward [OF inv W_has w(1) item(1)] fs_inv_file_done [OF inv W_has w(1) item(1)]
          item(2) w(2) k_fs_work_op_read by (cases onward) simp_all
      moreover have "actions_left ?s < actions_left s"
        using W_has rd by (simp add: actions_left_def set_work_def work_is_read_same_op [of "fs_works s" i w w', OF w(1) item(1)])
      ultimately show thesis
        using Inr r w(2) by (intro moved) (auto simp: worker_moved_def set_work_def unfinished_def w(1) split: if_split_asm)
    next
      case k_fs_work_op_write
      with Inr W_has w obtain d w' where f: "file_write io (fs_disk s) (fs_mem s) w = Inr (d, w')"
        and r: "r = Some ((set_work s i w')\<lparr>fs_disk := d, file_thread := W_wait\<rparr>)"
        by (auto simp: file_thread_func_def bind_ok_Inr_iff)
      note item = file_write_item [OF f]
      let ?s = "(set_work s i w')\<lparr>fs_disk := d, file_thread := W_wait\<rparr>"
      have "fs_inv cap ((set_work s i w')\<lparr>fs_disk := d, fs_mem := fs_mem s, file_thread := W_wait\<rparr>)"
        by (rule fs_inv_file_done [OF inv W_has w(1) item])
      then have "fs_inv cap ?s" by (simp add: set_work_def)
      moreover have "actions_left ?s < actions_left s"
        using W_has by (simp add: actions_left_def set_work_def work_is_read_same_op [of "fs_works s" i w w', OF w(1) item(1)])
      ultimately show thesis
        using Inr r item(2) by (intro moved) (auto simp: worker_moved_def set_work_def unfinished_upd)
    qed
  qed
next
  case (W_push i)
  from inv have qi: "queue_inv (compression_queue s)" "q_cap (compression_queue s) = cap"
    and rd: "work_is_read (fs_works s) i" using W_push by (simp_all add: fs_inv_def)
  show thesis
  proof (cases rule: queue_push_cases [OF qi(1) fs_inv_tails(3) [OF inv lim W_push], of "Some i"])
    case (1 q')
    have "fs_inv cap (s\<lparr>compression_queue := q', file_thread := W_wait\<rparr>)"
      using 1 by (intro fs_inv_push_compression [OF inv W_push]) simp_all
    moreover have "actions_left (s\<lparr>compression_queue := q', file_thread := W_wait\<rparr>) < actions_left s"
      using 1 W_push rd by (simp add: actions_left_def queued_left_def)
    ultimately show thesis
      using 1 W_push
      by (intro moved [of "s\<lparr>compression_queue := q', file_thread := W_wait\<rparr>"]) (simp_all add: file_thread_func_def worker_moved_def)
  next
    case 2
    then show thesis using W_push qi by (intro blocked) (simp_all add: file_thread_func_def)
  qed
next
  case W_stopped
  with inv show thesis by (simp add: fs_inv_def)
qed

lemma compression_thread_progress:
  assumes inv: "fs_inv cap s" and lim: "2 * fs_next s \<le> index_limit"
  obtains (fault) f where "compression_thread_func L s = Inl f"
    | (blocked) "compression_thread_func L s = Inr None"
        "compression_thread s = W_wait \<and> queue_list (compression_queue s) = [] \<or>
         (\<exists>i. compression_thread s = W_push i \<and> length (queue_list (file_queue s)) = cap)"
    | (moved) s' where "compression_thread_func L s = Inr (Some s')" "worker_moved cap s s'"
proof (cases "compression_thread s")
  case W_wait
  from inv have qi: "queue_inv (compression_queue s)" "None \<notin> set (queue_list (compression_queue s))"
    by (simp_all add: fs_inv_def)
  show thesis
  proof (cases rule: queue_pop_cases [OF qi(1) fs_inv_tails(2) [OF inv lim]])
    case (1 q' y ys)
    then obtain i where y: "y = Some i" using qi(2) by (cases y) auto
    have "fs_inv cap (s\<lparr>compression_queue := q', compression_thread := W_has i\<rparr>)"
      using 1 y by (intro fs_inv_pop_compression [OF inv W_wait]) simp_all
    moreover have "actions_left (s\<lparr>compression_queue := q', compression_thread := W_has i\<rparr>) < actions_left s"
      using 1 y W_wait by (simp add: actions_left_def queued_left_def)
    ultimately show thesis
      using 1 y W_wait
      by (intro moved [of "s\<lparr>compression_queue := q', compression_thread := W_has i\<rparr>"])
        (simp_all add: compression_thread_func_def worker_moved_def)
  next
    case 2
    then show thesis using W_wait by (intro blocked) (simp_all add: compression_thread_func_def)
  qed
next
  case (W_has i)
  then obtain w where w: "fs_works s i = Some w" "\<not> w_done w" using fs_inv_held [OF inv] by blast
  show thesis
  proof (cases "compression_thread_func L s")
    case (Inl f)
    then show thesis by (rule fault)
  next
    case (Inr r)
    show thesis
    proof (cases "w_op w")
      case k_fs_work_op_read
      with Inr W_has w obtain m w' where f: "file_decompress L (fs_mem s) w = Inr (m, w')"
        and r: "r = Some ((set_work s i w')\<lparr>fs_mem := m, compression_thread := W_wait\<rparr>)"
        by (auto simp: compression_thread_func_def bind_ok_Inr_iff)
      from file_decompress_item [OF f] have item: "w_op w' = w_op w" "w_done w'" by simp_all
      let ?s = "(set_work s i w')\<lparr>fs_mem := m, compression_thread := W_wait\<rparr>"
      have "fs_inv cap ?s" by (rule fs_inv_compression_done [OF inv W_has w(1) item])
      moreover have "actions_left ?s < actions_left s"
        using W_has by (simp add: actions_left_def set_work_def work_is_read_same_op [of "fs_works s" i w w', OF w(1) item(1)])
      ultimately show thesis
        using Inr r item(2) by (intro moved) (auto simp: worker_moved_def set_work_def unfinished_upd)
    next
      case k_fs_work_op_write
      with Inr W_has w obtain m w' where f: "file_compress L (fs_mem s) w = Inr (m, w')"
        and r: "r = Some ((set_work s i w')\<lparr>fs_mem := m, compression_thread := W_push i\<rparr>)"
        by (auto simp: compression_thread_func_def bind_ok_Inr_iff)
      from file_compress_item [OF f] w(2) have item: "w_op w' = w_op w" "\<not> w_done w'" by simp_all
      have wr: "\<not> work_is_read (fs_works s) i" using w k_fs_work_op_write by (simp add: work_is_read_def)
      let ?s = "(set_work s i w')\<lparr>fs_mem := m, compression_thread := W_push i\<rparr>"
      have "fs_inv cap ?s" by (rule fs_inv_compression_onward [OF inv W_has w(1) item k_fs_work_op_write])
      moreover have "actions_left ?s < actions_left s"
        using W_has wr by (simp add: actions_left_def set_work_def work_is_read_same_op [of "fs_works s" i w w', OF w(1) item(1)])
      ultimately show thesis
        using Inr r w(2) by (intro moved) (auto simp: worker_moved_def set_work_def unfinished_def w(1) split: if_split_asm)
    qed
  qed
next
  case (W_push i)
  from inv have qi: "queue_inv (file_queue s)" "q_cap (file_queue s) = cap"
    and wr: "\<not> work_is_read (fs_works s) i" using W_push by (simp_all add: fs_inv_def)
  show thesis
  proof (cases rule: queue_push_cases [OF qi(1) fs_inv_tails(4) [OF inv lim W_push], of "Some i"])
    case (1 q')
    have "fs_inv cap (s\<lparr>file_queue := q', compression_thread := W_wait\<rparr>)"
      using 1 by (intro fs_inv_push_file [OF inv W_push]) simp_all
    moreover have "actions_left (s\<lparr>file_queue := q', compression_thread := W_wait\<rparr>) < actions_left s"
      using 1 W_push wr by (simp add: actions_left_def queued_left_def)
    ultimately show thesis
      using 1 W_push
      by (intro moved [of "s\<lparr>file_queue := q', compression_thread := W_wait\<rparr>"])
        (simp_all add: compression_thread_func_def worker_moved_def)
  next
    case 2
    then show thesis using W_push qi by (intro blocked) (simp_all add: compression_thread_func_def)
  qed
next
  case W_stopped
  with inv show thesis by (simp add: fs_inv_def)
qed

lemma worker_step_moved:
  assumes "fs_inv cap s" and "2 * fs_next s \<le> index_limit" and "worker_step io L s s'"
  shows "worker_moved cap s s'"
  using assms(3)
proof (cases rule: worker_step_cases)
  case filing
  with file_thread_progress [OF assms(1,2), of io] show ?thesis by force
next
  case compressing
  with compression_thread_progress [OF assms(1,2), of L] show ?thesis by force
qed

lemma worker_step_next: "worker_step io L s s' \<Longrightarrow> fs_next s' = fs_next s"
  by (auto elim!: worker_step.cases simp: file_thread_func_def compression_thread_func_def set_work_def
      bind_ok_Inr_iff split: worker.split_asm option.split_asm fs_work_op_t.split_asm)

lemma fs_submit_next: "fs_submit s c m w = Inr (Some s') \<Longrightarrow> fs_next s' = Suc (fs_next s)"
  by (auto simp: fs_submit_def Let_def bind_ok_Inr_iff split: if_split_asm)

lemma fs_step_next: "fs_step io L s s' \<Longrightarrow> fs_next s \<le> fs_next s'"
  by (auto elim!: fs_step.cases simp: worker_step_next fs_read_def fs_write_def bind_ok_Inr_iff
      dest!: fs_submit_next)

lemma fs_step_inv:
  assumes inv: "fs_inv cap s" and step: "fs_step io L s s'" and lim: "2 * fs_next s' \<le> index_limit"
  shows "fs_inv cap s'"
  using step
proof (cases rule: fs_step_cases)
  case work
  with worker_step_moved [OF inv _ work] worker_step_next [OF work] lim
  show ?thesis by (simp add: worker_moved_def)
next
  case (reading path nt c)
  then obtain m w where w: "fs_read_work (fs_mem s) path nt c = Inr (m, w)"
    and sub: "fs_submit s False m w = Inr (Some s')"
    by (auto simp: fs_read_def bind_ok_Inr_iff)
  show ?thesis
    using fs_inv_submit [OF inv _ _ _ sub] lim fs_submit_next [OF sub]
      fs_work_new_item [OF w [unfolded fs_read_work_def]] by simp
next
  case (writing path buf sz c)
  then obtain m w where w: "fs_write_work (fs_mem s) path buf sz c = Inr (m, w)"
    and sub: "fs_submit s c m w = Inr (Some s')"
    by (auto simp: fs_write_def bind_ok_Inr_iff)
  show ?thesis
    using fs_inv_submit [OF inv _ _ _ sub] lim fs_submit_next [OF sub]
      fs_work_new_item [OF w [unfolded fs_write_work_def]] by simp
qed

lemma fs_steps_inv:
  assumes "(fs_step io L)\<^sup>*\<^sup>* s s'" and "fs_inv cap s" and "2 * fs_next s' \<le> index_limit"
  shows "fs_inv cap s'"
  using assms
proof (induction rule: rtranclp_induct)
  case base
  then show ?case by simp
next
  case (step t u)
  have "2 * fs_next t \<le> index_limit" using fs_step_next [OF step.hyps(2)] step.prems(2) by simp
  with step.IH step.prems(1) have "fs_inv cap t" by blast
  then show ?case by (rule fs_step_inv [OF _ step.hyps(2) step.prems(2)])
qed

lemma fs_create_inv:
  assumes "fs_create m d f1 f2 c = Inr s" and "0 < sint c"
    and "nat (sint c) \<le> length f1" and "nat (sint c) \<le> length f2"
  shows "fs_inv (nat (sint c)) s \<and> fs_next s = 0 \<and> fs_works s = (\<lambda>_. None) \<and> fs_mem s = m \<and> fs_disk s = d"
proof -
  obtain q1 q2 where q: "queue_create f1 c = Inr q1" "queue_create f2 c = Inr q2"
    and s: "s = \<lparr>file_queue = q1, compression_queue = q2, file_thread = W_wait, compression_thread = W_wait,
      fs_works = (\<lambda>_. None), fs_next = 0, fs_mem = m, fs_disk = d\<rparr>"
    using assms(1) by (auto simp: fs_create_def bind_ok_Inr_iff)
  from queue_create_inv [OF assms(2,3)] queue_create_inv [OF assms(2,4)] q
  show ?thesis by (simp add: s fs_inv_def fs_parts unfinished_def)
qed

text \<open>Counting: one unfinished item per place.\<close>

lemma card_unfinished:
  assumes "fs_inv cap s"
  shows "card (unfinished (fs_works s)) = length (in_file_part s) + length (in_compression_part s)"
proof -
  have "distinct (in_file_part s @ in_compression_part s)"
    "set (in_file_part s @ in_compression_part s) = unfinished (fs_works s)"
    using assms by (simp_all add: fs_inv_def)
  then show ?thesis by (metis distinct_card length_append)
qed

lemma queued_left_le: "queued_left first xs \<le> 6 * length xs"
  by (induction xs) (auto simp: queued_left_def)

lemma held_left_le: "held_left first wk \<le> 6 * length (held wk)"
  by (cases wk) auto

lemma actions_left_le:
  assumes "fs_inv cap s"
  shows "actions_left s \<le> 6 * card (unfinished (fs_works s))"
  using queued_left_le [of "work_is_read (fs_works s)" "queue_list (file_queue s)"]
    queued_left_le [of "\<lambda>i. \<not> work_is_read (fs_works s) i" "queue_list (compression_queue s)"]
    held_left_le [of "work_is_read (fs_works s)" "file_thread s"]
    held_left_le [of "\<lambda>i. \<not> work_is_read (fs_works s) i" "compression_thread s"]
  by (simp add: actions_left_def card_unfinished [OF assms] in_file_part_def in_compression_part_def)

lemma finite_unfinished: "fs_inv cap s \<Longrightarrow> finite (unfinished (fs_works s))"
  by (metis List.finite_set fs_inv_def)

text \<open>Both workers blocked means that a queue is full while an item is in hand, or nothing is left.\<close>

lemma blocked_none_left:
  assumes inv: "fs_inv cap s" and lim: "2 * fs_next s \<le> index_limit"
    and few: "card (unfinished (fs_works s)) \<le> cap"
    and f: "file_thread_func io s = Inr None" and c: "compression_thread_func L s = Inr None"
  shows "unfinished (fs_works s) = {}"
proof -
  have total: "length (in_file_part s) + length (in_compression_part s) \<le> cap"
    using few card_unfinished [OF inv] by simp
  have fb: "file_thread s = W_wait \<and> queue_list (file_queue s) = []"
  proof (cases rule: file_thread_progress [OF inv lim, of io])
    case 2
    then show ?thesis
    proof (elim disjE exE conjE)
      fix i assume "file_thread s = W_push i" "length (queue_list (compression_queue s)) = cap"
      with total show ?thesis by (simp add: in_file_part_def in_compression_part_def)
    qed simp
  qed (use f in simp_all)
  have cb: "compression_thread s = W_wait \<and> queue_list (compression_queue s) = []"
  proof (cases rule: compression_thread_progress [OF inv lim, of L])
    case 2
    then show ?thesis
    proof (elim disjE exE conjE)
      fix i assume "compression_thread s = W_push i" "length (queue_list (file_queue s)) = cap"
      with total show ?thesis by (simp add: in_file_part_def in_compression_part_def)
    qed simp
  qed (use c in simp_all)
  have "set (in_file_part s @ in_compression_part s) = {}"
    using fb cb by (simp add: in_file_part_def in_compression_part_def)
  then show ?thesis using inv by (simp add: fs_inv_def)
qed

lemma worker_run_bound:
  assumes "(worker_step io L ^^ n) s t" and "fs_inv cap s" and "2 * fs_next s \<le> index_limit"
  shows "n + actions_left t \<le> actions_left s \<and> fs_inv cap t \<and> fs_next t = fs_next s \<and>
    unfinished (fs_works t) \<subseteq> unfinished (fs_works s)"
  using assms(1)
proof (induction n arbitrary: t)
  case 0
  then show ?case using assms by simp
next
  case (Suc n)
  then obtain u where u: "(worker_step io L ^^ n) s u" "worker_step io L u t" by auto
  from Suc.IH [OF u(1)] assms(3) have "worker_moved cap u t"
    by (intro worker_step_moved [OF _ _ u(2)]) simp_all
  with Suc.IH [OF u(1)] show ?case by (auto simp: worker_moved_def)
qed

end
