(* ===== verification/Fs_Codec.thy ===== *)
theory Fs_Codec
  imports Fs
begin

text \<open>
  The compressed file format: a header of two ten-digit decimal sizes and two newlines, then
  the LZ4 block.  The header is proved to be read back, and then the whole way of a buffer
  through compression, the disk and decompression.
\<close>

section \<open>The decimal sizes\<close>

lemma sint_word_of_nat: "n < 2 ^ 31 \<Longrightarrow> sint (word_of_nat n :: i32) = int n"
  by (simp add: signed_of_nat signed_take_bit_int_eq_self)

lemma digit_char_nat:
  assumes "n < 2 ^ 31"
  shows "digit_char (word_of_nat n) = 48 + word_of_nat (n mod 10)"
proof -
  have "int n smod 10 = int (n mod 10)" by (simp add: smod_int_alt_def sgn_if zmod_int)
  then show ?thesis using assms by (simp add: digit_char_def sint_word_of_nat)
qed

lemma sdiv_ten_nat:
  assumes "n < 2 ^ 31"
  shows "word_of_int (sint (word_of_nat n :: i32) sdiv 10) = (word_of_nat (n div 10) :: i32)"
proof -
  have "int n sdiv 10 = int (n div 10)" by (simp add: signed_divide_int_def sgn_if zdiv_int)
  then show ?thesis using assms by (simp add: sint_word_of_nat)
qed

definition digit_at :: "nat \<Rightarrow> nat \<Rightarrow> u8" where
  "digit_at n p = 48 + word_of_nat (n div 10 ^ p mod 10)"

lemma write_sizes_nth:
  assumes "c < 2 ^ 31" and "d < 2 ^ 31" and "k \<le> 11" and "k + 11 \<le> length buf"
  shows "length (write_sizes k buf (word_of_nat c) (word_of_nat d)) = length buf \<and>
    (\<forall>j < length buf. write_sizes k buf (word_of_nat c) (word_of_nat d) ! j =
      (if j < k then digit_at c (k - 1 - j)
       else if 11 \<le> j \<and> j < 11 + k then digit_at d (k - 1 - (j - 11)) else buf ! j))"
  using assms
proof (induction k arbitrary: buf c d)
  case 0
  then show ?case by auto
next
  case (Suc k)
  let ?b = "buf[k := digit_char (word_of_nat c), k + 11 := digit_char (word_of_nat d)]"
  have IH: "length (write_sizes k ?b (word_of_nat (c div 10)) (word_of_nat (d div 10))) = length buf \<and>
    (\<forall>j < length buf. write_sizes k ?b (word_of_nat (c div 10)) (word_of_nat (d div 10)) ! j =
      (if j < k then digit_at (c div 10) (k - 1 - j)
       else if 11 \<le> j \<and> j < 11 + k then digit_at (d div 10) (k - 1 - (j - 11)) else ?b ! j))"
    using Suc.IH [of "c div 10" "d div 10" ?b] Suc.prems by simp
  have step: "write_sizes (Suc k) buf (word_of_nat c) (word_of_nat d) =
      write_sizes k ?b (word_of_nat (c div 10)) (word_of_nat (d div 10))"
    using Suc.prems by (simp add: sdiv_ten_nat)
  have shift: "digit_at (n div 10) (k - 1 - j) = digit_at n (Suc k - 1 - j)" if "j < k" for n j
  proof -
    have "Suc k - 1 - j = Suc (k - 1 - j)" using that by simp
    then show ?thesis by (simp add: digit_at_def div_mult2_eq)
  qed
  have "write_sizes (Suc k) buf (word_of_nat c) (word_of_nat d) ! j =
      (if j < Suc k then digit_at c (Suc k - 1 - j)
       else if 11 \<le> j \<and> j < 11 + Suc k then digit_at d (Suc k - 1 - (j - 11)) else buf ! j)"
    if j: "j < length buf" for j
  proof -
    consider "j < k" | "j = k" | "11 \<le> j" "j < 11 + k" | "j = k + 11"
      | "k < j" "\<not> (11 \<le> j \<and> j < 11 + Suc k)" by linarith
    then show ?thesis
    proof cases
      case 1
      then show ?thesis using IH j shift [of j] step by simp
    next
      case 2
      then show ?thesis using IH j step Suc.prems
        by (simp add: digit_char_nat digit_at_def)
    next
      case 3
      then show ?thesis using IH j shift [of "j - 11"] step Suc.prems by simp
    next
      case 4
      then show ?thesis using IH j step Suc.prems
        by (simp add: digit_char_nat digit_at_def)
    next
      case 5
      then show ?thesis using IH j step by auto
    qed
  qed
  then show ?case using IH step by simp
qed

lemma scast_digit:
  assumes "n < 10"
  shows "(scast (48 + word_of_nat n :: u8) :: i32) - 48 = word_of_nat n"
proof -
  have "n \<in> {0, 1, 2, 3, 4, 5, 6, 7, 8, 9}" using assms by auto
  then show ?thesis by (elim insertE emptyE) simp_all
qed

lemma read_sizes_digits:
  assumes "\<forall>j < k. buf ! j = digit_at c (n - 1 - j) \<and> buf ! (j + 11) = digit_at d (n - 1 - j)"
    and "k \<le> n" and "c < 10 ^ n" and "d < 10 ^ n"
  shows "read_sizes k buf = (word_of_nat (c div 10 ^ (n - k)), word_of_nat (d div 10 ^ (n - k)))"
  using assms(1,2)
proof (induction k)
  case 0
  then show ?case using assms(3,4) by simp
next
  case (Suc k)
  have e: "n - k = Suc (n - Suc k)" "n - 1 - k = n - Suc k" using Suc.prems(2) by simp_all
  have join: "(word_of_nat (m div 10 ^ (n - k)) :: i32) * 10 +
      (scast (digit_at m (n - 1 - k)) - 48) = word_of_nat (m div 10 ^ (n - Suc k))" for m
  proof -
    have "m div 10 ^ (n - k) = m div 10 ^ (n - Suc k) div 10"
      by (metis div_mult2_eq e(1) power_Suc mult.commute)
    moreover have "m div 10 ^ (n - Suc k) = (m div 10 ^ (n - Suc k) div 10) * 10 + m div 10 ^ (n - Suc k) mod 10"
      by simp
    ultimately have "(word_of_nat (m div 10 ^ (n - Suc k)) :: i32) =
        word_of_nat (m div 10 ^ (n - k)) * 10 + word_of_nat (m div 10 ^ (n - Suc k) mod 10)"
      by (metis of_nat_add of_nat_mult of_nat_numeral)
    then show ?thesis by (simp add: digit_at_def e(2) scast_digit)
  qed
  have IH: "read_sizes k buf = (word_of_nat (c div 10 ^ (n - k)), word_of_nat (d div 10 ^ (n - k)))"
    using Suc.IH Suc.prems by simp
  show ?case using Suc.prems by (simp add: IH join [unfolded e(2)])
qed

lemma length_size_header [simp]: "length (size_header (word_of_nat c) (word_of_nat d)) = 22"
  if "c < 2 ^ 31" "d < 2 ^ 31"
  using write_sizes_nth [OF that, of 10 "replicate 22 0"] by (simp add: size_header_def)

lemma read_size_header:
  assumes "c < 2 ^ 31" and "d < 2 ^ 31"
  shows "read_sizes 10 (take 21 (size_header (word_of_nat c) (word_of_nat d))) = (word_of_nat c, word_of_nat d)"
proof -
  note W = write_sizes_nth [OF assms, of 10 "replicate 22 0", simplified]
  have "\<forall>j < 10. take 21 (size_header (word_of_nat c) (word_of_nat d)) ! j = digit_at c (10 - 1 - j) \<and>
      take 21 (size_header (word_of_nat c) (word_of_nat d)) ! (j + 11) = digit_at d (10 - 1 - j)"
    using W by (auto simp: size_header_def)
  from read_sizes_digits [OF this, of] assms show ?thesis by simp
qed

section \<open>Compressing and decompressing a buffer\<close>

definition lz4_bound :: "nat \<Rightarrow> nat" where
  "lz4_bound n = n + n div 255 + 16"

lemma lz4_bound_small: "int n \<le> LZ4_MAX_INPUT_SIZE \<Longrightarrow> lz4_bound n + 22 < 2 ^ 31"
  by (simp add: lz4_bound_def LZ4_MAX_INPUT_SIZE_def)

lemma compressBound_nat:
  assumes "int n \<le> LZ4_MAX_INPUT_SIZE"
  shows "LZ4_compressBound (word_of_nat n) = word_of_nat (lz4_bound n)"
proof -
  have small: "n < 2 ^ 31" using assms by (simp add: LZ4_MAX_INPUT_SIZE_def)
  then have "uint (word_of_nat n :: i32) = int n" by (simp add: unsigned_of_nat take_bit_nat_eq_self)
  moreover have "int n div 255 = int (n div 255)" by (simp add: zdiv_int)
  ultimately show ?thesis
    using assms sint_word_of_nat [OF small]
    by (simp add: LZ4_compressBound_def lz4_bound_def)
qed

lemma mem_read_alloc:
  assumes "mem_ok m" and "heap_alloc m n a = (m1, p)" and "mem_read m q k = Inr bs"
  shows "mem_read m1 q k = Inr bs"
proof (cases p)
  case None
  with assms show ?thesis by (auto dest: heap_alloc_None)
next
  case (Some r)
  have "blocks m (next_block m) = None" using assms(1) by (auto simp: mem_ok_def)
  with assms Some show ?thesis
    by (auto simp: mem_read_def heap_alloc_Some(3) split: option.splits if_splits)
qed

lemma file_compress_ok:
  assumes L: "lz4_contract L" and ok: "mem_ok m" and rd: "mem_read m (w_buffer w) n = Inr data"
    and n: "n = length data" "unat (w_size w) = n" and max: "int n \<le> LZ4_MAX_INPUT_SIZE"
    and room: "lz4_bound n + 22 \<le> os_avail m"
    and out: "out = lz4_compress L data (lz4_bound n)"
  shows "\<exists>m'. file_compress L m w = Inr (m', w\<lparr>w_size := word_of_nat (length out + 22),
        w_buffer := Some (next_block m, 0)\<rparr>) \<and>
      mem_read m' (Some (next_block m, 0)) (length out + 22) =
        Inr (size_header (word_of_nat (length out)) (word_of_nat n) @ out) \<and>
      mem_ok m' \<and> (\<forall>b. b \<noteq> next_block m \<longrightarrow> blocks m' b = blocks m b)"
proof -
  let ?N = "lz4_bound n + 22" and ?b = "next_block m"
  let ?hdr = "size_header (word_of_nat (length out)) (word_of_nat n)"
  have small: "n < 2 ^ 31" "?N < 2 ^ 31"
    using max lz4_bound_small [OF max] by (simp_all add: LZ4_MAX_INPUT_SIZE_def)
  have fit: "length out \<le> lz4_bound n" using L out by (simp add: lz4_contract_def)
  have hdr: "length ?hdr = 22" using fit small by simp
  obtain m1 p where a: "heap_alloc m ?N 8 = (m1, p)" by (cases "heap_alloc m ?N 8")
  have p: "p = Some (?b, 0)" using a room by (auto simp: heap_alloc_def)
  have m1: "blocks m1 = (blocks m)(?b := Some (replicate ?N (junk m)))"
    using a p heap_alloc_Some(3) by blast
  have sz: "(ucast (w_size w) :: i32) = word_of_nat n"
    using n(2) by (metis of_nat_unat)
  have cap: "nat (sint (word_of_nat (lz4_bound n) + 22 :: i32)) = ?N"
    using sint_word_of_nat [OF small(2)] by simp
  have bound: "nat (sint (word_of_nat (lz4_bound n) :: i32)) = lz4_bound n"
    using sint_word_of_nat [of "lz4_bound n"] small(2) by simp
  have rd1: "mem_read m1 (w_buffer w) n = Inr data" by (rule mem_read_alloc [OF ok a rd])
  define m2 where "m2 = m1\<lparr>blocks := (blocks m1)(?b := Some (splice (replicate ?N (junk m)) 22 out))\<rparr>"
  define m3 where "m3 = m2\<lparr>blocks := (blocks m2)(?b := Some (splice (splice (replicate ?N (junk m)) 22 out) 0 ?hdr))\<rparr>"
  have w2: "mem_write m1 (ptr_add p 22) out = Inr m2"
    using fit by (simp add: p ptr_add_def mem_write_def m1 m2_def)
  have w3: "mem_write m2 p ?hdr = Inr m3"
    using fit hdr by (simp add: p mem_write_def m2_def m3_def)
  have "file_compress L m w = Inr (m3, w\<lparr>w_size := word_of_nat (length out + 22), w_buffer := p\<rparr>)"
    using w2 w3 rd1 small max sint_word_of_nat [OF small(1)]
    by (simp add: file_compress_def Let_def sz compressBound_nat [OF max] cap a bound out [symmetric])
  moreover have "mem_read m3 (Some (?b, 0)) (length out + 22) = Inr (?hdr @ out)"
    using fit hdr by (simp add: mem_read_def m3_def m2_def splice_def)
  moreover have "mem_ok m3"
    using mem_ok_write [OF mem_ok_write [OF _ w2] w3] mem_ok_alloc [OF ok, of ?N 8] a by simp
  moreover have "\<forall>b. b \<noteq> ?b \<longrightarrow> blocks m3 b = blocks m b" by (simp add: m3_def m2_def m1)
  ultimately show ?thesis using p by auto
qed

lemma scast_word_of_nat: "k < 2 ^ 31 \<Longrightarrow> (scast (word_of_nat k :: i32) :: u64) = word_of_nat k"
proof -
  assume "k < 2 ^ 31"
  then have "(scast (word_of_nat k :: i32) :: u64) = word_of_int (int k)"
    by (metis sint_word_of_nat of_int_sint)
  then show ?thesis by simp
qed

lemma size_arg: "k < 2 ^ 31 \<Longrightarrow> unat (scast (word_of_nat k :: i32) :: u64) = k"
  by (simp add: scast_word_of_nat unsigned_of_nat take_bit_nat_eq_self)

lemma mem_read_split:
  assumes "mem_read m (Some (b, off)) k = Inr bs"
  shows "length bs = k" and "i + j \<le> k \<Longrightarrow> mem_read m (Some (b, off + i)) j = Inr (take j (drop i bs))"
  using assms
  by (auto simp: mem_read_def min_def drop_take add.commute split: option.splits if_splits)

lemma file_decompress_ok:
  assumes L: "lz4_contract L" and ok: "mem_ok m"
    and rd: "mem_read m (Some (b, 0)) (length out + 22) =
      Inr (size_header (word_of_nat (length out)) (word_of_nat n) @ out)"
    and buf: "w_buffer w = Some (b, 0)"
    and n: "n = length data" and max: "int n \<le> LZ4_MAX_INPUT_SIZE"
    and out: "out = lz4_compress L data (lz4_bound n)"
    and room: "n + 1 \<le> os_avail m"
  shows "\<exists>m' w'. file_decompress L m w = Inr (m', w') \<and> w_done w' \<and> w_result w' = w_result w \<and>
      unat (w_size w') = n \<and> mem_read m' (w_buffer w') n = Inr data \<and>
      (w_null_terminate w \<longrightarrow> mem_read m' (ptr_add (w_buffer w') n) 1 = Inr [0]) \<and>
      mem_read m' (Some (b, 0)) 1 = Inl Use_after_free"
proof -
  let ?hdr = "size_header (word_of_nat (length out)) (word_of_nat n)"
  let ?k = "if w_null_terminate w then n + 1 else n"
  have small: "n < 2 ^ 31" "n + 1 < 2 ^ 31" using max by (simp_all add: LZ4_MAX_INPUT_SIZE_def)
  have fit: "length out < 2 ^ 31"
  proof -
    have "length out \<le> lz4_bound n" using L out by (simp add: lz4_contract_def)
    then show ?thesis using lz4_bound_small [OF max] by linarith
  qed
  have hdr: "length ?hdr = 22" using fit small by simp
  have r1: "mem_read m (w_buffer w) 21 = Inr (take 21 ?hdr)"
    using mem_read_split(2) [OF rd, of 0 21] hdr buf by simp
  have sizes: "read_sizes 10 (take 21 ?hdr) = (word_of_nat (length out), word_of_nat n)"
    by (rule read_size_header [OF fit small(1)])
  obtain m1 p where a: "heap_alloc m ?k 8 = (m1, p)" by (cases "heap_alloc m ?k 8")
  have argsz: "unat (scast (if w_null_terminate w then word_of_nat n + 1 else word_of_nat n :: i32) :: u64) = ?k"
  proof -
    have "(if w_null_terminate w then word_of_nat n + 1 else word_of_nat n :: i32) = word_of_nat ?k" by simp
    then show ?thesis using size_arg [of ?k] small by presburger
  qed
  have "mem_read m (ptr_add (w_buffer w) 22) (length out) = Inr out"
    using mem_read_split(2) [OF rd, of 22 "length out"] hdr buf by (simp add: ptr_add_def)
  then have r2: "mem_read m1 (ptr_add (w_buffer w) 22) (length out) = Inr out"
    by (rule mem_read_alloc [OF ok a])
  have dec: "lz4_decompress L out (int n) = data"
    using L max n out unfolding lz4_contract_def lz4_bound_def by simp
  have blk: "\<exists>bs. blocks m1 b = Some bs" and bne: "b \<noteq> next_block m"
  proof -
    from mem_read_alloc [OF ok a rd] show "\<exists>bs. blocks m1 b = Some bs"
      by (auto simp: mem_read_def split: option.splits)
    from rd have "blocks m b \<noteq> None" by (auto simp: mem_read_def split: option.splits)
    with ok show "b \<noteq> next_block m" by (auto simp: mem_ok_def)
  qed
  show ?thesis
  proof (cases "?k = 0")
    case True
    then have p: "p = None" using a by (simp add: heap_alloc_def)
    obtain m4 where f: "heap_free m1 (Some (b, 0)) = Inr m4"
      using blk by (auto simp: heap_free_def)
    have d: "data = []" "n = 0" "\<not> w_null_terminate w" using True n by (auto split: if_splits)
    have "file_decompress L m w = Inr (m4, work_done (w\<lparr>w_buffer := p, w_size := scast (word_of_nat n :: i32)\<rparr>))"
      using r1 sizes a r2 dec f argsz fit small buf d p sint_word_of_nat [OF fit]
      by (simp add: file_decompress_def mem_write_def)
    with d p f heap_free_read [OF f] show ?thesis
      by (simp add: work_done_def event_signal_def mem_read_def)
  next
    case False
    then have p: "p = Some (next_block m, 0)" using a room by (auto simp: heap_alloc_def split: if_splits)
    have m1: "blocks m1 = (blocks m)(next_block m := Some (replicate ?k (junk m)))"
      using a p heap_alloc_Some(3) by blast
    let ?new = "if w_null_terminate w then data @ [0] else data"
    define m2 where "m2 = m1\<lparr>blocks := (blocks m1)(next_block m := Some (splice (replicate ?k (junk m)) 0 data))\<rparr>"
    define m3 where "m3 = (if w_null_terminate w then m2\<lparr>blocks := (blocks m2)(next_block m := Some (data @ [0]))\<rparr> else m2)"
    have w2: "mem_write m1 p data = Inr m2"
      using n by (simp add: p mem_write_def m1 m2_def)
    have w3: "(if w_null_terminate w then mem_write m2 (ptr_add p n) [0] else Inr m2) = Inr m3"
      using n by (simp add: p ptr_add_def mem_write_def m2_def m3_def splice_def)
    have b3: "blocks m3 (next_block m) = Some ?new" "\<exists>bs. blocks m3 b = Some bs"
      using n blk bne by (auto simp: m3_def m2_def splice_def)
    obtain m4 where f: "heap_free m3 (Some (b, 0)) = Inr m4"
      using b3(2) by (auto simp: heap_free_def)
    have b4: "blocks m4 (next_block m) = Some ?new"
      using f b3(1) bne by (auto simp: heap_free_def split: option.splits)
    have "file_decompress L m w = Inr (m4, work_done (w\<lparr>w_buffer := p, w_size := scast (word_of_nat n :: i32)\<rparr>))"
      using r1 sizes a r2 dec w2 w3 f argsz buf sint_word_of_nat [OF fit] sint_word_of_nat [OF small(1)]
      by (simp add: file_decompress_def split: if_splits)
    moreover have "mem_read m4 p n = Inr data" "w_null_terminate w \<longrightarrow> mem_read m4 (ptr_add p n) 1 = Inr [0]"
      using b4 n by (simp_all add: p mem_read_def ptr_add_def)
    moreover have "unat (scast (word_of_nat n :: i32) :: u64) = n"
      using scast_word_of_nat [OF small(1)] small by (simp add: unsigned_of_nat take_bit_nat_eq_self)
    ultimately show ?thesis
      using heap_free_read [OF f] by (simp add: work_done_def event_signal_def)
  qed
qed

section \<open>Through the disk\<close>

lemma ucast_word_of_nat:
  assumes "k < 2 ^ LENGTH('a)" and "k < 2 ^ LENGTH('b)"
  shows "(ucast (word_of_nat k :: 'a :: len word) :: 'b :: len word) = word_of_nat k"
  using assms by (intro word_unat_eq_iff [THEN iffD2]) (simp add: unsigned_of_nat unsigned_ucast_eq take_bit_nat_eq_self)

lemma file_write_ok:
  assumes io: "fs_io_contract io (w_path w) d d' bs"
    and rd: "mem_read m (w_buffer w) (length bs) = Inr bs"
    and sz: "w_size w = word_of_nat (length bs)" "length bs < 2 ^ 31"
  shows "file_write io d m w = Inr (d', work_done w)"
proof -
  have "unat (ucast (w_size w) :: u32) = length bs"
    using sz ucast_word_of_nat [of "length bs", where ?'a = 64 and ?'b = 32]
    by (simp add: unsigned_of_nat take_bit_nat_eq_self)
  moreover have "ucast (word_of_nat (length bs) :: u32) = w_size w"
    using sz ucast_word_of_nat [of "length bs", where ?'a = 32 and ?'b = 64] by simp
  ultimately show ?thesis
    using io rd by (auto simp: file_write_def fs_io_contract_def work_done_def)
qed

lemma file_write_self:
  assumes "file_write io d m w = Inr (d', w')"
  shows "w_self w' = w_self w"
proof (cases "io_wide io (w_path w) \<le> 0")
  case True
  with assms show ?thesis by (auto simp: file_write_def work_failed_def)
next
  case False
  show ?thesis
  proof (cases "io_open_write io d (w_path w)")
    case (Inl e)
    with False assms show ?thesis by (auto simp: file_write_def work_failed_def)
  next
    case (Inr d1)
    with False assms obtain bs where bs: "(case io_write io d1 (w_path w) bs of
        Inl e \<Rightarrow> Inr (d1, work_failed w e)
      | Inr (d2, n) \<Rightarrow> Inr (d2, work_done (w\<lparr>w_size := ucast n\<rparr>))) = (Inr (d', w') :: _ outcome)"
      by (auto simp: file_write_def bind_ok_Inr_iff)
    then show ?thesis
      by (cases "io_write io d1 (w_path w) bs") (auto simp: work_failed_def work_done_def)
  qed
qed

lemma file_read_result:
  assumes io: "fs_io_contract io (w_path w) d d' bs" and ok: "mem_ok m"
    and bs: "0 < length bs" "length bs < 2 ^ 31" and room: "length bs + 1 \<le> os_avail m"
  shows "\<exists>d2 m'. file_read io d' m w =
      Inr (d2, m', (let w' = w\<lparr>w_size := word_of_nat (length bs), w_buffer := Some (next_block m, 0)\<rparr>
        in if w_use_compression w then w' else work_done w'), w_use_compression w) \<and>
    (\<forall>b. b \<noteq> next_block m \<longrightarrow> blocks m' b = blocks m b) \<and> next_block m' = Suc (next_block m) \<and>
    blocks m' (next_block m) = Some (if w_null_terminate w then bs @ [0] else bs) \<and>
    mem_read m' (Some (next_block m, 0)) (length bs) = Inr bs \<and> mem_ok m' \<and>
    os_avail m \<le> os_avail m' + length bs + 1"
proof -
  let ?k = "if w_null_terminate w then length bs + 1 else length bs"
  let ?j = "replicate ?k (junk m)"
  obtain d2 where d2: "0 < io_wide io (w_path w)" "io_open_read io d' (w_path w) = Inr d2"
    "io_size io d2 (w_path w) = Inr (word_of_nat (length bs))"
    "io_read io d2 (w_path w) (word_of_nat (length bs)) = Inr bs"
    using io by (auto simp: fs_io_contract_def)
  have sz: "unat (if w_null_terminate w then word_of_nat (length bs) + 1 else word_of_nat (length bs) :: u64) = ?k"
  proof -
    have "(if w_null_terminate w then word_of_nat (length bs) + 1 else word_of_nat (length bs) :: u64) = word_of_nat ?k"
      by simp
    moreover have "unat (word_of_nat ?k :: u64) = ?k"
      using bs(2) by (simp add: unsigned_of_nat take_bit_nat_eq_self)
    ultimately show ?thesis by presburger
  qed
  have dw: "(ucast (word_of_nat (length bs) :: u64) :: u32) = word_of_nat (length bs)"
    using bs(2) by (intro ucast_word_of_nat) simp_all
  define m1 where "m1 = m\<lparr>blocks := (blocks m)(next_block m := Some ?j),
    next_block := Suc (next_block m), os_avail := os_avail m - ?k\<rparr>"
  have a: "heap_alloc m ?k 8 = (m1, Some (next_block m, 0))"
    using bs(1) room by (simp add: heap_alloc_def m1_def)
  define m2 where "m2 = m1\<lparr>blocks := (blocks m1)(next_block m := Some (splice ?j 0 bs))\<rparr>"
  define m3 where "m3 = (if w_null_terminate w then m2\<lparr>blocks := (blocks m2)(next_block m := Some (bs @ [0]))\<rparr> else m2)"
  have w2: "mem_write m1 (Some (next_block m, 0)) bs = Inr m2"
    by (simp add: mem_write_def m1_def m2_def)
  have w3: "(if w_null_terminate w then mem_write m2 (ptr_add (Some (next_block m, 0)) (length bs)) [0]
      else Inr m2) = Inr m3"
    by (simp add: ptr_add_def mem_write_def m2_def m3_def splice_def)
  have "file_read io d' m w =
      Inr (d2, m3, (let w' = w\<lparr>w_size := word_of_nat (length bs), w_buffer := Some (next_block m, 0)\<rparr>
        in if w_use_compression w then w' else work_done w'), w_use_compression w)"
    using d2 w2 w3 unfolding file_read_def by (simp add: sz a dw Let_def split del: if_split) (simp add: work_done_def)
  moreover have "(\<forall>b. b \<noteq> next_block m \<longrightarrow> blocks m3 b = blocks m b)" "next_block m3 = Suc (next_block m)"
    "blocks m3 (next_block m) = Some (if w_null_terminate w then bs @ [0] else bs)"
    by (simp_all add: m3_def m2_def m1_def splice_def)
  moreover have "mem_read m3 (Some (next_block m, 0)) (length bs) = Inr bs"
    by (simp add: mem_read_def m3_def m2_def splice_def)
  moreover have "mem_ok m3"
    using ok by (auto simp: mem_ok_def m3_def m2_def m1_def less_Suc_eq)
  moreover have "os_avail m \<le> os_avail m3 + length bs + 1" by (auto simp: m3_def m2_def m1_def)
  ultimately show ?thesis by blast
qed

lemma file_read_ok:
  assumes "fs_io_contract io (w_path w) d d' bs" and "mem_ok m"
    and "0 < length bs" "length bs < 2 ^ 31" and "length bs + 1 \<le> os_avail m"
    and "w_use_compression w"
  shows "\<exists>d2 m'. file_read io d' m w =
      Inr (d2, m', w\<lparr>w_size := word_of_nat (length bs), w_buffer := Some (next_block m, 0)\<rparr>, True) \<and>
    mem_read m' (Some (next_block m, 0)) (length bs) = Inr bs \<and> mem_ok m' \<and>
    os_avail m \<le> os_avail m' + length bs + 1"
  using file_read_result [OF assms(1-5)] assms(6) by auto

section \<open>Properties\<close>

text \<open>
  C11. Compressed files round-trip. A buffer of any content, up to the LZ4 input limit, that is
  written with \<open>use_compression\<close> and later read back with \<open>use_compression\<close> -- through the decimal
  size header, LZ4 and the disk, possibly by another process -- comes back with the same bytes
  and the same size, terminated by a zero if that was asked for, with both work items done.
\<close>

theorem compressed_file_round_trip:
  assumes L: "lz4_contract L" and ok: "mem_ok m"
    and rd: "mem_read m (w_buffer w) (length data) = Inr data" and sz: "unat (w_size w) = length data"
    and max: "int (length data) \<le> LZ4_MAX_INPUT_SIZE" and room: "lz4_bound (length data) + 22 \<le> os_avail m"
    and io: "\<And>bs. length bs < 2 ^ 31 \<Longrightarrow> fs_io_contract io (w_path w) d (stored bs) bs"
  shows "\<exists>m1 w1 d' w2. file_compress L m w = Inr (m1, w1) \<and> file_write io d m1 w1 = Inr (d', w2) \<and>
    w_done w2 \<and> w_result w2 = w_result w \<and>
    (\<forall>m2 r. mem_ok m2 \<and> w_path r = w_path w \<and> w_use_compression r \<and>
        lz4_bound (length data) + length data + 24 \<le> os_avail m2 \<longrightarrow>
      (\<exists>d2 m3 r1 m4 r2. file_read io d' m2 r = Inr (d2, m3, r1, True) \<and>
        file_decompress L m3 r1 = Inr (m4, r2) \<and> w_done r2 \<and> w_result r2 = w_result r \<and>
        unat (w_size r2) = length data \<and> mem_read m4 (w_buffer r2) (length data) = Inr data \<and>
        (w_null_terminate r \<longrightarrow> mem_read m4 (ptr_add (w_buffer r2) (length data)) 1 = Inr [0])))"
proof -
  define out where "out = lz4_compress L data (lz4_bound (length data))"
  define bs where "bs = size_header (word_of_nat (length out)) (word_of_nat (length data)) @ out"
  from file_compress_ok [OF L ok rd refl sz max room out_def] obtain m1
    where c: "file_compress L m w = Inr (m1, w\<lparr>w_size := word_of_nat (length out + 22),
        w_buffer := Some (next_block m, 0)\<rparr>)"
      and r1: "mem_read m1 (Some (next_block m, 0)) (length out + 22) = Inr bs"
    unfolding bs_def by blast
  have fit: "length out \<le> lz4_bound (length data)" using L by (simp add: lz4_contract_def out_def)
  have lbs: "length bs = length out + 22" using mem_read_split(1) [OF r1] .
  have small: "length bs < 2 ^ 31" using fit lz4_bound_small [OF max] lbs by linarith
  note IO = io [OF small]
  let ?cw = "w\<lparr>w_size := word_of_nat (length out + 22), w_buffer := Some (next_block m, 0)\<rparr>"
  have wr: "file_write io d m1 ?cw = Inr (stored bs, work_done ?cw)"
    using IO r1 small by (intro file_write_ok [where bs = bs]) (simp_all add: lbs)
  have again: "\<exists>d2 m3 r1 m4 r2. file_read io (stored bs) m2 r = Inr (d2, m3, r1, True) \<and>
        file_decompress L m3 r1 = Inr (m4, r2) \<and> w_done r2 \<and> w_result r2 = w_result r \<and>
        unat (w_size r2) = length data \<and> mem_read m4 (w_buffer r2) (length data) = Inr data \<and>
        (w_null_terminate r \<longrightarrow> mem_read m4 (ptr_add (w_buffer r2) (length data)) 1 = Inr [0])"
    if A: "mem_ok m2 \<and> w_path r = w_path w \<and> w_use_compression r \<and>
        lz4_bound (length data) + length data + 24 \<le> os_avail m2" for m2 :: mem and r :: fs_work_t
  proof -
    obtain d2 m3 where f: "file_read io (stored bs) m2 r =
        Inr (d2, m3, r\<lparr>w_size := word_of_nat (length bs), w_buffer := Some (next_block m2, 0)\<rparr>, True)"
      "mem_read m3 (Some (next_block m2, 0)) (length bs) = Inr bs" "mem_ok m3"
      "os_avail m2 \<le> os_avail m3 + length bs + 1"
      using file_read_ok [of io r d "stored bs" bs m2] IO A fit small lbs by auto
    have avail: "length data + 1 \<le> os_avail m3" using f(4) A fit lbs by linarith
    let ?r = "r\<lparr>w_size := word_of_nat (length bs), w_buffer := Some (next_block m2, 0)\<rparr>"
    have "mem_read m3 (Some (next_block m2, 0)) (length out + 22) =
        Inr (size_header (word_of_nat (length out)) (word_of_nat (length data)) @ out)"
      by (rule f(2) [unfolded lbs, unfolded bs_def])
    then obtain m4 r2 where "file_decompress L m3 ?r = Inr (m4, r2)" "w_done r2" "w_result r2 = w_result ?r"
      "unat (w_size r2) = length data" "mem_read m4 (w_buffer r2) (length data) = Inr data"
      "w_null_terminate ?r \<longrightarrow> mem_read m4 (ptr_add (w_buffer r2) (length data)) 1 = Inr [0]"
      using file_decompress_ok [OF L f(3) _ _ refl max out_def avail, of "next_block m2" ?r] by auto
    with f(1) show ?thesis by auto
  qed
  show ?thesis
    by (rule exI [of _ m1], rule exI [of _ ?cw], rule exI [of _ "stored bs"], rule exI [of _ "work_done ?cw"],
        intro conjI allI impI)
      (rule c wr again | assumption | simp add: work_done_def event_signal_def)+
qed

text \<open>A disk of files, and a codec that stores the bytes as they are: the parameters exist.\<close>

definition plain_io :: "(string \<Rightarrow> bytes option) fs_io" where
  "plain_io = \<lparr>io_wide = (\<lambda>_. 1),
     io_open_read = (\<lambda>d path. if d path = None then Inl 2 else Inr d),
     io_open_write = (\<lambda>d path. Inr (d(path := Some []))),
     io_size = (\<lambda>d path. Inr (word_of_nat (length (the (d path))))),
     io_read = (\<lambda>d path n. Inr (take (unat n) (the (d path)))),
     io_write = (\<lambda>d path bs. Inr (d(path := Some bs), word_of_nat (length bs)))\<rparr>"

definition stored_lz4 :: lz4_lib where
  "stored_lz4 = \<lparr>lz4_compress = (\<lambda>src cap. take cap src), lz4_decompress = (\<lambda>src cap. take (nat cap) src)\<rparr>"

lemma plain_io_contract:
  "length bs < 2 ^ 31 \<Longrightarrow> fs_io_contract plain_io path d (d(path := Some bs)) bs"
  by (simp add: fs_io_contract_def plain_io_def unsigned_of_nat take_bit_nat_eq_self)

lemma stored_lz4_contract: "lz4_contract stored_lz4"
  by (simp add: lz4_contract_def stored_lz4_def)

theorem compressed_file_round_trip_witness:
  "\<exists>m1 (w1 :: fs_work_t) d' w2 m4 r2.
     file_write plain_io (\<lambda>_. None) m1 w1 = Inr (d', w2) \<and> w_done w2 \<and>
     d' ''save'' \<noteq> None \<and> w_done (r2 :: fs_work_t) \<and> mem_read m4 (w_buffer r2) 3 = Inr [7, 8, 9]"
proof -
  let ?m = "\<lparr>blocks = (\<lambda>_. None)(0 := Some [7, 8, 9]), next_block = 1, os_avail = 1000, junk = 0\<rparr>"
  let ?w = "\<lparr>w_self = None, w_op = k_fs_work_op_write, w_path = ''save'', w_null_terminate = False,
    w_use_compression = True, w_buffer = Some (0, 0), w_size = 3, w_done = False, w_result = 0\<rparr>"
  let ?r = "?w\<lparr>w_op := k_fs_work_op_read, w_buffer := None, w_size := 0\<rparr>"
  have io: "\<And>bs. length bs < 2 ^ 31 \<Longrightarrow>
      fs_io_contract plain_io (w_path ?w) (\<lambda>_. None) ((\<lambda>_. None)(''save'' := Some bs)) bs"
    using plain_io_contract by simp
  have "mem_ok ?m" by (simp add: mem_ok_def)
  from compressed_file_round_trip [OF stored_lz4_contract this _ _ _ _ io, of "[7, 8, 9]"]
  obtain m1 w1 d' w2 where c: "file_compress stored_lz4 ?m ?w = Inr (m1, w1)"
    "file_write plain_io (\<lambda>_. None) m1 w1 = Inr (d', w2)" "w_done w2"
    and again: "\<forall>m2 r. mem_ok m2 \<and> w_path r = w_path ?w \<and> w_use_compression r \<and>
        lz4_bound (length [7 :: u8, 8, 9]) + length [7 :: u8, 8, 9] + 24 \<le> os_avail m2 \<longrightarrow>
      (\<exists>d2 m3 r1 m4 r2. file_read plain_io d' m2 r = Inr (d2, m3, r1, True) \<and>
        file_decompress stored_lz4 m3 r1 = Inr (m4, r2) \<and> w_done r2 \<and> w_result r2 = w_result r \<and>
        unat (w_size r2) = length [7 :: u8, 8, 9] \<and> mem_read m4 (w_buffer r2) (length [7 :: u8, 8, 9]) = Inr [7, 8, 9] \<and>
        (w_null_terminate r \<longrightarrow> mem_read m4 (ptr_add (w_buffer r2) (length [7 :: u8, 8, 9])) 1 = Inr [0]))"
    by (auto simp: mem_read_def LZ4_MAX_INPUT_SIZE_def lz4_bound_def)
  have three: "length [7 :: u8, 8, 9] = 3" by simp
  have pre: "mem_ok (mem_init 1000 0) \<and> w_path ?r = w_path ?w \<and> w_use_compression ?r \<and>
      lz4_bound 3 + 3 + 24 \<le> os_avail (mem_init 1000 0)"
    by (simp add: lz4_bound_def)
  from again [unfolded three, THEN spec, THEN spec, THEN mp, OF pre] obtain d2 m3 r1 m4 r2 where
    "file_read plain_io d' (mem_init 1000 0) ?r = Inr (d2, m3, r1, True)" "w_done (r2 :: fs_work_t)"
    "mem_read m4 (w_buffer r2) 3 = Inr [7, 8, 9]"
    by blast
  moreover from this(1) have "d' ''save'' \<noteq> None"
    by (auto simp: file_read_def plain_io_def split: if_splits)
  ultimately show ?thesis using c by blast
qed

text \<open>
  C12. Decompression trusts the file. The sizes come from the file and the result of
  \<^verbatim>\<open>LZ4_decompress_safe\<close> is dropped: a well-formed header in front of a block the decoder refuses
  still gives a finished work item with result 0, whose buffer is \<open>n\<close> bytes of uninitialised
  memory; and a header that announces more compressed bytes than the file has makes the
  decoder read past the buffer.
\<close>

theorem decompress_trusts_file:
  assumes ok: "mem_ok m" and buf: "w_buffer w = Some (b, 0)"
    and blk: "blocks m b = Some (size_header (word_of_nat c) (word_of_nat n) @ body)"
    and c: "c < 2 ^ 31" and n: "0 < n" "n < 2 ^ 31 - 1" and room: "n + 1 \<le> os_avail m"
    and nt: "\<not> w_null_terminate w"
  shows "(c \<le> length body \<and> lz4_decompress L (take c body) (int n) = [] \<longrightarrow>
      (\<exists>m' w'. file_decompress L m w = Inr (m', w') \<and> w_done w' \<and> w_result w' = w_result w \<and>
        unat (w_size w') = n \<and> mem_read m' (w_buffer w') n = Inr (replicate n (junk m)))) \<and>
    (length body < c \<longrightarrow> file_decompress L m w = Inl Out_of_bounds)"
proof -
  let ?hdr = "size_header (word_of_nat c) (word_of_nat n)"
  have small: "n < 2 ^ 31" using n(2) by simp
  have hdr: "length ?hdr = 22" using c small by simp
  have r1: "mem_read m (w_buffer w) 21 = Inr (take 21 ?hdr)"
    using hdr by (simp add: buf mem_read_def blk)
  have sizes: "read_sizes 10 (take 21 ?hdr) = (word_of_nat c, word_of_nat n)"
    by (rule read_size_header [OF c small])
  obtain m1 p where a: "heap_alloc m n 8 = (m1, p)" by (cases "heap_alloc m n 8")
  have p: "p = Some (next_block m, 0)" using a room n(1) by (auto simp: heap_alloc_def split: if_splits)
  have m1: "blocks m1 = (blocks m)(next_block m := Some (replicate n (junk m)))"
    using a p heap_alloc_Some(3) by blast
  have bne: "b \<noteq> next_block m" using ok blk by (auto simp: mem_ok_def)
  have start: "file_decompress L m w =
      bind_ok (mem_read m1 (Some (b, 22)) c) (\<lambda>src.
        bind_ok (mem_write m1 p (lz4_decompress L src (int n))) (\<lambda>m2.
        bind_ok (heap_free m2 (Some (b, 0))) (\<lambda>m4.
          Inr (m4, work_done (w\<lparr>w_buffer := p, w_size := scast (word_of_nat n :: i32)\<rparr>)))))"
    using r1 sizes a nt sint_word_of_nat [OF c] sint_word_of_nat [OF small] size_arg [OF small]
    by (simp add: file_decompress_def buf ptr_add_def)
  show ?thesis
  proof (intro conjI impI)
    assume d: "c \<le> length body \<and> lz4_decompress L (take c body) (int n) = []"
    have "mem_read m1 (Some (b, 22)) c = Inr (take c body)"
      using d bne hdr by (simp add: mem_read_def m1 blk)
    moreover have "mem_write m1 p [] = Inr m1" by (simp add: p mem_write_def m1 splice_def)
    moreover obtain m4 where f: "heap_free m1 (Some (b, 0)) = Inr m4"
      using bne blk by (auto simp: heap_free_def m1)
    ultimately have e: "file_decompress L m w =
        Inr (m4, work_done (w\<lparr>w_buffer := p, w_size := scast (word_of_nat n :: i32)\<rparr>))"
      using d by (simp add: start)
    have "blocks m4 (next_block m) = Some (replicate n (junk m))"
      using f bne by (auto simp: heap_free_def m1 blk)
    then have "mem_read m4 p n = Inr (replicate n (junk m))" by (simp add: p mem_read_def)
    with e show "\<exists>m' w'. file_decompress L m w = Inr (m', w') \<and> w_done w' \<and> w_result w' = w_result w \<and>
        unat (w_size w') = n \<and> mem_read m' (w_buffer w') n = Inr (replicate n (junk m))"
      using size_arg [OF small] by (simp add: work_done_def event_signal_def)
  next
    assume "length body < c"
    then have "mem_read m1 (Some (b, 22)) c = Inl Out_of_bounds"
      using bne hdr by (simp add: mem_read_def m1 blk)
    then show "file_decompress L m w = Inl Out_of_bounds" by (simp add: start)
  qed
qed

theorem decompress_trusts_file_witness:
  "\<exists>m (w :: fs_work_t). file_decompress stored_lz4 m w = Inl Out_of_bounds \<and> mem_ok m \<and>
     (\<exists>bs. blocks m 0 = Some (size_header 9 4 @ bs))"
proof -
  let ?m = "\<lparr>blocks = (\<lambda>_. None)(0 := Some (size_header (word_of_nat 9) (word_of_nat 4) @ [1, 2])),
    next_block = 1, os_avail = 1000, junk = 0\<rparr>"
  let ?w = "\<lparr>w_self = None, w_op = k_fs_work_op_read, w_path = ''save'', w_null_terminate = False,
    w_use_compression = True, w_buffer = Some (0, 0), w_size = 24, w_done = False, w_result = 0\<rparr>"
  have ok: "mem_ok ?m" by (simp add: mem_ok_def)
  have "file_decompress stored_lz4 ?m ?w = Inl Out_of_bounds"
    using decompress_trusts_file [of ?m ?w 0 9 4 "[1, 2]" stored_lz4, OF ok] by simp
  with ok show ?thesis by (intro exI [of _ ?m] exI [of _ ?w]) simp
qed

text \<open>
  A compressed write leaks its output buffer. \<open>file_compress\<close> replaces the caller's buffer in
  the work item by one of its own, and nothing on the way -- not \<open>file_write\<close>, not
  \<open>fs_work_destroy\<close> -- releases it: when the caller has waited for the write and destroyed the work,
  one more block is live than before.
\<close>

theorem compressed_write_leaks_buffer:
  assumes ok: "mem_ok m" and c: "file_compress L m w = Inr (m1, w1)" and buf: "w_buffer w1 = Some p"
    and wr: "file_write io d m1 w1 = Inr (d', w2)"
    and self: "w_self w = Some (b, 0)" "blocks m b \<noteq> None"
    and fin: "fs_work_destroy m1 (Some w2) = Some (Inr m2)"
  shows "block_size m p = None \<and> block_size m2 p \<noteq> None \<and> block_size m2 (b, 0) = None"
proof -
  let ?n = "nat (sint (LZ4_compressBound (ucast (w_size w)) + 22))"
  obtain m0 q where a: "heap_alloc m ?n 8 = (m0, q)" by (cases "heap_alloc m ?n 8")
  from c a obtain ma hd out where w: "w_buffer w1 = q" "w_self w1 = w_self w"
    "mem_write m0 (ptr_add q 22) out = Inr ma" "mem_write ma q hd = Inr m1"
    unfolding file_compress_def Let_def split
    by (auto simp: bind_ok_Inr_iff split: if_splits)
  have q: "q = Some (next_block m, 0)" "p = (next_block m, 0)"
    using a w(1) buf by (auto dest: heap_alloc_Some(1))
  have live: "blocks m1 (next_block m) \<noteq> None"
    using w(4) q by (auto simp: mem_write_def split: option.splits if_splits)
  have ws: "w_self w2 = w_self w1"
    using wr by (rule file_write_self)
  have bne: "b \<noteq> next_block m" using ok self(2) by (auto simp: mem_ok_def)
  from fin ws w(2) self(1) have f: "heap_free m1 (Some (b, 0)) = Inr m2"
    by (auto simp: fs_work_destroy_def split: option.splits)
  have "blocks m (next_block m) = None" using ok by (auto simp: mem_ok_def)
  with f live bne show ?thesis
    by (auto simp: q block_size_def heap_free_def split: option.splits)
qed

theorem compressed_write_leaks_buffer_witness:
  "\<exists>(m :: mem) (w :: fs_work_t) p m2. block_size m p = None \<and> block_size m2 p \<noteq> None \<and>
     (\<exists>m1 w1 d' w2. file_compress stored_lz4 m w = Inr (m1, w1) \<and>
       file_write plain_io (\<lambda>_. None) m1 w1 = Inr (d', w2) \<and>
       fs_work_destroy m1 (Some w2) = Some (Inr m2))"
proof -
  let ?m = "\<lparr>blocks = (\<lambda>_. None)(0 := Some [7, 8, 9], 1 := Some [0]), next_block = 2, os_avail = 1000, junk = 0\<rparr>"
  let ?w = "\<lparr>w_self = Some (1, 0), w_op = k_fs_work_op_write, w_path = ''save'', w_null_terminate = False,
    w_use_compression = True, w_buffer = Some (0, 0), w_size = 3, w_done = False, w_result = 0\<rparr>"
  have ok: "mem_ok ?m" by (auto simp: mem_ok_def)
  have bd: "lz4_bound 3 = 19" by (simp add: lz4_bound_def)
  obtain m1 where c: "file_compress stored_lz4 ?m ?w = Inr (m1, ?w\<lparr>w_size := 25, w_buffer := Some (2, 0)\<rparr>)"
    and r: "mem_read m1 (Some (2, 0)) 25 = Inr (size_header 3 3 @ [7, 8, 9])"
    and same: "\<forall>b. b \<noteq> 2 \<longrightarrow> blocks m1 b = blocks ?m b"
    using file_compress_ok [OF stored_lz4_contract ok, of ?w 3 "[7, 8, 9]" "[7, 8, 9]"]
    by (auto simp: mem_read_def LZ4_MAX_INPUT_SIZE_def bd stored_lz4_def)
  let ?cw = "?w\<lparr>w_size := 25, w_buffer := Some (2, 0)\<rparr>"
  have wr: "file_write plain_io (\<lambda>_. None) m1 ?cw =
      Inr ((\<lambda>_. None)(''save'' := Some (size_header 3 3 @ [7, 8, 9])), work_done ?cw)"
    using plain_io_contract [of "size_header 3 3 @ [7, 8, 9]" "''save''"] r length_size_header [of 3 3]
    by (intro file_write_ok [where bs = "size_header 3 3 @ [7, 8, 9]"]) simp_all
  obtain m2 where f: "fs_work_destroy m1 (Some (work_done ?cw)) = Some (Inr m2)"
    using same by (simp add: fs_work_destroy_def work_done_def event_signal_def event_wait_def heap_free_def)
  from compressed_write_leaks_buffer [OF ok c _ wr _ _ f(1), of "(2, 0)" 1]
  have "block_size ?m (2, 0) = None" "block_size m2 (2, 0) \<noteq> None"
    by auto
  with c wr f(1) show ?thesis by blast
qed

end
