(* ===== verification/Fs_Props.thy ===== *)
theory Fs_Props
  imports Fs_Threads Fs_Codec
begin

text \<open>
  The properties of the file system's threads: within its capacity it completes every request;
  beyond it the two threads can block each other for good; and shutting down can drop a write.
\<close>

section \<open>Completion\<close>

text \<open>
  C13. Within its capacity the file system always completes. In every state the client and the
  two threads can reach, if at most \<open>queue_capacity\<close> items are unfinished, the threads on their own
  make at most six actions per unfinished item, and they only come to a stop when every item
  is done (the other way to stop is a fault). The number of requests is bounded by the range
  of the queue indices.
\<close>

theorem fs_within_capacity_completes:
  assumes create: "fs_create m d fresh1 fresh2 c = Inr s0" and c: "0 < sint c"
    and fresh: "nat (sint c) \<le> length fresh1" "nat (sint c) \<le> length fresh2"
    and reach: "(fs_step io L)\<^sup>*\<^sup>* s0 s" and lim: "2 * fs_next s \<le> index_limit"
    and few: "card (unfinished (fs_works s)) \<le> nat (sint c)"
    and run: "(worker_step io L ^^ n) s t"
  shows "n \<le> 6 * card (unfinished (fs_works s)) \<and>
    (file_thread_func io t = Inr None \<and> compression_thread_func L t = Inr None \<longrightarrow>
      unfinished (fs_works t) = {})"
proof -
  from fs_create_inv [OF create c fresh] have "fs_inv (nat (sint c)) s0" by simp
  with reach lim have inv: "fs_inv (nat (sint c)) s" by (intro fs_steps_inv [OF reach])
  note B = worker_run_bound [OF run inv lim]
  have "card (unfinished (fs_works t)) \<le> nat (sint c)"
    using B few card_mono [OF finite_unfinished [OF inv], of "unfinished (fs_works t)"] by linarith
  then show ?thesis
    using B lim actions_left_le [OF inv] blocked_none_left [of "nat (sint c)" t io L] by auto
qed

section \<open>Concrete runs\<close>

text \<open>A client's calls, for runs.\<close>

lemma step_worker_file: "file_thread_func io s = Inr (Some s') \<Longrightarrow> fs_step io L s s'"
  by (intro step_worker step_file)

lemma step_worker_compression: "compression_thread_func L s = Inr (Some s') \<Longrightarrow> fs_step io L s s'"
  by (intro step_worker step_compression)

text \<open>A schedule of client calls and thread actions.\<close>

datatype fs_act = A_read | A_write | A_file | A_compression

fun fs_act_step :: "'d fs_io \<Rightarrow> lz4_lib \<Rightarrow> fs_act \<Rightarrow> 'd fs_t \<Rightarrow> 'd fs_t option outcome" where
  "fs_act_step io L A_read s = fs_read s ''a'' False True"
| "fs_act_step io L A_write s = fs_write s ''a'' None 0 True"
| "fs_act_step io L A_file s = file_thread_func io s"
| "fs_act_step io L A_compression s = compression_thread_func L s"

fun fs_run :: "'d fs_io \<Rightarrow> lz4_lib \<Rightarrow> fs_act list \<Rightarrow> 'd fs_t \<Rightarrow> 'd fs_t option" where
  "fs_run io L [] s = Some s"
| "fs_run io L (a # as) s =
     (case fs_act_step io L a s of Inr (Some s') \<Rightarrow> fs_run io L as s' | _ \<Rightarrow> None)"

lemma fs_run_steps: "fs_run io L as s = Some t \<Longrightarrow> (fs_step io L)\<^sup>*\<^sup>* s t"
proof (induction as arbitrary: s)
  case Nil
  then show ?case by simp
next
  case (Cons a as)
  then obtain s' where s': "fs_act_step io L a s = Inr (Some s')" "fs_run io L as s' = Some t"
    by (auto split: sum.split_asm option.split_asm)
  have "fs_step io L s s'"
    using s'(1) by (cases a) (auto intro: step_worker_file step_worker_compression step_read step_write)
  then show ?case using Cons.IH [OF s'(2)] by (rule converse_rtranclp_into_rtranclp)
qed

definition demo_disk :: "string \<Rightarrow> bytes option" where
  "demo_disk = [''a'' \<mapsto> [1]]"

lemmas fs_eval = fs_create_def queue_create_def semaphore_create_def fs_write_def fs_write_work_def
  fs_read_def fs_read_work_def fs_work_new_def heap_alloc_def sizeof_fs_work_t_def k_path_size_def
  fs_submit_def queue_push_def semaphore_acquire_def queue_put_def array_set_def slot_index_nonneg
  semaphore_release_def compression_thread_func_def file_thread_func_def queue_pop_def queue_take_def
  array_get_def file_compress_def file_read_def LZ4_compressBound_def LZ4_MAX_INPUT_SIZE_def
  mem_read_def mem_write_def ptr_add_def stored_lz4_def set_work_def plain_io_def demo_disk_def
  event_create_def splice_def length_size_header [of 0 0, simplified]

lemma queue_push_no_slot: "sem_count (free_items q) = 0 \<Longrightarrow> queue_push q x = Inr None"
  by (simp add: queue_push_def semaphore_acquire_def)

theorem fs_within_capacity_completes_witness:
  "\<exists>s0 s t. fs_create (mem_init 20000 0) demo_disk [None] [None] 1 = Inr s0 \<and>
     (fs_step plain_io stored_lz4)\<^sup>*\<^sup>* s0 s \<and> unfinished (fs_works s) = {0} \<and>
     (worker_step plain_io stored_lz4 ^^ 2) s t \<and> (2 :: nat) \<le> 6 * card (unfinished (fs_works s))"
proof -
  have "\<exists>s0 s t1 t. fs_create (mem_init 20000 0) demo_disk [None] [None] 1 = Inr s0 \<and>
      fs_run plain_io stored_lz4 [A_read] s0 = Some s \<and> unfinished (fs_works s) = {0} \<and> fs_next s = 1 \<and>
      file_thread_func plain_io s = Inr (Some t1) \<and> file_thread_func plain_io t1 = Inr (Some t)"
    by (simp add: fs_eval unfinished_def)
  then obtain s0 s t1 t where s: "fs_create (mem_init 20000 0) demo_disk [None] [None] 1 = Inr s0"
      "fs_run plain_io stored_lz4 [A_read] s0 = Some s" "unfinished (fs_works s) = {0}" "fs_next s = 1"
    and t: "file_thread_func plain_io s = Inr (Some t1)" "file_thread_func plain_io t1 = Inr (Some t)"
    by blast
  have run: "(worker_step plain_io stored_lz4 ^^ 2) s t"
    unfolding numeral_2_eq_2 using step_file [OF t(1)] step_file [OF t(2)] by auto
  have "2 \<le> 6 * card (unfinished (fs_works s)) \<and>
      (file_thread_func plain_io t = Inr None \<and> compression_thread_func stored_lz4 t = Inr None \<longrightarrow>
        unfinished (fs_works t) = {})"
    by (rule fs_within_capacity_completes [OF s(1) _ _ _ fs_run_steps [OF s(2)] _ _ run])
      (simp_all add: s index_limit_def)
  then have "2 \<le> 6 * card (unfinished (fs_works s))" ..
  with s(1,3) fs_run_steps [OF s(2)] run show ?thesis by (intro exI conjI)
qed

text \<open>Both queues full and both threads at a push: nothing can move, the client included.\<close>

lemma gridlock:
  assumes "sem_count (free_items (file_queue s)) = 0" and "sem_count (free_items (compression_queue s)) = 0"
    and "file_thread s = W_push i" and "compression_thread s = W_push j"
  shows "\<not> fs_step io L s t"
proof
  assume "fs_step io L s t"
  then show False
  proof (cases rule: fs_step_cases)
    case work
    then show False
      using assms by (auto elim!: worker_step.cases simp: file_thread_func_def compression_thread_func_def
          queue_push_no_slot)
  next
    case (reading path nt c)
    then show False using assms by (auto simp: fs_read_def fs_submit_def queue_push_no_slot bind_ok_Inr_iff)
  next
    case (writing path buf sz c)
    then show False
      using assms by (cases c) (auto simp: fs_write_def fs_submit_def queue_push_no_slot bind_ok_Inr_iff)
  qed
qed

text \<open>
  C14. Beyond the capacity the two threads can deadlock. Each pushes onto the queue the other one
  pops from; with a queue capacity of one, two compressed writes and two compressed reads bring
  the file thread to a push on the full compression queue while the compression thread is at a
  push on the full file queue. No thread can move again, no later request is accepted, and
  nobody who waits for one of the four items returns.
\<close>

theorem fs_beyond_capacity_deadlocks:
  "\<exists>s0 s. fs_create (mem_init 20000 0) demo_disk [None] [None] 1 = Inr s0 \<and>
     (fs_step plain_io stored_lz4)\<^sup>*\<^sup>* s0 s \<and> {0, 1, 2, 3} \<subseteq> unfinished (fs_works s) \<and>
     (\<forall>t. \<not> fs_step plain_io stored_lz4 s t)"
proof -
  have "\<exists>s0 s. fs_create (mem_init 20000 0) demo_disk [None] [None] 1 = Inr s0 \<and>
      fs_run plain_io stored_lz4 [A_write, A_compression, A_read, A_file, A_write, A_read,
        A_compression, A_file] s0 = Some s \<and> {0, 1, 2, 3} \<subseteq> unfinished (fs_works s) \<and>
      sem_count (free_items (file_queue s)) = 0 \<and> sem_count (free_items (compression_queue s)) = 0 \<and>
      file_thread s = W_push 1 \<and> compression_thread s = W_push 0"
    by (simp add: fs_eval unfinished_def)
  then obtain s0 s where s0: "fs_create (mem_init 20000 0) demo_disk [None] [None] 1 = Inr s0"
    and run: "fs_run plain_io stored_lz4 [A_write, A_compression, A_read, A_file, A_write, A_read,
      A_compression, A_file] s0 = Some s" and pend: "{0, 1, 2, 3} \<subseteq> unfinished (fs_works s)"
    and stuck: "sem_count (free_items (file_queue s)) = 0" "sem_count (free_items (compression_queue s)) = 0"
      "file_thread s = W_push 1" "compression_thread s = W_push 0"
    by blast
  have "\<forall>t. \<not> fs_step plain_io stored_lz4 s t" using gridlock [OF stuck] by simp
  with s0 fs_run_steps [OF run] pend show ?thesis by (intro exI conjI)
qed

text \<open>
  Shutting down can drop a write. \<^verbatim>\<open>fs_destroy\<close> queues the stop items while a compressed
  write is still on its way to the compression thread: the file thread stops first, the write
  is compressed and pushed onto the queue nobody pops any more, the compression thread stops,
  and \<^verbatim>\<open>fs_destroy\<close> returns: the item is never done and nothing is written.
\<close>

theorem fs_destroy_drops_write:
  "\<exists>s0 s1 s2 s3 s4. fs_create (mem_init 20000 0) (\<lambda>_. None) [None, None] [None, None] 2 = Inr s0 \<and>
     fs_write s0 ''a'' None 0 True = Inr (Some s1) \<and> fs_stop_file s1 = Inr (Some s2) \<and>
     fs_stop_compression s2 = Inr (Some s3) \<and> (worker_step plain_io stored_lz4)\<^sup>*\<^sup>* s3 s4 \<and>
     fs_stopped s4 \<and> unfinished (fs_works s4) = {0} \<and> fs_disk s4 = (\<lambda>_. None)"
proof -
  have "\<exists>s0 s1 s2 s3 t1 t2 t3 t4 s4. fs_create (mem_init 20000 0) (\<lambda>_. None) [None, None] [None, None] 2 = Inr s0 \<and>
     fs_write s0 ''a'' None 0 True = Inr (Some s1) \<and> fs_stop_file s1 = Inr (Some s2) \<and>
     fs_stop_compression s2 = Inr (Some s3) \<and> file_thread_func plain_io s3 = Inr (Some t1) \<and>
     compression_thread_func stored_lz4 t1 = Inr (Some t2) \<and>
     compression_thread_func stored_lz4 t2 = Inr (Some t3) \<and>
     compression_thread_func stored_lz4 t3 = Inr (Some t4) \<and>
     compression_thread_func stored_lz4 t4 = Inr (Some s4) \<and>
     fs_stopped s4 \<and> unfinished (fs_works s4) = {0} \<and> fs_disk s4 = (\<lambda>_. None)"
    by (simp add: fs_eval unfinished_def fs_stop_file_def fs_stop_compression_def fs_stopped_def)
  then show ?thesis
    by (meson step_file step_compression rtranclp.rtrancl_into_rtrancl rtranclp.rtrancl_refl)
qed

end
