(* ===== verification/Ecs_Save.thy ===== *)
theory Ecs_Save
  imports Ecs_Store Fs_Codec
begin

text \<open>
  Saving and loading the entity system (\<^verbatim>\<open>ecs_save_game\<close>, \<^verbatim>\<open>ecs_load_game\<close> of \<^verbatim>\<open>ecs.c\<close>): the
  layout of the file, the two functions over the memory model and the file operations of \<open>Fs\<close>,
  and what loading does to the component pointers.
\<close>

section \<open>Entity states as ints\<close>

definition es_word :: "entity_state_t \<Rightarrow> i32" where
  "es_word s = word_of_int (es_val s)"

definition es_of_word :: "i32 \<Rightarrow> entity_state_t" where
  "es_of_word w = (if w = 0 then k_entity_unused else if w = 1 then k_entity_pending_add
     else if w = 2 then k_entity_active else if w = 3 then k_entity_pending_remove
     else k_entity_raw w)"

text \<open>A raw state is one that is none of the enumerators.\<close>

definition es_proper :: "entity_state_t \<Rightarrow> bool" where
  "es_proper s \<longleftrightarrow> (\<forall>w. s = k_entity_raw w \<longrightarrow> w \<notin> {0, 1, 2, 3})"

lemma es_of_word_word [simp]: "es_proper s \<Longrightarrow> es_of_word (es_word s) = s"
  by (cases s) (auto simp: es_proper_def es_of_word_def es_word_def)

section \<open>Saving\<close>

text \<open>The components that are saved, in the order of their types; each block is copied whole.\<close>

fun component_images :: "mem \<Rightarrow> bool list \<Rightarrow> u64 list \<Rightarrow> ptr option list \<Rightarrow> bytes outcome" where
  "component_images m (s # ss) (z # zs) (p # ps) =
     (if s then bind_ok (mem_read m p (k_max_entities * unat z)) (\<lambda>bs.
              bind_ok (component_images m ss zs ps) (\<lambda>rest. Inr (bs @ rest)))
      else component_images m ss zs ps)"
| "component_images m _ _ _ = Inr []"

text \<open>The number of bytes the file takes, in \<^verbatim>\<open>size_t\<close> arithmetic.\<close>

fun saved_size :: "bool list \<Rightarrow> u64 list \<Rightarrow> u64" where
  "saved_size (s # ss) (z # zs) = (if s then word_of_nat k_max_entities * z else 0) + saved_size ss zs"
| "saved_size _ _ = 0"

definition save_header_size :: nat where
  "save_header_size = 4 + (4 + 4 + 8) * k_max_entities"

definition ecs_image :: "mem \<Rightarrow> ecs_t \<Rightarrow> bytes outcome" where
  "ecs_image m e =
     bind_ok (component_images m (save_component e) (component_type_sizes e) (components e)) (\<lambda>cs.
       Inr (le32 (global_sequence e) @ concat (map le32 (sequences e)) @
            concat (map (\<lambda>s. le32 (es_word s)) (entity_states e)) @
            concat (map le64 (component_masks e)) @ cs))"

definition savegame_path :: string where "savegame_path = ''savegame''"

text \<open>The write is queued and waited for: its effect is that of \<open>file_write\<close> on the work item.\<close>

definition ecs_save_game :: "'d fs_io \<Rightarrow> 'd \<Rightarrow> mem \<Rightarrow> ecs_t \<Rightarrow> ('d \<times> mem) outcome" where
  "ecs_save_game io d m e =
     (let sz = word_of_nat save_header_size + saved_size (save_component e) (component_type_sizes e);
          (m1, data) = heap_alloc m (unat sz) 8
      in bind_ok (ecs_image m1 e) (\<lambda>img.
         bind_ok (mem_write m1 data img) (\<lambda>m2.
         bind_ok (fs_write_work m2 savegame_path data sz False) (\<lambda>(m3, work).
         bind_ok (file_write io d m3 work) (\<lambda>(d', work').
         case fs_work_destroy m3 (Some work') of
           None \<Rightarrow> Inl Misuse
         | Some r \<Rightarrow> bind_ok r (\<lambda>m4. bind_ok (heap_free m4 data) (\<lambda>m5. Inr (d', m5))))))))"

section \<open>Loading\<close>

text \<open>Consecutive records of \<open>k\<close> bytes.\<close>

definition chunks :: "nat \<Rightarrow> nat \<Rightarrow> bytes \<Rightarrow> bytes list" where
  "chunks k n bs = map (\<lambda>i. take k (drop (i * k) bs)) [0..<n]"

text \<open>The pointers of the saved types are set into the file's buffer.\<close>

fun attach_components :: "bool list \<Rightarrow> u64 list \<Rightarrow> ptr option list \<Rightarrow> ptr option \<Rightarrow> nat \<Rightarrow> ptr option list" where
  "attach_components (s # ss) (z # zs) (p # ps) data ctr =
     (if s then ptr_add data ctr # attach_components ss zs ps data (ctr + k_max_entities * unat z)
      else p # attach_components ss zs ps data ctr)"
| "attach_components _ _ _ _ _ = []"

definition ecs_load_game :: "'d fs_io \<Rightarrow> 'd \<Rightarrow> mem \<Rightarrow> ecs_t \<Rightarrow> ('d \<times> mem \<times> ecs_t) outcome" where
  "ecs_load_game io d m e =
     bind_ok (fs_read_work m savegame_path False False) (\<lambda>(m1, work).
     bind_ok (file_read io d m1 work) (\<lambda>(d', m2, work', _).
       if w_result work' \<noteq> 0 then Inr (d', m2, e)
       else let data = w_buffer work' in
         bind_ok (mem_read m2 data 4) (\<lambda>gs.
         bind_ok (mem_read m2 (ptr_add data 4) (4 * k_max_entities)) (\<lambda>sq.
         bind_ok (mem_read m2 (ptr_add data (4 + 4 * k_max_entities)) (4 * k_max_entities)) (\<lambda>st.
         bind_ok (mem_read m2 (ptr_add data (4 + 8 * k_max_entities)) (8 * k_max_entities)) (\<lambda>cm.
           let e' = e\<lparr>global_sequence := of_le32 gs,
                      sequences := map of_le32 (chunks 4 k_max_entities sq),
                      entity_states := map (\<lambda>b. es_of_word (of_le32 b)) (chunks 4 k_max_entities st),
                      component_masks := map of_le64 (chunks 8 k_max_entities cm),
                      components := attach_components (save_component e) (component_type_sizes e)
                        (components e) data save_header_size\<rparr>
           in case fs_work_destroy m2 (Some work') of
                None \<Rightarrow> Inl Misuse
              | Some r \<Rightarrow> bind_ok r (\<lambda>m3. bind_ok (heap_free m3 data) (\<lambda>m4. Inr (d', m4, e')))))))))"

section \<open>The layout is read back\<close>

lemma chunks_concat:
  assumes "\<forall>x \<in> set xs. length (f x) = k" and "n = length xs"
  shows "chunks k n (concat (map f xs)) = map f xs"
  using assms chunk_of_concat [OF assms(1), of _ "[]"]
  by (intro nth_equalityI) (simp_all add: chunks_def)

text \<open>The bytes that the saved components take.\<close>

fun saved_total :: "bool list \<Rightarrow> u64 list \<Rightarrow> nat" where
  "saved_total (s # ss) (z # zs) = (if s then k_max_entities * unat z else 0) + saved_total ss zs"
| "saved_total _ _ = 0"

lemma saved_size_total: "word_of_nat (saved_total ss zs) = saved_size ss zs"
  by (induction ss zs rule: saved_total.induct) auto

lemma length_mem_read: "mem_read m p n = Inr bs \<Longrightarrow> length bs = n"
  by (auto simp: mem_read_def split: option.split_asm prod.split_asm if_split_asm)

lemma component_images_Cons:
  assumes "component_images m (s # ss) (z # zs) (p # ps) = Inr cs"
  obtains (saved) bs rest where "s" "mem_read m p (k_max_entities * unat z) = Inr bs"
      "component_images m ss zs ps = Inr rest" "cs = bs @ rest"
    | (skipped) "\<not> s" "component_images m ss zs ps = Inr cs"
  using assms by (cases s) (auto simp: bind_ok_Inr_iff)

lemma length_component_images:
  "component_images m ss zs ps = Inr cs \<Longrightarrow> length ss = length ps \<Longrightarrow> length zs = length ps \<Longrightarrow>
   length cs = saved_total ss zs"
proof (induction ps arbitrary: ss zs cs)
  case Nil
  then show ?case by simp
next
  case (Cons p ps)
  then obtain s ss' z zs' where l: "ss = s # ss'" "zs = z # zs'"
    by (metis Suc_length_conv length_Cons)
  from Cons.prems(1) [unfolded l] show ?case
  proof (cases rule: component_images_Cons)
    case (saved bs rest)
    with Cons.IH [OF saved(3)] Cons.prems l length_mem_read [OF saved(2)] show ?thesis by simp
  next
    case skipped
    with Cons.IH [OF skipped(2)] Cons.prems l show ?thesis by simp
  qed
qed

lemma component_images_alloc:
  "mem_ok m \<Longrightarrow> heap_alloc m n a = (m1, p) \<Longrightarrow> component_images m ss zs ps = Inr cs \<Longrightarrow>
   component_images m1 ss zs ps = Inr cs"
proof (induction ps arbitrary: ss zs cs)
  case Nil
  then show ?case by simp
next
  case (Cons q ps)
  show ?case
  proof (cases ss)
    case Nil
    with Cons.prems show ?thesis by simp
  next
    case ss: (Cons s ss')
    show ?thesis
    proof (cases zs)
      case Nil
      with Cons.prems ss show ?thesis by simp
    next
      case zs: (Cons z zs')
      from Cons.prems(3) [unfolded ss zs] show ?thesis
      proof (cases rule: component_images_Cons)
        case (saved bs rest)
        with Cons.IH [OF Cons.prems(1,2) saved(3)] mem_read_alloc [OF Cons.prems(1,2) saved(2)] ss zs
        show ?thesis by simp
      next
        case skipped
        with Cons.IH [OF Cons.prems(1,2) skipped(2)] ss zs show ?thesis by simp
      qed
    qed
  qed
qed

lemma length_ecs_image:
  assumes "ecs_shape e" and "ecs_image m e = Inr img"
  shows "length img = save_header_size + saved_total (save_component e) (component_type_sizes e)"
proof -
  obtain cs where cs: "component_images m (save_component e) (component_type_sizes e) (components e) = Inr cs"
    and img: "img = le32 (global_sequence e) @ concat (map le32 (sequences e)) @
      concat (map (\<lambda>s. le32 (es_word s)) (entity_states e)) @ concat (map le64 (component_masks e)) @ cs"
    using assms(2) by (auto simp: ecs_image_def bind_ok_Inr_iff)
  have "length cs = saved_total (save_component e) (component_type_sizes e)"
    using length_component_images [OF cs] assms(1) by (simp add: ecs_shape_def)
  moreover have "length (concat (map le32 (sequences e))) = 4 * k_max_entities"
    "length (concat (map (\<lambda>s. le32 (es_word s)) (entity_states e))) = 4 * k_max_entities"
    "length (concat (map le64 (component_masks e))) = 8 * k_max_entities"
    using assms(1) by (simp_all add: ecs_shape_def length_concat_const [where k = 4] length_concat_const [where k = 8])
  ultimately show ?thesis by (simp add: img save_header_size_def)
qed

text \<open>What a buffer that starts with the image gives when it is read at the offsets of the loader.\<close>

lemma image_fields:
  assumes shape: "ecs_shape e" and img: "ecs_image m e = Inr img"
    and blk: "blocks m2 b = Some img"
  shows "mem_read m2 (Some (b, 0)) 4 = Inr (le32 (global_sequence e))"
    "mem_read m2 (Some (b, 4)) (4 * k_max_entities) = Inr (concat (map le32 (sequences e)))"
    "mem_read m2 (Some (b, 4 + 4 * k_max_entities)) (4 * k_max_entities) =
      Inr (concat (map (\<lambda>s. le32 (es_word s)) (entity_states e)))"
    "mem_read m2 (Some (b, 4 + 8 * k_max_entities)) (8 * k_max_entities) =
      Inr (concat (map le64 (component_masks e)))"
proof -
  obtain cs where i: "img = le32 (global_sequence e) @ concat (map le32 (sequences e)) @
      concat (map (\<lambda>s. le32 (es_word s)) (entity_states e)) @ concat (map le64 (component_masks e)) @ cs"
    using img by (auto simp: ecs_image_def bind_ok_Inr_iff)
  have l: "length (concat (map le32 (sequences e))) = 4 * k_max_entities"
    "length (concat (map (\<lambda>s. le32 (es_word s)) (entity_states e))) = 4 * k_max_entities"
    "length (concat (map le64 (component_masks e))) = 8 * k_max_entities"
    using shape by (simp_all add: ecs_shape_def length_concat_const [where k = 4] length_concat_const [where k = 8])
  show "mem_read m2 (Some (b, 0)) 4 = Inr (le32 (global_sequence e))"
    "mem_read m2 (Some (b, 4)) (4 * k_max_entities) = Inr (concat (map le32 (sequences e)))"
    "mem_read m2 (Some (b, 4 + 4 * k_max_entities)) (4 * k_max_entities) =
      Inr (concat (map (\<lambda>s. le32 (es_word s)) (entity_states e)))"
    "mem_read m2 (Some (b, 4 + 8 * k_max_entities)) (8 * k_max_entities) =
      Inr (concat (map le64 (component_masks e)))"
    using l by (simp_all add: mem_read_def blk i)
qed

section \<open>Saving and loading succeed\<close>

lemma save_header_pos: "0 < save_header_size"
  by (simp add: save_header_size_def)

lemma fs_work_new_ok:
  assumes "sizeof_fs_work_t \<le> os_avail m" and "length path < k_path_size"
  shows "fs_work_new m op path buf sz nt c =
    Inr (m\<lparr>blocks := (blocks m)(next_block m := Some (replicate sizeof_fs_work_t (junk m))),
           next_block := Suc (next_block m), os_avail := os_avail m - sizeof_fs_work_t\<rparr>,
      \<lparr>w_self = Some (next_block m, 0), w_op = op, w_path = path, w_null_terminate = nt,
       w_use_compression = c, w_buffer = buf, w_size = sz, w_done = False, w_result = 0\<rparr>)"
proof -
  have "0 < sizeof_fs_work_t" by (simp add: sizeof_fs_work_t_def)
  with assms show ?thesis by (simp add: fs_work_new_def heap_alloc_def event_create_def)
qed

lemma savegame_path_fits: "length savegame_path < k_path_size"
  by (simp add: savegame_path_def k_path_size_def)

lemma save_game_ok:
  assumes shape: "ecs_shape e" and ok: "mem_ok m" and img: "ecs_image m e = Inr img"
    and small: "length img < 2 ^ 31" and room: "length img + sizeof_fs_work_t \<le> os_avail m"
    and io: "fs_io_contract io savegame_path d d' img"
  shows "\<exists>m'. ecs_save_game io d m e = Inr (d', m') \<and> blocks m' = blocks m"
proof -
  let ?b = "next_block m" and ?n = "length img"
  let ?sz = "word_of_nat save_header_size + saved_size (save_component e) (component_type_sizes e) :: u64"
  have n: "?n = save_header_size + saved_total (save_component e) (component_type_sizes e)"
    by (rule length_ecs_image [OF shape img])
  then have pos: "0 < ?n" using save_header_pos by simp
  have sz: "?sz = word_of_nat ?n" by (simp add: n saved_size_total)
  have usz: "unat ?sz = ?n" unfolding sz using small by (simp add: unsigned_of_nat take_bit_nat_eq_self)
  define m1 where "m1 = m\<lparr>blocks := (blocks m)(?b := Some (replicate ?n (junk m))),
    next_block := Suc ?b, os_avail := os_avail m - ?n\<rparr>"
  have a: "heap_alloc m (unat ?sz) 8 = (m1, Some (?b, 0))"
    unfolding usz using pos room by (simp add: heap_alloc_def m1_def)
  obtain cs where cs: "component_images m (save_component e) (component_type_sizes e) (components e) = Inr cs"
    using img by (auto simp: ecs_image_def bind_ok_Inr_iff)
  have img1: "ecs_image m1 e = Inr img"
    using img cs component_images_alloc [OF ok a cs] by (simp add: ecs_image_def)
  define m2 where "m2 = m1\<lparr>blocks := (blocks m1)(?b := Some img)\<rparr>"
  have w: "mem_write m1 (Some (?b, 0)) img = Inr m2"
    by (simp add: mem_write_def m1_def m2_def splice_def)
  define m3 where "m3 = m2\<lparr>blocks := (blocks m2)(next_block m2 := Some (replicate sizeof_fs_work_t (junk m2))),
    next_block := Suc (next_block m2), os_avail := os_avail m2 - sizeof_fs_work_t\<rparr>"
  define work where "work = \<lparr>w_self = Some (next_block m2, 0), w_op = k_fs_work_op_write,
    w_path = savegame_path, w_null_terminate = False, w_use_compression = False,
    w_buffer = Some (?b, 0), w_size = ?sz, w_done = False, w_result = 0\<rparr>"
  have nw: "fs_write_work m2 savegame_path (Some (?b, 0)) ?sz False = Inr (m3, work)"
    using fs_work_new_ok [of m2 savegame_path k_fs_work_op_write "Some (?b, 0)" ?sz False False]
      room savegame_path_fits
    by (simp add: fs_write_work_def m3_def work_def m2_def m1_def)
  have nb1: "next_block m1 = Suc ?b" by (simp add: m1_def)
  have nb2: "next_block m2 = Suc ?b" by (simp add: m2_def m1_def)
  have wr: "file_write io d m3 work = Inr (d', work_done work)"
    using io small by (intro file_write_ok [where bs = img])
      (simp_all add: work_def mem_read_def m3_def nb2 nb1 m2_def sz)
  define m4 where "m4 = m3\<lparr>blocks := (blocks m3)(Suc ?b := None), os_avail := os_avail m3 + sizeof_fs_work_t\<rparr>"
  have d1: "fs_work_destroy m3 (Some (work_done work)) = Some (Inr m4)"
    by (simp add: fs_work_destroy_def work_done_def work_def event_signal_def event_wait_def nb2
        heap_free_def m3_def m4_def)
  define m5 where "m5 = m4\<lparr>blocks := (blocks m4)(?b := None), os_avail := os_avail m4 + ?n\<rparr>"
  have d2: "heap_free m4 (Some (?b, 0)) = Inr m5"
    by (simp add: heap_free_def m5_def m4_def m3_def nb2 nb1 m2_def)
  have "ecs_save_game io d m e = Inr (d', m5)"
    by (simp add: ecs_save_game_def Let_def a img1 w nw wr d1 d2)
  moreover have "blocks m ?b = None" "blocks m (Suc ?b) = None" using ok by (auto simp: mem_ok_def)
  then have "blocks m5 = blocks m"
    by (auto simp: fun_eq_iff m5_def m4_def m3_def nb2 m2_def m1_def)
  ultimately show ?thesis by blast
qed

lemma load_game_ok:
  assumes shape: "ecs_shape e" and img: "ecs_image m e = Inr img" and small: "length img < 2 ^ 31"
    and ok: "mem_ok m2" and room: "length img + 1 + sizeof_fs_work_t \<le> os_avail m2"
    and io: "fs_io_contract io savegame_path d d' img"
  defines "b \<equiv> Suc (next_block m2)"
  shows "\<exists>d2 m3. ecs_load_game io d' m2 e2 = Inr (d2, m3,
      e2\<lparr>global_sequence := global_sequence e, sequences := sequences e,
        entity_states := map (\<lambda>s. es_of_word (es_word s)) (entity_states e),
        component_masks := component_masks e,
        components := attach_components (save_component e2) (component_type_sizes e2)
          (components e2) (Some (b, 0)) save_header_size\<rparr>) \<and>
    blocks m3 = blocks m2"
proof -
  let ?c = "next_block m2"
  define m1 where "m1 = m2\<lparr>blocks := (blocks m2)(?c := Some (replicate sizeof_fs_work_t (junk m2))),
    next_block := Suc ?c, os_avail := os_avail m2 - sizeof_fs_work_t\<rparr>"
  define work where "work = \<lparr>w_self = Some (?c, 0), w_op = k_fs_work_op_read,
    w_path = savegame_path, w_null_terminate = False, w_use_compression = False,
    w_buffer = None, w_size = 0, w_done = False, w_result = 0\<rparr>"
  have nw: "fs_read_work m2 savegame_path False False = Inr (m1, work)"
    using fs_work_new_ok [of m2 savegame_path k_fs_work_op_read None 0 False False] room savegame_path_fits
    by (simp add: fs_read_work_def m1_def work_def)
  have ok1: "mem_ok m1" using ok by (auto simp: mem_ok_def m1_def less_Suc_eq)
  have pos: "0 < length img" using length_ecs_image [OF shape img] save_header_pos by simp
  have io': "fs_io_contract io (w_path work) d d' img" using io by (simp add: work_def)
  have room1: "length img + 1 \<le> os_avail m1" using room by (simp add: m1_def)
  let ?w = "work_done (work\<lparr>w_size := word_of_nat (length img), w_buffer := Some (b, 0)\<rparr>)"
  obtain d2 m3 where rd: "file_read io d' m1 work = Inr (d2, m3, ?w, False)"
    and other: "\<forall>x. x \<noteq> b \<longrightarrow> blocks m3 x = blocks m1 x" and blk: "blocks m3 b = Some img"
    using file_read_result [OF io' ok1 pos small room1] by (auto simp: work_def m1_def b_def)
  have live: "blocks m3 ?c = Some (replicate sizeof_fs_work_t (junk m2))"
    using other by (simp add: m1_def b_def)
  define m4 where "m4 = m3\<lparr>blocks := (blocks m3)(?c := None), os_avail := os_avail m3 + sizeof_fs_work_t\<rparr>"
  have d1: "fs_work_destroy m3 (Some ?w) = Some (Inr m4)"
    using live by (simp add: fs_work_destroy_def work_done_def work_def event_signal_def event_wait_def
        heap_free_def m4_def)
  define m5 where "m5 = m4\<lparr>blocks := (blocks m4)(b := None), os_avail := os_avail m4 + length img\<rparr>"
  have d3: "heap_free m4 (Some (b, 0)) = Inr m5"
    using blk by (simp add: heap_free_def m5_def m4_def b_def)
  note F = image_fields [OF shape img blk]
  have C: "chunks 4 k_max_entities (concat (map le32 (sequences e))) = map le32 (sequences e)"
    "chunks 4 k_max_entities (concat (map (\<lambda>s. le32 (es_word s)) (entity_states e))) =
      map (\<lambda>s. le32 (es_word s)) (entity_states e)"
    "chunks 8 k_max_entities (concat (map le64 (component_masks e))) = map le64 (component_masks e)"
    using shape by (simp_all add: ecs_shape_def chunks_concat)
  have "w_result ?w = 0" "w_buffer ?w = Some (b, 0)" by (simp_all add: work_done_def work_def)
  then have "ecs_load_game io d' m2 e2 = Inr (d2, m5,
      e2\<lparr>global_sequence := global_sequence e, sequences := sequences e,
        entity_states := map (\<lambda>s. es_of_word (es_word s)) (entity_states e),
        component_masks := component_masks e,
        components := attach_components (save_component e2) (component_type_sizes e2)
          (components e2) (Some (b, 0)) save_header_size\<rparr>)"
    by (simp add: ecs_load_game_def nw rd Let_def F C ptr_add_def d1 d3 comp_def)
  moreover have "blocks m2 ?c = None" "blocks m2 b = None" using ok by (auto simp: mem_ok_def b_def)
  then have "blocks m5 = blocks m2"
    using other by (auto simp: fun_eq_iff m5_def m4_def m1_def b_def)
  ultimately show ?thesis by blast
qed

section \<open>Where the component pointers go\<close>

lemma length_attach_components:
  "length ss = length ps \<Longrightarrow> length zs = length ps \<Longrightarrow>
   length (attach_components ss zs ps data ctr) = length ps"
proof (induction ps arbitrary: ss zs ctr)
  case Nil
  then show ?case by simp
next
  case (Cons p ps)
  from Cons.prems(1,2) obtain s ss' z zs' where "ss = s # ss'" "zs = z # zs'" "length ss' = length ps" "length zs' = length ps"
    by (cases ss; cases zs) auto
  then show ?case by (simp add: Cons.IH)
qed

lemma attach_components_nth:
  "length ss = length ps \<Longrightarrow> length zs = length ps \<Longrightarrow> c < length ps \<Longrightarrow> ss ! c \<Longrightarrow>
   \<exists>off. attach_components ss zs ps (Some (b, 0)) ctr ! c = Some (b, off)"
proof (induction ps arbitrary: ss zs ctr c)
  case Nil
  then show ?case by simp
next
  case (Cons p ps)
  from Cons.prems(1,2) obtain s ss' z zs' where l: "ss = s # ss'" "zs = z # zs'" "length ss' = length ps" "length zs' = length ps"
    by (cases ss; cases zs) auto
  show ?case
  proof (cases c)
    case 0
    with Cons.prems(4) show ?thesis by (simp add: l ptr_add_def)
  next
    case (Suc i)
    with Cons.prems(3,4) have i: "i < length ps" "ss' ! i" by (simp_all add: l)
    show ?thesis using Cons.IH [OF l(3,4) i] by (simp add: l Suc)
  qed
qed

lemma free_components_live:
  "free_components m ps = Inr m' \<Longrightarrow> Some (b, off) \<in> set ps \<Longrightarrow> blocks m b \<noteq> None"
proof (induction ps arbitrary: m)
  case Nil
  then show ?case by simp
next
  case (Cons p ps)
  show ?case
  proof (cases p)
    case None
    with Cons show ?thesis by simp
  next
    case (Some q)
    obtain b0 o0 where q: "q = (b0, o0)" by (cases q)
    from Cons.prems(1) Some q obtain m1 where m1: "heap_free m (Some (b0, o0)) = Inr m1"
      "free_components m1 ps = Inr m'" by (auto simp: bind_ok_Inr_iff)
    show ?thesis
    proof (cases "b = b0")
      case True
      with m1(1) show ?thesis by (auto simp: heap_free_def split: option.split_asm)
    next
      case False
      with Cons.prems(2) Some q have "Some (b, off) \<in> set ps" by auto
      from Cons.IH [OF m1(2) this] m1(1) False show ?thesis
        by (auto simp: heap_free_def split: option.split_asm if_split_asm)
    qed
  qed
qed

section \<open>Properties\<close>

text \<open>
  C17. Saving and loading restore the entity table. For every well-formed system whose saved
  components can be read, \<^verbatim>\<open>ecs_save_game\<close> succeeds and leaves the memory as it was, and loading
  the file into a system with the same registrations brings back the sequence counter, the
  sequence numbers, the states and the component masks, so that every reference means what it
  meant when the game was saved.
\<close>

theorem ecs_load_restores_entities:
  assumes shape: "ecs_shape e" and proper: "\<forall>s \<in> set (entity_states e). es_proper s"
    and ok: "mem_ok m" and img: "ecs_image m e = Inr img" and small: "length img < 2 ^ 31"
    and room: "length img + sizeof_fs_work_t \<le> os_avail m"
    and io: "fs_io_contract io savegame_path d d' img"
    and ok2: "mem_ok m2" and room2: "length img + 1 + sizeof_fs_work_t \<le> os_avail m2"
  shows "\<exists>m1 d2 m3 e3. ecs_save_game io d m e = Inr (d', m1) \<and> blocks m1 = blocks m \<and>
    ecs_load_game io d' m2 e2 = Inr (d2, m3, e3) \<and>
    global_sequence e3 = global_sequence e \<and> sequences e3 = sequences e \<and>
    entity_states e3 = entity_states e \<and> component_masks e3 = component_masks e \<and>
    (\<forall>r a. ecs_is_entity_ref_valid e3 r a = ecs_is_entity_ref_valid e r a)"
proof -
  obtain m1 where s: "ecs_save_game io d m e = Inr (d', m1)" "blocks m1 = blocks m"
    using save_game_ok [OF shape ok img small room io] by blast
  have st: "map (\<lambda>s. es_of_word (es_word s)) (entity_states e) = entity_states e"
    using proper by (intro map_idI) simp
  obtain d2 m3 e3 where l: "ecs_load_game io d' m2 e2 = Inr (d2, m3, e3)"
    "global_sequence e3 = global_sequence e" "sequences e3 = sequences e"
    "entity_states e3 = entity_states e" "component_masks e3 = component_masks e"
    using load_game_ok [OF shape img small ok2 room2 io, of e2] st by auto
  have "\<forall>r a. ecs_is_entity_ref_valid e3 r a = ecs_is_entity_ref_valid e r a"
    unfolding ecs_is_entity_ref_valid_def l(3,4) by simp
  with s l show ?thesis by blast
qed

text \<open>What is stale does not stay stale over a load: a reference that was valid when the game was saved
  and is not any more is valid again once the file is loaded.\<close>

lemma ecs_load_revives_stale_reference:
  assumes shape: "ecs_shape e" and proper: "\<forall>s \<in> set (entity_states e). es_proper s"
    and img: "ecs_image m e = Inr img" and small: "length img < 2 ^ 31"
    and ok2: "mem_ok m2" and room2: "length img + 1 + sizeof_fs_work_t \<le> os_avail m2"
    and io: "fs_io_contract io savegame_path d d' img"
    and "ecs_is_entity_ref_valid e r a = Inr True" and "ecs_is_entity_ref_valid e2 r a = Inr False"
  shows "\<exists>d2 m3 e3. ecs_load_game io d' m2 e2 = Inr (d2, m3, e3) \<and> ecs_is_entity_ref_valid e3 r a = Inr True"
proof -
  have st: "map (\<lambda>s. es_of_word (es_word s)) (entity_states e) = entity_states e"
    using proper by (intro map_idI) simp
  obtain d2 m3 e3 where l: "ecs_load_game io d' m2 e2 = Inr (d2, m3, e3)"
    "sequences e3 = sequences e" "entity_states e3 = entity_states e"
    using load_game_ok [OF shape img small ok2 room2 io, of e2] st by auto
  have "ecs_is_entity_ref_valid e3 r a = ecs_is_entity_ref_valid e r a"
    unfolding ecs_is_entity_ref_valid_def l(2,3) by simp
  with l(1) assms(8) show ?thesis by auto
qed

text \<open>
  Loading leaves the components in released memory. The loaded component pointers are set
  into the file buffer, and the buffer is released at the end of \<^verbatim>\<open>ecs_load_game\<close>: every later
  access to a saved component of any entity is a use after free, \<^verbatim>\<open>ecs_destroy\<close> cannot succeed any
  more, and the component arrays the system had before are still allocated.
\<close>

theorem ecs_load_leaves_dangling_components:
  assumes shape: "ecs_shape e" and img: "ecs_image m e = Inr img" and small: "length img < 2 ^ 31"
    and ok2: "mem_ok m2" and room2: "length img + 1 + sizeof_fs_work_t \<le> os_avail m2"
    and io: "fs_io_contract io savegame_path d d' img"
    and shape2: "ecs_shape e2" and c: "c < k_max_component_types" "save_component e2 ! c"
  shows "\<exists>d2 m3 e3 b off. ecs_load_game io d' m2 e2 = Inr (d2, m3, e3) \<and>
    components e3 ! c = Some (b, off) \<and>
    (\<forall>k n. 0 < n \<longrightarrow> mem_read m3 (Some (b, k)) n = Inl Use_after_free) \<and>
    (\<forall>m4. ecs_destroy m3 e3 \<noteq> Inr m4) \<and>
    (\<forall>p. block_size m3 p = block_size m2 p)"
proof -
  let ?b = "Suc (next_block m2)"
  obtain d2 m3 e3 where l: "ecs_load_game io d' m2 e2 = Inr (d2, m3, e3)" "blocks m3 = blocks m2"
    and comps: "components e3 = attach_components (save_component e2) (component_type_sizes e2)
      (components e2) (Some (?b, 0)) save_header_size"
    using load_game_ok [OF shape img small ok2 room2 io, of e2] by auto
  obtain off where at: "components e3 ! c = Some (?b, off)" and len: "length (components e3) = k_max_component_types"
  proof -
    have len2: "length (save_component e2) = length (components e2)"
      "length (component_type_sizes e2) = length (components e2)" "length (components e2) = k_max_component_types"
      using shape2 by (simp_all add: ecs_shape_def)
    from attach_components_nth [OF len2(1,2) _ c(2), of ?b save_header_size] c(1) len2(3)
    obtain off where "components e3 ! c = Some (?b, off)" unfolding comps by auto
    with that length_attach_components [OF len2(1,2)] len2(3) show thesis by (simp add: comps)
  qed
  have gone: "blocks m3 ?b = None" using ok2 l(2) by (auto simp: mem_ok_def)
  have "Some (?b, off) \<in> set (components e3)" using at len c(1) by (metis nth_mem)
  then have "free_components m3 (components e3) \<noteq> Inr x" for x
    using free_components_live gone by blast
  then have "\<forall>m4. ecs_destroy m3 e3 \<noteq> Inr m4" by (auto simp: ecs_destroy_def bind_ok_Inr_iff)
  moreover have "\<forall>k n. 0 < n \<longrightarrow> mem_read m3 (Some (?b, k)) n = Inl Use_after_free"
    using gone by (simp add: mem_read_def)
  moreover have "\<forall>p. block_size m3 p = block_size m2 p" using l(2) by (simp add: block_size_def)
  ultimately show ?thesis using l(1) at by blast
qed

text \<open>One registered component type of four bytes, to be saved.\<close>

definition demo_ecs :: ecs_t where
  "demo_ecs = (ecs_cleared (Some (1, 0)))\<lparr>global_sequence := 5,
     components := Some (0, 0) # replicate (k_max_component_types - 1) None,
     component_type_sizes := 4 # replicate (k_max_component_types - 1) 0,
     save_component := True # replicate (k_max_component_types - 1) False\<rparr>"

definition demo_mem :: mem where
  "demo_mem = \<lparr>blocks = (\<lambda>_. None)(0 := Some (replicate 2048 7)), next_block = 1, os_avail = 20000, junk = 0\<rparr>"

lemma demo_ecs_shape: "ecs_shape demo_ecs" "\<forall>s \<in> set (entity_states demo_ecs). es_proper s"
  by (simp_all add: demo_ecs_def ecs_shape_def ecs_cleared_def es_proper_def k_max_component_types_def
      k_max_entities_def)

lemma component_images_none: "component_images m (replicate n False) zs ps = Inr []"
proof (induction n arbitrary: zs ps)
  case (Suc n)
  then show ?case by (cases zs; cases ps) auto
qed simp

lemma demo_image:
  obtains img where "ecs_image demo_mem demo_ecs = Inr img" "length img = save_header_size + 2048"
proof -
  have "component_images demo_mem (save_component demo_ecs) (component_type_sizes demo_ecs) (components demo_ecs) =
      Inr (replicate 2048 7)"
    by (simp add: demo_ecs_def demo_mem_def component_images_none mem_read_def k_max_entities_def)
  then obtain img where img: "ecs_image demo_mem demo_ecs = Inr img" by (simp add: ecs_image_def)
  have tot: "saved_total (replicate n False) zs = 0" for n zs
  proof (induction n arbitrary: zs)
    case (Suc n)
    then show ?case by (cases zs) auto
  qed simp
  have "saved_total (save_component demo_ecs) (component_type_sizes demo_ecs) = 2048"
    by (simp add: demo_ecs_def tot k_max_entities_def)
  with length_ecs_image [OF demo_ecs_shape(1) img] show thesis by (intro that [OF img]) simp
qed

lemma demo_mem_ok: "mem_ok demo_mem"
  by (simp add: mem_ok_def demo_mem_def)

theorem ecs_load_restores_entities_witness:
  "\<exists>d' m1 d2 m3 e3. ecs_save_game plain_io (\<lambda>_. None) demo_mem demo_ecs = Inr (d', m1) \<and>
    ecs_load_game plain_io d' (mem_init 20000 0) (ecs_cleared None) = Inr (d2, m3, e3) \<and>
    global_sequence e3 = 5"
proof -
  obtain img where img: "ecs_image demo_mem demo_ecs = Inr img" "length img = save_header_size + 2048"
    by (rule demo_image)
  have small: "length img < 2 ^ 31" by (simp add: img(2) save_header_size_def k_max_entities_def)
  have "\<exists>m1 d2 m3 e3. ecs_save_game plain_io (\<lambda>_. None) demo_mem demo_ecs = Inr ((\<lambda>_. None)(savegame_path := Some img), m1) \<and>
    blocks m1 = blocks demo_mem \<and>
    ecs_load_game plain_io ((\<lambda>_. None)(savegame_path := Some img)) (mem_init 20000 0) (ecs_cleared None) = Inr (d2, m3, e3) \<and>
    global_sequence e3 = global_sequence demo_ecs \<and> sequences e3 = sequences demo_ecs \<and>
    entity_states e3 = entity_states demo_ecs \<and> component_masks e3 = component_masks demo_ecs \<and>
    (\<forall>r a. ecs_is_entity_ref_valid e3 r a = ecs_is_entity_ref_valid demo_ecs r a)"
    by (rule ecs_load_restores_entities [OF demo_ecs_shape demo_mem_ok img(1) small _ plain_io_contract [OF small]])
      (simp_all add: img(2) save_header_size_def k_max_entities_def sizeof_fs_work_t_def demo_mem_def)
  then show ?thesis by (auto simp: demo_ecs_def)
qed

theorem ecs_load_leaves_dangling_components_witness:
  "\<exists>d' d2 m3 e3 b off. ecs_load_game plain_io d' (mem_init 20000 0) demo_ecs = Inr (d2, m3, e3) \<and>
    components e3 ! 0 = Some (b, off) \<and> mem_read m3 (Some (b, off)) 4 = Inl Use_after_free"
proof -
  obtain img where img: "ecs_image demo_mem demo_ecs = Inr img" "length img = save_header_size + 2048"
    by (rule demo_image)
  have small: "length img < 2 ^ 31" by (simp add: img(2) save_header_size_def k_max_entities_def)
  have "\<exists>d2 m3 e3 b off. ecs_load_game plain_io ((\<lambda>_. None)(savegame_path := Some img)) (mem_init 20000 0) demo_ecs = Inr (d2, m3, e3) \<and>
    components e3 ! 0 = Some (b, off) \<and>
    (\<forall>k n. 0 < n \<longrightarrow> mem_read m3 (Some (b, k)) n = Inl Use_after_free) \<and>
    (\<forall>m4. ecs_destroy m3 e3 \<noteq> Inr m4) \<and>
    (\<forall>p. block_size m3 p = block_size (mem_init 20000 0) p)"
    by (rule ecs_load_leaves_dangling_components [OF demo_ecs_shape(1) img(1) small _ _
          plain_io_contract [OF small] demo_ecs_shape(1)])
      (simp_all add: img(2) save_header_size_def k_max_entities_def k_max_component_types_def
        sizeof_fs_work_t_def demo_ecs_def)
  then obtain d2 m3 e3 b off where
    "ecs_load_game plain_io ((\<lambda>_. None)(savegame_path := Some img)) (mem_init 20000 0) demo_ecs = Inr (d2, m3, e3)"
    "components e3 ! 0 = Some (b, off)"
    "mem_read m3 (Some (b, off)) 4 = Inl Use_after_free"
    by force
  then show ?thesis by (intro exI conjI)
qed

end
