(* ===== verification/Net.thy ===== *)
theory Net
  imports Ecs Ring_Queue
begin

text \<open>
  The network component's state, its connection table and its registries (\<^verbatim>\<open>net.h\<close>, \<^verbatim>\<open>net.c\<close>).
  \<open>Net_Snapshot\<close> models the sending half, \<open>Net_Recv\<close> the receiving half.  Packets are blocks of
  the memory model (a 4-byte size, then \<open>k_net_mtu\<close> bytes); the tables are lists of the lengths
  the code declares.  Sockets, the clock and the address resolver are parameters.
\<close>

section \<open>Data\<close>

definition k_net_mtu :: nat where "k_net_mtu = 1024"
definition k_timeout_ms :: u32 where "k_timeout_ms = 5000"
definition k_max_entity_types :: nat where "k_max_entity_types = 32"
definition k_max_snapshots :: nat where "k_max_snapshots = 256"
definition k_net_max_entities :: nat where "k_net_max_entities = 32"
definition k_max_connections :: nat where "k_max_connections = 3"

text \<open>A callback is a code pointer: a number, or null.\<close>

record entity_type_t =
  et_component_mask :: u64
  et_replicated_component_mask :: u64
  et_configure_callback :: "nat option"
  et_replicated_size :: u64

record entity_data_t =
  ed_ref :: ecs_entity_ref_t
  ed_type :: i32
  ed_remote_sequence :: i32
  ed_last_recved_sequence :: i32

record snapshot_t =
  sn_sequence :: i32
  sn_size :: i32
  sn_data :: bytes

record net_address_t =
  addr_ip :: "u8 list"
  addr_port :: u16

record connection_t =
  c_address :: net_address_t
  c_incoming_sequence :: i32
  c_ack_sequence :: i32
  c_send_thread :: bool        \<comment> \<open>the send thread's loop is running\<close>
  c_send_queue :: "ptr option queue_t option"
  c_recv_queue :: "ptr option queue_t option"
  c_last_recv_ms :: u32
  c_entities :: "entity_data_t list"

record net_t =
  net_self :: "ptr option"
  net_sequence :: i32
  net_connections :: "connection_t list"
  net_entity_types :: "entity_type_t list"
  net_entities :: "entity_data_t list"
  net_snapshots :: "snapshot_t list"

definition entity_type_zero :: entity_type_t where
  "entity_type_zero = \<lparr>et_component_mask = 0, et_replicated_component_mask = 0,
     et_configure_callback = None, et_replicated_size = 0\<rparr>"

definition entity_data_zero :: entity_data_t where
  "entity_data_zero = \<lparr>ed_ref = \<lparr>ref_entity = 0, ref_sequence = 0\<rparr>, ed_type = 0,
     ed_remote_sequence = 0, ed_last_recved_sequence = 0\<rparr>"

definition snapshot_zero :: snapshot_t where
  "snapshot_zero = \<lparr>sn_sequence = 0, sn_size = 0, sn_data = replicate k_net_mtu 0\<rparr>"

definition address_zero :: net_address_t where
  "address_zero = \<lparr>addr_ip = replicate 4 0, addr_port = 0\<rparr>"

definition connection_zero :: connection_t where
  "connection_zero = \<lparr>c_address = address_zero, c_incoming_sequence = 0, c_ack_sequence = 0,
     c_send_thread = False, c_send_queue = None, c_recv_queue = None, c_last_recv_ms = 0,
     c_entities = replicate k_net_max_entities entity_data_zero\<rparr>"

text \<open>\<^verbatim>\<open>net_create\<close> clears the whole structure; the socket, the mutex and the receiving thread are
  handles of the system (\<open>Net_Recv\<close> models the thread's loop).\<close>

definition sizeof_net_t :: nat where "sizeof_net_t = 268248"

definition net_cleared :: "ptr option \<Rightarrow> net_t" where
  "net_cleared p = \<lparr>net_self = p, net_sequence = 0,
     net_connections = replicate k_max_connections connection_zero,
     net_entity_types = replicate k_max_entity_types entity_type_zero,
     net_entities = replicate k_net_max_entities entity_data_zero,
     net_snapshots = replicate k_max_snapshots snapshot_zero\<rparr>"

definition net_create :: "mem \<Rightarrow> (mem \<times> net_t) outcome" where
  "net_create m =
     (let (m1, p) = heap_alloc m sizeof_net_t 8
      in bind_ok (memset m1 p 0 sizeof_net_t) (\<lambda>m2. Inr (m2, net_cleared p)))"

section \<open>Connections\<close>

definition k_queue_slots :: nat where "k_queue_slots = 3"

text \<open>The slots of a new queue are not cleared; no pop of a lone producer's queue reads one of them
  before it is written, so the model may hold nulls there.\<close>

definition connection_queue :: "ptr option queue_t option" where
  "connection_queue =
     (case queue_create (replicate k_queue_slots None) 3 of Inl _ \<Rightarrow> None | Inr q \<Rightarrow> Some q)"

definition find_or_create_connection :: "u32 \<Rightarrow> net_t \<Rightarrow> net_address_t \<Rightarrow> net_t \<times> nat option" where
  "find_or_create_connection now net address =
     (case find_from (\<lambda>i. c_address (net_connections net ! i) = address) 0 k_max_connections of
        Some i \<Rightarrow> (net, Some i)
      | None \<Rightarrow>
          (case find_from (\<lambda>i. addr_port (c_address (net_connections net ! i)) = 0) 0 k_max_connections of
             Some i \<Rightarrow>
               (net\<lparr>net_connections := (net_connections net)[i := (net_connections net ! i)
                  \<lparr>c_address := address, c_incoming_sequence := -1, c_ack_sequence := -1,
                   c_last_recv_ms := now, c_send_queue := connection_queue,
                   c_recv_queue := connection_queue, c_send_thread := True\<rparr>]\<rparr>, Some i)
           | None \<Rightarrow> (net, None)))"

definition net_connect :: "u32 \<Rightarrow> net_t \<Rightarrow> net_address_t \<Rightarrow> net_t" where
  "net_connect now net address = fst (find_or_create_connection now net address)"

text \<open>Taking a connection down: the stop item is pushed (\<open>Inr None\<close> when that has to wait because
  the queue is full), the thread is joined and both queues are released.\<close>

definition close_connection :: "connection_t \<Rightarrow> connection_t option outcome" where
  "close_connection c =
     (case c_send_queue c of
        None \<Rightarrow> Inl Null_deref
      | Some q \<Rightarrow> bind_ok (queue_push q None) (\<lambda>r. Inr (map_option (\<lambda>_. connection_zero) r)))"

fun close_connections :: "(connection_t \<Rightarrow> bool) \<Rightarrow> connection_t list \<Rightarrow> connection_t list option outcome" where
  "close_connections P [] = Inr (Some [])"
| "close_connections P (c # cs) =
     bind_ok (if addr_port (c_address c) \<noteq> 0 \<and> P c then close_connection c else Inr (Some c)) (\<lambda>r.
       case r of None \<Rightarrow> Inr None
       | Some c' \<Rightarrow> bind_ok (close_connections P cs) (\<lambda>r'. Inr (map_option (Cons c') r')))"

definition net_disconnect_all :: "net_t \<Rightarrow> net_t option outcome" where
  "net_disconnect_all net =
     bind_ok (close_connections (\<lambda>_. True) (net_connections net)) (\<lambda>r.
       Inr (map_option (\<lambda>_. net\<lparr>net_connections := replicate k_max_connections connection_zero\<rparr>) r))"

definition connection_timed_out :: "u32 \<Rightarrow> connection_t \<Rightarrow> bool" where
  "connection_timed_out now c \<longleftrightarrow> c_last_recv_ms c + k_timeout_ms < now"

definition timeout_old_connections :: "u32 \<Rightarrow> net_t \<Rightarrow> net_t option outcome" where
  "timeout_old_connections now net =
     bind_ok (close_connections (connection_timed_out now) (net_connections net)) (\<lambda>r.
       Inr (map_option (\<lambda>cs. net\<lparr>net_connections := cs\<rparr>) r))"

text \<open>Closing the socket ends the receiving thread, which is joined before the memory goes.\<close>

definition net_destroy :: "mem \<Rightarrow> net_t \<Rightarrow> mem option outcome" where
  "net_destroy m net =
     bind_ok (net_disconnect_all net) (\<lambda>r.
       case r of None \<Rightarrow> Inr None
       | Some net' \<Rightarrow> bind_ok (heap_free m (net_self net')) (\<lambda>m'. Inr (Some m')))"

section \<open>Registries\<close>

text \<open>The components of a mask, in ascending order.\<close>

definition mask_bits :: "u64 \<Rightarrow> nat list" where
  "mask_bits mk = filter (bit mk) [0..<64]"

fun sum_component_sizes :: "ecs_t \<Rightarrow> nat list \<Rightarrow> u64 outcome" where
  "sum_component_sizes e [] = Inr 0"
| "sum_component_sizes e (i # is) =
     bind_ok (ecs_get_component_type_size e (int i)) (\<lambda>z.
     bind_ok (sum_component_sizes e is) (\<lambda>s. Inr (z + s)))"

text \<open>The comparison is made in \<^verbatim>\<open>size_t\<close>: a negative type is a huge number and refused as well.\<close>

definition net_state_register_entity_type ::
    "ecs_t \<Rightarrow> net_t \<Rightarrow> i32 \<Rightarrow> u64 \<Rightarrow> u64 \<Rightarrow> nat option \<Rightarrow> net_t outcome" where
  "net_state_register_entity_type e net type component_mask replicated_component_mask configure_callback =
     (if unat (scast type :: u64) < k_max_entity_types
      then bind_ok (sum_component_sizes e (mask_bits replicated_component_mask)) (\<lambda>sz.
             Inr (net\<lparr>net_entity_types := (net_entity_types net)[unat (scast type :: u64) :=
               \<lparr>et_component_mask = component_mask,
                et_replicated_component_mask = replicated_component_mask,
                et_configure_callback = configure_callback, et_replicated_size = sz\<rparr>]\<rparr>))
      else Inr net)"

text \<open>The search for a slot whose reference is not valid, as a loop over the remaining slots.\<close>

fun first_invalid :: "ecs_t \<Rightarrow> entity_data_t list \<Rightarrow> nat \<Rightarrow> nat option outcome" where
  "first_invalid e [] i = Inr None"
| "first_invalid e (d # ds) i =
     bind_ok (ecs_is_entity_ref_valid e (ed_ref d) True) (\<lambda>v.
       if \<not> v then Inr (Some i) else first_invalid e ds (Suc i))"

definition net_state_register_entity_instance ::
    "ecs_t \<Rightarrow> net_t \<Rightarrow> i32 \<Rightarrow> ecs_entity_ref_t \<Rightarrow> net_t outcome" where
  "net_state_register_entity_instance e net type entity =
     bind_ok (first_invalid e (net_entities net) 0) (\<lambda>r.
       Inr (case r of None \<Rightarrow> net
            | Some i \<Rightarrow> net\<lparr>net_entities := (net_entities net)[i := (net_entities net ! i)
                \<lparr>ed_ref := entity, ed_type := type\<rparr>]\<rparr>))"

section \<open>Addresses\<close>

text \<open>\<open>atoi\<close>: optional blanks and sign, then digits; conversion to \<^verbatim>\<open>uint16_t\<close> keeps the low bits.\<close>

definition is_digit :: "char \<Rightarrow> bool" where
  "is_digit ch \<longleftrightarrow> 48 \<le> (of_char ch :: nat) \<and> (of_char ch :: nat) \<le> 57"

definition is_space :: "char \<Rightarrow> bool" where
  "is_space ch \<longleftrightarrow> (of_char ch :: nat) = 32 \<or> 9 \<le> (of_char ch :: nat) \<and> (of_char ch :: nat) \<le> 13"

definition digits_value :: "string \<Rightarrow> int" where
  "digits_value ds = foldl (\<lambda>v ch. 10 * v + (of_char ch - 48)) 0 (takeWhile is_digit ds)"

definition atoi :: "string \<Rightarrow> int" where
  "atoi str =
     (case dropWhile is_space str of
        [] \<Rightarrow> 0
      | ch # rest \<Rightarrow> if ch = CHR ''-'' then - digits_value rest
                     else if ch = CHR ''+'' then digits_value rest
                     else digits_value (ch # rest))"

text \<open>\<open>getaddrinfo\<close> is a parameter: \<open>None\<close> when it fails, else the first address of its list, if any.\<close>

definition net_string_to_address ::
    "(string \<Rightarrow> u8 list option option) \<Rightarrow> string \<Rightarrow> net_address_t option outcome" where
  "net_string_to_address getaddrinfo str =
     (if 256 \<le> length str then Inl Invalid_parameter
      else let host = takeWhile (\<lambda>ch. ch \<noteq> CHR '':'') str;
               port = (if CHR '':'' \<in> set str then word_of_int (atoi (drop (Suc (length host)) str)) else 0)
           in Inr (case getaddrinfo host of None \<Rightarrow> None
                   | Some ip \<Rightarrow> Some \<lparr>addr_ip = (case ip of None \<Rightarrow> replicate 4 0 | Some bs \<Rightarrow> bs),
                                      addr_port = port\<rparr>))"

end
