(* ===== verification/Net_Snapshot.thy ===== *)
theory Net_Snapshot
  imports Net
begin

text \<open>
  The sending half of \<^verbatim>\<open>net.c\<close>: the ring of snapshots (\<^verbatim>\<open>snapshot_entities\<close>), the delta against the
  snapshot the peer acknowledged (\<^verbatim>\<open>packet_add_entities\<close>) and \<^verbatim>\<open>packet_send\<close>; the snapshot format as
  lists of entries, and the theorem that a delta and the acknowledged snapshot give the current
  snapshot back.
\<close>

section \<open>Snapshots\<close>

text \<open>
  The index \<^verbatim>\<open>sequence % _countof(net->snapshots)\<close>: \<^verbatim>\<open>_countof\<close> is a \<^verbatim>\<open>size_t\<close>, so the int is converted to
  64 unsigned bits first.  The index is in range for every sequence number; that of \<open>-1\<close>, the
  acknowledgement of a new connection, is 255.
\<close>

definition snapshot_index :: "i32 \<Rightarrow> int" where
  "snapshot_index s = int (unat (scast s :: u64) mod k_max_snapshots)"

definition entity_header :: "i32 \<Rightarrow> i32 \<Rightarrow> bytes" where
  "entity_header type s = le32 type @ le32 s"

definition k_entity_header_size :: nat where "k_entity_header_size = 8"

text \<open>The replicated components of one entity, one after the other.\<close>

fun copy_components :: "mem \<Rightarrow> ecs_t \<Rightarrow> ecs_entity_ref_t \<Rightarrow> nat list \<Rightarrow> bytes outcome" where
  "copy_components m e ref [] = Inr []"
| "copy_components m e ref (c # cs) =
     bind_ok (ecs_entity_get_component e ref (int c) True) (\<lambda>p.
     bind_ok (ecs_get_component_type_size e (int c)) (\<lambda>z.
     bind_ok (mem_read m p (unat z)) (\<lambda>bs.
     bind_ok (copy_components m e ref cs) (\<lambda>rest. Inr (bs @ rest)))))"

text \<open>The loop over the registered entities; \<open>out\<close> is what has been written.  It ends at the first
  reference that is not valid; an entity that does not fit is left out.\<close>

fun snapshot_loop :: "mem \<Rightarrow> ecs_t \<Rightarrow> entity_type_t list \<Rightarrow> entity_data_t list \<Rightarrow> bytes \<Rightarrow> bytes outcome" where
  "snapshot_loop m e types [] out = Inr out"
| "snapshot_loop m e types (d # ds) out =
     bind_ok (ecs_is_entity_ref_valid e (ed_ref d) True) (\<lambda>v.
       if \<not> v then Inr out
       else bind_ok (array_get types (sint (ed_type d))) (\<lambda>et.
         if et_replicated_size et + word_of_nat k_entity_header_size < word_of_nat (k_net_mtu - length out)
         then bind_ok (copy_components m e (ed_ref d) (mask_bits (et_replicated_component_mask et))) (\<lambda>bs.
                let out' = out @ entity_header (ed_type d) (ref_sequence (ed_ref d)) @ bs
                in if length out' \<le> k_net_mtu then snapshot_loop m e types ds out' else Inl Out_of_bounds)
         else snapshot_loop m e types ds out))"

definition snapshot_entities :: "mem \<Rightarrow> ecs_t \<Rightarrow> net_t \<Rightarrow> net_t outcome" where
  "snapshot_entities m e net =
     bind_ok (array_get (net_snapshots net) (snapshot_index (net_sequence net))) (\<lambda>sn.
     bind_ok (snapshot_loop m e (net_entity_types net) (net_entities net) []) (\<lambda>out.
     bind_ok (array_set (net_snapshots net) (snapshot_index (net_sequence net))
        \<lparr>sn_sequence = net_sequence net, sn_size = word_of_nat (length out),
         sn_data = out @ drop (length out) (sn_data sn)\<rparr>) (\<lambda>sns.
       Inr (net\<lparr>net_snapshots := sns\<rparr>))))"

section \<open>Deltas\<close>

definition read_at :: "bytes \<Rightarrow> nat \<Rightarrow> nat \<Rightarrow> bytes outcome" where
  "read_at bs pos n = (if pos + n \<le> length bs then Inr (take n (drop pos bs)) else Inl Out_of_bounds)"

text \<open>The loop of \<^verbatim>\<open>packet_add_entities\<close>: \<open>pos\<close> and \<open>apos\<close> are the iterators over the data of the
  current and of the acknowledged snapshot; the result is what is written to the packet.\<close>

function (sequential) delta_loop ::
    "entity_type_t list \<Rightarrow> bytes \<Rightarrow> nat \<Rightarrow> nat \<Rightarrow> bytes \<Rightarrow> nat \<Rightarrow> nat \<Rightarrow> bytes outcome" where
  "delta_loop types cur pos cend ack apos aend =
     (if cend \<le> pos then Inr []
      else bind_ok (read_at cur pos k_entity_header_size) (\<lambda>hdr.
           bind_ok (array_get types (sint (of_le32 (take 4 hdr)))) (\<lambda>et.
           let ent_size = unat (et_replicated_size et)
           in bind_ok (if apos < aend
                       then bind_ok (read_at ack apos k_entity_header_size) (\<lambda>ahdr.
                              if drop 4 ahdr = drop 4 hdr
                              then bind_ok (read_at cur (pos + k_entity_header_size) ent_size) (\<lambda>p.
                                   bind_ok (read_at ack (apos + k_entity_header_size) ent_size) (\<lambda>q.
                                     Inr (p \<noteq> q, apos + k_entity_header_size + ent_size)))
                              else Inr (True, apos))
                       else Inr (True, apos)) (\<lambda>(diff, apos').
              bind_ok (if diff then read_at cur (pos + k_entity_header_size) ent_size else Inr []) (\<lambda>payload.
              bind_ok (delta_loop types cur (pos + k_entity_header_size + ent_size) cend ack apos' aend) (\<lambda>rest.
                Inr (hdr @ [if diff then 1 else 0] @ payload @ rest)))))))"
  by pat_completeness auto
termination
  by (relation "measure (\<lambda>(types, cur, pos, cend, ack, apos, aend). cend - pos)")
    (simp_all add: k_entity_header_size_def)

declare delta_loop.simps [simp del]

definition snapshot_at :: "net_t \<Rightarrow> i32 \<Rightarrow> snapshot_t outcome" where
  "snapshot_at net s = array_get (net_snapshots net) (snapshot_index s)"

definition packet_add_entities :: "net_t \<Rightarrow> connection_t \<Rightarrow> bytes outcome" where
  "packet_add_entities net c =
     bind_ok (snapshot_at net (net_sequence net)) (\<lambda>cur.
     bind_ok (snapshot_at net (c_ack_sequence c)) (\<lambda>ack.
       let aend = nat (sint (sn_size ack));
           apos = (if sn_sequence ack \<noteq> c_ack_sequence c then aend else 0)
       in delta_loop (net_entity_types net) (sn_data cur) 0 (nat (sint (sn_size cur)))
            (sn_data ack) apos aend))"

section \<open>Sending\<close>

definition sizeof_packet_t :: nat where "sizeof_packet_t = 1028"

definition packet_header :: "i32 \<Rightarrow> i32 \<Rightarrow> bytes" where
  "packet_header s ack = le32 s @ le32 ack"

text \<open>The packet is written through its pointer: what goes past its block is \<open>Out_of_bounds\<close>.  A full
  send queue makes the call wait (\<open>Inr None\<close>).\<close>

definition packet_send :: "mem \<Rightarrow> net_t \<Rightarrow> connection_t \<Rightarrow> (mem \<times> connection_t) option outcome" where
  "packet_send m net c =
     (let (m1, p) = heap_alloc m sizeof_packet_t 8
      in case p of None \<Rightarrow> Inl Null_deref
         | Some (b, off) \<Rightarrow>
      bind_ok (mem_write m1 (Some (b, off + 4)) (packet_header (net_sequence net) (c_incoming_sequence c))) (\<lambda>m2.
      bind_ok (packet_add_entities net c) (\<lambda>body.
      bind_ok (mem_write m2 (Some (b, off + 12)) body) (\<lambda>m3.
      bind_ok (mem_write m3 p (le32 (word_of_nat (8 + length body)))) (\<lambda>m4.
      case c_send_queue c of None \<Rightarrow> Inl Null_deref
      | Some q \<Rightarrow> bind_ok (queue_push q p) (\<lambda>r.
          Inr (map_option (\<lambda>q'. (m4, c\<lparr>c_send_queue := Some q'\<rparr>)) r)))))))"

text \<open>One turn of the send thread's loop: pop, \<^verbatim>\<open>sendto\<close> (the parameter gives its result), release.
  A null packet or a result that is not positive ends the loop for good.\<close>

definition send_thread_func :: "(bytes \<Rightarrow> int) \<Rightarrow> mem \<Rightarrow> connection_t \<Rightarrow> (mem \<times> connection_t) option outcome" where
  "send_thread_func sendto m c =
     (if \<not> c_send_thread c then Inr None
      else case c_send_queue c of None \<Rightarrow> Inl Null_deref
      | Some q \<Rightarrow> bind_ok (queue_pop q) (\<lambda>r.
          case r of None \<Rightarrow> Inr None
          | Some (q', None) \<Rightarrow> Inr (Some (m, c\<lparr>c_send_queue := Some q', c_send_thread := False\<rparr>))
          | Some (q', Some (b, off)) \<Rightarrow>
              bind_ok (mem_read m (Some (b, off)) 4) (\<lambda>sz.
              bind_ok (mem_read m (Some (b, off + 4)) (nat (sint (of_le32 sz)))) (\<lambda>data.
              bind_ok (heap_free m (Some (b, off))) (\<lambda>m'.
                Inr (Some (m', c\<lparr>c_send_queue := Some q', c_send_thread := 0 < sendto data\<rparr>)))))))"

section \<open>The format as entries\<close>

text \<open>Type, sequence number and replicated bytes of one entity.\<close>

type_synonym entry = "i32 \<times> i32 \<times> bytes"

fun enc_entry :: "entry \<Rightarrow> bytes" where
  "enc_entry (t, s, p) = entity_header t s @ p"

definition enc_entries :: "entry list \<Rightarrow> bytes" where
  "enc_entries es = concat (map enc_entry es)"

definition entry_ok :: "entity_type_t list \<Rightarrow> entry \<Rightarrow> bool" where
  "entry_ok types en \<longleftrightarrow> (case en of (t, s, p) \<Rightarrow>
     0 \<le> sint t \<and> sint t < int (length types) \<and>
     length p = unat (et_replicated_size (types ! nat (sint t))))"

text \<open>A delta entry has its bytes only if they are not those of the acknowledged snapshot.\<close>

type_synonym delta_entry = "i32 \<times> i32 \<times> bytes option"

fun enc_delta_entry :: "delta_entry \<Rightarrow> bytes" where
  "enc_delta_entry (t, s, None) = entity_header t s @ [0]"
| "enc_delta_entry (t, s, Some p) = entity_header t s @ [1] @ p"

definition enc_delta :: "delta_entry list \<Rightarrow> bytes" where
  "enc_delta ds = concat (map enc_delta_entry ds)"

fun make_delta :: "entry list \<Rightarrow> entry list \<Rightarrow> delta_entry list" where
  "make_delta [] acks = []"
| "make_delta ((t, s, p) # cs) [] = (t, s, Some p) # make_delta cs []"
| "make_delta ((t, s, p) # cs) ((t', s', p') # as) =
     (if s' = s then (t, s, if p = p' then None else Some p) # make_delta cs as
      else (t, s, Some p) # make_delta cs ((t', s', p') # as))"

text \<open>What a peer that holds the acknowledged entries makes of a delta.\<close>

definition apply_delta :: "entry list \<Rightarrow> delta_entry list \<Rightarrow> entry list" where
  "apply_delta acks ds = map (\<lambda>(t, s, p).
     (t, s, case p of Some bs \<Rightarrow> bs | None \<Rightarrow> (case map_of (map (\<lambda>(t, s, p). (s, p)) acks) s of
        Some bs \<Rightarrow> bs | None \<Rightarrow> []))) ds"

lemma le32_eq_iff [simp]: "le32 a = le32 b \<longleftrightarrow> a = b"
  by (metis of_le32_le32)

lemma entity_header_parts [simp]:
  "length (entity_header t s) = k_entity_header_size"
  "take 4 (entity_header t s) = le32 t" "drop 4 (entity_header t s) = le32 s"
  by (simp_all add: entity_header_def k_entity_header_size_def)

lemma enc_entries_simps [simp]:
  "enc_entries [] = []"
  "enc_entries ((t, s, p) # es) = entity_header t s @ p @ enc_entries es"
  by (simp_all add: enc_entries_def)

lemma enc_delta_simps [simp]:
  "enc_delta [] = []" "enc_delta (d # ds) = enc_delta_entry d @ enc_delta ds"
  by (simp_all add: enc_delta_def)

lemma read_at_here [simp]:
  "length ys = n \<Longrightarrow> pos = length xs \<Longrightarrow> read_at (xs @ ys @ zs) pos n = Inr ys"
  by (simp add: read_at_def)

lemma header_size_pos: "0 < k_entity_header_size"
  by (simp add: k_entity_header_size_def)

definition same_types :: "entry list \<Rightarrow> entry list \<Rightarrow> bool" where
  "same_types cs as \<longleftrightarrow> (\<forall>(t, s, p) \<in> set cs. \<forall>(t', s', p') \<in> set as. s' = s \<longrightarrow> t' = t)"

lemma delta_loop_refines:
  assumes "\<forall>en \<in> set cs. entry_ok types en" and "\<forall>en \<in> set as. entry_ok types en" and "same_types cs as"
    and "pos = length cpre" and "cend = pos + length (enc_entries cs)"
    and "apos = length apre" and "aend = apos + length (enc_entries as)"
  shows "delta_loop types (cpre @ enc_entries cs @ cpost) pos cend (apre @ enc_entries as @ apost) apos aend =
    Inr (enc_delta (make_delta cs as))"
  using assms
proof (induction cs arbitrary: cpre pos as apre apos)
  case Nil
  then show ?case by (simp add: delta_loop.simps)
next
  case (Cons c cs)
  obtain t s p where c: "c = (t, s, p)" by (cases c)
  let ?n = "unat (et_replicated_size (types ! nat (sint t)))"
  let ?h = "entity_header t s"
  let ?cur = "cpre @ enc_entries (c # cs) @ cpost"
  let ?ack = "apre @ enc_entries as @ apost"
  have okc: "0 \<le> sint t" "sint t < int (length types)" "length p = ?n"
    using Cons.prems(1) by (simp_all add: c entry_ok_def)
  have ty: "array_get types (sint t) = Inr (types ! nat (sint t))" using okc by (simp add: array_get_def)
  have more: "\<not> cend \<le> pos" using Cons.prems(5) header_size_pos by (simp add: c)
  have rh: "read_at ?cur pos k_entity_header_size = Inr ?h"
    using read_at_here [of ?h k_entity_header_size pos cpre "p @ enc_entries cs @ cpost"] Cons.prems(4) by (simp add: c)
  have rp: "read_at ?cur (pos + k_entity_header_size) ?n = Inr p"
    using read_at_here [of p ?n "pos + k_entity_header_size" "cpre @ ?h" "enc_entries cs @ cpost"] Cons.prems(4) okc
    by (simp add: c)
  have step: "delta_loop types ?cur pos cend ?ack apos aend =
      bind_ok (if apos < aend
               then bind_ok (read_at ?ack apos k_entity_header_size) (\<lambda>ahdr.
                      if drop 4 ahdr = le32 s
                      then bind_ok (read_at ?ack (apos + k_entity_header_size) ?n) (\<lambda>q.
                             Inr (p \<noteq> q, apos + k_entity_header_size + ?n))
                      else Inr (True, apos))
               else Inr (True, apos)) (\<lambda>(diff, apos').
        bind_ok (delta_loop types ?cur (pos + k_entity_header_size + ?n) cend ?ack apos' aend) (\<lambda>rest.
          Inr (?h @ [if diff then 1 else 0] @ (if diff then p else []) @ rest)))"
    using more rh rp ty
    by (subst delta_loop.simps) (simp add: Let_def bind_ok_assoc if_distrib [where f = "\<lambda>x. bind_ok x _"]
        case_prod_unfold cong: if_cong, auto intro!: bind_ok_cong)
  have next': "delta_loop types ?cur (pos + k_entity_header_size + ?n) cend (apre' @ enc_entries as' @ apost) apos' aend =
      Inr (enc_delta (make_delta cs as'))"
    if "\<forall>en \<in> set as'. entry_ok types en" "same_types cs as'" "apos' = length apre'"
      "aend = apos' + length (enc_entries as')" for as' apre' apos'
    using Cons.IH [of as' "pos + k_entity_header_size + ?n" "cpre @ ?h @ p" apos' apre'] Cons.prems(1,4,5) okc that
    by (simp add: c)
  show ?case
  proof (cases as)
    case Nil
    have "same_types cs []" by (simp add: same_types_def)
    then show ?thesis
      using step next' [of "[]" apos apre] Cons.prems(6,7) Nil by (simp add: c)
  next
    case (Cons a as')
    obtain t' s' p' where a: "a = (t', s', p')" by (cases a)
    have sty: "same_types cs as" "same_types cs as'" "s' = s \<Longrightarrow> t' = t"
      using Cons.prems(3) by (auto simp: same_types_def c Cons a)
    have less: "apos < aend" using Cons.prems(7) header_size_pos by (simp add: Cons a)
    have rah: "read_at ?ack apos k_entity_header_size = Inr (entity_header t' s')"
      using read_at_here [of "entity_header t' s'" k_entity_header_size apos apre "p' @ enc_entries as' @ apost"]
        Cons.prems(6) by (simp add: Cons a)
    show ?thesis
    proof (cases "s' = s")
      case False
      have "delta_loop types ?cur (pos + k_entity_header_size + ?n) cend ?ack apos aend = Inr (enc_delta (make_delta cs as))"
        using next' [of as apos apre] Cons.prems(2,6,7) sty(1) by simp
      then show ?thesis using step less rah False by (simp add: c Cons a)
    next
      case True
      have lp: "length p' = ?n" using Cons.prems(2) sty(3) [OF True] by (simp add: Cons a entry_ok_def)
      have rap: "read_at ?ack (apos + k_entity_header_size) ?n = Inr p'"
        using read_at_here [of p' ?n "apos + k_entity_header_size" "apre @ entity_header t' s'" "enc_entries as' @ apost"]
          Cons.prems(6) lp by (simp add: Cons a)
      have "delta_loop types ?cur (pos + k_entity_header_size + ?n) cend ?ack (apos + k_entity_header_size + ?n) aend =
          Inr (enc_delta (make_delta cs as'))"
        using next' [of as' "apos + k_entity_header_size + ?n" "apre @ entity_header t' s' @ p'"]
          Cons.prems(2,6,7) sty(2) lp by (simp add: Cons a)
      then show ?thesis using step less rah rap True by (simp add: c Cons a)
    qed
  qed
qed

lemma apply_make_delta:
  assumes "distinct (map (\<lambda>(t, s, p). s) acks)" and "set as \<subseteq> set acks"
  shows "apply_delta acks (make_delta cs as) = cs"
  using assms(2)
proof (induction cs as rule: make_delta.induct)
  case (3 t s p cs t' s' p' as)
  have "map_of (map (\<lambda>(t, s, p). (s, p)) acks) s' = Some p'"
  proof (rule map_of_is_SomeI)
    show "distinct (map fst (map (\<lambda>(t, s, p). (s, p)) acks))"
      using assms(1) by (simp add: comp_def case_prod_unfold)
    show "(s', p') \<in> set (map (\<lambda>(t, s, p). (s, p)) acks)" using 3(3) by force
  qed
  with 3 show ?case by (auto simp: apply_delta_def)
qed (simp_all add: apply_delta_def)

lemma apply_make_delta_none: "apply_delta [] (make_delta cs []) = cs"
  by (rule apply_make_delta) simp_all

lemma length_enc_delta: "length (enc_delta (make_delta cs as)) \<le> length (enc_entries cs) + length cs"
  by (induction cs as rule: make_delta.induct) auto

lemma length_enc_delta_full: "length (enc_delta (make_delta cs [])) = length (enc_entries cs) + length cs"
  by (induction cs) auto

section \<open>What a snapshot holds\<close>

definition snapshot_holds :: "entity_type_t list \<Rightarrow> snapshot_t \<Rightarrow> entry list \<Rightarrow> bool" where
  "snapshot_holds types sn es \<longleftrightarrow> (\<forall>en \<in> set es. entry_ok types en) \<and>
     (\<exists>rest. sn_data sn = enc_entries es @ rest) \<and> sint (sn_size sn) = int (length (enc_entries es)) \<and>
     length (enc_entries es) \<le> k_net_mtu"

text \<open>The entry of a registered entity.\<close>

definition entity_entry :: "mem \<Rightarrow> ecs_t \<Rightarrow> entity_type_t list \<Rightarrow> entity_data_t \<Rightarrow> entry \<Rightarrow> bool" where
  "entity_entry m e types d en \<longleftrightarrow>
     (\<exists>bs. en = (ed_type d, ref_sequence (ed_ref d), bs) \<and>
       ecs_is_entity_ref_valid e (ed_ref d) True = Inr True \<and>
       copy_components m e (ed_ref d)
         (mask_bits (et_replicated_component_mask (types ! nat (sint (ed_type d))))) = Inr bs)"

text \<open>The entities the loop reaches: those before the first reference that is not valid.\<close>

definition live_prefix :: "ecs_t \<Rightarrow> entity_data_t list \<Rightarrow> entity_data_t list" where
  "live_prefix e ds = takeWhile (\<lambda>d. ecs_is_entity_ref_valid e (ed_ref d) True = Inr True) ds"

lemma live_prefix_simps [simp]:
  "live_prefix e [] = []"
  "ecs_is_entity_ref_valid e (ed_ref d) True = Inr True \<Longrightarrow> live_prefix e (d # ds) = d # live_prefix e ds"
  by (simp_all add: live_prefix_def)

end
