(* ===== verification/Net_Recv.thy ===== *)
theory Net_Recv
  imports Net_Snapshot Ecs_Store
begin

text \<open>
  The receiving half of \<^verbatim>\<open>net.c\<close>: reading the entities of a packet (\<^verbatim>\<open>packet_read_entities\<close>), the
  packets of a connection in turn (\<^verbatim>\<open>packet_recv\<close>), the receiving thread's loop and the frame
  (\<^verbatim>\<open>net_update\<close>).  The configure callbacks are code of the game: a parameter \<open>call\<close> of the model.
\<close>

section \<open>Reading a packet\<close>

type_synonym callback = "nat \<Rightarrow> mem \<times> ecs_t \<Rightarrow> ecs_entity_ref_t \<Rightarrow> i32 \<Rightarrow> (mem \<times> ecs_t) outcome"

text \<open>The first entity of the connection with this remote sequence number is marked as seen.\<close>

definition known_entity :: "i32 \<Rightarrow> entity_data_t list \<Rightarrow> i32 \<Rightarrow> ecs_entity_ref_t \<times> entity_data_t list" where
  "known_entity sequence es s =
     (case find_from (\<lambda>i. ed_remote_sequence (es ! i) = s) 0 (length es) of
        Some i \<Rightarrow> (ed_ref (es ! i), es[i := (es ! i)\<lparr>ed_last_recved_sequence := sequence\<rparr>])
      | None \<Rightarrow> (\<lparr>ref_entity = -1, ref_sequence = 0\<rparr>, es))"

text \<open>An entity that is not known, or no longer there, is created, configured by the callback of its
  type, and remembered in the first slot whose reference is not valid, if there is one.\<close>

definition spawn_entity :: "callback \<Rightarrow> entity_type_t list \<Rightarrow> i32 \<Rightarrow> mem \<times> ecs_t \<times> entity_data_t list \<Rightarrow> i32 \<Rightarrow> i32 \<Rightarrow>
    (mem \<times> ecs_t \<times> entity_data_t list \<times> ecs_entity_ref_t) outcome" where
  "spawn_entity call types sequence st t s =
     (case st of (m, e, es) \<Rightarrow>
      bind_ok (array_get types (sint t)) (\<lambda>et.
      case ecs_entity_add e (et_component_mask et) of (e1, ref) \<Rightarrow>
      (case et_configure_callback et of None \<Rightarrow> Inl Null_deref
       | Some f \<Rightarrow>
      bind_ok (call f (m, e1) ref t) (\<lambda>(m2, e2).
      bind_ok (first_invalid e2 es 0) (\<lambda>r.
        Inr (m2, e2,
             (case r of None \<Rightarrow> es
              | Some i \<Rightarrow> es[i := \<lparr>ed_ref = ref, ed_type = t, ed_remote_sequence = s,
                                  ed_last_recved_sequence = sequence\<rparr>]), ref))))))"

text \<open>The replicated components are copied from the packet (at \<open>pos\<close> of block \<open>b\<close>); the result has
  the number of bytes read.\<close>

fun write_components :: "mem \<Rightarrow> ecs_t \<Rightarrow> ecs_entity_ref_t \<Rightarrow> nat list \<Rightarrow> nat \<Rightarrow> nat \<Rightarrow> (mem \<times> nat) outcome" where
  "write_components m e ref [] b pos = Inr (m, 0)"
| "write_components m e ref (c # cs) b pos =
     bind_ok (ecs_entity_get_component e ref (int c) True) (\<lambda>p.
     bind_ok (ecs_get_component_type_size e (int c)) (\<lambda>z.
     bind_ok (mem_read m (Some (b, pos)) (unat z)) (\<lambda>bs.
     bind_ok (mem_write m p bs) (\<lambda>m'.
     bind_ok (write_components m' e ref cs b (pos + unat z)) (\<lambda>(m'', n). Inr (m'', unat z + n))))))"

text \<open>One entity: its header, the lookup, the flag byte and the components.  The result has the number
  of bytes read after the header and the flag.\<close>

definition read_entity :: "callback \<Rightarrow> entity_type_t list \<Rightarrow> i32 \<Rightarrow> mem \<times> ecs_t \<times> entity_data_t list \<Rightarrow> nat \<Rightarrow> nat \<Rightarrow>
    ((mem \<times> ecs_t \<times> entity_data_t list) \<times> nat) outcome" where
  "read_entity call types sequence st b pos =
     (case st of (m, e, es) \<Rightarrow>
      bind_ok (mem_read m (Some (b, pos)) k_entity_header_size) (\<lambda>hdr.
      let t = of_le32 (take 4 hdr); s = of_le32 (drop 4 hdr); (ref, es1) = known_entity sequence es s
      in bind_ok (ecs_is_entity_ref_valid e ref True) (\<lambda>v.
         bind_ok (if v then Inr (m, e, es1, ref) else spawn_entity call types sequence (m, e, es1) t s)
           (\<lambda>(m2, e2, es2, ref2).
         bind_ok (mem_read m2 (Some (b, pos + k_entity_header_size)) 1) (\<lambda>flag.
           if flag \<noteq> [0]
           then bind_ok (array_get types (sint t)) (\<lambda>et.
                bind_ok (write_components m2 e2 ref2 (mask_bits (et_replicated_component_mask et)) b
                    (pos + k_entity_header_size + 1)) (\<lambda>(m3, n).
                  Inr ((m3, e2, es2), n)))
           else Inr ((m2, e2, es2), 0))))))"

function (sequential) read_loop :: "callback \<Rightarrow> entity_type_t list \<Rightarrow> i32 \<Rightarrow> mem \<times> ecs_t \<times> entity_data_t list \<Rightarrow>
    nat \<Rightarrow> nat \<Rightarrow> int \<Rightarrow> (mem \<times> ecs_t \<times> entity_data_t list) outcome" where
  "read_loop call types sequence st b pos pend =
     (if pend \<le> int pos then Inr st
      else bind_ok (read_entity call types sequence st b pos) (\<lambda>(st', n).
             read_loop call types sequence st' b (pos + k_entity_header_size + 1 + n) pend))"
  by pat_completeness auto
termination
  by (relation "measure (\<lambda>(call, types, sequence, st, b, pos, pend). nat (pend - int pos))")
    (simp_all add: k_entity_header_size_def)

declare read_loop.simps [simp del]

text \<open>Entities that were not in the packet are removed.\<close>

fun remove_unseen :: "i32 \<Rightarrow> ecs_t \<Rightarrow> entity_data_t list \<Rightarrow> ecs_t outcome" where
  "remove_unseen sequence e [] = Inr e"
| "remove_unseen sequence e (d # ds) =
     bind_ok (ecs_is_entity_ref_valid e (ed_ref d) True) (\<lambda>v.
     bind_ok (if v \<and> ed_last_recved_sequence d \<noteq> sequence then ecs_entity_remove e (ed_ref d) True else Inr e) (\<lambda>e'.
       remove_unseen sequence e' ds))"

text \<open>\<open>pend\<close> is where the packet ends: for a packet shorter than its header that is before the start,
  and nothing is read.\<close>

definition packet_read_entities :: "callback \<Rightarrow> entity_type_t list \<Rightarrow> i32 \<Rightarrow> mem \<times> ecs_t \<times> entity_data_t list \<Rightarrow>
    nat \<Rightarrow> nat \<Rightarrow> int \<Rightarrow> (mem \<times> ecs_t \<times> entity_data_t list) outcome" where
  "packet_read_entities call types sequence st b pos pend =
     bind_ok (read_loop call types sequence st b pos pend) (\<lambda>(m, e, es).
     bind_ok (remove_unseen sequence e es) (\<lambda>e'. Inr (m, e', es)))"

section \<open>The packets of a connection\<close>

text \<open>One packet.  A packet that is not newer than the last one is passed over (and not released).\<close>

definition recv_packet :: "callback \<Rightarrow> net_t \<Rightarrow> mem \<times> ecs_t \<times> connection_t \<Rightarrow> nat \<Rightarrow> nat \<Rightarrow> int \<Rightarrow>
    (mem \<times> ecs_t \<times> connection_t) outcome" where
  "recv_packet call net st b off n =
     (case st of (m, e, c) \<Rightarrow>
      bind_ok (mem_read m (Some (b, off + 4)) 8) (\<lambda>hdr.
      let s = of_le32 (take 4 hdr); ack = of_le32 (drop 4 hdr)
      in if sint s \<le> sint (c_incoming_sequence c) then Inr st
         else bind_ok (packet_read_entities call (net_entity_types net) (net_sequence net) (m, e, c_entities c)
                b (off + 12) (int off + 4 + n)) (\<lambda>(m', e', es).
              bind_ok (heap_free m' (Some (b, off))) (\<lambda>m''.
                Inr (m'', e', c\<lparr>c_incoming_sequence := s, c_ack_sequence := ack, c_entities := es\<rparr>)))))"

lemma queue_try_pop_count:
  "queue_try_pop q = Inr (q', Some x) \<Longrightarrow> sem_count (used_items q') < sem_count (used_items q)"
  by (auto simp: queue_try_pop_def semaphore_try_acquire_def queue_take_def bind_ok_Inr_iff Let_def
      case_prod_unfold split: if_split_asm)

function (sequential) packet_recv_loop :: "callback \<Rightarrow> net_t \<Rightarrow> mem \<times> ecs_t \<times> connection_t \<Rightarrow>
    ptr option queue_t \<Rightarrow> (mem \<times> ecs_t \<times> connection_t) outcome" where
  "packet_recv_loop call net st q =
     bind_ok (queue_try_pop q) (\<lambda>(q', r).
       let done = (case st of (m, e, c) \<Rightarrow> Inr (m, e, c\<lparr>c_recv_queue := Some q'\<rparr>))
       in case r of
            None \<Rightarrow> done
          | Some None \<Rightarrow> done
          | Some (Some (b, off)) \<Rightarrow>
              bind_ok (mem_read (fst st) (Some (b, off)) 4) (\<lambda>sz.
                if of_le32 sz = 0 then done
                else bind_ok (recv_packet call net st b off (sint (of_le32 sz))) (\<lambda>st'.
                       packet_recv_loop call net st' q')))"
  by pat_completeness auto
termination
  by (relation "measure (\<lambda>(call, net, st, q). sem_count (used_items q))") (auto dest: queue_try_pop_count)

declare packet_recv_loop.simps [simp del]

definition packet_recv :: "callback \<Rightarrow> net_t \<Rightarrow> mem \<times> ecs_t \<times> connection_t \<Rightarrow> (mem \<times> ecs_t \<times> connection_t) outcome" where
  "packet_recv call net st =
     (case c_recv_queue (snd (snd st)) of None \<Rightarrow> Inl Null_deref
      | Some q \<Rightarrow> packet_recv_loop call net st q)"

section \<open>The receiving thread\<close>

text \<open>
  One turn of its loop.  \<open>recvfrom\<close> is the datagram that arrives and its sender, or nothing when the
  call fails because the socket is closed; it also fails for a datagram that is longer than the
  buffer, and when there is no buffer.  The last component of the result is whether the thread
  goes on.
\<close>

definition recv_thread_func :: "u32 \<Rightarrow> (bytes \<times> net_address_t) option \<Rightarrow> mem \<Rightarrow> net_t \<Rightarrow>
    (mem \<times> net_t \<times> bool) outcome" where
  "recv_thread_func now recvfrom m net =
     (case heap_alloc m sizeof_packet_t 8 of
        (m1, None) \<Rightarrow> Inr (m1, net, False)
      | (m1, Some (b, off)) \<Rightarrow>
          (case recvfrom of
             None \<Rightarrow> bind_ok (heap_free m1 (Some (b, off))) (\<lambda>m2. Inr (m2, net, False))
           | Some (data, address) \<Rightarrow>
               if data = [] \<or> k_net_mtu < length data
               then bind_ok (heap_free m1 (Some (b, off))) (\<lambda>m2. Inr (m2, net, False))
               else bind_ok (mem_write m1 (Some (b, off + 4)) data) (\<lambda>m2.
               bind_ok (mem_write m2 (Some (b, off)) (le32 (word_of_nat (length data)))) (\<lambda>m3.
               case find_or_create_connection now net address of
                 (net1, None) \<Rightarrow> bind_ok (heap_free m3 (Some (b, off))) (\<lambda>m4. Inr (m4, net1, True))
               | (net1, Some i) \<Rightarrow>
                   let c = (net_connections net1 ! i)\<lparr>c_last_recv_ms := now\<rparr>
                   in (case c_recv_queue c of None \<Rightarrow> Inl Null_deref
                       | Some q \<Rightarrow> bind_ok (queue_try_push q (Some (b, off))) (\<lambda>(q', _).
                           Inr (m3, net1\<lparr>net_connections := (net_connections net1)[i := c\<lparr>c_recv_queue := Some q'\<rparr>]\<rparr>,
                                True)))))))"

section \<open>The frame\<close>

text \<open>Sending and receiving for the connections in turn; \<open>Inr None\<close> is waiting for ever.\<close>

fun update_connections :: "callback \<Rightarrow> nat list \<Rightarrow> mem \<times> ecs_t \<times> net_t \<Rightarrow> (mem \<times> ecs_t \<times> net_t) option outcome" where
  "update_connections call [] st = Inr (Some st)"
| "update_connections call (i # is) (m, e, net) =
     (if addr_port (c_address (net_connections net ! i)) = 0 then update_connections call is (m, e, net)
      else bind_ok (packet_send m net (net_connections net ! i)) (\<lambda>r.
        case r of None \<Rightarrow> Inr None
        | Some (m1, c1) \<Rightarrow> bind_ok (packet_recv call net (m1, e, c1)) (\<lambda>(m2, e2, c2).
            update_connections call is (m2, e2, net\<lparr>net_connections := (net_connections net)[i := c2]\<rparr>))))"

definition net_update :: "u32 \<Rightarrow> callback \<Rightarrow> mem \<times> ecs_t \<times> net_t \<Rightarrow> (mem \<times> ecs_t \<times> net_t) option outcome" where
  "net_update now call st =
     (case st of (m, e, net) \<Rightarrow>
      bind_ok (timeout_old_connections now net) (\<lambda>r.
        case r of None \<Rightarrow> Inr None
        | Some net1 \<Rightarrow>
      bind_ok (snapshot_entities m e net1) (\<lambda>net2.
      bind_ok (update_connections call [0..<k_max_connections] (m, e, net2)) (\<lambda>r'.
        Inr (map_option (\<lambda>(m', e', net'). (m', e', net'\<lparr>net_sequence := net_sequence net' + 1\<rparr>)) r')))))"

end
