(* ===== verification/Net_Props.thy ===== *)
theory Net_Props
  imports Net_Snapshot
begin

text \<open>
  Properties of the sending half and of the connection table: what the slots of the snapshot ring
  hold (\<open>Net_Ring\<close> proves that they do in every reachable state), the reconstruction of a snapshot from a delta, what a peer that has acknowledged nothing is sent,
  the packet that does not fit, the sender that has stopped, and the identity of connections.
\<close>

section \<open>The ring of snapshots\<close>

text \<open>\<open>ty\<close> assigns a type to every sequence number an entity of the table has had.\<close>

definition entries_typed :: "(i32 \<Rightarrow> i32) \<Rightarrow> entry list \<Rightarrow> bool" where
  "entries_typed ty es \<longleftrightarrow> (\<forall>(t, s, p) \<in> set es. t = ty s) \<and> distinct (map (\<lambda>(t, s, p). s) es)"

definition snapshots_inv :: "(i32 \<Rightarrow> i32) \<Rightarrow> net_t \<Rightarrow> bool" where
  "snapshots_inv ty net \<longleftrightarrow> length (net_snapshots net) = k_max_snapshots \<and>
     (\<forall>sn \<in> set (net_snapshots net). \<exists>es. snapshot_holds (net_entity_types net) sn es \<and> entries_typed ty es)"

text \<open>The slot of a sequence number.\<close>

abbreviation ring_slot :: "i32 \<Rightarrow> nat" where
  "ring_slot s \<equiv> unat (scast s :: u64) mod k_max_snapshots"

lemma ring_slot_less: "ring_slot s < k_max_snapshots"
  by (simp add: k_max_snapshots_def)

lemma ring_slot_unacknowledged: "ring_slot (-1) = 255"
  by (simp add: k_max_snapshots_def unsigned_minus_1_eq_mask mask_eq_exp_minus_1)

lemma ring_slot_nonneg:
  assumes "0 \<le> sint s"
  shows "ring_slot s = nat (sint s) mod k_max_snapshots"
proof -
  have "sint s < 2 ^ 64" using sint_lt [of s] by simp
  then have "sint s mod 2 ^ 64 = sint s" using assms by (intro mod_pos_pos_trivial)
  then have "uint (word_of_int (sint s) :: u64) = sint s" unfolding uint_word_of_int by simp
  then have "unat (scast s :: u64) = nat (sint s)" unfolding scast_eq by (metis nat_uint_eq)
  then show ?thesis by simp
qed

lemma snapshot_at_slot:
  "length (net_snapshots net) = k_max_snapshots \<Longrightarrow> snapshot_at net s = Inr (net_snapshots net ! ring_slot s)"
  using ring_slot_less [of s] by (simp add: snapshot_at_def snapshot_index_def)

lemma snapshots_inv_update:
  assumes "snapshots_inv ty net" and "snapshot_holds (net_entity_types net) sn es" and "entries_typed ty es"
    and "net' = net\<lparr>net_snapshots := (net_snapshots net)[i := sn]\<rparr>"
  shows "snapshots_inv ty net'"
  using assms set_update_subset_insert [of "net_snapshots net" i sn]
  by (fastforce simp: snapshots_inv_def)

text \<open>An entity system and a type table with one component of 4 bytes, for the concrete runs.\<close>

definition demo_ecs :: ecs_t where
  "demo_ecs = (ecs_cleared None)\<lparr>sequences := 1 # replicate 511 0,
     entity_states := k_entity_active # replicate 511 k_entity_unused,
     components := Some (0, 0) # replicate 63 None, component_type_sizes := 4 # replicate 63 0\<rparr>"

definition demo_types :: "entity_type_t list" where
  "demo_types = \<lparr>et_component_mask = 1, et_replicated_component_mask = 1, et_configure_callback = Some 0,
     et_replicated_size = 4\<rparr> # replicate 31 entity_type_zero"

lemma mask_bits_one: "mask_bits 1 = [0]" and mask_bits_zero: "mask_bits 0 = []"
proof -
  have "filter (bit (1 :: u64)) [Suc 0..<64] = []" by (simp add: bit_1_iff filter_empty_conv)
  then show "mask_bits 1 = [0]" by (simp add: mask_bits_def upt_conv_Cons [of 0])
  show "mask_bits 0 = []" by (simp add: mask_bits_def filter_empty_conv)
qed

lemma net_create_ok:
  assumes "sizeof_net_t \<le> os_avail m"
  shows "\<exists>m'. net_create m = Inr (m', net_cleared (Some (next_block m, 0)))"
proof -
  obtain m1 p where a: "heap_alloc m sizeof_net_t 8 = (m1, p)" by (cases "heap_alloc m sizeof_net_t 8")
  have "0 < sizeof_net_t" by (simp add: sizeof_net_t_def)
  from alloc_clear [OF this assms a] show ?thesis by (simp add: net_create_def a)
qed

section \<open>Packets\<close>

lemma entries_typed_same: "entries_typed ty cs \<Longrightarrow> entries_typed ty as \<Longrightarrow> same_types cs as"
  by (fastforce simp: entries_typed_def same_types_def)

text \<open>The loop over two snapshots, the second one from its start or from its end.\<close>

lemma delta_loop_snapshots:
  assumes "snapshot_holds types sn cs" and "entries_typed ty cs"
    and "snapshot_holds types asn as" and "entries_typed ty as"
  shows "delta_loop types (sn_data sn) 0 (nat (sint (sn_size sn))) (sn_data asn) 0 (nat (sint (sn_size asn))) =
    Inr (enc_delta (make_delta cs as))"
proof -
  from assms(1) obtain rest where "sn_data sn = enc_entries cs @ rest" by (auto simp: snapshot_holds_def)
  moreover from assms(3) obtain rest' where "sn_data asn = enc_entries as @ rest'" by (auto simp: snapshot_holds_def)
  ultimately show ?thesis
    using delta_loop_refines [of cs types as 0 "[]" _ 0 "[]" _ rest rest'] assms entries_typed_same [OF assms(2,4)]
    by (simp add: snapshot_holds_def)
qed

lemma delta_loop_full:
  assumes "snapshot_holds types sn cs"
  shows "delta_loop types (sn_data sn) 0 (nat (sint (sn_size sn))) ack aend aend = Inr (enc_delta (make_delta cs []))"
proof -
  have "delta_loop types cur pos cend ack aend aend = delta_loop types cur pos cend [] 0 0" for cur pos cend
  proof (induction "cend - pos" arbitrary: pos rule: less_induct)
    case less
    show ?case
      by (subst (1 2) delta_loop.simps) (auto simp: k_entity_header_size_def Let_def intro!: bind_ok_cong less)
  qed
  moreover from assms obtain rest where "sn_data sn = enc_entries cs @ rest" by (auto simp: snapshot_holds_def)
  ultimately show ?thesis
    using delta_loop_refines [of cs types "[]" 0 "[]" _ 0 "[]" 0 rest "[]"] assms
    by (simp add: snapshot_holds_def same_types_def)
qed

lemma packet_add_entities_delta:
  assumes "snapshot_at net (net_sequence net) = Inr sn"
    and "snapshot_holds (net_entity_types net) sn cs" and "entries_typed ty cs"
    and "snapshot_at net (c_ack_sequence c) = Inr asn"
    and "snapshot_holds (net_entity_types net) asn as" and "entries_typed ty as"
  shows "packet_add_entities net c =
    Inr (enc_delta (make_delta cs (if sn_sequence asn = c_ack_sequence c then as else [])))"
  using assms delta_loop_snapshots [OF assms(2,3,5,6)] delta_loop_full [OF assms(2)]
  by (simp add: packet_add_entities_def Let_def)

lemma snapshots_inv_slot:
  assumes "snapshots_inv ty net"
  shows "\<exists>sn es. snapshot_at net s = Inr sn \<and> snapshot_holds (net_entity_types net) sn es \<and> entries_typed ty es"
proof -
  have "length (net_snapshots net) = k_max_snapshots" using assms(1) by (simp add: snapshots_inv_def)
  with snapshot_at_slot [OF this] ring_slot_less [of s] assms show ?thesis
    by (auto simp: snapshots_inv_def)
qed

text \<open>
  C19.  A delta reconstructs the snapshot: in a well-formed ring the body of a packet is the
  encoding of a delta that, applied to the entries of the snapshot the peer acknowledged if the
  ring still has it, and to nothing otherwise, gives exactly the entries of the current snapshot;
  it is at most one byte per entity longer than the snapshot.
\<close>

theorem delta_reconstructs_snapshot:
  assumes inv: "snapshots_inv ty net"
  shows "\<exists>sn asn cs as ds. snapshot_at net (net_sequence net) = Inr sn \<and> snapshot_holds (net_entity_types net) sn cs \<and>
    snapshot_at net (c_ack_sequence c) = Inr asn \<and> snapshot_holds (net_entity_types net) asn as \<and>
    packet_add_entities net c = Inr (enc_delta ds) \<and>
    apply_delta (if sn_sequence asn = c_ack_sequence c then as else []) ds = cs \<and>
    length (enc_delta ds) \<le> length (enc_entries cs) + length cs"
proof -
  let ?types = "net_entity_types net"
  note slot = snapshots_inv_slot [OF inv]
  from slot obtain sn cs where sn: "snapshot_at net (net_sequence net) = Inr sn"
    and cs: "snapshot_holds ?types sn cs" "entries_typed ty cs" by blast
  from slot obtain asn as where asn: "snapshot_at net (c_ack_sequence c) = Inr asn"
    and as: "snapshot_holds ?types asn as" "entries_typed ty as" by blast
  define used where "used = (if sn_sequence asn = c_ack_sequence c then as else [])"
  have body: "packet_add_entities net c = Inr (enc_delta (make_delta cs used))"
    using packet_add_entities_delta [OF sn cs asn as] by (simp add: used_def)
  have "entries_typed ty used" using as(2) by (simp add: used_def entries_typed_def)
  then have "apply_delta used (make_delta cs used) = cs"
    by (intro apply_make_delta) (simp_all add: entries_typed_def)
  with sn cs(1) asn as(1) body length_enc_delta show ?thesis unfolding used_def by blast
qed

text \<open>A ring with two frames of one entity; the peer has acknowledged the first.\<close>

definition demo_snapshot :: "i32 \<Rightarrow> entry list \<Rightarrow> snapshot_t" where
  "demo_snapshot s es = \<lparr>sn_sequence = s, sn_size = word_of_nat (length (enc_entries es)),
     sn_data = enc_entries es @ replicate (k_net_mtu - length (enc_entries es)) 0\<rparr>"

definition demo_net :: "entity_type_t list \<Rightarrow> entry list \<Rightarrow> entry list \<Rightarrow> net_t" where
  "demo_net types as cs = (net_cleared None)\<lparr>net_sequence := 1, net_entity_types := types,
     net_snapshots := demo_snapshot 0 as # demo_snapshot 1 cs # replicate 254 snapshot_zero\<rparr>"

lemma demo_snapshot_holds:
  assumes "\<forall>en \<in> set es. entry_ok types en" and "length (enc_entries es) \<le> k_net_mtu"
  shows "snapshot_holds types (demo_snapshot s es) es"
proof -
  have "sint (word_of_nat (length (enc_entries es)) :: i32) = int (length (enc_entries es))"
    using assms(2) by (simp add: k_net_mtu_def signed_of_nat signed_take_bit_int_eq_self)
  with assms show ?thesis by (auto simp: snapshot_holds_def demo_snapshot_def)
qed

lemma demo_net_inv:
  assumes "\<forall>en \<in> set as \<union> set cs. entry_ok types en"
    and "length (enc_entries as) \<le> k_net_mtu" and "length (enc_entries cs) \<le> k_net_mtu"
    and "entries_typed ty as" and "entries_typed ty cs"
  shows "snapshots_inv ty (demo_net types as cs)"
proof -
  have "snapshot_holds types snapshot_zero []" "entries_typed ty []"
    by (simp_all add: snapshot_holds_def snapshot_zero_def entries_typed_def)
  moreover have "snapshot_holds types (demo_snapshot 0 as) as" "snapshot_holds types (demo_snapshot 1 cs) cs"
    using assms by (auto intro!: demo_snapshot_holds)
  ultimately have "\<exists>es. snapshot_holds types sn es \<and> entries_typed ty es"
    if "sn \<in> {snapshot_zero, demo_snapshot 0 as, demo_snapshot 1 cs}" for sn
    using that assms(4,5) by blast
  then show ?thesis by (auto simp: snapshots_inv_def demo_net_def k_max_snapshots_def)
qed

lemma delta_reconstructs_snapshot_witness:
  "\<exists>sn asn cs as ds. snapshot_at (demo_net demo_types [(0, 7, [1, 2, 3, 4])] [(0, 7, [1, 2, 3, 5]), (0, 9, [0, 0, 0, 0])]) 1 = Inr sn \<and>
     snapshot_holds demo_types sn cs \<and>
     snapshot_at (demo_net demo_types [(0, 7, [1, 2, 3, 4])] [(0, 7, [1, 2, 3, 5]), (0, 9, [0, 0, 0, 0])]) 0 = Inr asn \<and>
     snapshot_holds demo_types asn as \<and>
     packet_add_entities (demo_net demo_types [(0, 7, [1, 2, 3, 4])] [(0, 7, [1, 2, 3, 5]), (0, 9, [0, 0, 0, 0])])
       connection_zero = Inr (enc_delta ds) \<and>
     apply_delta (if sn_sequence asn = 0 then as else []) ds = cs \<and>
     length (enc_delta ds) \<le> length (enc_entries cs) + length cs"
  using delta_reconstructs_snapshot [OF demo_net_inv [of "[(0, 7, [1, 2, 3, 4])]"
        "[(0, 7, [1, 2, 3, 5]), (0, 9, [0, 0, 0, 0])]" demo_types "\<lambda>_. 0"], of connection_zero]
  by (simp add: connection_zero_def demo_net_def entry_ok_def demo_types_def entries_typed_def
      k_net_mtu_def k_entity_header_size_def)

text \<open>
  Before the first acknowledgement \<open>ack_sequence\<close> is \<open>-1\<close> and the code compares with
  \<^verbatim>\<open>snapshots[255]\<close>, whose sequence number is never \<open>-1\<close>: every slot starts with 0 and is given
  numbers of the counter (\<open>numbered\<close>).  So the packet is the full snapshot, every entry with its
  bytes.
\<close>

definition numbered :: "net_t \<Rightarrow> bool" where
  "numbered net \<longleftrightarrow> 0 \<le> sint (net_sequence net) \<and>
     (\<forall>sn \<in> set (net_snapshots net). 0 \<le> sint (sn_sequence sn) \<and> sint (sn_sequence sn) \<le> sint (net_sequence net))"

lemma unacknowledged_snapshot:
  assumes "length (net_snapshots net) = k_max_snapshots" and "numbered net"
  obtains asn where "snapshot_at net (-1) = Inr asn" "sn_sequence asn \<noteq> -1"
proof (rule that)
  show "snapshot_at net (-1) = Inr (net_snapshots net ! ring_slot (-1))"
    using assms(1) by (rule snapshot_at_slot)
  have "ring_slot (-1) < length (net_snapshots net)" unfolding assms(1) by (rule ring_slot_less)
  then have "0 \<le> sint (sn_sequence (net_snapshots net ! ring_slot (-1)))"
    using assms(2) unfolding numbered_def by (meson nth_mem)
  then show "sn_sequence (net_snapshots net ! ring_slot (-1)) \<noteq> -1" by auto
qed

lemma first_packet_body:
  assumes inv: "snapshots_inv ty net" and num: "numbered net" and ack: "c_ack_sequence c = -1"
    and sn: "snapshot_at net (net_sequence net) = Inr sn" and cs: "snapshot_holds (net_entity_types net) sn cs"
  shows "packet_add_entities net c = Inr (enc_delta (make_delta cs []))"
proof -
  have "length (net_snapshots net) = k_max_snapshots" using inv by (simp add: snapshots_inv_def)
  then obtain asn where "snapshot_at net (-1) = Inr asn" "sn_sequence asn \<noteq> -1"
    using num by (rule unacknowledged_snapshot)
  then show ?thesis
    using sn ack delta_loop_full [OF cs] by (simp add: packet_add_entities_def Let_def)
qed

theorem first_packet_is_full:
  assumes inv: "snapshots_inv ty net" and num: "numbered net" and ack: "c_ack_sequence c = -1"
  shows "\<exists>sn cs. snapshot_at net (net_sequence net) = Inr sn \<and> snapshot_holds (net_entity_types net) sn cs \<and>
    packet_add_entities net c = Inr (enc_delta (map (\<lambda>(t, s, p). (t, s, Some p)) cs))"
proof -
  obtain sn cs where sn: "snapshot_at net (net_sequence net) = Inr sn"
    and cs: "snapshot_holds (net_entity_types net) sn cs"
    using snapshots_inv_slot [OF inv] by blast
  have "make_delta cs [] = map (\<lambda>(t, s, p). (t, s, Some p)) cs"
    by (induction cs) auto
  with first_packet_body [OF inv num ack sn cs] sn cs show ?thesis by auto
qed

lemma demo_net_numbered: "numbered (demo_net types as cs)"
  by (simp add: numbered_def demo_net_def demo_snapshot_def snapshot_zero_def)

lemma first_packet_is_full_witness:
  "\<exists>sn cs. snapshot_at (demo_net demo_types [] [(0, 7, [1, 2, 3, 5])]) 1 = Inr sn \<and>
     snapshot_holds demo_types sn cs \<and>
     packet_add_entities (demo_net demo_types [] [(0, 7, [1, 2, 3, 5])]) (connection_zero\<lparr>c_ack_sequence := -1\<rparr>) =
       Inr (enc_delta (map (\<lambda>(t, s, p). (t, s, Some p)) cs))"
  using first_packet_is_full [OF demo_net_inv [of "[]" "[(0, 7, [1, 2, 3, 5])]" demo_types "\<lambda>_. 0"] demo_net_numbered,
      of "connection_zero\<lparr>c_ack_sequence := -1\<rparr>"]
  by (simp add: connection_zero_def demo_net_def entry_ok_def demo_types_def entries_typed_def
      k_net_mtu_def k_entity_header_size_def)

text \<open>
  C20.  The packet has no bound of its own: \<^verbatim>\<open>packet_add_entities\<close> ignores \<open>packet_capacity\<close>, so a
  snapshot that fits its own buffer, but not with the packet header and one flag byte per entity,
  is written past the end of the packet.
\<close>

theorem packet_overflows:
  assumes "snapshots_inv ty net" and "numbered net" and "c_ack_sequence c = -1"
    and "snapshot_at net (net_sequence net) = Inr sn" and "snapshot_holds (net_entity_types net) sn cs"
    and "k_net_mtu < 8 + length (enc_entries cs) + length cs"
    and "sizeof_packet_t \<le> os_avail m"
  shows "packet_send m net c = Inl Out_of_bounds"
  using first_packet_body [OF assms(1-5)] assms(6,7) length_enc_delta_full [of cs]
  by (auto simp: packet_send_def heap_alloc_def sizeof_packet_t_def packet_header_def mem_write_def k_net_mtu_def)

lemma packet_overflows_witness:
  "packet_send (mem_init 1028 0)
     (demo_net (\<lparr>et_component_mask = 1, et_replicated_component_mask = 1, et_configure_callback = Some 0,
        et_replicated_size = 1012\<rparr> # replicate 31 entity_type_zero) [] [(0, 7, replicate 1012 0)])
     (connection_zero\<lparr>c_ack_sequence := -1\<rparr>) = Inl Out_of_bounds"
proof -
  let ?types = "\<lparr>et_component_mask = 1, et_replicated_component_mask = 1, et_configure_callback = Some 0,
        et_replicated_size = 1012\<rparr> # replicate 31 entity_type_zero"
  let ?cs = "[(0, 7, replicate 1012 0)] :: entry list"
  let ?net = "demo_net ?types [] ?cs"
  have ok: "\<forall>en \<in> set ?cs. entry_ok ?types en" by (simp add: entry_ok_def)
  have len: "length (enc_entries ?cs) = 1020" by (simp add: k_entity_header_size_def)
  have inv: "snapshots_inv (\<lambda>_. 0) ?net"
    by (rule demo_net_inv) (use ok in \<open>simp_all add: entries_typed_def k_net_mtu_def k_entity_header_size_def\<close>)
  have at: "snapshot_at ?net 1 = Inr (demo_snapshot 1 ?cs)"
    by (simp add: snapshot_at_def snapshot_index_def demo_net_def array_get_def k_max_snapshots_def)
  have holds: "snapshot_holds ?types (demo_snapshot 1 ?cs) ?cs"
    by (rule demo_snapshot_holds [OF ok]) (unfold len k_net_mtu_def, simp)
  show ?thesis
    by (rule packet_overflows [OF inv demo_net_numbered, of _ "demo_snapshot 1 ?cs" ?cs])
      (use at holds len in \<open>simp_all add: demo_net_def connection_zero_def k_net_mtu_def sizeof_packet_t_def\<close>)
qed

text \<open>The main thread's sends of one connection, a frame after the other.\<close>

fun packet_sends :: "mem \<Rightarrow> connection_t \<Rightarrow> net_t list \<Rightarrow> (mem \<times> connection_t) option outcome" where
  "packet_sends m c [] = Inr (Some (m, c))"
| "packet_sends m c (net # nets) =
     bind_ok (packet_send m net c) (\<lambda>r. case r of None \<Rightarrow> Inr None | Some (m', c') \<Rightarrow> packet_sends m' c' nets)"

text \<open>The frame's delta can be computed and fits the packet.\<close>

definition packet_fits :: "connection_t \<Rightarrow> net_t \<Rightarrow> bool" where
  "packet_fits c net \<longleftrightarrow> (\<exists>body. packet_add_entities net c = Inr body \<and> 8 + length body \<le> k_net_mtu)"

lemma packet_fits_queue [simp]: "packet_fits (c\<lparr>c_send_queue := q\<rparr>) net = packet_fits c net"
  by (simp add: packet_fits_def packet_add_entities_def)

definition sender_stopped :: "nat \<Rightarrow> connection_t \<Rightarrow> bool" where
  "sender_stopped n c \<longleftrightarrow> \<not> c_send_thread c \<and>
     (\<exists>q. c_send_queue c = Some q \<and> queue_inv q \<and> q_tail q + n \<le> index_limit \<and>
       length (queue_list q) + n = q_cap q)"

lemma mem_write_ok:
  assumes "blocks m b = Some bs" and "off + length xs \<le> length bs"
  shows "mem_write m (Some (b, off)) xs = Inr (m\<lparr>blocks := (blocks m)(b := Some (splice bs off xs))\<rparr>)"
  using assms by (simp add: mem_write_def)

text \<open>A packet that fits is written; what follows is the push.\<close>

lemma packet_send_pushes:
  assumes "packet_fits c net" and "sizeof_packet_t \<le> os_avail m" and q: "c_send_queue c = Some q"
  shows "\<exists>m' p. packet_send m net c =
      bind_ok (queue_push q p) (\<lambda>r. Inr (map_option (\<lambda>q'. (m', c\<lparr>c_send_queue := Some q'\<rparr>)) r)) \<and>
    os_avail m = os_avail m' + sizeof_packet_t"
proof -
  let ?b = "next_block m"
  from assms(1) obtain body where body: "packet_add_entities net c = Inr body" "8 + length body \<le> k_net_mtu"
    by (auto simp: packet_fits_def)
  obtain m1 p where a: "heap_alloc m sizeof_packet_t 8 = (m1, p)" by (cases "heap_alloc m sizeof_packet_t 8")
  from a assms(2) have p: "p = Some (?b, 0)" and b1: "blocks m1 ?b = Some (replicate sizeof_packet_t (junk m))"
    and av: "os_avail m = os_avail m1 + sizeof_packet_t"
    by (auto simp: heap_alloc_def sizeof_packet_t_def)
  let ?h = "packet_header (net_sequence net) (c_incoming_sequence c)"
  have h: "length ?h = 8" by (simp add: packet_header_def)
  obtain m2 bs2 where w2: "mem_write m1 (Some (?b, 0 + 4)) ?h = Inr m2" and m2: "blocks m2 ?b = Some bs2"
    "length bs2 = sizeof_packet_t" "os_avail m2 = os_avail m1"
    using b1 h by (simp add: mem_write_ok sizeof_packet_t_def)
  obtain m3 bs3 where w3: "mem_write m2 (Some (?b, 0 + 12)) body = Inr m3" and m3: "blocks m3 ?b = Some bs3"
    "length bs3 = sizeof_packet_t" "os_avail m3 = os_avail m2"
    using m2 body(2) by (simp add: mem_write_ok sizeof_packet_t_def k_net_mtu_def)
  obtain m4 where w4: "mem_write m3 p (le32 (word_of_nat (8 + length body))) = Inr m4" and m4: "os_avail m4 = os_avail m3"
    using m3 p by (simp add: mem_write_ok sizeof_packet_t_def)
  have "packet_send m net c =
      bind_ok (queue_push q p) (\<lambda>r. Inr (map_option (\<lambda>q'. (m4, c\<lparr>c_send_queue := Some q'\<rparr>)) r))"
    unfolding packet_send_def a using w2 w3 w4 body(1) q by (simp add: p)
  with av m2 m3 m4 show ?thesis by auto
qed

lemma packet_send_accepted:
  assumes "packet_fits c net" and "sizeof_packet_t \<le> os_avail m" and "sender_stopped (Suc n) c"
  shows "\<exists>m' q. packet_send m net c = Inr (Some (m', c\<lparr>c_send_queue := q\<rparr>)) \<and>
    os_avail m = os_avail m' + sizeof_packet_t \<and> sender_stopped n (c\<lparr>c_send_queue := q\<rparr>)"
proof -
  from assms(3) obtain q where q: "\<not> c_send_thread c" "c_send_queue c = Some q" "queue_inv q"
    "q_tail q + Suc n \<le> index_limit" "length (queue_list q) + Suc n = q_cap q"
    by (auto simp: sender_stopped_def)
  from packet_send_pushes [OF assms(1,2) q(2)] obtain m' p where
    P: "packet_send m net c =
      bind_ok (queue_push q p) (\<lambda>r. Inr (map_option (\<lambda>q'. (m', c\<lparr>c_send_queue := Some q'\<rparr>)) r))"
    and av: "os_avail m = os_avail m' + sizeof_packet_t" by blast
  have lim: "q_tail q < index_limit" "q_tail q - q_head q < q_cap q"
    using q(4,5) by (simp_all add: length_queue_list)
  from queue_push_room [OF q(3) lim, of p] obtain q' where q': "queue_push q p = Inr (Some q')" "queue_inv q'"
    "queue_list q' = queue_list q @ [p]" "q_cap q' = q_cap q" "q_tail q' = Suc (q_tail q)" by blast
  have "packet_send m net c = Inr (Some (m', c\<lparr>c_send_queue := Some q'\<rparr>))" using P q'(1) by simp
  moreover have "sender_stopped n (c\<lparr>c_send_queue := Some q'\<rparr>)"
    using q q' by (simp add: sender_stopped_def)
  ultimately show ?thesis using av by blast
qed

lemma sender_stopped_full:
  assumes "sender_stopped 0 c"
  shows "packet_fits c net \<Longrightarrow> sizeof_packet_t \<le> os_avail m \<Longrightarrow> packet_send m net c = Inr None"
    and "close_connection c = Inr None" and "send_thread_func sendto m c = Inr None"
proof -
  from assms obtain q where q: "c_send_queue c = Some q" "queue_inv q" "length (queue_list q) = q_cap q"
    and "\<not> c_send_thread c"
    by (auto simp: sender_stopped_def)
  note full = queue_push_full [OF q(2)]
  show "packet_send m net c = Inr None" if "packet_fits c net" "sizeof_packet_t \<le> os_avail m"
    using packet_send_pushes [OF that q(1)] q(3) full by (auto simp: length_queue_list)
  show "close_connection c = Inr None" "send_thread_func sendto m c = Inr None"
    using q full \<open>\<not> c_send_thread c\<close> by (simp_all add: close_connection_def send_thread_func_def length_queue_list)
qed

lemma packet_sends_accepted:
  assumes "sender_stopped (length nets + k) c" and "\<forall>net \<in> set nets. packet_fits c net"
    and "length nets * sizeof_packet_t \<le> os_avail m"
  shows "\<exists>m' q. packet_sends m c nets = Inr (Some (m', c\<lparr>c_send_queue := q\<rparr>)) \<and>
    os_avail m = os_avail m' + length nets * sizeof_packet_t \<and> sender_stopped k (c\<lparr>c_send_queue := q\<rparr>)"
  using assms
proof (induction nets arbitrary: m c)
  case Nil
  then show ?case by (auto intro!: exI [of _ "c_send_queue c"])
next
  case (Cons net nets)
  have "sender_stopped (Suc (length nets + k)) c" using Cons.prems(1) by simp
  moreover have "packet_fits c net" "sizeof_packet_t \<le> os_avail m" using Cons.prems(2,3) by simp_all
  ultimately obtain m1 q1 where
    one: "packet_send m net c = Inr (Some (m1, c\<lparr>c_send_queue := q1\<rparr>))" "os_avail m = os_avail m1 + sizeof_packet_t"
      "sender_stopped (length nets + k) (c\<lparr>c_send_queue := q1\<rparr>)" using packet_send_accepted by blast
  from Cons.IH [OF one(3), of m1] Cons.prems(2,3) one(2) obtain m' q where
    "packet_sends m1 (c\<lparr>c_send_queue := q1\<rparr>) nets = Inr (Some (m', c\<lparr>c_send_queue := q\<rparr>))"
    "os_avail m1 = os_avail m' + length nets * sizeof_packet_t" "sender_stopped k (c\<lparr>c_send_queue := q\<rparr>)" by auto
  with one show ?case by auto
qed

text \<open>The turn of the sending thread at which \<^verbatim>\<open>sendto\<close> fails.\<close>

lemma failed_send_stops:
  assumes run: "c_send_thread c" and q: "c_send_queue c = Some q" "queue_inv q" "queue_list q = Some p # ps"
    and lim: "q_tail q + q_cap q \<le> index_limit"
    and fail: "\<forall>data. sendto data \<le> 0" and turn: "send_thread_func sendto m c = Inr (Some (m1, c1))"
  shows "sender_stopped (q_cap q - length ps) c1 \<and> c_ack_sequence c1 = c_ack_sequence c \<and> os_avail m \<le> os_avail m1"
proof -
  obtain b off where p: "p = (b, off)" by (cases p)
  have "q_tail q \<le> index_limit" using lim by simp
  from queue_pop_item [OF q(2) this q(3)] obtain q' where q': "queue_pop q = Inr (Some (q', Some p))" "queue_inv q'"
    "queue_list q' = ps" "q_cap q' = q_cap q" "q_tail q' = q_tail q" by blast
  from turn run q(1) q'(1) fail obtain m' where m': "heap_free m (Some (b, off)) = Inr m'" "m1 = m'"
    and c1: "c1 = c\<lparr>c_send_queue := Some q', c_send_thread := False\<rparr>"
    by (auto simp: send_thread_func_def p bind_ok_Inr_iff not_less)
  have "os_avail m \<le> os_avail m1"
    using m' by (auto simp: heap_free_def split: option.split_asm if_split_asm)
  moreover have "length ps < q_cap q"
    using q(2,3) queue_invD(9) [OF q(2)] length_queue_list [of q] by simp
  ultimately show ?thesis using q' lim by (simp add: c1 sender_stopped_def)
qed

text \<open>
  C21.  When \<^verbatim>\<open>sendto\<close> fails once, the sending thread ends but the connection stays: exactly as many
  further packets are accepted as the queue has free slots, then \<^verbatim>\<open>packet_send\<close> waits, and so does
  the attempt to close the connection (time-out or \<^verbatim>\<open>net_disconnect_all\<close>), because it pushes onto
  the same queue; and the thread that would empty the queue takes no further step.
\<close>

theorem stopped_sender_blocks:
  assumes "c_send_thread c" and "c_send_queue c = Some q" and "queue_inv q" and "queue_list q = Some p # ps"
    and "q_tail q + q_cap q \<le> index_limit"
    and "\<forall>data. sendto data \<le> 0" and "send_thread_func sendto m c = Inr (Some (m1, c1))"
    and "length nets + length ps = q_cap q" and "\<forall>n \<in> set (net # nets). packet_fits c n"
    and "Suc (length nets) * sizeof_packet_t \<le> os_avail m"
  shows "\<not> c_send_thread c1 \<and>
    (\<exists>m' c'. packet_sends m1 c1 nets = Inr (Some (m', c')) \<and> packet_send m' net c' = Inr None \<and>
       close_connection c' = Inr None \<and> send_thread_func sendto' m' c' = Inr None)"
proof -
  have F: "sender_stopped (length nets + 0) c1" "c_ack_sequence c1 = c_ack_sequence c" "os_avail m \<le> os_avail m1"
    using failed_send_stops [OF assms(1-7)] unfolding assms(8) [symmetric] by simp_all
  have "packet_fits c1 n = packet_fits c n" for n
    by (simp add: packet_fits_def packet_add_entities_def F(2))
  then have fits: "packet_fits c1 n" if "n \<in> set (net # nets)" for n
    using assms(9) that by blast
  from packet_sends_accepted [OF F(1), of m1] fits F(3) assms(10) obtain m' q' where
    S: "packet_sends m1 c1 nets = Inr (Some (m', c1\<lparr>c_send_queue := q'\<rparr>))"
    "os_avail m1 = os_avail m' + length nets * sizeof_packet_t" "sender_stopped 0 (c1\<lparr>c_send_queue := q'\<rparr>)" by auto
  have "packet_send m' net (c1\<lparr>c_send_queue := q'\<rparr>) = Inr None"
    by (rule sender_stopped_full(1) [OF S(3)]) (use fits F(3) assms(10) S(2) in auto)
  moreover have "\<not> c_send_thread c1" using F(1) by (simp add: sender_stopped_def)
  ultimately show ?thesis using S sender_stopped_full(2,3) [OF S(3)] by blast
qed

text \<open>A connection with one packet waiting.\<close>

definition demo_connection :: connection_t where
  "demo_connection = connection_zero\<lparr>c_ack_sequence := -1, c_send_thread := True,
     c_send_queue := Some \<lparr>used_items = \<lparr>sem_count = 1, sem_max = 3\<rparr>, free_items = \<lparr>sem_count = 2, sem_max = 3\<rparr>,
       items = [Some (0, 0), None, None], capacity = 3, head_index = 0, tail_index = 1\<rparr>\<rparr>"

definition demo_packet_mem :: mem where
  "demo_packet_mem = (mem_init 5000 0)\<lparr>blocks := [0 \<mapsto> le32 8 @ replicate 1024 0], next_block := 1\<rparr>"

lemma demo_packet_fits: "packet_fits demo_connection (demo_net demo_types [] [])"
proof -
  have "packet_add_entities (demo_net demo_types [] []) demo_connection = Inr (enc_delta (make_delta [] []))"
  proof (rule first_packet_body [OF demo_net_inv demo_net_numbered])
    show "snapshot_at (demo_net demo_types [] []) (net_sequence (demo_net demo_types [] [])) = Inr (demo_snapshot 1 [])"
      by (simp add: snapshot_at_def snapshot_index_def demo_net_def array_get_def k_max_snapshots_def)
  qed (auto simp: entries_typed_def demo_connection_def demo_net_def intro!: demo_snapshot_holds)
  then show ?thesis by (simp add: packet_fits_def k_net_mtu_def)
qed

lemma stopped_sender_blocks_witness:
  "\<exists>m1 c1 m' c'. send_thread_func (\<lambda>_. -1) demo_packet_mem demo_connection = Inr (Some (m1, c1)) \<and>
     \<not> c_send_thread c1 \<and>
     packet_sends m1 c1 (replicate 3 (demo_net demo_types [] [])) = Inr (Some (m', c')) \<and>
     packet_send m' (demo_net demo_types [] []) c' = Inr None \<and> close_connection c' = Inr None"
proof -
  obtain q where q: "c_send_queue demo_connection = Some q" "queue_inv q" "queue_list q = [Some (0, 0)]"
    "q_cap q = 3" "q_tail q = 1"
    by (simp add: demo_connection_def queue_inv_def queue_list_def q_cap_def q_head_def q_tail_def)
  have run: "c_send_thread demo_connection" by (simp add: demo_connection_def)
  have rd: "mem_read demo_packet_mem (Some (0, 0)) 4 = Inr (le32 8)"
    "mem_read demo_packet_mem (Some (0, 4)) 8 = Inr (replicate 8 0)"
    "\<exists>m1. heap_free demo_packet_mem (Some (0, 0)) = Inr m1"
    by (simp_all add: mem_read_def demo_packet_mem_def heap_free_def)
  from queue_pop_item [OF q(2) _ q(3)] q(5) obtain q' where "queue_pop q = Inr (Some (q', Some (0, 0)))"
    by (auto simp: index_limit_def)
  with rd q(1) run obtain m1 c1 where turn: "send_thread_func (\<lambda>_. -1) demo_packet_mem demo_connection = Inr (Some (m1, c1))"
    by (auto simp: send_thread_func_def)
  have "\<not> c_send_thread c1 \<and> (\<exists>m' c'. packet_sends m1 c1 (replicate 3 (demo_net demo_types [] [])) = Inr (Some (m', c')) \<and>
      packet_send m' (demo_net demo_types [] []) c' = Inr None \<and> close_connection c' = Inr None \<and>
      send_thread_func (\<lambda>_. 0) m' c' = Inr None)"
    by (rule stopped_sender_blocks [OF run q(1-3) _ _ turn])
      (use q(4,5) demo_packet_fits in \<open>simp_all add: index_limit_def sizeof_packet_t_def demo_packet_mem_def\<close>)
  with turn show ?thesis by blast
qed

section \<open>The connection table\<close>

definition connections_inv :: "net_t \<Rightarrow> bool" where
  "connections_inv net \<longleftrightarrow> length (net_connections net) = k_max_connections \<and>
     (\<forall>i < k_max_connections. \<forall>j < k_max_connections.
        addr_port (c_address (net_connections net ! i)) \<noteq> 0 \<longrightarrow>
        c_address (net_connections net ! i) = c_address (net_connections net ! j) \<longrightarrow> i = j) \<and>
     (\<forall>i < k_max_connections. addr_port (c_address (net_connections net ! i)) \<noteq> 0 \<longrightarrow>
        c_send_queue (net_connections net ! i) \<noteq> None \<and> c_recv_queue (net_connections net ! i) \<noteq> None)"

lemma net_create_connections_inv: "net_create m = Inr (m', net) \<Longrightarrow> connections_inv net"
  by (auto simp: net_create_def net_cleared_def connections_inv_def connection_zero_def address_zero_def
      bind_ok_Inr_iff case_prod_unfold Let_def)

lemma connection_queue_Some: "connection_queue \<noteq> None"
  using queue_create_inv [of 3 "replicate k_queue_slots None :: ptr option list"]
  by (auto simp: connection_queue_def k_queue_slots_def)

lemma find_or_create_cases:
  obtains (found) i where "find_or_create_connection now net a = (net, Some i)" "i < k_max_connections"
      "c_address (net_connections net ! i) = a"
    | (created) i c where "find_or_create_connection now net a = (net\<lparr>net_connections := (net_connections net)[i := c]\<rparr>, Some i)"
      "i < k_max_connections" "addr_port (c_address (net_connections net ! i)) = 0"
      "\<forall>j < k_max_connections. c_address (net_connections net ! j) \<noteq> a"
      "c_address c = a" "c_send_queue c = connection_queue" "c_recv_queue c = connection_queue"
    | (none) "find_or_create_connection now net a = (net, None)"
      "\<forall>j < k_max_connections. addr_port (c_address (net_connections net ! j)) \<noteq> 0 \<and> c_address (net_connections net ! j) \<noteq> a"
proof (cases "find_from (\<lambda>i. c_address (net_connections net ! i) = a) 0 k_max_connections")
  case (Some i)
  then have "find_or_create_connection now net a = (net, Some i)" by (simp add: find_or_create_connection_def)
  with find_from_SomeD [OF Some] show thesis by (intro found [of i]) simp_all
next
  case None
  then have other: "\<forall>j < k_max_connections. c_address (net_connections net ! j) \<noteq> a" by (simp add: find_from_None_iff)
  show thesis
  proof (cases "find_from (\<lambda>i. addr_port (c_address (net_connections net ! i)) = 0) 0 k_max_connections")
    case (Some i)
    define c where "c = (net_connections net ! i)\<lparr>c_address := a, c_incoming_sequence := -1, c_ack_sequence := -1,
      c_last_recv_ms := now, c_send_queue := connection_queue, c_recv_queue := connection_queue, c_send_thread := True\<rparr>"
    have "find_or_create_connection now net a = (net\<lparr>net_connections := (net_connections net)[i := c]\<rparr>, Some i)"
      using None Some by (simp add: find_or_create_connection_def c_def)
    with find_from_SomeD [OF Some] other show thesis by (intro created [of i c]) (simp_all add: c_def)
  next
    case free: None
    have "find_or_create_connection now net a = (net, None)" by (simp add: find_or_create_connection_def None free)
    with free other show thesis by (intro none) (simp_all add: find_from_None_iff)
  qed
qed

text \<open>
  The connection table keeps one slot per peer: for an address with a port the call keeps the
  invariant (no two used slots have the same address, used slots have their queues), the slot it
  returns has that address, a second call returns the same slot and changes nothing, other used
  slots are untouched, and it returns no slot exactly when all three are used by other peers.
\<close>

theorem find_or_create_connection_identity:
  assumes inv: "connections_inv net" and port: "addr_port a \<noteq> 0"
    and call: "find_or_create_connection now net a = (net', r)"
  shows "connections_inv net' \<and>
    (\<forall>j < k_max_connections. addr_port (c_address (net_connections net ! j)) \<noteq> 0 \<longrightarrow>
      net_connections net' ! j = net_connections net ! j) \<and>
    (case r of
       Some i \<Rightarrow> i < k_max_connections \<and> c_address (net_connections net' ! i) = a \<and>
         find_or_create_connection later net' a = (net', Some i)
     | None \<Rightarrow> net' = net \<and> (\<forall>j < k_max_connections. addr_port (c_address (net_connections net ! j)) \<noteq> 0 \<and>
         c_address (net_connections net ! j) \<noteq> a))"
proof (cases rule: find_or_create_cases [of now net a])
  case (found i)
  have same: "find_or_create_connection later net a = (net, Some i)"
  proof (cases rule: find_or_create_cases [of later net a])
    case (found j)
    then show ?thesis using inv port found \<open>i < k_max_connections\<close> \<open>c_address (net_connections net ! i) = a\<close>
      by (auto simp: connections_inv_def)
  qed (use found in auto)
  with found call inv show ?thesis by simp
next
  case (created i c)
  let ?net = "net\<lparr>net_connections := (net_connections net)[i := c]\<rparr>"
  have len: "length (net_connections net) = k_max_connections" using inv by (simp add: connections_inv_def)
  have at: "(net_connections net)[i := c] ! j = (if j = i then c else net_connections net ! j)" if "j < k_max_connections" for j
    using that len created(2) by (simp add: nth_list_update)
  have inv': "connections_inv ?net"
    using inv created connection_queue_Some len
    by (auto simp: connections_inv_def at)
  have same: "find_or_create_connection later ?net a = (?net, Some i)"
  proof (cases rule: find_or_create_cases [of later ?net a])
    case (found j)
    with at [of j] created show ?thesis by (auto split: if_split_asm)
  next
    case (created j c')
    with at [of i] \<open>i < k_max_connections\<close> \<open>c_address c = a\<close> show ?thesis by auto
  next
    case none
    with at [of i] \<open>i < k_max_connections\<close> \<open>c_address c = a\<close> show ?thesis by auto
  qed
  have eq: "net' = ?net" "r = Some i" using call created(1) by auto
  show ?thesis unfolding eq using inv' same at created(2,3,5) by auto
next
  case none
  with call inv show ?thesis by auto
qed

lemma find_or_create_connection_identity_witness:
  "\<exists>net' r. find_or_create_connection 100 (net_cleared None) \<lparr>addr_ip = [10, 0, 0, 1], addr_port = 80\<rparr> = (net', r) \<and>
     connections_inv net' \<and> (case r of None \<Rightarrow> False | Some i \<Rightarrow>
       c_address (net_connections net' ! i) = \<lparr>addr_ip = [10, 0, 0, 1], addr_port = 80\<rparr>)"
proof -
  let ?a = "\<lparr>addr_ip = [10, 0, 0, 1], addr_port = 80\<rparr>" and ?n = "net_cleared None"
  have inv: "connections_inv ?n"
    by (simp add: net_cleared_def connections_inv_def connection_zero_def address_zero_def)
  obtain net' r where call: "find_or_create_connection 100 ?n ?a = (net', r)"
    by (cases "find_or_create_connection 100 ?n ?a")
  have "addr_port (c_address (net_connections ?n ! 0)) = 0"
    by (simp add: net_cleared_def connection_zero_def address_zero_def k_max_connections_def)
  with find_or_create_connection_identity [OF inv _ call] call show ?thesis
    by (cases r) (auto simp: k_max_connections_def)
qed

text \<open>A peer without a port is given a slot, with queues and a running thread, that still counts as
  free: the next peer takes the slot over and the first one's queues and thread are lost.\<close>

lemma portless_connection_is_overwritten:
  assumes "connections_inv net" and "addr_port a = 0" and "addr_port b \<noteq> 0"
    and "\<forall>j < k_max_connections. c_address (net_connections net ! j) \<noteq> a"
    and "\<forall>j < k_max_connections. c_address (net_connections net ! j) \<noteq> b"
    and "find_or_create_connection now net a = (net1, Some i)"
  shows "\<exists>net2. find_or_create_connection now net1 b = (net2, Some i) \<and> c_send_thread (net_connections net1 ! i) \<and>
    net_connections net2 ! i = (net_connections net1 ! i)\<lparr>c_address := b\<rparr>"
proof -
  let ?P = "\<lambda>n j. addr_port (c_address (net_connections n ! j)) = 0"
  have len: "length (net_connections net) = k_max_connections" using assms(1) by (simp add: connections_inv_def)
  have "find_from (\<lambda>i. c_address (net_connections net ! i) = a) 0 k_max_connections = None"
    using assms(4) by (simp add: find_from_None_iff)
  with assms(6) have i: "find_from (?P net) 0 k_max_connections = Some i"
    and net1: "net1 = net\<lparr>net_connections := (net_connections net)[i := (net_connections net ! i)
      \<lparr>c_address := a, c_incoming_sequence := -1, c_ack_sequence := -1, c_last_recv_ms := now,
       c_send_queue := connection_queue, c_recv_queue := connection_queue, c_send_thread := True\<rparr>]\<rparr>"
    by (auto simp: find_or_create_connection_def split: option.split_asm)
  note lt = find_from_SomeD [OF i]
  have at: "net_connections net1 ! j = (if j = i then net_connections net1 ! i else net_connections net ! j)" for j
    by (simp add: net1 nth_list_update)
  have ai: "c_address (net_connections net1 ! i) = a" using lt len by (simp add: net1)
  have "find_from (\<lambda>i. c_address (net_connections net1 ! i) = b) 0 k_max_connections = None"
    using assms(2,3,5) ai at unfolding find_from_None_iff by (metis (full_types))
  moreover have "find_from (?P net1) 0 k_max_connections = Some i"
    unfolding find_from_Some_iff using lt ai assms(2) at by (metis (full_types) less_irrefl)
  ultimately show ?thesis
    using lt len by (auto simp: find_or_create_connection_def net1)
qed

text \<open>The limit is computed in 32 bits: in the last five seconds before the clock wraps every
  connection has timed out.\<close>

lemma recent_connection_times_out:
  "connection_timed_out 4294966396 (connection_zero\<lparr>c_last_recv_ms := 4294966296\<rparr>)"
  by (simp add: connection_timed_out_def k_timeout_ms_def)

end
