(* ===== verification/Net_Replication.thy ===== *)
theory Net_Replication
  imports Net_Recv Net_Props
begin

text \<open>
  Properties of the receiving half: what reading one entity of a packet does to the components of
  an entity the peer knows, the removal of what was not seen (\<open>Net_Mirror\<close> puts them together for a
  whole packet), the sequence filter, and what malformed or unexpected packets do.
\<close>

section \<open>Writing components\<close>

definition read_component :: "mem \<Rightarrow> ecs_t \<Rightarrow> ecs_entity_ref_t \<Rightarrow> nat \<Rightarrow> bytes outcome" where
  "read_component m e ref c =
     bind_ok (ecs_entity_get_component e ref (int c) True) (\<lambda>p.
     bind_ok (ecs_get_component_type_size e (int c)) (\<lambda>z. mem_read m p (unat z)))"

lemma copy_components_Cons:
  "copy_components m e ref (c # cs) =
     bind_ok (read_component m e ref c) (\<lambda>bs. bind_ok (copy_components m e ref cs) (\<lambda>rest. Inr (bs @ rest)))"
  by (simp add: read_component_def bind_ok_assoc)

text \<open>\<open>b\<close> is no component block.\<close>

definition outside_components :: "ecs_t \<Rightarrow> nat \<Rightarrow> bool" where
  "outside_components e b \<longleftrightarrow> (\<forall>p. Some p \<in> set (components e) \<longrightarrow> fst p \<noteq> b)"

lemma store_inv_write:
  assumes "store_inv m0 m e" and "mem_write m p xs = Inr m'" shows "store_inv m0 m' e"
  using assms block_size_write [OF assms(2)] mem_ok_write [OF _ assms(2)]
  unfolding store_inv_def by (simp only:) blast

lemma component_write:
  assumes inv: "store_inv m0 m e" and v: "ecs_is_entity_ref_valid e r True = Inr True"
    and c: "c < k_max_component_types" "components e ! c = Some p"
    and len: "length xs = unat (component_type_sizes e ! c)"
  obtains a m' where "ecs_entity_get_component e r (int c) True = Inr (Some a)" "fst a = fst p"
    "mem_write m (Some a) xs = Inr m'" "store_inv m0 m' e" "read_component m' e r c = Inr xs"
    "\<And>r' c'. ref_entity r' \<noteq> ref_entity r \<or> c' \<noteq> c \<Longrightarrow> read_component m' e r' c' = read_component m e r' c'"
proof -
  let ?n = "unat (component_type_sizes e ! c)"
  from inv v c obtain i where i: "i < k_max_entities" "ref_entity r = int i"
    "ecs_entity_get_component e r (int c) True = Inr (Some (fst p, ?n * i))"
    "\<exists>bs. blocks m (fst p) = Some bs \<and> length bs = ?n * k_max_entities"
    by (rule ecs_component_address)
  obtain m' where w: "mem_write m (Some (fst p, ?n * i)) xs = Inr m'"
    using i(4) elem_range_in_block [OF i(1), of ?n] len by (auto simp: mem_write_def)
  have lens: "length (component_type_sizes e) = k_max_component_types" "length (components e) = k_max_component_types"
    using store_inv_shape [OF inv] by (simp_all add: ecs_shape_def)
  have size: "ecs_get_component_type_size e (int k) = Inr (component_type_sizes e ! k)" if "k < k_max_component_types" for k
    using that lens by (simp add: ecs_get_component_type_size_def)
  have here: "read_component m' e r c = Inr xs"
    using i(3) size [OF c(1)] mem_write_read [OF w] len by (simp add: read_component_def)
  have other: "read_component m' e r' c' = read_component m e r' c'" if d: "ref_entity r' \<noteq> ref_entity r \<or> c' \<noteq> c" for r' c'
  proof (cases "ecs_entity_get_component e r' (int c') True")
    case (Inr q)
    show ?thesis
    proof (cases q)
      case None
      then show ?thesis by (simp add: read_component_def Inr mem_read_def)
    next
      case (Some a')
      with Inr have v': "ecs_is_entity_ref_valid e r' True = Inr True" and r: "c' < length (components e)"
        and nn: "components e ! c' \<noteq> None"
        by (auto simp: ecs_entity_get_component_def bind_ok_Inr_iff array_get_def split: if_split_asm)
      from r lens have c': "c' < k_max_component_types" by simp
      from nn obtain p' where p': "components e ! c' = Some p'" by auto
      obtain j where j: "ref_entity r' = int j"
        "ecs_entity_get_component e r' (int c') True = Inr (Some (fst p', unat (component_type_sizes e ! c') * j))"
        using ecs_component_address [OF inv v' c' p'] by metis
      have "fst p \<noteq> fst p' \<or> (c = c' \<and> i \<noteq> j)"
        using d i(2) j(1) by (intro component_blocks_separate [OF inv c c' p']) auto
      then have "mem_read m' (Some (fst p', unat (component_type_sizes e ! c') * j)) (unat (component_type_sizes e ! c')) =
          mem_read m (Some (fst p', unat (component_type_sizes e ! c') * j)) (unat (component_type_sizes e ! c'))"
        by (intro mem_write_read_disjoint [OF w]) (use len elem_ranges_disjoint in auto)
      then show ?thesis by (simp add: read_component_def j(2) size [OF c'])
    qed
  qed (simp add: read_component_def)
  show thesis by (rule that [OF i(3) _ w store_inv_write [OF inv w] here other]) simp_all
qed

text \<open>The replicated types are registered component types.\<close>

definition registered :: "ecs_t \<Rightarrow> nat list \<Rightarrow> bool" where
  "registered e cs \<longleftrightarrow> distinct cs \<and> (\<forall>c \<in> set cs. c < k_max_component_types \<and> components e ! c \<noteq> None)"

definition sizes_of :: "ecs_t \<Rightarrow> nat list \<Rightarrow> nat" where
  "sizes_of e cs = sum_list (map (\<lambda>c. unat (component_type_sizes e ! c)) cs)"

lemma read_outside:
  assumes "outside_components e b" and "c < length (components e)" and "components e ! c = Some p" and "fst a = fst p"
    and "mem_write m (Some a) xs = Inr m'"
  shows "mem_read m' (Some (b, pos)) n = mem_read m (Some (b, pos)) n"
proof -
  have "Some p \<in> set (components e)" using assms(2,3) by (metis nth_mem)
  then have "fst a \<noteq> b" using assms(1,4) unfolding outside_components_def by metis
  then show ?thesis using assms(5) by (cases a) (auto intro!: mem_write_read_disjoint)
qed

lemma mem_read_append:
  assumes "mem_read m (Some (b, pos)) (length xs + length ys) = Inr (xs @ ys)"
  shows "mem_read m (Some (b, pos)) (length xs) = Inr xs"
    and "mem_read m (Some (b, pos + length xs)) (length ys) = Inr ys"
proof -
  from assms obtain bs where bs: "blocks m b = Some bs" "pos + (length xs + length ys) \<le> length bs"
    "take (length xs + length ys) (drop pos bs) = xs @ ys"
    by (auto simp: mem_read_def split: option.split_asm if_split_asm)
  then have "take (length xs) (drop pos bs) = xs \<and> take (length ys) (drop (length xs) (drop pos bs)) = ys"
    by (simp add: take_add append_eq_append_conv)
  with bs show "mem_read m (Some (b, pos)) (length xs) = Inr xs"
    "mem_read m (Some (b, pos + length xs)) (length ys) = Inr ys"
    by (simp_all add: mem_read_def add.commute)
qed

lemma write_components_result:
  assumes "store_inv m0 m e" and v: "ecs_is_entity_ref_valid e r True = Inr True" and "registered e cs"
    and out: "outside_components e b" and "mem_read m (Some (b, pos)) (length p) = Inr p" and "length p = sizes_of e cs"
  shows "\<exists>m'. write_components m e r cs b pos = Inr (m', length p) \<and> store_inv m0 m' e \<and>
    copy_components m' e r cs = Inr p \<and>
    (\<forall>r' c. ref_entity r' \<noteq> ref_entity r \<or> c \<notin> set cs \<longrightarrow> read_component m' e r' c = read_component m e r' c) \<and>
    (\<forall>pos n. mem_read m' (Some (b, pos)) n = mem_read m (Some (b, pos)) n)"
  using assms(1,3,5,6)
proof (induction cs arbitrary: m pos p)
  case Nil
  then show ?case by (simp add: sizes_of_def)
next
  case (Cons c cs)
  let ?n = "unat (component_type_sizes e ! c)"
  have reg: "registered e cs" and c: "c < k_max_component_types" "c \<notin> set cs"
    using Cons.prems(2) by (simp_all add: registered_def)
  obtain q where q: "components e ! c = Some q" using Cons.prems(2) by (auto simp: registered_def)
  define xs where "xs = take ?n p" define ys where "ys = drop ?n p"
  have p: "p = xs @ ys" "length xs = ?n" "length ys = sizes_of e cs"
    using Cons.prems(4) by (simp_all add: xs_def ys_def sizes_of_def)
  have rx: "mem_read m (Some (b, pos)) ?n = Inr xs" and ry: "mem_read m (Some (b, pos + ?n)) (length ys) = Inr ys"
    using mem_read_append [of m b pos xs ys] Cons.prems(3) p(1,2) by simp_all
  obtain a m1 where W: "ecs_entity_get_component e r (int c) True = Inr (Some a)" "fst a = fst q"
    "mem_write m (Some a) xs = Inr m1" "store_inv m0 m1 e" "read_component m1 e r c = Inr xs"
    "\<And>r' c'. ref_entity r' \<noteq> ref_entity r \<or> c' \<noteq> c \<Longrightarrow> read_component m1 e r' c' = read_component m e r' c'"
    using component_write [OF Cons.prems(1) v c(1) q p(2)] by metis
  have lens: "length (component_type_sizes e) = k_max_component_types" "length (components e) = k_max_component_types"
    using store_inv_shape [OF W(4)] by (simp_all add: ecs_shape_def)
  have frame: "mem_read m1 (Some (b, pos)) n = mem_read m (Some (b, pos)) n" for pos n
    using read_outside [OF out _ q W(2,3)] c(1) lens by simp
  obtain m2 where R: "write_components m1 e r cs b (pos + ?n) = Inr (m2, length ys)" "store_inv m0 m2 e"
    "copy_components m2 e r cs = Inr ys"
    "\<forall>r' c. ref_entity r' \<noteq> ref_entity r \<or> c \<notin> set cs \<longrightarrow> read_component m2 e r' c = read_component m1 e r' c"
    "\<forall>pos n. mem_read m2 (Some (b, pos)) n = mem_read m1 (Some (b, pos)) n"
    using Cons.IH [OF W(4) reg, of "pos + ?n" ys] ry p(3) frame by metis
  have sz: "ecs_get_component_type_size e (int c) = Inr (component_type_sizes e ! c)"
    using c(1) lens by (simp add: ecs_get_component_type_size_def)
  have "write_components m e r (c # cs) b pos = Inr (m2, length p)"
    using W(1,3) sz rx R(1) p by simp
  moreover have "copy_components m2 e r (c # cs) = Inr p"
    unfolding copy_components_Cons using R(3,4) W(5) c(2) p(1) by simp
  moreover have "read_component m2 e r' k = read_component m e r' k" if "ref_entity r' \<noteq> ref_entity r \<or> k \<notin> set (c # cs)" for r' k
    using that R(4) W(6) by auto
  moreover have "mem_read m2 (Some (b, pos)) n = mem_read m (Some (b, pos)) n" for pos n
    using R(5) frame by simp
  ultimately show ?case using R(2) by blast
qed

section \<open>Reading a delta\<close>

definition local_ref :: "entity_data_t list \<Rightarrow> i32 \<Rightarrow> ecs_entity_ref_t option" where
  "local_ref es s = map_option (\<lambda>i. ed_ref (es ! i)) (find_from (\<lambda>i. ed_remote_sequence (es ! i) = s) 0 (length es))"

definition replicated :: "entity_type_t list \<Rightarrow> i32 \<Rightarrow> nat list" where
  "replicated types t = mask_bits (et_replicated_component_mask (types ! nat (sint t)))"

text \<open>The peer knows the entity: a local reference that is valid, of a type that is registered.\<close>

definition peer_knows :: "ecs_t \<Rightarrow> entity_data_t list \<Rightarrow> entity_type_t list \<Rightarrow> i32 \<Rightarrow> i32 \<Rightarrow> bool" where
  "peer_knows e es types t s \<longleftrightarrow>
     (\<exists>r. local_ref es s = Some r \<and> ecs_is_entity_ref_valid e r True = Inr True) \<and>
     0 \<le> sint t \<and> sint t < int (length types) \<and> registered e (replicated types t) \<and>
     unat (et_replicated_size (types ! nat (sint t))) = sizes_of e (replicated types t)"

definition mark_seen :: "i32 \<Rightarrow> entity_data_t list \<Rightarrow> i32 \<Rightarrow> entity_data_t list" where
  "mark_seen sequence es s = snd (known_entity sequence es s)"

lemma mark_seen_fields [simp]:
  "length (mark_seen sequence es s) = length es"
  "map ed_remote_sequence (mark_seen sequence es s) = map ed_remote_sequence es"
  "map ed_ref (mark_seen sequence es s) = map ed_ref es"
  by (auto simp: mark_seen_def known_entity_def find_from_Some_iff list_eq_iff_nth_eq nth_list_update
      split: option.splits)

lemma local_ref_cong:
  assumes "map ed_remote_sequence es' = map ed_remote_sequence es" and "map ed_ref es' = map ed_ref es"
  shows "local_ref es' s = local_ref es s"
proof -
  have len: "length es' = length es" using assms(1) by (rule map_eq_imp_length_eq)
  have "ed_remote_sequence (es' ! i) = ed_remote_sequence (es ! i)" "ed_ref (es' ! i) = ed_ref (es ! i)"
    if "i < length es" for i
    using that len nth_map [of i es' ed_remote_sequence] nth_map [of i es' ed_ref] assms by simp_all
  then show ?thesis
    unfolding local_ref_def len
    by (subst find_from_cong [where Q = "\<lambda>i. ed_remote_sequence (es ! i) = s"])
      (auto simp: find_from_Some_iff intro!: option.map_cong)
qed

lemma known_entity_local:
  "local_ref es s = Some r \<Longrightarrow> known_entity sequence es s = (r, mark_seen sequence es s)"
  by (auto simp: local_ref_def mark_seen_def known_entity_def)

lemma peer_knows_mark [simp]: "peer_knows e (mark_seen sequence es s') types t s = peer_knows e es types t s"
  by (simp add: peer_knows_def local_ref_cong [of "mark_seen sequence es s'" es])

lemma local_ref_mark [simp]: "local_ref (mark_seen sequence es s') s = local_ref es s"
  by (rule local_ref_cong) simp_all

definition ref_of :: "entity_data_t list \<Rightarrow> i32 \<Rightarrow> ecs_entity_ref_t" where
  "ref_of es s = the (local_ref es s)"

definition delta_entry_ok :: "ecs_t \<Rightarrow> entity_type_t list \<Rightarrow> delta_entry \<Rightarrow> bool" where
  "delta_entry_ok e types d \<longleftrightarrow> (case d of (t, s, Some p) \<Rightarrow> length p = sizes_of e (replicated types t) | _ \<Rightarrow> True)"

lemma read_entity_known:
  assumes inv: "store_inv m0 m e" and k: "peer_knows e es types t s" and ok: "delta_entry_ok e types (t, s, po)"
    and out: "outside_components e b"
    and bytes: "mem_read m (Some (b, pos)) (length (enc_delta_entry (t, s, po))) = Inr (enc_delta_entry (t, s, po))"
  shows "\<exists>m' n. read_entity call types sequence (m, e, es) b pos = Inr ((m', e, mark_seen sequence es s), n) \<and>
    k_entity_header_size + 1 + n = length (enc_delta_entry (t, s, po)) \<and> store_inv m0 m' e \<and>
    (case po of None \<Rightarrow> m' = m | Some p \<Rightarrow> copy_components m' e (ref_of es s) (replicated types t) = Inr p) \<and>
    (\<forall>r c. ref_entity r \<noteq> ref_entity (ref_of es s) \<longrightarrow> read_component m' e r c = read_component m e r c) \<and>
    (\<forall>pos n. mem_read m' (Some (b, pos)) n = mem_read m (Some (b, pos)) n)"
proof -
  from k obtain r where r: "local_ref es s = Some r" "ecs_is_entity_ref_valid e r True = Inr True"
    "0 \<le> sint t" "sint t < int (length types)" "registered e (replicated types t)" by (auto simp: peer_knows_def)
  have ro: "ref_of es s = r" using r(1) by (simp add: ref_of_def)
  have ty: "array_get types (sint t) = Inr (types ! nat (sint t))" using r by (simp add: array_get_def)
  let ?f = "if po = None then 0 else 1 :: u8" and ?p = "case po of None \<Rightarrow> [] | Some p \<Rightarrow> p"
  have enc: "enc_delta_entry (t, s, po) = entity_header t s @ [?f] @ ?p" by (cases po) simp_all
  have hdr: "mem_read m (Some (b, pos)) k_entity_header_size = Inr (entity_header t s)"
    and rest: "mem_read m (Some (b, pos + k_entity_header_size)) (length ([?f] @ ?p)) = Inr ([?f] @ ?p)"
    using mem_read_append [of m b pos "entity_header t s" "[?f] @ ?p"] bytes unfolding enc by simp_all
  have flag: "mem_read m (Some (b, pos + k_entity_header_size)) 1 = Inr [?f]"
    and pay: "mem_read m (Some (b, pos + k_entity_header_size + 1)) (length ?p) = Inr ?p"
    using mem_read_append [of m b "pos + k_entity_header_size" "[?f]" ?p] rest by simp_all
  show ?thesis
  proof (cases po)
    case None
    have "read_entity call types sequence (m, e, es) b pos = Inr ((m, e, mark_seen sequence es s), 0)"
      using hdr flag None by (simp add: read_entity_def known_entity_local [OF r(1)] r(2))
    then show ?thesis using None inv by simp
  next
    case (Some p)
    have len: "length p = sizes_of e (replicated types t)" using ok Some by (simp add: delta_entry_ok_def)
    obtain m' where W: "write_components m e r (replicated types t) b (pos + k_entity_header_size + 1) = Inr (m', length p)"
      "store_inv m0 m' e" "copy_components m' e r (replicated types t) = Inr p"
      "\<forall>r' c. ref_entity r' \<noteq> ref_entity r \<or> c \<notin> set (replicated types t) \<longrightarrow> read_component m' e r' c = read_component m e r' c"
      "\<forall>pos n. mem_read m' (Some (b, pos)) n = mem_read m (Some (b, pos)) n"
      using write_components_result [OF inv r(2,5) out _ len, of "pos + k_entity_header_size + 1"] pay Some by auto
    have "read_entity call types sequence (m, e, es) b pos = Inr ((m', e, mark_seen sequence es s), length p)"
      using hdr flag Some W(1) ty by (simp add: read_entity_def known_entity_local [OF r(1)] r(2) replicated_def)
    then show ?thesis using W ro Some by (intro exI [of _ m'] exI [of _ "length p"]) simp
  qed
qed

lemma ref_of_mark [simp]: "ref_of (mark_seen sequence es s') s = ref_of es s"
  by (simp add: ref_of_def)

section \<open>Removing what was not seen\<close>

definition refs_in_range :: "entity_data_t list \<Rightarrow> bool" where
  "refs_in_range es \<longleftrightarrow> (\<forall>d \<in> set es. ref_entity (ed_ref d) < int k_max_entities)"

text \<open>The slot of a valid reference.\<close>

definition denotes :: "ecs_t \<Rightarrow> ecs_entity_ref_t \<Rightarrow> nat \<Rightarrow> bool" where
  "denotes e r i \<longleftrightarrow> ref_entity r = int i \<and> sequences e ! i = ref_sequence r \<and> k_entity_pending_add \<le> entity_states e ! i"

lemma valid_denotes:
  assumes "ecs_shape e" and "ref_entity r < int k_max_entities"
  shows "ecs_is_entity_ref_valid e r True = Inr (\<exists>i < k_max_entities. denotes e r i)"
proof (cases "ref_entity r < 0")
  case True
  then show ?thesis by (auto simp: ecs_is_entity_ref_valid_def denotes_def)
next
  case False
  then obtain i where i: "ref_entity r = int i" by (metis nonneg_int_cases not_less)
  with assms show ?thesis
    by (auto simp: ecs_is_entity_ref_valid_def denotes_def ecs_shape_def)
qed

lemma remove_unseen_result:
  assumes "ecs_shape e" and "refs_in_range ds"
  shows "\<exists>st. remove_unseen sequence e ds = Inr (e\<lparr>entity_states := st\<rparr>) \<and> length st = k_max_entities \<and>
    (\<forall>i < k_max_entities. st ! i = (if \<exists>d \<in> set ds. denotes e (ed_ref d) i \<and> ed_last_recved_sequence d \<noteq> sequence
       then k_entity_pending_remove else entity_states e ! i))"
  using assms
proof (induction ds arbitrary: e)
  case Nil
  then show ?case by (auto intro!: exI [of _ "entity_states e"] simp: ecs_shape_def)
next
  case (Cons d ds)
  have rng: "ref_entity (ed_ref d) < int k_max_entities" "refs_in_range ds"
    using Cons.prems(2) by (simp_all add: refs_in_range_def)
  note valid = valid_denotes [OF Cons.prems(1) rng(1)]
  show ?case
  proof (cases "(\<exists>i < k_max_entities. denotes e (ed_ref d) i) \<and> ed_last_recved_sequence d \<noteq> sequence")
    case False
    then have "remove_unseen sequence e (d # ds) = remove_unseen sequence e ds" using valid by auto
    with Cons.IH [OF Cons.prems(1) rng(2)] False show ?thesis by (simp only: list.set bex_simps) (metis (no_types, lifting))
  next
    case True
    then obtain i where i: "i < k_max_entities" "denotes e (ed_ref d) i" by blast
    let ?e1 = "e\<lparr>entity_states := (entity_states e)[i := k_entity_pending_remove]\<rparr>"
    have len: "length (entity_states e) = k_max_entities" using Cons.prems(1) by (simp add: ecs_shape_def)
    have ref: "ref_entity (ed_ref d) = int i" using i(2) by (simp add: denotes_def)
    have "ecs_entity_remove e (ed_ref d) True = Inr ?e1"
      using valid i len ref by (auto simp: ecs_entity_remove_def)
    with valid True have step: "remove_unseen sequence e (d # ds) = remove_unseen sequence ?e1 ds" by simp
    have shape: "ecs_shape ?e1" using Cons.prems(1) by (simp add: ecs_shape_def)
    have same: "denotes ?e1 r j = denotes e r j" if "j < k_max_entities" for r j
      using i that len by (cases "j = i") (auto simp: denotes_def less_eq_entity_state_t_def)
    obtain st where st: "remove_unseen sequence ?e1 ds = Inr (?e1\<lparr>entity_states := st\<rparr>)" "length st = k_max_entities"
      "\<forall>j < k_max_entities. st ! j = (if \<exists>d \<in> set ds. denotes ?e1 (ed_ref d) j \<and> ed_last_recved_sequence d \<noteq> sequence
         then k_entity_pending_remove else entity_states ?e1 ! j)"
      using Cons.IH [OF shape rng(2)] by blast
    have "st ! j = (if \<exists>d' \<in> set (d # ds). denotes e (ed_ref d') j \<and> ed_last_recved_sequence d' \<noteq> sequence
         then k_entity_pending_remove else entity_states e ! j)" if j: "j < k_max_entities" for j
    proof -
      have "denotes e (ed_ref d) j \<longleftrightarrow> j = i" using i(2) by (auto simp: denotes_def)
      then show ?thesis using st(3) j same [OF j] True len by (auto simp: nth_list_update)
    qed
    with st step show ?thesis by (intro exI [of _ st]) simp
  qed
qed

section \<open>From the sender's components to the receiver's\<close>

lemma make_delta_entry:
  "(t, s, p) \<in> set cs \<Longrightarrow> (t, s, Some p) \<in> set (make_delta cs as) \<or>
     ((t, s, None) \<in> set (make_delta cs as) \<and> (\<exists>t'. (t', s, p) \<in> set as))"
  by (induction cs as rule: make_delta.induct) auto

lemma make_delta_heads: "map (\<lambda>(t, s, po). (t, s)) (make_delta cs as) = map (\<lambda>(t, s, p). (t, s)) cs"
  by (induction cs as rule: make_delta.induct) auto

lemma make_delta_payload: "(t, s, Some p) \<in> set (make_delta cs as) \<Longrightarrow> (t, s, p) \<in> set cs"
  by (induction cs as rule: make_delta.induct) (auto split: if_split_asm)

lemma copy_components_states [simp]:
  assumes "ecs_is_entity_ref_valid (e\<lparr>entity_states := st\<rparr>) r True = ecs_is_entity_ref_valid e r True"
  shows "copy_components m (e\<lparr>entity_states := st\<rparr>) r cs = copy_components m e r cs"
  using assms by (induction cs) (simp_all add: ecs_entity_get_component_def ecs_get_component_type_size_def cong: if_cong)

section \<open>The sequence filter\<close>

lemma recv_packet_cases:
  assumes "recv_packet call net (m, e, c) b off n = Inr (m', e', c')"
  obtains (stale) "m' = m" "e' = e" "c' = c"
    | (newer) s ack es where "sint (c_incoming_sequence c) < sint s"
        "c' = c\<lparr>c_incoming_sequence := s, c_ack_sequence := ack, c_entities := es\<rparr>"
  using assms
  by (auto simp: recv_packet_def bind_ok_Inr_iff Let_def not_le split: if_split_asm)

lemma packet_recv_loop_newer:
  "packet_recv_loop call net (m, e, c) q = Inr (m', e', c') \<Longrightarrow>
    sint (c_incoming_sequence c) \<le> sint (c_incoming_sequence c') \<and>
    (c_incoming_sequence c' = c_incoming_sequence c \<longrightarrow>
       m' = m \<and> e' = e \<and> c_entities c' = c_entities c \<and> c_ack_sequence c' = c_ack_sequence c)"
proof (induction call net "(m, e, c)" q arbitrary: m e c rule: packet_recv_loop.induct)
  case (1 call net q m e c)
  from "1.prems" obtain q' r where pop: "queue_try_pop q = Inr (q', r)"
    by (subst (asm) packet_recv_loop.simps) (auto simp: bind_ok_Inr_iff)
  let ?done = "(m', e', c') = (m, e, c\<lparr>c_recv_queue := Some q'\<rparr>)"
  show ?case
  proof (cases ?done)
    case True
    then show ?thesis by simp
  next
    case False
    from "1.prems" pop False obtain b off sz m1 e1 c1 where r: "r = Some (Some (b, off))"
      and sz: "mem_read m (Some (b, off)) 4 = Inr sz" "of_le32 sz \<noteq> 0"
      and one: "recv_packet call net (m, e, c) b off (sint (of_le32 sz)) = Inr (m1, e1, c1)"
      and rest: "packet_recv_loop call net (m1, e1, c1) q' = Inr (m', e', c')"
      by (subst (asm) packet_recv_loop.simps)
        (auto simp: bind_ok_Inr_iff Let_def split: option.split_asm prod.split_asm if_split_asm)
    have IH: "sint (c_incoming_sequence c1) \<le> sint (c_incoming_sequence c') \<and>
      (c_incoming_sequence c' = c_incoming_sequence c1 \<longrightarrow>
         m' = m1 \<and> e' = e1 \<and> c_entities c' = c_entities c1 \<and> c_ack_sequence c' = c_ack_sequence c1)"
      by (rule "1.hyps" [OF pop refl refl r refl refl _ sz(2) one rest]) (use sz(1) in simp_all)
    from one show ?thesis
    proof (cases rule: recv_packet_cases)
      case stale
      with IH show ?thesis by simp
    next
      case (newer s ack es)
      with IH show ?thesis by auto
    qed
  qed
qed

text \<open>
  C23.  The sequence filter: however many packets wait and whatever is in them, receiving never
  lowers \<open>incoming_sequence\<close>, and if it does not raise it, then nothing has changed: no entity, no
  component, no acknowledgement.  So late and repeated packets have no effect.
\<close>

theorem packet_recv_ignores_old_packets:
  assumes "packet_recv call net (m, e, c) = Inr (m', e', c')"
  shows "sint (c_incoming_sequence c) \<le> sint (c_incoming_sequence c') \<and>
    (c_incoming_sequence c' = c_incoming_sequence c \<longrightarrow>
       m' = m \<and> e' = e \<and> c_entities c' = c_entities c \<and> c_ack_sequence c' = c_ack_sequence c)"
  using assms packet_recv_loop_newer by (auto simp: packet_recv_def split: option.split_asm)

text \<open>A late packet: its sequence number is 3, the connection is at 5.\<close>

definition late_queue :: "ptr option queue_t" where
  "late_queue = \<lparr>used_items = \<lparr>sem_count = 1, sem_max = 3\<rparr>, free_items = \<lparr>sem_count = 2, sem_max = 3\<rparr>,
     items = [Some (0, 0), None, None], capacity = 3, head_index = 0, tail_index = 1\<rparr>"

definition late_mem :: mem where
  "late_mem = (mem_init 0 0)\<lparr>blocks := [0 \<mapsto> le32 20 @ le32 3 @ le32 9 @ replicate 1016 0], next_block := 1\<rparr>"

lemma packet_recv_ignores_old_packets_witness:
  "\<exists>c'. packet_recv (\<lambda>_ _ _ _. Inl Misuse) (net_cleared None) (late_mem, demo_ecs,
       connection_zero\<lparr>c_recv_queue := Some late_queue, c_incoming_sequence := 5, c_ack_sequence := 4\<rparr>) =
     Inr (late_mem, demo_ecs, c') \<and> c_ack_sequence c' = 4 \<and> blocks late_mem 0 \<noteq> None"
proof -
  let ?c = "connection_zero\<lparr>c_recv_queue := Some late_queue, c_incoming_sequence := 5, c_ack_sequence := 4\<rparr>"
  have sz: "mem_read late_mem (Some (0, 0)) 4 = Inr (le32 20)" by (simp add: mem_read_def late_mem_def)
  have hdr: "mem_read late_mem (Some (0, 4)) 8 = Inr (le32 3 @ le32 9)" by (simp add: mem_read_def late_mem_def)
  obtain q1 where p1: "queue_try_pop late_queue = Inr (q1, Some (Some (0, 0)))" and "sem_count (used_items q1) = 0"
    by (simp add: queue_try_pop_def late_queue_def semaphore_try_acquire_def queue_take_def atomic_increment_def
        slot_index_def array_get_def)
  then have p2: "queue_try_pop q1 = Inr (q1, None)" by (simp add: queue_try_pop_def semaphore_try_acquire_def)
  have "recv_packet (\<lambda>_ _ _ _. Inl Misuse) (net_cleared None) (late_mem, demo_ecs, ?c) 0 0 (sint (20 :: i32)) =
      Inr (late_mem, demo_ecs, ?c)"
    using hdr by (simp add: recv_packet_def)
  then have run: "packet_recv (\<lambda>_ _ _ _. Inl Misuse) (net_cleared None) (late_mem, demo_ecs, ?c) =
      Inr (late_mem, demo_ecs, ?c\<lparr>c_recv_queue := Some q1\<rparr>)"
    using p1 p2 sz by (simp add: packet_recv_def packet_recv_loop.simps)
  with packet_recv_ignores_old_packets [OF run] show ?thesis by (auto simp: late_mem_def)
qed

section \<open>What unexpected packets do\<close>

text \<open>A late packet is taken from the queue and its memory is kept: nothing else refers to it.\<close>

lemma late_packet_is_leaked:
  assumes "mem_read m (Some (b, off + 4)) 8 = Inr hdr" and "sint (of_le32 (take 4 hdr)) \<le> sint (c_incoming_sequence c)"
    and "blocks m b = Some bs"
  shows "\<exists>m'. recv_packet call net (m, e, c) b off n = Inr (m', e, c) \<and> blocks m' b = Some bs"
  using assms by (simp add: recv_packet_def)

text \<open>The type comes from the peer and is used as an index.\<close>

lemma unknown_type_is_out_of_bounds:
  assumes "mem_read m (Some (b, pos)) k_entity_header_size = Inr (entity_header t s)"
    and "local_ref es s = None" and "sint t < 0 \<or> int (length types) \<le> sint t"
  shows "read_entity call types sequence (m, e, es) b pos = Inl Out_of_bounds"
proof -
  have "known_entity sequence es s = (\<lparr>ref_entity = -1, ref_sequence = 0\<rparr>, es)"
    using assms(2) by (simp add: known_entity_def local_ref_def)
  moreover have "array_get types (sint t) = Inl Out_of_bounds" using assms(3) by (auto simp: array_get_def)
  ultimately show ?thesis
    using assms(1) by (simp add: read_entity_def ecs_is_entity_ref_valid_def spawn_entity_def)
qed

text \<open>A type that was never registered has no callback.\<close>

lemma unregistered_type_calls_null:
  assumes "mem_read m (Some (b, pos)) k_entity_header_size = Inr (entity_header t s)"
    and "local_ref es s = None" and "array_get types (sint t) = Inr entity_type_zero"
  shows "read_entity call types sequence (m, e, es) b pos = Inl Null_deref"
proof -
  have "known_entity sequence es s = (\<lparr>ref_entity = -1, ref_sequence = 0\<rparr>, es)"
    using assms(2) by (simp add: known_entity_def local_ref_def)
  then show ?thesis
    using assms(1,3) by (simp add: read_entity_def ecs_is_entity_ref_valid_def spawn_entity_def entity_type_zero_def
        case_prod_unfold)
qed

text \<open>With the entity table full the new reference is not valid and its components are written
  through a null pointer.\<close>

lemma no_entity_writes_null:
  assumes "ref_entity r < 0" and "array_get (component_type_sizes e) (int c) = Inr z" and "z \<noteq> 0"
    and "mem_read m (Some (b, pos)) (unat z) = Inr bs"
  shows "write_components m e r (c # cs) b pos = Inl Null_deref"
proof -
  have "length bs = unat z"
    using assms(4) by (auto simp: mem_read_def split: option.split_asm if_split_asm)
  with assms(3) have "bs \<noteq> []" by (auto simp: unat_eq_0)
  with assms show ?thesis
    by (simp add: ecs_entity_get_component_def ecs_is_entity_ref_valid_def ecs_get_component_type_size_def mem_write_def)
qed

text \<open>An empty datagram, which anybody can send, ends the receiving thread; so does one that is too long.\<close>

lemma empty_datagram_stops_receiving:
  assumes "data = [] \<or> k_net_mtu < length data" and "sizeof_packet_t \<le> os_avail m"
  shows "\<exists>m'. recv_thread_func now (Some (data, address)) m net = Inr (m', net, False)"
proof -
  obtain m1 where "heap_alloc m sizeof_packet_t 8 = (m1, Some (next_block m, 0))"
    "blocks m1 (next_block m) = Some (replicate sizeof_packet_t (junk m))"
    using assms(2) by (auto simp: heap_alloc_def sizeof_packet_t_def)
  then show ?thesis using assms(1) by (auto simp: recv_thread_func_def heap_free_def)
qed

text \<open>A datagram that arrives when three are waiting is neither queued nor released.\<close>

lemma packet_for_full_queue_is_leaked:
  assumes "find_or_create_connection now net address = (net, Some i)" and "i < length (net_connections net)"
    and "c_recv_queue (net_connections net ! i) = Some q" and "queue_ready 0 q" and "length (queue_list q) = q_cap q"
    and "data \<noteq> []" "length data \<le> k_net_mtu" and "sizeof_packet_t \<le> os_avail m"
  shows "\<exists>m' net'. recv_thread_func now (Some (data, address)) m net = Inr (m', net', True) \<and>
    blocks m' (next_block m) \<noteq> None \<and> c_recv_queue (net_connections net' ! i) = Some q"
proof -
  obtain m1 where a: "heap_alloc m sizeof_packet_t 8 = (m1, Some (next_block m, 0))"
    "blocks m1 (next_block m) = Some (replicate sizeof_packet_t (junk m))"
    using assms(8) by (auto simp: heap_alloc_def sizeof_packet_t_def)
  obtain m2 bs2 where w2: "mem_write m1 (Some (next_block m, 4)) data = Inr m2" "blocks m2 (next_block m) = Some bs2"
    "length bs2 = sizeof_packet_t"
    using a(2) assms(7) by (simp add: mem_write_ok sizeof_packet_t_def k_net_mtu_def)
  obtain m3 bs3 where w3: "mem_write m2 (Some (next_block m, 0)) (le32 (word_of_nat (length data))) = Inr m3"
    "blocks m3 (next_block m) = Some bs3"
    using w2(2,3) by (simp add: mem_write_ok sizeof_packet_t_def)
  have "queue_try_push q (Some (next_block m, 0)) = Inr (q, False)"
    using ring.push_full [OF assms(4)] assms(5) by simp
  then show ?thesis
    using assms(1-3,6,7) a(1) w2(1) w3 by (simp add: recv_thread_func_def Let_def)
qed

end
