(* ===== verification/Net_Ring.thy ===== *)
theory Net_Ring
  imports Net_Replication Ecs_Props
begin

text \<open>
  The ring of snapshots as a state machine: from \<^verbatim>\<open>ecs_create\<close>, \<^verbatim>\<open>net_create\<close> and the registration of
  the entity types on, the game changes entities, components and registered instances as it
  likes, and \<^verbatim>\<open>net_update\<close> takes snapshots.  In every state that can be reached the snapshot call
  succeeds, and the ring is as \<^verbatim>\<open>packet_add_entities\<close> and the peer need it.
\<close>

section \<open>What a snapshot holds\<close>











section \<open>The game around the ring\<close>


definition ecs_owns :: "ecs_t \<Rightarrow> ptr \<Rightarrow> bool" where
  "ecs_owns e p \<longleftrightarrow> Some p \<in> set (components e) \<or> ecs_self e = Some p"




text \<open>
  One step is a call on the entity system, any use of memory that leaves the entity system's blocks
  allocated (component writes, packets, the rest of the game), the registration of a valid entity
  of a type in range that is not in the table yet, or the part of \<^verbatim>\<open>net_update\<close> that concerns the
  ring: the snapshot and the counter (below its overflow).
\<close>

inductive net_game_step :: "mem \<times> ecs_t \<times> net_t \<Rightarrow> mem \<times> ecs_t \<times> net_t \<Rightarrow> bool" where
  game_entities: "ecs_step (m, e) (m', e') \<Longrightarrow> net_game_step (m, e, net) (m', e', net)"
| game_memory: "mem_ok m' \<Longrightarrow> (\<And>p. ecs_owns e p \<Longrightarrow> block_size m' p = block_size m p) \<Longrightarrow>
     net_game_step (m, e, net) (m', e, net)"
| game_register: "ref_live e r \<Longrightarrow> 0 \<le> sint t \<Longrightarrow> nat (sint t) < k_max_entity_types \<Longrightarrow>
     (\<And>d. d \<in> set (net_entities net) \<Longrightarrow> ref_sequence (ed_ref d) \<noteq> ref_sequence r) \<Longrightarrow>
     net_state_register_entity_instance e net t r = Inr net' \<Longrightarrow> net_game_step (m, e, net) (m, e, net')"
| game_frame: "snapshot_entities m e net = Inr net' \<Longrightarrow> sint (net_sequence net) < 2 ^ 31 - 1 \<Longrightarrow>
     net_game_step (m, e, net) (m, e, net'\<lparr>net_sequence := net_sequence net' + 1\<rparr>)"

inductive_cases net_game_stepE: "net_game_step (m, e, net) s'"


section \<open>The invariant\<close>
























section \<open>A snapshot\<close>



section \<open>Every step keeps the invariant\<close>









section \<open>The start\<close>









end
