(* ===== verification/Net_Mirror.thy ===== *)
theory Net_Mirror
  imports Net_Replication
begin

text \<open>
  Replication as a whole: a packet is read by a peer that knows some of the entities and not
  others.  Afterwards it has all of them, with the sender's bytes, under the connection's table; and
  the entities of the table that the packet does not mention are taken away.
\<close>

section \<open>The peer's table\<close>

text \<open>The references of a connection's table have been issued or are zero; an entry whose entity is
  there is the first one with its remote number, and its entity is no other entry's.\<close>

definition live_entry :: "ecs_t \<Rightarrow> entity_data_t list \<Rightarrow> nat \<Rightarrow> bool" where
  "live_entry e es i \<longleftrightarrow> i < length es \<and> ref_live e (ed_ref (es ! i))"

definition peer_table :: "ecs_t \<Rightarrow> entity_data_t list \<Rightarrow> bool" where
  "peer_table e es \<longleftrightarrow>
     (\<forall>d \<in> set es. ref_entity (ed_ref d) < int k_max_entities \<and>
        unat (ref_sequence (ed_ref d)) < unat (global_sequence e)) \<and>
     (\<forall>i j. live_entry e es i \<longrightarrow> j < i \<longrightarrow> ed_remote_sequence (es ! j) \<noteq> ed_remote_sequence (es ! i)) \<and>
     (\<forall>i j. live_entry e es i \<longrightarrow> live_entry e es j \<longrightarrow> ref_entity (ed_ref (es ! i)) = ref_entity (ed_ref (es ! j)) \<longrightarrow> i = j)"

definition known :: "ecs_t \<Rightarrow> entity_data_t list \<Rightarrow> i32 \<Rightarrow> bool" where
  "known e es s \<longleftrightarrow> (\<exists>r. local_ref es s = Some r \<and> ref_live e r)"

lemma local_ref_first:
  assumes "i < length es" and "ed_remote_sequence (es ! i) = s" and "\<forall>j < i. ed_remote_sequence (es ! j) \<noteq> s"
  shows "local_ref es s = Some (ed_ref (es ! i))"
proof -
  have "find_from (\<lambda>i. ed_remote_sequence (es ! i) = s) 0 (length es) = Some i"
    using assms by (simp add: find_from_Some_iff)
  then show ?thesis by (simp add: local_ref_def)
qed

lemma local_ref_SomeD:
  assumes "local_ref es s = Some r"
  obtains i where "i < length es" "ed_remote_sequence (es ! i) = s" "\<forall>j < i. ed_remote_sequence (es ! j) \<noteq> s"
    "r = ed_ref (es ! i)"
  using assms by (auto simp: local_ref_def find_from_Some_iff)

lemma peer_tableD:
  assumes "peer_table e es"
  shows "d \<in> set es \<Longrightarrow> ref_entity (ed_ref d) < int k_max_entities"
    and "d \<in> set es \<Longrightarrow> unat (ref_sequence (ed_ref d)) < unat (global_sequence e)"
    and "live_entry e es i \<Longrightarrow> j < i \<Longrightarrow> ed_remote_sequence (es ! j) \<noteq> ed_remote_sequence (es ! i)"
    and "live_entry e es i \<Longrightarrow> live_entry e es j \<Longrightarrow> ref_entity (ed_ref (es ! i)) = ref_entity (ed_ref (es ! j)) \<Longrightarrow> i = j"
  using assms unfolding peer_table_def by blast+

lemma known_entry:
  assumes "known e es s"
  obtains i where "live_entry e es i" "ed_remote_sequence (es ! i) = s" "ref_of es s = ed_ref (es ! i)"
    "\<forall>j < i. ed_remote_sequence (es ! j) \<noteq> s"
proof -
  from assms obtain r where r: "local_ref es s = Some r" "ref_live e r" by (auto simp: known_def)
  from r(1) obtain i where "i < length es" "ed_remote_sequence (es ! i) = s" "\<forall>j < i. ed_remote_sequence (es ! j) \<noteq> s"
    "r = ed_ref (es ! i)" by (rule local_ref_SomeD)
  with r that [of i] show thesis by (simp add: live_entry_def ref_of_def)
qed

lemma live_entry_known:
  assumes "peer_table e es" and "live_entry e es i"
  shows "known e es (ed_remote_sequence (es ! i))" and "ref_of es (ed_remote_sequence (es ! i)) = ed_ref (es ! i)"
proof -
  have "local_ref es (ed_remote_sequence (es ! i)) = Some (ed_ref (es ! i))"
    using assms peer_tableD(3) [OF assms(1,2)] by (intro local_ref_first) (auto simp: live_entry_def)
  then show "known e es (ed_remote_sequence (es ! i))" "ref_of es (ed_remote_sequence (es ! i)) = ed_ref (es ! i)"
    using assms(2) by (auto simp: known_def ref_of_def live_entry_def)
qed

lemma known_refs_differ:
  assumes "peer_table e es" and "known e es s" and "known e es s'" and "s \<noteq> s'"
  shows "ref_entity (ref_of es s) \<noteq> ref_entity (ref_of es s')"
proof
  assume eq: "ref_entity (ref_of es s) = ref_entity (ref_of es s')"
  from assms(2) obtain i where i: "live_entry e es i" "ed_remote_sequence (es ! i) = s" "ref_of es s = ed_ref (es ! i)"
    by (rule known_entry)
  from assms(3) obtain j where j: "live_entry e es j" "ed_remote_sequence (es ! j) = s'" "ref_of es s' = ed_ref (es ! j)"
    by (rule known_entry)
  have "i = j" using peer_tableD(4) [OF assms(1) i(1) j(1)] eq i(3) j(3) by simp
  with i(2) j(2) assms(4) show False by simp
qed

text \<open>The slots of the entity system whose entity is in the table, was not seen with this sequence
  number, and has a remote number outside \<open>S\<close>.\<close>

definition unseen :: "i32 \<Rightarrow> ecs_t \<Rightarrow> entity_data_t list \<Rightarrow> i32 set \<Rightarrow> nat set" where
  "unseen sequence e es S = {k. k < k_max_entities \<and> (\<exists>j < length es. denotes e (ed_ref (es ! j)) k \<and>
     ed_last_recved_sequence (es ! j) \<noteq> sequence \<and> ed_remote_sequence (es ! j) \<notin> S)}"

lemma live_denotes:
  assumes "ecs_shape e" and "ref_entity r < int k_max_entities"
  shows "ref_live e r \<longleftrightarrow> (\<exists>i < k_max_entities. denotes e r i)"
  using valid_denotes [OF assms] by (simp add: ref_live_def)

lemma mark_seen_nth:
  assumes "j < length es"
  shows "mark_seen sequence es s ! j = (if ed_remote_sequence (es ! j) = s \<and> (\<forall>i < j. ed_remote_sequence (es ! i) \<noteq> s)
    then (es ! j)\<lparr>ed_last_recved_sequence := sequence\<rparr> else es ! j)"
proof (cases "find_from (\<lambda>i. ed_remote_sequence (es ! i) = s) 0 (length es)")
  case None
  then have "mark_seen sequence es s = es" by (simp add: mark_seen_def known_entity_def)
  moreover have "ed_remote_sequence (es ! j) \<noteq> s" using None assms by (simp add: find_from_None_iff)
  ultimately show ?thesis by simp
next
  case (Some k)
  then have "k < length es" "ed_remote_sequence (es ! k) = s" "\<forall>i < k. ed_remote_sequence (es ! i) \<noteq> s"
    by (simp_all add: find_from_Some_iff)
  with Some assms show ?thesis
    by (auto simp: mark_seen_def known_entity_def nth_list_update) (metis linorder_neqE_nat)+
qed

lemma mark_seen_sel:
  assumes "j < length es"
  shows "ed_ref (mark_seen sequence es s ! j) = ed_ref (es ! j)"
    "ed_remote_sequence (mark_seen sequence es s ! j) = ed_remote_sequence (es ! j)"
  using assms by (simp_all add: mark_seen_nth)

lemma live_entry_mark [simp]: "live_entry e (mark_seen sequence es s) i = live_entry e es i"
  by (auto simp: live_entry_def mark_seen_sel)

lemma peer_table_mark:
  assumes tab: "peer_table e es"
  shows "peer_table e (mark_seen sequence es s)"
  unfolding peer_table_def live_entry_mark
proof (intro conjI allI impI ballI)
  fix d assume "d \<in> set (mark_seen sequence es s)"
  then obtain j where "j < length es" "d = mark_seen sequence es s ! j" by (auto simp: in_set_conv_nth)
  then have "\<exists>d0 \<in> set es. ed_ref d = ed_ref d0" using mark_seen_sel(1) nth_mem by metis
  then show "ref_entity (ed_ref d) < int k_max_entities" "unat (ref_sequence (ed_ref d)) < unat (global_sequence e)"
    using peer_tableD(1,2) [OF tab] by metis+
next
  fix i j assume i: "live_entry e es i" "j < i"
  then have "i < length es" "j < length es" by (simp_all add: live_entry_def)
  with peer_tableD(3) [OF tab i]
  show "ed_remote_sequence (mark_seen sequence es s ! j) \<noteq> ed_remote_sequence (mark_seen sequence es s ! i)"
    by (simp add: mark_seen_sel)
next
  fix i j assume i: "live_entry e es i" "live_entry e es j"
    and eq: "ref_entity (ed_ref (mark_seen sequence es s ! i)) = ref_entity (ed_ref (mark_seen sequence es s ! j))"
  then have "i < length es" "j < length es" by (simp_all add: live_entry_def)
  with eq show "i = j" using peer_tableD(4) [OF tab i] by (simp add: mark_seen_sel)
qed

lemma unseen_mark:
  assumes tab: "peer_table e es" and sh: "ecs_shape e"
  shows "unseen sequence e (mark_seen sequence es s) S = unseen sequence e es (insert s S)"
proof -
  have first: "\<forall>i < j. ed_remote_sequence (es ! i) \<noteq> ed_remote_sequence (es ! j)"
    if "j < length es" "denotes e (ed_ref (es ! j)) k" "k < k_max_entities" for j k
  proof -
    have "ref_entity (ed_ref (es ! j)) < int k_max_entities" using that(2,3) by (simp add: denotes_def)
    then have "live_entry e es j" using live_denotes [OF sh] that by (auto simp: live_entry_def)
    then show ?thesis using peer_tableD(3) [OF tab] by blast
  qed
  have one: "(denotes e (ed_ref (mark_seen sequence es s ! j)) k \<and>
       ed_last_recved_sequence (mark_seen sequence es s ! j) \<noteq> sequence \<and> ed_remote_sequence (mark_seen sequence es s ! j) \<notin> S) \<longleftrightarrow>
      (denotes e (ed_ref (es ! j)) k \<and> ed_last_recved_sequence (es ! j) \<noteq> sequence \<and> ed_remote_sequence (es ! j) \<notin> insert s S)"
    if "j < length es" "k < k_max_entities" for j k
    using that first [OF that(1) _ that(2)] by (auto simp: mark_seen_nth)
  show ?thesis unfolding unseen_def using one by auto
qed

section \<open>A new entity\<close>

text \<open>What the code relies on of a configure callback: it returns, sets up no more than the components
  of the entity it is given, and leaves the tables and the packet alone.\<close>

definition configures :: "callback \<Rightarrow> nat \<Rightarrow> bool" where
  "configures call b \<longleftrightarrow> (\<forall>f m0 m e r t. store_inv m0 m e \<longrightarrow> ref_live e r \<longrightarrow>
     (\<exists>m'. call f (m, e) r t = Inr (m', e) \<and> store_inv m0 m' e \<and>
       (\<forall>r' c. ref_entity r' \<noteq> ref_entity r \<longrightarrow> read_component m' e r' c = read_component m e r' c) \<and>
       (\<forall>pos n. mem_read m' (Some (b, pos)) n = mem_read m (Some (b, pos)) n)))"

lemma configuresD:
  assumes "configures call b" and "store_inv m0 m e" and "ref_live e r"
  obtains m' where "call f (m, e) r t = Inr (m', e)" "store_inv m0 m' e"
    "\<And>r' c. ref_entity r' \<noteq> ref_entity r \<Longrightarrow> read_component m' e r' c = read_component m e r' c"
    "\<And>pos n. mem_read m' (Some (b, pos)) n = mem_read m (Some (b, pos)) n"
  using assms unfolding configures_def by metis

lemma first_invalid_finds:
  assumes sh: "ecs_shape e" and "\<forall>d \<in> set ds. ref_entity (ed_ref d) < int k_max_entities"
    and "\<exists>d \<in> set ds. \<not> ref_live e (ed_ref d)"
  shows "\<exists>i. first_invalid e ds k = Inr (Some (k + i)) \<and> i < length ds \<and> \<not> ref_live e (ed_ref (ds ! i)) \<and>
    (\<forall>j < i. ref_live e (ed_ref (ds ! j)))"
  using assms(2,3)
proof (induction ds arbitrary: k)
  case (Cons d ds)
  have v: "ecs_is_entity_ref_valid e (ed_ref d) True = Inr (ref_live e (ed_ref d))"
    using valid_denotes [OF sh] live_denotes [OF sh] Cons.prems(1) by simp
  show ?case
  proof (cases "ref_live e (ed_ref d)")
    case False
    with v show ?thesis by (intro exI [of _ 0]) simp
  next
    case True
    then obtain i where "first_invalid e ds (Suc k) = Inr (Some (Suc k + i))" "i < length ds"
      "\<not> ref_live e (ed_ref (ds ! i))" "\<forall>j < i. ref_live e (ed_ref (ds ! j))"
      using Cons.IH [of "Suc k"] Cons.prems by auto
    then show ?thesis using v True by (intro exI [of _ "Suc i"]) (auto simp: less_Suc_eq_0_disj)
  qed
qed simp

text \<open>The entity system before and after the addition of one entity.\<close>

lemma entity_added:
  assumes inv: "ecs_inv e" and room: "\<exists>i < k_max_entities. entity_states e ! i = k_entity_unused"
    and wrap: "global_sequence e \<noteq> -1"
  obtains k e1 r where "ecs_entity_add e cm = (e1, r)" "k < k_max_entities" "entity_states e ! k = k_entity_unused"
    "ref_entity r = int k" "ref_sequence r = global_sequence e" "ecs_inv e1" "ref_live e1 r"
    "unat (global_sequence e1) = Suc (unat (global_sequence e))"
    "components e1 = components e" "component_type_sizes e1 = component_type_sizes e" "ecs_self e1 = ecs_self e"
    "\<And>j. j < k_max_entities \<Longrightarrow> entity_states e1 ! j = (if j = k then k_entity_pending_add else entity_states e ! j)"
    "\<And>j. j < k_max_entities \<Longrightarrow> sequences e1 ! j = (if j = k then global_sequence e else sequences e ! j)"
proof (cases rule: ecs_add_cases [of e cm])
  case full
  with room show thesis by blast
next
  case (slot k)
  let ?e1 = "e\<lparr>entity_states := (entity_states e)[k := k_entity_pending_add], sequences := (sequences e)[k := global_sequence e],
     global_sequence := global_sequence e + 1, component_masks := (component_masks e)[k := cm]\<rparr>"
  let ?r = "\<lparr>ref_entity = int k, ref_sequence = global_sequence e\<rparr>"
  have len: "length (entity_states e) = k_max_entities" "length (sequences e) = k_max_entities"
    using inv by (simp_all add: ecs_inv_def ecs_shape_def)
  have inv1: "ecs_inv ?e1" using ecs_add_inv [OF inv wrap, of cm] slot(4) by simp
  then have "ecs_shape ?e1" by (simp add: ecs_inv_def)
  then have live: "ref_live ?e1 ?r"
    using ref_live_iff [of ?e1 k ?r] slot(1) len by (simp add: less_eq_entity_state_t_def)
  show thesis
    by (rule that [OF slot(4,1,2) _ _ inv1 live]) (use len slot(1) wrap in \<open>simp_all add: word_plus_one_gt nth_list_update\<close>)
qed

lemma denotes_added:
  assumes "entity_states e ! k = k_entity_unused" and "unat (ref_sequence r') < unat (global_sequence e)"
    and "entity_states e1 ! j = (if j = k then k_entity_pending_add else entity_states e ! j)"
    and "sequences e1 ! j = (if j = k then global_sequence e else sequences e ! j)"
  shows "denotes e1 r' j \<longleftrightarrow> denotes e r' j"
  using assms used_state_ge by (auto simp: denotes_def)

lemma read_component_cong:
  assumes "ref_live e r" and "ref_live e1 r" and "components e1 = components e" and "component_type_sizes e1 = component_type_sizes e"
  shows "read_component m e1 r c = read_component m e r c"
  using assms by (simp add: read_component_def ecs_entity_get_component_def ecs_get_component_type_size_def ref_live_def
      cong: if_cong)

text \<open>The table after an entity \<open>r\<close>, new in slot \<open>k\<close> of the entity system, is remembered in entry \<open>i\<close>.\<close>

lemma remembered:
  assumes tab: "peer_table e es" and ei: "ecs_inv e" and e1: "ecs_inv e1"
    and k: "k < k_max_entities" "entity_states e ! k = k_entity_unused" "ref_entity r = int k" "ref_sequence r = global_sequence e"
    and st: "\<And>j. j < k_max_entities \<Longrightarrow> entity_states e1 ! j = (if j = k then k_entity_pending_add else entity_states e ! j)"
    and sq: "\<And>j. j < k_max_entities \<Longrightarrow> sequences e1 ! j = (if j = k then global_sequence e else sequences e ! j)"
    and gs: "unat (global_sequence e1) = Suc (unat (global_sequence e))"
    and new: "\<not> known e es s"
    and i: "i < length es" "\<not> live_entry e1 es i" "\<forall>j < i. live_entry e1 es j"
    and es1: "es1 = es[i := \<lparr>ed_ref = r, ed_type = t, ed_remote_sequence = s, ed_last_recved_sequence = sequence\<rparr>]"
  shows "peer_table e1 es1" and "known e1 es1 s" and "ref_of es1 s = r" and "ref_live e1 r"
    and "known e es s' \<Longrightarrow> known e1 es1 s' \<and> ref_of es1 s' = ref_of es s'"
    and "unseen sequence e1 es1 S = unseen sequence e es (insert s S)"
    and "live_entry e1 es1 j \<longleftrightarrow> live_entry e es j \<or> j = i" and "\<not> live_entry e es i"
proof -
  have sh: "ecs_shape e" and sh1: "ecs_shape e1" using ei e1 by (simp_all add: ecs_inv_def)
  have old: "denotes e1 (ed_ref (es ! j)) q \<longleftrightarrow> denotes e (ed_ref (es ! j)) q" if "j < length es" "q < k_max_entities" for j q
    by (rule denotes_added [OF k(2) _ st [OF that(2)] sq [OF that(2)]]) (use peer_tableD(2) [OF tab] that in simp)
  have live_old: "live_entry e1 es j \<longleftrightarrow> live_entry e es j" for j
  proof (cases "j < length es")
    case True
    then have lt: "ref_entity (ed_ref (es ! j)) < int k_max_entities" using peer_tableD(1) [OF tab] by simp
    show ?thesis
      unfolding live_entry_def live_denotes [OF sh lt] live_denotes [OF sh1 lt] using old [OF True] by blast
  qed (simp add: live_entry_def)
  have r_denotes: "denotes e1 r q \<longleftrightarrow> q = k" if "q < k_max_entities" for q
    using that k st sq by (auto simp: denotes_def less_eq_entity_state_t_def)
  show rl: "ref_live e1 r" using live_denotes [OF sh1, of r] r_denotes k(1,3) by auto
  show ni: "\<not> live_entry e es i" using i(2) live_old by simp
  have at: "es1 ! j = (if j = i then \<lparr>ed_ref = r, ed_type = t, ed_remote_sequence = s, ed_last_recved_sequence = sequence\<rparr> else es ! j)"
    if "j < length es" for j using that i(1) by (simp add: es1 nth_list_update)
  have len: "length es1 = length es" by (simp add: es1)
  show live1: "live_entry e1 es1 j \<longleftrightarrow> live_entry e es j \<or> j = i" for j
    using live_old [of j] i(1) rl by (cases "j = i") (auto simp: live_entry_def len at)
  have not_s: "ed_remote_sequence (es ! j) \<noteq> s" if "live_entry e es j" for j
    using live_entry_known(1) [OF tab that] new by auto
  have not_k: "ref_entity (ed_ref (es ! j)) \<noteq> int k" if lj: "live_entry e es j" for j
  proof
    assume eq: "ref_entity (ed_ref (es ! j)) = int k"
    from lj have "j < length es" "ref_live e (ed_ref (es ! j))" by (simp_all add: live_entry_def)
    then have "denotes e (ed_ref (es ! j)) k" using ref_live_iff [OF sh k(1) eq] eq by (simp add: denotes_def)
    then show False using k(2) used_state_ge by (auto simp: denotes_def)
  qed
  show tab1: "peer_table e1 es1"
    unfolding peer_table_def live1
  proof (intro conjI allI impI ballI)
    fix d assume "d \<in> set es1"
    then obtain j where "j < length es" "d = es1 ! j" by (auto simp: in_set_conv_nth len)
    then have "ed_ref d = r \<or> d \<in> set es" by (simp add: at)
    then show "ref_entity (ed_ref d) < int k_max_entities" "unat (ref_sequence (ed_ref d)) < unat (global_sequence e1)"
      using peer_tableD(1,2) [OF tab, of d] k gs by auto
  next
    fix a c assume a: "live_entry e es a \<or> a = i" "c < a"
    have la: "a < length es" using a(1) i(1) by (auto simp: live_entry_def)
    show "ed_remote_sequence (es1 ! c) \<noteq> ed_remote_sequence (es1 ! a)"
    proof (cases "a = i")
      case True
      then have "live_entry e es c" using i(3) a(2) live_old by simp
      then show ?thesis using not_s a(2) la True by (simp add: at)
    next
      case False
      then have "live_entry e es a" using a(1) by simp
      then show ?thesis using not_s [of a] peer_tableD(3) [OF tab _ a(2)] a(2) la False by (auto simp: at)
    qed
  next
    fix a c assume a: "live_entry e es a \<or> a = i" "live_entry e es c \<or> c = i"
      and eq: "ref_entity (ed_ref (es1 ! a)) = ref_entity (ed_ref (es1 ! c))"
    have "a < length es" "c < length es" using a i(1) by (auto simp: live_entry_def)
    with eq a show "a = c" using peer_tableD(4) [OF tab, of a c] not_k [of a] not_k [of c] k(3) by (auto simp: at split: if_split_asm)
  qed
  have li: "live_entry e1 es1 i" by (simp add: live1)
  have remi: "ed_remote_sequence (es1 ! i) = s" "ed_ref (es1 ! i) = r" using i(1) by (simp_all add: at)
  show "known e1 es1 s" "ref_of es1 s = r" using live_entry_known [OF tab1 li] remi by simp_all
  show "known e1 es1 s' \<and> ref_of es1 s' = ref_of es s'" if kn: "known e es s'"
  proof -
    from kn obtain j where j: "live_entry e es j" "ed_remote_sequence (es ! j) = s'" "ref_of es s' = ed_ref (es ! j)"
      by (rule known_entry)
    have ji: "j \<noteq> i" using j(1) ni by auto
    have lj: "j < length es" using j(1) by (simp add: live_entry_def)
    have "live_entry e1 es1 j" using j(1) by (simp add: live1)
    from live_entry_known [OF tab1 this] show ?thesis using j ji lj by (simp add: at)
  qed
  have "(\<exists>j < length es. denotes e1 (ed_ref (es1 ! j)) q \<and> ed_last_recved_sequence (es1 ! j) \<noteq> sequence \<and> ed_remote_sequence (es1 ! j) \<notin> S) \<longleftrightarrow>
      (\<exists>j < length es. denotes e (ed_ref (es ! j)) q \<and> ed_last_recved_sequence (es ! j) \<noteq> sequence \<and> ed_remote_sequence (es ! j) \<notin> insert s S)"
    if q: "q < k_max_entities" for q
  proof -
    have dl: "live_entry e es j" if "j < length es" "denotes e (ed_ref (es ! j)) q" for j
    proof -
      have "ref_entity (ed_ref (es ! j)) < int k_max_entities" using that(2) q by (simp add: denotes_def)
      then show ?thesis using live_denotes [OF sh] that q by (auto simp: live_entry_def)
    qed
    have "(denotes e1 (ed_ref (es1 ! j)) q \<and> ed_last_recved_sequence (es1 ! j) \<noteq> sequence \<and> ed_remote_sequence (es1 ! j) \<notin> S) \<longleftrightarrow>
        (denotes e (ed_ref (es ! j)) q \<and> ed_last_recved_sequence (es ! j) \<noteq> sequence \<and> ed_remote_sequence (es ! j) \<notin> insert s S)"
      if "j < length es" for j
    proof (cases "j = i")
      case True
      then show ?thesis using dl [OF that] ni that by (auto simp: at)
    next
      case False
      then show ?thesis using old [OF that q] dl [OF that] not_s [of j] that by (auto simp: at)
    qed
    then show ?thesis by auto
  qed
  then show "unseen sequence e1 es1 S = unseen sequence e es (insert s S)"
    unfolding unseen_def len by blast
qed

section \<open>One entity of a packet\<close>

text \<open>The free slots of the entity system and of the connection's table.\<close>

definition free_slots :: "ecs_t \<Rightarrow> nat" where
  "free_slots e = card {i. i < k_max_entities \<and> entity_states e ! i = k_entity_unused}"

definition free_entries :: "ecs_t \<Rightarrow> entity_data_t list \<Rightarrow> nat" where
  "free_entries e es = card {i. i < length es \<and> \<not> live_entry e es i}"

text \<open>A type with a callback whose replicated components are registered, and bytes of its size.\<close>

definition entry_readable :: "ecs_t \<Rightarrow> entity_type_t list \<Rightarrow> delta_entry \<Rightarrow> bool" where
  "entry_readable e types d \<longleftrightarrow> (case d of (t, s, po) \<Rightarrow>
     0 \<le> sint t \<and> sint t < int (length types) \<and> et_configure_callback (types ! nat (sint t)) \<noteq> None \<and>
     registered e (replicated types t) \<and>
     unat (et_replicated_size (types ! nat (sint t))) = sizes_of e (replicated types t) \<and>
     (case po of None \<Rightarrow> True | Some p \<Rightarrow> length p = sizes_of e (replicated types t)))"

type_synonym peer = "mem \<times> ecs_t \<times> entity_data_t list"

definition peer_ok :: "mem \<Rightarrow> nat \<Rightarrow> peer \<Rightarrow> bool" where
  "peer_ok m0 b st \<longleftrightarrow> (case st of (m, e, es) \<Rightarrow>
     store_inv m0 m e \<and> ecs_inv e \<and> peer_table e es \<and> outside_components e b)"

text \<open>The result of reading the entities \<open>ds\<close> of a packet, without what is to be removed: what was known
  stays known and keeps its bytes if \<open>ds\<close> does not mention it; no entity but the new ones changes.\<close>

definition known_kept :: "peer \<Rightarrow> peer \<Rightarrow> i32 set \<Rightarrow> bool" where
  "known_kept st st' M \<longleftrightarrow> (case (st, st') of ((m, e, es), (m', e', es')) \<Rightarrow>
     \<forall>s. known e es s \<longrightarrow> known e' es' s \<and> ref_of es' s = ref_of es s \<and>
       (s \<notin> M \<longrightarrow> (\<forall>c. read_component m' e' (ref_of es s) c = read_component m e (ref_of es s) c)))"

definition slots_changed :: "peer \<Rightarrow> peer \<Rightarrow> i32 set \<Rightarrow> bool" where
  "slots_changed st st' M \<longleftrightarrow> (case (st, st') of ((m, e, es), (m', e', es')) \<Rightarrow>
     components e' = components e \<and> component_type_sizes e' = component_type_sizes e \<and>
     (\<forall>j < k_max_entities. (entity_states e' ! j = entity_states e ! j \<and> sequences e' ! j = sequences e ! j) \<or>
        (entity_states e ! j = k_entity_unused \<and> entity_states e' ! j = k_entity_pending_add \<and>
           (\<exists>s \<in> M. \<not> known e es s \<and> known e' es' s \<and> ref_entity (ref_of es' s) = int j))))"

definition room_left :: "peer \<Rightarrow> peer \<Rightarrow> nat \<Rightarrow> bool" where
  "room_left st st' n \<longleftrightarrow> (case (st, st') of ((m, e, es), (m', e', es')) \<Rightarrow>
     free_slots e \<le> free_slots e' + n \<and> free_entries e es \<le> free_entries e' es' + n \<and>
     unat (global_sequence e') \<le> unat (global_sequence e) + n)"

definition entity_brought :: "peer \<Rightarrow> peer \<Rightarrow> entity_type_t list \<Rightarrow> delta_entry \<Rightarrow> bool" where
  "entity_brought st st' types d \<longleftrightarrow> (case (st, st', d) of ((m, e, es), (m', e', es'), (t, s, po)) \<Rightarrow>
     known e' es' s \<and> copy_components m' e' (ref_of es' s) (replicated types t) =
       (case po of Some p \<Rightarrow> Inr p | None \<Rightarrow> copy_components m e (ref_of es s) (replicated types t)))"

definition new_count :: "ecs_t \<Rightarrow> entity_data_t list \<Rightarrow> delta_entry list \<Rightarrow> nat" where
  "new_count e es ds = length (filter (\<lambda>(t, s, po). \<not> known e es s) ds)"

lemma free_slots_added:
  assumes "k < k_max_entities" and "entity_states e ! k = k_entity_unused"
    and "\<And>j. j < k_max_entities \<Longrightarrow> entity_states e1 ! j = (if j = k then k_entity_pending_add else entity_states e ! j)"
  shows "free_slots e = Suc (free_slots e1)"
proof -
  let ?A = "{i. i < k_max_entities \<and> entity_states e ! i = k_entity_unused}"
  have "{i. i < k_max_entities \<and> entity_states e1 ! i = k_entity_unused} = ?A - {k}"
    using assms(3) by (auto split: if_split_asm)
  moreover have "k \<in> ?A" "finite ?A" using assms by auto
  ultimately show ?thesis unfolding free_slots_def by (simp only: card_Suc_Diff1)
qed

lemma free_entries_added:
  assumes "i < length es" and "\<not> live_entry e es i" and "length es1 = length es"
    and "\<And>j. live_entry e1 es1 j \<longleftrightarrow> live_entry e es j \<or> j = i"
  shows "free_entries e es = Suc (free_entries e1 es1)"
proof -
  let ?A = "{j. j < length es \<and> \<not> live_entry e es j}"
  have "{j. j < length es1 \<and> \<not> live_entry e1 es1 j} = ?A - {i}"
    unfolding assms(3,4) by blast
  moreover have "i \<in> ?A" "finite ?A" using assms(1,2) by simp_all
  ultimately show ?thesis unfolding free_entries_def by (simp only: card_Suc_Diff1)
qed

lemma known_valid: "known e es s \<Longrightarrow> ecs_is_entity_ref_valid e (ref_of es s) True = Inr True"
  by (auto simp: known_def ref_of_def ref_live_def)

lemma known_mark [simp]: "known e (mark_seen sequence es s') s = known e es s"
  by (simp add: known_def)

lemma free_entries_mark [simp]: "free_entries e (mark_seen sequence es s) = free_entries e es"
  by (simp add: free_entries_def)

text \<open>An entity the peer knows.\<close>

lemma read_known:
  assumes ok: "peer_ok m0 b (m, e, es)" and kn: "known e es s" and rd: "entry_readable e types (t, s, po)"
    and bytes: "mem_read m (Some (b, pos)) (length (enc_delta_entry (t, s, po))) = Inr (enc_delta_entry (t, s, po))"
  shows "\<exists>st' n. read_entity call types sequence (m, e, es) b pos = Inr (st', n) \<and>
    k_entity_header_size + 1 + n = length (enc_delta_entry (t, s, po)) \<and> peer_ok m0 b st' \<and>
    known_kept (m, e, es) st' {s} \<and> slots_changed (m, e, es) st' {s} \<and> room_left (m, e, es) st' 0 \<and>
    entity_brought (m, e, es) st' types (t, s, po) \<and>
    (\<forall>S. unseen sequence (fst (snd st')) (snd (snd st')) S = unseen sequence e es (insert s S)) \<and>
    (\<forall>pos n. mem_read (fst st') (Some (b, pos)) n = mem_read m (Some (b, pos)) n)"
proof -
  have P: "store_inv m0 m e" "ecs_inv e" "peer_table e es" "outside_components e b" using ok by (simp_all add: peer_ok_def)
  have sh: "ecs_shape e" using P(2) by (simp add: ecs_inv_def)
  have pk: "peer_knows e es types t s"
    using kn rd by (auto simp: peer_knows_def known_def ref_live_def entry_readable_def)
  have dok: "delta_entry_ok e types (t, s, po)" using rd by (auto simp: entry_readable_def delta_entry_ok_def split: option.splits)
  obtain m' n where R: "read_entity call types sequence (m, e, es) b pos = Inr ((m', e, mark_seen sequence es s), n)"
    "k_entity_header_size + 1 + n = length (enc_delta_entry (t, s, po))" "store_inv m0 m' e"
    "case po of None \<Rightarrow> m' = m | Some p \<Rightarrow> copy_components m' e (ref_of es s) (replicated types t) = Inr p"
    "\<forall>r c. ref_entity r \<noteq> ref_entity (ref_of es s) \<longrightarrow> read_component m' e r c = read_component m e r c"
    "\<forall>pos n. mem_read m' (Some (b, pos)) n = mem_read m (Some (b, pos)) n"
    using read_entity_known [OF P(1) pk dok P(4) bytes] by metis
  let ?st = "(m', e, mark_seen sequence es s)"
  have "peer_ok m0 b ?st" using P R(3) peer_table_mark by (simp add: peer_ok_def)
  moreover have "known_kept (m, e, es) ?st {s}"
    using R(5) known_refs_differ [OF P(3) _ kn] by (auto simp: known_kept_def)
  moreover have "entity_brought (m, e, es) ?st types (t, s, po)"
    using kn R(4) by (auto simp: entity_brought_def split: option.splits)
  ultimately show ?thesis
    using R(1,2,6) unseen_mark [OF P(3) sh]
    by (intro exI [of _ ?st] exI [of _ n]) (simp add: slots_changed_def room_left_def)
qed

lemma delta_entry_bytes:
  assumes "mem_read m (Some (b, pos)) (length (enc_delta_entry (t, s, Some p))) = Inr (enc_delta_entry (t, s, Some p))"
  shows "mem_read m (Some (b, pos)) k_entity_header_size = Inr (entity_header t s)"
    and "mem_read m (Some (b, pos + k_entity_header_size)) 1 = Inr [1]"
    and "mem_read m (Some (b, pos + k_entity_header_size + 1)) (length p) = Inr p"
proof -
  have "mem_read m (Some (b, pos)) k_entity_header_size = Inr (entity_header t s) \<and>
      mem_read m (Some (b, pos + k_entity_header_size)) (length ([1] @ p)) = Inr ([1] @ p)"
    using mem_read_append [of m b pos "entity_header t s" "[1] @ p"] assms by simp
  then show "mem_read m (Some (b, pos)) k_entity_header_size = Inr (entity_header t s)"
    "mem_read m (Some (b, pos + k_entity_header_size)) 1 = Inr [1]"
    "mem_read m (Some (b, pos + k_entity_header_size + 1)) (length p) = Inr p"
    using mem_read_append [of m b "pos + k_entity_header_size" "[1]" p] by simp_all
qed

lemma unknown_reference:
  assumes sh: "ecs_shape e" and rng: "\<forall>d \<in> set es. ref_entity (ed_ref d) < int k_max_entities" and "\<not> known e es s"
  shows "ecs_is_entity_ref_valid e (fst (known_entity sequence es s)) True = Inr False"
proof -
  let ?r = "fst (known_entity sequence es s)"
  have "ref_entity ?r < int k_max_entities \<and> \<not> ref_live e ?r"
  proof (cases "find_from (\<lambda>i. ed_remote_sequence (es ! i) = s) 0 (length es)")
    case None
    then show ?thesis by (simp add: known_entity_def ref_live_def ecs_is_entity_ref_valid_def)
  next
    case (Some i)
    then have "i < length es" by (simp add: find_from_Some_iff)
    with Some assms(2,3) show ?thesis by (simp add: known_entity_def known_def local_ref_def)
  qed
  then show ?thesis using valid_denotes [OF sh, of ?r] by (cases "\<exists>i < k_max_entities. denotes e ?r i") (auto simp: ref_live_def)
qed

text \<open>An entity that is new to the peer.\<close>

lemma read_new:
  assumes ok: "peer_ok m0 b (m, e, es)" and new: "\<not> known e es s" and rd: "entry_readable e types (t, s, Some p)"
    and call: "configures call b" and fs: "0 < free_slots e" and fe: "0 < free_entries e es"
    and wrap: "unat (global_sequence e) < 2 ^ 32 - 1"
    and bytes: "mem_read m (Some (b, pos)) (length (enc_delta_entry (t, s, Some p))) = Inr (enc_delta_entry (t, s, Some p))"
  shows "\<exists>st' n. read_entity call types sequence (m, e, es) b pos = Inr (st', n) \<and>
    k_entity_header_size + 1 + n = length (enc_delta_entry (t, s, Some p)) \<and> peer_ok m0 b st' \<and>
    known_kept (m, e, es) st' {s} \<and> slots_changed (m, e, es) st' {s} \<and> room_left (m, e, es) st' 1 \<and>
    entity_brought (m, e, es) st' types (t, s, Some p) \<and>
    (\<forall>S. unseen sequence (fst (snd st')) (snd (snd st')) S = unseen sequence e es (insert s S)) \<and>
    (\<forall>pos n. mem_read (fst st') (Some (b, pos)) n = mem_read m (Some (b, pos)) n)"
proof -
  have P: "store_inv m0 m e" "ecs_inv e" "peer_table e es" "outside_components e b" using ok by (simp_all add: peer_ok_def)
  have sh: "ecs_shape e" using P(2) by (simp add: ecs_inv_def)
  let ?et = "types ! nat (sint t)" and ?cs = "replicated types t" and ?es = "mark_seen sequence es s"
  have T: "array_get types (sint t) = Inr ?et" "registered e ?cs" "length p = sizes_of e ?cs"
    using rd by (simp_all add: entry_readable_def array_get_def)
  obtain f where f: "et_configure_callback ?et = Some f" using rd by (auto simp: entry_readable_def)
  have "\<exists>i < k_max_entities. entity_states e ! i = k_entity_unused"
  proof (rule ccontr)
    assume a: "\<not> (\<exists>i < k_max_entities. entity_states e ! i = k_entity_unused)"
    have "free_slots e = card ({} :: nat set)" unfolding free_slots_def by (intro arg_cong [where f = card]) (use a in blast)
    with fs show False by simp
  qed
  moreover have "global_sequence e \<noteq> -1"
  proof
    assume "global_sequence e = -1"
    then have "unat (global_sequence e) = 2 ^ 32 - 1" by (simp add: unsigned_minus_1_eq_mask mask_eq_exp_minus_1)
    with wrap show False by simp
  qed
  ultimately obtain k e1 r where A: "ecs_entity_add e (et_component_mask ?et) = (e1, r)" "k < k_max_entities"
    "entity_states e ! k = k_entity_unused" "ref_entity r = int k" "ref_sequence r = global_sequence e" "ecs_inv e1" "ref_live e1 r"
    "unat (global_sequence e1) = Suc (unat (global_sequence e))"
    and C: "components e1 = components e" "component_type_sizes e1 = component_type_sizes e" "ecs_self e1 = ecs_self e"
    and st: "\<And>j. j < k_max_entities \<Longrightarrow> entity_states e1 ! j = (if j = k then k_entity_pending_add else entity_states e ! j)"
    and sq: "\<And>j. j < k_max_entities \<Longrightarrow> sequences e1 ! j = (if j = k then global_sequence e else sequences e ! j)"
    by (rule entity_added [OF P(2)]) blast
  have sh1: "ecs_shape e1" using A(6) by (simp add: ecs_inv_def)
  have inv1: "store_inv m0 m e1" by (rule store_inv_cong [OF P(1) sh1 C(3,1,2)])
  obtain m2 where M: "call f (m, e1) r t = Inr (m2, e1)" "store_inv m0 m2 e1"
    "\<And>r' c. ref_entity r' \<noteq> ref_entity r \<Longrightarrow> read_component m2 e1 r' c = read_component m e1 r' c"
    "\<And>pos n. mem_read m2 (Some (b, pos)) n = mem_read m (Some (b, pos)) n"
    using configuresD [OF call inv1 A(7), of f t] by blast
  have tab: "peer_table e ?es" by (rule peer_table_mark [OF P(3)])
  note rng = peer_tableD(1) [OF tab]
  have "\<exists>i < length ?es. \<not> live_entry e ?es i"
  proof (rule ccontr)
    assume "\<not> (\<exists>i < length ?es. \<not> live_entry e ?es i)"
    then have "{i. i < length es \<and> \<not> live_entry e es i} = {}" by auto
    with fe show False by (simp add: free_entries_def)
  qed
  then obtain i0 where i0: "i0 < length ?es" "\<not> live_entry e ?es i0" by blast
  have "\<not> ref_live e1 (ed_ref (?es ! i0))"
  proof -
    have mem: "?es ! i0 \<in> set ?es" using i0(1) by (rule nth_mem)
    have "denotes e1 (ed_ref (?es ! i0)) j \<longleftrightarrow> denotes e (ed_ref (?es ! i0)) j" if "j < k_max_entities" for j
      by (rule denotes_added [OF A(3) peer_tableD(2) [OF tab mem] st [OF that] sq [OF that]])
    with i0 live_denotes [OF sh rng [OF mem]] live_denotes [OF sh1 rng [OF mem]] show ?thesis
      by (simp add: live_entry_def)
  qed
  then obtain i where I: "first_invalid e1 ?es 0 = Inr (Some i)" "i < length ?es" "\<not> ref_live e1 (ed_ref (?es ! i))"
    "\<forall>j < i. ref_live e1 (ed_ref (?es ! j))"
    using first_invalid_finds [OF sh1, of ?es 0] rng i0(1) by force
  define es1 where "es1 = ?es[i := \<lparr>ed_ref = r, ed_type = t, ed_remote_sequence = s, ed_last_recved_sequence = sequence\<rparr>]"
  have new': "\<not> known e ?es s" using new by simp
  have ni: "\<not> live_entry e1 ?es i" "\<forall>j < i. live_entry e1 ?es j" using I(2-4) by (auto simp: live_entry_def)
  note K = remembered [OF tab P(2) A(6) A(2-5) st sq A(8) new' I(2) ni es1_def]
  have out: "outside_components e1 b" using P(4) by (simp add: outside_components_def C)
  have reg1: "registered e1 ?cs" "sizes_of e1 ?cs = sizes_of e ?cs" using T(2) by (simp_all add: registered_def sizes_of_def C)
  note B = delta_entry_bytes [OF bytes]
  have v1: "ecs_is_entity_ref_valid e1 r True = Inr True" using A(7) by (simp add: ref_live_def)
  have pay: "mem_read m2 (Some (b, pos + k_entity_header_size + 1)) (length p) = Inr p" using B(3) M(4) by simp
  obtain m3 where W: "write_components m2 e1 r ?cs b (pos + k_entity_header_size + 1) = Inr (m3, length p)" "store_inv m0 m3 e1"
    "copy_components m3 e1 r ?cs = Inr p"
    "\<forall>r' c. ref_entity r' \<noteq> ref_entity r \<or> c \<notin> set ?cs \<longrightarrow> read_component m3 e1 r' c = read_component m2 e1 r' c"
    "\<forall>pos n. mem_read m3 (Some (b, pos)) n = mem_read m2 (Some (b, pos)) n"
    using write_components_result [OF M(2) v1 reg1(1) out pay] T(3) reg1(2) by auto
  have inv0: "ecs_is_entity_ref_valid e (fst (known_entity sequence es s)) True = Inr False"
    by (rule unknown_reference [OF sh _ new]) (use peer_tableD(1) [OF P(3)] in blast)
  have mk: "snd (known_entity sequence es s) = ?es" by (simp add: mark_seen_def)
  have sp: "spawn_entity call types sequence (m, e, ?es) t s = Inr (m2, e1, es1, r)"
    using T(1) A(1) f M(1) I(1) by (simp add: spawn_entity_def es1_def)
  let ?st = "(m3, e1, es1)"
  have run: "read_entity call types sequence (m, e, es) b pos = Inr (?st, length p)"
    using B(1,2) inv0 mk sp M(4) W(1) T(1) by (simp add: read_entity_def case_prod_unfold replicated_def)
  have "known_kept (m, e, es) ?st {s}"
    unfolding known_kept_def prod.case
  proof (intro allI impI conjI)
    fix s' assume kn: "known e es s'"
    have kn1: "known e1 es1 s'" "ref_of es1 s' = ref_of es s'" using K(5) [of s'] kn by simp_all
    then show "known e1 es1 s'" "ref_of es1 s' = ref_of es s'" .
    fix c assume "s' \<notin> {s}"
    then have "ref_entity (ref_of es s') \<noteq> ref_entity r"
      using known_refs_differ [OF K(1) kn1(1) K(2)] K(3) kn1(2) by simp
    then have "read_component m3 e1 (ref_of es s') c = read_component m e1 (ref_of es s') c"
      using W(4) M(3) by simp
    moreover have "ref_live e (ref_of es s')" "ref_live e1 (ref_of es s')"
      using known_valid [OF kn] known_valid [OF kn1(1)] kn1(2) by (simp_all add: ref_live_def)
    ultimately show "read_component m3 e1 (ref_of es s') c = read_component m e (ref_of es s') c"
      using read_component_cong [OF _ _ C(1,2)] by metis
  qed
  moreover have "slots_changed (m, e, es) ?st {s}"
    using st sq A(3,4) new K(2,3) C by (auto simp: slots_changed_def)
  moreover have "room_left (m, e, es) ?st 1"
    using free_slots_added [OF A(2,3) st] free_entries_added [OF I(2) K(8) _ K(7)] A(8) by (simp add: room_left_def es1_def)
  moreover have "entity_brought (m, e, es) ?st types (t, s, Some p)" using K(2,3) W(3) by (simp add: entity_brought_def)
  moreover have "peer_ok m0 b ?st" using W(2) A(6) K(1) out by (simp add: peer_ok_def)
  moreover have "unseen sequence e1 es1 S = unseen sequence e es (insert s S)" for S
    using K(6) [of S] unseen_mark [OF P(3) sh, of sequence s "insert s S"] by simp
  ultimately show ?thesis
    using run W(5) M(4) by (intro exI [of _ ?st] exI [of _ "length p"]) simp
qed

section \<open>All entities of a packet\<close>

lemma known_keptD:
  assumes "known_kept (m, e, es) (m', e', es') M" and "known e es s"
  shows "known e' es' s" and "ref_of es' s = ref_of es s"
    and "s \<notin> M \<Longrightarrow> read_component m' e' (ref_of es s) c = read_component m e (ref_of es s) c"
  using assms unfolding known_kept_def by auto

lemma known_kept_trans:
  assumes "known_kept (m, e, es) (m1, e1, es1) M" and "known_kept (m1, e1, es1) (m2, e2, es2) M'"
  shows "known_kept (m, e, es) (m2, e2, es2) (M \<union> M')"
  using assms unfolding known_kept_def by auto

lemma slots_changedD:
  assumes "slots_changed (m, e, es) (m', e', es') M"
  shows "components e' = components e" "component_type_sizes e' = component_type_sizes e"
    and "j < k_max_entities \<Longrightarrow> (entity_states e' ! j = entity_states e ! j \<and> sequences e' ! j = sequences e ! j) \<or>
        (entity_states e ! j = k_entity_unused \<and> entity_states e' ! j = k_entity_pending_add \<and>
           (\<exists>s \<in> M. \<not> known e es s \<and> known e' es' s \<and> ref_entity (ref_of es' s) = int j))"
  using assms unfolding slots_changed_def by auto

lemma slots_changed_trans:
  assumes c1: "slots_changed (m, e, es) (m1, e1, es1) M" and c2: "slots_changed (m1, e1, es1) (m2, e2, es2) M'"
    and k1: "known_kept (m, e, es) (m1, e1, es1) M" and k2: "known_kept (m1, e1, es1) (m2, e2, es2) M'"
  shows "slots_changed (m, e, es) (m2, e2, es2) (M \<union> M')"
proof -
  have "(entity_states e2 ! j = entity_states e ! j \<and> sequences e2 ! j = sequences e ! j) \<or>
      (entity_states e ! j = k_entity_unused \<and> entity_states e2 ! j = k_entity_pending_add \<and>
        (\<exists>s \<in> M \<union> M'. \<not> known e es s \<and> known e2 es2 s \<and> ref_entity (ref_of es2 s) = int j))" if j: "j < k_max_entities" for j
    using slots_changedD(3) [OF c1 j]
  proof (elim disjE conjE bexE)
    assume "entity_states e1 ! j = entity_states e ! j" "sequences e1 ! j = sequences e ! j"
    with slots_changedD(3) [OF c2 j] known_keptD(1) [OF k1] show ?thesis by auto
  next
    fix s assume s: "entity_states e ! j = k_entity_unused" "entity_states e1 ! j = k_entity_pending_add" "s \<in> M"
      "\<not> known e es s" "known e1 es1 s" "ref_entity (ref_of es1 s) = int j"
    with slots_changedD(3) [OF c2 j] have "entity_states e2 ! j = k_entity_pending_add" by auto
    with s known_keptD(1,2) [OF k2 s(5)] show ?thesis by auto
  qed
  with slots_changedD(1,2) [OF c1] slots_changedD(1,2) [OF c2] show ?thesis by (simp add: slots_changed_def)
qed

lemma copy_components_same:
  assumes "\<And>c. c \<in> set cs \<Longrightarrow> read_component m' e' r c = read_component m e r c"
  shows "copy_components m' e' r cs = copy_components m e r cs"
  using assms by (induction cs) (simp_all add: copy_components_Cons del: copy_components.simps(2))

lemma entity_brought_kept:
  assumes "entity_brought st (m1, e1, es1) types (t, s, po)" and "known_kept (m1, e1, es1) (m2, e2, es2) M" and "s \<notin> M"
  shows "entity_brought st (m2, e2, es2) types (t, s, po)"
proof -
  have kn: "known e1 es1 s" using assms(1) by (auto simp: entity_brought_def split: prod.splits)
  note K = known_keptD [OF assms(2) kn]
  have "copy_components m2 e2 (ref_of es2 s) (replicated types t) = copy_components m1 e1 (ref_of es1 s) (replicated types t)"
    unfolding K(2) by (rule copy_components_same) (rule K(3) [OF assms(3)])
  with assms(1) K(1) show ?thesis by (auto simp: entity_brought_def split: prod.splits)
qed

lemma entity_brought_from:
  assumes "entity_brought (m1, e1, es1) st types (t, s, po)" and k: "known_kept (m, e, es) (m1, e1, es1) M"
    and "s \<notin> M" and "po = None \<Longrightarrow> known e es s"
  shows "entity_brought (m, e, es) st types (t, s, po)"
proof (cases po)
  case None
  with assms(4) have kn: "known e es s" by simp
  note K = known_keptD [OF k kn]
  have "copy_components m1 e1 (ref_of es1 s) (replicated types t) = copy_components m e (ref_of es s) (replicated types t)"
    unfolding K(2) by (rule copy_components_same) (rule K(3) [OF assms(3)])
  with assms(1) None show ?thesis by (auto simp: entity_brought_def split: prod.splits)
next
  case (Some p)
  with assms(1) show ?thesis by (auto simp: entity_brought_def split: prod.splits)
qed

lemma entry_readable_same:
  assumes "components e1 = components e" and "component_type_sizes e1 = component_type_sizes e"
  shows "entry_readable e1 types d = entry_readable e types d"
  using assms by (simp add: entry_readable_def registered_def sizes_of_def)

lemma new_count_le:
  assumes "known_kept (m, e, es) (m1, e1, es1) M"
  shows "new_count e1 es1 ds \<le> new_count e es ds"
  unfolding new_count_def using known_keptD(1) [OF assms] by (induction ds) auto

text \<open>Either case of one entity.\<close>

lemma read_one:
  assumes ok: "peer_ok m0 b (m, e, es)" and rd: "entry_readable e types (t, s, po)" and kn: "po = None \<Longrightarrow> known e es s"
    and call: "configures call b"
    and room: "\<not> known e es s \<Longrightarrow> 0 < free_slots e \<and> 0 < free_entries e es \<and> unat (global_sequence e) < 2 ^ 32 - 1"
    and bytes: "mem_read m (Some (b, pos)) (length (enc_delta_entry (t, s, po))) = Inr (enc_delta_entry (t, s, po))"
  obtains m1 e1 es1 n where "read_entity call types sequence (m, e, es) b pos = Inr ((m1, e1, es1), n)"
    "k_entity_header_size + 1 + n = length (enc_delta_entry (t, s, po))" "peer_ok m0 b (m1, e1, es1)"
    "known_kept (m, e, es) (m1, e1, es1) {s}" "slots_changed (m, e, es) (m1, e1, es1) {s}"
    "room_left (m, e, es) (m1, e1, es1) (if known e es s then 0 else 1)"
    "entity_brought (m, e, es) (m1, e1, es1) types (t, s, po)"
    "\<And>S. unseen sequence e1 es1 S = unseen sequence e es (insert s S)"
    "\<And>pos n. mem_read m1 (Some (b, pos)) n = mem_read m (Some (b, pos)) n"
proof (cases "known e es s")
  case True
  from read_known [OF ok True rd bytes, of call sequence] that show thesis by (auto simp: True)
next
  case False
  with kn obtain p where p: "po = Some p" by (cases po) auto
  have "0 < free_slots e" "0 < free_entries e es" "unat (global_sequence e) < 2 ^ 32 - 1" using room [OF False] by auto
  from read_new [OF ok False rd [unfolded p] call this bytes [unfolded p], of sequence] that show thesis
    by (auto simp: False p)
qed

lemma read_loop_brings:
  assumes call: "configures call b"
    and "peer_ok m0 b (m, e, es)" and "\<forall>d \<in> set ds. entry_readable e types d"
    and "\<forall>(t, s, po) \<in> set ds. po = None \<longrightarrow> known e es s" and "distinct (map (\<lambda>(t, s, po). s) ds)"
    and "new_count e es ds \<le> free_slots e" and "new_count e es ds \<le> free_entries e es"
    and "unat (global_sequence e) + new_count e es ds < 2 ^ 32"
    and "mem_read m (Some (b, pos)) (length (enc_delta ds)) = Inr (enc_delta ds)"
    and "pend = int (pos + length (enc_delta ds))"
  shows "\<exists>m' e' es'. read_loop call types sequence (m, e, es) b pos pend = Inr (m', e', es') \<and>
    peer_ok m0 b (m', e', es') \<and>
    known_kept (m, e, es) (m', e', es') (set (map (\<lambda>(t, s, po). s) ds)) \<and>
    slots_changed (m, e, es) (m', e', es') (set (map (\<lambda>(t, s, po). s) ds)) \<and>
    (\<forall>d \<in> set ds. entity_brought (m, e, es) (m', e', es') types d) \<and>
    (\<forall>S. unseen sequence e' es' S = unseen sequence e es (set (map (\<lambda>(t, s, po). s) ds) \<union> S))"
  using assms(2-)
proof (induction ds arbitrary: m e es pos)
  case Nil
  have "known_kept (m, e, es) (m, e, es) {}" "slots_changed (m, e, es) (m, e, es) {}"
    by (simp_all add: known_kept_def slots_changed_def)
  with Nil show ?case by (simp add: read_loop.simps)
next
  case (Cons d ds)
  obtain t s po where d: "d = (t, s, po)" by (cases d)
  let ?E = "enc_delta_entry (t, s, po)" and ?M = "set (map (\<lambda>(t, s, po). s) ds)"
  have bytes: "mem_read m (Some (b, pos)) (length ?E) = Inr ?E"
    "mem_read m (Some (b, pos + length ?E)) (length (enc_delta ds)) = Inr (enc_delta ds)"
    using mem_read_append [of m b pos ?E "enc_delta ds"] Cons.prems(8) by (simp_all add: d)
  have nc: "new_count e es (d # ds) = (if known e es s then 0 else 1) + new_count e es ds" by (simp add: new_count_def d)
  have rd: "entry_readable e types (t, s, po)" and kn: "po = None \<Longrightarrow> known e es s"
    using Cons.prems(2,3) by (simp_all add: d)
  have room: "0 < free_slots e \<and> 0 < free_entries e es \<and> unat (global_sequence e) < 2 ^ 32 - 1" if "\<not> known e es s"
    using Cons.prems(5-7) that by (simp add: nc)
  obtain m1 e1 es1 n where R: "read_entity call types sequence (m, e, es) b pos = Inr ((m1, e1, es1), n)"
    "k_entity_header_size + 1 + n = length ?E" and ok1: "peer_ok m0 b (m1, e1, es1)"
    and k1: "known_kept (m, e, es) (m1, e1, es1) {s}" and c1: "slots_changed (m, e, es) (m1, e1, es1) {s}"
    and r1: "room_left (m, e, es) (m1, e1, es1) (if known e es s then 0 else 1)"
    and b1: "entity_brought (m, e, es) (m1, e1, es1) types (t, s, po)"
    and u1: "\<And>S. unseen sequence e1 es1 S = unseen sequence e es (insert s S)"
    and f1: "\<And>pos n. mem_read m1 (Some (b, pos)) n = mem_read m (Some (b, pos)) n"
    using read_one [OF Cons.prems(1) rd kn call room bytes(1), of sequence] by blast
  have fresh: "s \<notin> ?M" and dist: "distinct (map (\<lambda>(t, s, po). s) ds)" using Cons.prems(4) by (auto simp: d)
  have pe: "pend = int ((pos + length ?E) + length (enc_delta ds))" using Cons.prems(9) by (simp add: d)
  note le = new_count_le [OF k1, of ds]
  have bounds: "new_count e1 es1 ds \<le> free_slots e1" "new_count e1 es1 ds \<le> free_entries e1 es1"
    "unat (global_sequence e1) + new_count e1 es1 ds < 2 ^ 32"
    using r1 le Cons.prems(5-7) unfolding nc room_left_def prod.case by linarith+
  have rd1: "\<forall>d \<in> set ds. entry_readable e1 types d"
    using Cons.prems(2) entry_readable_same [OF slots_changedD(1,2) [OF c1]] by simp
  have kn1: "\<forall>(t, s, po) \<in> set ds. po = None \<longrightarrow> known e1 es1 s"
    using Cons.prems(3) known_keptD(1) [OF k1] by fastforce
  have by1: "mem_read m1 (Some (b, pos + length ?E)) (length (enc_delta ds)) = Inr (enc_delta ds)" using f1 bytes(2) by simp
  obtain m2 e2 es2 where L: "read_loop call types sequence (m1, e1, es1) b (pos + length ?E) pend = Inr (m2, e2, es2)"
    "peer_ok m0 b (m2, e2, es2)" and k2: "known_kept (m1, e1, es1) (m2, e2, es2) ?M"
    and c2: "slots_changed (m1, e1, es1) (m2, e2, es2) ?M"
    and b2: "\<forall>d \<in> set ds. entity_brought (m1, e1, es1) (m2, e2, es2) types d"
    and u2: "\<forall>S. unseen sequence e2 es2 S = unseen sequence e1 es1 (?M \<union> S)"
    using Cons.IH [OF ok1 rd1 kn1 dist bounds by1 pe] by blast
  have M: "set (map (\<lambda>(t, s, po). s) (d # ds)) = {s} \<union> ?M" by (simp add: d)
  have "read_loop call types sequence (m, e, es) b pos pend = Inr (m2, e2, es2)"
    using L(1) R pe by (subst read_loop.simps) (simp add: R(2) [symmetric] add.assoc)
  moreover have "entity_brought (m, e, es) (m2, e2, es2) types x" if x: "x \<in> set (d # ds)" for x
  proof (cases "x = d")
    case True
    then show ?thesis using entity_brought_kept [OF b1 k2 fresh] by (simp add: d)
  next
    case False
    then have xs: "x \<in> set ds" using x by simp
    obtain t' s' po' where x': "x = (t', s', po')" by (cases x)
    have "s' \<in> ?M" using xs x' by force
    then have "s' \<notin> {s}" using fresh by blast
    moreover have "known e es s'" if "po' = None" using Cons.prems(3) xs that by (auto simp: x')
    ultimately show ?thesis using entity_brought_from [OF _ k1, of "(m2, e2, es2)" types t' s' po'] b2 xs by (simp add: x')
  qed
  moreover have "unseen sequence e2 es2 S = unseen sequence e es ({s} \<union> ?M \<union> S)" for S using u1 u2 by simp
  ultimately show ?case
    using L(2) known_kept_trans [OF k1 k2] slots_changed_trans [OF c1 c2 k1 k2] unfolding M by blast
qed

section \<open>From the sender's components to the receiver's\<close>

definition numbers :: "entry list \<Rightarrow> i32 set" where
  "numbers es = set (map (\<lambda>(t, s, p). s) es)"

text \<open>The types of a snapshot as the peer needs them, and room for the entities it does not know.\<close>

definition peer_accepts :: "ecs_t \<Rightarrow> entity_data_t list \<Rightarrow> entity_type_t list \<Rightarrow> entry list \<Rightarrow> bool" where
  "peer_accepts e es types cs \<longleftrightarrow>
     (\<forall>(t, s, p) \<in> set cs. et_configure_callback (types ! nat (sint t)) \<noteq> None \<and> registered e (replicated types t) \<and>
        unat (et_replicated_size (types ! nat (sint t))) = sizes_of e (replicated types t)) \<and>
     (let n = length (filter (\<lambda>(t, s, p). \<not> known e es s) cs)
      in n \<le> free_slots e \<and> n \<le> free_entries e es \<and> unat (global_sequence e) + n < 2 ^ 32)"

definition peer_mirrors :: "mem \<Rightarrow> ecs_t \<Rightarrow> entity_data_t list \<Rightarrow> entity_type_t list \<Rightarrow> entry list \<Rightarrow> bool" where
  "peer_mirrors m e es types en \<longleftrightarrow>
     (\<forall>(t, s, p) \<in> set en. known e es s \<and> copy_components m e (ref_of es s) (replicated types t) = Inr p)"

lemma bex_set_nth: "(\<exists>x \<in> set xs. P x) \<longleftrightarrow> (\<exists>j < length xs. P (xs ! j))"
  by (auto simp: set_conv_nth)

lemma make_delta_none: "(t, s, None) \<in> set (make_delta cs as) \<Longrightarrow> \<exists>p t'. (t, s, p) \<in> set cs \<and> (t', s, p) \<in> set as"
  by (induction cs as rule: make_delta.induct) (auto split: if_split_asm)

lemma removed_live:
  assumes sh: "ecs_shape e" and st: "length st = k_max_entities"
    and "\<forall>j < k_max_entities. st ! j = entity_states e ! j \<or> (st ! j = k_entity_pending_remove \<and> k_entity_pending_add \<le> entity_states e ! j)"
    and live: "ref_live e r"
  shows "ref_live (e\<lparr>entity_states := st\<rparr>) r"
proof -
  from live have "ecs_is_entity_ref_valid e r True = Inr True" by (simp add: ref_live_def)
  then obtain i where i: "i < k_max_entities" "ref_entity r = int i" by (rule valid_ref_range [OF sh])
  have "ecs_shape (e\<lparr>entity_states := st\<rparr>)" using sh st by (simp add: ecs_shape_def)
  from ref_live_iff [OF this i] ref_live_iff [OF sh i] live assms(3) i(1) show ?thesis
    by (auto simp: less_eq_entity_state_t_def)
qed

lemma peer_mirrors_removed:
  assumes "peer_mirrors m e es types en"
    and live: "\<And>r. ref_live e r \<Longrightarrow> ref_live (e\<lparr>entity_states := st\<rparr>) r"
  shows "peer_mirrors m (e\<lparr>entity_states := st\<rparr>) es types en"
  unfolding peer_mirrors_def
proof (intro ballI)
  fix x assume x: "x \<in> set en"
  obtain t s p where tsp: "x = (t, s, p)" by (cases x)
  have K: "known e es s" "copy_components m e (ref_of es s) (replicated types t) = Inr p"
    using assms(1) x by (auto simp: peer_mirrors_def tsp)
  have v: "ecs_is_entity_ref_valid e (ref_of es s) True = Inr True" by (rule known_valid [OF K(1)])
  then have v': "ecs_is_entity_ref_valid (e\<lparr>entity_states := st\<rparr>) (ref_of es s) True = Inr True"
    using live by (simp add: ref_live_def)
  have "known (e\<lparr>entity_states := st\<rparr>) es s" using K(1) live by (auto simp: known_def)
  moreover have "copy_components m (e\<lparr>entity_states := st\<rparr>) (ref_of es s) (replicated types t) = Inr p"
    using K(2) copy_components_states [where e = e and st = st and r = "ref_of es s"] v v' by simp
  ultimately show "case x of (t, s, p) \<Rightarrow> known (e\<lparr>entity_states := st\<rparr>) es s \<and>
      copy_components m (e\<lparr>entity_states := st\<rparr>) (ref_of es s) (replicated types t) = Inr p" by (simp add: tsp)
qed

lemma delta_mirrors:
  assumes ok: "peer_ok m0 b (m, e, es)" and call: "configures call b" and acc: "peer_accepts e es types cs"
    and entries: "\<forall>en \<in> set cs. entry_ok types en" and dist: "distinct (map (\<lambda>(t, s, p). s) cs)"
    and base: "peer_mirrors m e es types as" and same: "same_types cs as"
    and bytes: "mem_read m (Some (b, pos)) (length (enc_delta (make_delta cs as))) = Inr (enc_delta (make_delta cs as))"
  shows "\<exists>m' e' es'. read_loop call types sequence (m, e, es) b pos (int (pos + length (enc_delta (make_delta cs as)))) =
      Inr (m', e', es') \<and> peer_ok m0 b (m', e', es') \<and> slots_changed (m, e, es) (m', e', es') (numbers cs) \<and>
    peer_mirrors m' e' es' types cs \<and> (\<forall>S. unseen sequence e' es' S = unseen sequence e es (numbers cs \<union> S))"
proof -
  let ?ds = "make_delta cs as"
  have heads: "map (\<lambda>(t, s, po). f t s) ?ds = map (\<lambda>(t, s, p). f t s) cs" for f :: "i32 \<Rightarrow> i32 \<Rightarrow> 'x"
    using arg_cong [OF make_delta_heads [of cs as], of "map (\<lambda>(t, s). f t s)"]
    by (simp add: comp_def case_prod_unfold)
  have nums: "set (map (\<lambda>(t, s, po). s) ?ds) = numbers cs" using heads [of "\<lambda>t s. s"] by (simp only: numbers_def)
  have "new_count e es ?ds = length (filter (\<lambda>s. \<not> known e es s) (map (\<lambda>(t, s, po). s) ?ds))"
    by (simp add: new_count_def filter_map comp_def case_prod_unfold)
  also have "\<dots> = length (filter (\<lambda>(t, s, p). \<not> known e es s) cs)"
    unfolding heads [of "\<lambda>t s. s"] by (simp add: filter_map comp_def case_prod_unfold)
  finally have nc: "new_count e es ?ds = length (filter (\<lambda>(t, s, p). \<not> known e es s) cs)" .
  have room: "new_count e es ?ds \<le> free_slots e" "new_count e es ?ds \<le> free_entries e es"
    "unat (global_sequence e) + new_count e es ?ds < 2 ^ 32"
    using acc unfolding nc peer_accepts_def Let_def by blast+
  have rd: "\<forall>d \<in> set ?ds. entry_readable e types d"
  proof
    fix d assume in_ds: "d \<in> set ?ds"
    obtain t s po where d1: "d = (t, s, po)" by (cases d)
    with in_ds have d: "d = (t, s, po)" "(t, s, po) \<in> set ?ds" by simp_all
    obtain p where p: "(t, s, p) \<in> set cs" "\<And>q. po = Some q \<Longrightarrow> q = p"
    proof (cases po)
      case None
      with d(2) make_delta_none that show thesis by blast
    next
      case (Some q)
      with d(2) make_delta_payload that show thesis by blast
    qed
    have "entry_ok types (t, s, p)" using entries p(1) by blast
    moreover have "et_configure_callback (types ! nat (sint t)) \<noteq> None \<and> registered e (replicated types t) \<and>
        unat (et_replicated_size (types ! nat (sint t))) = sizes_of e (replicated types t)"
      using acc p(1) unfolding peer_accepts_def by blast
    ultimately show "entry_readable e types d"
      using p(2) by (cases po) (auto simp: entry_readable_def entry_ok_def d(1))
  qed
  have kn: "\<forall>(t, s, po) \<in> set ?ds. po = None \<longrightarrow> known e es s"
    using make_delta_none base unfolding peer_mirrors_def by fastforce
  have dist': "distinct (map (\<lambda>(t, s, po). s) ?ds)" using dist heads [of "\<lambda>t s. s"] by simp
  obtain m' e' es' where L: "read_loop call types sequence (m, e, es) b pos (int (pos + length (enc_delta ?ds))) = Inr (m', e', es')"
    "peer_ok m0 b (m', e', es')" "slots_changed (m, e, es) (m', e', es') (numbers cs)"
    "\<forall>d \<in> set ?ds. entity_brought (m, e, es) (m', e', es') types d"
    "\<forall>S. unseen sequence e' es' S = unseen sequence e es (numbers cs \<union> S)"
    using read_loop_brings [OF call ok rd kn dist' room bytes refl, of sequence] unfolding nums by blast
  have "known e' es' s \<and> copy_components m' e' (ref_of es' s) (replicated types t) = Inr p" if i: "(t, s, p) \<in> set cs" for t s p
    using make_delta_entry [OF i, of as]
  proof (elim disjE conjE exE)
    assume "(t, s, Some p) \<in> set ?ds"
    with L(4) show ?thesis by (fastforce simp: entity_brought_def)
  next
    fix t' assume n: "(t, s, None) \<in> set ?ds" "(t', s, p) \<in> set as"
    with i same have "t' = t" unfolding same_types_def by blast
    with n(2) base have "copy_components m e (ref_of es s) (replicated types t) = Inr p" by (auto simp: peer_mirrors_def)
    with bspec [OF L(4) n(1)] show ?thesis by (simp add: entity_brought_def)
  qed
  then have "peer_mirrors m' e' es' types cs" unfolding peer_mirrors_def by blast
  with L show ?thesis by blast
qed

text \<open>
  C22.  Replication: the body of a packet, built by \<^verbatim>\<open>packet_add_entities\<close>, is read by a peer that has
  the entities of the acknowledged snapshot with their bytes (none, if the sender no longer has that
  snapshot or nothing was acknowledged), in the first packet of its frame.  Afterwards the peer has
  every entity of the current snapshot, known ones and new ones, with the sender's bytes in the
  replicated components: for the new ones it has added an entity in a slot that was unused, had it
  configured and entered it in the connection's table.  Of the entities that existed before, those
  of the table that the packet did not mention are taken away and no other changes its state.  The
  hypotheses on the peer are that the types and their callbacks are registered, that there is room
  for the new entities, and what \<open>configures\<close> says of the callbacks.
\<close>

theorem replication_brings_peer_up_to_date:
  assumes "snapshot_at net (net_sequence net) = Inr sn" "snapshot_holds types sn cs" "entries_typed ty cs"
    and "snapshot_at net (c_ack_sequence c) = Inr asn" "snapshot_holds types asn as" "entries_typed ty as"
    and "net_entity_types net = types" and "packet_add_entities net c = Inr body"
    and "peer_ok m0 b (m, e, es)" and "configures call b" and "mem_read m (Some (b, pos)) (length body) = Inr body"
    and "peer_mirrors m e es types (if sn_sequence asn = c_ack_sequence c then as else [])"
    and "peer_accepts e es types cs" and "\<forall>d \<in> set es. ed_last_recved_sequence d \<noteq> sequence"
  shows "\<exists>m' e' es'. packet_read_entities call types sequence (m, e, es) b pos (int (pos + length body)) = Inr (m', e', es') \<and>
    peer_mirrors m' e' es' types cs \<and>
    (\<forall>k < k_max_entities. if entity_states e ! k = k_entity_unused
       then entity_states e' ! k = k_entity_unused \<or> (entity_states e' ! k = k_entity_pending_add \<and>
         (\<exists>s \<in> numbers cs. \<not> known e es s \<and> ref_entity (ref_of es' s) = int k))
       else entity_states e' ! k = (if \<exists>d \<in> set es. denotes e (ed_ref d) k \<and> ed_remote_sequence d \<notin> numbers cs
         then k_entity_pending_remove else entity_states e ! k))"
proof -
  define base where "base = (if sn_sequence asn = c_ack_sequence c then as else [])"
  have tb: "entries_typed ty base" using assms(6) by (simp add: base_def entries_typed_def)
  have body: "body = enc_delta (make_delta cs base)"
    using packet_add_entities_delta [of net sn cs ty c asn as] assms(1-8) by (simp add: base_def)
  have ents: "\<forall>en \<in> set cs. entry_ok types en" using assms(2) by (simp add: snapshot_holds_def)
  have dist: "distinct (map (\<lambda>(t, s, p). s) cs)" using assms(3) by (simp add: entries_typed_def)
  have st: "same_types cs base" using assms(3) tb by (rule entries_typed_same)
  obtain m' e1 es' where L: "read_loop call types sequence (m, e, es) b pos (int (pos + length body)) = Inr (m', e1, es')"
    "peer_ok m0 b (m', e1, es')" "slots_changed (m, e, es) (m', e1, es') (numbers cs)" "peer_mirrors m' e1 es' types cs"
    "\<forall>S. unseen sequence e1 es' S = unseen sequence e es (numbers cs \<union> S)"
    using delta_mirrors [OF assms(9,10,13) ents dist assms(12) [folded base_def] st, of pos sequence] assms(11) body by blast
  have sh: "ecs_shape e1" using L(2) by (simp add: peer_ok_def ecs_inv_def)
  have "refs_in_range es'" using L(2) by (auto simp: peer_ok_def refs_in_range_def dest: peer_tableD(1))
  with remove_unseen_result [OF sh] obtain stt where R: "remove_unseen sequence e1 es' = Inr (e1\<lparr>entity_states := stt\<rparr>)"
    "length stt = k_max_entities"
    "\<forall>i < k_max_entities. stt ! i = (if \<exists>d \<in> set es'. denotes e1 (ed_ref d) i \<and> ed_last_recved_sequence d \<noteq> sequence
         then k_entity_pending_remove else entity_states e1 ! i)" by blast
  let ?e' = "e1\<lparr>entity_states := stt\<rparr>"
  have run: "packet_read_entities call types sequence (m, e, es) b pos (int (pos + length body)) = Inr (m', ?e', es')"
    using L(1) R(1) by (simp add: packet_read_entities_def)
  have "\<forall>j < k_max_entities. stt ! j = entity_states e1 ! j \<or>
      (stt ! j = k_entity_pending_remove \<and> k_entity_pending_add \<le> entity_states e1 ! j)"
    using R(3) by (auto simp: denotes_def)
  then have mirrors: "peer_mirrors m' ?e' es' types cs"
    by (intro peer_mirrors_removed [OF L(4)] removed_live [OF sh R(2)])
  have state: "if entity_states e ! k = k_entity_unused
       then entity_states ?e' ! k = k_entity_unused \<or> (entity_states ?e' ! k = k_entity_pending_add \<and>
         (\<exists>s \<in> numbers cs. \<not> known e es s \<and> ref_entity (ref_of es' s) = int k))
       else entity_states ?e' ! k = (if \<exists>d \<in> set es. denotes e (ed_ref d) k \<and> ed_remote_sequence d \<notin> numbers cs
         then k_entity_pending_remove else entity_states e ! k)" if k: "k < k_max_entities" for k
  proof -
    have "(\<exists>d \<in> set es'. denotes e1 (ed_ref d) k \<and> ed_last_recved_sequence d \<noteq> sequence) \<longleftrightarrow> k \<in> unseen sequence e1 es' {}"
      using k by (simp add: unseen_def bex_set_nth)
    also have "\<dots> \<longleftrightarrow> k \<in> unseen sequence e es (numbers cs)" using L(5) by simp
    also have "\<dots> \<longleftrightarrow> (\<exists>d \<in> set es. denotes e (ed_ref d) k \<and> ed_remote_sequence d \<notin> numbers cs)"
      using k assms(14) by (auto simp: unseen_def bex_set_nth)
    finally have rem: "stt ! k = (if \<exists>d \<in> set es. denotes e (ed_ref d) k \<and> ed_remote_sequence d \<notin> numbers cs
         then k_entity_pending_remove else entity_states e1 ! k)" using R(3) k by simp
    show ?thesis
    proof (cases "entity_states e ! k = k_entity_unused")
      case True
      then have "\<not> (\<exists>d \<in> set es. denotes e (ed_ref d) k \<and> ed_remote_sequence d \<notin> numbers cs)"
        using used_state_ge by (auto simp: denotes_def)
      then have "stt ! k = entity_states e1 ! k" using rem by (simp only: if_False)
      then show ?thesis using slots_changedD(3) [OF L(3) k] True by auto
    next
      case False
      then have "entity_states e1 ! k = entity_states e ! k" using slots_changedD(3) [OF L(3) k] by auto
      then show ?thesis by (auto simp: rem False)
    qed
  qed
  show ?thesis using run mirrors state by blast
qed

text \<open>A peer with two entities of the connection, numbers 7 and 5 of the sender, and a free entry; the
  packet mentions 7 and a new entity, 9.\<close>

definition mirror_ecs :: ecs_t where
  "mirror_ecs = (ecs_cleared (Some (0, 0)))\<lparr>global_sequence := 3, sequences := 1 # 2 # replicate 510 0,
     entity_states := k_entity_active # k_entity_active # replicate 510 k_entity_unused,
     components := Some (1, 0) # replicate 63 None, component_type_sizes := 4 # replicate 63 0\<rparr>"

definition mirror_mem :: "bytes \<Rightarrow> mem" where
  "mirror_mem packet = (mem_init 1000000 0)\<lparr>blocks := [0 \<mapsto> replicate sizeof_ecs_t 0,
     1 \<mapsto> [1, 2, 3, 4] @ replicate 2044 0, 2 \<mapsto> packet], next_block := 3\<rparr>"

definition mirror_entities :: "entity_data_t list" where
  "mirror_entities = [entity_data_zero\<lparr>ed_ref := \<lparr>ref_entity = 0, ref_sequence = 1\<rparr>, ed_remote_sequence := 7\<rparr>,
     entity_data_zero\<lparr>ed_ref := \<lparr>ref_entity = 1, ref_sequence = 2\<rparr>, ed_remote_sequence := 5\<rparr>, entity_data_zero]"

lemma mirror_store:
  "store_inv ((mem_init 1000000 0)\<lparr>blocks := [2 \<mapsto> packet], next_block := 3\<rparr>) (mirror_mem packet) mirror_ecs"
  unfolding store_inv_def
  by (auto simp: mirror_ecs_def mirror_mem_def ecs_cleared_def ecs_shape_def mem_ok_def block_size_def k_max_entities_def
      k_max_component_types_def nth_Cons' split: if_split_asm)

lemma mirror_inv: "ecs_inv mirror_ecs"
  by (auto simp: mirror_ecs_def ecs_cleared_def ecs_inv_def ecs_shape_def seq_inv_def k_max_entities_def
      k_max_component_types_def nth_Cons' split: if_split_asm)

lemma mirror_valid:
  "ecs_is_entity_ref_valid mirror_ecs \<lparr>ref_entity = 0, ref_sequence = 1\<rparr> True = Inr True"
  "ecs_is_entity_ref_valid mirror_ecs \<lparr>ref_entity = 1, ref_sequence = 2\<rparr> True = Inr True"
  "ecs_is_entity_ref_valid mirror_ecs \<lparr>ref_entity = 0, ref_sequence = 0\<rparr> True = Inr False"
  by (simp_all add: mirror_ecs_def ecs_cleared_def ecs_is_entity_ref_valid_def array_get_def less_eq_entity_state_t_def)

lemma mirror_live: "live_entry mirror_ecs mirror_entities i \<longleftrightarrow> i = 0 \<or> i = 1"
proof (cases "i = 0 \<or> i = 1 \<or> i = 2")
  case True
  then show ?thesis
    by (auto simp: live_entry_def mirror_entities_def ref_live_def mirror_valid entity_data_zero_def)
next
  case False
  then have "\<not> i < length mirror_entities" by (simp add: mirror_entities_def)
  with False show ?thesis by (simp add: live_entry_def)
qed

lemma mirror_table: "peer_table mirror_ecs mirror_entities"
proof -
  have "global_sequence mirror_ecs = 3" by (simp add: mirror_ecs_def)
  then show ?thesis
    unfolding peer_table_def mirror_live
    by (auto simp: mirror_entities_def entity_data_zero_def k_max_entities_def)
qed

lemma mirror_ref:
  "local_ref mirror_entities 7 = Some \<lparr>ref_entity = 0, ref_sequence = 1\<rparr>" "local_ref mirror_entities 9 = None"
  by (simp_all add: local_ref_def mirror_entities_def find_from_code_step entity_data_zero_def)

lemma mirror_known: "known mirror_ecs mirror_entities 7" "\<not> known mirror_ecs mirror_entities 9"
  by (simp_all add: known_def mirror_ref ref_live_def mirror_valid)

lemma mirror_replicated: "replicated demo_types 0 = [0]"
  by (simp add: replicated_def demo_types_def mask_bits_one)

lemma mirror_accepts: "peer_accepts mirror_ecs mirror_entities demo_types [(0, 7, p), (0, 9, q)]"
proof -
  have "2 \<in> {i. i < k_max_entities \<and> entity_states mirror_ecs ! i = k_entity_unused}"
    by (simp add: k_max_entities_def mirror_ecs_def)
  then have "free_slots mirror_ecs \<noteq> 0" by (auto simp: free_slots_def)
  moreover have "2 \<in> {i. i < length mirror_entities \<and> \<not> live_entry mirror_ecs mirror_entities i}"
    unfolding mirror_live by (simp add: mirror_entities_def)
  then have "free_entries mirror_ecs mirror_entities \<noteq> 0" by (auto simp: free_entries_def)
  moreover have "et_configure_callback (demo_types ! 0) = Some 0" "unat (et_replicated_size (demo_types ! 0)) = 4"
    by (simp_all add: demo_types_def)
  moreover have "registered mirror_ecs [0]" "sizes_of mirror_ecs [0] = 4" "unat (global_sequence mirror_ecs) = 3"
    by (simp_all add: registered_def sizes_of_def mirror_ecs_def k_max_component_types_def)
  ultimately show ?thesis
    unfolding peer_accepts_def using mirror_known by (simp add: mirror_replicated)
qed

lemma mirror_configures: "configures (\<lambda>_ st _ _. Inr st) b"
  by (simp add: configures_def)

lemma replication_brings_peer_up_to_date_witness:
  "\<exists>body m' e' es'. packet_add_entities (demo_net demo_types [(0, 7, [1, 2, 3, 4])]
        [(0, 7, [1, 2, 3, 4]), (0, 9, [1, 2, 3, 5])]) connection_zero = Inr body \<and>
     packet_read_entities (\<lambda>_ st _ _. Inr st) demo_types 1 (mirror_mem body, mirror_ecs, mirror_entities) 2 0
       (int (0 + length body)) = Inr (m', e', es') \<and>
     peer_mirrors m' e' es' demo_types [(0, 7, [1, 2, 3, 4]), (0, 9, [1, 2, 3, 5])] \<and>
     entity_states e' ! 0 = k_entity_active \<and> entity_states e' ! 1 = k_entity_pending_remove"
proof -
  let ?as = "[(0, 7, [1, 2, 3, 4])] :: entry list" and ?cs = "[(0, 7, [1, 2, 3, 4]), (0, 9, [1, 2, 3, 5])] :: entry list"
  let ?net = "demo_net demo_types ?as ?cs"
  have at: "snapshot_at ?net (net_sequence ?net) = Inr (demo_snapshot 1 ?cs)"
    "snapshot_at ?net (c_ack_sequence connection_zero) = Inr (demo_snapshot 0 ?as)"
    by (simp_all add: snapshot_at_def snapshot_index_def demo_net_def array_get_def connection_zero_def k_max_snapshots_def)
  have holds: "snapshot_holds demo_types (demo_snapshot 1 ?cs) ?cs" "snapshot_holds demo_types (demo_snapshot 0 ?as) ?as"
    by (auto intro!: demo_snapshot_holds simp: entry_ok_def demo_types_def k_net_mtu_def k_entity_header_size_def)
  have ty: "entries_typed (\<lambda>_. 0) ?cs" "entries_typed (\<lambda>_. 0) ?as" by (simp_all add: entries_typed_def)
  have sq: "sn_sequence (demo_snapshot 0 ?as) = c_ack_sequence connection_zero"
    by (simp add: demo_snapshot_def connection_zero_def)
  have tys: "net_entity_types ?net = demo_types" by (simp add: demo_net_def)
  define body where "body = enc_delta (make_delta ?cs ?as)"
  have body: "packet_add_entities ?net connection_zero = Inr body"
    using packet_add_entities_delta [OF at(1) _ ty(1) at(2) _ ty(2)] holds sq tys by (simp add: body_def)
  have rd: "mem_read (mirror_mem body) (Some (2, 0)) (length body) = Inr body" by (simp add: mem_read_def mirror_mem_def)
  have "outside_components mirror_ecs 2" by (auto simp: outside_components_def mirror_ecs_def)
  then have ok: "peer_ok ((mem_init 1000000 0)\<lparr>blocks := [2 \<mapsto> body], next_block := 3\<rparr>) 2 (mirror_mem body, mirror_ecs, mirror_entities)"
    using mirror_store mirror_inv mirror_table by (simp add: peer_ok_def)
  have "read_component (mirror_mem body) mirror_ecs \<lparr>ref_entity = 0, ref_sequence = 1\<rparr> 0 = Inr [1, 2, 3, 4]"
    by (simp add: read_component_def ecs_entity_get_component_def mirror_valid)
      (simp add: mirror_ecs_def mirror_mem_def elem_ptr_def array_get_def mem_read_def ecs_get_component_type_size_def)
  then have base: "peer_mirrors (mirror_mem body) mirror_ecs mirror_entities demo_types
      (if sn_sequence (demo_snapshot 0 ?as) = c_ack_sequence connection_zero then ?as else [])"
    using mirror_known(1) by (simp add: sq peer_mirrors_def mirror_replicated ref_of_def mirror_ref copy_components_Cons
        del: copy_components.simps(2))
  have fresh: "\<forall>d \<in> set mirror_entities. ed_last_recved_sequence d \<noteq> 1" by (simp add: mirror_entities_def entity_data_zero_def)
  obtain m' e' es' where R: "packet_read_entities (\<lambda>_ st _ _. Inr st) demo_types 1 (mirror_mem body, mirror_ecs, mirror_entities) 2 0
       (int (0 + length body)) = Inr (m', e', es')" "peer_mirrors m' e' es' demo_types ?cs"
    and S: "\<forall>k < k_max_entities. if entity_states mirror_ecs ! k = k_entity_unused
       then entity_states e' ! k = k_entity_unused \<or> (entity_states e' ! k = k_entity_pending_add \<and>
         (\<exists>s \<in> numbers ?cs. \<not> known mirror_ecs mirror_entities s \<and> ref_entity (ref_of es' s) = int k))
       else entity_states e' ! k = (if \<exists>d \<in> set mirror_entities. denotes mirror_ecs (ed_ref d) k \<and> ed_remote_sequence d \<notin> numbers ?cs
         then k_entity_pending_remove else entity_states mirror_ecs ! k)"
    using replication_brings_peer_up_to_date [OF at(1) holds(1) ty(1) at(2) holds(2) ty(2) tys body ok mirror_configures rd base
        mirror_accepts fresh] by blast
  have k: "0 < k_max_entities" "1 < k_max_entities" by (simp_all add: k_max_entities_def)
  have st: "entity_states mirror_ecs ! 0 = k_entity_active" "entity_states mirror_ecs ! 1 = k_entity_active"
    "sequences mirror_ecs ! 0 = 1" "sequences mirror_ecs ! 1 = 2" by (simp_all add: mirror_ecs_def)
  have "entity_states e' ! 0 = k_entity_active"
    using spec [OF S, of 0] k(1) by (simp add: st mirror_entities_def numbers_def denotes_def entity_data_zero_def)
  moreover have "entity_states e' ! 1 = k_entity_pending_remove"
    using spec [OF S, of 1] k(2) st
    by (simp add: mirror_entities_def numbers_def denotes_def entity_data_zero_def less_eq_entity_state_t_def)
  ultimately show ?thesis using body R by blast
qed

end
