(* ===== verification/Counter_Demo.thy ===== *)
theory Counter_Demo
  imports Sync
begin

text \<open>
  The counter demonstration (\<^verbatim>\<open>lecture7.c\<close>): eight threads wait for an event and then add one to a
  shared counter 100000 times, without synchronisation, with an atomic load and an atomic store,
  with an atomic increment, or inside a mutex.  Each of the four thread functions is given as the
  atomic actions it performs; an execution interleaves the actions of the threads.
\<close>

section \<open>The thread functions\<close>

record counter_shared =
  cs_counter :: i32
  cs_mutex :: win_mutex
  cs_start :: event

text \<open>Where a thread is, with the value it has loaded; its state also has the iterations left.\<close>

datatype counter_pc = T_wait | T_top | T_loaded i32 | T_locked | T_locked_loaded i32 | T_unlock | T_done

type_synonym counter_thread = "nat \<times> counter_pc"
type_synonym thread_func = "nat \<Rightarrow> counter_shared \<Rightarrow> counter_thread \<Rightarrow> (counter_shared \<times> counter_thread) option"

text \<open>The common frame: waiting for the start and leaving the loop.  \<open>body\<close> are the actions of an
  iteration.\<close>

definition thread_frame :: "thread_func \<Rightarrow> thread_func" where
  "thread_frame body tid sh t =
     (case t of
        (n, T_wait) \<Rightarrow> (case event_wait (cs_start sh) of None \<Rightarrow> None | Some ev \<Rightarrow> Some (sh, (n, T_top)))
      | (0, T_top) \<Rightarrow> Some (sh, (0, T_done))
      | (n, T_done) \<Rightarrow> None
      | _ \<Rightarrow> body tid sh t)"

definition no_synchronization_func :: thread_func where
  "no_synchronization_func = thread_frame (\<lambda>tid sh t.
     case t of
       (n, T_top) \<Rightarrow> Some (sh, (n, T_loaded (cs_counter sh)))
     | (n, T_loaded v) \<Rightarrow> Some (sh\<lparr>cs_counter := v + 1\<rparr>, (n - 1, T_top))
     | _ \<Rightarrow> None)"

definition atomic_load_store_func :: thread_func where
  "atomic_load_store_func = thread_frame (\<lambda>tid sh t.
     case t of
       (n, T_top) \<Rightarrow> Some (sh, (n, T_loaded (atomic_load (cs_counter sh))))
     | (n, T_loaded v) \<Rightarrow> Some (sh\<lparr>cs_counter := atomic_store (cs_counter sh) (v + 1)\<rparr>, (n - 1, T_top))
     | _ \<Rightarrow> None)"

definition atomic_increment_func :: thread_func where
  "atomic_increment_func = thread_frame (\<lambda>tid sh t.
     case t of
       (n, T_top) \<Rightarrow> Some (sh\<lparr>cs_counter := snd (atomic_increment (cs_counter sh))\<rparr>, (n - 1, T_top))
     | _ \<Rightarrow> None)"

definition mutex_func :: thread_func where
  "mutex_func = thread_frame (\<lambda>tid sh t.
     case t of
       (n, T_top) \<Rightarrow> (case mutex_lock tid (cs_mutex sh) of
          None \<Rightarrow> None | Some mx \<Rightarrow> Some (sh\<lparr>cs_mutex := mx\<rparr>, (n, T_locked)))
     | (n, T_locked) \<Rightarrow> Some (sh, (n, T_locked_loaded (cs_counter sh)))
     | (n, T_locked_loaded v) \<Rightarrow> Some (sh\<lparr>cs_counter := v + 1\<rparr>, (n - 1, T_unlock))
     | (n, T_unlock) \<Rightarrow> Some (sh\<lparr>cs_mutex := mutex_unlock tid (cs_mutex sh)\<rparr>, (n, T_top))
     | _ \<Rightarrow> None)"

section \<open>The test\<close>

type_synonym counter_state = "counter_shared \<times> counter_thread list"

definition k_counter_threads :: nat where "k_counter_threads = 8"
definition k_counter_rounds :: nat where "k_counter_rounds = 100000"

text \<open>\<^verbatim>\<open>run_timed_test\<close> with \<open>k\<close> threads of \<open>n\<close> rounds: the state before the event is signalled, and the
  actions: the main thread signals, a thread acts.  The test ends when every thread has been joined.\<close>

definition run_timed_test :: "nat \<Rightarrow> nat \<Rightarrow> counter_state" where
  "run_timed_test k n = (\<lparr>cs_counter = 0, cs_mutex = mutex_create, cs_start = event_create\<rparr>, replicate k (n, T_wait))"

inductive counter_step :: "thread_func \<Rightarrow> counter_state \<Rightarrow> counter_state \<Rightarrow> bool" for f where
  counter_go: "cs_start sh = event_create \<Longrightarrow>
    counter_step f (sh, ts) (sh\<lparr>cs_start := event_signal (cs_start sh)\<rparr>, ts)"
| counter_thread: "i < length ts \<Longrightarrow> f i sh (ts ! i) = Some (sh', t') \<Longrightarrow> counter_step f (sh, ts) (sh', ts[i := t'])"

definition test_over :: "counter_state \<Rightarrow> bool" where
  "test_over s \<longleftrightarrow> (\<forall>t \<in> set (snd s). snd t = T_done)"

inductive_cases counter_step_cases: "counter_step f s s'"

lemma load_store_is_unsynchronised: "atomic_load_store_func = no_synchronization_func"
  unfolding atomic_load_store_func_def no_synchronization_func_def atomic_load_def atomic_store_def ..

section \<open>What the protocols share\<close>

text \<open>The actions left to a thread, at most: four per round, one to start and one to end.\<close>

fun thread_work :: "counter_thread \<Rightarrow> nat" where
  "thread_work (n, T_wait) = 4 * n + 2"
| "thread_work (n, T_top) = 4 * n + 1"
| "thread_work (n, T_loaded v) = 4 * n"
| "thread_work (n, T_locked) = 4 * n"
| "thread_work (n, T_locked_loaded v) = 4 * n - 1"
| "thread_work (n, T_unlock) = 4 * n + 2"
| "thread_work (n, T_done) = 0"

definition state_work :: "counter_state \<Rightarrow> nat" where
  "state_work s = (if cs_start (fst s) = event_create then 1 else 0) + sum_list (map thread_work (snd s))"

definition rounds_left :: "counter_state \<Rightarrow> nat" where
  "rounds_left s = sum_list (map fst (snd s))"

lemma sum_list_update_nat:
  "i < length xs \<Longrightarrow> sum_list (map f (xs[i := x])) + f (xs ! i) = sum_list (map f xs) + (f x :: nat)"
  by (induction xs arbitrary: i) (auto split: nat.splits simp: add.commute add.left_commute)

text \<open>\<open>inv\<close> is what the protocol keeps; \<open>measured\<close> says that each of its actions brings the end nearer,
  \<open>alive\<close> that it never stops before the end.\<close>

locale counter_protocol =
  fixes f :: thread_func and inv :: "counter_state \<Rightarrow> bool"
  assumes start: "inv (run_timed_test k n)"
    and inv_go: "inv (sh, ts) \<Longrightarrow> inv (sh\<lparr>cs_start := ev\<rparr>, ts)"
    and inv_act: "inv (sh, ts) \<Longrightarrow> i < length ts \<Longrightarrow> f i sh (ts ! i) = Some (sh', t') \<Longrightarrow> inv (sh', ts[i := t'])"
    and measured: "inv (sh, ts) \<Longrightarrow> i < length ts \<Longrightarrow> f i sh (ts ! i) = Some (sh', t') \<Longrightarrow>
      thread_work t' < thread_work (ts ! i) \<and> cs_start sh' = cs_start sh"
    and alive: "inv s \<Longrightarrow> \<not> test_over s \<Longrightarrow> \<exists>s'. counter_step f s s'"
begin

lemma inv_step: "counter_step f s s' \<Longrightarrow> inv s \<Longrightarrow> inv s'"
  by (induction rule: counter_step.induct) (auto intro: inv_go inv_act)

lemma inv_reachable: "(counter_step f)\<^sup>*\<^sup>* (run_timed_test k n) s \<Longrightarrow> inv s"
  by (induction rule: rtranclp_induct) (auto intro: start inv_step)

lemma work_decreases: "counter_step f s s' \<Longrightarrow> inv s \<Longrightarrow> state_work s' < state_work s"
proof (induction rule: counter_step.induct)
  case (counter_go sh ts)
  then show ?case by (simp add: state_work_def event_create_def event_signal_def)
next
  case (counter_thread i ts sh sh' t')
  from measured [OF counter_thread(3,1,2)] sum_list_update_nat [OF counter_thread(1), of thread_work t']
  show ?case by (simp add: state_work_def)
qed

lemma steps_bounded: "(counter_step f ^^ j) s s' \<Longrightarrow> inv s \<Longrightarrow> inv s' \<and> j + state_work s' \<le> state_work s"
proof (induction j arbitrary: s')
  case 0
  then show ?case by simp
next
  case (Suc j)
  from Suc.prems(1) obtain s1 where "(counter_step f ^^ j) s s1" and st: "counter_step f s1 s'" by auto
  with Suc have "inv s1" "j + state_work s1 \<le> state_work s" by auto
  with work_decreases [OF st] inv_step [OF st] show ?case by auto
qed

text \<open>Every execution ends, and ends with the test over.\<close>

lemma test_ends:
  assumes "(counter_step f ^^ j) (run_timed_test k n) s"
  shows "j \<le> k * (4 * n + 2) + 1 \<and> (test_over s \<or> (\<exists>s'. counter_step f s s'))"
proof -
  have "state_work (run_timed_test k n) = k * (4 * n + 2) + 1"
    by (simp add: state_work_def run_timed_test_def sum_list_replicate)
  with steps_bounded [OF assms start] alive [of s] show ?thesis by auto
qed

end

text \<open>A protocol that takes a round off exactly when it adds one to the counter is exact.\<close>

locale exact_counter = counter_protocol +
  assumes counted: "inv (sh, ts) \<Longrightarrow> i < length ts \<Longrightarrow> f i sh (ts ! i) = Some (sh', t') \<Longrightarrow>
      cs_counter sh' + word_of_nat (fst t') = cs_counter sh + word_of_nat (fst (ts ! i))"
    and done_rounds: "inv (sh, ts) \<Longrightarrow> (n, T_done) \<in> set ts \<Longrightarrow> n = 0"
begin

lemma total_step:
  "counter_step f s s' \<Longrightarrow> inv s \<Longrightarrow>
    cs_counter (fst s') + word_of_nat (rounds_left s') = cs_counter (fst s) + word_of_nat (rounds_left s)"
proof (induction rule: counter_step.induct)
  case (counter_go sh ts)
  then show ?case by (simp add: rounds_left_def)
next
  case (counter_thread i ts sh sh' t')
  let ?w = "word_of_nat :: nat \<Rightarrow> i32"
  define S where "S = ?w (sum_list (map fst ts))"
  define S' where "S' = ?w (sum_list (map fst (ts[i := t'])))"
  have "S' + ?w (fst (ts ! i)) = S + ?w (fst t')"
    using arg_cong [OF sum_list_update_nat [OF counter_thread(1), of fst t'], of ?w] by (simp add: S_def S'_def)
  then have "cs_counter sh' + S' + ?w (fst (ts ! i)) = cs_counter sh' + ?w (fst t') + S" by (simp add: add_ac)
  also have "\<dots> = cs_counter sh + S + ?w (fst (ts ! i))"
    using counted [OF counter_thread(3,1,2)] by (simp add: add_ac)
  finally show ?case by (simp add: rounds_left_def S_def S'_def)
qed

lemma total_reachable:
  "(counter_step f)\<^sup>*\<^sup>* (run_timed_test k n) s \<Longrightarrow> cs_counter (fst s) + word_of_nat (rounds_left s) = word_of_nat (k * n)"
proof (induction rule: rtranclp_induct)
  case base
  then show ?case by (simp add: run_timed_test_def rounds_left_def sum_list_replicate)
next
  case (step s s')
  then show ?case using total_step [OF step(2) inv_reachable [OF step(1)]] by simp
qed

lemma final_count:
  assumes "(counter_step f)\<^sup>*\<^sup>* (run_timed_test k n) s" and "test_over s"
  shows "cs_counter (fst s) = word_of_nat (k * n)"
proof -
  obtain sh ts where s: "s = (sh, ts)" by (cases s)
  have "inv (sh, ts)" using inv_reachable [OF assms(1)] s by simp
  then have "fst t = 0" if "t \<in> set ts" for t
    using that assms(2) done_rounds [of sh ts "fst t"] unfolding test_over_def s by (cases t) auto
  then have "rounds_left s = 0" by (simp add: rounds_left_def s)
  with total_reachable [OF assms(1)] show ?thesis by simp
qed

end

section \<open>The four protocols\<close>

lemma event_wait_created [simp]: "event_wait event_create = None"
  by (simp add: event_wait_def event_create_def)

lemma not_over:
  "\<not> test_over (sh, ts) \<longleftrightarrow> (\<exists>i < length ts. snd (ts ! i) \<noteq> T_done)"
  by (simp add: test_over_def all_set_conv_all_nth)

text \<open>Before the start the main thread can act.\<close>

lemma alive_waiting: "cs_start sh = event_create \<Longrightarrow> \<exists>s'. counter_step f (sh, ts) s'"
  using counter_go [of sh f ts] by blast

lemma alive_acting:
  "i < length ts \<Longrightarrow> f i sh (ts ! i) \<noteq> None \<Longrightarrow> \<exists>s'. counter_step f (sh, ts) s'"
  using counter_thread [of i ts f sh] by fastforce

text \<open>The invariants: a place inside a round has a round left, the end has none, and each protocol
  stays in its own places.\<close>

fun plain_place :: "counter_thread \<Rightarrow> bool" where
  "plain_place (n, T_loaded v) \<longleftrightarrow> 0 < n"
| "plain_place (n, T_done) \<longleftrightarrow> n = 0"
| "plain_place (n, T_wait) \<longleftrightarrow> True"
| "plain_place (n, T_top) \<longleftrightarrow> True"
| "plain_place _ \<longleftrightarrow> False"

fun atomic_place :: "counter_thread \<Rightarrow> bool" where
  "atomic_place (n, T_done) \<longleftrightarrow> n = 0"
| "atomic_place (n, T_wait) \<longleftrightarrow> True"
| "atomic_place (n, T_top) \<longleftrightarrow> True"
| "atomic_place _ \<longleftrightarrow> False"

definition places :: "(counter_thread \<Rightarrow> bool) \<Rightarrow> counter_state \<Rightarrow> bool" where
  "places P s \<longleftrightarrow> (\<forall>t \<in> set (snd s). P t)"

lemma places_update: "places P (sh, ts) \<Longrightarrow> P t' \<Longrightarrow> places P (sh', ts[i := t'])"
  using set_update_subset_insert [of ts i t'] by (auto simp: places_def)

lemma places_nth: "places P (sh, ts) \<Longrightarrow> i < length ts \<Longrightarrow> P (ts ! i)"
  by (simp add: places_def)

lemma places_start: "(\<And>n. P (n, T_wait)) \<Longrightarrow> places P (run_timed_test k n)"
  by (simp add: places_def run_timed_test_def)

lemma places_alive:
  assumes f: "\<And>i t (sh :: counter_shared). P t \<Longrightarrow> snd t \<noteq> T_done \<Longrightarrow> cs_start sh \<Longrightarrow> f i sh t \<noteq> None"
    and inv: "places P s" and over: "\<not> test_over s"
  shows "\<exists>s'. counter_step f s s'"
proof -
  obtain sh ts where s: "s = (sh, ts)" by (cases s)
  show ?thesis
  proof (cases "cs_start sh")
    case False
    then show ?thesis unfolding s by (intro alive_waiting) (simp add: event_create_def)
  next
    case True
    from over obtain i where i: "i < length ts" "snd (ts ! i) \<noteq> T_done" unfolding s not_over by blast
    then have "P (ts ! i)" using inv i(1) unfolding s by (simp add: places_nth)
    from f [OF this i(2) True] i(1) show ?thesis unfolding s by (intro alive_acting)
  qed
qed

lemma no_synchronization_act:
  assumes "plain_place t" and "no_synchronization_func i sh t = Some (sh', t')"
  shows "plain_place t' \<and> thread_work t' < thread_work t \<and> cs_start sh' = cs_start sh"
  using assms
  by (cases t rule: plain_place.cases)
    (auto simp: no_synchronization_func_def thread_frame_def split: option.split_asm nat.split_asm)

lemma no_synchronization_ready:
  "plain_place t \<Longrightarrow> snd t \<noteq> T_done \<Longrightarrow> cs_start sh \<Longrightarrow> no_synchronization_func i sh t \<noteq> None"
  by (cases t rule: plain_place.cases)
    (auto simp: no_synchronization_func_def thread_frame_def event_wait_def split: nat.split)

lemma atomic_increment_act:
  assumes "atomic_place t" and "atomic_increment_func i sh t = Some (sh', t')"
  shows "atomic_place t' \<and> thread_work t' < thread_work t \<and> cs_start sh' = cs_start sh \<and>
    cs_counter sh' + word_of_nat (fst t') = cs_counter sh + word_of_nat (fst t)"
  using assms
  by (cases t rule: atomic_place.cases)
    (auto simp: atomic_increment_func_def thread_frame_def split: option.split_asm nat.split_asm)

lemma atomic_increment_ready:
  "atomic_place t \<Longrightarrow> snd t \<noteq> T_done \<Longrightarrow> cs_start sh \<Longrightarrow> atomic_increment_func i sh t \<noteq> None"
  by (cases t rule: atomic_place.cases)
    (auto simp: atomic_increment_func_def thread_frame_def event_wait_def split: nat.split)

interpretation unsynchronised: counter_protocol no_synchronization_func "places plain_place"
proof (unfold_locales, goal_cases)
  case (1 k n)
  show ?case by (rule places_start) simp
next
  case (3 sh ts i sh' t')
  then show ?case using no_synchronization_act [OF places_nth [of plain_place sh ts i]] by (blast intro: places_update)
next
  case (4 sh ts i sh' t')
  then show ?case using no_synchronization_act [OF places_nth [of plain_place sh ts i]] by blast
next
  case (5 s)
  show ?case by (rule places_alive [OF no_synchronization_ready 5])
qed (simp add: places_def)

interpretation atomic: exact_counter atomic_increment_func "places atomic_place"
proof (unfold_locales, goal_cases)
  case (1 k n)
  show ?case by (rule places_start) simp
next
  case (3 sh ts i sh' t')
  then show ?case using atomic_increment_act [OF places_nth [of atomic_place sh ts i]] by (blast intro: places_update)
next
  case (4 sh ts i sh' t')
  then show ?case using atomic_increment_act [OF places_nth [of atomic_place sh ts i]] by blast
next
  case (5 s)
  show ?case by (rule places_alive [OF atomic_increment_ready 5])
next
  case (6 sh ts i sh' t')
  then show ?case using atomic_increment_act [OF places_nth [of atomic_place sh ts i]] by blast
next
  case (7 sh ts n)
  then show ?case by (auto simp: places_def)
qed (simp add: places_def)

fun in_section :: "counter_thread \<Rightarrow> bool" where
  "in_section (n, T_locked) \<longleftrightarrow> True"
| "in_section (n, T_locked_loaded v) \<longleftrightarrow> True"
| "in_section (n, T_unlock) \<longleftrightarrow> True"
| "in_section _ \<longleftrightarrow> False"

fun mutex_place :: "i32 \<Rightarrow> counter_thread \<Rightarrow> bool" where
  "mutex_place c (n, T_locked) \<longleftrightarrow> 0 < n"
| "mutex_place c (n, T_locked_loaded v) \<longleftrightarrow> 0 < n \<and> v = c"
| "mutex_place c (n, T_done) \<longleftrightarrow> n = 0"
| "mutex_place c (n, T_loaded v) \<longleftrightarrow> False"
| "mutex_place c _ \<longleftrightarrow> True"

text \<open>Mutual exclusion: exactly the thread that owns the mutex is inside the section.\<close>

definition mutex_inv :: "counter_state \<Rightarrow> bool" where
  "mutex_inv s \<longleftrightarrow> (case s of (sh, ts) \<Rightarrow>
     (\<forall>i < length ts. mutex_place (cs_counter sh) (ts ! i) \<and>
        (in_section (ts ! i) \<longleftrightarrow> mx_owner (cs_mutex sh) = Some i)) \<and>
     (\<forall>i. mx_owner (cs_mutex sh) = Some i \<longrightarrow> i < length ts \<and> mx_depth (cs_mutex sh) = 1))"

lemma mutex_act:
  assumes act: "mutex_func i sh t = Some (sh', t')" and pl: "mutex_place (cs_counter sh) t"
    and own: "in_section t \<longleftrightarrow> mx_owner (cs_mutex sh) = Some i"
    and depth: "mx_owner (cs_mutex sh) = Some i \<Longrightarrow> mx_depth (cs_mutex sh) = 1"
  shows "mutex_place (cs_counter sh') t' \<and> thread_work t' < thread_work t \<and> cs_start sh' = cs_start sh \<and>
    cs_counter sh' + word_of_nat (fst t') = cs_counter sh + word_of_nat (fst t) \<and>
    (in_section t' \<longleftrightarrow> mx_owner (cs_mutex sh') = Some i) \<and>
    (mx_owner (cs_mutex sh') = Some i \<longrightarrow> mx_depth (cs_mutex sh') = 1) \<and>
    (in_section t \<or> in_section t' \<and> mx_owner (cs_mutex sh) = None \<and> cs_counter sh' = cs_counter sh \<or>
      cs_mutex sh' = cs_mutex sh \<and> cs_counter sh' = cs_counter sh) \<and>
    (in_section t \<longrightarrow> mx_owner (cs_mutex sh') \<in> {Some i, None})"
proof -
  obtain n pc where t: "t = (n, pc)" by (cases t)
  have lock: "mutex_lock i mx = Some mx' \<Longrightarrow> mx_owner mx \<noteq> Some i \<Longrightarrow> mx_owner mx = None \<and> mx' = \<lparr>mx_owner = Some i, mx_depth = 1\<rparr>"
    for mx mx' by (auto simp: mutex_lock_def split: option.split_asm if_split_asm)
  show ?thesis
  proof (cases pc)
    case T_top
    then show ?thesis
      using act pl own depth lock [of "cs_mutex sh"]
      by (cases n) (auto simp: t mutex_func_def thread_frame_def split: option.split_asm)
  qed (use act pl own depth in \<open>auto simp: t mutex_func_def thread_frame_def mutex_unlock_def split: option.split_asm nat.split_asm if_split_asm\<close>)
qed

lemma mutex_inv_act:
  assumes inv: "mutex_inv (sh, ts)" and i: "i < length ts" and act: "mutex_func i sh (ts ! i) = Some (sh', t')"
  shows "mutex_inv (sh', ts[i := t'])" and "thread_work t' < thread_work (ts ! i) \<and> cs_start sh' = cs_start sh"
    and "cs_counter sh' + word_of_nat (fst t') = cs_counter sh + word_of_nat (fst (ts ! i))"
proof -
  have pl: "mutex_place (cs_counter sh) (ts ! j)" and own: "in_section (ts ! j) \<longleftrightarrow> mx_owner (cs_mutex sh) = Some j"
    if "j < length ts" for j using inv that by (simp_all add: mutex_inv_def)
  have depth: "mx_owner (cs_mutex sh) = Some j \<Longrightarrow> j < length ts \<and> mx_depth (cs_mutex sh) = 1" for j
    using inv by (simp add: mutex_inv_def)
  note A = mutex_act [OF act pl [OF i] own [OF i]]
  have B: "mx_owner (cs_mutex sh) = Some i \<Longrightarrow> mx_depth (cs_mutex sh) = 1" using depth by blast
  show "thread_work t' < thread_work (ts ! i) \<and> cs_start sh' = cs_start sh"
    "cs_counter sh' + word_of_nat (fst t') = cs_counter sh + word_of_nat (fst (ts ! i))"
    using A [OF B] by blast+
  have other: "mutex_place (cs_counter sh') (ts ! j) \<and> (in_section (ts ! j) \<longleftrightarrow> mx_owner (cs_mutex sh') = Some j)"
    if j: "j < length ts" "j \<noteq> i" for j
  proof (cases "in_section (ts ! i)")
    case True
    then have "mx_owner (cs_mutex sh) = Some i" using own [OF i] by blast
    then have "\<not> in_section (ts ! j)" using own [OF j(1)] j(2) by simp
    moreover have "mx_owner (cs_mutex sh') \<noteq> Some j" using A [OF B] True j(2) by auto
    moreover have "mutex_place (cs_counter sh') (ts ! j)"
      using pl [OF j(1)] \<open>\<not> in_section (ts ! j)\<close> by (cases "ts ! j" rule: in_section.cases) auto
    ultimately show ?thesis by blast
  next
    case False
    with A [OF B] own [OF j(1)] pl [OF j(1)] j(2) show ?thesis by auto
  qed
  have owner: "j < length ts \<and> mx_depth (cs_mutex sh') = 1" if "mx_owner (cs_mutex sh') = Some j" for j
  proof (cases "j = i")
    case True
    with A [OF B] that i show ?thesis by blast
  next
    case False
    with A [OF B] that depth own [OF i] show ?thesis by auto
  qed
  show "mutex_inv (sh', ts[i := t'])"
    unfolding mutex_inv_def using other owner A [OF B] i by (auto simp: nth_list_update)
qed

lemma mutex_alive:
  assumes inv: "mutex_inv s" and over: "\<not> test_over s"
  shows "\<exists>s'. counter_step mutex_func s s'"
proof -
  obtain sh ts where s: "s = (sh, ts)" by (cases s)
  show ?thesis
  proof (cases "cs_start sh")
    case False
    then show ?thesis unfolding s by (intro alive_waiting) (simp add: event_create_def)
  next
    case go: True
    have "\<exists>i < length ts. mutex_func i sh (ts ! i) \<noteq> None"
    proof (cases "mx_owner (cs_mutex sh)")
      case (Some i)
      then have i: "i < length ts" using inv by (simp add: mutex_inv_def s)
      then have "in_section (ts ! i)" using inv Some by (simp add: mutex_inv_def s)
      then have "mutex_func i sh (ts ! i) \<noteq> None"
        by (cases "ts ! i" rule: in_section.cases) (auto simp: mutex_func_def thread_frame_def split: nat.split)
      with i show ?thesis by blast
    next
      case None
      from over obtain i where i: "i < length ts" "snd (ts ! i) \<noteq> T_done" unfolding s not_over by blast
      then have "\<not> in_section (ts ! i)" "mutex_place (cs_counter sh) (ts ! i)" using inv None by (simp_all add: mutex_inv_def s)
      with i(2) go None have "mutex_func i sh (ts ! i) \<noteq> None"
        by (cases "ts ! i" rule: in_section.cases)
          (auto simp: mutex_func_def thread_frame_def mutex_lock_def event_wait_def split: nat.split)
      with i(1) show ?thesis by blast
    qed
    then show ?thesis unfolding s by (blast intro: alive_acting)
  qed
qed

interpretation locked: exact_counter mutex_func mutex_inv
proof (unfold_locales, goal_cases)
  case (1 k n)
  then show ?case by (simp add: mutex_inv_def run_timed_test_def mutex_create_def)
next
  case (2 sh ts ev)
  then show ?case by (simp add: mutex_inv_def)
next
  case (3 sh ts i sh' t')
  then show ?case by (rule mutex_inv_act)
next
  case (4 sh ts i sh' t')
  then show ?case by (rule mutex_inv_act)
next
  case (5 s)
  then show ?case by (rule mutex_alive)
next
  case (6 sh ts i sh' t')
  then show ?case by (rule mutex_inv_act)
next
  case (7 sh ts n)
  then obtain i where "i < length ts" "ts ! i = (n, T_done)" by (auto simp: in_set_conv_nth)
  with 7 show ?case by (force simp: mutex_inv_def)
qed

section \<open>Results\<close>

text \<open>
  C24.  With the atomic increment or the mutex no addition is lost: in every interleaving of \<open>k\<close>
  threads of \<open>n\<close> rounds the counter is \<open>k * n\<close> at the end (800000 for the test of the source).
\<close>

theorem synchronised_counter_exact:
  assumes "f = atomic_increment_func \<or> f = mutex_func"
    and "(counter_step f)\<^sup>*\<^sup>* (run_timed_test k n) s" and "test_over s" and "k * n < 2 ^ 31"
  shows "sint (cs_counter (fst s)) = int (k * n)"
proof -
  have "cs_counter (fst s) = word_of_nat (k * n)"
    using assms(1-3) atomic.final_count locked.final_count by blast
  moreover have "int (k * n) < 2 ^ 31" using assms(4) by (simp only: of_nat_less_iff [symmetric, where 'a = int] of_nat_power of_nat_numeral)
  ultimately show ?thesis by (simp add: signed_of_nat signed_take_bit_int_eq_self del: of_nat_mult)
qed

lemma run_actions:
  assumes "(counter_step f)\<^sup>*\<^sup>* s (sh, ts)" and "i < length ts" and "f i sh (ts ! i) = Some (sh', t')"
  shows "(counter_step f)\<^sup>*\<^sup>* s (sh', ts[i := t'])"
  using assms(1) counter_thread [of i ts f sh sh' t'] assms(2,3) by (meson rtranclp.rtrancl_into_rtrancl)

lemma mutex_func_actions:
  "mutex_func i sh (n, T_wait) = (if cs_start sh then Some (sh, (n, T_top)) else None)"
  "mutex_func i sh (0, T_top) = Some (sh, (0, T_done))"
  "mutex_func i sh (Suc n, T_top) =
     map_option (\<lambda>mx. (sh\<lparr>cs_mutex := mx\<rparr>, (Suc n, T_locked))) (mutex_lock i (cs_mutex sh))"
  "mutex_func i sh (n, T_locked) = Some (sh, (n, T_locked_loaded (cs_counter sh)))"
  "mutex_func i sh (n, T_locked_loaded v) = Some (sh\<lparr>cs_counter := v + 1\<rparr>, (n - 1, T_unlock))"
  "mutex_func i sh (n, T_unlock) = Some (sh\<lparr>cs_mutex := mutex_unlock i (cs_mutex sh)\<rparr>, (n, T_top))"
  by (simp_all add: mutex_func_def thread_frame_def event_wait_def split: option.split nat.split)

lemma synchronised_counter_exact_witness:
  "\<exists>s. (counter_step mutex_func)\<^sup>*\<^sup>* (run_timed_test 1 1) s \<and> test_over s \<and> sint (cs_counter (fst s)) = 1"
proof -
  let ?f = mutex_func
  let ?s0 = "run_timed_test 1 1"
  let ?sh = "\<lparr>cs_counter = 0, cs_mutex = mutex_create, cs_start = event_create\<rparr>"
  let ?sh1 = "\<lparr>cs_counter = 0, cs_mutex = mutex_create, cs_start = True\<rparr>"
  let ?mx = "\<lparr>mx_owner = Some 0, mx_depth = 1\<rparr>"
  have "counter_step ?f ?s0 (?sh1, [(1, T_wait)])"
    using counter_go [of ?sh ?f "[(1, T_wait)]"] by (simp add: run_timed_test_def event_signal_def)
  then have "(counter_step ?f)\<^sup>*\<^sup>* ?s0 (?sh1, [(1, T_wait)])" by blast
  from run_actions [OF this, of 0 ?sh1 "(1, T_top)"]
  have "(counter_step ?f)\<^sup>*\<^sup>* ?s0 (?sh1, [(1, T_top)])" by (simp add: mutex_func_actions)
  from run_actions [OF this, of 0 "?sh1\<lparr>cs_mutex := ?mx\<rparr>" "(1, T_locked)"]
  have "(counter_step ?f)\<^sup>*\<^sup>* ?s0 (?sh1\<lparr>cs_mutex := ?mx\<rparr>, [(1, T_locked)])"
    by (simp add: mutex_func_actions mutex_lock_def mutex_create_def)
  from run_actions [OF this, of 0 "?sh1\<lparr>cs_mutex := ?mx\<rparr>" "(1, T_locked_loaded 0)"]
  have "(counter_step ?f)\<^sup>*\<^sup>* ?s0 (?sh1\<lparr>cs_mutex := ?mx\<rparr>, [(1, T_locked_loaded 0)])"
    by (simp add: mutex_func_actions)
  from run_actions [OF this, of 0 "?sh1\<lparr>cs_mutex := ?mx, cs_counter := 1\<rparr>" "(0, T_unlock)"]
  have "(counter_step ?f)\<^sup>*\<^sup>* ?s0 (?sh1\<lparr>cs_mutex := ?mx, cs_counter := 1\<rparr>, [(0, T_unlock)])"
    by (simp add: mutex_func_actions)
  from run_actions [OF this, of 0 "?sh1\<lparr>cs_counter := 1\<rparr>" "(0, T_top)"]
  have "(counter_step ?f)\<^sup>*\<^sup>* ?s0 (?sh1\<lparr>cs_counter := 1\<rparr>, [(0, T_top)])"
    by (simp add: mutex_func_actions mutex_unlock_def mutex_create_def)
  from run_actions [OF this, of 0 "?sh1\<lparr>cs_counter := 1\<rparr>" "(0, T_done)"]
  have r: "(counter_step ?f)\<^sup>*\<^sup>* ?s0 (?sh1\<lparr>cs_counter := 1\<rparr>, [(0, T_done)])"
    by (simp add: mutex_func_actions)
  have over: "test_over (?sh1\<lparr>cs_counter := 1\<rparr>, [(0, T_done)])" by (simp add: test_over_def)
  from synchronised_counter_exact [OF disjI2 [OF refl] r over]
  show ?thesis by (intro exI [of _ "(?sh1\<lparr>cs_counter := 1\<rparr>, [(0, T_done)])"]) (use r over in simp)
qed

text \<open>
  C25.  The test always ends: every execution of each of the four versions has at most
  \<open>k * (4 * n + 2) + 1\<close> actions, and one that has not ended can go on (no thread is left waiting
  for the mutex).
\<close>

theorem counter_test_terminates:
  assumes "f \<in> {no_synchronization_func, atomic_load_store_func, atomic_increment_func, mutex_func}"
    and "(counter_step f ^^ j) (run_timed_test k n) s"
  shows "j \<le> k * (4 * n + 2) + 1 \<and> (test_over s \<or> (\<exists>s'. counter_step f s s'))"
  using assms unsynchronised.test_ends atomic.test_ends locked.test_ends
  unfolding load_store_is_unsynchronised by blast

lemma counter_test_terminates_witness:
  "\<exists>s s'. (counter_step mutex_func ^^ 1) (run_timed_test 8 100000) s \<and> counter_step mutex_func s s'"
proof -
  let ?sh = "\<lparr>cs_counter = 0, cs_mutex = mutex_create, cs_start = event_create\<rparr>"
  let ?s = "(?sh\<lparr>cs_start := event_signal (cs_start ?sh)\<rparr>, replicate 8 (100000, T_wait))"
  have one: "(counter_step mutex_func ^^ 1) (run_timed_test 8 100000) ?s"
    using counter_go [of ?sh mutex_func "replicate 8 (100000, T_wait)"] by (simp add: run_timed_test_def relcompp.simps)
  have "mutex_func \<in> {no_synchronization_func, atomic_load_store_func, atomic_increment_func, mutex_func}" by simp
  from counter_test_terminates [OF this one] have "test_over ?s \<or> (\<exists>s'. counter_step mutex_func ?s s')" by blast
  moreover have "\<not> test_over ?s" by (simp add: test_over_def)
  ultimately show ?thesis using one by blast
qed

section \<open>Lost additions\<close>

abbreviation unsync :: "counter_state \<Rightarrow> counter_state \<Rightarrow> bool" where
  "unsync \<equiv> (counter_step no_synchronization_func)\<^sup>*\<^sup>*"

lemma no_synchronization_actions:
  "no_synchronization_func i sh (n, T_wait) = (if cs_start sh then Some (sh, (n, T_top)) else None)"
  "no_synchronization_func i sh (0, T_top) = Some (sh, (0, T_done))"
  "no_synchronization_func i sh (Suc n, T_top) = Some (sh, (Suc n, T_loaded (cs_counter sh)))"
  "no_synchronization_func i sh (n, T_loaded v) = Some (sh\<lparr>cs_counter := v + 1\<rparr>, (n - 1, T_top))"
  by (simp_all add: no_synchronization_func_def thread_frame_def event_wait_def split: option.split nat.split)

text \<open>The thread at position \<open>length pre\<close> acts.\<close>

lemma unsync_act:
  assumes "unsync s (sh, pre @ t # post)" and "no_synchronization_func (length pre) sh t = Some (sh', t')"
  shows "unsync s (sh', pre @ t' # post)"
  using run_actions [OF assms(1), of "length pre" sh' t'] assms(2) by simp

lemma unsync_rounds:
  "unsync s (sh, pre @ (m + j, T_top) # post) \<Longrightarrow>
    unsync s (sh\<lparr>cs_counter := cs_counter sh + word_of_nat j\<rparr>, pre @ (m, T_top) # post)"
proof (induction j arbitrary: sh)
  case 0
  then show ?case by simp
next
  case (Suc j)
  from Suc.prems have "unsync s (sh, pre @ (Suc (m + j), T_top) # post)" by simp
  from unsync_act [OF unsync_act [OF this no_synchronization_actions(3)] no_synchronization_actions(4)]
  have "unsync s (sh\<lparr>cs_counter := cs_counter sh + 1\<rparr>, pre @ (m + j, T_top) # post)" by simp
  from Suc.IH [OF this] show ?case by (simp add: algebra_simps)
qed

lemma unsync_whole_thread:
  assumes "unsync s (sh, pre @ (n, T_wait) # post)" and "cs_start sh"
  shows "unsync s (sh\<lparr>cs_counter := cs_counter sh + word_of_nat n\<rparr>, pre @ (0, T_done) # post)"
proof -
  from assms(2) have "no_synchronization_func (length pre) sh (n, T_wait) = Some (sh, (n, T_top))"
    by (simp add: no_synchronization_actions)
  from unsync_act [OF assms(1) this] have "unsync s (sh, pre @ (0 + n, T_top) # post)" by simp
  from unsync_act [OF unsync_rounds [OF this] no_synchronization_actions(2)] show ?thesis by simp
qed

lemma unsync_other_threads:
  "unsync s (sh, pre @ replicate r (n, T_wait)) \<Longrightarrow> cs_start sh \<Longrightarrow>
    \<exists>c. unsync s (sh\<lparr>cs_counter := c\<rparr>, pre @ replicate r (0, T_done))"
proof (induction r arbitrary: pre sh)
  case 0
  then show ?case by (auto intro: exI [of _ "cs_counter sh"])
next
  case (Suc r)
  let ?sh = "sh\<lparr>cs_counter := cs_counter sh + word_of_nat n\<rparr>"
  from Suc.prems unsync_whole_thread [of s sh pre n "replicate r (n, T_wait)"]
  have "unsync s (?sh, (pre @ [(0, T_done)]) @ replicate r (n, T_wait))" by simp
  from Suc.IH [OF this] Suc.prems(2) show ?case by simp
qed

text \<open>
  Without synchronisation, and just the same with an atomic load and an atomic store, almost
  every addition can be lost: however many threads (two or more) of however many rounds (two or
  more) there are, there is an interleaving at whose end the counter is 2.
\<close>

theorem unsynchronised_counter_can_be_two:
  assumes "f \<in> {no_synchronization_func, atomic_load_store_func}" and "2 \<le> k" and "2 \<le> n"
  shows "\<exists>s. (counter_step f)\<^sup>*\<^sup>* (run_timed_test k n) s \<and> test_over s \<and> cs_counter (fst s) = 2"
proof -
  have f: "f = no_synchronization_func" using assms(1) load_store_is_unsynchronised by auto
  obtain r where k: "k = Suc (Suc r)" using assms(2) by (auto dest: le_Suc_ex)
  obtain m where n: "n = Suc (Suc m)" using assms(3) by (auto dest: le_Suc_ex)
  let ?s0 = "run_timed_test k n"
  let ?sh = "\<lambda>c. \<lparr>cs_counter = c, cs_mutex = mutex_create, cs_start = True\<rparr>"
  let ?W = "replicate r (n, T_wait)" and ?D = "replicate r (0, T_done)"
  have "counter_step no_synchronization_func ?s0 (?sh 0, (n, T_wait) # (n, T_wait) # ?W)"
    using counter_go [of "\<lparr>cs_counter = 0, cs_mutex = mutex_create, cs_start = event_create\<rparr>" no_synchronization_func
        "(n, T_wait) # (n, T_wait) # ?W"] by (simp add: run_timed_test_def event_signal_def k)
  then have "unsync ?s0 (?sh 0, [] @ (n, T_wait) # (n, T_wait) # ?W)" by (simp add: r_into_rtranclp)
  from unsync_act [OF this, of "?sh 0" "(n, T_top)"]
  have "unsync ?s0 (?sh 0, [] @ (n, T_top) # (n, T_wait) # ?W)" by (simp add: no_synchronization_actions)
  from unsync_act [OF this, of "?sh 0" "(n, T_loaded 0)"]
  have "unsync ?s0 (?sh 0, [(n, T_loaded 0)] @ (n, T_wait) # ?W)" by (simp add: no_synchronization_actions n)
  from unsync_act [OF this, of "?sh 0" "(n, T_top)"]
  have "unsync ?s0 (?sh 0, [(n, T_loaded 0), (n, T_top)] @ ?W)" by (simp add: no_synchronization_actions)
  from unsync_other_threads [OF this] obtain c where
    "unsync ?s0 (?sh c, [(n, T_loaded 0)] @ (1 + Suc m, T_top) # ?D)" by (auto simp: n)
  from unsync_rounds [OF this] obtain c' where "unsync ?s0 (?sh c', [] @ (n, T_loaded 0) # (1, T_top) # ?D)" by auto
  from unsync_act [OF this no_synchronization_actions(4)]
  have "unsync ?s0 (?sh 1, [(Suc m, T_top)] @ (Suc 0, T_top) # ?D)" by (simp add: n)
  from unsync_act [OF this no_synchronization_actions(3)]
  have "unsync ?s0 (?sh 1, [] @ (0 + Suc m, T_top) # (Suc 0, T_loaded 1) # ?D)" by simp
  from unsync_act [OF unsync_rounds [OF this] no_synchronization_actions(2)]
  obtain c'' where "unsync ?s0 (?sh c'', [(0, T_done)] @ (Suc 0, T_loaded 1) # ?D)" by auto
  from unsync_act [OF this no_synchronization_actions(4)]
  have "unsync ?s0 (?sh 2, [(0, T_done)] @ (0, T_top) # ?D)" by simp
  from unsync_act [OF this no_synchronization_actions(2)]
  have "unsync ?s0 (?sh 2, [(0, T_done), (0, T_done)] @ ?D)" by simp
  moreover have "test_over (?sh 2, [(0, T_done), (0, T_done)] @ ?D)" by (simp add: test_over_def)
  ultimately show ?thesis unfolding f by (intro exI [of _ "(?sh 2, [(0, T_done), (0, T_done)] @ ?D)"]) simp
qed

lemma unsynchronised_counter_can_be_two_witness:
  "\<exists>s. (counter_step atomic_load_store_func)\<^sup>*\<^sup>* (run_timed_test k_counter_threads k_counter_rounds) s \<and> test_over s \<and>
     cs_counter (fst s) = 2"
  by (rule unsynchronised_counter_can_be_two) (simp_all add: k_counter_threads_def k_counter_rounds_def)

end
