(* ===== verification/Debug_Output.thy ===== *)
theory Debug_Output
  imports Engine_Prelude
begin

text \<open>
  The engine's support code: filtered printing, the exception handler and the call stack
  (\<^verbatim>\<open>debug.c\<close>), and the packed date and time (\<^verbatim>\<open>timeofday.c\<close>).  What a print shows goes to the
  debugger and to the console; both are sequences of texts.  The formatted text of a message is that of
  the C library (\<open>int_text\<close> is its \<^verbatim>\<open>%d\<close>); its truncation is the engine's.
\<close>

section \<open>Printing\<close>

definition k_print_info :: u32 where "k_print_info = 1"
definition k_print_warning :: u32 where "k_print_warning = 2"
definition k_print_error :: u32 where "k_print_error = 4"

record debug_state =
  s_mask :: u32
  dbg_debugger :: "string list"
  dbg_console :: "string list"
  dbg_dump :: "u32 option"   \<comment> \<open>the exception of the crash dump on disk\<close>

definition debug_start :: debug_state where
  "debug_start = \<lparr>s_mask = 0xFFFFFFFF, dbg_debugger = [], dbg_console = [], dbg_dump = None\<rparr>"

definition debug_set_print_mask :: "u32 \<Rightarrow> debug_state \<Rightarrow> debug_state" where
  "debug_set_print_mask new_mask st = st\<lparr>s_mask := new_mask\<rparr>"

text \<open>\<^verbatim>\<open>vsnprintf\<close> into 256 bytes keeps 255 characters; what is shown ends at the first null character.\<close>

definition print_buffer :: "string \<Rightarrow> string" where
  "print_buffer message = takeWhile (\<lambda>ch. ch \<noteq> CHR 0x00) (take 255 message)"

definition debug_print :: "u32 \<Rightarrow> string \<Rightarrow> debug_state \<Rightarrow> debug_state" where
  "debug_print type message st =
     (if s_mask st AND type = 0 then st
      else st\<lparr>dbg_debugger := dbg_debugger st @ [print_buffer message],
              dbg_console := dbg_console st @ [print_buffer message]\<rparr>)"

text \<open>A message of one of the three kinds is shown exactly when its bit of the mask is set.\<close>

lemma mask_bit:
  fixes m :: u32
  shows "m AND k_print_info = 0 \<longleftrightarrow> \<not> bit m 0" "m AND k_print_warning = 0 \<longleftrightarrow> \<not> bit m 1"
    "m AND k_print_error = 0 \<longleftrightarrow> \<not> bit m 2"
proof -
  have flag: "m AND 2 ^ n = 0 \<longleftrightarrow> \<not> bit m n" if "n < 32" for n
    using that by (simp add: and_exp_eq_0_iff_not_bit)
  show "m AND k_print_info = 0 \<longleftrightarrow> \<not> bit m 0" "m AND k_print_warning = 0 \<longleftrightarrow> \<not> bit m 1"
    "m AND k_print_error = 0 \<longleftrightarrow> \<not> bit m 2"
    using flag [of 0] flag [of 1] flag [of 2] by (simp_all add: k_print_info_def k_print_warning_def k_print_error_def)
qed

lemma length_print_buffer: "length (print_buffer message) \<le> 255"
  unfolding print_buffer_def by (rule order_trans [OF length_takeWhile_le]) simp

lemma print_buffer_short:
  "length message \<le> 255 \<Longrightarrow> CHR 0x00 \<notin> set message \<Longrightarrow> print_buffer message = message"
  by (auto simp: print_buffer_def takeWhile_eq_all_conv)

section \<open>Exceptions and the call stack\<close>

definition EXCEPTION_EXECUTE_HANDLER :: i32 where "EXCEPTION_EXECUTE_HANDLER = 1"

text \<open>\<open>opened\<close> says whether the dump file could be created; an old one is replaced.\<close>

definition debug_exception_handler :: "bool \<Rightarrow> u32 \<Rightarrow> debug_state \<Rightarrow> debug_state \<times> i32" where
  "debug_exception_handler opened code st =
     (if code = 0xE06D7363 then (st, EXCEPTION_EXECUTE_HANDLER)
      else let st1 = debug_print k_print_error (''Caught exception!'' @ [CHR 0x0A]) st
           in (if opened then st1\<lparr>dbg_dump := Some code\<rparr> else st1, EXCEPTION_EXECUTE_HANDLER))"

text \<open>\<open>frames\<close> are the return addresses from the innermost frame on; the count is a \<^verbatim>\<open>USHORT\<close>.\<close>

definition debug_backtrace :: "'p list \<Rightarrow> i32 \<Rightarrow> 'p list \<times> i32" where
  "debug_backtrace frames stack_capacity =
     (let stack = take (min (unat stack_capacity) 65535) (drop 1 frames) in (stack, word_of_nat (length stack)))"

lemma debug_backtrace_bounds:
  assumes "debug_backtrace frames cap = (stack, n)"
  shows "length stack \<le> unat cap" and "sint n = int (length stack)"
proof -
  have s: "stack = take (min (unat cap) 65535) (drop 1 frames)" and n: "n = word_of_nat (length stack)"
    using assms by (auto simp: debug_backtrace_def Let_def)
  have "length stack \<le> 65535" by (simp add: s)
  then have "int (length stack) < 2 ^ 31" by simp
  then have "signed_take_bit 31 (int (length stack)) = int (length stack)"
    by (intro signed_take_bit_int_eq_self) simp_all
  then show "sint n = int (length stack)" by (simp add: n signed_of_nat)
  show "length stack \<le> unat cap" by (simp add: s)
qed

section \<open>Date and time\<close>

text \<open>\<^verbatim>\<open>SYSTEMTIME\<close>, 16 bits a field, and the packed form; bit fields start at the lowest bit.\<close>

record system_time =
  wYear :: u16
  wMonth :: u16
  wDay :: u16
  wHour :: u16
  wMinute :: u16
  wSecond :: u16

record time_date_time_t =
  seconds_since_epoch :: u64
  packed_date :: u32
  packed_time :: u32

definition bit_field :: "nat \<Rightarrow> nat \<Rightarrow> u16 \<Rightarrow> u32" where
  "bit_field low width v = push_bit low (take_bit width (ucast v))"

definition field_of :: "nat \<Rightarrow> nat \<Rightarrow> u32 \<Rightarrow> u32" where
  "field_of low width w = take_bit width (drop_bit low w)"

definition timeofday_get :: "system_time \<Rightarrow> u64 \<Rightarrow> time_date_time_t" where
  "timeofday_get st file_time =
     \<lparr>seconds_since_epoch = file_time div 10000000,
      packed_date = bit_field 0 5 (wDay st) OR bit_field 5 4 (wMonth st) OR bit_field 9 23 (wYear st),
      packed_time = bit_field 0 6 (wSecond st) OR bit_field 6 6 (wMinute st) OR bit_field 12 5 (wHour st)\<rparr>"

lemma ucast_in_field:
  fixes v :: u16
  assumes "unat v < 2 ^ n"
  shows "take_bit n (ucast v :: u32) = ucast v"
proof -
  have "unat (take_bit n v) = unat v" using assms by (simp add: unsigned_take_bit_eq take_bit_nat_eq_self)
  then have v: "take_bit n v = v" by (simp only: word_unat_eq_iff)
  have "take_bit n (ucast v :: u32) = ucast (take_bit n v)" by (auto intro!: bit_word_eqI simp: bit_simps)
  then show ?thesis by (simp only: v)
qed

text \<open>Reading the fields of a valid date and time gives them back.\<close>

lemma timeofday_fields:
  assumes "unat (wDay st) < 32" and "unat (wMonth st) < 16" and "unat (wHour st) < 32"
    and "unat (wMinute st) < 64" and "unat (wSecond st) < 64" and t: "t = timeofday_get st ft"
  shows "field_of 0 5 (packed_date t) = ucast (wDay st)" "field_of 5 4 (packed_date t) = ucast (wMonth st)"
    "field_of 9 23 (packed_date t) = ucast (wYear st)" "field_of 0 6 (packed_time t) = ucast (wSecond st)"
    "field_of 6 6 (packed_time t) = ucast (wMinute st)" "field_of 12 5 (packed_time t) = ucast (wHour st)"
proof -
  have "unat (wYear st) < 2 ^ 16" using unsigned_less [of "wYear st"] by simp
  then have y: "unat (wYear st) < 2 ^ 23" by simp
  note own = ucast_in_field [of "wDay st" 5] ucast_in_field [of "wMonth st" 4] ucast_in_field [OF y]
    ucast_in_field [of "wHour st" 5] ucast_in_field [of "wMinute st" 6] ucast_in_field [of "wSecond st" 6]
  have "field_of 0 5 (packed_date t) = take_bit 5 (ucast (wDay st))"
    "field_of 5 4 (packed_date t) = take_bit 4 (ucast (wMonth st))"
    "field_of 9 23 (packed_date t) = take_bit 23 (ucast (wYear st))"
    "field_of 0 6 (packed_time t) = take_bit 6 (ucast (wSecond st))"
    "field_of 6 6 (packed_time t) = take_bit 6 (ucast (wMinute st))"
    "field_of 12 5 (packed_time t) = take_bit 5 (ucast (wHour st))"
    unfolding t timeofday_get_def field_of_def bit_field_def
    by (auto intro!: bit_word_eqI simp: bit_simps)
  with own assms(1-5) show "field_of 0 5 (packed_date t) = ucast (wDay st)" "field_of 5 4 (packed_date t) = ucast (wMonth st)"
    "field_of 9 23 (packed_date t) = ucast (wYear st)" "field_of 0 6 (packed_time t) = ucast (wSecond st)"
    "field_of 6 6 (packed_time t) = ucast (wMinute st)" "field_of 12 5 (packed_time t) = ucast (wHour st)"
    by simp_all
qed

end
