(* ===== verification/Counter_Report.thy ===== *)
theory Counter_Report
  imports Counter_Demo Debug_Output
begin

text \<open>
  The rest of \<^verbatim>\<open>lecture7.c\<close>: the objects a test creates and destroys, the durations its threads
  return, and the line it prints.  \<open>Counter_Demo\<close> has the threads themselves.
\<close>

section \<open>Numbers in decimal\<close>

definition digit_text :: "nat \<Rightarrow> char" where
  "digit_text d = char_of (48 + d)"

fun nat_text :: "nat \<Rightarrow> string" where
  "nat_text n = (if n < 10 then [digit_text n] else nat_text (n div 10) @ [digit_text (n mod 10)])"

declare nat_text.simps [simp del]

definition int_text :: "int \<Rightarrow> string" where
  "int_text k = (if k < 0 then CHR ''-'' # nat_text (nat (- k)) else nat_text (nat k))"

lemma length_nat_text: "n < 10 ^ Suc k \<Longrightarrow> length (nat_text n) \<le> Suc k"
proof (induction k arbitrary: n)
  case 0
  then show ?case by (simp add: nat_text.simps [of n])
next
  case (Suc k)
  show ?case
  proof (cases "n < 10")
    case True
    then show ?thesis by (simp add: nat_text.simps [of n])
  next
    case False
    have "n div 10 < 10 ^ Suc k" using Suc.prems by (simp add: less_mult_imp_div_less ac_simps)
    with Suc.IH [of "n div 10"] False show ?thesis by (simp add: nat_text.simps [of n])
  qed
qed

lemma digit_text_no_null: "d < 10 \<Longrightarrow> digit_text d \<noteq> CHR 0x00"
proof -
  assume "d < 10"
  then have "of_char (digit_text d) = 48 + d" by (simp add: digit_text_def)
  then show ?thesis by auto
qed

lemma nat_text_no_null: "CHR 0x00 \<notin> set (nat_text n)"
proof (induction n rule: nat_text.induct)
  case (1 n)
  show ?case
  proof (cases "n < 10")
    case True
    then show ?thesis using digit_text_no_null [of n] by (simp add: nat_text.simps [of n])
  next
    case False
    then show ?thesis using 1 digit_text_no_null [of "n mod 10"] by (simp add: nat_text.simps [of n])
  qed
qed

lemma int_text_i32: "length (int_text (sint (v :: i32))) \<le> 11" "CHR 0x00 \<notin> set (int_text k)"
proof -
  have b: "- (2 ^ 31) \<le> sint v" "sint v < 2 ^ 31" using sint_ge [of v] sint_lt [of v] by simp_all
  then have "nat (- sint v) < 10 ^ Suc 9" "nat (sint v) < 10 ^ Suc 9" by simp_all
  then show "length (int_text (sint v)) \<le> 11"
    using length_nat_text [of "nat (- sint v)" 9] length_nat_text [of "nat (sint v)" 9] by (simp add: int_text_def)
  show "CHR 0x00 \<notin> set (int_text k)" using nat_text_no_null by (simp add: int_text_def)
qed

section \<open>The objects of a test\<close>

record test_objects =
  to_mutex :: "nat option"
  to_start :: "nat option"
  to_threads :: "nat option list"

fun open_threads :: "nat \<Rightarrow> win_handles \<Rightarrow> win_handles \<times> nat option list" where
  "open_threads 0 os = (os, [])"
| "open_threads (Suc n) os =
     (let (os1, h) = open_handle os; (os2, hs) = open_threads n os1 in (os2, h # hs))"

definition test_create_objects :: "nat \<Rightarrow> win_handles \<Rightarrow> win_handles \<times> test_objects" where
  "test_create_objects k os =
     (let (os1, mx) = open_handle os; (os2, ev) = open_handle os1; (os3, threads) = open_threads k os2
      in (os3, \<lparr>to_mutex = mx, to_start = ev, to_threads = threads\<rparr>))"

text \<open>A thread returns \<^verbatim>\<open>timeGetTime\<close> at its end less that at its start, as an int.\<close>

definition thread_duration :: "u32 \<times> u32 \<Rightarrow> i32" where
  "thread_duration ticks = snd ticks - fst ticks"

definition thread_exit :: "counter_thread \<Rightarrow> u32 \<times> u32 \<Rightarrow> i32 option" where
  "thread_exit t ticks = (if snd t = T_done then Some (thread_duration ticks) else None)"

text \<open>The joins in turn; \<open>None\<close> while one has to wait.\<close>

fun join_threads :: "win_handles \<Rightarrow> (nat option \<times> i32 option) list \<Rightarrow> (win_handles \<times> i32) option" where
  "join_threads os [] = Some (os, 0)"
| "join_threads os ((h, code) # rest) =
     (case thread_join os h code of None \<Rightarrow> None
      | Some (os1, d) \<Rightarrow> map_option (\<lambda>(os2, duration). (os2, d + duration)) (join_threads os1 rest))"

definition test_line :: "string \<Rightarrow> i32 \<Rightarrow> i32 \<Rightarrow> string" where
  "test_line name duration counter =
     name @ '' duration='' @ int_text (sint duration) @ ''ms, counter='' @ int_text (sint counter) @ [CHR 0x0A]"

definition run_timed_test_end ::
  "string \<Rightarrow> test_objects \<Rightarrow> counter_state \<Rightarrow> (u32 \<times> u32) list \<Rightarrow> win_handles \<times> debug_state \<Rightarrow>
   (win_handles \<times> debug_state) option" where
  "run_timed_test_end name obj s ticks st =
     map_option (\<lambda>(os, duration).
         (event_destroy (mutex_destroy os (to_mutex obj)) (to_start obj),
          debug_print k_print_warning (test_line name duration (cs_counter (fst s))) (snd st)))
       (join_threads (fst st) (zip (to_threads obj) (map (\<lambda>(t, c). thread_exit t c) (zip (snd s) ticks))))"

text \<open>One test with the state its threads end in, and the four tests.\<close>

definition timed_test ::
  "string \<Rightarrow> counter_state \<times> (u32 \<times> u32) list \<Rightarrow> win_handles \<times> debug_state \<Rightarrow> (win_handles \<times> debug_state) option" where
  "timed_test name run st =
     (let (os, obj) = test_create_objects k_counter_threads (fst st)
      in run_timed_test_end name obj (fst run) (snd run) (os, snd st))"

definition lecture7_thread_test ::
  "(counter_state \<times> (u32 \<times> u32) list) list \<Rightarrow> win_handles \<times> debug_state \<Rightarrow> (win_handles \<times> debug_state) option" where
  "lecture7_thread_test runs st =
     Option.bind (timed_test ''no_synchronization'' (runs ! 0) st) (\<lambda>st1.
     Option.bind (timed_test ''atomic_load_store'' (runs ! 1) st1) (\<lambda>st2.
     Option.bind (timed_test ''atomic_increment'' (runs ! 2) st2) (\<lambda>st3.
       timed_test ''mutex'' (runs ! 3) st3)))"

section \<open>The report\<close>

lemma test_line_shown:
  assumes "length name \<le> 20" and "CHR 0x00 \<notin> set name"
  shows "print_buffer (test_line name duration counter) = test_line name duration counter"
proof (rule print_buffer_short)
  show "length (test_line name duration counter) \<le> 255"
    using assms(1) int_text_i32(1) [of duration] int_text_i32(1) [of counter] by (simp add: test_line_def)
  show "CHR 0x00 \<notin> set (test_line name duration counter)"
    using assms(2) int_text_i32(2) by (simp add: test_line_def)
qed

text \<open>All threads have ended: the joins return the sum of the durations and close every handle.\<close>

lemma join_threads_over:
  assumes "length hs = length ts" and "length ticks = length ts" and "\<forall>t \<in> set ts. snd t = T_done"
  shows "\<exists>os'. join_threads os (zip hs (map (\<lambda>(t, c). thread_exit t c) (zip ts ticks))) =
      Some (os', sum_list (map thread_duration ticks)) \<and> h_open os' = h_open os - {h. Some h \<in> set hs} \<and> h_next os' = h_next os"
  using assms
proof (induction hs arbitrary: os ts ticks)
  case Nil
  then show ?case by simp
next
  case (Cons h hs)
  obtain t ts' where ts: "ts = t # ts'" using Cons.prems(1) by (cases ts) auto
  obtain c ticks' where cs: "ticks = c # ticks'" using Cons.prems(2) ts by (cases ticks) auto
  obtain os' where os': "join_threads (close_handle os h) (zip hs (map (\<lambda>(t, c). thread_exit t c) (zip ts' ticks'))) =
      Some (os', sum_list (map thread_duration ticks'))" "h_open os' = h_open (close_handle os h) - {h. Some h \<in> set hs}"
    "h_next os' = h_next os"
    using Cons.IH [of ts' ticks' "close_handle os h"] Cons.prems ts cs by auto
  have "snd t = T_done" using Cons.prems(3) ts by simp
  with os' show ?case
    by (intro exI [of _ os']) (auto simp: ts cs thread_exit_def thread_join_def thread_destroy_def)
qed

lemma open_threads_handles:
  "open_threads n os = (os', hs) \<Longrightarrow> length hs = n \<and> h_next os' = h_next os + n \<and>
     h_open os' = h_open os \<union> {h. Some h \<in> set hs} \<and> {h. Some h \<in> set hs} = {h_next os..<h_next os + n}"
proof (induction n arbitrary: os os' hs)
  case 0
  then show ?case by simp
next
  case (Suc n)
  obtain hs' where rest: "open_threads n (fst (open_handle os)) = (os', hs')" and hs: "hs = Some (h_next os) # hs'"
    using Suc.prems by (auto simp: open_handle_def split: prod.split_asm)
  from Suc.IH [OF rest] have I: "length hs' = n" "h_next os' = Suc (h_next os + n)"
    "h_open os' = insert (h_next os) (h_open os) \<union> {h. Some h \<in> set hs'}"
    "{h. Some h \<in> set hs'} = {Suc (h_next os)..<Suc (h_next os) + n}"
    by (simp_all add: open_handle_def)
  have "{h. Some h \<in> set hs} = insert (h_next os) {h. Some h \<in> set hs'}" by (auto simp: hs)
  with I show ?case by (auto simp: hs)
qed

text \<open>What one test does: its line is printed and its handles are closed again.\<close>

definition handles_valid :: "win_handles \<Rightarrow> bool" where
  "handles_valid os \<longleftrightarrow> (\<forall>h \<in> h_open os. h < h_next os)"

lemma timed_test_over:
  assumes len: "length (snd s) = k_counter_threads" "length ticks = k_counter_threads" and over: "test_over s"
    and os: "handles_valid os"
  obtains os' where "timed_test name (s, ticks) (os, st) = Some (os', debug_print k_print_warning
      (test_line name (sum_list (map thread_duration ticks)) (cs_counter (fst s))) st)"
    "h_open os' = h_open os" "handles_valid os'"
proof -
  define os2 where "os2 = fst (open_handle (fst (open_handle os)))"
  obtain os3 hs where o3: "open_threads k_counter_threads os2 = (os3, hs)" by fastforce
  note T = open_threads_handles [OF o3]
  have os2: "h_open os2 = insert (Suc (h_next os)) (insert (h_next os) (h_open os))" "h_next os2 = h_next os + 2"
    by (simp_all add: os2_def open_handle_def)
  have objs: "test_create_objects k_counter_threads os =
      (os3, \<lparr>to_mutex = Some (h_next os), to_start = Some (Suc (h_next os)), to_threads = hs\<rparr>)"
    using o3 by (simp add: test_create_objects_def os2_def open_handle_def)
  have "\<forall>t \<in> set (snd s). snd t = T_done" using over by (simp add: test_over_def)
  then obtain os4 where o4: "join_threads os3 (zip hs (map (\<lambda>(t, c). thread_exit t c) (zip (snd s) ticks))) =
      Some (os4, sum_list (map thread_duration ticks))" "h_open os4 = h_open os3 - {h. Some h \<in> set hs}"
    "h_next os4 = h_next os3"
    using join_threads_over [of hs "snd s" ticks os3] len T by auto
  let ?os = "event_destroy (mutex_destroy os4 (Some (h_next os))) (Some (Suc (h_next os)))"
  have "h_open ?os = h_open os"
    using o4(2) T os2 os by (auto simp: event_destroy_def mutex_destroy_def handles_valid_def)
  moreover have "h_next ?os = h_next os + 2 + k_counter_threads"
    using o4(3) T os2(2) by (simp add: event_destroy_def mutex_destroy_def)
  moreover have "handles_valid ?os" using calculation os by (auto simp: handles_valid_def)
  ultimately show thesis
    by (intro that [of ?os]) (simp_all add: timed_test_def objs run_timed_test_end_def o4(1))
qed

section \<open>The four tests\<close>

lemma counter_steps_length:
  "(counter_step f)\<^sup>*\<^sup>* (run_timed_test k n) s \<Longrightarrow> length (snd s) = k"
proof (induction rule: rtranclp_induct)
  case base
  then show ?case by (simp add: run_timed_test_def)
next
  case (step s s')
  from step(2,3) show ?case by (induction rule: counter_step.induct) simp_all
qed

text \<open>A finished run of the test of the source, with the clock values its threads have read.\<close>

definition finished_run :: "thread_func \<Rightarrow> counter_state \<times> (u32 \<times> u32) list \<Rightarrow> bool" where
  "finished_run f r \<longleftrightarrow> (counter_step f)\<^sup>*\<^sup>* (run_timed_test k_counter_threads k_counter_rounds) (fst r) \<and>
     test_over (fst r) \<and> length (snd r) = k_counter_threads"

definition reported_line :: "string \<Rightarrow> counter_state \<times> (u32 \<times> u32) list \<Rightarrow> string" where
  "reported_line name r = test_line name (sum_list (map thread_duration (snd r))) (cs_counter (fst (fst r)))"

lemma timed_test_reports:
  assumes run: "finished_run f r" and os: "handles_valid os" and on: "bit (s_mask st) 1"
    and name: "length name \<le> 20" "CHR 0x00 \<notin> set name"
  obtains os' where "timed_test name r (os, st) = Some (os', st\<lparr>dbg_debugger := dbg_debugger st @ [reported_line name r],
      dbg_console := dbg_console st @ [reported_line name r]\<rparr>)" "h_open os' = h_open os" "handles_valid os'"
proof -
  have R: "length (snd (fst r)) = k_counter_threads" "length (snd r) = k_counter_threads" "test_over (fst r)"
    using run counter_steps_length unfolding finished_run_def by blast+
  obtain os' where os': "timed_test name (fst r, snd r) (os, st) = Some (os', debug_print k_print_warning
      (test_line name (sum_list (map thread_duration (snd r))) (cs_counter (fst (fst r)))) st)"
    "h_open os' = h_open os" "handles_valid os'"
    by (rule timed_test_over [OF R os])
  have "s_mask st AND k_print_warning \<noteq> 0" using on by (simp add: mask_bit)
  then show thesis
    using os' by (intro that [of os']) (simp_all add: debug_print_def reported_line_def test_line_shown [OF name])
qed

text \<open>
  The demonstration as a whole: whatever the schedules and the clock, it ends with its handles closed
  and with four lines on the console, of which the last two show 800000.
\<close>

theorem lecture7_reports_exact:
  assumes runs: "finished_run no_synchronization_func r0" "finished_run atomic_load_store_func r1"
      "finished_run atomic_increment_func r2" "finished_run mutex_func r3"
    and os: "handles_valid os" and on: "bit (s_mask st) 1"
  shows "\<exists>os' st'. lecture7_thread_test [r0, r1, r2, r3] (os, st) = Some (os', st') \<and> h_open os' = h_open os \<and>
    dbg_console st' = dbg_console st @ [reported_line ''no_synchronization'' r0, reported_line ''atomic_load_store'' r1,
      reported_line ''atomic_increment'' r2, reported_line ''mutex'' r3] \<and>
    cs_counter (fst (fst r2)) = 800000 \<and> cs_counter (fst (fst r3)) = 800000"
proof -
  let ?n0 = "''no_synchronization''" and ?n1 = "''atomic_load_store''" and ?n2 = "''atomic_increment''" and ?n3 = "''mutex''"
  define add where "add l s = s\<lparr>dbg_debugger := dbg_debugger s @ [l], dbg_console := dbg_console s @ [l]\<rparr>"
    for l and s :: debug_state
  have mask: "s_mask (add l s) = s_mask s" and console: "dbg_console (add l s) = dbg_console s @ [l]" for l s
    by (simp_all add: add_def)
  obtain o1 where o1: "timed_test ?n0 r0 (os, st) = Some (o1, add (reported_line ?n0 r0) st)" "h_open o1 = h_open os" "handles_valid o1"
    by (rule timed_test_reports [OF runs(1) os on, of ?n0, folded add_def]) simp_all
  define t1 where "t1 = add (reported_line ?n0 r0) st"
  have m1: "bit (s_mask t1) 1" using on by (simp add: t1_def mask)
  obtain o2 where o2: "timed_test ?n1 r1 (o1, t1) = Some (o2, add (reported_line ?n1 r1) t1)" "h_open o2 = h_open o1" "handles_valid o2"
    by (rule timed_test_reports [OF runs(2) o1(3) m1, of ?n1, folded add_def]) simp_all
  define t2 where "t2 = add (reported_line ?n1 r1) t1"
  have m2: "bit (s_mask t2) 1" using m1 by (simp add: t2_def mask)
  obtain o3 where o3: "timed_test ?n2 r2 (o2, t2) = Some (o3, add (reported_line ?n2 r2) t2)" "h_open o3 = h_open o2" "handles_valid o3"
    by (rule timed_test_reports [OF runs(3) o2(3) m2, of ?n2, folded add_def]) simp_all
  define t3 where "t3 = add (reported_line ?n2 r2) t2"
  have m3: "bit (s_mask t3) 1" using m2 by (simp add: t3_def mask)
  obtain o4 where o4: "timed_test ?n3 r3 (o3, t3) = Some (o4, add (reported_line ?n3 r3) t3)" "h_open o4 = h_open o3" "handles_valid o4"
    by (rule timed_test_reports [OF runs(4) o3(3) m3, of ?n3, folded add_def]) simp_all
  have "lecture7_thread_test [r0, r1, r2, r3] (os, st) = Some (o4, add (reported_line ?n3 r3) t3)"
    using o1(1) o2(1) o3(1) o4(1) by (simp add: lecture7_thread_test_def t1_def t2_def t3_def)
  moreover have "cs_counter (fst (fst r2)) = 800000" "cs_counter (fst (fst r3)) = 800000"
    using runs(3,4) atomic.final_count [of k_counter_threads k_counter_rounds "fst r2"]
      locked.final_count [of k_counter_threads k_counter_rounds "fst r3"]
    by (simp_all add: finished_run_def k_counter_threads_def k_counter_rounds_def)
  ultimately show ?thesis
    using o1(2) o2(2) o3(2) o4(2) by (auto simp: console t1_def t2_def t3_def)
qed

end
