(* ===== verification/Tlsf_Bits.thy ===== *)
theory Tlsf_Bits
  imports Engine_Prelude
begin

text \<open>
  The arithmetic of the allocator below \<^verbatim>\<open>heap.c\<close> (\<^verbatim>\<open>tlsf/tlsf.c\<close>): the bit scans, the rounding of requests
  and the two-level size classes.  The scans are given twice, as the compiler's instructions and as the
  portable routines of the source, and shown to agree.  The classes are shown to be in range, and a
  search for a request to start at a class whose blocks are all large enough.
\<close>

section \<open>Constants\<close>

definition SL_INDEX_COUNT_LOG2 :: nat where "SL_INDEX_COUNT_LOG2 = 5"
definition ALIGN_SIZE_LOG2 :: nat where "ALIGN_SIZE_LOG2 = 3"
definition ALIGN_SIZE :: u64 where "ALIGN_SIZE = 8"
definition FL_INDEX_MAX :: nat where "FL_INDEX_MAX = 32"
definition SL_INDEX_COUNT :: nat where "SL_INDEX_COUNT = 32"
definition FL_INDEX_SHIFT :: nat where "FL_INDEX_SHIFT = 8"
definition FL_INDEX_COUNT :: nat where "FL_INDEX_COUNT = 25"
definition SMALL_BLOCK_SIZE :: u64 where "SMALL_BLOCK_SIZE = 256"
definition block_header_overhead :: u64 where "block_header_overhead = 8"
definition sizeof_block_header_t :: u64 where "sizeof_block_header_t = 32"
definition block_size_min :: u64 where "block_size_min = 24"
definition block_size_max :: u64 where "block_size_max = 0x100000000"

lemmas tlsf_constants = SL_INDEX_COUNT_LOG2_def ALIGN_SIZE_LOG2_def ALIGN_SIZE_def FL_INDEX_MAX_def
  SL_INDEX_COUNT_def FL_INDEX_SHIFT_def FL_INDEX_COUNT_def SMALL_BLOCK_SIZE_def block_header_overhead_def
  sizeof_block_header_t_def block_size_min_def block_size_max_def

text \<open>How the constants depend on each other in the source.\<close>

lemma tlsf_constants_related:
  "SL_INDEX_COUNT = 2 ^ SL_INDEX_COUNT_LOG2" "unat ALIGN_SIZE = 2 ^ ALIGN_SIZE_LOG2"
  "FL_INDEX_SHIFT = SL_INDEX_COUNT_LOG2 + ALIGN_SIZE_LOG2" "FL_INDEX_COUNT = FL_INDEX_MAX - FL_INDEX_SHIFT + 1"
  "unat SMALL_BLOCK_SIZE = 2 ^ FL_INDEX_SHIFT" "block_size_max = 2 ^ FL_INDEX_MAX"
  "sizeof_block_header_t = block_size_min + block_header_overhead"
  by (simp_all add: tlsf_constants)

section \<open>Bit scans\<close>

text \<open>The instructions \<^verbatim>\<open>_BitScanReverse\<close> and \<^verbatim>\<open>_BitScanForward\<close>: the highest and lowest set bit.\<close>

definition bit_scan_reverse :: "u32 \<Rightarrow> nat option" where
  "bit_scan_reverse word = (if word = 0 then None else Some (last (filter (bit word) [0..<32])))"

definition bit_scan_forward :: "u32 \<Rightarrow> nat option" where
  "bit_scan_forward word = (if word = 0 then None else Some (hd (filter (bit word) [0..<32])))"

definition tlsf_fls :: "u32 \<Rightarrow> int" where
  "tlsf_fls word = (case bit_scan_reverse word of None \<Rightarrow> -1 | Some index \<Rightarrow> int index)"

definition tlsf_ffs :: "u32 \<Rightarrow> int" where
  "tlsf_ffs word = (case bit_scan_forward word of None \<Rightarrow> -1 | Some index \<Rightarrow> int index)"

text \<open>The portable routines.\<close>

definition fls_step :: "u32 \<Rightarrow> nat \<Rightarrow> u32 \<times> int \<Rightarrow> u32 \<times> int" where
  "fls_step high n s = (if fst s AND high = 0 then (push_bit n (fst s), snd s - int n) else s)"

definition tlsf_fls_generic :: "u32 \<Rightarrow> int" where
  "tlsf_fls_generic word =
     snd (fls_step 0x80000000 1 (fls_step 0xC0000000 2 (fls_step 0xF0000000 4
       (fls_step 0xFF000000 8 (fls_step 0xFFFF0000 16 (word, if word = 0 then 31 else 32))))))"

definition tlsf_ffs_portable :: "u32 \<Rightarrow> int" where
  "tlsf_ffs_portable word = tlsf_fls_generic (word AND (NOT word + 1)) - 1"

definition tlsf_fls_portable :: "u32 \<Rightarrow> int" where
  "tlsf_fls_portable word = tlsf_fls_generic word - 1"

definition tlsf_fls_sizet :: "u64 \<Rightarrow> int" where
  "tlsf_fls_sizet sz =
     (let high = ucast (drop_bit 32 sz) :: u32
      in if high \<noteq> 0 then 32 + tlsf_fls high else tlsf_fls (ucast sz AND 0xFFFFFFFF))"

section \<open>What the scans find\<close>

lemma bit_ge_exp:
  assumes "bit (w :: 'a::len word) k" shows "2 ^ k \<le> unat w"
proof -
  have "bit (unat w) k" using assms by (simp add: bit_unsigned_iff)
  then have "odd (unat w div 2 ^ k)" unfolding bit_iff_odd .
  then have "0 < unat w div 2 ^ k" by (rule odd_pos)
  then show ?thesis by (simp add: div_greater_zero_iff)
qed

lemma unat_push_bit_small:
  assumes "unat (w :: 'a::len word) * 2 ^ n < 2 ^ LENGTH('a)" shows "unat (push_bit n w) = unat w * 2 ^ n"
proof -
  have "unat (push_bit n w) = take_bit LENGTH('a) (push_bit n (unat w))" by (rule unsigned_push_bit_eq)
  also have "push_bit n (unat w) = unat w * 2 ^ n" by (rule push_bit_eq_mult)
  finally show ?thesis using assms by (simp add: take_bit_nat_eq_self)
qed

lemma unat_drop_bit_div: "unat (drop_bit n (w :: 'a::len word)) = unat w div 2 ^ n"
proof -
  have "unat (drop_bit n w) = drop_bit n (unat w)" by (rule unat_drop_bit_eq)
  also have "\<dots> = unat w div 2 ^ n" by (rule drop_bit_eq_div)
  finally show ?thesis .
qed

lemma no_high_bits_less:
  assumes "\<And>j. k < j \<Longrightarrow> \<not> bit (w :: 'a::len word) j" shows "unat w < 2 ^ Suc k"
proof -
  have "drop_bit (Suc k) w = 0" using assms by (auto intro!: bit_word_eqI simp: bit_simps)
  then have "drop_bit (Suc k) (unat w) = 0" by (metis unat_drop_bit_eq unsigned_0)
  then show ?thesis by (simp add: drop_bit_eq_div div_eq_0_iff del: power_Suc)
qed

lemma exp_interval_unique:
  assumes "2 ^ k \<le> n" "n < 2 ^ Suc k" "2 ^ l \<le> n" "n < (2 :: nat) ^ Suc l" shows "k = l"
proof -
  have "(2 :: nat) ^ k < 2 ^ Suc l" "(2 :: nat) ^ l < 2 ^ Suc k" using assms by linarith+
  then have "k < Suc l" "l < Suc k" by (simp_all only: power_strict_increasing_iff one_less_numeral_iff semiring_norm)
  then show ?thesis by simp
qed

text \<open>The positions of the set bits, in order.\<close>

lemma set_bits_nonempty:
  assumes "(w :: u32) \<noteq> 0" shows "filter (bit w) [0..<32] \<noteq> []"
proof
  assume none: "filter (bit w) [0..<32] = []"
  have "\<not> bit w k" for k
    using none bit_imp_le_length [of w k] by (fastforce simp: filter_empty_conv)
  with assms show False by (auto intro: bit_word_eqI)
qed

lemma sorted_last_max: "sorted xs \<Longrightarrow> x \<in> set xs \<Longrightarrow> x \<le> (last xs :: nat)"
  by (induction xs) auto

lemma sorted_hd_min: "sorted xs \<Longrightarrow> x \<in> set xs \<Longrightarrow> hd xs \<le> (x :: nat)"
  by (cases xs) auto

lemma set_bits_extremes:
  assumes "(w :: u32) \<noteq> 0"
  shows "bit w (last (filter (bit w) [0..<32]))" "\<And>j. last (filter (bit w) [0..<32]) < j \<Longrightarrow> \<not> bit w j"
    "bit w (hd (filter (bit w) [0..<32]))" "\<And>j. j < hd (filter (bit w) [0..<32]) \<Longrightarrow> \<not> bit w j"
proof -
  let ?bs = "filter (bit w) [0..<32]"
  note ne = set_bits_nonempty [OF assms]
  have s: "sorted ?bs" by (simp add: sorted_wrt_filter)
  have mem: "j \<in> set ?bs" if "bit w j" for j using that bit_imp_le_length [of w j] by simp
  show "bit w (last ?bs)" "bit w (hd ?bs)" using last_in_set [OF ne] hd_in_set [OF ne] by simp_all
  show "\<And>j. last ?bs < j \<Longrightarrow> \<not> bit w j" using sorted_last_max [OF s mem] by fastforce
  show "\<And>j. j < hd ?bs \<Longrightarrow> \<not> bit w j" using sorted_hd_min [OF s mem] by fastforce
qed

lemma tlsf_fls_bounds:
  assumes "w \<noteq> 0"
  obtains k where "tlsf_fls w = int k" "k < 32" "2 ^ k \<le> unat w" "unat w < 2 ^ Suc k"
proof -
  let ?k = "last (filter (bit w) [0..<32])"
  note B = set_bits_extremes [OF assms]
  have "?k < 32" using B(1) bit_imp_le_length [of w ?k] by simp
  with bit_ge_exp [OF B(1)] no_high_bits_less [OF B(2)] show thesis
    by (intro that [of ?k]) (simp_all add: tlsf_fls_def bit_scan_reverse_def assms)
qed

lemma tlsf_fls_eq:
  assumes "2 ^ k \<le> unat w" and "unat w < 2 ^ Suc k" shows "tlsf_fls w = int k"
proof -
  have "w \<noteq> 0" using assms(1) by auto
  then obtain l where "tlsf_fls w = int l" "2 ^ l \<le> unat w" "unat w < 2 ^ Suc l" by (rule tlsf_fls_bounds)
  with exp_interval_unique [OF assms] show ?thesis by simp
qed

text \<open>The 64-bit scan is the binary logarithm.\<close>

lemma tlsf_fls_sizet_eq:
  assumes "2 ^ k \<le> unat s" and "unat s < 2 ^ Suc k" shows "tlsf_fls_sizet s = int k"
proof -
  let ?h = "ucast (drop_bit 32 s) :: u32"
  have lt: "unat s < 2 ^ 64" using unsigned_less [of s] by simp
  have d: "unat (drop_bit 32 s) = unat s div 2 ^ 32" by (rule unat_drop_bit_div)
  have "unat s div 2 ^ 32 < 2 ^ 32" using lt by (intro less_mult_imp_div_less) simp
  then have h: "unat ?h = unat s div 2 ^ 32"
    by (simp only: unsigned_ucast_eq d take_bit_nat_eq_self len_bit0 len_num1) (simp add: take_bit_nat_eq_self)
  show ?thesis
  proof (cases "?h = 0")
    case True
    then have "unat s div 2 ^ 32 = 0" using h by simp
    then have s: "unat s < 2 ^ 32" by (simp add: div_eq_0_iff)
    have "unat (ucast s :: u32) = unat s" using s by (simp add: unsigned_ucast_eq take_bit_nat_eq_self)
    moreover have "(ucast s :: u32) AND 0xFFFFFFFF = ucast s"
    proof -
      have "(0xFFFFFFFF :: u32) = - 1" by simp
      then show ?thesis by (simp only: bit.conj_one_right)
    qed
    ultimately show ?thesis using True tlsf_fls_eq [of k "ucast s"] assms by (simp add: tlsf_fls_sizet_def)
  next
    case False
    then have "0 < unat ?h" by (simp add: unat_gt_0)
    then have "2 ^ 32 \<le> unat s" unfolding h by (simp add: div_greater_zero_iff)
    then have "(2 :: nat) ^ 32 < 2 ^ Suc k" using assms(2) by linarith
    then have k: "32 \<le> k" by (simp only: power_strict_increasing_iff one_less_numeral_iff semiring_norm)
    then obtain l where l: "k = 32 + l" using le_Suc_ex by blast
    have "2 ^ l \<le> unat s div 2 ^ 32" using assms(1) by (simp add: less_eq_div_iff_mult_less_eq l power_add mult.commute)
    moreover have "unat s div 2 ^ 32 < 2 ^ Suc l"
      using assms(2) by (simp add: div_less_iff_less_mult l power_add mult.commute)
    ultimately show ?thesis using False tlsf_fls_eq [of l ?h] h l by (simp add: tlsf_fls_sizet_def)
  qed
qed

section \<open>The portable scans agree\<close>

text \<open>After a step the word is the original one shifted, with \<open>m\<close> or more as the place of its highest bit.\<close>

definition fls_state :: "nat \<Rightarrow> nat \<Rightarrow> u32 \<times> int \<Rightarrow> bool" where
  "fls_state v m s \<longleftrightarrow> (\<exists>c. snd s = 32 - int c \<and> unat (fst s) = v * 2 ^ c \<and> 2 ^ m \<le> unat (fst s))"

lemma high_mask_zero:
  fixes w :: u32
  assumes "H = push_bit (32 - n) (mask n)" and "n \<le> 32"
  shows "w AND H = 0 \<longleftrightarrow> unat w < 2 ^ (32 - n)"
proof
  assume z: "w AND H = 0"
  have "\<not> bit w j" if "32 - n \<le> j" for j
  proof
    assume b: "bit w j"
    then have "j < 32" using bit_imp_le_length [of w j] by simp
    then have "bit (w AND H) j" using that b assms by (simp add: bit_simps) linarith
    with z show False by simp
  qed
  then have "drop_bit (32 - n) w = 0" by (auto intro!: bit_word_eqI simp: bit_simps)
  then have "drop_bit (32 - n) (unat w) = 0" by (metis unat_drop_bit_eq unsigned_0)
  then show "unat w < 2 ^ (32 - n)" by (simp add: drop_bit_eq_div div_eq_0_iff)
next
  assume less: "unat w < 2 ^ (32 - n)"
  have "\<not> bit w j" if "32 - n \<le> j" for j
  proof
    assume "bit w j"
    then have "2 ^ j \<le> unat w" by (rule bit_ge_exp)
    moreover have "(2 :: nat) ^ (32 - n) \<le> 2 ^ j" using that by simp
    ultimately show False using less by linarith
  qed
  then show "w AND H = 0" by (auto intro!: bit_word_eqI simp: bit_simps assms(1))
qed

lemma fls_step_state:
  assumes s: "fls_state v m s" and H: "H = push_bit (32 - n) (mask n)" and n: "n \<le> 32" "m + n = 32 - n"
  shows "fls_state v (m + n) (fls_step H n s)"
proof (cases "fst s AND H = 0")
  case False
  then have "2 ^ (32 - n) \<le> unat (fst s)" using high_mask_zero [OF H n(1)] by (simp add: not_less)
  with s False show ?thesis by (auto simp: fls_state_def fls_step_def n(2))
next
  case True
  obtain c where c: "snd s = 32 - int c" "unat (fst s) = v * 2 ^ c" "2 ^ m \<le> unat (fst s)"
    using s by (auto simp: fls_state_def)
  have less: "unat (fst s) < 2 ^ (32 - n)" using high_mask_zero [OF H n(1)] True by simp
  have "unat (fst s) * 2 ^ n < 2 ^ (32 - n) * 2 ^ n" using less by simp
  also have "\<dots> = 2 ^ 32" using n(1) by (simp add: power_add [symmetric])
  finally have "unat (push_bit n (fst s)) = unat (fst s) * 2 ^ n" by (intro unat_push_bit_small) simp
  then show ?thesis
    unfolding fls_state_def fls_step_def using True c
    by (intro exI [of _ "c + n"]) (simp add: power_add)
qed

lemma high_masks:
  "(0xFFFF0000 :: u32) = push_bit (32 - 16) (mask 16)" "(0xFF000000 :: u32) = push_bit (32 - 8) (mask 8)"
  "(0xF0000000 :: u32) = push_bit (32 - 4) (mask 4)" "(0xC0000000 :: u32) = push_bit (32 - 2) (mask 2)"
  "(0x80000000 :: u32) = push_bit (32 - 1) (mask 1)"
  by (simp_all add: mask_eq_exp_minus_1)

lemma tlsf_fls_portable_agrees: "tlsf_fls_portable w = tlsf_fls w"
proof (cases "w = 0")
  case True
  then show ?thesis
    by (simp add: tlsf_fls_portable_def tlsf_fls_generic_def fls_step_def tlsf_fls_def bit_scan_reverse_def)
next
  case False
  have "1 \<le> unat w" using False by (simp add: unat_gt_0 Suc_leI)
  then have s0: "fls_state (unat w) 0 (w, 32)" by (auto simp: fls_state_def intro!: exI [of _ 0])
  have s1: "fls_state (unat w) (0 + 16) (fls_step 0xFFFF0000 16 (w, 32))" by (rule fls_step_state [OF s0 high_masks(1)]) simp_all
  have s2: "fls_state (unat w) (0 + 16 + 8) (fls_step 0xFF000000 8 (fls_step 0xFFFF0000 16 (w, 32)))"
    by (rule fls_step_state [OF s1 high_masks(2)]) simp_all
  have s3: "fls_state (unat w) (0 + 16 + 8 + 4) (fls_step 0xF0000000 4 (fls_step 0xFF000000 8 (fls_step 0xFFFF0000 16 (w, 32))))"
    by (rule fls_step_state [OF s2 high_masks(3)]) simp_all
  have s4: "fls_state (unat w) (0 + 16 + 8 + 4 + 2) (fls_step 0xC0000000 2 (fls_step 0xF0000000 4 (fls_step 0xFF000000 8
      (fls_step 0xFFFF0000 16 (w, 32)))))"
    by (rule fls_step_state [OF s3 high_masks(4)]) simp_all
  define y where "y = fls_step 0x80000000 1 (fls_step 0xC0000000 2 (fls_step 0xF0000000 4
      (fls_step 0xFF000000 8 (fls_step 0xFFFF0000 16 (w, 32)))))"
  have "fls_state (unat w) (0 + 16 + 8 + 4 + 2 + 1) y"
    unfolding y_def by (rule fls_step_state [OF s4 high_masks(5)]) simp_all
  then obtain c where y: "snd y = 32 - int c" "unat (fst y) = unat w * 2 ^ c" "2 ^ 31 \<le> unat (fst y)"
    unfolding fls_state_def by auto
  define x where "x = fst y"
  have g: "tlsf_fls_generic w = snd y" unfolding tlsf_fls_generic_def y_def using False by (simp only: if_False)
  have c: "tlsf_fls_generic w = 32 - int c" "unat x = unat w * 2 ^ c" "2 ^ 31 \<le> unat x"
    unfolding g x_def by (rule y)+
  have x: "unat x < 2 ^ 32" using unsigned_less [of x] by simp
  have "2 ^ c \<le> unat x" using c(2) \<open>1 \<le> unat w\<close> by simp
  then have "(2 :: nat) ^ c < 2 ^ 32" using x by linarith
  then have "c < 32" by (simp only: power_strict_increasing_iff one_less_numeral_iff semiring_norm)
  then obtain k where k: "k + c = 31" 
    using that [of "31 - c"] by simp
  have e: "(2 :: nat) ^ k * 2 ^ c = 2 ^ 31" "(2 :: nat) ^ Suc k * 2 ^ c = 2 ^ 32"
    unfolding power_add [symmetric] by (simp_all only: k add_Suc) simp_all
  have "2 ^ k * 2 ^ c \<le> unat w * 2 ^ c" using c(2,3) by (simp only: e)
  moreover have "unat w * 2 ^ c < 2 ^ Suc k * 2 ^ c" using c(2) x by (simp only: e)
  ultimately have "tlsf_fls w = int k" by (intro tlsf_fls_eq) (simp_all del: power_Suc)
  with c(1) k show ?thesis by (simp add: tlsf_fls_portable_def of_nat_diff)
qed

text \<open>Only the lowest set bit is left in \<open>w AND - w\<close>.\<close>

lemma odd_and_minus:
  fixes v :: "'a::len word"
  assumes "odd v" shows "v AND - v = 1"
proof -
  have b0: "bit v 0" using assms by (simp add: bit_0)
  have "NOT v AND 1 = 0" by (rule bit_word_eqI) (use b0 in \<open>auto simp: bit_and_iff bit_not_iff bit_1_iff\<close>)
  then have d: "v - 1 = v AND NOT 1" by (rule disjunctive_diff_eq_and_not)
  have "- v = NOT (v AND NOT 1)" unfolding d [symmetric] by (rule minus_eq_not_minus_1)
  then show ?thesis
    by (simp only:, intro bit_word_eqI) (use b0 in \<open>auto simp: bit_and_iff bit_or_iff bit_not_iff bit_1_iff\<close>)
qed

lemma lowest_bit:
  fixes w :: "'a::len word"
  assumes "bit w k" and "\<And>j. j < k \<Longrightarrow> \<not> bit w j" shows "w AND (NOT w + 1) = push_bit k 1"
proof -
  define v where "v = drop_bit k w"
  have w: "w = push_bit k v"
  proof (rule bit_word_eqI)
    fix n assume "n < LENGTH('a)"
    with assms(2) [of n] show "bit w n = bit (push_bit k v) n" by (cases "n < k") (auto simp: v_def bit_simps)
  qed
  have "odd v" using assms(1) by (simp add: v_def bit_0 [symmetric] bit_simps)
  have "NOT w + 1 = - w" by (simp add: minus_eq_not_plus_1)
  also have "\<dots> = push_bit k (- v)" by (simp add: w push_bit_eq_mult)
  finally show ?thesis using odd_and_minus [OF \<open>odd v\<close>] by (simp add: w push_bit_and [symmetric])
qed

lemma tlsf_ffs_portable_agrees: "tlsf_ffs_portable w = tlsf_ffs w"
proof (cases "w = 0")
  case True
  then have "tlsf_ffs_portable w = tlsf_fls 0"
    using tlsf_fls_portable_agrees [of 0] by (simp add: tlsf_ffs_portable_def tlsf_fls_portable_def)
  then show ?thesis using True by (simp add: tlsf_fls_def tlsf_ffs_def bit_scan_reverse_def bit_scan_forward_def)
next
  case False
  let ?k = "hd (filter (bit w) [0..<32])"
  note B = set_bits_extremes [OF False]
  have k: "?k < 32" using B(3) bit_imp_le_length [of w ?k] by simp
  have "unat (push_bit ?k 1 :: u32) = 2 ^ ?k" 
  proof -
    have "(2 :: nat) ^ ?k < 2 ^ 32" using k by (intro power_strict_increasing) simp_all
    then show ?thesis using unat_push_bit_small [of "1 :: u32" ?k] by simp
  qed
  then have "tlsf_fls (push_bit ?k 1) = int ?k" by (intro tlsf_fls_eq) simp_all
  then have "tlsf_ffs_portable w = int ?k"
    using tlsf_fls_portable_agrees [of "push_bit ?k 1"] lowest_bit [OF B(3,4)]
    by (simp add: tlsf_ffs_portable_def tlsf_fls_portable_def)
  then show ?thesis using False by (simp add: tlsf_ffs_def bit_scan_forward_def)
qed

section \<open>Requests\<close>

text \<open>A failed assertion of the debug build is a fault.\<close>

definition align_up :: "u64 \<Rightarrow> u64 \<Rightarrow> u64 outcome" where
  "align_up x align = (if align AND (align - 1) \<noteq> 0 then Inl Assert_failed else Inr ((x + (align - 1)) AND NOT (align - 1)))"

definition align_down :: "u64 \<Rightarrow> u64 \<Rightarrow> u64 outcome" where
  "align_down x align = (if align AND (align - 1) \<noteq> 0 then Inl Assert_failed else Inr (x - (x AND (align - 1))))"

definition adjust_request_size :: "u64 \<Rightarrow> u64 \<Rightarrow> u64 outcome" where
  "adjust_request_size sz align =
     (if sz = 0 then Inr 0
      else bind_ok (align_up sz align) (\<lambda>aligned.
             Inr (if aligned < block_size_max then max aligned block_size_min else 0)))"

text \<open>Rounding to a power of two, upwards while it does not leave the width.\<close>

lemma power_of_two_mask:
  assumes "k < 64" shows "((2 ^ k :: u64) AND (2 ^ k - 1)) = 0" "(2 ^ k - 1 :: u64) = mask k"
proof -
  show m: "(2 ^ k - 1 :: u64) = mask k" by (simp add: mask_eq_exp_minus_1)
  show "((2 ^ k :: u64) AND (2 ^ k - 1)) = 0"
    unfolding m by (rule bit_word_eqI) (auto simp: bit_simps)
qed

lemma align_up_ok:
  assumes "k < 64" and "unat x + (2 ^ k - 1) < 2 ^ 64"
  obtains y where "align_up x (2 ^ k) = Inr y" "unat y = (unat x + (2 ^ k - 1)) div 2 ^ k * 2 ^ k"
proof
  show "align_up x (2 ^ k) = Inr ((x + mask k) AND NOT (mask k))"
    using power_of_two_mask [OF assms(1)] by (simp add: align_up_def)
  have "unat (mask k :: u64) = 2 ^ k - 1" using assms(1) by (simp add: unat_mask_small)
  then have "unat (x + mask k) = unat x + (2 ^ k - 1)" using assms(2) by (subst unat_plus_if') simp
  then show "unat ((x + mask k) AND NOT (mask k)) = (unat x + (2 ^ k - 1)) div 2 ^ k * 2 ^ k"
    by (simp add: and_not_mask_unat minus_mod_eq_div_mult)
qed

lemma align_down_ok:
  assumes "k < 64"
  obtains y where "align_down x (2 ^ k) = Inr y" "unat y = unat x div 2 ^ k * 2 ^ k"
proof
  show "align_down x (2 ^ k) = Inr (x - (x AND mask k))"
    using power_of_two_mask [OF assms] by (simp add: align_down_def)
  have t: "x AND mask k = take_bit k x" by (simp add: take_bit_eq_mask)
  have "take_bit k x \<le> x" by (simp add: word_le_nat_alt unsigned_take_bit_eq take_bit_nat_less_eq_self)
  then have "unat (x - take_bit k x) = unat x - take_bit k (unat x)" by (simp add: unat_sub unsigned_take_bit_eq)
  then show "unat (x - (x AND mask k)) = unat x div 2 ^ k * 2 ^ k"
    unfolding t by (simp add: take_bit_eq_mod minus_mod_eq_div_mult)
qed

lemma ALIGN_SIZE_power: "ALIGN_SIZE = 2 ^ 3"
  by (simp add: ALIGN_SIZE_def)

text \<open>Requests below the largest size are rounded up to a multiple of the alignment, and to the least size.\<close>

lemma adjust_request_size_ok:
  assumes "0 < unat n" "k < 32" "unat n < 2 ^ 64 - 2 ^ 32"
  defines "m \<equiv> (unat n + (2 ^ k - 1)) div 2 ^ k * 2 ^ k"
  obtains s where "adjust_request_size n (2 ^ k) = Inr s" "unat s = (if m < 2 ^ 32 then max m 24 else 0)"
proof -
  have "(2 :: nat) ^ k < 2 ^ 32" using assms(2) by (intro power_strict_increasing) simp_all
  then have "unat n + (2 ^ k - 1) < 2 ^ 64" using assms(3) by simp
  moreover have "k < 64" using assms(2) by simp
  ultimately obtain y where y: "align_up n (2 ^ k) = Inr y" "unat y = m"
    unfolding m_def using align_up_ok by blast
  show ?thesis
  proof
    have "n \<noteq> 0" using assms(1) by auto
    with y(1) show "adjust_request_size n (2 ^ k) = Inr (if y < block_size_max then max y block_size_min else 0)"
      by (simp add: adjust_request_size_def)
    show "unat (if y < block_size_max then max y block_size_min else 0) = (if m < 2 ^ 32 then max m 24 else 0)"
      using y(2) by (auto simp: block_size_max_def block_size_min_def word_less_nat_alt max_def word_le_nat_alt)
  qed
qed

section \<open>Size classes\<close>

definition mapping_insert :: "u64 \<Rightarrow> int \<times> int" where
  "mapping_insert sz =
     (if sz < SMALL_BLOCK_SIZE
      then (0, sint (ucast sz :: i32) sdiv (int (unat SMALL_BLOCK_SIZE) div int SL_INDEX_COUNT))
      else let fl = tlsf_fls_sizet sz;
               sl = (ucast (drop_bit (nat (fl - int SL_INDEX_COUNT_LOG2)) sz) :: i32) XOR push_bit SL_INDEX_COUNT_LOG2 1
           in (fl - (int FL_INDEX_SHIFT - 1), sint sl))"

definition mapping_search :: "u64 \<Rightarrow> int \<times> int" where
  "mapping_search sz =
     mapping_insert
       (if SMALL_BLOCK_SIZE \<le> sz
        then sz + scast ((push_bit (nat (tlsf_fls_sizet sz - int SL_INDEX_COUNT_LOG2)) 1 :: i32) - 1)
        else sz)"

text \<open>The smallest size of a class.\<close>

definition class_base :: "nat \<Rightarrow> nat \<Rightarrow> nat" where
  "class_base f j = (if f = 0 then 8 * j else 2 ^ (f + 2) * (32 + j))"

lemma class_base_end: "class_base f 32 = class_base (Suc f) 0"
  by (simp add: class_base_def)

lemma class_base_mono_sl: "i \<le> j \<Longrightarrow> class_base f i \<le> class_base f j"
  by (simp add: class_base_def)

lemma class_base_mono_fl: "f \<le> g \<Longrightarrow> class_base f 0 \<le> class_base g 0"
  by (auto simp: class_base_def intro: power_increasing)

lemma class_base_lex:
  assumes "f < g \<or> f = g \<and> i \<le> j" and "i \<le> 32"
  shows "class_base f i \<le> class_base g j"
proof (cases "f = g")
  case True
  then show ?thesis using assms by (auto intro: class_base_mono_sl)
next
  case False
  have "class_base f i \<le> class_base f 32" by (rule class_base_mono_sl [OF assms(2)])
  also have "\<dots> \<le> class_base g 0" unfolding class_base_end using False assms(1) by (intro class_base_mono_fl) simp
  also have "\<dots> \<le> class_base g j" by (rule class_base_mono_sl) simp
  finally show ?thesis .
qed

text \<open>The position of the highest bit of a number.\<close>

lemma highest_exp: "0 < n \<Longrightarrow> \<exists>k. 2 ^ k \<le> n \<and> n < (2 :: nat) ^ Suc k"
proof (induction n rule: less_induct)
  case (less n)
  show ?case
  proof (cases "n = 1")
    case True
    then show ?thesis by (intro exI [of _ 0]) simp
  next
    case False
    then have "0 < n div 2" "n div 2 < n" using less.prems by auto
    from less.IH [OF this(2,1)] obtain k where k: "2 ^ k \<le> n div 2" "n div 2 < 2 ^ Suc k" by blast
    have "2 ^ Suc k \<le> n" "n < 2 ^ Suc (Suc k)" using k by simp_all
    then show ?thesis by blast
  qed
qed

lemma sint_small:
  assumes "unat (x :: i32) < 2 ^ 31" shows "sint x = int (unat x)"
proof -
  define n where "n = unat x"
  have x: "x = word_of_nat n" by (simp add: n_def)
  have "n < 2 ^ 31" using assms by (simp only: n_def)
  then have "int n < 2 ^ 31" by (simp only: of_nat_less_iff [symmetric, where 'a = int] of_nat_power of_nat_numeral)
  then have "sint (word_of_nat n :: i32) = int n" by (simp add: signed_of_nat signed_take_bit_int_eq_self)
  then show ?thesis unfolding x [symmetric] by (simp add: n_def)
qed

lemma xor_top_bit:
  fixes x :: u32
  assumes "32 \<le> unat x" and "unat x < 64" shows "sint (x XOR 32) = int (unat x) - 32"
proof -
  have "tlsf_fls x = int 5" using assms by (intro tlsf_fls_eq) simp_all
  have e: "(32 :: u32) = push_bit 5 1" by simp
  have b32: "bit (32 :: u32) n \<longleftrightarrow> n = 5" for n
    unfolding e by (auto simp: bit_push_bit_iff bit_1_iff simp del: push_bit_of_1)
  have b: "bit x 5"
  proof (rule ccontr)
    assume "\<not> bit x 5"
    have "\<not> bit x j" if "4 < j" for j
    proof
      assume b: "bit x j"
      have "2 ^ j \<le> unat x" by (rule bit_ge_exp [OF b])
      then have "(2 :: nat) ^ j < 2 ^ 6" using assms(2) by simp
      then have "j < 6" by (simp only: power_strict_increasing_iff one_less_numeral_iff semiring_norm)
      with that have "j = 5" by simp
      with b \<open>\<not> bit x 5\<close> show False by simp
    qed
    then have "unat x < 2 ^ Suc 4" by (rule no_high_bits_less)
    with assms(1) show False by simp
  qed
  have "NOT x AND 32 = 0" by (rule bit_word_eqI, simp only: bit_and_iff bit_not_iff bit_xor_iff bit_0_eq b32) (use b in auto)
  then have "x - 32 = x AND NOT 32" by (rule disjunctive_diff_eq_and_not)
  moreover have "x AND NOT 32 = x XOR 32" by (rule bit_word_eqI, simp only: bit_and_iff bit_not_iff bit_xor_iff bit_0_eq b32) (use b in auto)
  ultimately have e: "x XOR 32 = x - 32" by simp
  have u: "unat (x - 32) = unat x - 32" using assms(1) by (subst unat_sub) (simp_all add: word_le_nat_alt)
  have "sint (x - 32) = int (unat (x - 32))" using assms u by (intro sint_small) simp
  then show ?thesis using assms(1) by (simp add: e u of_nat_diff)
qed

lemma mapping_insert_small:
  assumes "unat s < 256" shows "mapping_insert s = (0, int (unat s div 8))"
proof -
  have less: "s < SMALL_BLOCK_SIZE" using assms by (simp add: SMALL_BLOCK_SIZE_def word_less_nat_alt)
  have "unat (ucast s :: i32) = unat s" using assms by (simp add: unsigned_ucast_eq take_bit_nat_eq_self)
  then have "sint (ucast s :: i32) = int (unat s)" using sint_small [of "ucast s"] assms by simp
  then show ?thesis using less by (simp add: mapping_insert_def tlsf_constants signed_divide_int_def sgn_if zdiv_int)
qed

lemma mapping_insert_large:
  assumes k: "2 ^ k \<le> unat s" "unat s < 2 ^ Suc k" and "8 \<le> k"
  shows "mapping_insert s = (int k - 7, int (unat s div 2 ^ (k - 5)) - 32)"
    "32 \<le> unat s div 2 ^ (k - 5)" "unat s div 2 ^ (k - 5) < 64"
proof -
  obtain m where m: "k = m + 5" "3 \<le> m" using assms(3) that [of "k - 5"] by simp
  have p: "(2 :: nat) ^ k = 32 * 2 ^ m" by (simp add: m power_add)
  show d: "32 \<le> unat s div 2 ^ (k - 5)" "unat s div 2 ^ (k - 5) < 64"
    using k by (simp_all add: m(1) power_add less_eq_div_iff_mult_less_eq div_less_iff_less_mult)
  have "(2 :: nat) ^ 8 \<le> 2 ^ k" using assms(3) by (intro power_increasing) simp_all
  then have "\<not> s < SMALL_BLOCK_SIZE" using k(1) by (simp add: SMALL_BLOCK_SIZE_def word_less_nat_alt)
  moreover have "tlsf_fls_sizet s = int k" by (rule tlsf_fls_sizet_eq [OF k])
  moreover have "sint ((ucast (drop_bit (k - 5) s) :: i32) XOR 32) = int (unat s div 2 ^ (k - 5)) - 32"
  proof -
    have "unat (drop_bit (k - 5) s) = unat s div 2 ^ (k - 5)" by (rule unat_drop_bit_div)
    then have "unat (ucast (drop_bit (k - 5) s) :: i32) = unat s div 2 ^ (k - 5)"
      using d(2) by (simp add: unsigned_ucast_eq take_bit_nat_eq_self)
    with xor_top_bit [of "ucast (drop_bit (k - 5) s)"] d show ?thesis by simp
  qed
  moreover have "nat (int k - 5) = k - 5" by simp
  ultimately show "mapping_insert s = (int k - 7, int (unat s div 2 ^ (k - 5)) - 32)"
    by (simp add: mapping_insert_def tlsf_constants Let_def)
qed

text \<open>The class of any size: its second index is in range, and the size lies between the class's bounds.\<close>

lemma mapping_insert_class:
  obtains f j where "mapping_insert s = (int f, int j)" "j < 32" "class_base f j \<le> unat s" "unat s < class_base f (Suc j)"
proof (cases "unat s < 256")
  case True
  show ?thesis
  proof (rule that [of 0 "unat s div 8"])
    show "mapping_insert s = (int 0, int (unat s div 8))" using mapping_insert_small [OF True] by simp
  qed (use True in \<open>simp_all add: class_base_def\<close>)
next
  case False
  then obtain k where k: "2 ^ k \<le> unat s" "unat s < 2 ^ Suc k" using highest_exp [of "unat s"] by auto
  have "8 \<le> k"
  proof (rule ccontr)
    assume "\<not> 8 \<le> k"
    then have "(2 :: nat) ^ Suc k \<le> 2 ^ 8" by (intro power_increasing) simp_all
    with k(2) False show False by simp
  qed
  note M = mapping_insert_large [OF k this]
  define q where "q = unat s div 2 ^ (k - 5)"
  have f: "0 < k - 7" "k - 7 + 2 = k - 5" using \<open>8 \<le> k\<close> by simp_all
  have "2 ^ (k - 5) * q \<le> unat s" unfolding q_def by (rule times_div_less_eq_dividend)
  moreover have "unat s < 2 ^ (k - 5) * Suc q" unfolding q_def using dividend_less_times_div [of "2 ^ (k - 5)" "unat s"] by simp
  moreover have "32 \<le> q" "q < 64" using M(2,3) by (simp_all add: q_def)
  moreover have "mapping_insert s = (int (k - 7), int (q - 32))"
    using M(1) \<open>32 \<le> q\<close> \<open>8 \<le> k\<close> by (simp add: q_def of_nat_diff)
  ultimately show ?thesis using f by (intro that [of "k - 7" "q - 32"]) (simp_all add: class_base_def)
qed

lemma class_base_pos_iff: "class_base f i < class_base g j \<Longrightarrow> i \<le> 32 \<Longrightarrow> j \<le> 32 \<Longrightarrow> f < g \<or> f = g \<and> i < j"
  using class_base_lex [of g f j i] by (metis leD leI linorder_neqE_nat)

text \<open>A larger size has a class that is not smaller.\<close>

lemma class_lex_mono:
  assumes "class_base f i \<le> m" "m \<le> n" "n < class_base g (Suc j)" "i < 32" "j < 32"
  shows "f < g \<or> f = g \<and> i \<le> j"
  using class_base_pos_iff [of f i g "Suc j"] assms by auto

lemma class_unique:
  assumes "class_base f i \<le> n" "n < class_base f (Suc i)" "class_base g j \<le> n" "n < class_base g (Suc j)" "i < 32" "j < 32"
  shows "f = g \<and> i = j"
  using class_lex_mono [OF assms(1) order_refl assms(4)] class_lex_mono [OF assms(3) order_refl assms(2)] assms(5,6) by auto

lemma class_first_index:
  assumes "class_base f i \<le> n" "n < class_base f (Suc i)" "i < 32"
  shows "f < 25 \<longleftrightarrow> n < 2 ^ 32"
proof
  assume "f < 25"
  then have "class_base f (Suc i) \<le> class_base 25 0" using assms(3) by (intro class_base_lex) simp_all
  with assms(2) show "n < 2 ^ 32" by (simp add: class_base_def)
next
  assume n: "n < 2 ^ 32"
  show "f < 25"
  proof (rule ccontr)
    assume "\<not> f < 25"
    then have "class_base 25 0 \<le> class_base f i" by (intro class_base_lex) auto
    with assms(1) n show False by (simp add: class_base_def)
  qed
qed

text \<open>
  The class a search starts at: the request rounded up by less than a thirty-second of it, so that
  every block of the class is large enough.
\<close>

lemma round_mask:
  assumes "e < 31" shows "(scast ((push_bit e 1 :: i32) - 1) :: u64) = word_of_nat (2 ^ e - 1)"
proof -
  have p: "(2 :: nat) ^ e < 2 ^ 31" using assms by (intro power_strict_increasing) simp_all
  have u: "unat (push_bit e 1 :: i32) = 2 ^ e" using unat_push_bit_small [of "1 :: i32" e] p by simp
  have "unat ((push_bit e 1 :: i32) - 1) = 2 ^ e - 1"
    by (subst unat_sub) (simp_all add: u word_le_nat_alt del: push_bit_of_1)
  moreover from this have "sint ((push_bit e 1 :: i32) - 1) = int (2 ^ e - 1)" using p by (subst sint_small) simp_all
  ultimately show ?thesis by (simp only: scast_eq of_int_of_nat_eq)
qed

lemma mapping_search_class:
  assumes s: "unat s < 2 ^ 32" and "8 dvd unat s"
  obtains f j r where "mapping_search s = (int f, int j)" "j < 32" "unat s \<le> class_base f j"
    "class_base f j \<le> r" "r < class_base f (Suc j)" "r \<le> unat s + unat s div 32"
proof (cases "unat s < 256")
  case True
  have "\<not> SMALL_BLOCK_SIZE \<le> s" using True by (simp add: SMALL_BLOCK_SIZE_def word_le_nat_alt)
  then have "mapping_search s = (int 0, int (unat s div 8))" using mapping_insert_small [OF True] by (simp add: mapping_search_def)
  then show ?thesis by (rule that [of _ _ "unat s"]) (use True assms(2) in \<open>auto simp: class_base_def\<close>)
next
  case False
  then obtain k where k: "2 ^ k \<le> unat s" "unat s < 2 ^ Suc k" using highest_exp [of "unat s"] by auto
  have "(2 :: nat) ^ 8 < 2 ^ Suc k" "(2 :: nat) ^ k < 2 ^ 32" using k s False by simp_all
  then have "8 \<le> k" "k < 32" by (simp_all only: power_strict_increasing_iff one_less_numeral_iff semiring_norm)
  then obtain m where m: "k = m + 5" "3 \<le> m" "m < 27" using that [of "k - 5"] by simp
  have p: "(2 :: nat) ^ k = 32 * 2 ^ m" "(2 :: nat) ^ Suc k = 64 * 2 ^ m" by (simp_all add: m power_add)
  define r where "r = unat s + (2 ^ m - 1)"
  have pm: "(2 :: nat) ^ m \<le> 2 ^ 26" using m(3) by (intro power_increasing) simp_all
  have less: "SMALL_BLOCK_SIZE \<le> s" using False by (simp add: SMALL_BLOCK_SIZE_def word_le_nat_alt)
  have fls: "tlsf_fls_sizet s = int k" by (rule tlsf_fls_sizet_eq [OF k])
  define s' where "s' = s + word_of_nat (2 ^ m - 1)"
  have "unat s + (2 ^ m - 1) < 2 ^ 64" using s pm by simp
  moreover have "unat (word_of_nat (2 ^ m - 1) :: u64) = 2 ^ m - 1"
    using pm by (simp only: unsigned_of_nat) (simp add: take_bit_nat_eq_self)
  ultimately have s': "unat s' = r" unfolding s'_def r_def by (subst unat_plus_if') simp
  have search: "mapping_search s = mapping_insert s'"
    using less fls m round_mask [of m] by (simp add: mapping_search_def s'_def SL_INDEX_COUNT_LOG2_def)
  obtain f j where C: "mapping_insert s' = (int f, int j)" "j < 32" "class_base f j \<le> r" "r < class_base f (Suc j)"
    using mapping_insert_class [of s'] s' by metis
  have "unat s \<le> class_base f j"
  proof (cases "r < 2 ^ Suc k")
    case True
    define q where "q = r div 2 ^ m"
    have q: "32 \<le> q" "q < 64" using k True p unfolding q_def r_def
      by (simp_all add: less_eq_div_iff_mult_less_eq div_less_iff_less_mult)
    have "2 ^ m * q \<le> r" "r < 2 ^ m * Suc q"
      unfolding q_def using dividend_less_times_div [of "2 ^ m" r] by simp_all
    moreover have "m - 2 + 2 = m" "0 < m - 2" using m(2) by simp_all
    ultimately have "f = m - 2 \<and> j = q - 32"
      using C q by (intro class_unique [of f j r]) (simp_all add: class_base_def)
    moreover have "unat s \<le> 2 ^ m * q" using \<open>r < 2 ^ m * Suc q\<close> by (simp add: r_def)
    ultimately show ?thesis using q \<open>m - 2 + 2 = m\<close> \<open>0 < m - 2\<close> by (simp add: class_base_def)
  next
    case False
    have b: "class_base (m - 1) 0 = 2 ^ Suc k" using m(2) p by (simp add: class_base_def)
    have "2 ^ Suc k \<le> r" using False by simp
    then have "class_base (m - 1) 0 < class_base f (Suc j)" using C(4) unfolding b by simp
    then have "class_base (m - 1) 0 \<le> class_base f j" using class_base_pos_iff [of "m - 1" 0 f "Suc j"] C(2)
      by (intro class_base_lex) auto
    then show ?thesis using k(2) b by simp
  qed
  moreover have "r \<le> unat s + unat s div 32" using k(1) p unfolding r_def by (simp add: less_eq_div_iff_mult_less_eq)
  ultimately show ?thesis using C search by (intro that [of f j r]) simp_all
qed

end
