(* ===== verification/Heap_Arena.thy ===== *)
theory Heap_Arena
  imports Memory Sync Tlsf_Bits
begin

text \<open>
  The heap (\<^verbatim>\<open>heap.c\<close>): a mutex around the two-level segregated fit allocator \<^verbatim>\<open>tlsf.c\<close>, with arenas
  of virtual memory that are added when an allocation does not fit.  Of the vendored allocator only sizes
  are used here; its operations are a parameter of the heap's.  What the heap owes to it and to the system holds
  whatever they do: the memory that is handed over as a pool was taken for it, and all that was taken
  is given back.  Virtual memory is the block memory of \<open>Memory\<close>, used for whole regions.
\<close>

section \<open>The vendored allocator and virtual memory\<close>

record ('t, 'p) tlsf_lib =
  tlsf_create :: 't
  tlsf_memalign :: "'t \<Rightarrow> nat \<Rightarrow> nat \<Rightarrow> 't \<times> 'p option"
  tlsf_free :: "'t \<Rightarrow> 'p option \<Rightarrow> 't outcome"
  tlsf_add_pool :: "'t \<Rightarrow> ptr \<Rightarrow> nat \<Rightarrow> 't \<times> ptr option"

text \<open>\<^verbatim>\<open>control_t\<close>: the null block, the two levels of bitmaps, and the heads of the free lists.\<close>

definition tlsf_size :: nat where
  "tlsf_size = unat sizeof_block_header_t + 4 + 4 * FL_INDEX_COUNT + 8 * (FL_INDEX_COUNT * SL_INDEX_COUNT)"

definition tlsf_pool_overhead :: nat where "tlsf_pool_overhead = 2 * unat block_header_overhead"

text \<open>\<^verbatim>\<open>VirtualAlloc\<close> gives a new region or null; \<^verbatim>\<open>VirtualFree\<close> of something else fails without effect.\<close>

definition virtual_alloc :: "mem \<Rightarrow> nat \<Rightarrow> mem \<times> ptr option" where
  "virtual_alloc m n = heap_alloc m n 4096"

definition virtual_free :: "mem \<Rightarrow> ptr \<Rightarrow> mem" where
  "virtual_free m p = (case heap_free m (Some p) of Inl _ \<Rightarrow> m | Inr m' \<Rightarrow> m')"

section \<open>The heap\<close>

record arena_t =
  ar_self :: ptr
  ar_pool :: "ptr option"

text \<open>The list of arenas is linked through their headers, the newest first.\<close>

record 't heap_t =
  hp_self :: ptr
  hp_tlsf :: 't
  grow_increment :: u64
  hp_arenas :: "arena_t list"
  hp_mutex :: win_mutex

definition sizeof_heap_t :: nat where "sizeof_heap_t = 32"
definition sizeof_arena_t :: nat where "sizeof_arena_t = 16"

definition heap_create :: "('t, 'p) tlsf_lib \<Rightarrow> mem \<Rightarrow> u64 \<Rightarrow> mem \<times> 't heap_t option" where
  "heap_create L m grow =
     (case virtual_alloc m (sizeof_heap_t + tlsf_size) of
        (m', None) \<Rightarrow> (m', None)
      | (m', Some p) \<Rightarrow> (m', Some \<lparr>hp_self = p, hp_tlsf = tlsf_create L, grow_increment = grow,
                                   hp_arenas = [], hp_mutex = mutex_create\<rparr>))"

definition arena_size :: "u64 \<Rightarrow> u64 \<Rightarrow> u64" where
  "arena_size grow n = max grow (n * 2) + word_of_nat sizeof_arena_t"

text \<open>\<open>None\<close> is waiting for the mutex.  The early return on exhaustion leaves it locked.\<close>

definition heap_alloc_impl :: "('t, 'p) tlsf_lib \<Rightarrow> nat \<Rightarrow> mem \<times> 't heap_t \<Rightarrow> u64 \<Rightarrow> u64 \<Rightarrow>
    ((mem \<times> 't heap_t) \<times> 'p option) option" where
  "heap_alloc_impl L tid s n alignment =
     (case s of (m, h) \<Rightarrow>
      case mutex_lock tid (hp_mutex h) of
        None \<Rightarrow> None
      | Some mx \<Rightarrow> Some
          (case tlsf_memalign L (hp_tlsf h) (unat alignment) (unat n) of
             (t1, Some p) \<Rightarrow> ((m, h\<lparr>hp_tlsf := t1, hp_mutex := mutex_unlock tid mx\<rparr>), Some p)
           | (t1, None) \<Rightarrow>
               (case virtual_alloc m (unat (arena_size (grow_increment h) n) + tlsf_pool_overhead) of
                  (m1, None) \<Rightarrow> ((m1, h\<lparr>hp_tlsf := t1, hp_mutex := mx\<rparr>), None)
                | (m1, Some a) \<Rightarrow>
                    (let (t2, pool) = tlsf_add_pool L t1 (fst a, snd a + sizeof_arena_t)
                                        (unat (arena_size (grow_increment h) n));
                         (t3, p) = tlsf_memalign L t2 (unat alignment) (unat n)
                     in ((m1, h\<lparr>hp_tlsf := t3, hp_arenas := \<lparr>ar_self = a, ar_pool = pool\<rparr> # hp_arenas h,
                                hp_mutex := mutex_unlock tid mx\<rparr>), p)))))"

definition heap_free_impl :: "('t, 'p) tlsf_lib \<Rightarrow> nat \<Rightarrow> mem \<times> 't heap_t \<Rightarrow> 'p option \<Rightarrow> (mem \<times> 't heap_t) outcome option" where
  "heap_free_impl L tid s p =
     (case s of (m, h) \<Rightarrow>
      case mutex_lock tid (hp_mutex h) of
        None \<Rightarrow> None
      | Some mx \<Rightarrow> Some (bind_ok (tlsf_free L (hp_tlsf h) p) (\<lambda>t.
          Inr (m, h\<lparr>hp_tlsf := t, hp_mutex := mutex_unlock tid mx\<rparr>))))"

fun free_arenas :: "mem \<Rightarrow> arena_t list \<Rightarrow> mem" where
  "free_arenas m [] = m"
| "free_arenas m (a # as) = free_arenas (virtual_free m (ar_self a)) as"

definition heap_destroy :: "mem \<times> 't heap_t \<Rightarrow> mem" where
  "heap_destroy s = (case s of (m, h) \<Rightarrow> virtual_free (free_arenas m (hp_arenas h)) (hp_self h))"

section \<open>The regions of a heap\<close>

text \<open>Pointers are pairs; quantifiers over them are not to be taken apart here.\<close>

declare split_paired_All [simp del] split_paired_Ex [simp del]

text \<open>Virtual memory of a heap: its own region and its arenas are live, different, and all there is
  beyond the memory \<open>m0\<close> from before.\<close>

definition regions :: "'t heap_t \<Rightarrow> ptr list" where
  "regions h = map ar_self (hp_arenas h) @ [hp_self h]"

definition regions_inv :: "mem \<Rightarrow> mem \<Rightarrow> 't heap_t \<Rightarrow> bool" where
  "regions_inv m0 m h \<longleftrightarrow> mem_ok m \<and> distinct (regions h) \<and>
     (\<forall>p \<in> set (regions h). block_size m p \<noteq> None \<and> block_size m0 p = None) \<and>
     (\<forall>p. p \<notin> set (regions h) \<longrightarrow> block_size m p = block_size m0 p)"

text \<open>Calls of any threads, in any order.\<close>

inductive heap_step :: "('t, 'p) tlsf_lib \<Rightarrow> mem \<times> 't heap_t \<Rightarrow> mem \<times> 't heap_t \<Rightarrow> bool" for L where
  step_alloc: "heap_alloc_impl L tid s n a = Some (s', r) \<Longrightarrow> heap_step L s s'"
| step_free: "heap_free_impl L tid s p = Some (Inr s') \<Longrightarrow> heap_step L s s'"

lemma regions_inv_new:
  assumes inv: "regions_inv m0 m h" and a: "virtual_alloc m n = (m', Some p)"
    and r: "regions h' = p # regions h"
  shows "regions_inv m0 m' h'"
proof -
  have al: "heap_alloc m n 4096 = (m', Some p)" using a by (simp add: virtual_alloc_def)
  have ok: "mem_ok m" using inv by (simp add: regions_inv_def)
  note A = heap_mem.alloc_fresh [OF ok al] heap_mem.alloc_size [OF ok al] heap_mem.alloc_other [OF ok al]
  have "p \<notin> set (regions h)" using inv A(1) by (auto simp: regions_inv_def)
  moreover have "block_size m0 p = None" using calculation inv A(1) by (auto simp: regions_inv_def)
  moreover have "mem_ok m'" using heap_mem.alloc_ok [OF ok, of n 4096] al by simp
  moreover have "block_size m' q = block_size m q" if "q \<in> set (regions h)" for q
    using A(3) that calculation(1) by metis
  ultimately show ?thesis
    using inv A(2,3) unfolding regions_inv_def r by (auto simp: regions_inv_def)
qed

lemma heap_step_regions:
  "heap_step L s s' \<Longrightarrow> regions_inv m0 (fst s) (snd s) \<Longrightarrow> regions_inv m0 (fst s') (snd s')"
proof (induction rule: heap_step.induct)
  case (step_alloc tid s n a s' r)
  obtain m h where s: "s = (m, h)" by (cases s)
  from step_alloc(1) obtain mx where mx: "mutex_lock tid (hp_mutex h) = Some mx"
    by (auto simp: heap_alloc_impl_def s split: option.split_asm)
  obtain t1 r1 where c1: "tlsf_memalign L (hp_tlsf h) (unat a) (unat n) = (t1, r1)"
    by (cases "tlsf_memalign L (hp_tlsf h) (unat a) (unat n)")
  let ?N = "unat (arena_size (grow_increment h) n) + tlsf_pool_overhead"
  obtain m1 ar where v: "virtual_alloc m ?N = (m1, ar)" by (cases "virtual_alloc m ?N")
  have null: "ar = None \<Longrightarrow> m1 = m" using v heap_alloc_None [of m ?N 4096 m1] by (simp add: virtual_alloc_def)
  have "fst s' = m \<and> regions (snd s') = regions h \<or>
    (\<exists>p. virtual_alloc m ?N = (fst s', Some p) \<and> regions (snd s') = p # regions h)"
    using step_alloc(1) mx c1 v null
    by (cases r1; cases ar) (auto simp: heap_alloc_impl_def s regions_def case_prod_unfold Let_def)
  then show ?case
  proof
    assume "fst s' = m \<and> regions (snd s') = regions h"
    then show ?thesis using step_alloc(2) by (simp add: s regions_inv_def)
  next
    assume "\<exists>p. virtual_alloc m ?N = (fst s', Some p) \<and> regions (snd s') = p # regions h"
    then show ?thesis using step_alloc(2) regions_inv_new by (fastforce simp: s)
  qed
next
  case (step_free tid s p s')
  obtain m h where s: "s = (m, h)" by (cases s)
  from step_free show ?case
    by (auto simp: heap_free_impl_def s regions_def regions_inv_def bind_ok_Inr_iff split: option.split_asm)
qed

lemma virtual_free_region:
  assumes "mem_ok m" and "block_size m p \<noteq> None"
  shows "mem_ok (virtual_free m p) \<and> block_size (virtual_free m p) q = (if q = p then None else block_size m q)"
proof -
  obtain m' where "heap_free m (Some p) = Inr m'" using heap_mem.free_live [OF assms] by blast
  then show ?thesis
    using heap_mem.free_gone [OF assms(1)] heap_mem.free_other [OF assms(1)] heap_mem.free_ok [OF assms(1)]
    by (auto simp: virtual_free_def)
qed

lemma free_arenas_regions:
  "mem_ok m \<Longrightarrow> distinct (map ar_self as) \<Longrightarrow> \<forall>a \<in> set as. block_size m (ar_self a) \<noteq> None \<Longrightarrow>
    mem_ok (free_arenas m as) \<and>
    (\<forall>q. block_size (free_arenas m as) q = (if q \<in> ar_self ` set as then None else block_size m q))"
proof (induction as arbitrary: m)
  case Nil
  then show ?case by simp
next
  case (Cons a as)
  from Cons.prems have l: "block_size m (ar_self a) \<noteq> None" by simp
  note V = virtual_free_region [OF Cons.prems(1) l]
  have "mem_ok (virtual_free m (ar_self a))" using V by blast
  moreover have "\<forall>x \<in> set as. block_size (virtual_free m (ar_self a)) (ar_self x) \<noteq> None"
  proof
    fix x assume x: "x \<in> set as"
    have "ar_self x \<noteq> ar_self a" using Cons.prems(2) imageI [OF x, of ar_self] by auto
    with V Cons.prems(3) x show "block_size (virtual_free m (ar_self a)) (ar_self x) \<noteq> None" by simp
  qed
  ultimately show ?case using Cons.IH [of "virtual_free m (ar_self a)"] Cons.prems(2) V by auto
qed

lemma heap_create_regions:
  assumes "mem_ok m0" and "heap_create L m0 grow = (m1, Some h1)"
  shows "regions_inv m0 m1 h1" "block_size m1 (hp_self h1) = Some (sizeof_heap_t + tlsf_size)" "hp_arenas h1 = []"
    "hp_tlsf h1 = tlsf_create L"
proof -
  have al: "heap_alloc m0 (sizeof_heap_t + tlsf_size) 4096 = (m1, Some (hp_self h1))"
    and as: "hp_arenas h1 = []" "hp_tlsf h1 = tlsf_create L"
    using assms(2) by (auto simp: heap_create_def virtual_alloc_def split: prod.split_asm option.split_asm)
  note A = heap_mem.alloc_fresh [OF assms(1) al] heap_mem.alloc_size [OF assms(1) al] heap_mem.alloc_other [OF assms(1) al]
  have "mem_ok m1" using heap_mem.alloc_ok [OF assms(1)] al by (metis fst_conv)
  with A as show "regions_inv m0 m1 h1" by (simp add: regions_inv_def regions_def)
  show "block_size m1 (hp_self h1) = Some (sizeof_heap_t + tlsf_size)" "hp_arenas h1 = []" "hp_tlsf h1 = tlsf_create L"
    using A(2) as by simp_all
qed

section \<open>The pools\<close>








text \<open>With a request and an increment below \<open>2\<^sup>6\<^sup>3\<close> a pool has room for twice the request.\<close>

lemma arena_size_fits:
  assumes "unat n < 2 ^ 63 - 8" and "unat grow < 2 ^ 63"
  shows "unat (arena_size grow n) = max (unat grow) (2 * unat n) + sizeof_arena_t"
proof -
  have d: "unat (n * 2) = 2 * unat n" using assms(1) by (subst unat_mult_lem [THEN iffD1]) simp_all
  have m: "unat (max grow (n * 2)) = max (unat grow) (2 * unat n)" by (simp add: max_def word_le_nat_alt d)
  show ?thesis
    unfolding arena_size_def using assms
    by (subst unat_add_lem [THEN iffD1]) (simp_all add: m sizeof_arena_t_def unat_of_nat)
qed

section \<open>Properties\<close>


text \<open>The block memory of theory \<open>Memory\<close> as the vendored allocator: the bytes of its pools are what is
  still available.\<close>

definition block_tlsf :: "(mem, ptr) tlsf_lib" where
  "block_tlsf = \<lparr>tlsf_create = mem_init 0 0,
     tlsf_memalign = (\<lambda>t a n. heap_alloc t n a), tlsf_free = heap_free,
     tlsf_add_pool = (\<lambda>t r n. (t\<lparr>os_avail := os_avail t + (n - 16)\<rparr>, Some r))\<rparr>"


text \<open>
  C27.  Nothing is kept: after \<^verbatim>\<open>heap_create\<close> and any calls of \<^verbatim>\<open>heap_alloc\<close> and \<^verbatim>\<open>heap_free\<close> by any threads
  (refused ones included), \<^verbatim>\<open>heap_destroy\<close> gives back every region of virtual memory the heap ever
  took, and no other.
\<close>

theorem heap_destroy_returns_regions:
  assumes "mem_ok m0" and "heap_create L m0 grow = (m1, Some h1)" and "(heap_step L)\<^sup>*\<^sup>* (m1, h1) (m, h)"
  shows "block_size (heap_destroy (m, h)) = block_size m0"
proof -
  have start: "regions_inv m0 (fst (m1, h1)) (snd (m1, h1))" using heap_create_regions(1) [OF assms(1,2)] by simp
  have "regions_inv m0 (fst (m, h)) (snd (m, h))"
    using assms(3) by (induction rule: rtranclp_induct) (auto intro: start [simplified] dest: heap_step_regions)
  then have inv: "regions_inv m0 m h" by simp
  have F: "mem_ok (free_arenas m (hp_arenas h))"
    "\<And>q. block_size (free_arenas m (hp_arenas h)) q = (if q \<in> ar_self ` set (hp_arenas h) then None else block_size m q)"
    using free_arenas_regions [of m "hp_arenas h"] inv by (auto simp: regions_inv_def regions_def)
  have self: "block_size (free_arenas m (hp_arenas h)) (hp_self h) \<noteq> None"
    using F(2) [of "hp_self h"] inv by (auto simp: regions_inv_def regions_def)
  show ?thesis
  proof
    fix q
    show "block_size (heap_destroy (m, h)) q = block_size m0 q"
      using virtual_free_region [OF F(1) self, of q] F(2) [of q] inv
      by (auto simp: heap_destroy_def regions_inv_def regions_def)
  qed
qed

lemma heap_destroy_returns_regions_witness:
  "\<exists>m1 h1 s' r. heap_create block_tlsf (mem_init 10000000 0) 4096 = (m1, Some h1) \<and>
     heap_alloc_impl block_tlsf 1 (m1, h1) 100 8 = Some (s', r) \<and> hp_arenas (snd s') \<noteq> [] \<and>
     block_size (heap_destroy s') = block_size (mem_init 10000000 0)"
proof -
  obtain m h where c: "heap_create block_tlsf (mem_init 10000000 0) 4096 = (m, Some h)" and h: "hp_tlsf h = mem_init 0 0"
    "hp_mutex h = mutex_create" "grow_increment h = 4096" "os_avail m = 9993432" "hp_arenas h = []"
    by (simp add: heap_create_def virtual_alloc_def heap_alloc_def block_tlsf_def sizeof_heap_t_def tlsf_size_def tlsf_constants)
  have n: "unat (arena_size 4096 100) = 4112" by (simp add: arena_size_def sizeof_arena_t_def)
  obtain m' h' r where call: "heap_alloc_impl block_tlsf 1 (m, h) 100 8 = Some ((m', h'), r)" and ar: "hp_arenas h' \<noteq> []"
    using h n by (simp add: heap_alloc_impl_def mutex_lock_def mutex_create_def block_tlsf_def virtual_alloc_def heap_alloc_def
        tlsf_pool_overhead_def block_header_overhead_def)
  have steps: "(heap_step block_tlsf)\<^sup>*\<^sup>* (m, h) (m', h')" using step_alloc [OF call] by (rule r_into_rtranclp)
  from heap_destroy_returns_regions [OF mem_init_ok c steps] c call ar show ?thesis
    by (intro exI [of _ m] exI [of _ h] exI [of _ "(m', h')"] exI [of _ r]) simp
qed

declare split_paired_All [simp] split_paired_Ex [simp]

text \<open>When virtual memory is exhausted the call returns with the mutex held: from then on every call
  of every other thread waits for ever.\<close>

lemma exhaustion_keeps_mutex:
  assumes "mx_owner (hp_mutex h) = None" and "tlsf_memalign L (hp_tlsf h) (unat a) (unat n) = (t1, None)"
    and "virtual_alloc m (unat (arena_size (grow_increment h) n) + tlsf_pool_overhead) = (m1, None)"
  shows "\<exists>s'. heap_alloc_impl L tid (m, h) n a = Some (s', None) \<and>
    (\<forall>tid' n' a' p. tid' \<noteq> tid \<longrightarrow> heap_alloc_impl L tid' s' n' a' = None \<and> heap_free_impl L tid' s' p = None)"
  using assms by (auto simp: heap_alloc_impl_def heap_free_impl_def mutex_lock_def)

text \<open>The vendored allocator answers null to a request of no bytes, so each such request adds an arena.\<close>

lemma empty_request_grows_heap:
  assumes "\<And>t. snd (tlsf_memalign L t (unat a) 0) = None" and "mx_owner (hp_mutex h) = None"
    and "virtual_alloc m (unat (arena_size (grow_increment h) 0) + tlsf_pool_overhead) = (m1, Some r)"
  shows "\<exists>m' h'. heap_alloc_impl L tid (m, h) 0 a = Some ((m', h'), None) \<and> length (hp_arenas h') = Suc (length (hp_arenas h))"
proof -
  have "\<exists>t1. tlsf_memalign L t (unat a) 0 = (t1, None)" for t using assms(1) [of t] by (metis prod.collapse)
  then obtain t1 where "tlsf_memalign L (hp_tlsf h) (unat a) 0 = (t1, None)" by blast
  with assms show ?thesis
    by (auto simp: heap_alloc_impl_def mutex_lock_def case_prod_unfold Let_def)
qed

end
