(* ===== verification/Timers.thy ===== *)
theory Timers
  imports Memory
begin

text \<open>
  The system timer (\<^verbatim>\<open>timer.c\<close>) and the timer objects (\<^verbatim>\<open>timer_object.c\<close>).  The performance counter and
  its frequency are arguments.  Floating-point numbers are a type of their own with the four
  operations the code uses (record \<open>fp_lib\<close>): nothing is assumed of their rounding except, in the
  hypothesis \<open>fp_exact\<close>, that a number of ticks below \<open>2\<^sup>5\<^sup>3\<close> times one is that number.
  Timer objects refer to their parents, so they live in a store indexed by their address.
\<close>

section \<open>Floating point\<close>

record 'd fp_lib =
  fp_one :: 'd
  fp_quotient :: "nat \<Rightarrow> u64 \<Rightarrow> 'd"        \<comment> \<open>a constant divided by an integer\<close>
  fp_ticks64 :: "u64 \<Rightarrow> 'd \<Rightarrow> u64"        \<comment> \<open>product with an integer, truncated\<close>
  fp_ticks32 :: "u64 \<Rightarrow> 'd \<Rightarrow> u32"

definition fp_exact :: "'d fp_lib \<Rightarrow> bool" where
  "fp_exact F \<longleftrightarrow> (\<forall>t. unat t \<le> 2 ^ 53 \<longrightarrow> fp_ticks64 F t (fp_one F) = t)"

section \<open>The system timer\<close>

record 'd timer_statics =
  s_ticks_start :: u64
  s_us_per_tick :: 'd
  s_ms_per_tick :: 'd

definition timer_get_ticks :: "'d timer_statics \<Rightarrow> u64 \<Rightarrow> u64" where
  "timer_get_ticks st counter = counter - s_ticks_start st"

definition timer_get_ticks_per_second :: "u64 \<Rightarrow> u64" where
  "timer_get_ticks_per_second frequency = frequency"

definition timer_startup :: "'d fp_lib \<Rightarrow> u64 \<Rightarrow> u64 \<Rightarrow> 'd timer_statics \<Rightarrow> 'd timer_statics" where
  "timer_startup F counter frequency st =
     (let st1 = st\<lparr>s_ticks_start := timer_get_ticks st counter\<rparr>;
          ticks_per_second = timer_get_ticks_per_second frequency
      in st1\<lparr>s_us_per_tick := fp_quotient F 1000000 ticks_per_second,
             s_ms_per_tick := fp_quotient F 1000 ticks_per_second\<rparr>)"

definition timer_ticks_to_us :: "'d fp_lib \<Rightarrow> 'd timer_statics \<Rightarrow> u64 \<Rightarrow> u64" where
  "timer_ticks_to_us F st t = fp_ticks64 F t (s_us_per_tick st)"

definition timer_ticks_to_ms :: "'d fp_lib \<Rightarrow> 'd timer_statics \<Rightarrow> u64 \<Rightarrow> u32" where
  "timer_ticks_to_ms F st t = fp_ticks32 F t (s_ms_per_tick st)"

text \<open>Ticks count from the startup; a second startup would count from the first one's count.\<close>

lemma ticks_since_startup:
  "s_ticks_start st = 0 \<Longrightarrow> timer_get_ticks (timer_startup F c0 fr st) c = c - c0"
  by (simp add: timer_startup_def timer_get_ticks_def Let_def)

lemma second_startup_goes_back:
  "s_ticks_start st = 0 \<Longrightarrow> timer_get_ticks (timer_startup F c1 fr (timer_startup F c0 fr st)) c1 = c0"
  by (simp add: timer_startup_def timer_get_ticks_def Let_def)

section \<open>Timer objects\<close>

record 'd timer_object_t =
  current_ticks :: u64
  delta_ticks :: u64
  to_parent :: "nat option"
  bias_ticks :: u64
  to_scale :: 'd
  to_paused :: bool

type_synonym 'd timers = "nat \<Rightarrow> 'd timer_object_t option"

text \<open>The parent's time, or the system's.\<close>

definition base_ticks :: "'d timers \<Rightarrow> u64 \<Rightarrow> nat option \<Rightarrow> u64 outcome" where
  "base_ticks ts now parent =
     (case parent of None \<Rightarrow> Inr now
      | Some p \<Rightarrow> (case ts p of None \<Rightarrow> Inl Use_after_free | Some t \<Rightarrow> Inr (current_ticks t)))"

definition timer_object_create :: "'d fp_lib \<Rightarrow> 'd timers \<Rightarrow> u64 \<Rightarrow> nat \<Rightarrow> nat option \<Rightarrow> 'd timers outcome" where
  "timer_object_create F ts now t parent =
     bind_ok (base_ticks ts now parent) (\<lambda>b. Inr (ts(t \<mapsto>
       \<lparr>current_ticks = 0, delta_ticks = 0, to_parent = parent, bias_ticks = b,
        to_scale = fp_one F, to_paused = False\<rparr>)))"

definition timer_object_destroy :: "'d timers \<Rightarrow> nat \<Rightarrow> 'd timers" where
  "timer_object_destroy ts t = ts(t := None)"

definition with_timer :: "'d timers \<Rightarrow> nat \<Rightarrow> ('d timer_object_t \<Rightarrow> 'a outcome) \<Rightarrow> 'a outcome" where
  "with_timer ts t f = (case ts t of None \<Rightarrow> Inl Use_after_free | Some x \<Rightarrow> f x)"

definition timer_object_update :: "'d fp_lib \<Rightarrow> 'd timers \<Rightarrow> u64 \<Rightarrow> nat \<Rightarrow> 'd timers outcome" where
  "timer_object_update F ts now t = with_timer ts t (\<lambda>x.
     if \<not> to_paused x
     then bind_ok (base_ticks ts now (to_parent x)) (\<lambda>parent_ticks.
            let delta = fp_ticks64 F (parent_ticks - bias_ticks x) (to_scale x)
            in Inr (ts(t \<mapsto> x\<lparr>delta_ticks := delta, current_ticks := current_ticks x + delta,
                               bias_ticks := parent_ticks\<rparr>)))
     else Inr ts)"

definition timer_object_get_us :: "'d fp_lib \<Rightarrow> 'd timer_statics \<Rightarrow> 'd timers \<Rightarrow> nat \<Rightarrow> u64 outcome" where
  "timer_object_get_us F st ts t = with_timer ts t (\<lambda>x. Inr (timer_ticks_to_us F st (current_ticks x)))"

definition timer_object_get_ms :: "'d fp_lib \<Rightarrow> 'd timer_statics \<Rightarrow> 'd timers \<Rightarrow> nat \<Rightarrow> u32 outcome" where
  "timer_object_get_ms F st ts t = with_timer ts t (\<lambda>x. Inr (timer_ticks_to_ms F st (current_ticks x)))"

definition timer_object_get_delta_us :: "'d fp_lib \<Rightarrow> 'd timer_statics \<Rightarrow> 'd timers \<Rightarrow> nat \<Rightarrow> u64 outcome" where
  "timer_object_get_delta_us F st ts t = with_timer ts t (\<lambda>x. Inr (timer_ticks_to_us F st (delta_ticks x)))"

definition timer_object_get_delta_ms :: "'d fp_lib \<Rightarrow> 'd timer_statics \<Rightarrow> 'd timers \<Rightarrow> nat \<Rightarrow> u32 outcome" where
  "timer_object_get_delta_ms F st ts t = with_timer ts t (\<lambda>x. Inr (timer_ticks_to_ms F st (delta_ticks x)))"

definition timer_object_set_scale :: "'d timers \<Rightarrow> nat \<Rightarrow> 'd \<Rightarrow> 'd timers outcome" where
  "timer_object_set_scale ts t s = with_timer ts t (\<lambda>x. Inr (ts(t \<mapsto> x\<lparr>to_scale := s\<rparr>)))"

definition timer_object_pause :: "'d timers \<Rightarrow> nat \<Rightarrow> 'd timers outcome" where
  "timer_object_pause ts t = with_timer ts t (\<lambda>x. Inr (ts(t \<mapsto> x\<lparr>to_paused := True\<rparr>)))"

definition timer_object_resume :: "'d timers \<Rightarrow> u64 \<Rightarrow> nat \<Rightarrow> 'd timers outcome" where
  "timer_object_resume ts now t = with_timer ts t (\<lambda>x.
     if to_paused x
     then bind_ok (base_ticks ts now (to_parent x)) (\<lambda>b.
            Inr (ts(t \<mapsto> x\<lparr>bias_ticks := b, to_paused := False\<rparr>)))
     else Inr ts)"

section \<open>What a timer counts\<close>

text \<open>The calls on one timer without a parent, each with the system time it is made at.\<close>

datatype timer_call = T_update u64 | T_pause | T_resume u64

fun timer_calls :: "'d fp_lib \<Rightarrow> nat \<Rightarrow> 'd timers \<Rightarrow> timer_call list \<Rightarrow> 'd timers outcome" where
  "timer_calls F t ts [] = Inr ts"
| "timer_calls F t ts (T_update now # cs) = bind_ok (timer_object_update F ts now t) (\<lambda>ts'. timer_calls F t ts' cs)"
| "timer_calls F t ts (T_pause # cs) = bind_ok (timer_object_pause ts t) (\<lambda>ts'. timer_calls F t ts' cs)"
| "timer_calls F t ts (T_resume now # cs) = bind_ok (timer_object_resume ts now t) (\<lambda>ts'. timer_calls F t ts' cs)"

text \<open>The times of a call sequence do not go back; \<open>bound\<close> is the last admissible one.\<close>

fun times_ascend :: "nat \<Rightarrow> timer_call list \<Rightarrow> nat \<Rightarrow> bool" where
  "times_ascend b [] bound \<longleftrightarrow> b \<le> bound"
| "times_ascend b (T_update now # cs) bound \<longleftrightarrow> b \<le> unat now \<and> times_ascend (unat now) cs bound"
| "times_ascend b (T_pause # cs) bound \<longleftrightarrow> times_ascend b cs bound"
| "times_ascend b (T_resume now # cs) bound \<longleftrightarrow> b \<le> unat now \<and> times_ascend (unat now) cs bound"

text \<open>What should be counted: the time from each update or resumption to the next update, unless the
  timer was paused in between; \<open>t0\<close> is the time of the last one.\<close>

fun running_time :: "nat \<Rightarrow> bool \<Rightarrow> timer_call list \<Rightarrow> nat" where
  "running_time t0 paused [] = 0"
| "running_time t0 paused (T_update now # cs) =
     (if paused then running_time t0 True cs else (unat now - t0) + running_time (unat now) False cs)"
| "running_time t0 paused (T_pause # cs) = running_time t0 True cs"
| "running_time t0 paused (T_resume now # cs) =
     (if paused then running_time (unat now) False cs else running_time t0 False cs)"

lemma times_ascend_le: "times_ascend b cs bound \<Longrightarrow> b \<le> bound"
  by (induction b cs bound rule: times_ascend.induct) auto

lemma times_ascend_mono: "times_ascend b cs bound \<Longrightarrow> b' \<le> b \<Longrightarrow> times_ascend b' cs bound"
  by (induction b cs bound arbitrary: b' rule: times_ascend.induct) auto

lemma timer_calls_count:
  assumes "fp_exact F" and "ts t = Some x" and "to_parent x = None" and "to_scale x = fp_one F"
    and "times_ascend (unat (bias_ticks x)) cs bound" and "bound \<le> 2 ^ 53"
    and "unat (current_ticks x) + (bound - unat (bias_ticks x)) \<le> bound"
  shows "\<exists>ts' x'. timer_calls F t ts cs = Inr ts' \<and> ts' t = Some x' \<and>
    unat (current_ticks x') = unat (current_ticks x) + running_time (unat (bias_ticks x)) (to_paused x) cs"
  using assms(2-5,7)
proof (induction cs arbitrary: ts x)
  case Nil
  then show ?case by simp
next
  case (Cons c cs)
  note prems = Cons.prems
  show ?case
  proof (cases c)
    case T_pause
    define ts1 where "ts1 = ts(t \<mapsto> x\<lparr>to_paused := True\<rparr>)"
    have "timer_object_pause ts t = Inr ts1" "ts1 t = Some (x\<lparr>to_paused := True\<rparr>)"
      using prems by (simp_all add: timer_object_pause_def with_timer_def ts1_def)
    then show ?thesis using Cons.IH [of ts1 "x\<lparr>to_paused := True\<rparr>"] prems T_pause by simp
  next
    case (T_resume now)
    show ?thesis
    proof (cases "to_paused x")
      case True
      let ?x = "x\<lparr>bias_ticks := now, to_paused := False\<rparr>"
      define ts1 where "ts1 = ts(t \<mapsto> ?x)"
      have "timer_object_resume ts now t = Inr ts1" "ts1 t = Some ?x"
        using prems True by (simp_all add: timer_object_resume_def with_timer_def base_ticks_def ts1_def)
      moreover have "unat (bias_ticks x) \<le> unat now" "unat now \<le> bound"
        using prems(4) T_resume by (auto dest: times_ascend_le)
      ultimately show ?thesis using Cons.IH [of ts1 ?x] prems T_resume True by simp
    next
      case False
      have "timer_object_resume ts now t = Inr ts"
        using prems False by (simp add: timer_object_resume_def with_timer_def)
      moreover have "times_ascend (unat (bias_ticks x)) cs bound"
        using prems(4) T_resume by (auto intro: times_ascend_mono)
      ultimately show ?thesis using Cons.IH [of ts x] prems T_resume False by simp
    qed
  next
    case (T_update now)
    show ?thesis
    proof (cases "to_paused x")
      case True
      have "timer_object_update F ts now t = Inr ts"
        using prems True by (simp add: timer_object_update_def with_timer_def)
      moreover have "times_ascend (unat (bias_ticks x)) cs bound"
        using prems(4) T_update by (auto intro: times_ascend_mono)
      ultimately show ?thesis using Cons.IH [of ts x] prems T_update True by simp
    next
      case False
      have le: "unat (bias_ticks x) \<le> unat now" "unat now \<le> bound"
        using prems(4) T_update by (auto dest: times_ascend_le)
      let ?d = "now - bias_ticks x"
      have d: "unat ?d = unat now - unat (bias_ticks x)" using le(1) by (simp add: unat_sub word_le_nat_alt)
      then have "fp_ticks64 F ?d (fp_one F) = ?d" using assms(1,6) le by (simp add: fp_exact_def)
      define ts1 where "ts1 = ts(t \<mapsto> x\<lparr>delta_ticks := ?d, current_ticks := current_ticks x + ?d, bias_ticks := now\<rparr>)"
      with \<open>fp_ticks64 F ?d (fp_one F) = ?d\<close> have step: "timer_object_update F ts now t = Inr ts1"
        using prems False by (simp add: timer_object_update_def with_timer_def base_ticks_def Let_def)
      have sum: "unat (current_ticks x + ?d) = unat (current_ticks x) + (unat now - unat (bias_ticks x))"
      proof -
        have "unat (current_ticks x) + unat ?d \<le> bound" using prems(5) le unfolding d by arith
        also have "bound < 2 ^ 64" using assms(6) by (rule le_less_trans) simp
        finally have "unat (current_ticks x) + unat ?d < 2 ^ 64" .
        then show ?thesis using d by (simp add: unat_word_ariths)
      qed
      let ?x = "x\<lparr>delta_ticks := ?d, current_ticks := current_ticks x + ?d, bias_ticks := now\<rparr>"
      have "unat (current_ticks ?x) + (bound - unat (bias_ticks ?x)) \<le> bound" using sum prems(5) le by simp
      then show ?thesis using Cons.IH [of ts1 ?x] prems T_update False step sum by (simp add: ts1_def [THEN fun_cong, of t] add.assoc)
    qed
  qed
qed

text \<open>
  C28.  A timer counts the time it was running: after \<^verbatim>\<open>timer_object_create\<close> and any updates, pauses
  and resumptions at ascending times (a span below \<open>2\<^sup>5\<^sup>3\<close> ticks, normal speed), the current ticks are
  the sum of the spans from each creation, update or resumption to the next update that no pause
  interrupts.
\<close>

theorem timer_counts_running_time:
  assumes "fp_exact F" and "timer_object_create F ts0 start t None = Inr ts1"
    and "times_ascend (unat start) cs bound" and "bound \<le> 2 ^ 53"
  shows "\<exists>ts x. timer_calls F t ts1 cs = Inr ts \<and> ts t = Some x \<and>
    unat (current_ticks x) = running_time (unat start) False cs"
proof -
  let ?x = "\<lparr>current_ticks = 0, delta_ticks = 0, to_parent = None, bias_ticks = start, to_scale = fp_one F, to_paused = False\<rparr>"
  have "ts1 t = Some ?x" using assms(2) by (auto simp: timer_object_create_def base_ticks_def)
  from timer_calls_count [OF assms(1), of ts1 t ?x cs bound] this assms(3,4) show ?thesis by simp
qed

text \<open>Whole numbers as scales, for the concrete runs.\<close>

definition whole_fp :: "nat fp_lib" where
  "whole_fp = \<lparr>fp_one = 1, fp_quotient = (\<lambda>c n. c div unat n), fp_ticks64 = (\<lambda>t d. t * word_of_nat d),
     fp_ticks32 = (\<lambda>t d. ucast t * word_of_nat d)\<rparr>"

lemma timer_counts_running_time_witness:
  "\<exists>ts1 ts x. timer_object_create whole_fp (\<lambda>_. None) 100 0 None = Inr ts1 \<and>
     timer_calls whole_fp 0 ts1 [T_update 110, T_pause, T_update 150, T_resume 200, T_update 205] = Inr ts \<and>
     ts 0 = Some x \<and> unat (current_ticks x) = 15"
proof -
  obtain ts1 where c: "timer_object_create whole_fp (\<lambda>_. None) 100 0 None = Inr ts1"
    by (simp add: timer_object_create_def base_ticks_def)
  have "fp_exact whole_fp" by (simp add: fp_exact_def whole_fp_def)
  from timer_counts_running_time [OF this c, of "[T_update 110, T_pause, T_update 150, T_resume 200, T_update 205]" 205] c
  show ?thesis by auto
qed

text \<open>A paused timer keeps reporting the length of its last running frame.\<close>

lemma paused_timer_keeps_delta:
  assumes "ts t = Some x" and "to_paused x"
  shows "timer_object_update F ts now t = Inr ts \<and>
    timer_object_get_delta_us F st ts t = Inr (timer_ticks_to_us F st (delta_ticks x))"
  using assms by (simp add: timer_object_update_def timer_object_get_delta_us_def with_timer_def)

text \<open>A destroyed parent is read by its children.\<close>

lemma destroyed_parent_is_read:
  assumes "ts t = Some x" and "to_parent x = Some p" and "p \<noteq> t" and "\<not> to_paused x"
  shows "timer_object_update F (timer_object_destroy ts p) now t = Inl Use_after_free"
  using assms by (simp add: timer_object_update_def timer_object_destroy_def with_timer_def base_ticks_def)

end
