(* ===== verification/Window.thy ===== *)
theory Window
  imports Memory
begin

text \<open>
  The window manager (\<^verbatim>\<open>wm.c\<close>): the window procedure as a function of the messages the system
  dispatches, the pump, and the queries.  Of the system the model has what the procedure reads and
  changes: the cursor, the window's rectangle and the cursor's display counter.
\<close>

section \<open>Data\<close>

definition k_mouse_button_left :: u32 where "k_mouse_button_left = 1"
definition k_mouse_button_right :: u32 where "k_mouse_button_right = 2"
definition k_mouse_button_middle :: u32 where "k_mouse_button_middle = 4"

definition k_key_up :: u32 where "k_key_up = 1"
definition k_key_down :: u32 where "k_key_down = 2"
definition k_key_left :: u32 where "k_key_left = 4"
definition k_key_right :: u32 where "k_key_right = 8"

text \<open>The system's virtual key codes.\<close>

definition vk_left :: u64 where "vk_left = 0x25"
definition vk_up :: u64 where "vk_up = 0x26"
definition vk_right :: u64 where "vk_right = 0x27"
definition vk_down :: u64 where "vk_down = 0x28"

definition k_key_map :: "(u64 \<times> u32) list" where
  "k_key_map = [(vk_left, k_key_left), (vk_right, k_key_right), (vk_up, k_key_up), (vk_down, k_key_down)]"

record wm_window_t =
  wm_self :: ptr
  wm_hwnd :: nat
  wm_quit :: bool
  has_focus :: bool
  mouse_mask :: u32
  key_mask :: u32
  mouse_x :: i32
  mouse_y :: i32

datatype wm_message =
    WM_KEYDOWN u64
  | WM_KEYUP u64
  | WM_LBUTTONDOWN
  | WM_LBUTTONUP
  | WM_RBUTTONDOWN
  | WM_RBUTTONUP
  | WM_MBUTTONDOWN
  | WM_MBUTTONUP
  | WM_MOUSEMOVE
  | WM_ACTIVATEAPP u64
  | WM_CLOSE
  | WM_OTHER nat

record desktop =
  cursor_x :: i32
  cursor_y :: i32
  rect_left :: i32
  rect_top :: i32
  rect_right :: i32
  rect_bottom :: i32
  show_count :: int

section \<open>The window procedure\<close>

text \<open>The first entry of the map for a virtual key.\<close>

definition key_of :: "u64 \<Rightarrow> u32 option" where
  "key_of wparam = map_of k_key_map wparam"

text \<open>The middle of two coordinates; C's division of ints truncates.\<close>

definition middle :: "i32 \<Rightarrow> i32 \<Rightarrow> i32" where
  "middle a b = word_of_int (sint (a + b) sdiv 2)"

definition mouse_moved :: "wm_window_t \<times> desktop \<Rightarrow> wm_window_t \<times> desktop" where
  "mouse_moved s = (case s of (win, d) \<Rightarrow>
     let old_x = cursor_x d; old_y = cursor_y d;
         d' = d\<lparr>cursor_x := middle (rect_left d) (rect_right d), cursor_y := middle (rect_top d) (rect_bottom d)\<rparr>
     in (win\<lparr>mouse_x := old_x - cursor_x d', mouse_y := old_y - cursor_y d'\<rparr>, d'))"

fun window_proc :: "wm_window_t \<times> desktop \<Rightarrow> wm_message \<Rightarrow> wm_window_t \<times> desktop" where
  "window_proc (win, d) (WM_KEYDOWN w) =
     (case key_of w of None \<Rightarrow> (win, d) | Some k \<Rightarrow> (win\<lparr>key_mask := key_mask win OR k\<rparr>, d))"
| "window_proc (win, d) (WM_KEYUP w) =
     (case key_of w of None \<Rightarrow> (win, d) | Some k \<Rightarrow> (win\<lparr>key_mask := key_mask win AND NOT k\<rparr>, d))"
| "window_proc (win, d) WM_LBUTTONDOWN = (win\<lparr>mouse_mask := mouse_mask win OR k_mouse_button_left\<rparr>, d)"
| "window_proc (win, d) WM_LBUTTONUP = (win\<lparr>mouse_mask := mouse_mask win AND NOT k_mouse_button_left\<rparr>, d)"
| "window_proc (win, d) WM_RBUTTONDOWN = (win\<lparr>mouse_mask := mouse_mask win OR k_mouse_button_right\<rparr>, d)"
| "window_proc (win, d) WM_RBUTTONUP = (win\<lparr>mouse_mask := mouse_mask win AND NOT k_mouse_button_right\<rparr>, d)"
| "window_proc (win, d) WM_MBUTTONDOWN = (win\<lparr>mouse_mask := mouse_mask win OR k_mouse_button_middle\<rparr>, d)"
| "window_proc (win, d) WM_MBUTTONUP = (win\<lparr>mouse_mask := mouse_mask win AND NOT k_mouse_button_middle\<rparr>, d)"
| "window_proc (win, d) WM_MOUSEMOVE = (if has_focus win then mouse_moved (win, d) else (win, d))"
| "window_proc (win, d) (WM_ACTIVATEAPP w) =
     (win\<lparr>has_focus := w \<noteq> 0\<rparr>, d\<lparr>show_count := show_count d + (if w = 0 then 1 else -1)\<rparr>)"
| "window_proc (win, d) WM_CLOSE = (win\<lparr>wm_quit := True\<rparr>, d)"
| "window_proc (win, d) (WM_OTHER n) = (win, d)"

text \<open>The system's handle, if a window could be made, is an argument.  The new window's mouse movement
  is what the allocated memory holds.\<close>

definition sizeof_wm_window_t :: nat where "sizeof_wm_window_t = 40"

definition wm_create :: "mem \<Rightarrow> nat option \<Rightarrow> (mem \<times> wm_window_t option) outcome" where
  "wm_create m hwnd =
     (case hwnd of None \<Rightarrow> Inr (m, None)
      | Some h \<Rightarrow>
          (case heap_alloc m sizeof_wm_window_t 8 of
             (m', None) \<Rightarrow> Inl Null_deref
           | (m', Some p) \<Rightarrow> Inr (m', Some
               \<lparr>wm_self = p, wm_hwnd = h, wm_quit = False, has_focus = False, mouse_mask = 0, key_mask = 0,
                mouse_x = of_le32 (replicate 4 (junk m)), mouse_y = of_le32 (replicate 4 (junk m))\<rparr>)))"

definition wm_destroy :: "mem \<Rightarrow> wm_window_t \<Rightarrow> mem outcome" where
  "wm_destroy m window = heap_free m (Some (wm_self window))"

text \<open>The pump dispatches the waiting messages until there is none.\<close>

definition wm_pump :: "wm_window_t \<times> desktop \<Rightarrow> wm_message list \<Rightarrow> (wm_window_t \<times> desktop) \<times> bool" where
  "wm_pump s msgs = (let s' = foldl window_proc s msgs in (s', wm_quit (fst s')))"

definition wm_get_mouse_mask :: "wm_window_t \<Rightarrow> u32" where
  "wm_get_mouse_mask window = mouse_mask window"

definition wm_get_key_mask :: "wm_window_t \<Rightarrow> u32" where
  "wm_get_key_mask window = key_mask window"

definition wm_get_mouse_move :: "wm_window_t \<Rightarrow> i32 \<times> i32" where
  "wm_get_mouse_move window = (mouse_x window, mouse_y window)"

definition wm_get_raw_window :: "wm_window_t \<Rightarrow> nat" where
  "wm_get_raw_window window = wm_hwnd window"

section \<open>What is held\<close>

text \<open>Something is held if the last message about it was its pressing.\<close>

definition held :: "wm_message \<Rightarrow> wm_message \<Rightarrow> wm_message list \<Rightarrow> bool" where
  "held press release msgs =
     (case filter (\<lambda>m. m = press \<or> m = release) (rev msgs) of [] \<Rightarrow> False | m # _ \<Rightarrow> m = press)"

lemma held_Nil [simp]: "held press release [] = False"
  and held_snoc [simp]: "held press release (msgs @ [m]) =
    (if m = press then True else if m = release then False else held press release msgs)"
  by (simp_all add: held_def)

definition inputs_agree :: "wm_window_t \<Rightarrow> wm_message list \<Rightarrow> bool" where
  "inputs_agree win msgs \<longleftrightarrow>
     key_mask win = (if held (WM_KEYDOWN vk_up) (WM_KEYUP vk_up) msgs then k_key_up else 0) OR
       (if held (WM_KEYDOWN vk_down) (WM_KEYUP vk_down) msgs then k_key_down else 0) OR
       (if held (WM_KEYDOWN vk_left) (WM_KEYUP vk_left) msgs then k_key_left else 0) OR
       (if held (WM_KEYDOWN vk_right) (WM_KEYUP vk_right) msgs then k_key_right else 0) \<and>
     mouse_mask win = (if held WM_LBUTTONDOWN WM_LBUTTONUP msgs then k_mouse_button_left else 0) OR
       (if held WM_RBUTTONDOWN WM_RBUTTONUP msgs then k_mouse_button_right else 0) OR
       (if held WM_MBUTTONDOWN WM_MBUTTONUP msgs then k_mouse_button_middle else 0) \<and>
     (wm_quit win \<longleftrightarrow> WM_CLOSE \<in> set msgs)"

lemmas key_names = k_key_up_def k_key_down_def k_key_left_def k_key_right_def vk_up_def vk_down_def vk_left_def vk_right_def
lemmas button_names = k_mouse_button_left_def k_mouse_button_right_def k_mouse_button_middle_def

lemma key_of_cases:
  obtains "w = vk_up" "key_of w = Some k_key_up" | "w = vk_down" "key_of w = Some k_key_down"
    | "w = vk_left" "key_of w = Some k_key_left" | "w = vk_right" "key_of w = Some k_key_right"
    | "w \<noteq> vk_up" "w \<noteq> vk_down" "w \<noteq> vk_left" "w \<noteq> vk_right" "key_of w = None"
  by (cases "w = vk_up"; cases "w = vk_down"; cases "w = vk_left"; cases "w = vk_right")
    (auto simp: key_of_def k_key_map_def key_names)

lemma window_proc_agrees:
  "inputs_agree (fst s) msgs \<Longrightarrow> inputs_agree (fst (window_proc s m)) (msgs @ [m])"
proof -
  obtain win d where s: "s = (win, d)" by (cases s)
  assume ag: "inputs_agree (fst s) msgs"
  show ?thesis
  proof (cases m)
    case (WM_KEYDOWN w)
    show ?thesis
      by (cases w rule: key_of_cases; use ag WM_KEYDOWN in \<open>simp add: s inputs_agree_def; simp add: key_names\<close>)
  next
    case (WM_KEYUP w)
    show ?thesis
      by (cases w rule: key_of_cases; use ag WM_KEYUP in \<open>simp add: s inputs_agree_def; simp add: key_names\<close>)
  qed (use ag in \<open>auto simp: s inputs_agree_def button_names mouse_moved_def Let_def\<close>)
qed

lemma pump_agrees: "inputs_agree (fst s) before \<Longrightarrow> inputs_agree (fst (foldl window_proc s msgs)) (before @ msgs)"
proof (induction msgs rule: rev_induct)
  case Nil
  then show ?case by simp
next
  case (snoc m msgs)
  then show ?case using window_proc_agrees [of "foldl window_proc s msgs" "before @ msgs" m] by simp
qed

text \<open>A frame pumps the messages that have come in since the last one.\<close>

definition wm_frames :: "wm_window_t \<times> desktop \<Rightarrow> wm_message list list \<Rightarrow> wm_window_t \<times> desktop" where
  "wm_frames s frames = foldl (\<lambda>s msgs. fst (wm_pump s msgs)) s frames"

lemma wm_frames_concat: "wm_frames s frames = foldl window_proc s (concat frames)"
  by (induction frames arbitrary: s) (simp_all add: wm_frames_def wm_pump_def Let_def)

text \<open>
  After \<^verbatim>\<open>wm_create\<close> and any number of pumped frames the key mask is exactly the union of the
  bits of the keys that are held (the last message about the key was its pressing), the mouse
  mask that of the held buttons, and the next pump reports the request to quit exactly when a
  closing message has been dispatched.  Other keys and messages never show.
\<close>

theorem wm_masks_are_what_is_held:
  assumes "wm_create m (Some h) = Inr (m', Some win)" and "wm_frames (win, d) frames = (win1, d1)"
    and "wm_pump (win1, d1) msgs = ((win2, d2), quit)"
  shows "inputs_agree win2 (concat frames @ msgs) \<and> (quit \<longleftrightarrow> WM_CLOSE \<in> set (concat frames @ msgs))"
proof -
  have "inputs_agree (fst (win, d)) []" using assms(1) by (auto simp: wm_create_def inputs_agree_def split: prod.split_asm option.split_asm)
  from pump_agrees [OF this, of "concat frames"] have "inputs_agree win1 (concat frames)"
    using assms(2) by (simp add: wm_frames_concat)
  with pump_agrees [of "(win1, d1)" "concat frames" msgs] assms(3) have "inputs_agree win2 (concat frames @ msgs)"
    by (auto simp: wm_pump_def Let_def)
  moreover have "quit = wm_quit win2" using assms(3) by (auto simp: wm_pump_def Let_def)
  ultimately show ?thesis by (simp add: inputs_agree_def)
qed

definition demo_desktop :: desktop where
  "demo_desktop = \<lparr>cursor_x = 0, cursor_y = 0, rect_left = 0, rect_top = 0, rect_right = 640, rect_bottom = 480, show_count = 0\<rparr>"

lemma wm_masks_are_what_is_held_witness:
  "\<exists>m win win1 d1 win2 d2 quit. wm_create (mem_init 100 0) (Some 1) = Inr (m, Some win) \<and>
     wm_frames (win, demo_desktop) [[WM_KEYDOWN vk_up, WM_LBUTTONDOWN], [WM_KEYDOWN 65]] = (win1, d1) \<and>
     wm_pump (win1, d1) [WM_KEYUP vk_up, WM_KEYDOWN vk_left] = ((win2, d2), quit) \<and>
     wm_get_key_mask win2 = k_key_left \<and> wm_get_mouse_mask win2 = k_mouse_button_left \<and> \<not> quit"
proof -
  let ?fs = "[[WM_KEYDOWN vk_up, WM_LBUTTONDOWN], [WM_KEYDOWN 65]]" and ?ms = "[WM_KEYUP vk_up, WM_KEYDOWN vk_left]"
  obtain m win where c: "wm_create (mem_init 100 0) (Some 1) = Inr (m, Some win)"
    by (simp add: wm_create_def heap_alloc_def sizeof_wm_window_t_def)
  obtain win1 d1 where f: "wm_frames (win, demo_desktop) ?fs = (win1, d1)" by (cases "wm_frames (win, demo_desktop) ?fs")
  obtain win2 d2 quit where p: "wm_pump (win1, d1) ?ms = ((win2, d2), quit)"
    by (cases "wm_pump (win1, d1) ?ms") auto
  have ag: "inputs_agree win2 (concat ?fs @ ?ms) \<and> (quit \<longleftrightarrow> WM_CLOSE \<in> set (concat ?fs @ ?ms))"
    by (rule wm_masks_are_what_is_held [OF c f p])
  have "key_mask win2 = k_key_left" "mouse_mask win2 = k_mouse_button_left" "\<not> quit"
    using ag by (simp_all add: inputs_agree_def held_def key_names)
  with c f p show ?thesis by (simp add: wm_get_key_mask_def wm_get_mouse_mask_def) blast
qed

text \<open>The movement is never set back: frames without a mouse message report the last one again.\<close>

lemma window_proc_keeps_movement:
  "WM_MOUSEMOVE \<noteq> m \<Longrightarrow> wm_get_mouse_move (fst (window_proc s m)) = wm_get_mouse_move (fst s)"
  by (cases s; cases m) (auto simp: wm_get_mouse_move_def split: option.split)

lemma mouse_movement_is_stale:
  "WM_MOUSEMOVE \<notin> set msgs \<Longrightarrow> wm_get_mouse_move (fst (fst (wm_pump s msgs))) = wm_get_mouse_move (fst s)"
  by (induction msgs arbitrary: s) (simp_all add: wm_pump_def Let_def window_proc_keeps_movement)

text \<open>Before the first movement the queries return what the memory held.\<close>

lemma mouse_movement_is_uninitialised:
  "wm_create m (Some h) = Inr (m', Some win) \<Longrightarrow>
    wm_get_mouse_move win = (of_le32 (replicate 4 (junk m)), of_le32 (replicate 4 (junk m)))"
  by (auto simp: wm_create_def wm_get_mouse_move_def split: prod.split_asm option.split_asm)

lemma wm_destroy_releases:
  assumes "mem_ok m" and "wm_create m (Some h) = Inr (m', Some win)"
  shows "\<exists>m''. wm_destroy m' win = Inr m'' \<and> block_size m'' = block_size m"
proof -
  from assms(2) have "heap_alloc m sizeof_wm_window_t 8 = (m', Some (wm_self win))"
    by (auto simp: wm_create_def split: prod.split_asm option.split_asm)
  from heap_mem.alloc_free_live_set [OF assms(1) this] show ?thesis by (simp add: wm_destroy_def)
qed

text \<open>Giving the cursor back to the middle of the window makes the movement relative.\<close>

lemma mouse_move_relative:
  "has_focus win \<Longrightarrow> wm_get_mouse_move (fst (window_proc (win, d) WM_MOUSEMOVE)) =
    (cursor_x d - middle (rect_left d) (rect_right d), cursor_y d - middle (rect_top d) (rect_bottom d))"
  by (simp add: mouse_moved_def wm_get_mouse_move_def Let_def)

end
