(* ===== verification/Gpu.thy ===== *)
theory Gpu
  imports Memory "HOL-Library.Multiset"
begin

text \<open>
  The resources of the Vulkan wrapper (\<^verbatim>\<open>gpu.c\<close>): meshes, shaders, pipelines, uniform buffers and
  descriptors.  The Vulkan driver is a table of live objects with, for every fallible call to come,
  the result it will have; the calls have their documented effect on the table (a failed creation
  makes nothing, destroying a null handle does nothing, destroying or using a handle that is not
  live is a fault).  Of the parameters of a creation the model keeps those the engine's code
  computes or relies on: the other objects it refers to, sizes, counts and contents.
\<close>

section \<open>The driver\<close>

type_synonym handle = nat

datatype gpu_mesh_layout_t = k_gpu_mesh_layout_tri_p444_i2 | k_gpu_mesh_layout_tri_p444_c444_i2

datatype buffer_usage = Vertex_buffer | Index_buffer | Uniform_buffer

text \<open>A command buffer is recorded, then submitted with a fence; it is pending until the fence is signalled.\<close>

datatype cmd_state = Cmd_initial | Cmd_recording | Cmd_executable | Cmd_pending handle | Cmd_invalid

datatype vk_command =
    Begin_render_pass "handle option" "handle option" u32 u32
  | Set_viewport u32 u32
  | Set_scissor u32 u32
  | Bind_pipeline "handle option"
  | Bind_descriptor_set "handle option" "handle option"
  | Bind_vertex_buffer "handle option"
  | Bind_index_buffer "handle option"
  | Draw_indexed i32
  | Draw i32
  | End_render_pass

datatype vk_format = Format_b8g8r8a8_srgb | Format_d32_sfloat | Format_r32g32b32_sfloat

datatype image_layout = Layout_undefined | Layout_present_src | Layout_depth_stencil_attachment

record attachment_description =
  at_format :: vk_format
  at_load_clear :: bool
  at_store :: bool
  at_initial :: image_layout
  at_final :: image_layout

text \<open>The fixed state of a pipeline.\<close>

record pipeline_state =
  ps_polygon_fill :: bool
  ps_cull_back :: bool
  ps_front_clockwise :: bool
  ps_line_width :: nat
  ps_color_write_mask :: nat
  ps_blend :: bool
  ps_viewports :: nat
  ps_scissors :: nat
  ps_depth_test :: bool
  ps_depth_write :: bool
  ps_depth_less_or_equal :: bool
  ps_depth_bounds_test :: bool
  ps_stencil_test :: bool
  ps_samples :: nat
  ps_dynamic_viewport :: bool
  ps_dynamic_scissor :: bool

datatype vk_object =
    Vk_instance
  | Vk_device u32
  | Vk_surface nat
  | Vk_swapchain handle u32 u32 u32
  | Vk_image u32 u32
  | Vk_image_view nat
  | Vk_depth_view "handle option"
  | Vk_memory u32 bytes
  | Vk_render_pass "attachment_description list"
  | Vk_framebuffer "handle option" "handle option list" u32 u32
  | Vk_semaphore
  | Vk_descriptor_pool nat nat
  | Vk_command_pool u32
  | Vk_command_buffer "handle option" cmd_state "vk_command list"
  | Vk_fence bool
  | Vk_buffer nat buffer_usage
  | Vk_pipeline_layout "handle option"
  | Vk_pipeline "handle option" "handle option" "handle option" "handle option" "nat list \<times> i32" pipeline_state
  | Vk_shader_module bytes
  | Vk_descriptor_set_layout nat
  | Vk_descriptor_set "handle option" "handle option" "(nat \<times> handle option) list"

text \<open>What the driver and the devices answer are fields that no call changes.\<close>

record vk =
  vk_objects :: "handle \<Rightarrow> vk_object option"
  vk_next :: handle
  vk_calls :: nat
  vk_results :: "nat \<Rightarrow> i32"
  vk_devices :: nat
  vk_families :: "(u32 \<times> bool) list"
  vk_memory_types :: "u32 list"
  vk_extent :: "u32 \<times> u32"
  vk_min_images :: u32
  vk_images :: "nat list"
  vk_requirements :: "nat \<Rightarrow> nat \<times> u32"

definition vk_ok :: "vk \<Rightarrow> bool" where
  "vk_ok v \<longleftrightarrow> (\<forall>h. vk_objects v h \<noteq> None \<longrightarrow> h < vk_next v)"

text \<open>A fallible call: its result, and for a creation the new handle.\<close>

definition vk_call :: "vk \<Rightarrow> vk \<times> i32" where
  "vk_call v = (v\<lparr>vk_calls := Suc (vk_calls v)\<rparr>, vk_results v (vk_calls v))"

definition vk_create :: "vk \<Rightarrow> vk_object \<Rightarrow> vk \<times> i32 \<times> handle option" where
  "vk_create v ob =
     (let (v1, r) = vk_call v
      in if r \<noteq> 0 then (v1, r, None)
         else (v1\<lparr>vk_objects := (vk_objects v1)(vk_next v1 \<mapsto> ob), vk_next := Suc (vk_next v1)\<rparr>, 0, Some (vk_next v1)))"

definition vk_destroy :: "vk \<Rightarrow> handle option \<Rightarrow> vk outcome" where
  "vk_destroy v h =
     (case h of None \<Rightarrow> Inr v
      | Some k \<Rightarrow> if vk_objects v k = None then Inl Use_after_free
                  else Inr (v\<lparr>vk_objects := (vk_objects v)(k := None)\<rparr>))"

definition vk_live :: "vk \<Rightarrow> handle option \<Rightarrow> bool" where
  "vk_live v h \<longleftrightarrow> (\<exists>k ob. h = Some k \<and> vk_objects v k = Some ob)"

text \<open>\<^verbatim>\<open>vkMapMemory\<close>, a copy to the start of the mapping, \<^verbatim>\<open>vkUnmapMemory\<close>.\<close>

definition vk_fill :: "vk \<Rightarrow> handle option \<Rightarrow> bytes \<Rightarrow> (vk \<times> i32) outcome" where
  "vk_fill v h xs =
     (case h of None \<Rightarrow> Inl Null_deref
      | Some k \<Rightarrow>
          (case vk_objects v k of
             Some (Vk_memory t bs) \<Rightarrow>
               (let (v1, r) = vk_call v
                in if r \<noteq> 0 then Inr (v1, r)
                   else if length xs \<le> length bs
                   then Inr (v1\<lparr>vk_objects := (vk_objects v1)(k \<mapsto> Vk_memory t (xs @ drop (length xs) bs))\<rparr>, 0)
                   else Inl Out_of_bounds)
           | _ \<Rightarrow> Inl Use_after_free))"

section \<open>Structures\<close>

record gpu_cmd_buffer_t =
  cb_self :: ptr
  cb_buffer :: "handle option"
  cb_pipeline_layout :: "handle option"
  cb_index_count :: i32
  cb_vertex_count :: i32

record gpu_descriptor_t =
  gd_self :: ptr
  gd_set :: "handle option"

record gpu_mesh_t =
  gm_self :: ptr
  index_buffer :: "handle option"
  index_memory :: "handle option"
  index_count :: i32
  vertex_buffer :: "handle option"
  vertex_memory :: "handle option"
  vertex_count :: i32

record gpu_pipeline_t =
  gp_self :: ptr
  pipeline_layout :: "handle option"
  pipe :: "handle option"

record gpu_shader_t =
  gs_self :: ptr
  vertex_module :: "handle option"
  fragment_module :: "handle option"
  descriptor_set_layout :: "handle option"

record gpu_uniform_buffer_t =
  gu_self :: ptr
  gu_buffer :: "handle option"
  gu_memory :: "handle option"
  gu_range :: nat

record gpu_frame_t =
  fr_image :: nat
  fr_view :: "handle option"
  fr_frame_buffer :: "handle option"
  fr_fence :: "handle option"
  fr_cmd_buffer :: "gpu_cmd_buffer_t option"

text \<open>A vertex layout: the two allocated descriptions, stride, attribute offsets and index size.\<close>

record mesh_layout_info =
  ml_binding :: "ptr option"
  ml_attributes :: "ptr option"
  ml_offsets :: "nat list"
  mesh_vertex_size :: i32
  mesh_index_size :: i32

record gpu_t =
  gpu_self :: ptr
  gpu_instance :: "handle option"
  physical_device :: "nat option"
  logical_device :: "handle option"
  memory_types :: "u32 list"
  gpu_queue :: bool
  surface :: "handle option"
  swap_chain :: "handle option"
  render_pass :: "handle option"
  depth_stencil_image :: "handle option"
  depth_stencil_memory :: "handle option"
  depth_stencil_view :: "handle option"
  cmd_pool :: "handle option"
  descriptor_pool :: "handle option"
  present_complete_sema :: "handle option"
  render_complete_sema :: "handle option"
  mesh_layouts :: "gpu_mesh_layout_t \<Rightarrow> mesh_layout_info"
  frame_width :: u32
  frame_height :: u32
  gpu_frames :: "(ptr \<times> gpu_frame_t list) option"
  frame_count :: nat
  frame_index :: nat

text \<open>The cleared structure.\<close>

definition gpu_zero :: "ptr \<Rightarrow> gpu_t" where
  "gpu_zero p = \<lparr>gpu_self = p, gpu_instance = None, physical_device = None, logical_device = None, memory_types = [],
     gpu_queue = False, surface = None, swap_chain = None, render_pass = None, depth_stencil_image = None,
     depth_stencil_memory = None, depth_stencil_view = None, cmd_pool = None, descriptor_pool = None,
     present_complete_sema = None, render_complete_sema = None,
     mesh_layouts = (\<lambda>_. \<lparr>ml_binding = None, ml_attributes = None, ml_offsets = [], mesh_vertex_size = 0, mesh_index_size = 0\<rparr>),
     frame_width = 0, frame_height = 0, gpu_frames = None, frame_count = 0, frame_index = 0\<rparr>"

type_synonym gpu_world = "mem \<times> vk"

text \<open>\<^verbatim>\<open>heap_alloc\<close> and \<^verbatim>\<open>memset\<close> of a structure.\<close>

definition alloc_struct :: "mem \<Rightarrow> nat \<Rightarrow> (mem \<times> ptr) outcome" where
  "alloc_struct m n =
     (case heap_alloc m n 8 of
        (m', None) \<Rightarrow> Inl Null_deref
      | (m', Some p) \<Rightarrow> bind_ok (memset m' (Some p) 0 n) (\<lambda>m''. Inr (m'', p)))"

text \<open>The destruction of the handles of a structure, in the order of the code, and of the structure.\<close>

fun destroy_handles :: "vk \<Rightarrow> handle option list \<Rightarrow> vk outcome" where
  "destroy_handles v [] = Inr v"
| "destroy_handles v (h # hs) = bind_ok (vk_destroy v h) (\<lambda>v'. destroy_handles v' hs)"

definition release_struct :: "gpu_world \<Rightarrow> handle option list \<Rightarrow> ptr \<Rightarrow> gpu_world outcome" where
  "release_struct w hs p =
     (case w of (m, v) \<Rightarrow>
      bind_ok (destroy_handles v hs) (\<lambda>v'. bind_ok (heap_free m (Some p)) (\<lambda>m'. Inr (m', v'))))"

section \<open>Memory types\<close>

text \<open>The first type that the mask admits and that has the properties; 0 when there is none.\<close>

definition get_memory_type_index :: "gpu_t \<Rightarrow> u32 \<Rightarrow> u32 \<Rightarrow> u32" where
  "get_memory_type_index gpu bits properties =
     (case find_from (\<lambda>i. bit bits i \<and> memory_types gpu ! i AND properties = properties) 0 (length (memory_types gpu)) of
        None \<Rightarrow> 0 | Some i \<Rightarrow> word_of_nat i)"

definition memory_device_local :: u32 where "memory_device_local = 1"
definition memory_host_visible_coherent :: u32 where "memory_host_visible_coherent = 2 OR 4"

text \<open>Memory for something of \<open>n\<close> bytes, as the driver's requirements have it.\<close>

definition allocate_memory :: "gpu_t \<Rightarrow> vk \<Rightarrow> nat \<Rightarrow> u32 \<Rightarrow> vk \<times> i32 \<times> handle option" where
  "allocate_memory gpu v n properties =
     (let (bytes, bits) = vk_requirements v n
      in vk_create v (Vk_memory (get_memory_type_index gpu bits properties) (replicate bytes 0)))"

section \<open>Descriptors\<close>

record gpu_descriptor_info_t =
  di_shader :: gpu_shader_t
  di_uniform_buffers :: "gpu_uniform_buffer_t list"

definition sizeof_gpu_descriptor_t :: nat where "sizeof_gpu_descriptor_t = 8"

definition gpu_descriptor_destroy :: "gpu_world \<Rightarrow> gpu_descriptor_t option \<Rightarrow> gpu_world outcome" where
  "gpu_descriptor_destroy w descriptor =
     (case descriptor of None \<Rightarrow> Inr w | Some d \<Rightarrow> release_struct w [gd_set d] (gd_self d))"

text \<open>The set is filled with one uniform buffer per binding.\<close>

definition gpu_descriptor_create :: "gpu_t \<Rightarrow> gpu_world \<Rightarrow> gpu_descriptor_info_t \<Rightarrow>
    (gpu_world \<times> gpu_descriptor_t option) outcome" where
  "gpu_descriptor_create gpu w info =
     (case w of (m, v) \<Rightarrow>
      bind_ok (alloc_struct m sizeof_gpu_descriptor_t) (\<lambda>(m1, p).
      let writes = zip [0..<length (di_uniform_buffers info)] (map gu_buffer (di_uniform_buffers info));
          (v1, r, h) = vk_create v (Vk_descriptor_set (descriptor_pool gpu) (descriptor_set_layout (di_shader info)) writes);
          descriptor = \<lparr>gd_self = p, gd_set = h\<rparr>
      in if r \<noteq> 0 then bind_ok (gpu_descriptor_destroy (m1, v1) (Some descriptor)) (\<lambda>w'. Inr (w', None))
         else Inr ((m1, v1), Some descriptor)))"

section \<open>Meshes\<close>

record gpu_mesh_info_t =
  mi_layout :: gpu_mesh_layout_t
  mi_vertex_data :: bytes
  mi_index_data :: bytes

definition sizeof_gpu_mesh_t :: nat where "sizeof_gpu_mesh_t = 48"

definition gpu_mesh_destroy :: "gpu_world \<Rightarrow> gpu_mesh_t option \<Rightarrow> gpu_world outcome" where
  "gpu_mesh_destroy w mesh =
     (case mesh of None \<Rightarrow> Inr w
      | Some x \<Rightarrow> release_struct w [index_buffer x, index_memory x, vertex_buffer x, vertex_memory x] (gm_self x))"

text \<open>C's division of ints.\<close>

definition int_div :: "i32 \<Rightarrow> i32 \<Rightarrow> i32 outcome" where
  "int_div a b = (if b = 0 then Inl Div_by_zero else Inr (word_of_int (sint a sdiv sint b)))"

text \<open>A buffer with its memory: create, allocate, fill, bind; the last result decides.  The handles
  made so far are returned in any case.\<close>

definition create_filled_buffer :: "gpu_t \<Rightarrow> vk \<Rightarrow> bytes \<Rightarrow> buffer_usage \<Rightarrow>
    (vk \<times> i32 \<times> handle option \<times> handle option) outcome" where
  "create_filled_buffer gpu v data usage =
     (let (v1, r1, b) = vk_create v (Vk_buffer (length data) usage)
      in if r1 \<noteq> 0 then Inr (v1, r1, b, None)
         else let (v2, r2, mm) = allocate_memory gpu v1 (length data) memory_host_visible_coherent
         in if r2 \<noteq> 0 then Inr (v2, r2, b, mm)
            else bind_ok (vk_fill v2 mm data) (\<lambda>(v3, r3).
                 if r3 \<noteq> 0 then Inr (v3, r3, b, mm)
                 else let (v4, r4) = vk_call v3 in Inr (v4, r4, b, mm)))"

definition gpu_mesh_create :: "gpu_t \<Rightarrow> gpu_world \<Rightarrow> gpu_mesh_info_t \<Rightarrow> (gpu_world \<times> gpu_mesh_t option) outcome" where
  "gpu_mesh_create gpu w info =
     (case w of (m, v) \<Rightarrow>
      bind_ok (alloc_struct m sizeof_gpu_mesh_t) (\<lambda>(m1, p).
      bind_ok (int_div (word_of_nat (length (mi_index_data info))) (mesh_index_size (mesh_layouts gpu (mi_layout info)))) (\<lambda>ic.
      bind_ok (int_div (word_of_nat (length (mi_vertex_data info))) (mesh_vertex_size (mesh_layouts gpu (mi_layout info)))) (\<lambda>vc.
      bind_ok (create_filled_buffer gpu v (mi_vertex_data info) Vertex_buffer) (\<lambda>(v1, r1, vb, vm).
      let mesh1 = \<lparr>gm_self = p, index_buffer = None, index_memory = None, index_count = ic,
                   vertex_buffer = vb, vertex_memory = vm, vertex_count = vc\<rparr>
      in if r1 \<noteq> 0 then bind_ok (gpu_mesh_destroy (m1, v1) (Some mesh1)) (\<lambda>w'. Inr (w', None))
         else bind_ok (create_filled_buffer gpu v1 (mi_index_data info) Index_buffer) (\<lambda>(v2, r2, ib, im).
              let mesh2 = mesh1\<lparr>index_buffer := ib, index_memory := im\<rparr>
              in if r2 \<noteq> 0 then bind_ok (gpu_mesh_destroy (m1, v2) (Some mesh2)) (\<lambda>w'. Inr (w', None))
                 else Inr ((m1, v2), Some mesh2)))))))"

section \<open>Pipelines\<close>

record gpu_pipeline_info_t =
  pi_shader :: gpu_shader_t
  pi_mesh_layout :: gpu_mesh_layout_t

definition sizeof_gpu_pipeline_t :: nat where "sizeof_gpu_pipeline_t = 16"

definition gpu_pipeline_destroy :: "gpu_world \<Rightarrow> gpu_pipeline_t option \<Rightarrow> gpu_world outcome" where
  "gpu_pipeline_destroy w pipeline =
     (case pipeline of None \<Rightarrow> Inr w | Some x \<Rightarrow> release_struct w [pipeline_layout x, pipe x] (gp_self x))"

definition engine_pipeline_state :: pipeline_state where
  "engine_pipeline_state = \<lparr>ps_polygon_fill = True, ps_cull_back = True, ps_front_clockwise = True, ps_line_width = 1,
     ps_color_write_mask = 15, ps_blend = False, ps_viewports = 1, ps_scissors = 1, ps_depth_test = True, ps_depth_write = True,
     ps_depth_less_or_equal = True, ps_depth_bounds_test = False, ps_stencil_test = False, ps_samples = 1,
     ps_dynamic_viewport = True, ps_dynamic_scissor = True\<rparr>"

text \<open>The vertex input of a layout: its attributes' offsets and its stride.\<close>

definition vertex_input :: "gpu_t \<Rightarrow> gpu_mesh_layout_t \<Rightarrow> nat list \<times> i32" where
  "vertex_input gpu l = (ml_offsets (mesh_layouts gpu l), mesh_vertex_size (mesh_layouts gpu l))"

definition gpu_pipeline_create :: "gpu_t \<Rightarrow> gpu_world \<Rightarrow> gpu_pipeline_info_t \<Rightarrow>
    (gpu_world \<times> gpu_pipeline_t option) outcome" where
  "gpu_pipeline_create gpu w info =
     (case w of (m, v) \<Rightarrow>
      bind_ok (alloc_struct m sizeof_gpu_pipeline_t) (\<lambda>(m1, p).
      let (v1, r1, l) = vk_create v (Vk_pipeline_layout (descriptor_set_layout (pi_shader info)));
          pipeline1 = \<lparr>gp_self = p, pipeline_layout = l, pipe = None\<rparr>
      in if r1 \<noteq> 0 then bind_ok (gpu_pipeline_destroy (m1, v1) (Some pipeline1)) (\<lambda>w'. Inr (w', None))
         else let (v2, r2, h) = vk_create v1 (Vk_pipeline l (render_pass gpu) (vertex_module (pi_shader info))
                                  (fragment_module (pi_shader info)) (vertex_input gpu (pi_mesh_layout info)) engine_pipeline_state);
                  pipeline2 = pipeline1\<lparr>pipe := h\<rparr>
         in if r2 \<noteq> 0 then bind_ok (gpu_pipeline_destroy (m1, v2) (Some pipeline2)) (\<lambda>w'. Inr (w', None))
            else Inr ((m1, v2), Some pipeline2)))"

section \<open>Shaders\<close>

record gpu_shader_info_t =
  si_vertex_shader :: bytes
  si_fragment_shader :: bytes
  si_uniform_buffer_count :: nat

definition sizeof_gpu_shader_t :: nat where "sizeof_gpu_shader_t = 24"

definition gpu_shader_destroy :: "gpu_world \<Rightarrow> gpu_shader_t option \<Rightarrow> gpu_world outcome" where
  "gpu_shader_destroy w shader =
     (case shader of None \<Rightarrow> Inr w
      | Some x \<Rightarrow> release_struct w [vertex_module x, fragment_module x, descriptor_set_layout x] (gs_self x))"

definition gpu_shader_create :: "gpu_t \<Rightarrow> gpu_world \<Rightarrow> gpu_shader_info_t \<Rightarrow> (gpu_world \<times> gpu_shader_t option) outcome" where
  "gpu_shader_create gpu w info =
     (case w of (m, v) \<Rightarrow>
      bind_ok (alloc_struct m sizeof_gpu_shader_t) (\<lambda>(m1, p).
      let (v1, r1, a) = vk_create v (Vk_shader_module (si_vertex_shader info));
          shader1 = \<lparr>gs_self = p, vertex_module = a, fragment_module = None, descriptor_set_layout = None\<rparr>
      in if r1 \<noteq> 0 then bind_ok (gpu_shader_destroy (m1, v1) (Some shader1)) (\<lambda>w'. Inr (w', None))
         else let (v2, r2, b) = vk_create v1 (Vk_shader_module (si_fragment_shader info));
                  shader2 = shader1\<lparr>fragment_module := b\<rparr>
         in if r2 \<noteq> 0 then bind_ok (gpu_shader_destroy (m1, v2) (Some shader2)) (\<lambda>w'. Inr (w', None))
            else let (v3, r3, c) = vk_create v2 (Vk_descriptor_set_layout (si_uniform_buffer_count info));
                     shader3 = shader2\<lparr>descriptor_set_layout := c\<rparr>
            in if r3 \<noteq> 0 then bind_ok (gpu_shader_destroy (m1, v3) (Some shader3)) (\<lambda>w'. Inr (w', None))
               else Inr ((m1, v3), Some shader3)))"

section \<open>Uniform buffers\<close>

definition sizeof_gpu_uniform_buffer_t :: nat where "sizeof_gpu_uniform_buffer_t = 40"

definition gpu_uniform_buffer_destroy :: "gpu_world \<Rightarrow> gpu_uniform_buffer_t option \<Rightarrow> gpu_world outcome" where
  "gpu_uniform_buffer_destroy w buffer =
     (case buffer of None \<Rightarrow> Inr w | Some x \<Rightarrow> release_struct w [gu_buffer x, gu_memory x] (gu_self x))"

text \<open>A failed mapping leaves the contents as they are.\<close>

definition gpu_uniform_buffer_update :: "gpu_world \<Rightarrow> gpu_uniform_buffer_t \<Rightarrow> bytes \<Rightarrow> gpu_world outcome" where
  "gpu_uniform_buffer_update w buffer data =
     (case w of (m, v) \<Rightarrow> bind_ok (vk_fill v (gu_memory buffer) data) (\<lambda>(v', r). Inr (m, v')))"

definition gpu_uniform_buffer_create :: "gpu_t \<Rightarrow> gpu_world \<Rightarrow> bytes \<Rightarrow> (gpu_world \<times> gpu_uniform_buffer_t option) outcome" where
  "gpu_uniform_buffer_create gpu w data =
     (case w of (m, v) \<Rightarrow>
      bind_ok (alloc_struct m sizeof_gpu_uniform_buffer_t) (\<lambda>(m1, p).
      let (v1, r1, b) = vk_create v (Vk_buffer (length data) Uniform_buffer);
          u1 = \<lparr>gu_self = p, gu_buffer = b, gu_memory = None, gu_range = 0\<rparr>
      in if r1 \<noteq> 0 then bind_ok (gpu_uniform_buffer_destroy (m1, v1) (Some u1)) (\<lambda>w'. Inr (w', None))
         else let (v2, r2, mm) = allocate_memory gpu v1 (length data) memory_host_visible_coherent;
                  u2 = u1\<lparr>gu_memory := mm\<rparr>
         in if r2 \<noteq> 0 then bind_ok (gpu_uniform_buffer_destroy (m1, v2) (Some u2)) (\<lambda>w'. Inr (w', None))
            else let (v3, r3) = vk_call v2
            in if r3 \<noteq> 0 then bind_ok (gpu_uniform_buffer_destroy (m1, v3) (Some u2)) (\<lambda>w'. Inr (w', None))
               else let u3 = u2\<lparr>gu_range := length data\<rparr>
               in bind_ok (gpu_uniform_buffer_update (m1, v3) u3 data) (\<lambda>w'. Inr (w', Some u3))))"

section \<open>Ownership\<close>

text \<open>
  \<open>owns base cur M\<close>: the table \<open>cur\<close> is \<open>base\<close> with one live entry more for each element of \<open>M\<close>.
  It describes the objects of the driver and the blocks of the heap alike.
\<close>

definition owns :: "('k \<Rightarrow> 'a option) \<Rightarrow> ('k \<Rightarrow> 'a option) \<Rightarrow> 'k multiset \<Rightarrow> bool" where
  "owns base cur M \<longleftrightarrow>
     (\<forall>x. x \<in># M \<longrightarrow> count M x = 1 \<and> cur x \<noteq> None \<and> base x = None) \<and> (\<forall>x. x \<notin># M \<longrightarrow> cur x = base x)"

lemma owns_empty [simp]: "owns base cur {#} \<longleftrightarrow> cur = base"
  by (auto simp: owns_def)

lemma owns_add:
  assumes "owns base cur M" and "cur x = None"
  shows "owns base (cur(x \<mapsto> y)) (add_mset x M)"
proof -
  have x: "x \<notin># M" using assms unfolding owns_def by metis
  then have "base x = None" using assms unfolding owns_def by metis
  with x assms(1) show ?thesis unfolding owns_def by (simp add: not_in_iff)
qed

lemma owns_notin: "owns base cur (add_mset x M) \<Longrightarrow> x \<notin># M \<and> base x = None"
  unfolding owns_def by (metis One_nat_def Suc_inject count_add_mset not_in_iff union_single_eq_member)

lemma owns_remove:
  assumes own: "owns base cur (add_mset x M)"
  shows "owns base (cur(x := None)) M"
  unfolding owns_def
proof (intro conjI allI impI)
  fix y
  assume y: "y \<in># M"
  have ne: "y \<noteq> x" using owns_notin [OF own] y by blast
  have "count (add_mset x M) y = 1" and l: "cur y \<noteq> None \<and> base y = None" using own y unfolding owns_def by simp_all
  then show "count M y = 1" using ne by simp
  show "(cur(x := None)) y \<noteq> None" "base y = None" using l ne by simp_all
next
  fix y
  assume y: "y \<notin># M"
  then show "(cur(x := None)) y = base y"
  proof (cases "y = x")
    case False
    then show ?thesis using own y unfolding owns_def by simp
  qed (simp add: owns_notin [OF own])
qed

lemma owns_live: "owns base cur (add_mset x M) \<Longrightarrow> \<exists>y. cur x = Some y"
  unfolding owns_def by (metis not_None_eq union_single_eq_member)

lemma owns_update: "owns base cur M \<Longrightarrow> x \<in># M \<Longrightarrow> owns base (cur(x \<mapsto> y)) M"
  unfolding owns_def by (metis fun_upd_other fun_upd_same option.distinct(1))

text \<open>What is not null among the handles (or pointers) of a structure.\<close>

fun handles :: "'a option list \<Rightarrow> 'a multiset" where
  "handles [] = {#}"
| "handles (None # hs) = handles hs"
| "handles (Some h # hs) = add_mset h (handles hs)"

lemma handles_append [simp]: "handles (xs @ ys) = handles xs + handles ys"
  by (induction xs rule: handles.induct) auto

lemma handles_pair: "handles [a, b] = handles [a] + handles [b]"
  by (cases a; cases b) auto

lemma handles_Cons: "handles (x # xs) = handles [x] + handles xs"
  by (cases x) simp_all

lemma handles_update: "k < length xs \<Longrightarrow> xs ! k = None \<Longrightarrow> handles (xs[k := h]) = handles [h] + handles xs"
proof (induction xs arbitrary: k)
  case (Cons x xs)
  then show ?case by (cases k) (auto simp: handles_Cons [of _ xs] handles_Cons [of _ "xs[_ := _]"] ac_simps)
qed simp

lemma vk_call_sel [simp]:
  "vk_objects (fst (vk_call v)) = vk_objects v" "vk_next (fst (vk_call v)) = vk_next v"
  "vk_requirements (fst (vk_call v)) = vk_requirements v"
  by (simp_all add: vk_call_def)

text \<open>The driver's objects beyond \<open>base\<close>, and the blocks of the heap beyond \<open>base\<close>.\<close>

definition vk_owns :: "(handle \<Rightarrow> vk_object option) \<Rightarrow> vk \<Rightarrow> handle multiset \<Rightarrow> bool" where
  "vk_owns base v M \<longleftrightarrow> vk_ok v \<and> owns base (vk_objects v) M"

definition mem_owns :: "(ptr \<Rightarrow> nat option) \<Rightarrow> mem \<Rightarrow> ptr multiset \<Rightarrow> bool" where
  "mem_owns base m M \<longleftrightarrow> mem_ok m \<and> owns base (block_size m) M"

lemma vk_owns_call: "vk_owns base v M \<Longrightarrow> vk_call v = (v', r) \<Longrightarrow> vk_owns base v' M"
  by (auto simp: vk_owns_def vk_ok_def vk_call_def)

lemma vk_owns_create:
  assumes "vk_owns base v M" and "vk_create v ob = (v', r, h)"
  shows "vk_owns base v' (handles [h] + M)"
proof (cases "r = 0")
  case True
  with assms have "v' = v\<lparr>vk_calls := Suc (vk_calls v), vk_objects := (vk_objects v)(vk_next v \<mapsto> ob),
      vk_next := Suc (vk_next v)\<rparr>" "h = Some (vk_next v)"
    by (auto simp: vk_create_def vk_call_def split: if_splits)
  moreover have "vk_objects v (vk_next v) = None" using assms(1) by (auto simp: vk_owns_def vk_ok_def)
  ultimately show ?thesis using assms(1) owns_add [of base "vk_objects v" M "vk_next v" ob]
    by (auto simp: vk_owns_def vk_ok_def less_Suc_eq)
next
  case False
  with assms show ?thesis by (auto simp: vk_create_def vk_owns_def vk_ok_def vk_call_def split: if_splits)
qed

lemma vk_create_handle: "vk_create v ob = (v', r, h) \<Longrightarrow> (h = None) = (r \<noteq> 0)"
  by (auto simp: vk_create_def split: if_splits prod.splits)

lemma vk_create_live: "vk_create v ob = (v', r, h) \<Longrightarrow> r = 0 \<Longrightarrow> \<exists>k. h = Some k \<and> vk_objects v' k = Some ob"
  by (auto simp: vk_create_def split: if_splits prod.splits)

lemma vk_create_requirements: "vk_create v ob = (v', r, h) \<Longrightarrow> vk_requirements v' = vk_requirements v"
  by (auto simp: vk_create_def vk_call_def split: if_splits prod.splits)

lemma vk_owns_destroy:
  assumes "vk_owns base v (handles [h] + M)"
  shows "\<exists>v'. vk_destroy v h = Inr v' \<and> vk_owns base v' M"
proof (cases h)
  case (Some k)
  with assms owns_live [of base "vk_objects v" k M] owns_remove [of base "vk_objects v" k M] show ?thesis
    by (auto simp: vk_destroy_def vk_owns_def vk_ok_def)
qed (use assms in \<open>simp add: vk_destroy_def\<close>)

lemma vk_owns_destroy_handles:
  "vk_owns base v (handles hs + M) \<Longrightarrow> \<exists>v'. destroy_handles v hs = Inr v' \<and> vk_owns base v' M"
proof (induction hs arbitrary: v)
  case (Cons h hs)
  have "handles (h # hs) = handles [h] + handles hs" by (cases h) auto
  with Cons.prems have "vk_owns base v (handles [h] + (handles hs + M))" by (simp add: add.assoc)
  from vk_owns_destroy [OF this] obtain v1 where "vk_destroy v h = Inr v1" "vk_owns base v1 (handles hs + M)" by blast
  with Cons.IH [of v1] show ?case by auto
qed simp

lemma mem_owns_alloc:
  assumes own: "mem_owns base m M" and a: "heap_alloc m n 8 = (m', Some p)"
  shows "mem_owns base m' (add_mset p M)"
proof -
  have ok: "mem_ok m" using own by (simp add: mem_owns_def)
  have "block_size m' = (block_size m)(p \<mapsto> n)"
    using heap_mem.alloc_size [OF ok a] heap_mem.alloc_other [OF ok a] by auto
  then show ?thesis
    using own heap_mem.alloc_fresh [OF ok a] heap_mem.alloc_ok [OF ok, of n 8] a
    by (auto simp: mem_owns_def intro: owns_add)
qed

lemma alloc_struct_ok:
  assumes own: "mem_owns base m M" and n: "0 < n" "n \<le> os_avail m"
  shows "\<exists>m' p. alloc_struct m n = Inr (m', p) \<and> mem_owns base m' (add_mset p M) \<and> os_avail m' = os_avail m - n"
proof -
  obtain m1 p where a: "heap_alloc m n 8 = (m1, Some p)" using n by (simp add: heap_alloc_def)
  from alloc_clear(2) [OF n a] obtain m2 where m2: "memset m1 (Some p) 0 n = Inr m2" "os_avail m2 = os_avail m1" by simp
  from mem_owns_alloc [OF own a] m2(1) have "mem_owns base m2 (add_mset p M)"
    by (auto simp: mem_owns_def memset_def block_size_write mem_ok_write)
  moreover have "os_avail m1 = os_avail m - n" using a by (auto simp: heap_alloc_def split: if_splits)
  ultimately show ?thesis using a m2 by (simp add: alloc_struct_def)
qed

lemma mem_owns_free:
  assumes "mem_owns base m (add_mset p M)"
  shows "\<exists>m'. heap_free m (Some p) = Inr m' \<and> mem_owns base m' M"
proof -
  have ok: "mem_ok m" "owns base (block_size m) (add_mset p M)" using assms by (simp_all add: mem_owns_def)
  from heap_mem.free_live [OF ok(1)] owns_live [OF ok(2)] obtain m' where f: "heap_free m (Some p) = Inr m'" by blast
  have "block_size m' = (block_size m)(p := None)"
    using heap_mem.free_gone [OF ok(1) f] heap_mem.free_other [OF ok(1) f] by auto
  with f owns_remove [OF ok(2)] heap_mem.free_ok [OF ok(1) f] show ?thesis by (simp add: mem_owns_def)
qed

lemma release_struct_ok:
  assumes "mem_owns bm m (add_mset p B)" and "vk_owns bv v (handles hs + M)"
  shows "\<exists>m' v'. release_struct (m, v) hs p = Inr (m', v') \<and> mem_owns bm m' B \<and> vk_owns bv v' M"
  using mem_owns_free [OF assms(1)] vk_owns_destroy_handles [OF assms(2)] by (auto simp: release_struct_def)

section \<open>Nothing is left behind\<close>

text \<open>A creation that fails, or that is followed by the destruction, leaves the same live blocks and objects.\<close>

definition undone :: "gpu_world \<Rightarrow> gpu_world \<Rightarrow> bool" where
  "undone w w' \<longleftrightarrow> block_size (fst w') = block_size (fst w) \<and> vk_objects (snd w') = vk_objects (snd w)"

definition leak_free :: "gpu_world \<Rightarrow> (gpu_world \<Rightarrow> 'a option \<Rightarrow> gpu_world outcome) \<Rightarrow>
    (gpu_world \<times> 'a option) outcome \<Rightarrow> bool" where
  "leak_free w destroy r =
     (case r of Inl _ \<Rightarrow> False
      | Inr (w', None) \<Rightarrow> undone w w'
      | Inr (w', Some x) \<Rightarrow> (\<exists>w''. destroy w' (Some x) = Inr w'' \<and> undone w w''))"

lemma leak_free_None [simp]: "leak_free w d (Inr (w', None)) = undone w w'"
  and leak_free_Some [simp]: "leak_free w d (Inr (w', Some x)) = (\<exists>w''. d w' (Some x) = Inr w'' \<and> undone w w'')"
  by (simp_all add: leak_free_def)

lemma world_owns_start:
  assumes "mem_ok m" and "vk_ok v"
  shows "mem_owns (block_size m) m {#}" "vk_owns (vk_objects v) v {#}"
  using assms by (simp_all add: mem_owns_def vk_owns_def)

lemma release_undone:
  assumes "mem_owns (block_size m) m' {#p#}" and "vk_owns (vk_objects v) v' (handles hs)"
  shows "\<exists>w. release_struct (m', v') hs p = Inr w \<and> undone (m, v) w"
  using release_struct_ok [of "block_size m" m' p "{#}" "vk_objects v" v' hs "{#}"] assms
  by (auto simp: undone_def mem_owns_def vk_owns_def)

text \<open>A creation that fails by releasing the structure.\<close>

lemma leak_free_release:
  assumes "mem_owns (block_size m) m' {#p#}" and "vk_owns (vk_objects v) v' (handles hs)"
    and "destroy (m', v') (Some x) = release_struct (m', v') hs p"
  shows "leak_free (m, v) destroy (bind_ok (destroy (m', v') (Some x)) (\<lambda>w'. Inr (w', None)))"
    and "leak_free (m, v) destroy (Inr ((m', v'), Some x))"
  using release_undone [OF assms(1,2)] assms(3) by auto

text \<open>The memory the driver asks for holds what is put there.\<close>

definition requirements_ok :: "vk \<Rightarrow> bool" where
  "requirements_ok v \<longleftrightarrow> (\<forall>n. n \<le> fst (vk_requirements v n))"

lemma vk_call_requirements_ok [simp]: "requirements_ok (fst (vk_call v)) = requirements_ok v"
  by (simp add: requirements_ok_def)

lemma vk_owns_fill:
  assumes own: "vk_owns base v M" and k: "k \<in># M" "vk_objects v k = Some (Vk_memory t bs)" and len: "length xs \<le> length bs"
  shows "\<exists>v' r. vk_fill v (Some k) xs = Inr (v', r) \<and> vk_owns base v' M \<and> vk_requirements v' = vk_requirements v"
proof -
  have "vk_owns base (v\<lparr>vk_calls := c\<rparr>) M" for c using own by (simp add: vk_owns_def vk_ok_def)
  moreover have "vk_owns base (v\<lparr>vk_calls := c, vk_objects := (vk_objects v)(k \<mapsto> ob)\<rparr>) M" for c ob
    using own k owns_update [of base "vk_objects v" M k ob] by (auto simp: vk_owns_def vk_ok_def)
  ultimately show ?thesis using k len by (simp add: vk_fill_def vk_call_def)
qed

lemma allocate_memory_live:
  assumes "allocate_memory gpu v n properties = (v', r, h)" and "r = 0" and "requirements_ok v"
  shows "\<exists>k t bs. h = Some k \<and> vk_objects v' k = Some (Vk_memory t bs) \<and> n \<le> length bs"
proof -
  obtain bytes bits where q: "vk_requirements v n = (bytes, bits)" by (cases "vk_requirements v n")
  with assms(3) have "n \<le> bytes" by (auto simp: requirements_ok_def dest: spec [of _ n])
  let ?ob = "Vk_memory (get_memory_type_index gpu bits properties) (replicate bytes 0)"
  have "vk_create v ?ob = (v', r, h)" using assms(1) q by (simp add: allocate_memory_def)
  from vk_create_live [OF this assms(2)] obtain k where "h = Some k" "vk_objects v' k = Some ?ob" by blast
  with \<open>n \<le> bytes\<close> show ?thesis by (intro exI [of _ k]) simp
qed

lemma vk_owns_allocate:
  assumes "vk_owns base v M" and "allocate_memory gpu v n properties = (v', r, h)"
  shows "vk_owns base v' (handles [h] + M)" and "vk_requirements v' = vk_requirements v"
proof -
  obtain bytes bits where "vk_requirements v n = (bytes, bits)" by (cases "vk_requirements v n")
  with assms(2) obtain ob where ob: "vk_create v ob = (v', r, h)" by (auto simp: allocate_memory_def)
  show "vk_owns base v' (handles [h] + M)" using assms(1) ob by (rule vk_owns_create)
  show "vk_requirements v' = vk_requirements v" using ob by (rule vk_create_requirements)
qed

lemma create_filled_buffer_owns:
  assumes own: "vk_owns base v M" and req: "requirements_ok v"
  shows "\<exists>v' r b mm. create_filled_buffer gpu v data usage = Inr (v', r, b, mm) \<and>
    vk_owns base v' (handles [b, mm] + M) \<and> requirements_ok v'"
proof -
  obtain v1 r1 b where 1: "vk_create v (Vk_buffer (length data) usage) = (v1, r1, b)"
    by (cases "vk_create v (Vk_buffer (length data) usage)")
  have o1: "vk_owns base v1 (handles [b] + M)" by (rule vk_owns_create [OF own 1])
  have q1: "requirements_ok v1" using vk_create_requirements [OF 1] req by (simp add: requirements_ok_def)
  show ?thesis
  proof (cases "r1 = 0")
    case False
    with 1 o1 q1 show ?thesis by (simp add: create_filled_buffer_def handles_pair)
  next
    case True
    obtain v2 r2 mm where 2: "allocate_memory gpu v1 (length data) memory_host_visible_coherent = (v2, r2, mm)"
      by (cases "allocate_memory gpu v1 (length data) memory_host_visible_coherent")
    have o2: "vk_owns base v2 (handles [b, mm] + M)"
      using vk_owns_allocate(1) [OF o1 2] by (simp add: handles_pair ac_simps)
    have q2: "requirements_ok v2" using vk_owns_allocate(2) [OF o1 2] q1 by (simp add: requirements_ok_def)
    show ?thesis
    proof (cases "r2 = 0")
      case False
      with 1 2 True o2 q2 show ?thesis by (simp add: create_filled_buffer_def)
    next
      case r2: True
      from allocate_memory_live [OF 2 r2 q1] obtain k t bs where
        k: "mm = Some k" "vk_objects v2 k = Some (Vk_memory t bs)" "length data \<le> length bs" by blast
      have "k \<in># handles [b, mm] + M" by (simp add: k(1) handles_pair)
      from vk_owns_fill [OF o2 this k(2,3)] obtain v3 r3 where
        3: "vk_fill v2 mm data = Inr (v3, r3)" "vk_owns base v3 (handles [b, mm] + M)" "vk_requirements v3 = vk_requirements v2"
        by (auto simp: k(1))
      have q3: "requirements_ok v3" using q2 3(3) by (simp add: requirements_ok_def)
      obtain v4 r4 where 4: "vk_call v3 = (v4, r4)" by (cases "vk_call v3")
      have o4: "vk_owns base v4 (handles [b, mm] + M)" by (rule vk_owns_call [OF 3(2) 4])
      have q4: "requirements_ok v4" using vk_call_requirements_ok [of v3] q3 4 by simp
      show ?thesis using 1 2 3 4 True r2 o4 q4 q3 by (simp add: create_filled_buffer_def)
    qed
  qed
qed

lemma descriptor_leak_free:
  assumes "mem_ok m" "vk_ok v" and room: "sizeof_gpu_descriptor_t \<le> os_avail m"
  shows "leak_free (m, v) gpu_descriptor_destroy (gpu_descriptor_create gpu (m, v) info)"
proof -
  note own = world_owns_start [OF assms(1,2)]
  obtain m1 p where a: "alloc_struct m sizeof_gpu_descriptor_t = Inr (m1, p)" "mem_owns (block_size m) m1 {#p#}"
    using alloc_struct_ok [OF own(1) _ room] by (auto simp: sizeof_gpu_descriptor_t_def)
  let ?ws = "zip [0..<length (di_uniform_buffers info)] (map gu_buffer (di_uniform_buffers info))"
  obtain v1 r h where c: "vk_create v (Vk_descriptor_set (descriptor_pool gpu) (descriptor_set_layout (di_shader info)) ?ws)
      = (v1, r, h)" by (cases "vk_create v (Vk_descriptor_set (descriptor_pool gpu) (descriptor_set_layout (di_shader info)) ?ws)")
  have "vk_owns (vk_objects v) v1 (handles [h])" using vk_owns_create [OF own(2) c] by simp
  note L = leak_free_release [OF a(2) this, of gpu_descriptor_destroy "\<lparr>gd_self = p, gd_set = h\<rparr>"]
  show ?thesis using a(1) c L by (cases "r = 0") (simp_all add: gpu_descriptor_create_def gpu_descriptor_destroy_def)
qed

lemma pipeline_leak_free:
  assumes "mem_ok m" "vk_ok v" and room: "sizeof_gpu_pipeline_t \<le> os_avail m"
  shows "leak_free (m, v) gpu_pipeline_destroy (gpu_pipeline_create gpu (m, v) info)"
proof -
  note own = world_owns_start [OF assms(1,2)]
  obtain m1 p where a: "alloc_struct m sizeof_gpu_pipeline_t = Inr (m1, p)" "mem_owns (block_size m) m1 {#p#}"
    using alloc_struct_ok [OF own(1) _ room] by (auto simp: sizeof_gpu_pipeline_t_def)
  let ?o1 = "Vk_pipeline_layout (descriptor_set_layout (pi_shader info))"
  obtain v1 r1 l where c1: "vk_create v ?o1 = (v1, r1, l)" by (cases "vk_create v ?o1")
  have o1: "vk_owns (vk_objects v) v1 (handles [l])" using vk_owns_create [OF own(2) c1] by simp
  let ?o2 = "Vk_pipeline l (render_pass gpu) (vertex_module (pi_shader info)) (fragment_module (pi_shader info))
    (vertex_input gpu (pi_mesh_layout info)) engine_pipeline_state"
  obtain v2 r2 h where c2: "vk_create v1 ?o2 = (v2, r2, h)" by (cases "vk_create v1 ?o2")
  have o2: "vk_owns (vk_objects v) v2 (handles [l, h])"
    using vk_owns_create [OF o1 c2] by (simp add: handles_pair add.commute)
  have o1': "vk_owns (vk_objects v) v1 (handles [l, None])" using o1 by (cases l) simp_all
  note L1 = leak_free_release [OF a(2) o1', of gpu_pipeline_destroy "\<lparr>gp_self = p, pipeline_layout = l, pipe = None\<rparr>"]
  note L2 = leak_free_release [OF a(2) o2, of gpu_pipeline_destroy "\<lparr>gp_self = p, pipeline_layout = l, pipe = h\<rparr>"]
  show ?thesis
    using a(1) c1 c2 L1 L2 by (cases "r1 = 0"; cases "r2 = 0") (simp_all add: gpu_pipeline_create_def gpu_pipeline_destroy_def)
qed

lemma handles_triple: "handles [a, b, c] = handles [a] + handles [b] + handles [c]"
  by (cases a; cases b; cases c) auto

lemma shader_leak_free:
  assumes "mem_ok m" "vk_ok v" and room: "sizeof_gpu_shader_t \<le> os_avail m"
  shows "leak_free (m, v) gpu_shader_destroy (gpu_shader_create gpu (m, v) info)"
proof -
  note own = world_owns_start [OF assms(1,2)]
  obtain m1 p where a: "alloc_struct m sizeof_gpu_shader_t = Inr (m1, p)" "mem_owns (block_size m) m1 {#p#}"
    using alloc_struct_ok [OF own(1) _ room] by (auto simp: sizeof_gpu_shader_t_def)
  obtain v1 r1 x where c1: "vk_create v (Vk_shader_module (si_vertex_shader info)) = (v1, r1, x)"
    by (cases "vk_create v (Vk_shader_module (si_vertex_shader info))")
  have o1: "vk_owns (vk_objects v) v1 (handles [x, None, None])"
    using vk_owns_create [OF own(2) c1] by (simp add: handles_triple)
  obtain v2 r2 y where c2: "vk_create v1 (Vk_shader_module (si_fragment_shader info)) = (v2, r2, y)"
    by (cases "vk_create v1 (Vk_shader_module (si_fragment_shader info))")
  have o2: "vk_owns (vk_objects v) v2 (handles [x, y, None])"
    using vk_owns_create [OF o1 c2] by (simp add: handles_triple ac_simps)
  obtain v3 r3 z where c3: "vk_create v2 (Vk_descriptor_set_layout (si_uniform_buffer_count info)) = (v3, r3, z)"
    by (cases "vk_create v2 (Vk_descriptor_set_layout (si_uniform_buffer_count info))")
  have o3: "vk_owns (vk_objects v) v3 (handles [x, y, z])"
    using vk_owns_create [OF o2 c3] by (simp add: handles_triple ac_simps)
  let ?x = "\<lambda>b c. \<lparr>gs_self = p, vertex_module = x, fragment_module = b, descriptor_set_layout = c\<rparr>"
  note L1 = leak_free_release [OF a(2) o1, of gpu_shader_destroy "?x None None"]
  note L2 = leak_free_release [OF a(2) o2, of gpu_shader_destroy "?x y None"]
  note L3 = leak_free_release [OF a(2) o3, of gpu_shader_destroy "?x y z"]
  show ?thesis
    using a(1) c1 c2 c3 L1 L2 L3
    by (cases "r1 = 0"; cases "r2 = 0"; cases "r3 = 0") (simp_all add: gpu_shader_create_def gpu_shader_destroy_def)
qed

lemma mesh_leak_free:
  assumes "mem_ok m" "vk_ok v" and room: "sizeof_gpu_mesh_t \<le> os_avail m" and req: "requirements_ok v"
    and sizes: "mesh_index_size (mesh_layouts gpu (mi_layout info)) \<noteq> 0" "mesh_vertex_size (mesh_layouts gpu (mi_layout info)) \<noteq> 0"
  shows "leak_free (m, v) gpu_mesh_destroy (gpu_mesh_create gpu (m, v) info)"
proof -
  note own = world_owns_start [OF assms(1,2)]
  obtain m1 p where a: "alloc_struct m sizeof_gpu_mesh_t = Inr (m1, p)" "mem_owns (block_size m) m1 {#p#}"
    using alloc_struct_ok [OF own(1) _ room] by (auto simp: sizeof_gpu_mesh_t_def)
  obtain ic where ic: "int_div (word_of_nat (length (mi_index_data info))) (mesh_index_size (mesh_layouts gpu (mi_layout info))) = Inr ic"
    using sizes(1) by (simp add: int_div_def)
  obtain vc where vc: "int_div (word_of_nat (length (mi_vertex_data info))) (mesh_vertex_size (mesh_layouts gpu (mi_layout info))) = Inr vc"
    using sizes(2) by (simp add: int_div_def)
  from create_filled_buffer_owns [OF own(2) req, of gpu "mi_vertex_data info" Vertex_buffer] obtain v1 r1 vb vm where
    c1: "create_filled_buffer gpu v (mi_vertex_data info) Vertex_buffer = Inr (v1, r1, vb, vm)"
    and o1: "vk_owns (vk_objects v) v1 (handles [vb, vm])" and q1: "requirements_ok v1" by auto
  from create_filled_buffer_owns [OF o1 q1, of gpu "mi_index_data info" Index_buffer] obtain v2 r2 ib im where
    c2: "create_filled_buffer gpu v1 (mi_index_data info) Index_buffer = Inr (v2, r2, ib, im)"
    and o2: "vk_owns (vk_objects v) v2 (handles [ib, im, vb, vm])" by (auto simp flip: handles_append)
  have o1': "vk_owns (vk_objects v) v1 (handles [None, None, vb, vm])" using o1 by simp
  let ?x = "\<lambda>b c. \<lparr>gm_self = p, index_buffer = b, index_memory = c, index_count = ic,
                   vertex_buffer = vb, vertex_memory = vm, vertex_count = vc\<rparr>"
  note L1 = leak_free_release [OF a(2) o1', of gpu_mesh_destroy "?x None None"]
  note L2 = leak_free_release [OF a(2) o2, of gpu_mesh_destroy "?x ib im"]
  show ?thesis
    using a(1) ic vc c1 c2 L1 L2
    by (cases "r1 = 0"; cases "r2 = 0") (simp_all add: gpu_mesh_create_def gpu_mesh_destroy_def)
qed

lemma uniform_buffer_leak_free:
  assumes "mem_ok m" "vk_ok v" and room: "sizeof_gpu_uniform_buffer_t \<le> os_avail m" and req: "requirements_ok v"
  shows "leak_free (m, v) gpu_uniform_buffer_destroy (gpu_uniform_buffer_create gpu (m, v) data)"
proof -
  note own = world_owns_start [OF assms(1,2)]
  obtain m1 p where a: "alloc_struct m sizeof_gpu_uniform_buffer_t = Inr (m1, p)" "mem_owns (block_size m) m1 {#p#}"
    using alloc_struct_ok [OF own(1) _ room] by (auto simp: sizeof_gpu_uniform_buffer_t_def)
  obtain v1 r1 b where c1: "vk_create v (Vk_buffer (length data) Uniform_buffer) = (v1, r1, b)"
    by (cases "vk_create v (Vk_buffer (length data) Uniform_buffer)")
  have o1: "vk_owns (vk_objects v) v1 (handles [b, None])" using vk_owns_create [OF own(2) c1] by (simp add: handles_pair)
  have q1: "requirements_ok v1" using vk_create_requirements [OF c1] req by (simp add: requirements_ok_def)
  obtain v2 r2 mm where c2: "allocate_memory gpu v1 (length data) memory_host_visible_coherent = (v2, r2, mm)"
    by (cases "allocate_memory gpu v1 (length data) memory_host_visible_coherent")
  have o2: "vk_owns (vk_objects v) v2 (handles [b, mm])"
    using vk_owns_allocate(1) [OF o1 c2] by (simp add: handles_pair ac_simps)
  obtain v3 r3 where c3: "vk_call v2 = (v3, r3)" by (cases "vk_call v2")
  have o3: "vk_owns (vk_objects v) v3 (handles [b, mm])" by (rule vk_owns_call [OF o2 c3])
  let ?x = "\<lambda>c n. \<lparr>gu_self = p, gu_buffer = b, gu_memory = c, gu_range = n\<rparr>"
  note L1 = leak_free_release [OF a(2) o1, of gpu_uniform_buffer_destroy "?x None 0"]
  note L2 = leak_free_release [OF a(2) o2, of gpu_uniform_buffer_destroy "?x mm 0"]
  note L3 = leak_free_release [OF a(2) o3, of gpu_uniform_buffer_destroy "?x mm 0"]
  show ?thesis
  proof (cases "r1 = 0 \<and> r2 = 0 \<and> r3 = 0")
    case False
    then show ?thesis using a(1) c1 c2 c3 L1 L2 L3
      by (cases "r1 = 0"; cases "r2 = 0") (simp_all add: gpu_uniform_buffer_create_def gpu_uniform_buffer_destroy_def)
  next
    case True
    then obtain k t bs where k: "mm = Some k" "vk_objects v2 k = Some (Vk_memory t bs)" "length data \<le> length bs"
      using allocate_memory_live [OF c2 _ q1] by blast
    have "vk_objects v3 k = Some (Vk_memory t bs)" using c3 k(2) by (auto simp: vk_call_def)
    moreover have "k \<in># handles [b, mm]" by (cases b) (simp_all add: k(1))
    ultimately obtain v4 r4 where c4: "vk_fill v3 mm data = Inr (v4, r4)" and o4: "vk_owns (vk_objects v) v4 (handles [b, mm])"
      using vk_owns_fill [OF o3 _ _ k(3)] k(1) by blast
    note L4 = leak_free_release [OF a(2) o4, of gpu_uniform_buffer_destroy "?x mm (length data)"]
    show ?thesis using True a(1) c1 c2 c3 c4 L4
      by (simp add: gpu_uniform_buffer_create_def gpu_uniform_buffer_destroy_def gpu_uniform_buffer_update_def)
  qed
qed

text \<open>
  C29.  Resources are not leaked: whichever of the driver's calls fails, each of the five creations
  (descriptor, mesh, pipeline, shader, uniform buffer) returns, and a failed one leaves the same heap
  blocks and the same live objects of the driver as before, as does a successful one followed by
  the destruction of what it made; no null or dead handle is destroyed on the way.
\<close>

theorem gpu_resources_do_not_leak:
  assumes "mem_ok m" and "vk_ok v" and "requirements_ok v" and "48 \<le> os_avail m"
    and "mesh_index_size (mesh_layouts gpu (mi_layout mi)) \<noteq> 0" and "mesh_vertex_size (mesh_layouts gpu (mi_layout mi)) \<noteq> 0"
  shows "leak_free (m, v) gpu_mesh_destroy (gpu_mesh_create gpu (m, v) mi) \<and>
    leak_free (m, v) gpu_shader_destroy (gpu_shader_create gpu (m, v) si) \<and>
    leak_free (m, v) gpu_pipeline_destroy (gpu_pipeline_create gpu (m, v) pi) \<and>
    leak_free (m, v) gpu_descriptor_destroy (gpu_descriptor_create gpu (m, v) di) \<and>
    leak_free (m, v) gpu_uniform_buffer_destroy (gpu_uniform_buffer_create gpu (m, v) data)"
  using assms
  by (simp add: mesh_leak_free shader_leak_free pipeline_leak_free descriptor_leak_free uniform_buffer_leak_free
      sizeof_gpu_mesh_t_def sizeof_gpu_shader_t_def sizeof_gpu_pipeline_t_def sizeof_gpu_descriptor_t_def
      sizeof_gpu_uniform_buffer_t_def)

text \<open>A device whose third call fails.\<close>

definition failing_vk :: vk where
  "failing_vk = \<lparr>vk_objects = (\<lambda>_. None), vk_next = 0, vk_calls = 0, vk_results = (\<lambda>n. if n = 2 then -2 else 0),
     vk_devices = 1, vk_families = [(1, True)], vk_memory_types = [1, 6], vk_extent = (640, 480), vk_min_images = 2,
     vk_images = [0, 1, 2], vk_requirements = (\<lambda>n. (n + 64, 3))\<rparr>"

lemma gpu_resources_do_not_leak_witness:
  "leak_free (mem_init 1000 0, failing_vk) gpu_mesh_destroy (gpu_mesh_create
     (gpu_zero (9, 0)\<lparr>mesh_layouts := (\<lambda>_. \<lparr>ml_binding = None, ml_attributes = None, ml_offsets = [0],
        mesh_vertex_size = 12, mesh_index_size = 2\<rparr>)\<rparr>) (mem_init 1000 0, failing_vk)
     \<lparr>mi_layout = k_gpu_mesh_layout_tri_p444_i2, mi_vertex_data = replicate 36 1, mi_index_data = [0, 0, 1, 0, 2, 0]\<rparr>)"
  by (rule gpu_resources_do_not_leak [THEN conjunct1])
    (simp_all add: failing_vk_def vk_ok_def requirements_ok_def gpu_zero_def)

end
