(* ===== verification/Gpu_Device.thy ===== *)
theory Gpu_Device
  imports Gpu
begin

text \<open>
  The device of the Vulkan wrapper (\<^verbatim>\<open>gpu.c\<close>): \<open>gpu_create\<close> in the stages that its comments name,
  \<open>gpu_destroy\<close>, the mesh layouts.  A stage takes the heap, the driver and the structure
  to their new values and says whether it succeeded; a failure of any stage goes to \<open>gpu_destroy\<close>.
\<close>

section \<open>Stages\<close>

type_synonym gpu_creation = "mem \<times> vk \<times> gpu_t"
type_synonym gpu_stage = "gpu_creation \<Rightarrow> (gpu_creation \<times> bool) outcome"

definition then_stage :: "gpu_stage \<Rightarrow> gpu_stage \<Rightarrow> gpu_stage" where
  "then_stage f g s = bind_ok (f s) (\<lambda>(s', okay). if okay then g s' else Inr (s', False))"

fun for_stage :: "(nat \<Rightarrow> gpu_stage) \<Rightarrow> nat list \<Rightarrow> gpu_stage" where
  "for_stage f [] s = Inr (s, True)"
| "for_stage f (i # is) s = then_stage (f i) (for_stage f is) s"

definition call_stage :: gpu_stage where
  "call_stage s = (case s of (m, v, g) \<Rightarrow> let (v1, r) = vk_call v in Inr ((m, v1, g), r = 0))"

definition set_stage :: "(vk \<Rightarrow> gpu_t \<Rightarrow> gpu_t) \<Rightarrow> gpu_stage" where
  "set_stage f s = (case s of (m, v, g) \<Rightarrow> Inr ((m, v, f v g), True))"

definition test_stage :: "(vk \<Rightarrow> bool) \<Rightarrow> gpu_stage" where
  "test_stage p s = (case s of (m, v, g) \<Rightarrow> Inr ((m, v, g), p v))"

text \<open>Creating an object into a field of the structure.\<close>

definition create_stage :: "(gpu_t \<Rightarrow> vk_object) \<Rightarrow> (handle option \<Rightarrow> gpu_t \<Rightarrow> gpu_t) \<Rightarrow> gpu_stage" where
  "create_stage ob put s =
     (case s of (m, v, g) \<Rightarrow> let (v1, r, h) = vk_create v (ob g) in Inr ((m, v1, put h g), r = 0))"

section \<open>Creation\<close>

definition sizeof_gpu_t :: nat where "sizeof_gpu_t = 848"
definition sizeof_gpu_frame_t :: nat where "sizeof_gpu_frame_t = 40"
definition sizeof_gpu_cmd_buffer_t :: nat where "sizeof_gpu_cmd_buffer_t = 24"

definition create_instance :: gpu_stage where
  "create_instance = create_stage (\<lambda>_. Vk_instance) (\<lambda>h g. g\<lparr>gpu_instance := h\<rparr>)"

text \<open>The devices are counted, then listed; the first is used.\<close>

definition find_physical_device :: gpu_stage where
  "find_physical_device =
     then_stage call_stage (then_stage (test_stage (\<lambda>v. vk_devices v \<noteq> 0))
       (then_stage call_stage (set_stage (\<lambda>v g. g\<lparr>physical_device := Some 0\<rparr>))))"

text \<open>The first family with queues that can draw: its index and number of queues, or twice \<^verbatim>\<open>UINT32_MAX\<close>.\<close>

definition find_queue_family :: "vk \<Rightarrow> u32 \<times> u32" where
  "find_queue_family v =
     (case find_from (\<lambda>i. fst (vk_families v ! i) > 0 \<and> snd (vk_families v ! i)) 0 (length (vk_families v)) of
        None \<Rightarrow> (- 1, - 1) | Some i \<Rightarrow> (word_of_nat i, fst (vk_families v ! i)))"

definition create_device :: gpu_stage where
  "create_device s =
     (case s of (m, v, g) \<Rightarrow>
      then_stage (test_stage (\<lambda>v. snd (find_queue_family v) \<noteq> - 1))
        (then_stage (create_stage (\<lambda>_. Vk_device (fst (find_queue_family v))) (\<lambda>h g. g\<lparr>logical_device := h\<rparr>))
          (set_stage (\<lambda>v g. g\<lparr>memory_types := vk_memory_types v, gpu_queue := True\<rparr>))) s)"

definition create_surface :: "nat \<Rightarrow> gpu_stage" where
  "create_surface hwnd =
     then_stage (create_stage (\<lambda>_. Vk_surface hwnd) (\<lambda>h g. g\<lparr>surface := h\<rparr>))
       (then_stage call_stage
         (set_stage (\<lambda>v g. g\<lparr>frame_width := fst (vk_extent v), frame_height := snd (vk_extent v)\<rparr>)))"

definition allocate_frames :: gpu_stage where
  "allocate_frames s =
     (case s of (m, v, g) \<Rightarrow>
      case heap_alloc m (sizeof_gpu_frame_t * frame_count g) 8 of (m1, p) \<Rightarrow>
        bind_ok (memset m1 p 0 (sizeof_gpu_frame_t * frame_count g)) (\<lambda>m2.
          Inr ((m2, v, g\<lparr>gpu_frames := map_option (\<lambda>q. (q, replicate (frame_count g)
            \<lparr>fr_image = 0, fr_view = None, fr_frame_buffer = None, fr_fence = None, fr_cmd_buffer = None\<rparr>)) p\<rparr>), True)))"

text \<open>One image more than the least, and three at least; the images are counted, then listed.\<close>

definition create_swap_chain :: gpu_stage where
  "create_swap_chain s =
     (case s of (m, v, g) \<Rightarrow>
      then_stage (create_stage (\<lambda>g. Vk_swapchain (the (surface g)) (max (vk_min_images v + 1) 3) (fst (vk_extent v)) (snd (vk_extent v)))
          (\<lambda>h g. g\<lparr>swap_chain := h\<rparr>))
        (then_stage call_stage
          (then_stage (set_stage (\<lambda>v g. g\<lparr>frame_count := length (vk_images v)\<rparr>))
            (then_stage allocate_frames call_stage))) s)"

definition frames_of :: "gpu_t \<Rightarrow> gpu_frame_t list" where
  "frames_of g = (case gpu_frames g of None \<Rightarrow> [] | Some (p, fs) \<Rightarrow> fs)"

definition update_frame :: "gpu_t \<Rightarrow> nat \<Rightarrow> (gpu_frame_t \<Rightarrow> gpu_frame_t) \<Rightarrow> gpu_t" where
  "update_frame g i f = g\<lparr>gpu_frames := map_option (\<lambda>(p, fs). (p, fs[i := f (fs ! i)])) (gpu_frames g)\<rparr>"

definition create_view :: "nat \<Rightarrow> gpu_stage" where
  "create_view i =
     then_stage (set_stage (\<lambda>v g. update_frame g i (\<lambda>f. f\<lparr>fr_image := vk_images v ! i\<rparr>)))
       (create_stage (\<lambda>g. Vk_image_view (fr_image (frames_of g ! i))) (\<lambda>h g. update_frame g i (\<lambda>f. f\<lparr>fr_view := h\<rparr>)))"

text \<open>The depth image, its memory, their binding, and the view.\<close>

definition allocate_depth_memory :: gpu_stage where
  "allocate_depth_memory s =
     (case s of (m, v, g) \<Rightarrow>
      let (v1, r, h) = allocate_memory g v (unat (frame_width g) * unat (frame_height g) * 4) memory_device_local
      in Inr ((m, v1, g\<lparr>depth_stencil_memory := h\<rparr>), r = 0))"

definition create_depth_buffer :: gpu_stage where
  "create_depth_buffer =
     then_stage (create_stage (\<lambda>g. Vk_image (frame_width g) (frame_height g)) (\<lambda>h g. g\<lparr>depth_stencil_image := h\<rparr>))
       (then_stage allocate_depth_memory
         (then_stage call_stage
           (create_stage (\<lambda>g. Vk_depth_view (depth_stencil_image g)) (\<lambda>h g. g\<lparr>depth_stencil_view := h\<rparr>))))"

text \<open>A colour attachment that is cleared and presented, a depth attachment that is cleared and dropped.\<close>

definition color_attachment :: attachment_description where
  "color_attachment = \<lparr>at_format = Format_b8g8r8a8_srgb, at_load_clear = True, at_store = True,
     at_initial = Layout_undefined, at_final = Layout_present_src\<rparr>"

definition depth_attachment :: attachment_description where
  "depth_attachment = \<lparr>at_format = Format_d32_sfloat, at_load_clear = True, at_store = False,
     at_initial = Layout_undefined, at_final = Layout_depth_stencil_attachment\<rparr>"

definition create_render_pass :: gpu_stage where
  "create_render_pass = create_stage (\<lambda>_. Vk_render_pass [color_attachment, depth_attachment]) (\<lambda>h g. g\<lparr>render_pass := h\<rparr>)"

definition create_framebuffer :: "nat \<Rightarrow> gpu_stage" where
  "create_framebuffer i =
     create_stage (\<lambda>g. Vk_framebuffer (render_pass g) [fr_view (frames_of g ! i), depth_stencil_view g] (frame_width g) (frame_height g))
       (\<lambda>h g. update_frame g i (\<lambda>f. f\<lparr>fr_frame_buffer := h\<rparr>))"

definition create_semaphores :: gpu_stage where
  "create_semaphores =
     then_stage (create_stage (\<lambda>_. Vk_semaphore) (\<lambda>h g. g\<lparr>present_complete_sema := h\<rparr>))
       (create_stage (\<lambda>_. Vk_semaphore) (\<lambda>h g. g\<lparr>render_complete_sema := h\<rparr>))"

definition create_descriptor_pool :: gpu_stage where
  "create_descriptor_pool = create_stage (\<lambda>_. Vk_descriptor_pool 512 512) (\<lambda>h g. g\<lparr>descriptor_pool := h\<rparr>)"

definition create_cmd_pool :: gpu_stage where
  "create_cmd_pool s =
     (case s of (m, v, g) \<Rightarrow>
      create_stage (\<lambda>_. Vk_command_pool (fst (find_queue_family v))) (\<lambda>h g. g\<lparr>cmd_pool := h\<rparr>) s)"

text \<open>A command buffer, in a structure of its own, and a signalled fence.\<close>

definition allocate_cmd_buffer :: "nat \<Rightarrow> gpu_stage" where
  "allocate_cmd_buffer i s =
     (case s of (m, v, g) \<Rightarrow>
      bind_ok (alloc_struct m sizeof_gpu_cmd_buffer_t) (\<lambda>(m1, p).
        Inr ((m1, v, update_frame g i (\<lambda>f. f\<lparr>fr_cmd_buffer := Some \<lparr>cb_self = p, cb_buffer = None,
          cb_pipeline_layout = None, cb_index_count = 0, cb_vertex_count = 0\<rparr>\<rparr>)), True)))"

definition create_frame_commands :: "nat \<Rightarrow> gpu_stage" where
  "create_frame_commands i =
     then_stage (allocate_cmd_buffer i)
       (then_stage (create_stage (\<lambda>g. Vk_command_buffer (cmd_pool g) Cmd_initial [])
           (\<lambda>h g. update_frame g i (\<lambda>f. f\<lparr>fr_cmd_buffer := map_option (\<lambda>c. c\<lparr>cb_buffer := h\<rparr>) (fr_cmd_buffer f)\<rparr>)))
         (create_stage (\<lambda>_. Vk_fence True) (\<lambda>h g. update_frame g i (\<lambda>f. f\<lparr>fr_fence := h\<rparr>))))"

text \<open>A layout: one binding with its stride, and an attribute of three floats per offset.  The two
  descriptions are allocated and assigned as a whole.\<close>

definition sizeof_binding :: nat where "sizeof_binding = 12"
definition sizeof_attribute :: nat where "sizeof_attribute = 16"

definition create_mesh_layout :: "gpu_mesh_layout_t \<Rightarrow> nat list \<Rightarrow> i32 \<Rightarrow> gpu_stage" where
  "create_mesh_layout l offsets stride s =
     (case s of (m, v, g) \<Rightarrow>
      bind_ok (alloc_struct m sizeof_binding) (\<lambda>(m1, b).
      bind_ok (alloc_struct m1 (sizeof_attribute * length offsets)) (\<lambda>(m2, a).
        Inr ((m2, v, g\<lparr>mesh_layouts := (mesh_layouts g)(l := \<lparr>ml_binding = Some b, ml_attributes = Some a,
          ml_offsets = offsets, mesh_vertex_size = stride, mesh_index_size = 2\<rparr>)\<rparr>), True))))"

definition create_mesh_layouts :: gpu_stage where
  "create_mesh_layouts =
     then_stage (create_mesh_layout k_gpu_mesh_layout_tri_p444_i2 [0] 12)
       (create_mesh_layout k_gpu_mesh_layout_tri_p444_c444_i2 [0, 12] 24)"

definition for_frames :: "(nat \<Rightarrow> gpu_stage) \<Rightarrow> gpu_stage" where
  "for_frames f s = (case s of (m, v, g) \<Rightarrow> for_stage f [0..<frame_count g] s)"

definition gpu_stages :: "nat \<Rightarrow> gpu_stage" where
  "gpu_stages hwnd =
     then_stage create_instance (then_stage find_physical_device (then_stage create_device
    (then_stage (create_surface hwnd) (then_stage create_swap_chain (then_stage (for_frames create_view)
    (then_stage create_depth_buffer (then_stage create_render_pass (then_stage (for_frames create_framebuffer)
    (then_stage create_semaphores (then_stage create_descriptor_pool (then_stage create_cmd_pool
    (then_stage (for_frames create_frame_commands) create_mesh_layouts))))))))))))"

section \<open>Destruction\<close>

text \<open>\<^verbatim>\<open>vkQueueWaitIdle\<close>: all submitted work is done, so every fence in use is signalled.\<close>

definition pends_on :: "vk_object option \<Rightarrow> handle \<Rightarrow> bool" where
  "pends_on ob f = (case ob of Some (Vk_command_buffer p (Cmd_pending k) cs) \<Rightarrow> k = f | _ \<Rightarrow> False)"

definition queue_wait_idle :: "vk \<Rightarrow> vk" where
  "queue_wait_idle v = v\<lparr>vk_objects := (\<lambda>h. case vk_objects v h of
       Some (Vk_command_buffer p (Cmd_pending f) cs) \<Rightarrow> Some (Vk_command_buffer p Cmd_executable cs)
     | Some (Vk_fence b) \<Rightarrow> Some (Vk_fence (b \<or> list_ex (\<lambda>c. pends_on (vk_objects v c) h) [0..<vk_next v]))
     | ob \<Rightarrow> ob)\<rparr>"

definition gpu_wait_until_idle :: "gpu_world \<Rightarrow> gpu_t \<Rightarrow> gpu_world" where
  "gpu_wait_until_idle w g = (fst w, queue_wait_idle (snd w))"

definition gpu_get_frame_count :: "gpu_t \<Rightarrow> i32" where
  "gpu_get_frame_count g = word_of_nat (frame_count g)"

fun destroy_mesh_layouts :: "mem \<Rightarrow> gpu_t \<Rightarrow> gpu_mesh_layout_t list \<Rightarrow> mem outcome" where
  "destroy_mesh_layouts m g [] = Inr m"
| "destroy_mesh_layouts m g (l # ls) =
     (case ml_binding (mesh_layouts g l) of
        None \<Rightarrow> destroy_mesh_layouts m g ls
      | Some b \<Rightarrow> bind_ok (heap_free m (Some b)) (\<lambda>m1.
                  bind_ok (heap_free m1 (ml_attributes (mesh_layouts g l))) (\<lambda>m2. destroy_mesh_layouts m2 g ls)))"

definition destroy_frame :: "gpu_world \<Rightarrow> gpu_frame_t \<Rightarrow> gpu_world outcome" where
  "destroy_frame w f =
     (case w of (m, v) \<Rightarrow>
      bind_ok (vk_destroy v (fr_fence f)) (\<lambda>v1.
      bind_ok (case fr_cmd_buffer f of None \<Rightarrow> Inr (m, v1)
               | Some c \<Rightarrow> bind_ok (vk_destroy v1 (cb_buffer c)) (\<lambda>v2. bind_ok (heap_free m (Some (cb_self c))) (\<lambda>m2. Inr (m2, v2)))) (\<lambda>(m2, v2).
      bind_ok (destroy_handles v2 [fr_frame_buffer f, fr_view f]) (\<lambda>v3. Inr (m2, v3)))))"

fun destroy_frames :: "gpu_world \<Rightarrow> gpu_frame_t list \<Rightarrow> gpu_world outcome" where
  "destroy_frames w [] = Inr w"
| "destroy_frames w (f # fs) = bind_ok (destroy_frame w f) (\<lambda>w'. destroy_frames w' fs)"

definition destroy_all_frames :: "gpu_world \<Rightarrow> gpu_t \<Rightarrow> gpu_world outcome" where
  "destroy_all_frames w g =
     (case gpu_frames g of None \<Rightarrow> Inr w
      | Some (p, fs) \<Rightarrow> bind_ok (destroy_frames w (take (frame_count g) fs)) (\<lambda>(m, v).
          bind_ok (heap_free m (Some p)) (\<lambda>m'. Inr (m', v))))"

definition gpu_destroy :: "gpu_world \<Rightarrow> gpu_t option \<Rightarrow> gpu_world outcome" where
  "gpu_destroy w gpu =
     (case gpu of None \<Rightarrow> Inr w
      | Some g \<Rightarrow>
          let (m, v) = (if gpu_queue g then gpu_wait_until_idle w g else w)
          in bind_ok (destroy_mesh_layouts m g [k_gpu_mesh_layout_tri_p444_i2, k_gpu_mesh_layout_tri_p444_c444_i2]) (\<lambda>m1.
             bind_ok (destroy_handles v [render_complete_sema g, present_complete_sema g, depth_stencil_view g,
                        depth_stencil_image g, depth_stencil_memory g]) (\<lambda>v1.
             bind_ok (destroy_all_frames (m1, v1) g) (\<lambda>(m2, v2).
             bind_ok (destroy_handles v2 [descriptor_pool g, cmd_pool g, render_pass g, swap_chain g, surface g,
                        logical_device g, gpu_instance g]) (\<lambda>v3.
             bind_ok (heap_free m2 (Some (gpu_self g))) (\<lambda>m3. Inr (m3, v3)))))))"

definition gpu_create :: "gpu_world \<Rightarrow> nat \<Rightarrow> (gpu_world \<times> gpu_t option) outcome" where
  "gpu_create w hwnd =
     (case w of (m, v) \<Rightarrow>
      bind_ok (alloc_struct m sizeof_gpu_t) (\<lambda>(m1, p).
      bind_ok (gpu_stages hwnd (m1, v, gpu_zero p)) (\<lambda>((m2, v2, g), okay).
      if okay then Inr ((m2, v2), Some g)
      else bind_ok (gpu_destroy (m2, v2) (Some g)) (\<lambda>w'. Inr (w', None)))))"

section \<open>What the structure owns\<close>

text \<open>The objects in the order in which they are created, and those of the frames.\<close>

definition gpu_fields :: "gpu_t \<Rightarrow> handle option list" where
  "gpu_fields g = [gpu_instance g, logical_device g, surface g, swap_chain g, depth_stencil_image g, depth_stencil_memory g,
     depth_stencil_view g, render_pass g, present_complete_sema g, render_complete_sema g, descriptor_pool g, cmd_pool g]"

definition frame_handles :: "gpu_frame_t \<Rightarrow> handle multiset" where
  "frame_handles f = handles [fr_fence f, Option.bind (fr_cmd_buffer f) cb_buffer, fr_frame_buffer f, fr_view f]"

definition frame_blocks :: "gpu_frame_t \<Rightarrow> ptr multiset" where
  "frame_blocks f = handles [map_option cb_self (fr_cmd_buffer f)]"

definition gpu_handles :: "gpu_t \<Rightarrow> handle multiset" where
  "gpu_handles g = handles (gpu_fields g) + sum_list (map frame_handles (frames_of g))"

definition layout_blocks :: "mesh_layout_info \<Rightarrow> ptr multiset" where
  "layout_blocks l = (if ml_binding l = None then {#} else handles [ml_binding l, ml_attributes l])"

definition gpu_blocks :: "gpu_t \<Rightarrow> ptr multiset" where
  "gpu_blocks g = add_mset (gpu_self g) (layout_blocks (mesh_layouts g k_gpu_mesh_layout_tri_p444_i2) +
     layout_blocks (mesh_layouts g k_gpu_mesh_layout_tri_p444_c444_i2) + handles [map_option fst (gpu_frames g)] +
     sum_list (map frame_blocks (frames_of g)))"

text \<open>Work that is pending is that of the structure's own command buffers and fences.\<close>

definition local_work :: "vk \<Rightarrow> handle multiset \<Rightarrow> bool" where
  "local_work v M \<longleftrightarrow> (\<forall>c f. pends_on (vk_objects v c) f \<longrightarrow> c \<in># M \<and> f \<in># M)"

definition gpu_owned :: "(ptr \<Rightarrow> nat option) \<Rightarrow> (handle \<Rightarrow> vk_object option) \<Rightarrow> gpu_creation \<Rightarrow> bool" where
  "gpu_owned bm bv s = (case s of (m, v, g) \<Rightarrow>
     mem_owns bm m (gpu_blocks g) \<and> vk_owns bv v (gpu_handles g) \<and> local_work v (gpu_handles g) \<and>
     (gpu_frames g = None \<or> frame_count g = length (frames_of g)))"

subsection \<open>Destruction gives everything back\<close>

lemma queue_wait_idle_objects: "vk_objects v h = Some ob \<Longrightarrow> \<exists>ob'. vk_objects (queue_wait_idle v) h = Some ob'"
  by (auto simp: queue_wait_idle_def split: vk_object.split cmd_state.split)

lemma queue_wait_idle_None: "vk_objects v h = None \<Longrightarrow> vk_objects (queue_wait_idle v) h = None"
  by (simp add: queue_wait_idle_def)

lemma queue_wait_idle_outside:
  assumes "local_work v M" and "h \<notin># M"
  shows "vk_objects (queue_wait_idle v) h = vk_objects v h"
proof -
  have c: "vk_objects v h \<noteq> Some (Vk_command_buffer p (Cmd_pending f) cs)" for p f cs
    using assms by (auto simp: local_work_def pends_on_def dest: spec [of _ h])
  have f: "\<not> list_ex (\<lambda>c. pends_on (vk_objects v c) h) [0..<vk_next v]"
    using assms by (auto simp: local_work_def list_ex_iff)
  show ?thesis
    using c unfolding queue_wait_idle_def by (auto simp: f split: option.split vk_object.split cmd_state.split)
qed

lemma queue_wait_idle_owns:
  assumes own: "vk_owns base v M" and "local_work v M"
  shows "vk_owns base (queue_wait_idle v) M"
  unfolding vk_owns_def
proof
  show "vk_ok (queue_wait_idle v)"
    using own queue_wait_idle_None unfolding vk_owns_def vk_ok_def by (fastforce simp: queue_wait_idle_def)
  have o: "owns base (vk_objects v) M" using own by (simp add: vk_owns_def)
  show "owns base (vk_objects (queue_wait_idle v)) M"
    unfolding owns_def
  proof (intro conjI allI impI)
    fix x assume x: "x \<in># M"
    then show "count M x = 1" "base x = None" using o by (simp_all add: owns_def)
    from o x obtain ob where "vk_objects v x = Some ob" unfolding owns_def by blast
    then show "vk_objects (queue_wait_idle v) x \<noteq> None" using queue_wait_idle_objects by fastforce
  next
    fix x assume x: "x \<notin># M"
    then show "vk_objects (queue_wait_idle v) x = base x"
      using o queue_wait_idle_outside [OF assms(2) x] by (simp add: owns_def)
  qed
qed

lemma mem_owns_release:
  assumes "mem_owns base m (handles [p] + M)"
  shows "\<exists>m'. heap_free m p = Inr m' \<and> mem_owns base m' M"
  using assms mem_owns_free [of base m _ M] by (cases p) (auto simp: heap_free_def [of _ None])

lemma destroy_mesh_layouts_ok:
  "mem_owns base m (sum_list (map (\<lambda>l. layout_blocks (mesh_layouts g l)) ls) + M) \<Longrightarrow>
   \<exists>m'. destroy_mesh_layouts m g ls = Inr m' \<and> mem_owns base m' M"
proof (induction ls arbitrary: m)
  case (Cons l ls)
  let ?R = "sum_list (map (\<lambda>l. layout_blocks (mesh_layouts g l)) ls) + M"
  show ?case
  proof (cases "ml_binding (mesh_layouts g l)")
    case None
    then show ?thesis using Cons by (simp add: layout_blocks_def)
  next
    case (Some b)
    with Cons.prems have "mem_owns base m (handles [Some b] + (handles [ml_attributes (mesh_layouts g l)] + ?R))"
      by (simp add: layout_blocks_def handles_pair ac_simps)
    from mem_owns_release [OF this] obtain m1 where f: "heap_free m (Some b) = Inr m1"
      and "mem_owns base m1 (handles [ml_attributes (mesh_layouts g l)] + ?R)" by blast
    from mem_owns_release [OF this(2)] obtain m2 where f2: "heap_free m1 (ml_attributes (mesh_layouts g l)) = Inr m2"
      and "mem_owns base m2 ?R" by blast
    from Cons.IH [OF this(2)] show ?thesis using Some f f2 by simp
  qed
qed simp

lemma destroy_frame_ok:
  assumes "mem_owns bm m (frame_blocks f + B)" and "vk_owns bv v (frame_handles f + M)"
  shows "\<exists>m' v'. destroy_frame (m, v) f = Inr (m', v') \<and> mem_owns bm m' B \<and> vk_owns bv v' M"
proof -
  let ?c = "Option.bind (fr_cmd_buffer f) cb_buffer"
  have "vk_owns bv v (handles [fr_fence f] + (handles [?c] + (handles [fr_frame_buffer f, fr_view f] + M)))"
    using assms(2) by (simp add: frame_handles_def handles_Cons [of _ "_ # _"] ac_simps)
  from vk_owns_destroy [OF this] obtain v1 where
    d1: "vk_destroy v (fr_fence f) = Inr v1" and o1: "vk_owns bv v1 (handles [?c] + (handles [fr_frame_buffer f, fr_view f] + M))"
    by blast
  from vk_owns_destroy [OF o1] obtain v2 where
    d2: "vk_destroy v1 ?c = Inr v2" and o2: "vk_owns bv v2 (handles [fr_frame_buffer f, fr_view f] + M)" by blast
  from vk_owns_destroy_handles [OF o2] obtain v3 where
    d3: "destroy_handles v2 [fr_frame_buffer f, fr_view f] = Inr v3" and o3: "vk_owns bv v3 M" by blast
  show ?thesis
  proof (cases "fr_cmd_buffer f")
    case None
    with assms(1) d1 d2 d3 o3 show ?thesis by (simp add: destroy_frame_def frame_blocks_def vk_destroy_def [of v1])
  next
    case (Some c)
    with assms(1) have "mem_owns bm m (add_mset (cb_self c) B)" by (simp add: frame_blocks_def)
    from mem_owns_free [OF this] Some d1 d2 d3 o3 show ?thesis by (auto simp: destroy_frame_def)
  qed
qed

lemma destroy_frames_ok:
  "mem_owns bm m (sum_list (map frame_blocks fs) + B) \<Longrightarrow> vk_owns bv v (sum_list (map frame_handles fs) + M) \<Longrightarrow>
   \<exists>m' v'. destroy_frames (m, v) fs = Inr (m', v') \<and> mem_owns bm m' B \<and> vk_owns bv v' M"
proof (induction fs arbitrary: m v)
  case (Cons f fs)
  from Cons.prems destroy_frame_ok [of bm m f "sum_list (map frame_blocks fs) + B" bv v "sum_list (map frame_handles fs) + M"]
  obtain m1 v1 where "destroy_frame (m, v) f = Inr (m1, v1)" "mem_owns bm m1 (sum_list (map frame_blocks fs) + B)"
    "vk_owns bv v1 (sum_list (map frame_handles fs) + M)" by (auto simp: add.assoc)
  with Cons.IH [of m1 v1] show ?case by auto
qed simp

lemma destroy_all_frames_ok:
  assumes "mem_owns bm m (handles [map_option fst (gpu_frames g)] + sum_list (map frame_blocks (frames_of g)) + B)"
    and "vk_owns bv v (sum_list (map frame_handles (frames_of g)) + M)"
    and "gpu_frames g = None \<or> frame_count g = length (frames_of g)"
  shows "\<exists>m' v'. destroy_all_frames (m, v) g = Inr (m', v') \<and> mem_owns bm m' B \<and> vk_owns bv v' M"
proof (cases "gpu_frames g")
  case None
  with assms show ?thesis by (simp add: destroy_all_frames_def frames_of_def)
next
  case (Some pf)
  then obtain p fs where pf: "gpu_frames g = Some (p, fs)" by (cases pf) simp
  with assms(1) have "mem_owns bm m (sum_list (map frame_blocks fs) + add_mset p B)" by (simp add: frames_of_def ac_simps)
  from destroy_frames_ok [OF this, of bv v M] assms(2) pf obtain m1 v1 where
    "destroy_frames (m, v) fs = Inr (m1, v1)" "mem_owns bm m1 (add_mset p B)" "vk_owns bv v1 M"
    by (auto simp: frames_of_def)
  with mem_owns_free [of bm m1 p B] pf assms(3) show ?thesis by (auto simp: destroy_all_frames_def frames_of_def)
qed

lemma gpu_fields_split:
  "handles (gpu_fields g) = handles [render_complete_sema g, present_complete_sema g, depth_stencil_view g,
      depth_stencil_image g, depth_stencil_memory g] +
    handles [descriptor_pool g, cmd_pool g, render_pass g, swap_chain g, surface g, logical_device g, gpu_instance g]"
  by (simp add: gpu_fields_def handles_Cons [of _ "_ # _"] ac_simps)

lemma gpu_destroy_returns_all:
  assumes "gpu_owned bm bv (m, v, g)"
  shows "\<exists>m' v'. gpu_destroy (m, v) (Some g) = Inr (m', v') \<and> mem_owns bm m' {#} \<and> vk_owns bv v' {#}"
proof -
  let ?F = "sum_list (map frame_handles (frames_of g))" and ?B = "sum_list (map frame_blocks (frames_of g))"
  let ?h1 = "[render_complete_sema g, present_complete_sema g, depth_stencil_view g, depth_stencil_image g, depth_stencil_memory g]"
  let ?h2 = "[descriptor_pool g, cmd_pool g, render_pass g, swap_chain g, surface g, logical_device g, gpu_instance g]"
  let ?P = "handles [map_option fst (gpu_frames g)]" and ?self = "{#gpu_self g#}"
  let ?ls = "[k_gpu_mesh_layout_tri_p444_i2, k_gpu_mesh_layout_tri_p444_c444_i2]"
  have own: "mem_owns bm m (gpu_blocks g)" "vk_owns bv v (gpu_handles g)" "local_work v (gpu_handles g)"
    and fc: "gpu_frames g = None \<or> frame_count g = length (frames_of g)"
    using assms by (simp_all add: gpu_owned_def)
  define w where "w = (if gpu_queue g then queue_wait_idle v else v)"
  have o0: "vk_owns bv w (handles ?h1 + (?F + handles ?h2))"
    using own(2) queue_wait_idle_owns [OF own(2,3)] by (simp add: w_def gpu_handles_def gpu_fields_split ac_simps)
  have b0: "mem_owns bm m (sum_list (map (\<lambda>l. layout_blocks (mesh_layouts g l)) ?ls) + (?P + ?B + ?self))"
    using own(1) by (simp add: gpu_blocks_def ac_simps)
  from destroy_mesh_layouts_ok [OF b0] obtain m1 where
    d1: "destroy_mesh_layouts m g ?ls = Inr m1" and b1: "mem_owns bm m1 (?P + ?B + ?self)" by blast
  from vk_owns_destroy_handles [OF o0] obtain v1 where
    d2: "destroy_handles w ?h1 = Inr v1" and o1: "vk_owns bv v1 (?F + handles ?h2)" by blast
  from destroy_all_frames_ok [OF b1 o1 fc] obtain m2 v2 where
    d3: "destroy_all_frames (m1, v1) g = Inr (m2, v2)" and b2: "mem_owns bm m2 ?self" and o2: "vk_owns bv v2 (handles ?h2)" by blast
  from vk_owns_destroy_handles [of bv v2 ?h2 "{#}"] o2 obtain v3 where
    d4: "destroy_handles v2 ?h2 = Inr v3" and o3: "vk_owns bv v3 {#}" by auto
  from mem_owns_free [OF b2] obtain m3 where d5: "heap_free m2 (Some (gpu_self g)) = Inr m3" and b3: "mem_owns bm m3 {#}" by blast
  have "gpu_destroy (m, v) (Some g) = Inr (m3, v3)"
    unfolding gpu_destroy_def using d1 d2 d3 d4 d5
    by (cases "gpu_queue g") (simp_all add: w_def gpu_wait_until_idle_def del: destroy_handles.simps destroy_mesh_layouts.simps)
  with b3 o3 show ?thesis by blast
qed

subsection \<open>Stages keep the ownership\<close>

definition stage_ok :: "(ptr \<Rightarrow> nat option) \<Rightarrow> (handle \<Rightarrow> vk_object option) \<Rightarrow> (gpu_creation \<Rightarrow> bool) \<Rightarrow> gpu_stage \<Rightarrow>
    (gpu_creation \<Rightarrow> bool) \<Rightarrow> bool" where
  "stage_ok bm bv P f Q \<longleftrightarrow> (\<forall>s. gpu_owned bm bv s \<and> P s \<longrightarrow>
     (\<exists>s' okay. f s = Inr (s', okay) \<and> gpu_owned bm bv s' \<and> (okay \<longrightarrow> Q s')))"

lemma stage_okI:
  assumes "\<And>m v g. gpu_owned bm bv (m, v, g) \<Longrightarrow> P (m, v, g) \<Longrightarrow>
    \<exists>s' okay. f (m, v, g) = Inr (s', okay) \<and> gpu_owned bm bv s' \<and> (okay \<longrightarrow> Q s')"
  shows "stage_ok bm bv P f Q"
  unfolding stage_ok_def
proof (intro allI impI)
  fix s :: gpu_creation
  obtain m v g where "s = (m, v, g)" by (cases s)
  then show "gpu_owned bm bv s \<and> P s \<Longrightarrow> \<exists>s' okay. f s = Inr (s', okay) \<and> gpu_owned bm bv s' \<and> (okay \<longrightarrow> Q s')"
    using assms [of m v g] by blast
qed

lemma stage_okD:
  assumes "stage_ok bm bv P f Q" and "gpu_owned bm bv s" and "P s"
  obtains s' okay where "f s = Inr (s', okay)" and "gpu_owned bm bv s'" and "okay \<longrightarrow> Q s'"
  using assms unfolding stage_ok_def by blast

lemma stage_ok_then:
  assumes f: "stage_ok bm bv P f Q" and g: "stage_ok bm bv Q g R"
  shows "stage_ok bm bv P (then_stage f g) R"
  unfolding stage_ok_def
proof (intro allI impI)
  fix s :: gpu_creation
  assume "gpu_owned bm bv s \<and> P s"
  with f obtain s1 okay where 1: "f s = Inr (s1, okay)" "gpu_owned bm bv s1" "okay \<longrightarrow> Q s1" by (blast elim: stage_okD)
  show "\<exists>s' okay. then_stage f g s = Inr (s', okay) \<and> gpu_owned bm bv s' \<and> (okay \<longrightarrow> R s')"
  proof (cases okay)
    case True
    with 1 g obtain s2 k where "g s1 = Inr (s2, k)" "gpu_owned bm bv s2" "k \<longrightarrow> R s2" by (blast elim: stage_okD)
    then show ?thesis using 1 True by (intro exI [of _ s2] exI [of _ k]) (simp add: then_stage_def)
  next
    case False
    then show ?thesis using 1 by (intro exI [of _ s1] exI [of _ False]) (simp add: then_stage_def)
  qed
qed

lemma stage_ok_for:
  assumes "\<And>i. i < n \<Longrightarrow> stage_ok bm bv (Q i) (f i) (Q (Suc i))"
  shows "k \<le> n \<Longrightarrow> stage_ok bm bv (Q k) (for_stage f [k..<n]) (Q n)"
proof (induction "n - k" arbitrary: k)
  case 0
  then show ?case unfolding stage_ok_def by (auto intro!: exI [of _ True] simp del: split_paired_Ex)
next
  case (Suc d)
  then have k: "k < n" "[k..<n] = k # [Suc k..<n]" by (simp_all add: upt_conv_Cons)
  have "stage_ok bm bv (Q (Suc k)) (for_stage f [Suc k..<n]) (Q n)" using Suc.hyps(1) [of "Suc k"] Suc.hyps(2) k(1) by simp
  then have "stage_ok bm bv (Q k) (then_stage (f k) (for_stage f [Suc k..<n])) (Q n)"
    by (rule stage_ok_then [OF assms [OF k(1)]])
  then show ?case by (simp add: k(2) stage_ok_def)
qed

lemma local_work_mono: "local_work v M \<Longrightarrow> M \<subseteq># N \<Longrightarrow> local_work v N"
  unfolding local_work_def by (meson mset_subset_eqD)

lemma local_work_create:
  "local_work v M \<Longrightarrow> vk_create v ob = (v', r, h) \<Longrightarrow> (\<And>f. \<not> pends_on (Some ob) f) \<Longrightarrow> local_work v' (handles [h] + M)"
  by (auto simp: local_work_def vk_create_def vk_call_def split: if_splits)

text \<open>Each frame has its command buffer and its fence; the buffer is pending on that fence, or the fence
  is signalled and the buffer is free.\<close>

definition frame_cmd :: "gpu_frame_t \<Rightarrow> handle option" where
  "frame_cmd f = Option.bind (fr_cmd_buffer f) cb_buffer"

definition frame_state :: "vk \<Rightarrow> gpu_frame_t \<Rightarrow> bool" where
  "frame_state v f \<longleftrightarrow> (\<exists>k q p st cs b. frame_cmd f = Some k \<and> fr_fence f = Some q \<and>
     vk_objects v k = Some (Vk_command_buffer p st cs) \<and> vk_objects v q = Some (Vk_fence b) \<and>
     (st = Cmd_pending q \<and> \<not> b \<or> (st = Cmd_initial \<or> st = Cmd_executable) \<and> b))"

text \<open>
  How far the creation is: \<open>k\<close> objects of the structure are made; of the \<open>N\<close> frames, when they are
  allocated, \<open>a\<close> have a view, \<open>b\<close> a frame buffer and \<open>c\<close> their commands; no layout is made; and there
  is heap for the rest.
\<close>

definition frames_progress :: "nat \<Rightarrow> (nat \<times> nat \<times> nat) option \<Rightarrow> nat \<Rightarrow> gpu_t \<Rightarrow> bool" where
  "frames_progress N fr room g = (case fr of
     None \<Rightarrow> gpu_frames g = None \<and> 64 * N + 72 \<le> room
   | Some (a, b, c) \<Rightarrow> frame_count g = N \<and> length (frames_of g) = N \<and> 24 * (N - c) + 72 \<le> room \<and>
       (\<forall>j < N. (a \<le> j \<longrightarrow> fr_view (frames_of g ! j) = None) \<and> (b \<le> j \<longrightarrow> fr_frame_buffer (frames_of g ! j) = None) \<and>
          (c \<le> j \<longrightarrow> fr_fence (frames_of g ! j) = None \<and> fr_cmd_buffer (frames_of g ! j) = None)))"

definition progress :: "nat \<Rightarrow> nat \<Rightarrow> (nat \<times> nat \<times> nat) option \<Rightarrow> gpu_creation \<Rightarrow> bool" where
  "progress N k fr s = (case s of (m, v, g) \<Rightarrow>
     length (vk_images v) = N \<and> frame_index g = 0 \<and> (\<forall>j < 12. k \<le> j \<longrightarrow> gpu_fields g ! j = None) \<and>
     (\<forall>l. ml_binding (mesh_layouts g l) = None) \<and> frames_progress N fr (os_avail m) g)"

lemma vk_call_images [simp]: "vk_images (fst (vk_call v)) = vk_images v"
  by (simp add: vk_call_def)

lemma vk_create_images: "vk_create v ob = (v', r, h) \<Longrightarrow> vk_images v' = vk_images v"
  by (auto simp: vk_create_def vk_call_def split: if_splits)

text \<open>A structure to which one handle was added.\<close>

definition adds_handle :: "gpu_t \<Rightarrow> handle option \<Rightarrow> gpu_t \<Rightarrow> bool" where
  "adds_handle g h g' \<longleftrightarrow> gpu_handles g' = handles [h] + gpu_handles g \<and> gpu_blocks g' = gpu_blocks g \<and>
     (gpu_frames g' = None \<longleftrightarrow> gpu_frames g = None) \<and> frame_count g' = frame_count g \<and>
     length (frames_of g') = length (frames_of g)"

lemma gpu_owned_create:
  assumes "gpu_owned bm bv (m, v, g)" and "vk_create v ob = (v', r, h)" and "adds_handle g h g'"
    and "\<And>f. \<not> pends_on (Some ob) f"
  shows "gpu_owned bm bv (m, v', g')"
  using assms vk_owns_create [of bv v "gpu_handles g" ob v' r h] local_work_create [of v "gpu_handles g" ob v' r h]
  by (simp add: gpu_owned_def adds_handle_def)

lemma create_stage_ok:
  assumes "\<And>m v g h. P (m, v, g) \<Longrightarrow> adds_handle g h (put h g)"
    and "\<And>m v g v' h. P (m, v, g) \<Longrightarrow> vk_images v' = vk_images v \<Longrightarrow> Q (m, v', put h g)"
    and "\<And>g f. \<not> pends_on (Some (ob g)) f"
  shows "stage_ok bm bv P (create_stage ob put) Q"
proof (rule stage_okI)
  fix m v g
  assume own: "gpu_owned bm bv (m, v, g)" and P: "P (m, v, g)"
  obtain v1 r h where c: "vk_create v (ob g) = (v1, r, h)" by (cases "vk_create v (ob g)")
  have "gpu_owned bm bv (m, v1, put h g)" by (rule gpu_owned_create [OF own c assms(1) [OF P] assms(3)])
  moreover have "Q (m, v1, put h g)" using P vk_create_images [OF c] by (rule assms(2))
  ultimately show "\<exists>s' okay. create_stage ob put (m, v, g) = Inr (s', okay) \<and> gpu_owned bm bv s' \<and> (okay \<longrightarrow> Q s')"
    using c by (intro exI [of _ "(m, v1, put h g)"] exI [of _ "r = 0"]) (simp add: create_stage_def)
qed

text \<open>The same with what the creation leaves, for what the next stages rely on.\<close>

lemma create_stage_result:
  assumes "\<And>m v g h. P (m, v, g) \<Longrightarrow> adds_handle g h (put h g)"
    and "\<And>m v g v' k. P (m, v, g) \<Longrightarrow> vk_ok v \<Longrightarrow> vk_objects v' = (vk_objects v)(k \<mapsto> ob g) \<Longrightarrow> vk_objects v k = None \<Longrightarrow>
      vk_images v' = vk_images v \<Longrightarrow> Q (m, v', put (Some k) g)"
    and "\<And>g f. \<not> pends_on (Some (ob g)) f"
  shows "stage_ok bm bv P (create_stage ob put) Q"
proof (rule stage_okI)
  fix m :: mem and v :: vk and g
  assume own: "gpu_owned bm bv (m, v, g)" and P: "P (m, v, g)"
  obtain v1 r h where c: "vk_create v (ob g) = (v1, r, h)" by (cases "vk_create v (ob g)")
  have "gpu_owned bm bv (m, v1, put h g)" by (rule gpu_owned_create [OF own c assms(1) [OF P] assms(3)])
  moreover have "Q (m, v1, put h g)" if "r = 0"
  proof -
    have h: "h = Some (vk_next v)" "vk_objects v1 = (vk_objects v)(vk_next v \<mapsto> ob g)"
      using c that by (auto simp: vk_create_def vk_call_def split: if_splits)
    have ok: "vk_ok v" using own by (simp add: gpu_owned_def vk_owns_def)
    then have "vk_objects v (vk_next v) = None" by (auto simp: vk_ok_def)
    then show ?thesis unfolding h(1) using vk_create_images [OF c] by (intro assms(2) [OF P ok h(2)])
  qed
  ultimately show "\<exists>s' okay. create_stage ob put (m, v, g) = Inr (s', okay) \<and> gpu_owned bm bv s' \<and> (okay \<longrightarrow> Q s')"
    using c by (intro exI [of _ "(m, v1, put h g)"] exI [of _ "r = 0"]) (simp add: create_stage_def)
qed

lemma stage_ok_conj:
  assumes "stage_ok bm bv P f Q" and "stage_ok bm bv P' f Q'" and "\<And>s. R s \<Longrightarrow> P s \<and> P' s"
  shows "stage_ok bm bv R f (\<lambda>s. Q s \<and> Q' s)"
  unfolding stage_ok_def
proof (intro allI impI)
  fix s :: gpu_creation
  assume s: "gpu_owned bm bv s \<and> R s"
  from stage_okD [OF assms(1)] s assms(3) obtain s1 b1 where 1: "f s = Inr (s1, b1)" "gpu_owned bm bv s1" "b1 \<longrightarrow> Q s1" by blast
  from stage_okD [OF assms(2)] s assms(3) obtain s2 b2 where 2: "f s = Inr (s2, b2)" "b2 \<longrightarrow> Q' s2" by blast
  have "s2 = s1" "b2 = b1" using 1(1) 2(1) by simp_all
  with 1 2 show "\<exists>s' okay. f s = Inr (s', okay) \<and> gpu_owned bm bv s' \<and> (okay \<longrightarrow> Q s' \<and> Q' s')" by blast
qed

lemma length_gpu_fields [simp]: "length (gpu_fields g) = 12"
  by (simp add: gpu_fields_def)

definition same_frames :: "gpu_t \<Rightarrow> gpu_t \<Rightarrow> bool" where
  "same_frames g' g \<longleftrightarrow> gpu_frames g' = gpu_frames g \<and> frame_count g' = frame_count g \<and> mesh_layouts g' = mesh_layouts g \<and>
     gpu_self g' = gpu_self g \<and> frame_index g' = frame_index g"

lemma same_frames_simps:
  assumes "same_frames g' g"
  shows "frames_of g' = frames_of g" "gpu_blocks g' = gpu_blocks g" "frames_progress N fr n g' = frames_progress N fr n g"
proof -
  show f: "frames_of g' = frames_of g" using assms by (simp add: same_frames_def frames_of_def)
  show "gpu_blocks g' = gpu_blocks g" using assms by (simp add: same_frames_def gpu_blocks_def f)
  show "frames_progress N fr n g' = frames_progress N fr n g"
    using assms by (cases fr) (simp_all add: same_frames_def frames_progress_def f)
qed

lemma create_field_ok:
  assumes k: "k < 12" and put: "\<And>h g. gpu_fields (put h g) = (gpu_fields g)[k := h]" "\<And>h g. same_frames (put h g) g"
    and ob: "\<And>g f. \<not> pends_on (Some (ob g)) f"
  shows "stage_ok bm bv (progress N k fr) (create_stage ob put) (progress N (Suc k) fr)"
proof (rule create_stage_ok [OF _ _ ob])
  fix m v g h
  assume P: "progress N k fr (m, v, g)"
  then have "gpu_fields g ! k = None" using k by (simp add: progress_def)
  with handles_update [of k "gpu_fields g" h] k put(2) [of h g] show "adds_handle g h (put h g)"
    by (simp add: adds_handle_def gpu_handles_def put(1) same_frames_simps ac_simps) (simp add: same_frames_def)
next
  fix m :: mem and v v' :: vk and g h
  assume P: "progress N k fr (m, v, g)" and im: "vk_images v' = vk_images v"
  have "gpu_fields (put h g) ! j = None" if "j < 12" "Suc k \<le> j" for j
    using P that by (simp add: put(1) progress_def)
  with P im put(2) [of h g] show "progress N (Suc k) fr (m, v', put h g)"
    by (simp add: progress_def same_frames_simps) (simp add: same_frames_def)
qed

lemma call_stage_ok: "stage_ok bm bv (progress N k fr) call_stage (progress N k fr)"
proof (rule stage_okI)
  fix m v g
  assume own: "gpu_owned bm bv (m, v, g)" and P: "progress N k fr (m, v, g)"
  obtain v1 r where c: "vk_call v = (v1, r)" by (cases "vk_call v")
  from c have v1: "vk_objects v1 = vk_objects v" "vk_images v1 = vk_images v" by (auto simp: vk_call_def)
  have "gpu_owned bm bv (m, v1, g)" using own vk_owns_call [of bv v _ v1 r] c v1 by (simp add: gpu_owned_def local_work_def)
  moreover have "progress N k fr (m, v1, g)" using P v1 by (simp add: progress_def)
  ultimately show "\<exists>s' okay. call_stage (m, v, g) = Inr (s', okay) \<and> gpu_owned bm bv s' \<and> (okay \<longrightarrow> progress N k fr s')"
    using c by (intro exI [of _ "(m, v1, g)"] exI [of _ "r = 0"]) (simp add: call_stage_def)
qed

lemma set_stage_ok:
  assumes "\<And>m v g. P (m, v, g) \<Longrightarrow> gpu_owned bm bv (m, v, g) \<Longrightarrow> gpu_owned bm bv (m, v, f v g) \<and> Q (m, v, f v g)"
  shows "stage_ok bm bv P (set_stage f) Q"
proof (rule stage_okI)
  fix m v g
  assume "gpu_owned bm bv (m, v, g)" "P (m, v, g)"
  with assms show "\<exists>s' okay. set_stage f (m, v, g) = Inr (s', okay) \<and> gpu_owned bm bv s' \<and> (okay \<longrightarrow> Q s')"
    by (intro exI [of _ "(m, v, f v g)"] exI [of _ True]) (simp add: set_stage_def)
qed

lemma set_field_ok:
  assumes "\<And>v g. gpu_fields (f v g) = gpu_fields g" "\<And>v g. same_frames (f v g) g"
  shows "stage_ok bm bv (progress N k fr) (set_stage f) (progress N k fr)"
proof (rule set_stage_ok)
  fix m v g
  assume "progress N k fr (m, v, g)" "gpu_owned bm bv (m, v, g)"
  then show "gpu_owned bm bv (m, v, f v g) \<and> progress N k fr (m, v, f v g)"
    using assms(2) [of v g]
    by (simp add: gpu_owned_def progress_def assms(1) gpu_handles_def same_frames_simps) (simp add: same_frames_def)
qed

lemma test_stage_ok: "stage_ok bm bv P (test_stage p) P"
proof (rule stage_okI)
  fix m v g
  assume "gpu_owned bm bv (m, v, g)" "P (m, v, g)"
  then show "\<exists>s' okay. test_stage p (m, v, g) = Inr (s', okay) \<and> gpu_owned bm bv s' \<and> (okay \<longrightarrow> P s')"
    by (intro exI [of _ "(m, v, g)"] exI [of _ "p v"]) (simp add: test_stage_def)
qed

lemmas one_field = gpu_fields_def same_frames_def pends_on_def

lemma create_instance_ok: "stage_ok bm bv (progress N 0 fr) create_instance (progress N 1 fr)"
  unfolding create_instance_def One_nat_def by (rule create_field_ok) (simp_all add: one_field)

lemma find_physical_device_ok: "stage_ok bm bv (progress N k fr) find_physical_device (progress N k fr)"
  unfolding find_physical_device_def
  by (rule stage_ok_then [OF call_stage_ok stage_ok_then [OF test_stage_ok stage_ok_then [OF call_stage_ok set_field_ok]]])
    (simp_all add: one_field)

lemma stage_ok_with_driver:
  assumes "\<And>v. stage_ok bm bv P (F v) Q" and "\<And>m v g. f (m, v, g) = F v (m, v, g)"
  shows "stage_ok bm bv P f Q"
proof (rule stage_okI)
  fix m :: mem and v :: vk and g
  assume "gpu_owned bm bv (m, v, g)" "P (m, v, g)"
  then show "\<exists>s' okay. f (m, v, g) = Inr (s', okay) \<and> gpu_owned bm bv s' \<and> (okay \<longrightarrow> Q s')"
    using assms(1) [of v] unfolding assms(2) stage_ok_def by blast
qed

lemma create_device_ok: "stage_ok bm bv (progress N 1 fr) create_device (progress N 2 fr)"
proof (rule stage_ok_with_driver)
  fix v
  have c: "stage_ok bm bv (progress N 1 fr) (create_stage (\<lambda>_. Vk_device f) (\<lambda>h g. g\<lparr>logical_device := h\<rparr>)) (progress N (Suc 1) fr)"
    for f by (rule create_field_ok) (simp_all add: one_field)
  have q: "stage_ok bm bv (progress N (Suc 1) fr) (set_stage (\<lambda>v g. g\<lparr>memory_types := vk_memory_types v, gpu_queue := True\<rparr>))
      (progress N (Suc 1) fr)" by (rule set_field_ok) (simp_all add: one_field)
  show "stage_ok bm bv (progress N 1 fr) (then_stage (test_stage (\<lambda>v. snd (find_queue_family v) \<noteq> - 1))
      (then_stage (create_stage (\<lambda>_. Vk_device (fst (find_queue_family v))) (\<lambda>h g. g\<lparr>logical_device := h\<rparr>))
        (set_stage (\<lambda>v g. g\<lparr>memory_types := vk_memory_types v, gpu_queue := True\<rparr>)))) (progress N 2 fr)"
    using stage_ok_then [OF test_stage_ok stage_ok_then [OF c q]] by (simp add: numeral_2_eq_2)
qed (simp add: create_device_def)

lemma create_surface_ok: "stage_ok bm bv (progress N 2 fr) (create_surface hwnd) (progress N 3 fr)"
proof -
  have "stage_ok bm bv (progress N 2 fr) (create_stage (\<lambda>_. Vk_surface hwnd) (\<lambda>h g. g\<lparr>surface := h\<rparr>)) (progress N (Suc 2) fr)"
    by (rule create_field_ok) (simp_all add: one_field numeral_2_eq_2)
  moreover have "stage_ok bm bv (progress N (Suc 2) fr)
      (set_stage (\<lambda>v g. g\<lparr>frame_width := fst (vk_extent v), frame_height := snd (vk_extent v)\<rparr>)) (progress N (Suc 2) fr)"
    by (rule set_field_ok) (simp_all add: one_field)
  ultimately have "stage_ok bm bv (progress N 2 fr) (create_surface hwnd) (progress N (Suc 2) fr)"
    unfolding create_surface_def by (rule stage_ok_then [OF _ stage_ok_then [OF call_stage_ok]])
  then show ?thesis by simp
qed

text \<open>The frames are allocated cleared.\<close>

lemma allocate_frames_ok:
  "stage_ok bm bv (\<lambda>s. progress N 4 None s \<and> frame_count (snd (snd s)) = N) allocate_frames (progress N 4 (Some (0, 0, 0)))"
proof (rule stage_okI)
  fix m :: mem and v :: vk and g
  assume own: "gpu_owned bm bv (m, v, g)" and P: "progress N 4 None (m, v, g) \<and> frame_count (snd (snd (m, v, g))) = N"
  let ?f = "\<lparr>fr_image = 0, fr_view = None, fr_frame_buffer = None, fr_fence = None, fr_cmd_buffer = None\<rparr>"
  let ?g = "\<lambda>p. g\<lparr>gpu_frames := map_option (\<lambda>q. (q, replicate N ?f)) p\<rparr>"
  from P have N: "frame_count g = N" and none: "gpu_frames g = None" and room: "64 * N + 72 \<le> os_avail m"
    by (simp_all add: progress_def frames_progress_def)
  have z: "sum_list (map frame_handles (replicate N ?f)) = {#}" "sum_list (map frame_blocks (replicate N ?f)) = {#}"
    by (induction N) (simp_all add: frame_handles_def frame_blocks_def)
  have fields: "gpu_fields (g\<lparr>gpu_frames := x\<rparr>) = gpu_fields g" for x by (simp add: gpu_fields_def)
  show "\<exists>s' okay. allocate_frames (m, v, g) = Inr (s', okay) \<and> gpu_owned bm bv s' \<and> (okay \<longrightarrow> progress N 4 (Some (0, 0, 0)) s')"
  proof (cases "N = 0")
    case True
    then have a: "allocate_frames (m, v, g) = Inr ((m, v, g), True)"
      using N none by (simp add: allocate_frames_def heap_alloc_def memset_def mem_write_def)
    have "progress N 4 (Some (0, 0, 0)) (m, v, g)" using P True none by (simp add: progress_def frames_progress_def frames_of_def)
    with a own show ?thesis by blast
  next
    case False
    let ?n = "sizeof_gpu_frame_t * N"
    have n: "0 < ?n" "?n \<le> os_avail m" using False room by (simp_all add: sizeof_gpu_frame_t_def)
    obtain m1 p where al: "heap_alloc m ?n 8 = (m1, Some p)" using n by (simp add: heap_alloc_def)
    from alloc_clear(2) [OF n al] obtain m2 where ms: "memset m1 (Some p) 0 ?n = Inr m2" "os_avail m2 = os_avail m1" by simp
    have av: "os_avail m2 = os_avail m - ?n" using al ms(2) by (auto simp: heap_alloc_def split: if_splits)
    have "mem_owns bm m1 (add_mset p (gpu_blocks g))" using own al by (auto simp: gpu_owned_def intro: mem_owns_alloc)
    then have "mem_owns bm m2 (add_mset p (gpu_blocks g))" using ms(1)
      by (auto simp: mem_owns_def memset_def block_size_write mem_ok_write)
    moreover have "gpu_blocks (?g (Some p)) = add_mset p (gpu_blocks g)"
      by (simp add: gpu_blocks_def none frames_of_def z del: map_replicate)
    moreover have "gpu_handles (?g (Some p)) = gpu_handles g"
      unfolding gpu_handles_def fields by (simp add: none frames_of_def z del: map_replicate)
    ultimately have "gpu_owned bm bv (m2, v, ?g (Some p))" using own N by (simp add: gpu_owned_def frames_of_def)
    moreover have "progress N 4 (Some (0, 0, 0)) (m2, v, ?g (Some p))"
      using P av room by (simp add: progress_def fields frames_progress_def frames_of_def sizeof_gpu_frame_t_def)
    moreover have "allocate_frames (m, v, g) = Inr ((m2, v, ?g (Some p)), True)"
      using al ms(1) N by (simp add: allocate_frames_def)
    ultimately show ?thesis by blast
  qed
qed

lemma create_swap_chain_ok: "stage_ok bm bv (progress N 3 None) create_swap_chain (progress N 4 (Some (0, 0, 0)))"
proof -
  have c: "stage_ok bm bv (progress N 3 None) (create_stage (\<lambda>g. Vk_swapchain (the (surface g)) a b c) (\<lambda>h g. g\<lparr>swap_chain := h\<rparr>))
      (progress N (Suc 3) None)" for a b c by (rule create_field_ok) (simp_all add: one_field numeral_3_eq_3)
  have n: "stage_ok bm bv (progress N 4 None) (set_stage (\<lambda>v g. g\<lparr>frame_count := length (vk_images v)\<rparr>))
      (\<lambda>s. progress N 4 None s \<and> frame_count (snd (snd s)) = N)"
  proof (rule set_stage_ok)
    fix m :: mem and v :: vk and g
    assume "progress N 4 None (m, v, g)" "gpu_owned bm bv (m, v, g)"
    then show "gpu_owned bm bv (m, v, g\<lparr>frame_count := length (vk_images v)\<rparr>) \<and>
      progress N 4 None (m, v, g\<lparr>frame_count := length (vk_images v)\<rparr>) \<and>
      frame_count (snd (snd (m, v, g\<lparr>frame_count := length (vk_images v)\<rparr>))) = N"
      by (simp add: gpu_owned_def progress_def frames_progress_def gpu_fields_def gpu_handles_def gpu_blocks_def frames_of_def)
  qed
  have "stage_ok bm bv (progress N 3 None)
      (then_stage (create_stage (\<lambda>g. Vk_swapchain (the (surface g)) a b c) (\<lambda>h g. g\<lparr>swap_chain := h\<rparr>))
        (then_stage call_stage (then_stage (set_stage (\<lambda>v g. g\<lparr>frame_count := length (vk_images v)\<rparr>))
          (then_stage allocate_frames call_stage)))) (progress N 4 (Some (0, 0, 0)))" for a b c
    by (rule stage_ok_then [OF c stage_ok_then [OF call_stage_ok stage_ok_then [OF _ stage_ok_then [OF allocate_frames_ok call_stage_ok]]]])
      (use n in simp)
  then show ?thesis by (rule stage_ok_with_driver) (simp add: create_swap_chain_def)
qed

lemma frames_of_update [simp]: "frames_of (update_frame g i F) = (frames_of g)[i := F (frames_of g ! i)]"
  by (auto simp: frames_of_def update_frame_def split: option.split)

lemma update_frame_sel [simp]:
  "gpu_fields (update_frame g i F) = gpu_fields g" "frame_count (update_frame g i F) = frame_count g"
  "frame_index (update_frame g i F) = frame_index g"
  "mesh_layouts (update_frame g i F) = mesh_layouts g" "gpu_self (update_frame g i F) = gpu_self g"
  "map_option fst (gpu_frames (update_frame g i F)) = map_option fst (gpu_frames g)"
  "(gpu_frames (update_frame g i F) = None) = (gpu_frames g = None)"
  by (auto simp: update_frame_def gpu_fields_def option.map_comp intro: option.map_cong)

lemma sum_list_map_update:
  fixes f :: "'a \<Rightarrow> 'b multiset"
  shows "i < length xs \<Longrightarrow> f y = d + f (xs ! i) \<Longrightarrow> sum_list (map f (xs[i := y])) = d + sum_list (map f xs)"
proof (induction xs arbitrary: i)
  case (Cons x xs)
  then show ?case by (cases i) (auto simp: ac_simps)
qed simp

lemma adds_handle_frame:
  assumes "i < length (frames_of g)" and "frame_handles (F (frames_of g ! i)) = handles [h] + frame_handles (frames_of g ! i)"
    and "frame_blocks (F (frames_of g ! i)) = frame_blocks (frames_of g ! i)"
  shows "adds_handle g h (update_frame g i F)"
  using sum_list_map_update [OF assms(1,2)] sum_list_map_update [OF assms(1), of frame_blocks _ "{#}"] assms(3)
  by (simp add: adds_handle_def gpu_handles_def gpu_blocks_def ac_simps)

lemmas one_frame = progress_def frames_progress_def nth_list_update

lemma create_view_ok:
  assumes "i < N"
  shows "stage_ok bm bv (progress N k (Some (i, 0, 0))) (create_view i) (progress N k (Some (Suc i, 0, 0)))"
  unfolding create_view_def
proof (rule stage_ok_then)
  show "stage_ok bm bv (progress N k (Some (i, 0, 0))) (set_stage (\<lambda>v g. update_frame g i (\<lambda>f. f\<lparr>fr_image := vk_images v ! i\<rparr>)))
      (progress N k (Some (i, 0, 0)))"
  proof (rule set_stage_ok)
    fix m :: mem and v :: vk and g
    assume P: "progress N k (Some (i, 0, 0)) (m, v, g)" and own: "gpu_owned bm bv (m, v, g)"
    have i: "i < length (frames_of g)" using P assms by (simp add: progress_def frames_progress_def)
    have "adds_handle g None (update_frame g i (\<lambda>f. f\<lparr>fr_image := vk_images v ! i\<rparr>))"
      by (rule adds_handle_frame [OF i]) (simp_all add: frame_handles_def frame_blocks_def)
    with own have "gpu_owned bm bv (m, v, update_frame g i (\<lambda>f. f\<lparr>fr_image := vk_images v ! i\<rparr>))"
      by (simp add: gpu_owned_def adds_handle_def)
    with P show "gpu_owned bm bv (m, v, update_frame g i (\<lambda>f. f\<lparr>fr_image := vk_images v ! i\<rparr>)) \<and>
      progress N k (Some (i, 0, 0)) (m, v, update_frame g i (\<lambda>f. f\<lparr>fr_image := vk_images v ! i\<rparr>))"
      by (simp add: one_frame)
  qed
  show "stage_ok bm bv (progress N k (Some (i, 0, 0))) (create_stage (\<lambda>g. Vk_image_view (fr_image (frames_of g ! i)))
      (\<lambda>h g. update_frame g i (\<lambda>f. f\<lparr>fr_view := h\<rparr>))) (progress N k (Some (Suc i, 0, 0)))"
  proof (rule create_stage_ok)
    fix m :: mem and v :: vk and g h
    assume P: "progress N k (Some (i, 0, 0)) (m, v, g)"
    show "adds_handle g h (update_frame g i (\<lambda>f. f\<lparr>fr_view := h\<rparr>))"
      by (rule adds_handle_frame)
        (use P assms in \<open>simp_all add: progress_def frames_progress_def frame_handles_def frame_blocks_def
           handles_Cons [of _ "_ # _"] ac_simps\<close>)
  qed (use assms in \<open>auto simp: one_frame pends_on_def\<close>)
qed

lemma create_framebuffer_ok:
  assumes "i < N"
  shows "stage_ok bm bv (progress N k (Some (N, i, 0))) (create_framebuffer i) (progress N k (Some (N, Suc i, 0)))"
  unfolding create_framebuffer_def
proof (rule create_stage_ok)
  fix m :: mem and v :: vk and g h
  assume P: "progress N k (Some (N, i, 0)) (m, v, g)"
  show "adds_handle g h (update_frame g i (\<lambda>f. f\<lparr>fr_frame_buffer := h\<rparr>))"
    by (rule adds_handle_frame)
      (use P assms in \<open>simp_all add: progress_def frames_progress_def frame_handles_def frame_blocks_def
         handles_Cons [of _ "_ # _"] ac_simps\<close>)
qed (use assms in \<open>auto simp: one_frame pends_on_def\<close>)

lemma for_frames_ok:
  assumes "\<And>i. i < N \<Longrightarrow> stage_ok bm bv (Q i) (f i) (Q (Suc i))" and "\<And>s. Q 0 s \<Longrightarrow> frame_count (snd (snd s)) = N"
  shows "stage_ok bm bv (Q 0) (for_frames f) (Q N)"
proof (rule stage_okI)
  fix m :: mem and v :: vk and g
  assume "gpu_owned bm bv (m, v, g)" and Q: "Q 0 (m, v, g)"
  then show "\<exists>s' okay. for_frames f (m, v, g) = Inr (s', okay) \<and> gpu_owned bm bv s' \<and> (okay \<longrightarrow> Q N s')"
    using stage_ok_for [of N bm bv Q f 0, OF assms(1)] assms(2) [OF Q] unfolding stage_ok_def
    by (simp add: for_frames_def)
qed

lemma create_views_ok:
  "stage_ok bm bv (progress N k (Some (0, 0, 0))) (for_frames create_view) (progress N k (Some (N, 0, 0)))"
  by (rule for_frames_ok [of N bm bv "\<lambda>i. progress N k (Some (i, 0, 0))"])
    (auto intro: create_view_ok simp: progress_def frames_progress_def)

lemma create_framebuffers_ok:
  "stage_ok bm bv (progress N k (Some (N, 0, 0))) (for_frames create_framebuffer) (progress N k (Some (N, N, 0)))"
  by (rule for_frames_ok [of N bm bv "\<lambda>i. progress N k (Some (N, i, 0))"])
    (auto intro: create_framebuffer_ok simp: progress_def frames_progress_def)

lemma create_depth_buffer_ok: "stage_ok bm bv (progress N 4 fr) create_depth_buffer (progress N 7 fr)"
proof -
  have a: "stage_ok bm bv (progress N 4 fr) (create_stage (\<lambda>g. Vk_image (frame_width g) (frame_height g))
      (\<lambda>h g. g\<lparr>depth_stencil_image := h\<rparr>)) (progress N (Suc 4) fr)"
    by (rule create_field_ok) (simp_all add: one_field eval_nat_numeral)
  have c: "stage_ok bm bv (progress N (Suc 5) fr) (create_stage (\<lambda>g. Vk_depth_view (depth_stencil_image g))
      (\<lambda>h g. g\<lparr>depth_stencil_view := h\<rparr>)) (progress N (Suc (Suc 5)) fr)"
    by (rule create_field_ok) (simp_all add: one_field eval_nat_numeral)
  have b: "stage_ok bm bv (progress N 5 fr) allocate_depth_memory (progress N (Suc 5) fr)"
  proof (rule stage_okI)
    fix m :: mem and v :: vk and g
    assume own: "gpu_owned bm bv (m, v, g)" and P: "progress N 5 fr (m, v, g)"
    obtain bytes bits where q: "vk_requirements v (unat (frame_width g) * unat (frame_height g) * 4) = (bytes, bits)"
      by (cases "vk_requirements v (unat (frame_width g) * unat (frame_height g) * 4)")
    define ob where "ob = Vk_memory (get_memory_type_index g bits memory_device_local) (replicate bytes 0)"
    have "stage_ok bm bv (progress N 5 fr) (create_stage (\<lambda>_. ob) (\<lambda>h g. g\<lparr>depth_stencil_memory := h\<rparr>)) (progress N (Suc 5) fr)"
      by (rule create_field_ok) (simp_all add: one_field ob_def eval_nat_numeral)
    moreover have "create_stage (\<lambda>_. ob) (\<lambda>h g. g\<lparr>depth_stencil_memory := h\<rparr>) (m, v, g) = allocate_depth_memory (m, v, g)"
      by (simp add: create_stage_def allocate_depth_memory_def allocate_memory_def q ob_def)
    ultimately show "\<exists>s' okay. allocate_depth_memory (m, v, g) = Inr (s', okay) \<and> gpu_owned bm bv s' \<and>
        (okay \<longrightarrow> progress N (Suc 5) fr s')"
      using own P unfolding stage_ok_def by metis
  qed
  show ?thesis unfolding create_depth_buffer_def
    using stage_ok_then [OF a [simplified] stage_ok_then [OF b [simplified] stage_ok_then [OF call_stage_ok c [simplified]]]] by simp
qed

lemma create_render_pass_ok: "stage_ok bm bv (progress N 7 fr) create_render_pass (progress N 8 fr)"
proof -
  have "stage_ok bm bv (progress N 7 fr) create_render_pass (progress N (Suc 7) fr)"
    unfolding create_render_pass_def by (rule create_field_ok) (simp_all add: one_field eval_nat_numeral)
  then show ?thesis by simp
qed

lemma create_semaphores_ok: "stage_ok bm bv (progress N 8 fr) create_semaphores (progress N 10 fr)"
proof -
  have a: "stage_ok bm bv (progress N 8 fr) (create_stage (\<lambda>_. Vk_semaphore) (\<lambda>h g. g\<lparr>present_complete_sema := h\<rparr>))
      (progress N (Suc 8) fr)" by (rule create_field_ok) (simp_all add: one_field eval_nat_numeral)
  have b: "stage_ok bm bv (progress N (Suc 8) fr) (create_stage (\<lambda>_. Vk_semaphore) (\<lambda>h g. g\<lparr>render_complete_sema := h\<rparr>))
      (progress N (Suc (Suc 8)) fr)" by (rule create_field_ok) (simp_all add: one_field eval_nat_numeral)
  show ?thesis unfolding create_semaphores_def using stage_ok_then [OF a b] by simp
qed

lemma create_descriptor_pool_ok: "stage_ok bm bv (progress N 10 fr) create_descriptor_pool (progress N 11 fr)"
proof -
  have "stage_ok bm bv (progress N 10 fr) create_descriptor_pool (progress N (Suc 10) fr)"
    unfolding create_descriptor_pool_def by (rule create_field_ok) (simp_all add: one_field eval_nat_numeral)
  then show ?thesis by simp
qed

lemma create_cmd_pool_ok: "stage_ok bm bv (progress N 11 fr) create_cmd_pool (progress N 12 fr)"
proof (rule stage_ok_with_driver)
  fix v
  have "stage_ok bm bv (progress N 11 fr) (create_stage (\<lambda>_. Vk_command_pool (fst (find_queue_family v))) (\<lambda>h g. g\<lparr>cmd_pool := h\<rparr>))
      (progress N (Suc 11) fr)" by (rule create_field_ok) (simp_all add: one_field eval_nat_numeral)
  then show "stage_ok bm bv (progress N 11 fr) (create_stage (\<lambda>_. Vk_command_pool (fst (find_queue_family v)))
      (\<lambda>h g. g\<lparr>cmd_pool := h\<rparr>)) (progress N 12 fr)" by simp
qed (simp add: create_cmd_pool_def)

text \<open>Between the steps for one frame.\<close>

definition cmd_allocated :: "nat \<Rightarrow> gpu_creation \<Rightarrow> bool" where
  "cmd_allocated i s = (case s of (m, v, g) \<Rightarrow>
     fr_fence (frames_of g ! i) = None \<and> (\<exists>c. fr_cmd_buffer (frames_of g ! i) = Some c \<and> cb_buffer c = None))"

lemma allocate_cmd_buffer_ok:
  assumes i: "i < N"
  shows "stage_ok bm bv (progress N k (Some (N, N, i))) (allocate_cmd_buffer i)
    (\<lambda>s. progress N k (Some (N, N, Suc i)) s \<and> cmd_allocated i s)"
proof (rule stage_okI)
  fix m :: mem and v :: vk and g
  assume own: "gpu_owned bm bv (m, v, g)" and P: "progress N k (Some (N, N, i)) (m, v, g)"
  have len: "i < length (frames_of g)" and none: "fr_cmd_buffer (frames_of g ! i) = None" "fr_fence (frames_of g ! i) = None"
    and room: "24 * (N - i) + 72 \<le> os_avail m"
    using P i by (simp_all add: progress_def frames_progress_def)
  have d: "N - i = Suc (N - Suc i)" using i by simp
  have "24 \<le> os_avail m" using room d by simp
  with own alloc_struct_ok [of bm m "gpu_blocks g" sizeof_gpu_cmd_buffer_t] obtain m1 p where
    a: "alloc_struct m sizeof_gpu_cmd_buffer_t = Inr (m1, p)" and b: "mem_owns bm m1 (add_mset p (gpu_blocks g))"
    and av: "os_avail m1 = os_avail m - 24" by (auto simp: gpu_owned_def sizeof_gpu_cmd_buffer_t_def)
  define c where "c = \<lparr>cb_self = p, cb_buffer = None, cb_pipeline_layout = None, cb_index_count = 0, cb_vertex_count = 0\<rparr>"
  let ?F = "\<lambda>f. f\<lparr>fr_cmd_buffer := Some c\<rparr>"
  let ?g = "update_frame g i ?F"
  have "sum_list (map frame_handles ((frames_of g)[i := ?F (frames_of g ! i)])) = {#} + sum_list (map frame_handles (frames_of g))"
    by (rule sum_list_map_update [OF len]) (simp add: frame_handles_def none c_def handles_Cons [of _ "_ # _"])
  then have h: "gpu_handles ?g = gpu_handles g" by (simp add: gpu_handles_def)
  have "sum_list (map frame_blocks ((frames_of g)[i := ?F (frames_of g ! i)])) = {#p#} + sum_list (map frame_blocks (frames_of g))"
    by (rule sum_list_map_update [OF len]) (simp add: frame_blocks_def none c_def)
  then have bl: "gpu_blocks ?g = add_mset p (gpu_blocks g)" by (simp add: gpu_blocks_def)
  have "gpu_owned bm bv (m1, v, ?g)" using own b by (simp add: gpu_owned_def h bl)
  moreover have "progress N k (Some (N, N, Suc i)) (m1, v, ?g)"
    using P i room d av by (auto simp: one_frame)
  moreover have "cmd_allocated i (m1, v, ?g)" using len none by (simp add: cmd_allocated_def c_def)
  moreover have "allocate_cmd_buffer i (m, v, g) = Inr ((m1, v, ?g), True)" by (simp add: allocate_cmd_buffer_def a c_def)
  ultimately show "\<exists>s' okay. allocate_cmd_buffer i (m, v, g) = Inr (s', okay) \<and> gpu_owned bm bv s' \<and>
      (okay \<longrightarrow> progress N k (Some (N, N, Suc i)) s' \<and> cmd_allocated i s')" by blast
qed

definition fence_missing :: "nat \<Rightarrow> gpu_creation \<Rightarrow> bool" where
  "fence_missing i s = (case s of (m, v, g) \<Rightarrow> fr_fence (frames_of g ! i) = None)"

text \<open>The first \<open>i\<close> frames can be drawn; of the next one the buffer is made.\<close>

definition frames_ready :: "nat \<Rightarrow> gpu_creation \<Rightarrow> bool" where
  "frames_ready i s = (case s of (m, v, g) \<Rightarrow> \<forall>j < i. frame_state v (frames_of g ! j))"

definition cmd_ready :: "nat \<Rightarrow> gpu_creation \<Rightarrow> bool" where
  "cmd_ready i s = (case s of (m, v, g) \<Rightarrow> \<exists>k p. frame_cmd (frames_of g ! i) = Some k \<and>
     vk_objects v k = Some (Vk_command_buffer p Cmd_initial []))"

lemma frame_state_mono:
  assumes "frame_state v f" and "vk_objects v k = None" and "vk_objects v' = (vk_objects v)(k \<mapsto> ob)"
  shows "frame_state v' f"
  using assms unfolding frame_state_def by (fastforce simp: fun_upd_def)

lemma create_frame_commands_ok:
  assumes i: "i < N"
  shows "stage_ok bm bv (\<lambda>s. progress N k (Some (N, N, i)) s \<and> frames_ready i s) (create_frame_commands i)
    (\<lambda>s. progress N k (Some (N, N, Suc i)) s \<and> frames_ready (Suc i) s)"
  unfolding create_frame_commands_def
proof (rule stage_ok_then [OF _ stage_ok_then])
  let ?P1 = "\<lambda>s. (progress N k (Some (N, N, Suc i)) s \<and> cmd_allocated i s) \<and> frames_ready i s"
  let ?P2 = "\<lambda>s. progress N k (Some (N, N, Suc i)) s \<and> fence_missing i s \<and> frames_ready i s \<and> cmd_ready i s"
  have "stage_ok bm bv (\<lambda>s. progress N k (Some (N, N, i)) s \<and> frames_ready i s) (allocate_cmd_buffer i) (frames_ready i)"
  proof (rule stage_okI)
    fix m :: mem and v :: vk and g
    assume own: "gpu_owned bm bv (m, v, g)" and P: "progress N k (Some (N, N, i)) (m, v, g) \<and> frames_ready i (m, v, g)"
    from stage_okD [OF allocate_cmd_buffer_ok [OF i] own conjunct1 [OF P]] obtain s' okay where
      s': "allocate_cmd_buffer i (m, v, g) = Inr (s', okay)" "gpu_owned bm bv s'" .
    then have "frames_ready i s'" using P by (auto simp: allocate_cmd_buffer_def bind_ok_Inr_iff frames_ready_def)
    with s' show "\<exists>s' okay. allocate_cmd_buffer i (m, v, g) = Inr (s', okay) \<and> gpu_owned bm bv s' \<and> (okay \<longrightarrow> frames_ready i s')"
      by blast
  qed
  from stage_ok_conj [OF allocate_cmd_buffer_ok [OF i] this, of "\<lambda>s. progress N k (Some (N, N, i)) s \<and> frames_ready i s"]
  show "stage_ok bm bv (\<lambda>s. progress N k (Some (N, N, i)) s \<and> frames_ready i s) (allocate_cmd_buffer i) ?P1" by simp
  show "stage_ok bm bv ?P1 (create_stage (\<lambda>g. Vk_command_buffer (cmd_pool g) Cmd_initial [])
        (\<lambda>h g. update_frame g i (\<lambda>f. f\<lparr>fr_cmd_buffer := map_option (\<lambda>c. c\<lparr>cb_buffer := h\<rparr>) (fr_cmd_buffer f)\<rparr>))) ?P2"
  proof (rule create_stage_result)
    fix m :: mem and v :: vk and g h
    assume P: "?P1 (m, v, g)"
    then obtain c where c: "fr_cmd_buffer (frames_of g ! i) = Some c" "cb_buffer c = None"
      by (auto simp: cmd_allocated_def)
    show "adds_handle g h (update_frame g i (\<lambda>f. f\<lparr>fr_cmd_buffer := map_option (\<lambda>c. c\<lparr>cb_buffer := h\<rparr>) (fr_cmd_buffer f)\<rparr>))"
      by (rule adds_handle_frame)
        (use P i c in \<open>simp_all add: progress_def frames_progress_def frame_handles_def frame_blocks_def
           handles_Cons [of _ "_ # _"] ac_simps\<close>)
  next
    fix m :: mem and v v' :: vk and g and h :: handle
    let ?g = "update_frame g i (\<lambda>f. f\<lparr>fr_cmd_buffer := map_option (\<lambda>c. c\<lparr>cb_buffer := Some h\<rparr>) (fr_cmd_buffer f)\<rparr>)"
    assume P: "?P1 (m, v, g)" and v': "vk_objects v' = (vk_objects v)(h \<mapsto> Vk_command_buffer (cmd_pool g) Cmd_initial [])"
      "vk_objects v h = None" and im: "vk_images v' = vk_images v"
    obtain c where c: "fr_cmd_buffer (frames_of g ! i) = Some c" using P by (auto simp: cmd_allocated_def)
    have len: "i < length (frames_of g)" using P i by (simp add: progress_def frames_progress_def)
    have "progress N k (Some (N, N, Suc i)) (m, v', ?g)" using P i im by (auto simp: one_frame)
    moreover have "fence_missing i (m, v', ?g)" using P len by (simp add: fence_missing_def cmd_allocated_def)
    moreover have "frames_ready i (m, v', ?g)" using P frame_state_mono [OF _ v'(2,1)] by (simp add: frames_ready_def)
    moreover have "cmd_ready i (m, v', ?g)" using c len v'(1) by (simp add: cmd_ready_def frame_cmd_def)
    ultimately show "?P2 (m, v', ?g)" by simp
  qed (simp add: pends_on_def)
  show "stage_ok bm bv ?P2 (create_stage (\<lambda>_. Vk_fence True) (\<lambda>h g. update_frame g i (\<lambda>f. f\<lparr>fr_fence := h\<rparr>)))
      (\<lambda>s. progress N k (Some (N, N, Suc i)) s \<and> frames_ready (Suc i) s)"
  proof (rule create_stage_result)
    fix m :: mem and v :: vk and g h
    assume P: "?P2 (m, v, g)"
    show "adds_handle g h (update_frame g i (\<lambda>f. f\<lparr>fr_fence := h\<rparr>))"
      by (rule adds_handle_frame)
        (use P i in \<open>simp_all add: progress_def frames_progress_def frame_handles_def frame_blocks_def fence_missing_def
           handles_Cons [of _ "_ # _"] ac_simps\<close>)
  next
    fix m :: mem and v v' :: vk and g and h :: handle
    let ?g = "update_frame g i (\<lambda>f. f\<lparr>fr_fence := Some h\<rparr>)"
    assume P: "?P2 (m, v, g)" and v': "vk_objects v' = (vk_objects v)(h \<mapsto> Vk_fence True)"
      "vk_objects v h = None" and im: "vk_images v' = vk_images v"
    have len: "i < length (frames_of g)" using P i by (simp add: progress_def frames_progress_def)
    obtain b p where b: "frame_cmd (frames_of g ! i) = Some b" "vk_objects v b = Some (Vk_command_buffer p Cmd_initial [])"
      using P by (auto simp: cmd_ready_def)
    have "b \<noteq> h" using b(2) v'(2) by auto
    have "frame_state v' ((frames_of g ! i)\<lparr>fr_fence := Some h\<rparr>)"
      unfolding frame_state_def
      by (intro exI [of _ b] exI [of _ h] exI [of _ p] exI [of _ Cmd_initial] exI [of _ "[]"] exI [of _ True])
        (use b v'(1) \<open>b \<noteq> h\<close> in \<open>simp add: frame_cmd_def\<close>)
    moreover have "frame_state v' (frames_of g ! j)" if "j < i" for j
      using P frame_state_mono [OF _ v'(2,1)] that by (simp add: frames_ready_def)
    ultimately have "frames_ready (Suc i) (m, v', ?g)" using len by (simp add: frames_ready_def less_Suc_eq nth_list_update)
    moreover have "progress N k (Some (N, N, Suc i)) (m, v', ?g)" using P i im by (auto simp: one_frame)
    ultimately show "progress N k (Some (N, N, Suc i)) (m, v', ?g) \<and> frames_ready (Suc i) (m, v', ?g)" by simp
  qed (simp add: pends_on_def)
qed

lemma create_all_frame_commands_ok:
  "stage_ok bm bv (progress N k (Some (N, N, 0))) (for_frames create_frame_commands)
    (\<lambda>s. progress N k (Some (N, N, N)) s \<and> frames_ready N s)"
proof -
  have "stage_ok bm bv (\<lambda>s. progress N k (Some (N, N, 0)) s \<and> frames_ready 0 s) (for_frames create_frame_commands)
    (\<lambda>s. progress N k (Some (N, N, N)) s \<and> frames_ready N s)"
  proof (rule for_frames_ok [of N bm bv "\<lambda>i s. progress N k (Some (N, N, i)) s \<and> frames_ready i s"])
    show "stage_ok bm bv (\<lambda>s. progress N k (Some (N, N, i)) s \<and> frames_ready i s) (create_frame_commands i)
      (\<lambda>s. progress N k (Some (N, N, Suc i)) s \<and> frames_ready (Suc i) s)" if "i < N" for i
      by (rule create_frame_commands_ok [OF that])
  qed (auto simp: progress_def frames_progress_def)
  then show ?thesis by (simp add: stage_ok_def frames_ready_def split: prod.splits)
qed

lemma layouts_update:
  fixes g :: gpu_t
  assumes "ml_binding (mesh_layouts g l) = None"
  shows "gpu_blocks (g\<lparr>mesh_layouts := (mesh_layouts g)(l := x)\<rparr>) = layout_blocks x + gpu_blocks g"
  using assms by (cases l) (simp_all add: gpu_blocks_def frames_of_def layout_blocks_def ac_simps)

lemma create_mesh_layout_ok:
  assumes "offsets \<noteq> []"
    and "\<And>m v g x. P (m, v, g) \<Longrightarrow> ml_binding (mesh_layouts g l) = None \<and> 12 + 16 * length offsets \<le> os_avail m"
    and "\<And>m v g m' x. P (m, v, g) \<Longrightarrow> os_avail m' = os_avail m - (12 + 16 * length offsets) \<Longrightarrow>
      mesh_vertex_size x = stride \<Longrightarrow> mesh_index_size x = 2 \<Longrightarrow> Q (m', v, g\<lparr>mesh_layouts := (mesh_layouts g)(l := x)\<rparr>)"
  shows "stage_ok bm bv P (create_mesh_layout l offsets stride) Q"
proof (rule stage_okI)
  fix m :: mem and v :: vk and g
  assume own: "gpu_owned bm bv (m, v, g)" and P: "P (m, v, g)"
  note p = assms(2) [OF P]
  have "sizeof_binding \<le> os_avail m" using p by (simp add: sizeof_binding_def)
  with own alloc_struct_ok [of bm m "gpu_blocks g" sizeof_binding] obtain m1 b where
    1: "alloc_struct m sizeof_binding = Inr (m1, b)" "mem_owns bm m1 (add_mset b (gpu_blocks g))" "os_avail m1 = os_avail m - 12"
    by (auto simp: gpu_owned_def sizeof_binding_def)
  have "16 * length offsets \<le> os_avail m1" using p unfolding 1(3) by linarith
  then have "sizeof_attribute * length offsets \<le> os_avail m1" "0 < sizeof_attribute * length offsets"
    using assms(1) by (simp_all add: sizeof_attribute_def)
  with alloc_struct_ok [OF 1(2)] obtain m2 a where
    2: "alloc_struct m1 (sizeof_attribute * length offsets) = Inr (m2, a)" "mem_owns bm m2 (add_mset a (add_mset b (gpu_blocks g)))"
      "os_avail m2 = os_avail m1 - sizeof_attribute * length offsets" by blast
  define x where "x = \<lparr>ml_binding = Some b, ml_attributes = Some a, ml_offsets = offsets, mesh_vertex_size = stride, mesh_index_size = 2\<rparr>"
  let ?g = "g\<lparr>mesh_layouts := (mesh_layouts g)(l := x)\<rparr>"
  have "gpu_blocks ?g = add_mset a (add_mset b (gpu_blocks g))"
    using p by (simp add: layouts_update) (simp add: layout_blocks_def x_def)
  moreover have "gpu_handles ?g = gpu_handles g" by (simp add: gpu_handles_def gpu_fields_def frames_of_def)
  ultimately have "gpu_owned bm bv (m2, v, ?g)" using own 2(2) by (simp add: gpu_owned_def frames_of_def)
  moreover have "Q (m2, v, ?g)" using assms(3) [OF P, of m2 x] 2(3) 1(3) by (simp add: sizeof_attribute_def x_def)
  moreover have "create_mesh_layout l offsets stride (m, v, g) = Inr ((m2, v, ?g), True)"
    using 1(1) 2(1) by (simp add: create_mesh_layout_def x_def)
  ultimately show "\<exists>s' okay. create_mesh_layout l offsets stride (m, v, g) = Inr (s', okay) \<and> gpu_owned bm bv s' \<and> (okay \<longrightarrow> Q s')"
    by blast
qed

text \<open>What a finished structure has.\<close>

definition gpu_ready :: "nat \<Rightarrow> gpu_creation \<Rightarrow> bool" where
  "gpu_ready N s = (case s of (m, v, g) \<Rightarrow>
     frame_index g = 0 \<and> frames_ready N s \<and> frame_count g = N \<and> length (frames_of g) = N \<and>
     mesh_vertex_size (mesh_layouts g k_gpu_mesh_layout_tri_p444_i2) = 12 \<and>
     mesh_index_size (mesh_layouts g k_gpu_mesh_layout_tri_p444_i2) = 2 \<and>
     mesh_vertex_size (mesh_layouts g k_gpu_mesh_layout_tri_p444_c444_i2) = 24 \<and>
     mesh_index_size (mesh_layouts g k_gpu_mesh_layout_tri_p444_c444_i2) = 2)"

lemma create_mesh_layouts_ok:
  "stage_ok bm bv (\<lambda>s. progress N 12 (Some (N, N, N)) s \<and> frames_ready N s) create_mesh_layouts (gpu_ready N)"
  unfolding create_mesh_layouts_def
proof (rule stage_ok_then)
  let ?Q = "\<lambda>s. case s of (m, v, g) \<Rightarrow> frame_index g = 0 \<and> frames_ready N (m, v, g) \<and> frame_count g = N \<and> length (frames_of g) = N \<and>
    mesh_vertex_size (mesh_layouts g k_gpu_mesh_layout_tri_p444_i2) = 12 \<and>
    mesh_index_size (mesh_layouts g k_gpu_mesh_layout_tri_p444_i2) = 2 \<and>
    ml_binding (mesh_layouts g k_gpu_mesh_layout_tri_p444_c444_i2) = None \<and> 44 \<le> os_avail m"
  show "stage_ok bm bv (\<lambda>s. progress N 12 (Some (N, N, N)) s \<and> frames_ready N s) (create_mesh_layout k_gpu_mesh_layout_tri_p444_i2 [0] 12) ?Q"
    by (rule create_mesh_layout_ok) (auto simp: progress_def frames_progress_def frames_of_def frames_ready_def)
  show "stage_ok bm bv ?Q (create_mesh_layout k_gpu_mesh_layout_tri_p444_c444_i2 [0, 12] 24) (gpu_ready N)"
    by (rule create_mesh_layout_ok) (auto simp: gpu_ready_def frames_of_def frames_ready_def)
qed

lemma gpu_stages_ok: "stage_ok bm bv (progress N 0 None) (gpu_stages hwnd) (gpu_ready N)"
  unfolding gpu_stages_def
  by (intro stage_ok_then [OF create_instance_ok] stage_ok_then [OF find_physical_device_ok] stage_ok_then [OF create_device_ok]
      stage_ok_then [OF create_surface_ok] stage_ok_then [OF create_swap_chain_ok] stage_ok_then [OF create_views_ok]
      stage_ok_then [OF create_depth_buffer_ok] stage_ok_then [OF create_render_pass_ok] stage_ok_then [OF create_framebuffers_ok]
      stage_ok_then [OF create_semaphores_ok] stage_ok_then [OF create_descriptor_pool_ok] stage_ok_then [OF create_cmd_pool_ok]
      stage_ok_then [OF create_all_frame_commands_ok] create_mesh_layouts_ok)

lemma gpu_zero_owned:
  assumes "mem_owns bm m {#p#}" and "vk_owns bv v {#}" and "\<And>c f. \<not> pends_on (vk_objects v c) f"
  shows "gpu_owned bm bv (m, v, gpu_zero p)"
  using assms
  by (simp add: gpu_owned_def gpu_zero_def gpu_blocks_def gpu_handles_def gpu_fields_def frames_of_def layout_blocks_def local_work_def)

lemma gpu_zero_progress:
  assumes "64 * N + 72 \<le> os_avail m" and "length (vk_images v) = N"
  shows "progress N 0 None (m, v, gpu_zero p)"
proof -
  have "gpu_fields (gpu_zero p) = replicate 12 None" by (simp add: gpu_fields_def gpu_zero_def eval_nat_numeral)
  then show ?thesis using assms by (simp add: progress_def frames_progress_def) (simp add: gpu_zero_def)
qed

lemma gpu_create_owned:
  assumes "mem_ok m" and "vk_ok v" and idle: "\<And>c f. \<not> pends_on (vk_objects v c) f"
    and room: "848 + 64 * length (vk_images v) + 72 \<le> os_avail m"
  shows "\<exists>m1 v1 g okay p m0. alloc_struct m sizeof_gpu_t = Inr (m0, p) \<and> gpu_stages hwnd (m0, v, gpu_zero p) = Inr ((m1, v1, g), okay) \<and>
    gpu_owned (block_size m) (vk_objects v) (m1, v1, g) \<and> (okay \<longrightarrow> gpu_ready (length (vk_images v)) (m1, v1, g))"
proof -
  note own = world_owns_start [OF assms(1,2)]
  from alloc_struct_ok [OF own(1), of sizeof_gpu_t] room obtain m0 p where
    a: "alloc_struct m sizeof_gpu_t = Inr (m0, p)" "mem_owns (block_size m) m0 {#p#}" "os_avail m0 = os_avail m - 848"
    by (auto simp: sizeof_gpu_t_def)
  have "gpu_owned (block_size m) (vk_objects v) (m0, v, gpu_zero p)" by (rule gpu_zero_owned [OF a(2) own(2) idle])
  moreover have "progress (length (vk_images v)) 0 None (m0, v, gpu_zero p)"
    by (rule gpu_zero_progress) (use a(3) room in simp_all)
  ultimately obtain s okay where "gpu_stages hwnd (m0, v, gpu_zero p) = Inr (s, okay)" "gpu_owned (block_size m) (vk_objects v) s"
    "okay \<longrightarrow> gpu_ready (length (vk_images v)) s"
    using gpu_stages_ok by (blast elim: stage_okD)
  then show ?thesis using a(1) by (cases s) blast
qed

text \<open>
  C30.  \<^verbatim>\<open>gpu_create\<close> and \<^verbatim>\<open>gpu_destroy\<close>: with heap for the structure, the frames and the layouts, and
  no work of someone else pending, creation returns whichever of the driver's calls fails (thirty of
  them, in fourteen stages, with three frames); a failed creation has given back every block and destroyed every object it
  had made, each exactly once; and so has a successful one after \<^verbatim>\<open>gpu_destroy\<close>.
\<close>

theorem gpu_creation_does_not_leak:
  assumes "mem_ok m" and "vk_ok v" and "\<And>c f. \<not> pends_on (vk_objects v c) f"
    and "920 + 64 * length (vk_images v) \<le> os_avail m"
  shows "leak_free (m, v) gpu_destroy (gpu_create (m, v) hwnd)"
proof -
  from gpu_create_owned [OF assms(1,2,3), of hwnd] assms(4) obtain m1 v1 g okay p m0 where
    a: "alloc_struct m sizeof_gpu_t = Inr (m0, p)" and s: "gpu_stages hwnd (m0, v, gpu_zero p) = Inr ((m1, v1, g), okay)"
    and own: "gpu_owned (block_size m) (vk_objects v) (m1, v1, g)" by auto
  from gpu_destroy_returns_all [OF own] obtain m2 v2 where
    d: "gpu_destroy (m1, v1) (Some g) = Inr (m2, v2)" "undone (m, v) (m2, v2)"
    by (auto simp: undone_def mem_owns_def vk_owns_def)
  then show ?thesis using a s by (cases okay) (simp_all add: gpu_create_def)
qed

text \<open>The creation of the first semaphore, call 20 with three frames, fails.\<close>

lemma gpu_creation_does_not_leak_witness:
  "leak_free (mem_init 2000 0, failing_vk\<lparr>vk_results := (\<lambda>n. if n = 20 then -1 else 0)\<rparr>) gpu_destroy
     (gpu_create (mem_init 2000 0, failing_vk\<lparr>vk_results := (\<lambda>n. if n = 20 then -1 else 0)\<rparr>) 7)"
  by (rule gpu_creation_does_not_leak) (simp_all add: failing_vk_def vk_ok_def pends_on_def)

end
