(* ===== verification/Gpu_Frames.thy ===== *)
theory Gpu_Frames
  imports Gpu_Device
begin

text \<open>
  Frames and drawing (\<^verbatim>\<open>gpu.c\<close>): a frame's command buffer is begun, recorded, submitted with the
  frame's fence, and pending until the device is done with it.  Beginning a pending or recording
  buffer, recording into one that is not begun, submitting one that is not complete, and using a
  fence twice are outside the interface's rules (\<open>Misuse\<close>).  A wait that nothing will end is the
  value \<open>None\<close>.  The semaphores order work on the device only and carry no state here.
\<close>

section \<open>The driver's command buffers and fences\<close>

definition vk_begin_command_buffer :: "vk \<Rightarrow> handle option \<Rightarrow> (vk \<times> i32) outcome" where
  "vk_begin_command_buffer v h =
     (case h of None \<Rightarrow> Inl Null_deref
      | Some k \<Rightarrow>
          (case vk_objects v k of
             Some (Vk_command_buffer p st cs) \<Rightarrow>
               (case st of Cmd_recording \<Rightarrow> Inl Misuse | Cmd_pending f \<Rightarrow> Inl Misuse
                | _ \<Rightarrow> let (v1, r) = vk_call v
                       in if r \<noteq> 0 then Inr (v1, r)
                          else Inr (v1\<lparr>vk_objects := (vk_objects v1)(k \<mapsto> Vk_command_buffer p Cmd_recording [])\<rparr>, 0))
           | _ \<Rightarrow> Inl Use_after_free))"

definition vk_cmd :: "vk \<Rightarrow> handle option \<Rightarrow> vk_command list \<Rightarrow> vk outcome" where
  "vk_cmd v h xs =
     (case h of None \<Rightarrow> Inl Null_deref
      | Some k \<Rightarrow>
          (case vk_objects v k of
             Some (Vk_command_buffer p Cmd_recording cs) \<Rightarrow>
               Inr (v\<lparr>vk_objects := (vk_objects v)(k \<mapsto> Vk_command_buffer p Cmd_recording (cs @ xs))\<rparr>)
           | Some (Vk_command_buffer p st cs) \<Rightarrow> Inl Misuse
           | _ \<Rightarrow> Inl Use_after_free))"

definition vk_end_command_buffer :: "vk \<Rightarrow> handle option \<Rightarrow> (vk \<times> i32) outcome" where
  "vk_end_command_buffer v h =
     (case h of None \<Rightarrow> Inl Null_deref
      | Some k \<Rightarrow>
          (case vk_objects v k of
             Some (Vk_command_buffer p Cmd_recording cs) \<Rightarrow>
               let (v1, r) = vk_call v;
                   st = if r \<noteq> 0 then Cmd_invalid else Cmd_executable
               in Inr (v1\<lparr>vk_objects := (vk_objects v1)(k \<mapsto> Vk_command_buffer p st cs)\<rparr>, r)
           | Some (Vk_command_buffer p st cs) \<Rightarrow> Inl Misuse
           | _ \<Rightarrow> Inl Use_after_free))"

text \<open>The device finishes the work that was submitted with a fence.\<close>

definition complete :: "handle \<Rightarrow> vk \<Rightarrow> vk" where
  "complete f v = v\<lparr>vk_objects := (\<lambda>h. case vk_objects v h of
       Some (Vk_command_buffer p (Cmd_pending k) cs) \<Rightarrow>
         Some (Vk_command_buffer p (if k = f then Cmd_executable else Cmd_pending k) cs)
     | Some (Vk_fence b) \<Rightarrow> Some (Vk_fence (b \<or> h = f))
     | ob \<Rightarrow> ob)\<rparr>"

definition in_use :: "vk \<Rightarrow> handle \<Rightarrow> bool" where
  "in_use v f = list_ex (\<lambda>c. pends_on (vk_objects v c) f) [0..<vk_next v]"

definition vk_wait_for_fence :: "vk \<Rightarrow> handle option \<Rightarrow> (vk \<times> i32) outcome option" where
  "vk_wait_for_fence v h =
     (case h of None \<Rightarrow> Some (Inl Null_deref)
      | Some f \<Rightarrow>
          (case vk_objects v f of
             Some (Vk_fence b) \<Rightarrow>
               let (v1, r) = vk_call v
               in if r \<noteq> 0 \<or> b then Some (Inr (v1, r))
                  else if in_use v f then Some (Inr (complete f v1, 0)) else None
           | _ \<Rightarrow> Some (Inl Use_after_free)))"

definition vk_reset_fence :: "vk \<Rightarrow> handle option \<Rightarrow> (vk \<times> i32) outcome" where
  "vk_reset_fence v h =
     (case h of None \<Rightarrow> Inl Null_deref
      | Some f \<Rightarrow>
          (case vk_objects v f of
             Some (Vk_fence b) \<Rightarrow>
               if in_use v f then Inl Misuse
               else let (v1, r) = vk_call v
                    in if r \<noteq> 0 then Inr (v1, r) else Inr (v1\<lparr>vk_objects := (vk_objects v1)(f \<mapsto> Vk_fence False)\<rparr>, 0)
           | _ \<Rightarrow> Inl Use_after_free))"

definition vk_queue_submit :: "vk \<Rightarrow> handle option \<Rightarrow> handle option \<Rightarrow> (vk \<times> i32) outcome" where
  "vk_queue_submit v h fence =
     (case (h, fence) of
        (Some k, Some f) \<Rightarrow>
          (case (vk_objects v k, vk_objects v f) of
             (Some (Vk_command_buffer p st cs), Some (Vk_fence b)) \<Rightarrow>
               if st = Cmd_executable \<and> \<not> b \<and> \<not> in_use v f
               then let (v1, r) = vk_call v
                    in if r \<noteq> 0 then Inr (v1, r)
                       else Inr (v1\<lparr>vk_objects := (vk_objects v1)(k \<mapsto> Vk_command_buffer p (Cmd_pending f) cs)\<rparr>, 0)
               else Inl Misuse
           | _ \<Rightarrow> Inl Use_after_free)
      | _ \<Rightarrow> Inl Null_deref)"

section \<open>Frames\<close>

definition frame_at :: "gpu_t \<Rightarrow> nat \<Rightarrow> (gpu_frame_t \<times> gpu_cmd_buffer_t) outcome" where
  "frame_at g i =
     (if i < length (frames_of g)
      then case fr_cmd_buffer (frames_of g ! i) of None \<Rightarrow> Inl Null_deref | Some c \<Rightarrow> Inr (frames_of g ! i, c)
      else Inl Out_of_bounds)"

text \<open>The command buffer that is returned is the frame's, named by the frame's index.\<close>

definition gpu_frame_begin :: "gpu_creation \<Rightarrow> (gpu_creation \<times> nat option) outcome" where
  "gpu_frame_begin s =
     (case s of (m, v, g) \<Rightarrow>
      bind_ok (frame_at g (frame_index g)) (\<lambda>(f, c).
      bind_ok (vk_begin_command_buffer v (cb_buffer c)) (\<lambda>(v1, r).
      if r \<noteq> 0 then Inr ((m, v1, g), None)
      else bind_ok (vk_cmd v1 (cb_buffer c)
             [Begin_render_pass (render_pass g) (fr_frame_buffer f) (frame_width g) (frame_height g),
              Set_viewport (frame_width g) (frame_height g), Set_scissor (frame_width g) (frame_height g)]) (\<lambda>v2.
           Inr ((m, v2, g), Some (frame_index g))))))"

text \<open>Failures of the calls are printed and the next call is made.\<close>

definition gpu_frame_end :: "gpu_creation \<Rightarrow> gpu_creation outcome option" where
  "gpu_frame_end s =
     (case s of (m, v, g) \<Rightarrow>
      let i = frame_index g
      in if frame_count g = 0 then Some (Inl Div_by_zero)
         else let g1 = g\<lparr>frame_index := (i + 1) mod frame_count g\<rparr>
         in case bind_ok (frame_at g i) (\<lambda>(f, c).
              bind_ok (vk_cmd v (cb_buffer c) [End_render_pass]) (\<lambda>v1.
              bind_ok (vk_end_command_buffer v1 (cb_buffer c)) (\<lambda>(v2, r2).
              Inr (f, c, fst (vk_call v2)))))
            of Inl e \<Rightarrow> Some (Inl e)
             | Inr (f, c, v3) \<Rightarrow>
                 (case vk_wait_for_fence v3 (fr_fence f) of
                    None \<Rightarrow> None
                  | Some w \<Rightarrow> Some (bind_ok w (\<lambda>(v4, r4).
                      bind_ok (vk_reset_fence v4 (fr_fence f)) (\<lambda>(v5, r5).
                      bind_ok (vk_queue_submit v5 (cb_buffer c) (fr_fence f)) (\<lambda>(v6, r6).
                      Inr (m, fst (vk_call v6), g1)))))))"

section \<open>Commands\<close>

definition put_cmd_buffer :: "gpu_t \<Rightarrow> nat \<Rightarrow> gpu_cmd_buffer_t \<Rightarrow> gpu_t" where
  "put_cmd_buffer g i c = update_frame g i (\<lambda>f. f\<lparr>fr_cmd_buffer := Some c\<rparr>)"

definition gpu_cmd_pipeline_bind :: "gpu_creation \<Rightarrow> nat \<Rightarrow> gpu_pipeline_t \<Rightarrow> gpu_creation outcome" where
  "gpu_cmd_pipeline_bind s i pipeline =
     (case s of (m, v, g) \<Rightarrow>
      bind_ok (frame_at g i) (\<lambda>(f, c).
      bind_ok (vk_cmd v (cb_buffer c) [Bind_pipeline (pipe pipeline)]) (\<lambda>v1.
      Inr (m, v1, put_cmd_buffer g i (c\<lparr>cb_pipeline_layout := pipeline_layout pipeline\<rparr>)))))"

definition gpu_cmd_descriptor_bind :: "gpu_creation \<Rightarrow> nat \<Rightarrow> gpu_descriptor_t \<Rightarrow> gpu_creation outcome" where
  "gpu_cmd_descriptor_bind s i descriptor =
     (case s of (m, v, g) \<Rightarrow>
      bind_ok (frame_at g i) (\<lambda>(f, c).
      bind_ok (vk_cmd v (cb_buffer c) [Bind_descriptor_set (cb_pipeline_layout c) (gd_set descriptor)]) (\<lambda>v1.
      Inr (m, v1, g))))"

definition gpu_cmd_mesh_bind :: "gpu_creation \<Rightarrow> nat \<Rightarrow> gpu_mesh_t \<Rightarrow> gpu_creation outcome" where
  "gpu_cmd_mesh_bind s i mesh =
     (case s of (m, v, g) \<Rightarrow>
      bind_ok (frame_at g i) (\<lambda>(f, c).
      bind_ok (if vertex_count mesh \<noteq> 0 then vk_cmd v (cb_buffer c) [Bind_vertex_buffer (vertex_buffer mesh)] else Inr v) (\<lambda>v1.
      let c1 = c\<lparr>cb_vertex_count := if vertex_count mesh \<noteq> 0 then vertex_count mesh else 0\<rparr>
      in bind_ok (if index_count mesh \<noteq> 0 then vk_cmd v1 (cb_buffer c) [Bind_index_buffer (index_buffer mesh)] else Inr v1) (\<lambda>v2.
      let c2 = c1\<lparr>cb_index_count := if index_count mesh \<noteq> 0 then index_count mesh else 0\<rparr>
      in Inr (m, v2, put_cmd_buffer g i c2)))))"

definition gpu_cmd_draw :: "gpu_creation \<Rightarrow> nat \<Rightarrow> gpu_creation outcome" where
  "gpu_cmd_draw s i =
     (case s of (m, v, g) \<Rightarrow>
      bind_ok (frame_at g i) (\<lambda>(f, c).
      if cb_index_count c \<noteq> 0 then bind_ok (vk_cmd v (cb_buffer c) [Draw_indexed (cb_index_count c)]) (\<lambda>v1. Inr (m, v1, g))
      else if cb_vertex_count c \<noteq> 0 then bind_ok (vk_cmd v (cb_buffer c) [Draw (cb_vertex_count c)]) (\<lambda>v1. Inr (m, v1, g))
      else Inr (m, v, g)))"

section \<open>A frame from beginning to end\<close>

text \<open>The renderer's use: for each thing to draw its pipeline, mesh and descriptor are bound and it is drawn.\<close>

type_synonym drawing = "gpu_pipeline_t \<times> gpu_mesh_t \<times> gpu_descriptor_t"

definition draw_one :: "gpu_creation \<Rightarrow> nat \<Rightarrow> drawing \<Rightarrow> gpu_creation outcome" where
  "draw_one s i d =
     (case d of (pipeline, mesh, descriptor) \<Rightarrow>
      bind_ok (gpu_cmd_pipeline_bind s i pipeline) (\<lambda>s1.
      bind_ok (gpu_cmd_mesh_bind s1 i mesh) (\<lambda>s2.
      bind_ok (gpu_cmd_descriptor_bind s2 i descriptor) (\<lambda>s3. gpu_cmd_draw s3 i))))"

fun draw_all :: "gpu_creation \<Rightarrow> nat \<Rightarrow> drawing list \<Rightarrow> gpu_creation outcome" where
  "draw_all s i [] = Inr s"
| "draw_all s i (d # ds) = bind_ok (draw_one s i d) (\<lambda>s'. draw_all s' i ds)"

definition draw_frame :: "gpu_creation \<Rightarrow> drawing list \<Rightarrow> gpu_creation outcome option" where
  "draw_frame s ds =
     (case gpu_frame_begin s of
        Inl e \<Rightarrow> Some (Inl e)
      | Inr (s1, None) \<Rightarrow> Some (Inr s1)
      | Inr (s1, Some i) \<Rightarrow> (case draw_all s1 i ds of Inl e \<Rightarrow> Some (Inl e) | Inr s2 \<Rightarrow> gpu_frame_end s2))"

text \<open>What the device is then asked to do.\<close>

definition draw_commands :: "drawing \<Rightarrow> vk_command list" where
  "draw_commands d = (case d of (pipeline, mesh, descriptor) \<Rightarrow>
     [Bind_pipeline (pipe pipeline)] @
     (if vertex_count mesh \<noteq> 0 then [Bind_vertex_buffer (vertex_buffer mesh)] else []) @
     (if index_count mesh \<noteq> 0 then [Bind_index_buffer (index_buffer mesh)] else []) @
     [Bind_descriptor_set (pipeline_layout pipeline) (gd_set descriptor)] @
     (if index_count mesh \<noteq> 0 then [Draw_indexed (index_count mesh)]
      else if vertex_count mesh \<noteq> 0 then [Draw (vertex_count mesh)] else []))"

definition frame_commands :: "gpu_t \<Rightarrow> gpu_frame_t \<Rightarrow> drawing list \<Rightarrow> vk_command list" where
  "frame_commands g f ds =
     [Begin_render_pass (render_pass g) (fr_frame_buffer f) (frame_width g) (frame_height g),
      Set_viewport (frame_width g) (frame_height g), Set_scissor (frame_width g) (frame_height g)] @
     concat (map draw_commands ds) @ [End_render_pass]"

text \<open>All frames have their own buffer and fence, in one of the two states, and nothing else is pending.\<close>

definition frame_pending :: "vk \<Rightarrow> gpu_frame_t \<Rightarrow> bool" where
  "frame_pending v f \<longleftrightarrow> (\<exists>k q. frame_cmd f = Some k \<and> fr_fence f = Some q \<and> pends_on (vk_objects v k) q)"

definition frames_inv :: "vk \<Rightarrow> gpu_t \<Rightarrow> bool" where
  "frames_inv v g \<longleftrightarrow> vk_ok v \<and> frame_count g = length (frames_of g) \<and> frame_index g < frame_count g \<and>
     (\<forall>f \<in> set (frames_of g). frame_state v f) \<and>
     distinct (map frame_cmd (frames_of g)) \<and> distinct (map fr_fence (frames_of g)) \<and>
     (\<forall>c q. pends_on (vk_objects v c) q \<longrightarrow> (\<exists>f \<in> set (frames_of g). frame_cmd f = Some c \<and> fr_fence f = Some q))"

lemma in_use_iff: "vk_ok v \<Longrightarrow> in_use v q \<longleftrightarrow> (\<exists>c. pends_on (vk_objects v c) q)"
  by (fastforce simp: in_use_def list_ex_iff vk_ok_def pends_on_def split: option.splits)

lemma pends_on_simps [simp]:
  "pends_on None q = False" "pends_on (Some (Vk_fence b)) q = False"
  "pends_on (Some (Vk_command_buffer p st cs)) q = (st = Cmd_pending q)"
  by (auto simp: pends_on_def split: cmd_state.split)

lemma put_cmd_buffer_frames:
  "frames_of (put_cmd_buffer g i c) = (frames_of g)[i := (frames_of g ! i)\<lparr>fr_cmd_buffer := Some c\<rparr>]"
  by (simp add: put_cmd_buffer_def)

lemma put_cmd_buffer_sel [simp]:
  "render_pass (put_cmd_buffer g i c) = render_pass g" "frame_width (put_cmd_buffer g i c) = frame_width g"
  "frame_height (put_cmd_buffer g i c) = frame_height g" "frame_count (put_cmd_buffer g i c) = frame_count g"
  "frame_index (put_cmd_buffer g i c) = frame_index g"
  by (simp_all add: put_cmd_buffer_def update_frame_def)

lemma put_cmd_buffer_twice:
  "put_cmd_buffer (put_cmd_buffer g i c) i c' = put_cmd_buffer g i c'"
proof (cases "gpu_frames g")
  case (Some pf)
  obtain p fs where "pf = (p, fs)" by (cases pf)
  with Some show ?thesis by (cases "i < length fs") (simp_all add: put_cmd_buffer_def update_frame_def list_update_beyond)
qed (simp add: put_cmd_buffer_def update_frame_def)

lemma put_cmd_buffer_same:
  assumes "i < length (frames_of g)" and "fr_cmd_buffer (frames_of g ! i) = Some c"
  shows "put_cmd_buffer g i c = g"
proof -
  have "(frames_of g ! i)\<lparr>fr_cmd_buffer := Some c\<rparr> = frames_of g ! i" using assms(2) by (cases "frames_of g ! i") simp
  then show ?thesis using assms(1)
    by (cases g) (auto simp: put_cmd_buffer_def update_frame_def frames_of_def split: option.splits)
qed

lemma frame_at_put:
  "i < length (frames_of g) \<Longrightarrow>
   frame_at (put_cmd_buffer g i c) i = Inr ((frames_of g ! i)\<lparr>fr_cmd_buffer := Some c\<rparr>, c)"
  by (simp add: frame_at_def put_cmd_buffer_frames)

text \<open>The driver while \<open>cs\<close> is recorded.\<close>

definition recording :: "vk \<Rightarrow> handle \<Rightarrow> handle option \<Rightarrow> vk_command list \<Rightarrow> vk" where
  "recording v k p cs = v\<lparr>vk_calls := Suc (vk_calls v), vk_objects := (vk_objects v)(k \<mapsto> Vk_command_buffer p Cmd_recording cs)\<rparr>"

lemma vk_cmd_recording [simp]: "vk_cmd (recording v k p cs) (Some k) xs = Inr (recording v k p (cs @ xs))"
  by (simp add: vk_cmd_def recording_def)

lemma draw_one_recording:
  assumes i: "i < length (frames_of g)" and c: "cb_buffer c = Some k"
  shows "\<exists>c'. cb_buffer c' = Some k \<and> draw_one (m, recording v k p cs, put_cmd_buffer g i c) i d =
    Inr (m, recording v k p (cs @ draw_commands d), put_cmd_buffer g i c')"
proof -
  obtain pl ms de where d: "d = (pl, ms, de)" by (cases d)
  define c1 where "c1 = c\<lparr>cb_pipeline_layout := pipeline_layout pl\<rparr>"
  define c2 where "c2 = c1\<lparr>cb_vertex_count := vertex_count ms, cb_index_count := index_count ms\<rparr>"
  define cs1 where "cs1 = cs @ [Bind_pipeline (pipe pl)]"
  define cs2 where "cs2 = cs1 @ (if vertex_count ms \<noteq> 0 then [Bind_vertex_buffer (vertex_buffer ms)] else []) @
     (if index_count ms \<noteq> 0 then [Bind_index_buffer (index_buffer ms)] else [])"
  define cs3 where "cs3 = cs2 @ [Bind_descriptor_set (pipeline_layout pl) (gd_set de)]"
  have b: "cb_buffer c1 = Some k" "cb_buffer c2 = Some k" by (simp_all add: c1_def c2_def c)
  have 1: "gpu_cmd_pipeline_bind (m, recording v k p cs, put_cmd_buffer g i c) i pl = Inr (m, recording v k p cs1, put_cmd_buffer g i c1)"
    by (simp add: gpu_cmd_pipeline_bind_def frame_at_put [OF i] c put_cmd_buffer_twice cs1_def c1_def)
  have 2: "gpu_cmd_mesh_bind (m, recording v k p cs1, put_cmd_buffer g i c1) i ms = Inr (m, recording v k p cs2, put_cmd_buffer g i c2)"
    by (cases "vertex_count ms = 0"; cases "index_count ms = 0")
      (simp_all add: gpu_cmd_mesh_bind_def frame_at_put [OF i] b put_cmd_buffer_twice cs2_def c2_def)
  have 3: "gpu_cmd_descriptor_bind (m, recording v k p cs2, put_cmd_buffer g i c2) i de = Inr (m, recording v k p cs3, put_cmd_buffer g i c2)"
    by (simp add: gpu_cmd_descriptor_bind_def frame_at_put [OF i] b cs3_def) (simp add: c2_def c1_def)
  have 4: "gpu_cmd_draw (m, recording v k p cs3, put_cmd_buffer g i c2) i =
      Inr (m, recording v k p (cs @ draw_commands d), put_cmd_buffer g i c2)"
    using b by (cases "index_count ms = 0"; cases "vertex_count ms = 0")
      (simp_all add: gpu_cmd_draw_def frame_at_put [OF i] c2_def d draw_commands_def cs3_def cs2_def cs1_def)
  show ?thesis using 1 2 3 4 b(2) by (intro exI [of _ c2]) (simp add: draw_one_def d)
qed

lemma draw_all_recording:
  assumes "i < length (frames_of g)" and "cb_buffer c = Some k"
  shows "\<exists>c'. cb_buffer c' = Some k \<and> draw_all (m, recording v k p cs, put_cmd_buffer g i c) i ds =
    Inr (m, recording v k p (cs @ concat (map draw_commands ds)), put_cmd_buffer g i c')"
  using assms(2)
proof (induction ds arbitrary: c cs)
  case Nil
  then show ?case by auto
next
  case (Cons d ds)
  from draw_one_recording [OF assms(1) Cons.prems, of m v p cs d] obtain c1 where
    1: "cb_buffer c1 = Some k" "draw_one (m, recording v k p cs, put_cmd_buffer g i c) i d =
      Inr (m, recording v k p (cs @ draw_commands d), put_cmd_buffer g i c1)" by blast
  from Cons.IH [OF 1(1), of "cs @ draw_commands d"] 1(2) show ?case by (auto simp del: split_paired_Ex)
qed

lemma not_in_use: "(\<And>c. \<not> pends_on (vk_objects v c) q) \<Longrightarrow> \<not> in_use v q"
  by (simp add: in_use_def list_ex_iff)

lemma frame_begin_free:
  assumes f: "frame_index g < length (frames_of g)" "fr_cmd_buffer (frames_of g ! frame_index g) = Some c" "cb_buffer c = Some k"
    and k: "vk_objects v k = Some (Vk_command_buffer p st cs)" "st = Cmd_initial \<or> st = Cmd_executable"
    and r: "\<And>n. vk_results v n = 0"
  shows "gpu_frame_begin (m, v, g) = Inr ((m, recording v k p
    [Begin_render_pass (render_pass g) (fr_frame_buffer (frames_of g ! frame_index g)) (frame_width g) (frame_height g),
     Set_viewport (frame_width g) (frame_height g), Set_scissor (frame_width g) (frame_height g)], g), Some (frame_index g))"
proof -
  have "vk_begin_command_buffer v (Some k) = Inr (recording v k p [], 0)"
    using k by (auto simp: vk_begin_command_buffer_def vk_call_def r recording_def)
  then show ?thesis by (simp add: gpu_frame_begin_def frame_at_def f)
qed

lemma frame_end_recording:
  assumes i: "frame_index g < length (frames_of g)" and q: "fr_fence (frames_of g ! frame_index g) = Some q"
    and c: "cb_buffer c = Some k" and n: "frame_count g \<noteq> 0"
    and fence: "vk_objects v q = Some (Vk_fence True)" and kq: "k \<noteq> q"
    and free: "\<And>h. h \<noteq> k \<Longrightarrow> \<not> pends_on (vk_objects v h) q" and r: "\<And>n. vk_results v n = 0"
  shows "\<exists>v'. gpu_frame_end (m, recording v k p cs, put_cmd_buffer g (frame_index g) c) =
      Some (Inr (m, v', (put_cmd_buffer g (frame_index g) c)\<lparr>frame_index := (frame_index g + 1) mod frame_count g\<rparr>)) \<and>
    vk_objects v' = (vk_objects v)(k \<mapsto> Vk_command_buffer p (Cmd_pending q) (cs @ [End_render_pass]), q \<mapsto> Vk_fence False) \<and>
    vk_next v' = vk_next v \<and> vk_results v' = vk_results v"
proof -
  let ?i = "frame_index g"
  define ob where "ob = Vk_command_buffer p Cmd_executable (cs @ [End_render_pass])"
  define v3 where "v3 = v\<lparr>vk_calls := vk_calls v + 3, vk_objects := (vk_objects v)(k \<mapsto> ob)\<rparr>"
  define v5 where "v5 = v\<lparr>vk_calls := vk_calls v + 5, vk_objects := (vk_objects v)(k \<mapsto> ob, q \<mapsto> Vk_fence False)\<rparr>"
  define v6 where "v6 = v\<lparr>vk_calls := vk_calls v + 7,
    vk_objects := (vk_objects v)(k \<mapsto> Vk_command_buffer p (Cmd_pending q) (cs @ [End_render_pass]), q \<mapsto> Vk_fence False)\<rparr>"
  define v2 where "v2 = v\<lparr>vk_calls := vk_calls v + 2, vk_objects := (vk_objects v)(k \<mapsto> ob)\<rparr>"
  define v4 where "v4 = v3\<lparr>vk_calls := vk_calls v + 4\<rparr>"
  have e: "vk_end_command_buffer (recording v k p (cs @ [End_render_pass])) (Some k) = Inr (v2, 0)"
    by (simp add: vk_end_command_buffer_def recording_def vk_call_def r ob_def v2_def)
  have a: "fst (vk_call v2) = v3" by (simp add: vk_call_def v2_def v3_def)
  have w: "vk_wait_for_fence v3 (Some q) = Some (Inr (v4, 0))"
    using fence kq by (simp add: vk_wait_for_fence_def v3_def v4_def vk_call_def r)
  have "\<not> in_use v4 q" by (rule not_in_use) (use free in \<open>auto simp: v4_def v3_def ob_def\<close>)
  then have rs: "vk_reset_fence v4 (Some q) = Inr (v5, 0)"
    using fence kq by (simp add: vk_reset_fence_def v4_def v3_def vk_call_def r v5_def)
  have "\<not> in_use v5 q" by (rule not_in_use) (use free in \<open>auto simp: v5_def ob_def\<close>)
  define v7 where "v7 = v6\<lparr>vk_calls := vk_calls v + 6\<rparr>"
  have sb: "vk_queue_submit v5 (Some k) (Some q) = Inr (v7, 0)"
    using kq \<open>\<not> in_use v5 q\<close> by (simp add: vk_queue_submit_def v5_def ob_def vk_call_def r v6_def v7_def fun_upd_twist)
  have p: "fst (vk_call v7) = v6" by (simp add: vk_call_def v6_def v7_def)
  have "gpu_frame_end (m, recording v k p cs, put_cmd_buffer g ?i c) =
      Some (Inr (m, v6, (put_cmd_buffer g ?i c)\<lparr>frame_index := (?i + 1) mod frame_count g\<rparr>))"
    using n by (simp add: gpu_frame_end_def Let_def frame_at_put [OF i] c q e a w rs sb p)
  then show ?thesis by (intro exI [of _ v6]) (simp add: v6_def)
qed

lemma frame_pending_misuse:
  assumes "frame_index g < length (frames_of g)" and "frame_pending v (frames_of g ! frame_index g)"
  shows "gpu_frame_begin (m, v, g) = Inl Misuse"
proof -
  obtain k q where k: "frame_cmd (frames_of g ! frame_index g) = Some k" "pends_on (vk_objects v k) q"
    using assms(2) by (auto simp: frame_pending_def)
  then obtain c where c: "fr_cmd_buffer (frames_of g ! frame_index g) = Some c" "cb_buffer c = Some k"
    by (cases "fr_cmd_buffer (frames_of g ! frame_index g)") (simp_all add: frame_cmd_def)
  obtain p cs where "vk_objects v k = Some (Vk_command_buffer p (Cmd_pending q) cs)"
    using k(2) by (auto simp: pends_on_def split: option.splits vk_object.splits cmd_state.splits)
  then show ?thesis using assms(1) c by (simp add: gpu_frame_begin_def frame_at_def vk_begin_command_buffer_def)
qed

lemma frames_inv_pends:
  "frames_inv v g \<Longrightarrow> pends_on (vk_objects v c) q \<Longrightarrow> \<exists>f \<in> set (frames_of g). frame_cmd f = Some c \<and> fr_fence f = Some q"
  unfolding frames_inv_def by blast

lemma map_list_update_same: "i < length xs \<Longrightarrow> f y = f (xs ! i) \<Longrightarrow> map f (xs[i := y]) = map f xs"
  by (metis list_update_id map_update)

text \<open>Submitting the current frame keeps the invariant.\<close>

lemma submitted_frames_inv:
  assumes inv: "frames_inv v g" and i: "i < length (frames_of g)"
    and f: "frame_cmd (frames_of g ! i) = Some k" "fr_fence (frames_of g ! i) = Some q"
    and ob: "vk_objects v k = Some (Vk_command_buffer p st cs)" "vk_objects v q = Some (Vk_fence b)"
    and v': "vk_objects v' = (vk_objects v)(k \<mapsto> Vk_command_buffer p (Cmd_pending q) cs', q \<mapsto> Vk_fence False)" "vk_next v' = vk_next v"
    and g': "frames_of g' = (frames_of g)[i := f']" "frame_count g' = frame_count g" "frame_index g' < frame_count g"
    and f': "frame_cmd f' = Some k" "fr_fence f' = Some q"
  shows "frames_inv v' g'"
  unfolding frames_inv_def
proof (intro conjI allI ballI impI)
  have kq: "k \<noteq> q" using ob by auto
  show "vk_ok v'" using inv ob unfolding frames_inv_def vk_ok_def v' by auto
  show "frame_count g' = length (frames_of g')" using inv by (simp add: frames_inv_def g')
  show "frame_index g' < frame_count g'" by (simp add: g')
  show "distinct (map frame_cmd (frames_of g'))" "distinct (map fr_fence (frames_of g'))"
    using inv f f' by (simp_all add: frames_inv_def g' map_list_update_same [OF i])
  show "frame_state v' x" if x: "x \<in> set (frames_of g')" for x
  proof -
    obtain j where j: "j < length (frames_of g)" "x = frames_of g' ! j"
      using x by (auto simp: g' in_set_conv_nth)
    show ?thesis
    proof (cases "j = i")
      case True
      then show ?thesis using j i f' kq by (auto simp: g' frame_state_def v')
    next
      case False
      have x: "x = frames_of g ! j" using False j by (simp add: g')
      have "frame_state v x" using inv j(1) by (simp add: frames_inv_def x)
      moreover have "frame_cmd x \<noteq> Some k" "fr_fence x \<noteq> Some q"
        using inv False j(1) i f unfolding frames_inv_def x by (metis distinct_conv_nth length_map nth_map)+
      ultimately show ?thesis using ob unfolding frame_state_def v' by (fastforce simp: fun_upd_def)
    qed
  qed
  show "\<exists>f\<in>set (frames_of g'). frame_cmd f = Some c \<and> fr_fence f = Some x" if "pends_on (vk_objects v' c) x" for c x
  proof (cases "c = k")
    case True
    then have "x = q" using that kq by (simp add: v')
    moreover have "f' \<in> set (frames_of g')" using i by (simp add: g' set_update_memI)
    ultimately show ?thesis using True f' by blast
  next
    case False
    then have "pends_on (vk_objects v c) x" using that by (auto simp: v' split: if_splits)
    then obtain y where "y \<in> set (frames_of g)" and y: "frame_cmd y = Some c" "fr_fence y = Some x"
      using frames_inv_pends [OF inv] by blast
    then obtain j where j: "j < length (frames_of g)" "y = frames_of g ! j" by (auto simp: in_set_conv_nth)
    have "j \<noteq> i" using j y f False by auto
    then have "y \<in> set (frames_of g')" using j by (auto simp: g' in_set_conv_nth intro!: exI [of _ j])
    with y show ?thesis by blast
  qed
qed

lemma draw_frame_free:
  assumes inv: "frames_inv v g" and r: "\<And>n. vk_results v n = 0"
    and free: "\<not> frame_pending v (frames_of g ! frame_index g)"
  shows "\<exists>v' g' k q p. draw_frame (m, v, g) ds = Some (Inr (m, v', g')) \<and> frames_inv v' g' \<and>
    frame_index g' = (frame_index g + 1) mod frame_count g \<and> frame_count g' = frame_count g \<and>
    frame_cmd (frames_of g ! frame_index g) = Some k \<and> fr_fence (frames_of g ! frame_index g) = Some q \<and>
    frame_pending v' (frames_of g' ! frame_index g) \<and>
    vk_objects v' = (vk_objects v)(k \<mapsto> Vk_command_buffer p (Cmd_pending q) (frame_commands g (frames_of g ! frame_index g) ds),
      q \<mapsto> Vk_fence False)"
proof -
  let ?i = "frame_index g" and ?f = "frames_of g ! frame_index g"
  have i: "?i < length (frames_of g)" and n: "frame_count g \<noteq> 0" "frame_count g = length (frames_of g)"
    using inv by (auto simp: frames_inv_def)
  have "frame_state v ?f" using inv i by (simp add: frames_inv_def)
  with free obtain k q p st cs where kq: "frame_cmd ?f = Some k" "fr_fence ?f = Some q"
    and ob: "vk_objects v k = Some (Vk_command_buffer p st cs)" "vk_objects v q = Some (Vk_fence True)"
    and st: "st = Cmd_initial \<or> st = Cmd_executable"
    unfolding frame_state_def frame_pending_def by fastforce
  obtain c where c: "fr_cmd_buffer ?f = Some c" "cb_buffer c = Some k"
    using kq(1) by (cases "fr_cmd_buffer ?f") (auto simp: frame_cmd_def)
  have ne: "k \<noteq> q" using ob by auto
  have others: "\<not> pends_on (vk_objects v h) q" if "h \<noteq> k" for h
  proof
    assume "pends_on (vk_objects v h) q"
    then obtain y where y: "y \<in> set (frames_of g)" "frame_cmd y = Some h" "fr_fence y = Some q"
      using frames_inv_pends [OF inv] by blast
    then have "y = ?f" using inv i kq(2) unfolding frames_inv_def by (metis in_set_conv_nth distinct_conv_nth length_map nth_map)
    then show False using y kq that by simp
  qed
  let ?start = "[Begin_render_pass (render_pass g) (fr_frame_buffer ?f) (frame_width g) (frame_height g),
     Set_viewport (frame_width g) (frame_height g), Set_scissor (frame_width g) (frame_height g)]"
  have b: "gpu_frame_begin (m, v, g) = Inr ((m, recording v k p ?start, put_cmd_buffer g ?i c), Some ?i)"
    using frame_begin_free [OF i c ob(1) st r] by (simp add: put_cmd_buffer_same [OF i c(1)])
  from draw_all_recording [OF i c(2), of m v p ?start ds] obtain c' where
    c': "cb_buffer c' = Some k" and d: "draw_all (m, recording v k p ?start, put_cmd_buffer g ?i c) ?i ds =
      Inr (m, recording v k p (?start @ concat (map draw_commands ds)), put_cmd_buffer g ?i c')" by blast
  from frame_end_recording [OF i kq(2) c' n(1) ob(2) ne others r, of m p "?start @ concat (map draw_commands ds)"]
  obtain v' where e: "gpu_frame_end (m, recording v k p (?start @ concat (map draw_commands ds)), put_cmd_buffer g ?i c') =
      Some (Inr (m, v', (put_cmd_buffer g ?i c')\<lparr>frame_index := (?i + 1) mod frame_count g\<rparr>))"
    and v': "vk_objects v' = (vk_objects v)(k \<mapsto> Vk_command_buffer p (Cmd_pending q) (frame_commands g ?f ds), q \<mapsto> Vk_fence False)"
      "vk_next v' = vk_next v"
    by (auto simp: frame_commands_def)
  define g' where "g' = (put_cmd_buffer g ?i c')\<lparr>frame_index := (?i + 1) mod frame_count g\<rparr>"
  let ?f' = "?f\<lparr>fr_cmd_buffer := Some c'\<rparr>"
  have g': "frames_of g' = (frames_of g)[?i := ?f']" "frame_count g' = frame_count g" "frame_index g' = (?i + 1) mod frame_count g"
    using put_cmd_buffer_frames [of g ?i c'] by (simp_all add: g'_def frames_of_def)
  have f': "frame_cmd ?f' = Some k" "fr_fence ?f' = Some q" using kq(2) c' by (simp_all add: frame_cmd_def)
  have "frame_index g' < frame_count g" using n(1) by (simp add: g')
  from submitted_frames_inv [OF inv i kq ob v' g'(1,2) this f'] have "frames_inv v' g'" .
  moreover have "frame_pending v' (frames_of g' ! ?i)" using i f' ne by (simp add: g' frame_pending_def v')
  moreover have "draw_frame (m, v, g) ds = Some (Inr (m, v', g'))" using b d e by (simp add: draw_frame_def g'_def)
  ultimately show ?thesis using kq g' v'(1) by blast
qed

text \<open>
  C31.  A frame: when the driver reports no error, and the frame's buffer is not pending, beginning,
  drawing and ending a frame never waits and never breaks the driver's rules; the device is given exactly the
  render pass, the viewport, the bindings of each thing that is drawn with its own pipeline layout and
  counts, and the end of the pass; the buffer is pending on the frame's own fence, no other
  object changes, and the next frame in the ring is current.  When the frame's buffer is still
  pending, \<^verbatim>\<open>gpu_frame_begin\<close> does not wait for it: it begins a buffer in use.
\<close>

theorem gpu_frame_submits_drawings:
  assumes "frames_inv v g" and "\<And>n. vk_results v n = 0"
  shows "if frame_pending v (frames_of g ! frame_index g) then draw_frame (m, v, g) ds = Some (Inl Misuse)
    else \<exists>v' g' k q p. draw_frame (m, v, g) ds = Some (Inr (m, v', g')) \<and> frames_inv v' g' \<and>
      frame_index g' = (frame_index g + 1) mod frame_count g \<and>
      frame_cmd (frames_of g ! frame_index g) = Some k \<and> fr_fence (frames_of g ! frame_index g) = Some q \<and>
      vk_objects v' = (vk_objects v)(k \<mapsto> Vk_command_buffer p (Cmd_pending q) (frame_commands g (frames_of g ! frame_index g) ds),
        q \<mapsto> Vk_fence False)"
proof (cases "frame_pending v (frames_of g ! frame_index g)")
  case True
  have "frame_index g < length (frames_of g)" using assms(1) by (auto simp: frames_inv_def)
  from frame_pending_misuse [OF this True] True show ?thesis by (simp add: draw_frame_def)
next
  case False
  from draw_frame_free [OF assms False, of m ds] False show ?thesis by (auto simp del: split_paired_Ex)
qed

section \<open>A created device is ready\<close>

text \<open>No stage of the creation leaves work pending.\<close>

definition quiet :: "gpu_creation \<Rightarrow> bool" where
  "quiet s = (case s of (m, v, g) \<Rightarrow> \<forall>c f. \<not> pends_on (vk_objects v c) f)"

definition quiet_stage :: "gpu_stage \<Rightarrow> bool" where
  "quiet_stage f \<longleftrightarrow> (\<forall>s. quiet s \<longrightarrow> (case f s of Inl e \<Rightarrow> True | Inr (s', okay) \<Rightarrow> quiet s'))"

lemma quiet_stageI: "(\<And>s s' okay. quiet s \<Longrightarrow> f s = Inr (s', okay) \<Longrightarrow> quiet s') \<Longrightarrow> quiet_stage f"
  unfolding quiet_stage_def by (intro allI impI) (simp split: sum.split prod.split del: split_paired_All)

lemma quiet_stageD: "quiet_stage f \<Longrightarrow> quiet s \<Longrightarrow> f s = Inr (s', okay) \<Longrightarrow> quiet s'"
  unfolding quiet_stage_def by (drule spec [of _ s]) simp

named_theorems quiet_rules

lemma quiet_then [quiet_rules]:
  assumes "quiet_stage f" and "quiet_stage g"
  shows "quiet_stage (then_stage f g)"
proof (rule quiet_stageI)
  fix s s' okay
  assume q: "quiet s" and s': "then_stage f g s = Inr (s', okay)"
  then obtain s1 okay1 where f: "f s = Inr (s1, okay1)" by (cases "f s") (auto simp: then_stage_def)
  note q1 = quiet_stageD [OF assms(1) q f]
  show "quiet s'"
  proof (cases okay1)
    case True
    then have "g s1 = Inr (s', okay)" using s' f by (simp add: then_stage_def)
    then show ?thesis by (rule quiet_stageD [OF assms(2) q1])
  next
    case False
    then show ?thesis using s' f q1 by (simp add: then_stage_def)
  qed
qed

lemma quiet_for: "(\<And>i. quiet_stage (f i)) \<Longrightarrow> quiet_stage (for_stage f is)"
proof (induction "is")
  case Nil
  then show ?case by (simp add: quiet_stage_def)
next
  case (Cons i js)
  then have "quiet_stage (then_stage (f i) (for_stage f js))" by (intro quiet_then) auto
  then show ?case by (simp add: quiet_stage_def)
qed

lemma quiet_with_driver: 
  assumes "\<And>v g. quiet_stage (F v g)" and "\<And>m v g. f (m, v, g) = F v g (m, v, g)"
  shows "quiet_stage f"
proof (rule quiet_stageI)
  fix s s' okay
  assume "quiet s" and "f s = Inr (s', okay)"
  then show "quiet s'" by (cases s) (auto simp: assms(2) intro: quiet_stageD [OF assms(1)])
qed

lemma quiet_for_frames [quiet_rules]: "(\<And>i. quiet_stage (f i)) \<Longrightarrow> quiet_stage (for_frames f)"
  by (rule quiet_with_driver [of "\<lambda>v g. for_stage f [0..<frame_count g]"]) (simp_all add: quiet_for for_frames_def)

lemma quiet_call [quiet_rules]: "quiet_stage call_stage"
  by (auto simp: quiet_stage_def quiet_def call_stage_def vk_call_def)

lemma quiet_set [quiet_rules]: "quiet_stage (set_stage f)"
  by (auto simp: quiet_stage_def quiet_def set_stage_def)

lemma quiet_test [quiet_rules]: "quiet_stage (test_stage p)"
  by (auto simp: quiet_stage_def quiet_def test_stage_def)

lemma quiet_vk_create: "vk_create v ob = (v', r, h) \<Longrightarrow> \<forall>c f. \<not> pends_on (vk_objects v c) f \<Longrightarrow> (\<And>f. \<not> pends_on (Some ob) f) \<Longrightarrow>
    \<not> pends_on (vk_objects v' c) f"
  by (auto simp: vk_create_def vk_call_def split: if_splits)

lemma quiet_create [quiet_rules]: "(\<And>g f. \<not> pends_on (Some (ob g)) f) \<Longrightarrow> quiet_stage (create_stage ob put)"
  unfolding quiet_stage_def
  by (auto simp: quiet_def create_stage_def split: prod.splits dest: quiet_vk_create)

lemma quiet_gpu_stages: "quiet_stage (gpu_stages hwnd)"
proof -
  have device: "quiet_stage create_device"
    by (rule quiet_with_driver [of "\<lambda>v g. then_stage (test_stage (\<lambda>v. snd (find_queue_family v) \<noteq> - 1))
        (then_stage (create_stage (\<lambda>_. Vk_device (fst (find_queue_family v))) (\<lambda>h g. g\<lparr>logical_device := h\<rparr>))
          (set_stage (\<lambda>v g. g\<lparr>memory_types := vk_memory_types v, gpu_queue := True\<rparr>)))"])
      (simp_all add: create_device_def quiet_rules pends_on_def)
  have frames: "quiet_stage allocate_frames"
    by (rule quiet_stageI) (auto simp: quiet_def allocate_frames_def bind_ok_Inr_iff split: prod.splits)
  have swap: "quiet_stage create_swap_chain"
    by (rule quiet_with_driver [of "\<lambda>v g. then_stage (create_stage (\<lambda>g. Vk_swapchain (the (surface g))
          (max (vk_min_images v + 1) 3) (fst (vk_extent v)) (snd (vk_extent v))) (\<lambda>h g. g\<lparr>swap_chain := h\<rparr>))
        (then_stage call_stage (then_stage (set_stage (\<lambda>v g. g\<lparr>frame_count := length (vk_images v)\<rparr>))
            (then_stage allocate_frames call_stage)))"])
      (simp_all add: create_swap_chain_def quiet_rules frames pends_on_def)
  have pool: "quiet_stage create_cmd_pool"
    by (rule quiet_with_driver [of "\<lambda>v g. create_stage (\<lambda>_. Vk_command_pool (fst (find_queue_family v))) (\<lambda>h g. g\<lparr>cmd_pool := h\<rparr>)"])
      (simp_all add: create_cmd_pool_def quiet_rules pends_on_def)
  have depth: "quiet_stage allocate_depth_memory"
    by (rule quiet_stageI) (auto simp: quiet_def allocate_depth_memory_def allocate_memory_def pends_on_def split: prod.splits dest!: quiet_vk_create)
  have cmd: "quiet_stage (allocate_cmd_buffer i)" for i
    by (rule quiet_stageI) (auto simp: quiet_def allocate_cmd_buffer_def bind_ok_Inr_iff)
  have layout: "quiet_stage (create_mesh_layout l xs n)" for l xs n
    by (rule quiet_stageI) (auto simp: quiet_def create_mesh_layout_def bind_ok_Inr_iff)
  show ?thesis
    unfolding gpu_stages_def create_instance_def find_physical_device_def create_surface_def create_view_def create_depth_buffer_def
      create_render_pass_def create_framebuffer_def create_semaphores_def create_descriptor_pool_def create_frame_commands_def
      create_mesh_layouts_def
    by (simp add: quiet_rules device swap pool depth cmd layout pends_on_def)
qed

lemma distinct_of_owned:
  assumes "\<And>x. x \<in># sum_list (map h fs) \<Longrightarrow> count (sum_list (map h fs)) x = 1"
    and "\<And>f. f \<in> set fs \<Longrightarrow> \<exists>k. p f = Some k \<and> k \<in># h f"
  shows "distinct (map p fs)"
  using assms
proof (induction fs)
  case (Cons f fs)
  obtain k where k: "p f = Some k" "k \<in># h f" using Cons.prems(2) [of f] by auto
  have "count (h f) k + count (sum_list (map h fs)) k = 1" using Cons.prems(1) [of k] k(2) by simp
  moreover have "1 \<le> count (h f) k" using k(2) by (simp add: Suc_le_eq)
  ultimately have none: "count (sum_list (map h fs)) k = 0" by linarith
  have "p f \<notin> p ` set fs"
  proof
    assume "p f \<in> p ` set fs"
    then obtain f' where f': "f' \<in> set fs" "p f' = Some k" using k(1) by auto
    then have "k \<in># h f'" using Cons.prems(2) [of f'] by auto
    then have "k \<in># sum_list (map h fs)" using f'(1) by (induction fs) auto
    then show False using none by (simp add: not_in_iff [symmetric])
  qed
  moreover have "distinct (map p fs)"
  proof (rule Cons.IH)
    fix x assume x: "x \<in># sum_list (map h fs)"
    then have "count (h f) x + count (sum_list (map h fs)) x = 1" using Cons.prems(1) [of x] by simp
    moreover have "1 \<le> count (sum_list (map h fs)) x" using x by (simp add: Suc_le_eq)
    ultimately show "count (sum_list (map h fs)) x = 1" by linarith
  qed (use Cons.prems(2) in auto)
  ultimately show ?case by simp
qed simp

lemma ready_frames_inv:
  assumes own: "gpu_owned bm bv (m, v, g)" and ready: "gpu_ready N (m, v, g)" and "quiet (m, v, g)" and "0 < N"
  shows "frames_inv v g"
proof -
  have o: "vk_ok v" "owns bv (vk_objects v) (gpu_handles g)" using own by (simp_all add: gpu_owned_def vk_owns_def)
  let ?S = "sum_list (map frame_handles (frames_of g))"
  have one: "count ?S x = 1" if "x \<in># ?S" for x
  proof -
    have "count (handles (gpu_fields g)) x + count ?S x = 1"
      using o(2) that unfolding owns_def gpu_handles_def by (metis count_union union_iff)
    moreover have "1 \<le> count ?S x" using that by (simp add: Suc_le_eq)
    ultimately show ?thesis by linarith
  qed
  have st: "frame_state v f" if "f \<in> set (frames_of g)" for f
    using ready that by (auto simp: gpu_ready_def frames_ready_def in_set_conv_nth)
  have mem: "\<exists>k. frame_cmd f = Some k \<and> k \<in># frame_handles f" "\<exists>q. fr_fence f = Some q \<and> q \<in># frame_handles f"
    if f: "f \<in> set (frames_of g)" for f
  proof -
    from st [OF f] obtain k q where kq: "frame_cmd f = Some k" "fr_fence f = Some q"
      unfolding frame_state_def by blast
    from kq(1) obtain c where "fr_cmd_buffer f = Some c" "cb_buffer c = Some k"
      by (cases "fr_cmd_buffer f") (auto simp: frame_cmd_def)
    then show "\<exists>k. frame_cmd f = Some k \<and> k \<in># frame_handles f" "\<exists>q. fr_fence f = Some q \<and> q \<in># frame_handles f"
      using kq by (simp_all add: frame_handles_def handles_Cons [of _ "_ # _"])
  qed
  have "distinct (map frame_cmd (frames_of g))" by (rule distinct_of_owned [of frame_handles, OF one mem(1)])
  moreover have "distinct (map fr_fence (frames_of g))" by (rule distinct_of_owned [of frame_handles, OF one mem(2)])
  ultimately show ?thesis using o(1) st assms(2-4) by (simp add: frames_inv_def gpu_ready_def quiet_def)
qed

text \<open>What \<^verbatim>\<open>gpu_create\<close> returns can draw: with at least one image its frames are as the frame operations need them.\<close>

lemma gpu_create_frames_inv:
  assumes "mem_ok m" and "vk_ok v" and idle: "\<And>c f. \<not> pends_on (vk_objects v c) f"
    and "848 + 64 * length (vk_images v) + 72 \<le> os_avail m" and images: "vk_images v \<noteq> []"
    and c: "gpu_create (m, v) hwnd = Inr ((m1, v1), Some g)"
  shows "frames_inv v1 g"
proof -
  from gpu_create_owned [OF assms(1-4), of hwnd] obtain m2 v2 g2 okay p m0 where
    a: "alloc_struct m sizeof_gpu_t = Inr (m0, p)" and s: "gpu_stages hwnd (m0, v, gpu_zero p) = Inr ((m2, v2, g2), okay)"
    and own: "gpu_owned (block_size m) (vk_objects v) (m2, v2, g2)"
    and ready: "okay \<longrightarrow> gpu_ready (length (vk_images v)) (m2, v2, g2)" by blast
  have eq: "okay" "m2 = m1" "v2 = v1" "g2 = g" using c a s by (auto simp: gpu_create_def bind_ok_Inr_iff split: if_splits)
  have "quiet (m0, v, gpu_zero p)" using idle by (simp add: quiet_def)
  then have "quiet (m2, v2, g2)" by (rule quiet_stageD [OF quiet_gpu_stages _ s])
  with own ready eq images show ?thesis by (intro ready_frames_inv) auto
qed

definition one_frame_gpu :: gpu_t where
  "one_frame_gpu = (gpu_zero (0, 0))\<lparr>frame_count := 1, gpu_frames := Some ((1, 0),
     [\<lparr>fr_image = 0, fr_view = None, fr_frame_buffer = None, fr_fence = Some 1,
       fr_cmd_buffer = Some \<lparr>cb_self = (2, 0), cb_buffer = Some 0, cb_pipeline_layout = None, cb_index_count = 0,
         cb_vertex_count = 0\<rparr>\<rparr>])\<rparr>"

definition one_frame_vk :: vk where
  "one_frame_vk = failing_vk\<lparr>vk_results := (\<lambda>_. 0), vk_next := 2,
     vk_objects := [0 \<mapsto> Vk_command_buffer None Cmd_initial [], 1 \<mapsto> Vk_fence True]\<rparr>"

lemma one_frame_inv: "frames_inv one_frame_vk one_frame_gpu"
  by (auto simp: frames_inv_def one_frame_vk_def one_frame_gpu_def vk_ok_def frames_of_def frame_state_def frame_cmd_def
      gpu_zero_def pends_on_def failing_vk_def split: option.splits if_splits)

lemma gpu_frame_submits_drawings_witness:
  "\<exists>v' g'. draw_frame (mem_init 0 0, one_frame_vk, one_frame_gpu) [] = Some (Inr (mem_init 0 0, v', g')) \<and> frames_inv v' g'"
proof -
  have r: "vk_results one_frame_vk n = 0" for n by (simp add: one_frame_vk_def)
  have free: "\<not> frame_pending one_frame_vk (frames_of one_frame_gpu ! frame_index one_frame_gpu)"
    by (simp add: one_frame_vk_def one_frame_gpu_def frame_pending_def frames_of_def frame_cmd_def gpu_zero_def)
  show ?thesis using gpu_frame_submits_drawings [OF one_frame_inv r, of "mem_init 0 0" "[]"] free by auto
qed

text \<open>With one image, or with as many frames as images drawn before the device has finished the first,
  the next frame begins a buffer that is in use: nothing in \<^verbatim>\<open>gpu_frame_begin\<close> waits, and the wait in
  \<^verbatim>\<open>gpu_frame_end\<close> comes after the recording.\<close>

lemma frame_begin_does_not_wait:
  assumes "frames_inv v g" and "\<And>n. vk_results v n = 0" and one: "frame_count g = 1"
    and free: "\<not> frame_pending v (frames_of g ! frame_index g)"
  shows "\<exists>v' g'. draw_frame (m, v, g) ds = Some (Inr (m, v', g')) \<and> gpu_frame_begin (m, v', g') = Inl Misuse"
proof -
  from draw_frame_free [OF assms(1,2) free, of m ds] obtain v' g' where
    d: "draw_frame (m, v, g) ds = Some (Inr (m, v', g'))" and inv: "frames_inv v' g'"
    and ix: "frame_index g' = (frame_index g + 1) mod frame_count g" and p: "frame_pending v' (frames_of g' ! frame_index g)" by blast
  have "frame_index g = 0" "frame_index g' = 0" using assms(1) one ix by (simp_all add: frames_inv_def)
  with p inv have "gpu_frame_begin (m, v', g') = Inl Misuse"
    by (intro frame_pending_misuse) (auto simp: frames_inv_def)
  with d show ?thesis by blast
qed

text \<open>A failed end of recording is printed, and the invalid buffer is submitted all the same.\<close>

lemma failed_end_is_submitted:
  "draw_frame (mem_init 0 0, one_frame_vk\<lparr>vk_results := (\<lambda>n. if n = 1 then -1 else 0)\<rparr>, one_frame_gpu) [] = Some (Inl Misuse)"
proof -
  note d = one_frame_vk_def one_frame_gpu_def gpu_zero_def frames_of_def failing_vk_def vk_call_def
  show ?thesis
    by (simp add: draw_frame_def gpu_frame_begin_def gpu_frame_end_def frame_at_def Let_def vk_begin_command_buffer_def vk_cmd_def
        vk_end_command_buffer_def vk_wait_for_fence_def vk_reset_fence_def vk_queue_submit_def in_use_def d upt_rec numeral_2_eq_2)
qed

text \<open>The device may finish the work of any fence at any time.\<close>

lemma complete_frames_inv:
  assumes inv: "frames_inv v g"
  shows "frames_inv (complete q v) g"
  unfolding frames_inv_def
proof (intro conjI allI ballI impI)
  show "vk_ok (complete q v)" using inv unfolding frames_inv_def vk_ok_def complete_def
    by (auto split: option.splits vk_object.splits cmd_state.splits)
  show "frame_count g = length (frames_of g)" "frame_index g < frame_count g" "distinct (map frame_cmd (frames_of g))"
    "distinct (map fr_fence (frames_of g))" using inv by (simp_all add: frames_inv_def)
  show "frame_state (complete q v) f" if f: "f \<in> set (frames_of g)" for f
  proof -
    have "frame_state v f" using inv f by (simp add: frames_inv_def)
    then obtain k x p st cs b where kx: "frame_cmd f = Some k" "fr_fence f = Some x"
      "vk_objects v k = Some (Vk_command_buffer p st cs)" "vk_objects v x = Some (Vk_fence b)"
      and st: "st = Cmd_pending x \<and> \<not> b \<or> (st = Cmd_initial \<or> st = Cmd_executable) \<and> b"
      unfolding frame_state_def by blast
    show ?thesis unfolding frame_state_def using kx st
      by (cases "x = q"; cases st) (auto simp: complete_def)
  qed
  show "\<exists>f\<in>set (frames_of g). frame_cmd f = Some c \<and> fr_fence f = Some x" if "pends_on (vk_objects (complete q v) c) x" for c x
  proof -
    have "pends_on (vk_objects v c) x"
      using that by (auto simp: complete_def pends_on_def split: option.splits vk_object.splits cmd_state.splits if_splits)
    then show ?thesis by (rule frames_inv_pends [OF inv])
  qed
qed

end
