(* ===== verification/Render.thy ===== *)
theory Render
  imports Gpu_Frames Ecs Ring_Queue "HOL-Library.Signed_Division"
begin

text \<open>
  The renderer (\<^verbatim>\<open>render.c\<close>): the commands other threads push, the tables of what the device has
  been given (shaders with their pipelines, meshes, one instance per entity), and the thread that
  draws and destroys what was not used for as many frames as there are images.  The tables are
  arrays of 512 slots in memory that is not cleared; a slot beyond the count keeps what was last in
  it.  A mesh, shader or other object is used through a pointer, so an object whose structure has been
  released is a fault (\<open>deref\<close>).  What the information pointers of the application point to is a
  parameter (\<open>infos\<close>): the engine only compares them and passes them on.
\<close>

section \<open>Data\<close>

definition k_render_max_drawables :: nat where "k_render_max_drawables = 512"

record model_command_t =
  mc_entity :: ecs_entity_ref_t
  mc_mesh :: ptr
  mc_shader :: ptr
  mc_data :: "ptr option"
  mc_size :: nat

text \<open>A command, by its type, with the address of its block.\<close>

datatype render_command = Command_frame_done ptr | Command_model ptr model_command_t

record draw_instance_t =
  in_entity :: ecs_entity_ref_t
  in_uniforms :: "ptr option \<times> gpu_uniform_buffer_t option list"
  in_descriptors :: "ptr option \<times> gpu_descriptor_t option list"
  in_frame :: i32

record draw_mesh_t =
  dm_info :: ptr
  dm_mesh :: "gpu_mesh_t option"
  dm_frame :: i32

record draw_shader_t =
  ds_info :: ptr
  ds_shader :: "gpu_shader_t option"
  ds_pipeline :: "gpu_pipeline_t option"
  ds_frame :: i32

record render_t =
  rn_self :: ptr
  rn_queue :: "render_command option queue_t"
  frame_counter :: i32
  gpu_frame_count :: i32
  instance_count :: nat
  mesh_count :: nat
  shader_count :: nat
  rn_instances :: "draw_instance_t list"
  rn_meshes :: "draw_mesh_t list"
  rn_shaders :: "draw_shader_t list"

record infos =
  mesh_info_at :: "ptr \<Rightarrow> gpu_mesh_info_t"
  shader_info_at :: "ptr \<Rightarrow> gpu_shader_info_t"

text \<open>The render thread's world: heap, driver and device, and the renderer.\<close>

type_synonym render_world = "gpu_creation \<times> render_t"

definition deref :: "mem \<Rightarrow> ('a \<Rightarrow> ptr) \<Rightarrow> 'a option \<Rightarrow> 'a outcome" where
  "deref m self x =
     (case x of None \<Rightarrow> Inl Null_deref
      | Some y \<Rightarrow> if block_size m (self y) = None then Inl Use_after_free else Inr y)"

section \<open>Pushing commands\<close>

text \<open>A null pointer in the queue, \<open>None\<close>, stops the thread; a push that finds the queue full
  returns \<open>Inr None\<close>: it waits.\<close>

definition sizeof_model_command_t :: nat where "sizeof_model_command_t = 48"
definition sizeof_frame_done_command_t :: nat where "sizeof_frame_done_command_t = 4"

definition render_push :: "mem \<times> render_t \<Rightarrow> render_command option \<Rightarrow> (mem \<times> render_t) option outcome" where
  "render_push s c =
     (case s of (m, r) \<Rightarrow>
      bind_ok (queue_push (rn_queue r) c) (\<lambda>q. Inr (map_option (\<lambda>q'. (m, r\<lparr>rn_queue := q'\<rparr>)) q)))"

definition alloc_command :: "mem \<Rightarrow> nat \<Rightarrow> (mem \<times> ptr) outcome" where
  "alloc_command m n = (case heap_alloc m n 8 of (m', None) \<Rightarrow> Inl Null_deref | (m', Some p) \<Rightarrow> Inr (m', p))"

text \<open>The data are copied, so the caller may change its own at once.\<close>

definition model_command :: "mem \<Rightarrow> ecs_entity_ref_t \<Rightarrow> ptr \<Rightarrow> ptr \<Rightarrow> bytes \<Rightarrow> (mem \<times> render_command) outcome" where
  "model_command m entity mesh shader data =
     bind_ok (alloc_command m sizeof_model_command_t) (\<lambda>(m1, p).
     case heap_alloc m1 (length data) 8 of (m2, d) \<Rightarrow>
       bind_ok (mem_write m2 d data) (\<lambda>m3.
       Inr (m3, Command_model p \<lparr>mc_entity = entity, mc_mesh = mesh, mc_shader = shader, mc_data = d, mc_size = length data\<rparr>)))"

definition render_push_model :: "mem \<times> render_t \<Rightarrow> ecs_entity_ref_t \<Rightarrow> ptr \<Rightarrow> ptr \<Rightarrow> bytes \<Rightarrow>
    (mem \<times> render_t) option outcome" where
  "render_push_model s entity mesh shader data =
     bind_ok (model_command (fst s) entity mesh shader data) (\<lambda>(m, c). render_push (m, snd s) (Some c))"

definition render_push_done :: "mem \<times> render_t \<Rightarrow> (mem \<times> render_t) option outcome" where
  "render_push_done s =
     bind_ok (alloc_command (fst s) sizeof_frame_done_command_t) (\<lambda>(m, p). render_push (m, snd s) (Some (Command_frame_done p)))"

definition sizeof_render_t :: nat where "sizeof_render_t = 45120"

text \<open>The slots are what the memory held.\<close>

definition render_create :: "mem \<Rightarrow> render_command option list \<Rightarrow> draw_instance_t list \<Rightarrow> draw_mesh_t list \<Rightarrow> draw_shader_t list \<Rightarrow> i32 \<Rightarrow>
    (mem \<times> render_t) outcome" where
  "render_create m fresh is ms ss n =
     bind_ok (alloc_command m sizeof_render_t) (\<lambda>(m1, p).
     bind_ok (queue_create fresh 3) (\<lambda>q.
       Inr (m1, \<lparr>rn_self = p, rn_queue = q, frame_counter = 0, gpu_frame_count = n, instance_count = 0, mesh_count = 0,
                shader_count = 0, rn_instances = is, rn_meshes = ms, rn_shaders = ss\<rparr>)))"

section \<open>The tables\<close>

text \<open>The slot of an entry: the one found, or the next free one, which gets its key.\<close>

definition mesh_slot :: "render_t \<Rightarrow> ptr \<Rightarrow> (render_t \<times> nat) outcome" where
  "mesh_slot r info =
     (case find_from (\<lambda>i. dm_info (rn_meshes r ! i) = info) 0 (mesh_count r) of
        Some i \<Rightarrow> Inr (r, i)
      | None \<Rightarrow>
          if mesh_count r < k_render_max_drawables
          then Inr (r\<lparr>mesh_count := mesh_count r + 1,
                     rn_meshes := (rn_meshes r)[mesh_count r := (rn_meshes r ! mesh_count r)\<lparr>dm_info := info\<rparr>]\<rparr>, mesh_count r)
          else Inl Assert_failed)"

definition shader_slot :: "render_t \<Rightarrow> ptr \<Rightarrow> (render_t \<times> nat) outcome" where
  "shader_slot r info =
     (case find_from (\<lambda>i. ds_info (rn_shaders r ! i) = info) 0 (shader_count r) of
        Some i \<Rightarrow> Inr (r, i)
      | None \<Rightarrow>
          if shader_count r < k_render_max_drawables
          then Inr (r\<lparr>shader_count := shader_count r + 1,
                     rn_shaders := (rn_shaders r)[shader_count r := (rn_shaders r ! shader_count r)\<lparr>ds_info := info\<rparr>]\<rparr>, shader_count r)
          else Inl Assert_failed)"

definition put_mesh :: "render_t \<Rightarrow> nat \<Rightarrow> draw_mesh_t \<Rightarrow> render_t" where
  "put_mesh r i x = r\<lparr>rn_meshes := (rn_meshes r)[i := x]\<rparr>"

definition put_shader :: "render_t \<Rightarrow> nat \<Rightarrow> draw_shader_t \<Rightarrow> render_t" where
  "put_shader r i x = r\<lparr>rn_shaders := (rn_shaders r)[i := x]\<rparr>"

definition create_or_get_mesh_for_model_command :: "infos \<Rightarrow> render_world \<Rightarrow> model_command_t \<Rightarrow> (render_world \<times> draw_mesh_t) outcome" where
  "create_or_get_mesh_for_model_command I w command =
     (case w of ((m, v, g), r) \<Rightarrow>
      bind_ok (mesh_slot r (mc_mesh command)) (\<lambda>(r1, i).
      let x = rn_meshes r1 ! i
      in bind_ok (if dm_mesh x = None then gpu_mesh_create g (m, v) (mesh_info_at I (mc_mesh command))
                  else Inr ((m, v), dm_mesh x)) (\<lambda>((m1, v1), h).
         let y = x\<lparr>dm_mesh := h, dm_frame := frame_counter r1\<rparr>
         in Inr (((m1, v1, g), put_mesh r1 i y), y))))"

definition create_or_get_shader_for_model_command :: "infos \<Rightarrow> render_world \<Rightarrow> model_command_t \<Rightarrow> (render_world \<times> draw_shader_t) outcome" where
  "create_or_get_shader_for_model_command I w command =
     (case w of ((m, v, g), r) \<Rightarrow>
      bind_ok (shader_slot r (mc_shader command)) (\<lambda>(r1, i).
      let x = rn_shaders r1 ! i
      in bind_ok (if ds_shader x = None then gpu_shader_create g (m, v) (shader_info_at I (ds_info x))
                  else Inr ((m, v), ds_shader x)) (\<lambda>((m1, v1), sh).
         bind_ok (if ds_pipeline x = None
                  then bind_ok (deref m1 gs_self sh) (\<lambda>s. gpu_pipeline_create g (m1, v1)
                         \<lparr>pi_shader = s, pi_mesh_layout = mi_layout (mesh_info_at I (mc_mesh command))\<rparr>)
                  else Inr ((m1, v1), ds_pipeline x)) (\<lambda>((m2, v2), pl).
         let y = x\<lparr>ds_shader := sh, ds_pipeline := pl, ds_frame := frame_counter r1\<rparr>
         in Inr (((m2, v2, g), put_shader r1 i y), y)))))"

text \<open>C's remainder of the frame counter by the number of frames, as an index.\<close>

definition frame_slot :: "render_t \<Rightarrow> int outcome" where
  "frame_slot r = (if gpu_frame_count r = 0 then Inl Div_by_zero else Inr (sint (frame_counter r) smod sint (gpu_frame_count r)))"

text \<open>A uniform buffer and a descriptor that uses it, for each frame.\<close>

fun create_frame_objects :: "gpu_t \<Rightarrow> gpu_world \<Rightarrow> gpu_shader_t option \<Rightarrow> bytes \<Rightarrow> nat \<Rightarrow>
    (gpu_world \<times> gpu_uniform_buffer_t option list \<times> gpu_descriptor_t option list) outcome" where
  "create_frame_objects g w shader data 0 = Inr (w, [], [])"
| "create_frame_objects g w shader data (Suc n) =
     bind_ok (create_frame_objects g w shader data n) (\<lambda>(w1, us, ds).
     bind_ok (gpu_uniform_buffer_create g w1 data) (\<lambda>(w2, u).
     bind_ok (deref (fst w2) gs_self shader) (\<lambda>s.
     bind_ok (deref (fst w2) gu_self u) (\<lambda>b.
     bind_ok (gpu_descriptor_create g w2 \<lparr>di_shader = s, di_uniform_buffers = [b]\<rparr>) (\<lambda>(w3, d).
     Inr (w3, us @ [u], ds @ [d]))))))"

definition instance_slot :: "render_t \<Rightarrow> ecs_entity_ref_t \<Rightarrow> (nat \<times> bool) outcome" where
  "instance_slot r entity =
     (case find_from (\<lambda>i. in_entity (rn_instances r ! i) = entity) 0 (instance_count r) of
        Some i \<Rightarrow> Inr (i, False)
      | None \<Rightarrow> if instance_count r < k_render_max_drawables then Inr (instance_count r, True) else Inl Assert_failed)"

definition put_instance :: "render_t \<Rightarrow> nat \<Rightarrow> draw_instance_t \<Rightarrow> render_t" where
  "put_instance r i x = r\<lparr>rn_instances := (rn_instances r)[i := x]\<rparr>"

definition new_instance :: "gpu_creation \<Rightarrow> render_t \<Rightarrow> model_command_t \<Rightarrow> gpu_shader_t option \<Rightarrow> bytes \<Rightarrow>
    (gpu_creation \<times> draw_instance_t) outcome" where
  "new_instance s r command shader data =
     (case s of (m, v, g) \<Rightarrow>
      let n = nat (sint (gpu_frame_count r))
      in bind_ok (alloc_command m (8 * n)) (\<lambda>(m1, up).
         bind_ok (alloc_command m1 (8 * n)) (\<lambda>(m2, dp).
         bind_ok (create_frame_objects g (m2, v) shader data n) (\<lambda>((m3, v3), us, ds).
         Inr ((m3, v3, g), \<lparr>in_entity = mc_entity command, in_uniforms = (Some up, us), in_descriptors = (Some dp, ds), in_frame = 0\<rparr>)))))"

definition create_or_get_instance_for_model_command :: "render_world \<Rightarrow> model_command_t \<Rightarrow> gpu_shader_t option \<Rightarrow>
    (render_world \<times> draw_instance_t) outcome" where
  "create_or_get_instance_for_model_command w command shader =
     (case w of ((m, v, g), r) \<Rightarrow>
      bind_ok (mem_read m (mc_data command) (mc_size command)) (\<lambda>data.
      bind_ok (instance_slot r (mc_entity command)) (\<lambda>(i, new).
      bind_ok (if new then bind_ok (new_instance (m, v, g) r command shader data) (\<lambda>(s1, x).
                              Inr (s1, (put_instance r i x)\<lparr>instance_count := i + 1\<rparr>, x))
               else Inr ((m, v, g), r, rn_instances r ! i)) (\<lambda>((m1, v1, g1), r1, x).
      bind_ok (frame_slot r1) (\<lambda>k.
      bind_ok (array_get (snd (in_uniforms x)) k) (\<lambda>u.
      bind_ok (deref m1 gu_self u) (\<lambda>b.
      bind_ok (gpu_uniform_buffer_update (m1, v1) b data) (\<lambda>(m2, v2).
      let y = x\<lparr>in_frame := frame_counter r1\<rparr>
      in Inr (((m2, v2, g1), put_instance r1 i y), y)))))))))"

section \<open>Destroying what is stale\<close>

definition is_stale :: "render_t \<Rightarrow> i32 \<Rightarrow> bool" where
  "is_stale r t \<longleftrightarrow> sint (t + gpu_frame_count r) \<le> sint (frame_counter r)"

fun destroy_frame_objects :: "gpu_world \<Rightarrow> (gpu_uniform_buffer_t option \<times> gpu_descriptor_t option) list \<Rightarrow> gpu_world outcome" where
  "destroy_frame_objects w [] = Inr w"
| "destroy_frame_objects w ((u, d) # xs) =
     bind_ok (gpu_descriptor_destroy w d) (\<lambda>w1.
     bind_ok (gpu_uniform_buffer_destroy w1 u) (\<lambda>w2. destroy_frame_objects w2 xs))"

definition destroy_instance :: "gpu_world \<Rightarrow> draw_instance_t \<Rightarrow> gpu_world outcome" where
  "destroy_instance w x =
     bind_ok (destroy_frame_objects w (zip (snd (in_uniforms x)) (snd (in_descriptors x)))) (\<lambda>(m, v).
     bind_ok (heap_free m (fst (in_descriptors x))) (\<lambda>m1.
     bind_ok (heap_free m1 (fst (in_uniforms x))) (\<lambda>m2. Inr (m2, v))))"

definition destroy_draw_mesh :: "gpu_world \<Rightarrow> draw_mesh_t \<Rightarrow> gpu_world outcome" where
  "destroy_draw_mesh w x = gpu_mesh_destroy w (dm_mesh x)"

definition destroy_draw_shader :: "gpu_world \<Rightarrow> draw_shader_t \<Rightarrow> gpu_world outcome" where
  "destroy_draw_shader w x = bind_ok (gpu_pipeline_destroy w (ds_pipeline x)) (\<lambda>w1. gpu_shader_destroy w1 (ds_shader x))"

text \<open>
  The loop that the three tables share, from the last index down: a stale entry is destroyed, its slot
  gets the last entry, and the count goes down.  The slots beyond the count keep what they had.
\<close>

fun sweep :: "('a \<Rightarrow> bool) \<Rightarrow> (gpu_world \<Rightarrow> 'a \<Rightarrow> gpu_world outcome) \<Rightarrow> nat \<Rightarrow> gpu_world \<times> 'a list \<times> nat \<Rightarrow>
    (gpu_world \<times> 'a list \<times> nat) outcome" where
  "sweep stale kill 0 s = Inr s"
| "sweep stale kill (Suc i) (w, xs, n) =
     (if stale (xs ! i) then bind_ok (kill w (xs ! i)) (\<lambda>w'. sweep stale kill i (w', xs[i := xs ! (n - 1)], n - 1))
      else sweep stale kill i (w, xs, n))"

definition destroy_stale_data :: "render_world \<Rightarrow> render_world outcome" where
  "destroy_stale_data w =
     (case w of ((m, v, g), r) \<Rightarrow>
      bind_ok (sweep (\<lambda>x. is_stale r (in_frame x)) destroy_instance (instance_count r)
                 ((m, v), rn_instances r, instance_count r)) (\<lambda>(w1, is, ni).
      bind_ok (sweep (\<lambda>x. is_stale r (dm_frame x)) destroy_draw_mesh (mesh_count r)
                 (w1, rn_meshes r, mesh_count r)) (\<lambda>(w2, ms, nm).
      bind_ok (sweep (\<lambda>x. is_stale r (ds_frame x)) destroy_draw_shader (shader_count r)
                 (w2, rn_shaders r, shader_count r)) (\<lambda>((m3, v3), ss, ns).
      Inr ((m3, v3, g), r\<lparr>rn_instances := is, instance_count := ni, rn_meshes := ms, mesh_count := nm,
                          rn_shaders := ss, shader_count := ns\<rparr>)))))"

section \<open>The render thread\<close>

text \<open>Its local variables: the open command buffer, the pointers bound last, the frame's index.\<close>

record render_locals =
  cmdbuf :: "nat option"
  last_pipeline :: "ptr option"
  last_mesh :: "ptr option"
  local_frame :: int

definition fresh_locals :: render_locals where
  "fresh_locals = \<lparr>cmdbuf = None, last_pipeline = None, last_mesh = None, local_frame = 0\<rparr>"

definition need_cmdbuf :: "render_locals \<Rightarrow> nat outcome" where
  "need_cmdbuf l = (case cmdbuf l of None \<Rightarrow> Inl Null_deref | Some i \<Rightarrow> Inr i)"

definition bind_pipeline_if_new :: "gpu_creation \<Rightarrow> render_locals \<Rightarrow> gpu_pipeline_t option \<Rightarrow> (gpu_creation \<times> render_locals) outcome" where
  "bind_pipeline_if_new s l pipeline =
     (if last_pipeline l \<noteq> map_option gp_self pipeline
      then bind_ok (need_cmdbuf l) (\<lambda>i. bind_ok (deref (fst s) gp_self pipeline) (\<lambda>p.
           bind_ok (gpu_cmd_pipeline_bind s i p) (\<lambda>s1. Inr (s1, l\<lparr>last_pipeline := Some (gp_self p)\<rparr>))))
      else Inr (s, l))"

definition bind_mesh_if_new :: "gpu_creation \<Rightarrow> render_locals \<Rightarrow> gpu_mesh_t option \<Rightarrow> (gpu_creation \<times> render_locals) outcome" where
  "bind_mesh_if_new s l mesh =
     (if last_mesh l \<noteq> map_option gm_self mesh
      then bind_ok (need_cmdbuf l) (\<lambda>i. bind_ok (deref (fst s) gm_self mesh) (\<lambda>x.
           bind_ok (gpu_cmd_mesh_bind s i x) (\<lambda>s1. Inr (s1, l\<lparr>last_mesh := Some (gm_self x)\<rparr>))))
      else Inr (s, l))"

definition render_model :: "infos \<Rightarrow> render_world \<Rightarrow> render_locals \<Rightarrow> model_command_t \<Rightarrow> (render_world \<times> render_locals) outcome" where
  "render_model I w l command =
     bind_ok (create_or_get_shader_for_model_command I w command) (\<lambda>(w1, shader).
     bind_ok (create_or_get_mesh_for_model_command I w1 command) (\<lambda>(w2, mesh).
     bind_ok (create_or_get_instance_for_model_command w2 command (ds_shader shader)) (\<lambda>(((m, v, g), r), inst).
     bind_ok (heap_free m (mc_data command)) (\<lambda>m1.
     bind_ok (bind_pipeline_if_new (m1, v, g) l (ds_pipeline shader)) (\<lambda>(s2, l2).
     bind_ok (bind_mesh_if_new s2 l2 (dm_mesh mesh)) (\<lambda>(s3, l3).
     bind_ok (need_cmdbuf l3) (\<lambda>i.
     bind_ok (array_get (snd (in_descriptors inst)) (local_frame l3)) (\<lambda>d.
     bind_ok (deref (fst s3) gd_self d) (\<lambda>dd.
     bind_ok (gpu_cmd_descriptor_bind s3 i dd) (\<lambda>s4.
     bind_ok (gpu_cmd_draw s4 i) (\<lambda>s5. Inr ((s5, r), l3))))))))))))"

text \<open>The end of a frame; \<open>None\<close> is waiting for a fence that nothing will signal.\<close>

definition render_frame_done :: "render_world \<Rightarrow> render_locals \<Rightarrow> (render_world \<times> render_locals) outcome option" where
  "render_frame_done w l =
     (case w of (s, r) \<Rightarrow>
      map_option (\<lambda>e. bind_ok e (\<lambda>s1.
        bind_ok (destroy_stale_data (s1, r)) (\<lambda>(s2, r2).
        let r3 = r2\<lparr>frame_counter := frame_counter r2 + 1\<rparr>
        in bind_ok (frame_slot r3) (\<lambda>k.
           Inr ((s2, r3), \<lparr>cmdbuf = None, last_pipeline = None, last_mesh = None, local_frame = k\<rparr>))))) (gpu_frame_end s))"

definition free_command :: "render_world \<Rightarrow> ptr \<Rightarrow> render_world outcome" where
  "free_command w p = (case w of ((m, v, g), r) \<Rightarrow> bind_ok (heap_free m (Some p)) (\<lambda>m1. Inr ((m1, v, g), r)))"

text \<open>One command that was popped.\<close>

definition render_command_step :: "infos \<Rightarrow> render_world \<times> render_locals \<Rightarrow> render_command \<Rightarrow>
    (render_world \<times> render_locals) outcome option" where
  "render_command_step I s c =
     (case s of (((m, v, g), r), l) \<Rightarrow>
      case (if cmdbuf l = None then gpu_frame_begin (m, v, g) else Inr ((m, v, g), cmdbuf l)) of
        Inl e \<Rightarrow> Some (Inl e)
      | Inr (s1, cb) \<Rightarrow>
          (case c of
             Command_frame_done p \<Rightarrow>
               map_option (\<lambda>e. bind_ok e (\<lambda>(w, l'). bind_ok (free_command w p) (\<lambda>w'. Inr (w', l'))))
                 (render_frame_done (s1, r) (l\<lparr>cmdbuf := cb\<rparr>))
           | Command_model p command \<Rightarrow>
               Some (bind_ok (render_model I (s1, r) (l\<lparr>cmdbuf := cb\<rparr>) command) (\<lambda>(w, l').
                 bind_ok (free_command w p) (\<lambda>w'. Inr (w', l'))))))"

fun render_loop :: "infos \<Rightarrow> render_world \<times> render_locals \<Rightarrow> render_command list \<Rightarrow> render_world outcome option" where
  "render_loop I s [] = Some (Inr (fst s))"
| "render_loop I s (c # cs) =
     (case render_command_step I s c of
        None \<Rightarrow> None
      | Some (Inl e) \<Rightarrow> Some (Inl e)
      | Some (Inr s') \<Rightarrow> render_loop I s' cs)"

definition render_shutdown :: "render_world \<Rightarrow> gpu_world outcome" where
  "render_shutdown w =
     (case w of ((m, v, g), r) \<Rightarrow>
      let w1 = gpu_wait_until_idle (m, v) g
      in bind_ok (destroy_stale_data ((fst w1, snd w1, g), r\<lparr>frame_counter := frame_counter r + (gpu_frame_count r + 1)\<rparr>)) (\<lambda>((m2, v2, g2), r2).
         gpu_destroy (m2, v2) (Some g2)))"

text \<open>The commands up to the null pointer that stops the thread.  A device that could not be made is used.\<close>

definition render_thread_func :: "infos \<Rightarrow> gpu_world \<Rightarrow> nat \<Rightarrow> render_t \<Rightarrow> render_command list \<Rightarrow> gpu_world outcome option" where
  "render_thread_func I w hwnd r cs =
     (case gpu_create w hwnd of
        Inl e \<Rightarrow> Some (Inl e)
      | Inr (w1, None) \<Rightarrow> Some (Inl Null_deref)
      | Inr ((m1, v1), Some g) \<Rightarrow>
          map_option (\<lambda>e. bind_ok e render_shutdown)
            (render_loop I (((m1, v1, g), r\<lparr>gpu_frame_count := gpu_get_frame_count g\<rparr>), fresh_locals) cs))"

text \<open>The null pointer is pushed; once the thread has stopped, the structure is released.\<close>

definition render_destroy :: "mem \<times> render_t \<Rightarrow> (mem \<times> render_t \<Rightarrow> mem) \<Rightarrow> mem outcome option" where
  "render_destroy s thread_end =
     (case render_push s None of
        Inl e \<Rightarrow> Some (Inl e)
      | Inr None \<Rightarrow> None
      | Inr (Some (m, r)) \<Rightarrow> Some (heap_free (thread_end (m, r)) (Some (rn_self r))))"

section \<open>The tables lose exactly the stale entries\<close>

lemma mset_take_update:
  assumes "i < n" and "n \<le> length xs"
  shows "mset (take n xs) = add_mset (xs ! i) (mset (take (n - 1) (xs[i := xs ! (n - 1)])))"
proof -
  obtain k where n: "n = Suc k" using assms(1) by (cases n) auto
  have t: "take n xs = take k xs @ [xs ! k]" using assms by (simp add: n take_Suc_conv_app_nth)
  show ?thesis
  proof (cases "i = k")
    case True
    then show ?thesis unfolding t by (simp add: n)
  next
    case False
    then have i: "i < length (take k xs)" using assms by (simp add: n)
    have "mset (take k xs) = add_mset (xs ! i) (mset (take k xs) - {#take k xs ! i#})"
      using i nth_mem_mset [OF i] by simp
    then show ?thesis unfolding t using mset_update [OF i, of "xs ! k"] i by (simp add: n take_update_swap)
  qed
qed

text \<open>What the live entries of a table own.\<close>

definition owned_by :: "('a \<Rightarrow> 'b multiset) \<Rightarrow> 'a multiset \<Rightarrow> 'b multiset" where
  "owned_by f X = sum_mset (image_mset f X)"

lemma owned_by_simps [simp]: "owned_by f {#} = {#}" "owned_by f (add_mset x X) = f x + owned_by f X"
  by (simp_all add: owned_by_def)

text \<open>
  The interface of a table's entries: what an entry owns, and that its destruction gives back exactly that.
  Whatever the entries are, the loop that removes the stale ones is then a filter.
\<close>

locale table_entries =
  fixes kill :: "gpu_world \<Rightarrow> 'a \<Rightarrow> gpu_world outcome"
    and blk :: "'a \<Rightarrow> ptr multiset"
    and hnd :: "'a \<Rightarrow> handle multiset"
  assumes kill_returns: "mem_owns bm m (blk x + B) \<Longrightarrow> vk_owns bv v (hnd x + M) \<Longrightarrow>
    \<exists>m' v'. kill (m, v) x = Inr (m', v') \<and> mem_owns bm m' B \<and> vk_owns bv v' M"
begin

lemma sweep_removes_stale:
  "n \<le> length xs \<Longrightarrow> i \<le> n \<Longrightarrow> (\<forall>j. i \<le> j \<and> j < n \<longrightarrow> \<not> stale (xs ! j)) \<Longrightarrow>
    mem_owns bm m (owned_by blk (mset (take n xs)) + B) \<Longrightarrow> vk_owns bv v (owned_by hnd (mset (take n xs)) + M) \<Longrightarrow>
    \<exists>m' v' xs' n'. sweep stale kill i ((m, v), xs, n) = Inr ((m', v'), xs', n') \<and> n' \<le> n \<and> length xs' = length xs \<and>
      mset (take n' xs') = filter_mset (\<lambda>x. \<not> stale x) (mset (take n xs)) \<and>
      mem_owns bm m' (owned_by blk (mset (take n' xs')) + B) \<and> vk_owns bv v' (owned_by hnd (mset (take n' xs')) + M)"
proof (induction i arbitrary: m v xs n)
  case 0
  have "\<not> stale x" if "x \<in># mset (take n xs)" for x
    using that 0 by (auto simp: in_set_conv_nth)
  then have "filter_mset (\<lambda>x. \<not> stale x) (mset (take n xs)) = mset (take n xs)" by (simp add: filter_mset_eq_conv)
  with 0 show ?case by simp
next
  case (Suc i)
  show ?case
  proof (cases "stale (xs ! i)")
    case False
    have "\<forall>j. i \<le> j \<and> j < n \<longrightarrow> \<not> stale (xs ! j)" using Suc.prems(3) False by (metis Suc_leI le_neq_implies_less)
    from Suc.IH [OF Suc.prems(1) _ this Suc.prems(4,5)] Suc.prems(2) False show ?thesis by simp
  next
    case True
    define ys where "ys = xs[i := xs ! (n - 1)]"
    have i: "i < n" using Suc.prems(2) by simp
    have t: "mset (take n xs) = add_mset (xs ! i) (mset (take (n - 1) ys))"
      unfolding ys_def by (rule mset_take_update [OF i Suc.prems(1)])
    from kill_returns [of bm m "xs ! i" "owned_by blk (mset (take (n - 1) ys)) + B" bv v "owned_by hnd (mset (take (n - 1) ys)) + M"]
      Suc.prems(4,5) obtain m1 v1 where k: "kill (m, v) (xs ! i) = Inr (m1, v1)"
      and o: "mem_owns bm m1 (owned_by blk (mset (take (n - 1) ys)) + B)" "vk_owns bv v1 (owned_by hnd (mset (take (n - 1) ys)) + M)"
      unfolding t owned_by_simps add.assoc by blast
    have "\<not> stale (ys ! j)" if j: "i \<le> j" "j < n - 1" for j
    proof (cases "j = i")
      case True
      then show ?thesis using Suc.prems(1,3) i j by (simp add: ys_def)
    next
      case False
      then show ?thesis using Suc.prems(3) j by (simp add: ys_def)
    qed
    moreover have "n - 1 \<le> length ys" "i \<le> n - 1" using Suc.prems(1) i by (simp_all add: ys_def)
    ultimately obtain m2 v2 zs n2 where z: "sweep stale kill i ((m1, v1), ys, n - 1) = Inr ((m2, v2), zs, n2)" "n2 \<le> n - 1"
      "length zs = length ys" "mset (take n2 zs) = filter_mset (\<lambda>x. \<not> stale x) (mset (take (n - 1) ys))"
      "mem_owns bm m2 (owned_by blk (mset (take n2 zs)) + B)" "vk_owns bv v2 (owned_by hnd (mset (take n2 zs)) + M)"
      using Suc.IH [of "n - 1" ys m1 v1] o by blast
    have "mset (take n2 zs) = filter_mset (\<lambda>x. \<not> stale x) (mset (take n xs))" using z(4) True by (simp add: t)
    moreover have "n2 \<le> n" "length zs = length xs" using z(2,3) by (simp_all add: ys_def)
    moreover have "sweep stale kill (Suc i) ((m, v), xs, n) = Inr ((m2, v2), zs, n2)" using True k z(1) by (simp add: ys_def)
    ultimately show ?thesis using z(5,6) by blast
  qed
qed

end

definition mesh_blocks :: "draw_mesh_t \<Rightarrow> ptr multiset" where
  "mesh_blocks x = handles [map_option gm_self (dm_mesh x)]"

definition mesh_handles :: "draw_mesh_t \<Rightarrow> handle multiset" where
  "mesh_handles x = (case dm_mesh x of None \<Rightarrow> {#}
     | Some y \<Rightarrow> handles [index_buffer y, index_memory y, vertex_buffer y, vertex_memory y])"

definition shader_blocks :: "draw_shader_t \<Rightarrow> ptr multiset" where
  "shader_blocks x = handles [map_option gp_self (ds_pipeline x), map_option gs_self (ds_shader x)]"

definition shader_handles :: "draw_shader_t \<Rightarrow> handle multiset" where
  "shader_handles x =
     (case ds_pipeline x of None \<Rightarrow> {#} | Some p \<Rightarrow> handles [pipeline_layout p, pipe p]) +
     (case ds_shader x of None \<Rightarrow> {#} | Some y \<Rightarrow> handles [vertex_module y, fragment_module y, descriptor_set_layout y])"

definition frame_object_blocks :: "gpu_uniform_buffer_t option \<times> gpu_descriptor_t option \<Rightarrow> ptr multiset" where
  "frame_object_blocks x = handles [map_option gd_self (snd x), map_option gu_self (fst x)]"

definition frame_object_handles :: "gpu_uniform_buffer_t option \<times> gpu_descriptor_t option \<Rightarrow> handle multiset" where
  "frame_object_handles x = handles [Option.bind (snd x) gd_set] +
     (case fst x of None \<Rightarrow> {#} | Some u \<Rightarrow> handles [gu_buffer u, gu_memory u])"

definition instance_objects :: "draw_instance_t \<Rightarrow> (gpu_uniform_buffer_t option \<times> gpu_descriptor_t option) list" where
  "instance_objects x = zip (snd (in_uniforms x)) (snd (in_descriptors x))"

definition instance_blocks :: "draw_instance_t \<Rightarrow> ptr multiset" where
  "instance_blocks x = handles [fst (in_descriptors x), fst (in_uniforms x)] + sum_list (map frame_object_blocks (instance_objects x))"

definition instance_handles :: "draw_instance_t \<Rightarrow> handle multiset" where
  "instance_handles x = sum_list (map frame_object_handles (instance_objects x))"

interpretation mesh_table: table_entries destroy_draw_mesh mesh_blocks mesh_handles
proof
  fix bm m x B bv v M
  assume o: "mem_owns bm m (mesh_blocks x + B)" "vk_owns bv v (mesh_handles x + M)"
  show "\<exists>m' v'. destroy_draw_mesh (m, v) x = Inr (m', v') \<and> mem_owns bm m' B \<and> vk_owns bv v' M"
  proof (cases "dm_mesh x")
    case None
    with o show ?thesis by (simp add: destroy_draw_mesh_def gpu_mesh_destroy_def mesh_blocks_def mesh_handles_def)
  next
    case (Some y)
    with o release_struct_ok [of bm m "gm_self y" B bv v "[index_buffer y, index_memory y, vertex_buffer y, vertex_memory y]" M]
    show ?thesis by (simp add: destroy_draw_mesh_def gpu_mesh_destroy_def mesh_blocks_def mesh_handles_def)
  qed
qed

text \<open>Destroying a pipeline, a shader, a uniform buffer or a descriptor that may be null.\<close>

lemma destroy_pipeline_ok:
  assumes "mem_owns bm m (handles [map_option gp_self p] + B)"
    and "vk_owns bv v ((case p of None \<Rightarrow> {#} | Some y \<Rightarrow> handles [pipeline_layout y, pipe y]) + M)"
  shows "\<exists>m' v'. gpu_pipeline_destroy (m, v) p = Inr (m', v') \<and> mem_owns bm m' B \<and> vk_owns bv v' M"
  using assms release_struct_ok [of bm m _ B bv v _ M] by (cases p) (simp_all add: gpu_pipeline_destroy_def)

lemma destroy_shader_ok:
  assumes "mem_owns bm m (handles [map_option gs_self p] + B)"
    and "vk_owns bv v ((case p of None \<Rightarrow> {#} | Some y \<Rightarrow> handles [vertex_module y, fragment_module y, descriptor_set_layout y]) + M)"
  shows "\<exists>m' v'. gpu_shader_destroy (m, v) p = Inr (m', v') \<and> mem_owns bm m' B \<and> vk_owns bv v' M"
  using assms release_struct_ok [of bm m _ B bv v _ M] by (cases p) (simp_all add: gpu_shader_destroy_def)

lemma destroy_uniform_ok:
  assumes "mem_owns bm m (handles [map_option gu_self p] + B)"
    and "vk_owns bv v ((case p of None \<Rightarrow> {#} | Some y \<Rightarrow> handles [gu_buffer y, gu_memory y]) + M)"
  shows "\<exists>m' v'. gpu_uniform_buffer_destroy (m, v) p = Inr (m', v') \<and> mem_owns bm m' B \<and> vk_owns bv v' M"
  using assms release_struct_ok [of bm m _ B bv v _ M] by (cases p) (simp_all add: gpu_uniform_buffer_destroy_def)

lemma destroy_descriptor_ok:
  assumes "mem_owns bm m (handles [map_option gd_self p] + B)" and "vk_owns bv v (handles [Option.bind p gd_set] + M)"
  shows "\<exists>m' v'. gpu_descriptor_destroy (m, v) p = Inr (m', v') \<and> mem_owns bm m' B \<and> vk_owns bv v' M"
  using assms release_struct_ok [of bm m _ B bv v _ M] by (cases p) (simp_all add: gpu_descriptor_destroy_def)

interpretation shader_table: table_entries destroy_draw_shader shader_blocks shader_handles
proof
  fix bm m x B bv v M
  assume o: "mem_owns bm m (shader_blocks x + B)" "vk_owns bv v (shader_handles x + M)"
  let ?s = "case ds_shader x of None \<Rightarrow> {#} | Some y \<Rightarrow> handles [vertex_module y, fragment_module y, descriptor_set_layout y]"
  have "mem_owns bm m (handles [map_option gp_self (ds_pipeline x)] + (handles [map_option gs_self (ds_shader x)] + B))"
    using o by (simp add: shader_blocks_def handles_pair add.assoc)
  moreover have "vk_owns bv v ((case ds_pipeline x of None \<Rightarrow> {#} | Some y \<Rightarrow> handles [pipeline_layout y, pipe y]) + (?s + M))"
    using o by (simp add: shader_handles_def add.assoc)
  ultimately obtain m1 v1 where 1: "gpu_pipeline_destroy (m, v) (ds_pipeline x) = Inr (m1, v1)"
    "mem_owns bm m1 (handles [map_option gs_self (ds_shader x)] + B)" "vk_owns bv v1 (?s + M)"
    using destroy_pipeline_ok by blast
  from destroy_shader_ok [OF 1(2,3)] 1(1)
  show "\<exists>m' v'. destroy_draw_shader (m, v) x = Inr (m', v') \<and> mem_owns bm m' B \<and> vk_owns bv v' M"
    by (auto simp: destroy_draw_shader_def)
qed

lemma destroy_frame_objects_ok:
  "mem_owns bm m (sum_list (map frame_object_blocks xs) + B) \<Longrightarrow> vk_owns bv v (sum_list (map frame_object_handles xs) + M) \<Longrightarrow>
   \<exists>m' v'. destroy_frame_objects (m, v) xs = Inr (m', v') \<and> mem_owns bm m' B \<and> vk_owns bv v' M"
proof (induction xs arbitrary: m v)
  case (Cons x xs)
  obtain u d where x: "x = (u, d)" by (cases x)
  let ?B = "sum_list (map frame_object_blocks xs) + B" and ?M = "sum_list (map frame_object_handles xs) + M"
  let ?u = "case u of None \<Rightarrow> {#} | Some y \<Rightarrow> handles [gu_buffer y, gu_memory y]"
  have "mem_owns bm m (handles [map_option gd_self d] + (handles [map_option gu_self u] + ?B))"
    using Cons.prems(1) by (simp add: x frame_object_blocks_def [of "(u, d)"] handles_pair add.assoc)
  moreover have "vk_owns bv v (handles [Option.bind d gd_set] + (?u + ?M))"
    using Cons.prems(2) by (simp add: x frame_object_handles_def [of "(u, d)"] add.assoc)
  ultimately obtain m1 v1 where 1: "gpu_descriptor_destroy (m, v) d = Inr (m1, v1)"
    "mem_owns bm m1 (handles [map_option gu_self u] + ?B)" "vk_owns bv v1 (?u + ?M)" using destroy_descriptor_ok by blast
  from destroy_uniform_ok [OF 1(2,3)] obtain m2 v2 where 2: "gpu_uniform_buffer_destroy (m1, v1) u = Inr (m2, v2)"
    "mem_owns bm m2 ?B" "vk_owns bv v2 ?M" by blast
  from Cons.IH [OF 2(2,3)] 1(1) 2(1) show ?case by (simp add: x)
qed simp

interpretation instance_table: table_entries destroy_instance instance_blocks instance_handles
proof
  fix bm m x B bv v M
  assume o: "mem_owns bm m (instance_blocks x + B)" "vk_owns bv v (instance_handles x + M)"
  have "mem_owns bm m (sum_list (map frame_object_blocks (instance_objects x)) +
      (handles [fst (in_descriptors x)] + (handles [fst (in_uniforms x)] + B)))"
    using o by (simp add: instance_blocks_def handles_pair ac_simps)
  moreover have "vk_owns bv v (sum_list (map frame_object_handles (instance_objects x)) + M)"
    using o by (simp add: instance_handles_def)
  ultimately obtain m1 v1 where 1: "destroy_frame_objects (m, v) (instance_objects x) = Inr (m1, v1)"
    "mem_owns bm m1 (handles [fst (in_descriptors x)] + (handles [fst (in_uniforms x)] + B))" "vk_owns bv v1 M"
    using destroy_frame_objects_ok by blast
  from mem_owns_release [OF 1(2)] obtain m2 where 2: "heap_free m1 (fst (in_descriptors x)) = Inr m2"
    "mem_owns bm m2 (handles [fst (in_uniforms x)] + B)" by blast
  from mem_owns_release [OF 2(2)] obtain m3 where 3: "heap_free m2 (fst (in_uniforms x)) = Inr m3" "mem_owns bm m3 B" by blast
  show "\<exists>m' v'. destroy_instance (m, v) x = Inr (m', v') \<and> mem_owns bm m' B \<and> vk_owns bv v' M"
    using 1(1,3) 2(1) 3 by (simp add: destroy_instance_def instance_objects_def)
qed

text \<open>The live entries of the three tables, and what the renderer owns besides \<open>B\<close> and \<open>M\<close>.\<close>

definition live_instances :: "render_t \<Rightarrow> draw_instance_t multiset" where
  "live_instances r = mset (take (instance_count r) (rn_instances r))"

definition live_meshes :: "render_t \<Rightarrow> draw_mesh_t multiset" where
  "live_meshes r = mset (take (mesh_count r) (rn_meshes r))"

definition live_shaders :: "render_t \<Rightarrow> draw_shader_t multiset" where
  "live_shaders r = mset (take (shader_count r) (rn_shaders r))"

definition tables_ok :: "render_t \<Rightarrow> bool" where
  "tables_ok r \<longleftrightarrow> length (rn_instances r) = k_render_max_drawables \<and> length (rn_meshes r) = k_render_max_drawables \<and>
     length (rn_shaders r) = k_render_max_drawables \<and> instance_count r \<le> k_render_max_drawables \<and>
     mesh_count r \<le> k_render_max_drawables \<and> shader_count r \<le> k_render_max_drawables"

definition render_owned :: "(ptr \<Rightarrow> nat option) \<Rightarrow> (handle \<Rightarrow> vk_object option) \<Rightarrow> mem \<Rightarrow> vk \<Rightarrow> render_t \<Rightarrow> bool" where
  "render_owned bm bv m v r \<longleftrightarrow> tables_ok r \<and>
     mem_owns bm m (owned_by instance_blocks (live_instances r) + owned_by mesh_blocks (live_meshes r) +
       owned_by shader_blocks (live_shaders r)) \<and>
     vk_owns bv v (owned_by instance_handles (live_instances r) + owned_by mesh_handles (live_meshes r) +
       owned_by shader_handles (live_shaders r))"

lemma destroy_stale_data_owned:
  assumes own: "render_owned bm bv m v r"
  shows "\<exists>m' v' r'. destroy_stale_data ((m, v, g), r) = Inr ((m', v', g), r') \<and> render_owned bm bv m' v' r' \<and>
    frame_counter r' = frame_counter r \<and> gpu_frame_count r' = gpu_frame_count r \<and> rn_self r' = rn_self r \<and>
    live_instances r' = filter_mset (\<lambda>x. \<not> is_stale r (in_frame x)) (live_instances r) \<and>
    live_meshes r' = filter_mset (\<lambda>x. \<not> is_stale r (dm_frame x)) (live_meshes r) \<and>
    live_shaders r' = filter_mset (\<lambda>x. \<not> is_stale r (ds_frame x)) (live_shaders r)"
proof -
  let ?ib = "owned_by instance_blocks" and ?mb = "owned_by mesh_blocks" and ?sb = "owned_by shader_blocks"
  let ?ih = "owned_by instance_handles" and ?mh = "owned_by mesh_handles" and ?sh = "owned_by shader_handles"
  have len: "instance_count r \<le> length (rn_instances r)" "mesh_count r \<le> length (rn_meshes r)" "shader_count r \<le> length (rn_shaders r)"
    using own by (simp_all add: render_owned_def tables_ok_def)
  have o0: "mem_owns bm m (?ib (live_instances r) + (?mb (live_meshes r) + ?sb (live_shaders r)))"
    "vk_owns bv v (?ih (live_instances r) + (?mh (live_meshes r) + ?sh (live_shaders r)))"
    using own by (simp_all add: render_owned_def add.assoc)
  from instance_table.sweep_removes_stale [OF len(1) order_refl, of "\<lambda>x. is_stale r (in_frame x)" bm m _ bv v]
    o0 obtain m1 v1 ins ni where 1: "sweep (\<lambda>x. is_stale r (in_frame x)) destroy_instance (instance_count r)
        ((m, v), rn_instances r, instance_count r) = Inr ((m1, v1), ins, ni)" "ni \<le> instance_count r" "length ins = length (rn_instances r)"
      "mset (take ni ins) = filter_mset (\<lambda>x. \<not> is_stale r (in_frame x)) (live_instances r)"
      "mem_owns bm m1 (?ib (mset (take ni ins)) + (?mb (live_meshes r) + ?sb (live_shaders r)))"
      "vk_owns bv v1 (?ih (mset (take ni ins)) + (?mh (live_meshes r) + ?sh (live_shaders r)))"
    unfolding live_instances_def by (metis leD)
  have o1: "mem_owns bm m1 (?mb (live_meshes r) + (?ib (mset (take ni ins)) + ?sb (live_shaders r)))"
    "vk_owns bv v1 (?mh (live_meshes r) + (?ih (mset (take ni ins)) + ?sh (live_shaders r)))"
    using 1(5,6) by (simp_all add: ac_simps)
  from mesh_table.sweep_removes_stale [OF len(2) order_refl, of "\<lambda>x. is_stale r (dm_frame x)" bm m1 _ bv v1]
    o1 obtain m2 v2 ms nm where 2: "sweep (\<lambda>x. is_stale r (dm_frame x)) destroy_draw_mesh (mesh_count r)
        ((m1, v1), rn_meshes r, mesh_count r) = Inr ((m2, v2), ms, nm)" "nm \<le> mesh_count r" "length ms = length (rn_meshes r)"
      "mset (take nm ms) = filter_mset (\<lambda>x. \<not> is_stale r (dm_frame x)) (live_meshes r)"
      "mem_owns bm m2 (?mb (mset (take nm ms)) + (?ib (mset (take ni ins)) + ?sb (live_shaders r)))"
      "vk_owns bv v2 (?mh (mset (take nm ms)) + (?ih (mset (take ni ins)) + ?sh (live_shaders r)))"
    unfolding live_meshes_def by (metis leD)
  have o2: "mem_owns bm m2 (?sb (live_shaders r) + (?ib (mset (take ni ins)) + ?mb (mset (take nm ms))))"
    "vk_owns bv v2 (?sh (live_shaders r) + (?ih (mset (take ni ins)) + ?mh (mset (take nm ms))))"
    using 2(5,6) by (simp_all add: ac_simps)
  from shader_table.sweep_removes_stale [OF len(3) order_refl, of "\<lambda>x. is_stale r (ds_frame x)" bm m2 _ bv v2]
    o2 obtain m3 v3 ss ns where 3: "sweep (\<lambda>x. is_stale r (ds_frame x)) destroy_draw_shader (shader_count r)
        ((m2, v2), rn_shaders r, shader_count r) = Inr ((m3, v3), ss, ns)" "ns \<le> shader_count r" "length ss = length (rn_shaders r)"
      "mset (take ns ss) = filter_mset (\<lambda>x. \<not> is_stale r (ds_frame x)) (live_shaders r)"
      "mem_owns bm m3 (?sb (mset (take ns ss)) + (?ib (mset (take ni ins)) + ?mb (mset (take nm ms))))"
      "vk_owns bv v3 (?sh (mset (take ns ss)) + (?ih (mset (take ni ins)) + ?mh (mset (take nm ms))))"
    unfolding live_shaders_def by (metis leD)
  let ?r = "r\<lparr>rn_instances := ins, instance_count := ni, rn_meshes := ms, mesh_count := nm, rn_shaders := ss, shader_count := ns\<rparr>"
  have live: "live_instances ?r = mset (take ni ins)" "live_meshes ?r = mset (take nm ms)" "live_shaders ?r = mset (take ns ss)"
    by (simp_all add: live_instances_def live_meshes_def live_shaders_def)
  have "tables_ok ?r" using own 1(2,3) 2(2,3) 3(2,3) by (simp add: render_owned_def tables_ok_def)
  then have "render_owned bm bv m3 v3 ?r" using 3(5,6) unfolding render_owned_def live by (simp add: ac_simps)
  moreover have "destroy_stale_data ((m, v, g), r) = Inr ((m3, v3, g), ?r)" using 1(1) 2(1) 3(1) by (simp add: destroy_stale_data_def)
  ultimately show ?thesis using 1(4) 2(4) 3(4) live by (intro exI [of _ m3] exI [of _ v3] exI [of _ ?r]) simp
qed

text \<open>
  C32.  \<^verbatim>\<open>destroy_stale_data\<close>: the loop that removes by overwriting with the last entry, from the last index
  down, is the filter of each table: exactly the entries that were not used for as many frames as there are
  images go, each once; what they owned on the device and on the heap is given back, and what
  the remaining entries own stays.
\<close>

theorem destroy_stale_data_filters:
  assumes "render_owned bm bv m v r"
  shows "\<exists>m' v' r'. destroy_stale_data ((m, v, g), r) = Inr ((m', v', g), r') \<and> render_owned bm bv m' v' r' \<and>
    live_instances r' = filter_mset (\<lambda>x. \<not> is_stale r (in_frame x)) (live_instances r) \<and>
    live_meshes r' = filter_mset (\<lambda>x. \<not> is_stale r (dm_frame x)) (live_meshes r) \<and>
    live_shaders r' = filter_mset (\<lambda>x. \<not> is_stale r (ds_frame x)) (live_shaders r)"
  using destroy_stale_data_owned [OF assms, of g] by blast

section \<open>Slots are not cleared\<close>

lemma sweep_none_stale: "(\<forall>j < i. \<not> stale (xs ! j)) \<Longrightarrow> sweep stale kill i (w, xs, n) = Inr (w, xs, n)"
  by (induction i) auto

lemma sweep_last_stale:
  assumes "sweep stale kill (Suc k) (w, xs, Suc k) = Inr (w', xs', n')" and "stale (xs ! k)" and "\<forall>j < k. \<not> stale (xs ! j)"
  shows "xs' = xs \<and> n' = k"
  using assms sweep_none_stale [of k stale xs kill] by (auto simp: bind_ok_Inr_iff)

lemma destroy_stale_data_meshes:
  assumes "destroy_stale_data ((m, v, g), r) = Inr (s, r')"
  shows "\<exists>w w'. sweep (\<lambda>x. is_stale r (dm_frame x)) destroy_draw_mesh (mesh_count r) (w, rn_meshes r, mesh_count r) =
    Inr (w', rn_meshes r', mesh_count r')"
  using assms by (fastforce simp: destroy_stale_data_def bind_ok_Inr_iff split: prod.splits)

lemma owned_by_filter: "owned_by f X = owned_by f (filter_mset P X) + owned_by f (filter_mset (\<lambda>x. \<not> P x) X)"
  by (induction X) (auto simp: ac_simps)

lemma mem_owns_in: "mem_owns base m M \<Longrightarrow> x \<in># M \<Longrightarrow> count M x = 1 \<and> base x = None"
  unfolding mem_owns_def owns_def by blast

lemma mem_owns_out: "mem_owns base m M \<Longrightarrow> x \<notin># M \<Longrightarrow> block_size m x = base x"
  unfolding mem_owns_def owns_def by blast

text \<open>A block that a removed entry owned is gone.\<close>

lemma removed_block_gone:
  assumes own: "mem_owns bm m (A + owned_by f X + C)" and own': "mem_owns bm m' (A' + owned_by f (filter_mset P X) + C')"
    and sub: "A' \<subseteq># A" "C' \<subseteq># C" and x: "x \<in># X" "\<not> P x" "p \<in># f x"
  shows "block_size m' p = None"
proof -
  have "x \<in># filter_mset (\<lambda>x. \<not> P x) X" using x by simp
  then obtain Y where "filter_mset (\<lambda>x. \<not> P x) X = add_mset x Y" by (metis mset_add)
  then have split: "owned_by f X = owned_by f (filter_mset P X) + (f x + owned_by f Y)" by (simp add: owned_by_filter [of f X P])
  have in_own: "p \<in># A + owned_by f X + C" using x(3) by (simp add: split)
  from mem_owns_in [OF own this] have c: "count (A + owned_by f X + C) p = 1" and b: "bm p = None" by blast+
  have "count A' p \<le> count A p" "count C' p \<le> count C p" using sub by (simp_all add: mset_subset_eq_count)
  moreover have "1 \<le> count (f x) p" using x(3) by (simp add: Suc_le_eq)
  moreover have "count A p + (count (owned_by f (filter_mset P X)) p + (count (f x) p + count (owned_by f Y) p)) + count C p = 1"
    using c unfolding split count_union .
  ultimately have "count A' p + count (owned_by f (filter_mset P X)) p + count C' p = 0" by linarith
  then have "p \<notin># A' + owned_by f (filter_mset P X) + C'" by (simp only: not_in_iff count_union)
  from mem_owns_out [OF own' this] b show ?thesis by simp
qed

lemma owned_by_filter_subset: "owned_by f (filter_mset P X) \<subseteq># owned_by f X"
  using owned_by_filter [of f X P] by simp

text \<open>A mesh that is not in the table gets the slot after the last entry with whatever pointer is in
  it: one that was destroyed, or what the memory of the structure held, which \<^verbatim>\<open>render_create\<close> does not
  clear.\<close>

lemma new_mesh_takes_what_the_slot_has:
  assumes k: "mesh_count r < k_render_max_drawables" "mesh_count r < length (rn_meshes r)"
    and y: "dm_mesh (rn_meshes r ! mesh_count r) = Some y"
    and new: "\<And>j. j < mesh_count r \<Longrightarrow> dm_info (rn_meshes r ! j) \<noteq> info" and c: "mc_mesh command = info"
  shows "\<exists>r' x. create_or_get_mesh_for_model_command I ((m, v, g), r) command = Inr (((m, v, g), r'), x) \<and>
    dm_info x = info \<and> dm_mesh x = Some y"
proof -
  let ?k = "mesh_count r" and ?e = "rn_meshes r ! mesh_count r"
  define x where "x = ?e\<lparr>dm_info := info, dm_frame := frame_counter r\<rparr>"
  have f: "find_from (\<lambda>j. dm_info (rn_meshes r ! j) = info) 0 ?k = None" using new by (simp add: find_from_None_iff)
  have xe: "?e\<lparr>dm_info := info, dm_mesh := Some y, dm_frame := t\<rparr> = ?e\<lparr>dm_info := info, dm_frame := t\<rparr>" for t
    using y by (cases ?e) simp
  let ?r1 = "r\<lparr>mesh_count := Suc ?k, rn_meshes := (rn_meshes r)[?k := ?e\<lparr>dm_info := info\<rparr>]\<rparr>"
  have "create_or_get_mesh_for_model_command I ((m, v, g), r) command = Inr (((m, v, g), put_mesh ?r1 ?k x), x)"
    using f k y c by (simp add: create_or_get_mesh_for_model_command_def mesh_slot_def Let_def xe x_def)
  moreover have "dm_info x = info" "dm_mesh x = Some y" using y by (simp_all add: x_def)
  ultimately show ?thesis by blast
qed

text \<open>
  C33.  A slot that becomes free keeps the pointers of what was destroyed: when the last mesh of the
  table has gone stale and is destroyed, the next mesh that is not in the table yet gets that slot, is taken to
  be on the device already, nothing is created for it, and drawing it uses the mesh that was released.
\<close>

theorem destroyed_mesh_is_drawn_again:
  assumes own: "render_owned bm bv m v r" and n: "mesh_count r = Suc k" and y: "dm_mesh (rn_meshes r ! k) = Some y"
    and stale: "is_stale r (dm_frame (rn_meshes r ! k))" and others: "\<And>j. j < k \<Longrightarrow> \<not> is_stale r (dm_frame (rn_meshes r ! j))"
    and new: "\<And>j. j < k \<Longrightarrow> dm_info (rn_meshes r ! j) \<noteq> mc_mesh command"
  shows "\<exists>m' v' r' r'' x. destroy_stale_data ((m, v, g), r) = Inr ((m', v', g), r') \<and>
    create_or_get_mesh_for_model_command I ((m', v', g), r') command = Inr (((m', v', g), r''), x) \<and>
    dm_info x = mc_mesh command \<and> dm_mesh x = Some y \<and>
    bind_mesh_if_new (m', v', g) (fresh_locals\<lparr>cmdbuf := Some i\<rparr>) (dm_mesh x) = Inl Use_after_free"
proof -
  let ?e = "rn_meshes r ! k"
  from destroy_stale_data_owned [OF own, of g] obtain m' v' r' where
    d: "destroy_stale_data ((m, v, g), r) = Inr ((m', v', g), r')" and own': "render_owned bm bv m' v' r'"
    and li: "live_instances r' = filter_mset (\<lambda>x. \<not> is_stale r (in_frame x)) (live_instances r)"
    and lm: "live_meshes r' = filter_mset (\<lambda>x. \<not> is_stale r (dm_frame x)) (live_meshes r)"
    and ls: "live_shaders r' = filter_mset (\<lambda>x. \<not> is_stale r (ds_frame x)) (live_shaders r)" by blast
  from destroy_stale_data_meshes [OF d] n obtain w w' where
    "sweep (\<lambda>x. is_stale r (dm_frame x)) destroy_draw_mesh (Suc k) (w, rn_meshes r, Suc k) = Inr (w', rn_meshes r', mesh_count r')"
    by auto
  from sweep_last_stale [OF this stale] others have ms: "rn_meshes r' = rn_meshes r" "mesh_count r' = k" by simp_all
  have k: "k < k_render_max_drawables" "k < length (rn_meshes r)" using own n by (simp_all add: render_owned_def tables_ok_def)
  have "?e \<in># live_meshes r" using k n by (auto simp: live_meshes_def in_set_conv_nth intro!: exI [of _ k])
  then have gone: "block_size m' (gm_self y) = None"
    by (intro removed_block_gone [of bm m "owned_by instance_blocks (live_instances r)" mesh_blocks "live_meshes r"
          "owned_by shader_blocks (live_shaders r)" m' "owned_by instance_blocks (live_instances r')" "\<lambda>x. \<not> is_stale r (dm_frame x)"
          "owned_by shader_blocks (live_shaders r')" ?e])
      (use own own' stale y in \<open>simp_all add: render_owned_def li ls mesh_blocks_def owned_by_filter_subset flip: lm\<close>)
  have "bind_mesh_if_new (m', v', g) (fresh_locals\<lparr>cmdbuf := Some i\<rparr>) (Some y) = Inl Use_after_free"
    using gone by (simp add: bind_mesh_if_new_def fresh_locals_def need_cmdbuf_def deref_def)
  moreover obtain r'' x where "create_or_get_mesh_for_model_command I ((m', v', g), r') command = Inr (((m', v', g), r''), x)"
    "dm_info x = mc_mesh command" "dm_mesh x = Some y"
    using new_mesh_takes_what_the_slot_has [of r' y "mc_mesh command" command I m' v' g] k y new ms by auto
  ultimately show ?thesis using d by (intro exI [of _ m'] exI [of _ v'] exI [of _ r'] exI [of _ r''] exI [of _ x]) simp
qed

text \<open>A renderer with one mesh, last used five frames ago.\<close>

definition old_mesh :: draw_mesh_t where
  "old_mesh = \<lparr>dm_info = (7, 0), dm_mesh = Some \<lparr>gm_self = (0, 0), index_buffer = None, index_memory = None, index_count = 0,
     vertex_buffer = Some 0, vertex_memory = Some 1, vertex_count = 3\<rparr>, dm_frame = 0\<rparr>"

definition stale_render :: render_t where
  "stale_render = \<lparr>rn_self = (9, 0), rn_queue = the (case queue_create [None, None, None] 3 of Inl _ \<Rightarrow> None | Inr q \<Rightarrow> Some q),
     frame_counter = 5, gpu_frame_count = 3, instance_count = 0, mesh_count = 1, shader_count = 0,
     rn_instances = replicate 512 \<lparr>in_entity = \<lparr>ref_entity = 0, ref_sequence = 0\<rparr>, in_uniforms = (None, []),
       in_descriptors = (None, []), in_frame = 0\<rparr>,
     rn_meshes = old_mesh # replicate 511 (old_mesh\<lparr>dm_mesh := None\<rparr>),
     rn_shaders = replicate 512 \<lparr>ds_info = (0, 0), ds_shader = None, ds_pipeline = None, ds_frame = 0\<rparr>\<rparr>"

definition stale_mem :: mem where
  "stale_mem = \<lparr>blocks = [0 \<mapsto> replicate 48 0], next_block = 1, os_avail = 1000, junk = 0\<rparr>"

definition stale_vk :: vk where
  "stale_vk = failing_vk\<lparr>vk_next := 2, vk_objects := [0 \<mapsto> Vk_buffer 36 Vertex_buffer, 1 \<mapsto> Vk_memory 0 []]\<rparr>"

lemma stale_render_owned: "render_owned (\<lambda>_. None) (\<lambda>_. None) stale_mem stale_vk stale_render"
proof -
  have live: "live_instances stale_render = {#}" "live_meshes stale_render = {#old_mesh#}" "live_shaders stale_render = {#}"
    by (simp_all add: live_instances_def live_meshes_def live_shaders_def stale_render_def)
  have "tables_ok stale_render" by (simp add: tables_ok_def stale_render_def k_render_max_drawables_def)
  moreover have "block_size stale_mem p = (if p = (0, 0) then Some 48 else None)" for p
    by (cases p) (simp add: block_size_def stale_mem_def)
  then have "mem_owns (\<lambda>_. None) stale_mem {#(0, 0)#}" by (auto simp: mem_owns_def owns_def mem_ok_def stale_mem_def split: if_splits)
  moreover have "vk_owns (\<lambda>_. None) stale_vk {#0, 1#}" by (auto simp: vk_owns_def owns_def vk_ok_def stale_vk_def)
  ultimately show ?thesis
    by (simp add: render_owned_def live mesh_blocks_def mesh_handles_def old_mesh_def)
qed

lemma destroy_stale_data_filters_witness:
  "\<exists>s r'. destroy_stale_data ((stale_mem, stale_vk, gpu_zero (8, 0)), stale_render) = Inr (s, r') \<and> live_meshes r' = {#}"
proof -
  have "live_meshes stale_render = {#old_mesh#}" "is_stale stale_render (dm_frame old_mesh)"
    by (simp_all add: live_meshes_def stale_render_def is_stale_def old_mesh_def)
  with destroy_stale_data_filters [OF stale_render_owned, of "gpu_zero (8, 0)"] show ?thesis by auto
qed

lemma destroyed_mesh_is_drawn_again_witness:
  "\<exists>s r' r'' x. destroy_stale_data ((stale_mem, stale_vk, gpu_zero (8, 0)), stale_render) = Inr (s, r') \<and>
    create_or_get_mesh_for_model_command
      \<lparr>mesh_info_at = (\<lambda>_. \<lparr>mi_layout = k_gpu_mesh_layout_tri_p444_i2, mi_vertex_data = [], mi_index_data = []\<rparr>),
       shader_info_at = (\<lambda>_. \<lparr>si_vertex_shader = [], si_fragment_shader = [], si_uniform_buffer_count = 1\<rparr>)\<rparr> (s, r')
      \<lparr>mc_entity = \<lparr>ref_entity = 0, ref_sequence = 0\<rparr>, mc_mesh = (6, 0), mc_shader = (5, 0), mc_data = None, mc_size = 0\<rparr>
      = Inr ((s, r''), x) \<and>
    bind_mesh_if_new s (fresh_locals\<lparr>cmdbuf := Some 0\<rparr>) (dm_mesh x) = Inl Use_after_free"
proof -
  have n: "mesh_count stale_render = Suc 0" by (simp add: stale_render_def)
  have y: "dm_mesh (rn_meshes stale_render ! 0) = Some (the (dm_mesh old_mesh))" by (simp add: stale_render_def old_mesh_def)
  have s: "is_stale stale_render (dm_frame (rn_meshes stale_render ! 0))" by (simp add: stale_render_def is_stale_def old_mesh_def)
  show ?thesis using destroyed_mesh_is_drawn_again [OF stale_render_owned n y s] by blast
qed

text \<open>The pipeline is kept per shader: another mesh layout does not make another pipeline.\<close>

lemma pipeline_ignores_mesh_layout:
  assumes "find_from (\<lambda>i. ds_info (rn_shaders r ! i) = mc_shader command) 0 (shader_count r) = Some i"
    and "ds_shader (rn_shaders r ! i) = Some s" and "ds_pipeline (rn_shaders r ! i) = Some p"
  shows "\<exists>r'. create_or_get_shader_for_model_command I ((m, v, g), r) command =
    Inr (((m, v, g), r'), (rn_shaders r ! i)\<lparr>ds_frame := frame_counter r\<rparr>)"
proof -
  let ?e = "rn_shaders r ! i"
  have "?e\<lparr>ds_shader := Some s, ds_pipeline := Some p, ds_frame := t\<rparr> = ?e\<lparr>ds_frame := t\<rparr>" for t
    using assms(2,3) by (cases ?e) simp
  then show ?thesis using assms by (simp add: create_or_get_shader_for_model_command_def shader_slot_def Let_def)
qed

text \<open>A device that could not be created is used by the thread.\<close>

lemma missing_device_is_used:
  "gpu_create w hwnd = Inr (w', None) \<Longrightarrow> render_thread_func I w hwnd r cs = Some (Inl Null_deref)"
  by (simp add: render_thread_func_def)

end
