(* ===== verification/Linear.thy ===== *)
theory Linear
  imports Engine_Prelude Complex_Main
begin

text \<open>
  Linear algebra (\<^verbatim>\<open>vec3f.h\<close>, \<^verbatim>\<open>quatf.h\<close>, \<^verbatim>\<open>quatf.c\<close>, \<^verbatim>\<open>mat4f.c\<close>, \<^verbatim>\<open>transform.c\<close>, \<^verbatim>\<open>math.h\<close>).
  A \<^verbatim>\<open>float\<close> is an element of any ordered field: the theory is about the formulas, without rounding,
  overflow and special values.  The functions of the C library are the fields of \<open>libm\<close>.
\<close>

section \<open>Scalars\<close>

record 'a libm =
  sqrtf :: "'a \<Rightarrow> 'a"
  sinf :: "'a \<Rightarrow> 'a"
  cosf :: "'a \<Rightarrow> 'a"
  tanf :: "'a \<Rightarrow> 'a"
  asinf :: "'a \<Rightarrow> 'a"
  atan2f :: "'a \<Rightarrow> 'a \<Rightarrow> 'a"
  half_pi :: 'a
  flt_epsilon :: 'a

definition almost_equalf :: "'a::linordered_field libm \<Rightarrow> 'a \<Rightarrow> 'a \<Rightarrow> bool" where
  "almost_equalf L a b \<longleftrightarrow>
     \<bar>a - b\<bar> \<le> flt_epsilon L * 1000 \<or> \<bar>a - b\<bar> \<le> max \<bar>a\<bar> \<bar>b\<bar> * flt_epsilon L * 4"

definition lerpf :: "'a::linordered_field \<Rightarrow> 'a \<Rightarrow> 'a \<Rightarrow> 'a" where
  "lerpf begin end distance = begin * (1 - distance) + end * distance"

definition copysignf :: "'a::linordered_field \<Rightarrow> 'a \<Rightarrow> 'a" where
  "copysignf a s = (if s < 0 then - \<bar>a\<bar> else \<bar>a\<bar>)"

section \<open>Vectors\<close>

record 'a vec3f_t =
  vx :: 'a
  vy :: 'a
  vz :: 'a

abbreviation vec :: "'a \<Rightarrow> 'a \<Rightarrow> 'a \<Rightarrow> 'a vec3f_t" where
  "vec a b c \<equiv> \<lparr>vx = a, vy = b, vz = c\<rparr>"

definition vec3f_x :: "'a::linordered_field vec3f_t" where "vec3f_x = vec 1 0 0"
definition vec3f_y :: "'a::linordered_field vec3f_t" where "vec3f_y = vec 0 1 0"
definition vec3f_z :: "'a::linordered_field vec3f_t" where "vec3f_z = vec 0 0 1"
definition vec3f_one :: "'a::linordered_field vec3f_t" where "vec3f_one = vec 1 1 1"
definition vec3f_zero :: "'a::linordered_field vec3f_t" where "vec3f_zero = vec 0 0 0"
definition vec3f_forward :: "'a::linordered_field vec3f_t" where "vec3f_forward = vec (- 1) 0 0"
definition vec3f_right :: "'a::linordered_field vec3f_t" where "vec3f_right = vec 0 1 0"
definition vec3f_up :: "'a::linordered_field vec3f_t" where "vec3f_up = vec 0 0 1"

definition vec3f_negate :: "'a::linordered_field vec3f_t \<Rightarrow> 'a vec3f_t" where
  "vec3f_negate v = vec (- vx v) (- vy v) (- vz v)"

definition vec3f_add :: "'a::linordered_field vec3f_t \<Rightarrow> 'a vec3f_t \<Rightarrow> 'a vec3f_t" where
  "vec3f_add a b = vec (vx a + vx b) (vy a + vy b) (vz a + vz b)"

definition vec3f_sub :: "'a::linordered_field vec3f_t \<Rightarrow> 'a vec3f_t \<Rightarrow> 'a vec3f_t" where
  "vec3f_sub a b = vec (vx a - vx b) (vy a - vy b) (vz a - vz b)"

definition vec3f_mul :: "'a::linordered_field vec3f_t \<Rightarrow> 'a vec3f_t \<Rightarrow> 'a vec3f_t" where
  "vec3f_mul a b = vec (vx a * vx b) (vy a * vy b) (vz a * vz b)"

definition vec3f_min :: "'a::linordered_field vec3f_t \<Rightarrow> 'a vec3f_t \<Rightarrow> 'a vec3f_t" where
  "vec3f_min a b = vec (min (vx a) (vx b)) (min (vy a) (vy b)) (min (vz a) (vz b))"

definition vec3f_max :: "'a::linordered_field vec3f_t \<Rightarrow> 'a vec3f_t \<Rightarrow> 'a vec3f_t" where
  "vec3f_max a b = vec (max (vx a) (vx b)) (max (vy a) (vy b)) (max (vz a) (vz b))"

definition vec3f_scale :: "'a::linordered_field vec3f_t \<Rightarrow> 'a \<Rightarrow> 'a vec3f_t" where
  "vec3f_scale v f = vec (vx v * f) (vy v * f) (vz v * f)"

definition vec3f_lerp :: "'a::linordered_field vec3f_t \<Rightarrow> 'a vec3f_t \<Rightarrow> 'a \<Rightarrow> 'a vec3f_t" where
  "vec3f_lerp a b f = vec (lerpf (vx a) (vx b) f) (lerpf (vy a) (vy b) f) (lerpf (vz a) (vz b) f)"

definition vec3f_mag2 :: "'a::linordered_field vec3f_t \<Rightarrow> 'a" where
  "vec3f_mag2 v = vx v * vx v + vy v * vy v + vz v * vz v"

definition vec3f_mag :: "'a::linordered_field libm \<Rightarrow> 'a vec3f_t \<Rightarrow> 'a" where
  "vec3f_mag L v = sqrtf L (vec3f_mag2 v)"

definition vec3f_dist2 :: "'a::linordered_field vec3f_t \<Rightarrow> 'a vec3f_t \<Rightarrow> 'a" where
  "vec3f_dist2 a b = vec3f_mag2 (vec3f_sub a b)"

definition vec3f_dist :: "'a::linordered_field libm \<Rightarrow> 'a vec3f_t \<Rightarrow> 'a vec3f_t \<Rightarrow> 'a" where
  "vec3f_dist L a b = sqrtf L (vec3f_dist2 a b)"

definition vec3f_norm :: "'a::linordered_field libm \<Rightarrow> 'a vec3f_t \<Rightarrow> 'a vec3f_t" where
  "vec3f_norm L v = (let m = vec3f_mag L v in if almost_equalf L m 0 then v else vec3f_scale v (1 / m))"

definition vec3f_dot :: "'a::linordered_field vec3f_t \<Rightarrow> 'a vec3f_t \<Rightarrow> 'a" where
  "vec3f_dot a b = vx a * vx b + vy a * vy b + vz a * vz b"

definition vec3f_reflect :: "'a::linordered_field vec3f_t \<Rightarrow> 'a vec3f_t \<Rightarrow> 'a vec3f_t" where
  "vec3f_reflect v n = vec3f_sub v (vec3f_scale n (vec3f_dot v n * 2))"

definition vec3f_cross :: "'a::linordered_field vec3f_t \<Rightarrow> 'a vec3f_t \<Rightarrow> 'a vec3f_t" where
  "vec3f_cross a b =
     vec (vy a * vz b - vz a * vy b) (vz a * vx b - vx a * vz b) (vx a * vy b - vy a * vx b)"

section \<open>Quaternions\<close>

text \<open>The three first components are also the vector \<open>v3\<close>, the last the scalar \<open>s\<close>.\<close>

record 'a quatf_t =
  v3 :: "'a vec3f_t"
  qs :: 'a

definition quatf_identity :: "'a::linordered_field quatf_t" where
  "quatf_identity = \<lparr>v3 = vec 0 0 0, qs = 1\<rparr>"

definition quatf_mul :: "'a::linordered_field quatf_t \<Rightarrow> 'a quatf_t \<Rightarrow> 'a quatf_t" where
  "quatf_mul a b =
     (let r1 = vec3f_cross (v3 a) (v3 b);
          r2 = vec3f_add r1 (vec3f_scale (v3 b) (qs a));
          r3 = vec3f_add r2 (vec3f_scale (v3 a) (qs b))
      in \<lparr>v3 = r3, qs = qs a * qs b - vec3f_dot (v3 a) (v3 b)\<rparr>)"

definition quatf_conjugate :: "'a::linordered_field quatf_t \<Rightarrow> 'a quatf_t" where
  "quatf_conjugate q = \<lparr>v3 = vec3f_negate (v3 q), qs = qs q\<rparr>"

definition quatf_rotate_vec :: "'a::linordered_field quatf_t \<Rightarrow> 'a vec3f_t \<Rightarrow> 'a vec3f_t" where
  "quatf_rotate_vec q v =
     (let t = vec3f_scale (vec3f_cross (v3 q) v) 2
      in vec3f_add v (vec3f_add (vec3f_scale t (qs q)) (vec3f_cross (v3 q) t)))"

text \<open>The initialiser names the first component three times; the last value is the one that counts.\<close>

definition quatf_to_eulers :: "'a::linordered_field libm \<Rightarrow> 'a quatf_t \<Rightarrow> 'a vec3f_t" where
  "quatf_to_eulers L q =
     (let x = vx (v3 q); y = vy (v3 q); z = vz (v3 q); w = qs q;
          roll = atan2f L (2 * (w * x + y * z)) (1 - 2 * (x * x + y * y));
          sinp = 2 * (w * y - z * x);
          pitch = (if 1 \<le> \<bar>sinp\<bar> then copysignf (half_pi L) sinp else asinf L sinp);
          yaw = atan2f L (2 * (w * z + x * y)) (1 - 2 * (y * y + z * z))
      in ((vec 0 0 0)\<lparr>vx := roll\<rparr>)\<lparr>vx := pitch\<rparr>\<lparr>vx := yaw\<rparr>)"

definition quatf_from_eulers :: "'a::linordered_field libm \<Rightarrow> 'a vec3f_t \<Rightarrow> 'a quatf_t" where
  "quatf_from_eulers L e =
     (let roll = vx e; pitch = vy e; yaw = vz e;
          cy = cosf L (yaw / 2); sy = sinf L (yaw / 2); cr = cosf L (roll / 2); sr = sinf L (roll / 2);
          cp = cosf L (pitch / 2); sp = sinf L (pitch / 2)
      in \<lparr>v3 = vec (cy * sr * cp - sy * cr * sp) (cy * cr * sp + sy * sr * cp) (sy * cr * cp - cy * sr * sp),
          qs = cy * cr * cp + sy * sr * sp\<rparr>)"

section \<open>Matrices\<close>

text \<open>Four rows of four; what is written is the argument with some elements replaced.\<close>

type_synonym 'a mat4f_t = "'a list list"

definition el :: "'a mat4f_t \<Rightarrow> nat \<Rightarrow> nat \<Rightarrow> 'a" where "el m i j = m ! i ! j"

definition put_el :: "'a mat4f_t \<Rightarrow> nat \<Rightarrow> nat \<Rightarrow> 'a \<Rightarrow> 'a mat4f_t" where
  "put_el m i j x = m[i := (m ! i)[j := x]]"

definition mat4f_make_identity :: "'a::linordered_field mat4f_t" where
  "mat4f_make_identity =
     foldl (\<lambda>m i. put_el m i i 1) (replicate 4 (replicate 4 0)) [0..<4]"

definition mat4f_make_translation :: "'a::linordered_field vec3f_t \<Rightarrow> 'a mat4f_t" where
  "mat4f_make_translation t = put_el (put_el (put_el mat4f_make_identity 3 0 (vx t)) 3 1 (vy t)) 3 2 (vz t)"

definition mat4f_make_scaling :: "'a::linordered_field vec3f_t \<Rightarrow> 'a mat4f_t" where
  "mat4f_make_scaling s = put_el (put_el (put_el mat4f_make_identity 0 0 (vx s)) 1 1 (vy s)) 2 2 (vz s)"

definition mat4f_make_rotation :: "'a::linordered_field quatf_t \<Rightarrow> 'a mat4f_t" where
  "mat4f_make_rotation q =
     (let x = vx (v3 q); y = vy (v3 q); z = vz (v3 q); w = qs q
      in [[1 - 2 * (y * y + z * z), 2 * (x * y + z * w), 2 * (x * z - y * w), 0],
          [2 * (x * y - z * w), 1 - 2 * (x * x + z * z), 2 * (y * z + x * w), 0],
          [2 * (x * z + y * w), 2 * (y * z - x * w), 1 - 2 * (x * x + y * y), 0],
          [0, 0, 0, 1]])"

definition mat4f_mul :: "'a::linordered_field mat4f_t \<Rightarrow> 'a mat4f_t \<Rightarrow> 'a mat4f_t" where
  "mat4f_mul a b = map (\<lambda>i. map (\<lambda>j. foldl (\<lambda>tmp k. tmp + el a i k * el b k j) 0 [0..<4]) [0..<4]) [0..<4]"

definition mat4f_mul_inplace :: "'a::linordered_field mat4f_t \<Rightarrow> 'a mat4f_t \<Rightarrow> 'a mat4f_t" where
  "mat4f_mul_inplace result m = mat4f_mul result m"

definition mat4f_translate :: "'a::linordered_field mat4f_t \<Rightarrow> 'a vec3f_t \<Rightarrow> 'a mat4f_t" where
  "mat4f_translate m t = mat4f_mul_inplace m (mat4f_make_translation t)"

definition mat4f_scale :: "'a::linordered_field mat4f_t \<Rightarrow> 'a vec3f_t \<Rightarrow> 'a mat4f_t" where
  "mat4f_scale m s = mat4f_mul_inplace m (mat4f_make_scaling s)"

definition mat4f_rotate :: "'a::linordered_field mat4f_t \<Rightarrow> 'a quatf_t \<Rightarrow> 'a mat4f_t" where
  "mat4f_rotate m q = mat4f_mul_inplace m (mat4f_make_rotation q)"

definition mat4f_transform :: "'a::linordered_field mat4f_t \<Rightarrow> 'a vec3f_t \<Rightarrow> 'a vec3f_t" where
  "mat4f_transform m v =
     vec (vx v * el m 0 0 + vy v * el m 1 0 + vz v * el m 2 0 + el m 3 0)
         (vx v * el m 0 1 + vy v * el m 1 1 + vz v * el m 2 1 + el m 3 1)
         (vx v * el m 0 2 + vy v * el m 1 2 + vz v * el m 2 2 + el m 3 2)"

definition mat4f_transform_inplace :: "'a::linordered_field mat4f_t \<Rightarrow> 'a vec3f_t \<Rightarrow> 'a vec3f_t" where
  "mat4f_transform_inplace m v = mat4f_transform m v"

text \<open>The inverse by the six subfactors of the upper and of the lower rows.\<close>

definition upper_factors :: "'a::linordered_field mat4f_t \<Rightarrow> 'a list" where
  "upper_factors m =
     [el m 0 0 * el m 1 1 - el m 1 0 * el m 0 1, el m 0 0 * el m 1 2 - el m 1 0 * el m 0 2,
      el m 0 0 * el m 1 3 - el m 1 0 * el m 0 3, el m 0 1 * el m 1 2 - el m 1 1 * el m 0 2,
      el m 0 1 * el m 1 3 - el m 1 1 * el m 0 3, el m 0 2 * el m 1 3 - el m 1 2 * el m 0 3]"

definition lower_factors :: "'a::linordered_field mat4f_t \<Rightarrow> 'a list" where
  "lower_factors m =
     [el m 2 0 * el m 3 1 - el m 3 0 * el m 2 1, el m 2 0 * el m 3 2 - el m 3 0 * el m 2 2,
      el m 2 0 * el m 3 3 - el m 3 0 * el m 2 3, el m 2 1 * el m 3 2 - el m 3 1 * el m 2 2,
      el m 2 1 * el m 3 3 - el m 3 1 * el m 2 3, el m 2 2 * el m 3 3 - el m 3 2 * el m 2 3]"

definition mat4f_det :: "'a::linordered_field mat4f_t \<Rightarrow> 'a" where
  "mat4f_det m =
     (let s = upper_factors m; c = lower_factors m
      in s ! 0 * c ! 5 - s ! 1 * c ! 4 + s ! 2 * c ! 3 + s ! 3 * c ! 2 - s ! 4 * c ! 1 + s ! 5 * c ! 0)"

definition mat4f_invert :: "'a::linordered_field mat4f_t \<Rightarrow> 'a mat4f_t \<times> bool" where
  "mat4f_invert m =
     (let s = upper_factors m; c = lower_factors m; det = mat4f_det m
      in if det = 0 then (m, False)
         else let d = 1 / det in
           ([[(el m 1 1 * c ! 5 - el m 1 2 * c ! 4 + el m 1 3 * c ! 3) * d,
              (- el m 0 1 * c ! 5 + el m 0 2 * c ! 4 - el m 0 3 * c ! 3) * d,
              (el m 3 1 * s ! 5 - el m 3 2 * s ! 4 + el m 3 3 * s ! 3) * d,
              (- el m 2 1 * s ! 5 + el m 2 2 * s ! 4 - el m 2 3 * s ! 3) * d],
             [(- el m 1 0 * c ! 5 + el m 1 2 * c ! 2 - el m 1 3 * c ! 1) * d,
              (el m 0 0 * c ! 5 - el m 0 2 * c ! 2 + el m 0 3 * c ! 1) * d,
              (- el m 3 0 * s ! 5 + el m 3 2 * s ! 2 - el m 3 3 * s ! 1) * d,
              (el m 2 0 * s ! 5 - el m 2 2 * s ! 2 + el m 2 3 * s ! 1) * d],
             [(el m 1 0 * c ! 4 - el m 1 1 * c ! 2 + el m 1 3 * c ! 0) * d,
              (- el m 0 0 * c ! 4 + el m 0 1 * c ! 2 - el m 0 3 * c ! 0) * d,
              (el m 3 0 * s ! 4 - el m 3 1 * s ! 2 + el m 3 3 * s ! 0) * d,
              (- el m 2 0 * s ! 4 + el m 2 1 * s ! 2 - el m 2 3 * s ! 0) * d],
             [(- el m 1 0 * c ! 3 + el m 1 1 * c ! 1 - el m 1 2 * c ! 0) * d,
              (el m 0 0 * c ! 3 - el m 0 1 * c ! 1 + el m 0 2 * c ! 0) * d,
              (- el m 3 0 * s ! 3 + el m 3 1 * s ! 1 - el m 3 2 * s ! 0) * d,
              (el m 2 0 * s ! 3 - el m 2 1 * s ! 1 + el m 2 2 * s ! 0) * d]], True))"

text \<open>A zero angle leaves the matrix as it is.\<close>

definition mat4f_make_perspective :: "'a::linordered_field libm \<Rightarrow> 'a mat4f_t \<Rightarrow> 'a \<Rightarrow> 'a \<Rightarrow> 'a \<Rightarrow> 'a \<Rightarrow> 'a mat4f_t" where
  "mat4f_make_perspective L m angle aspect z_near z_far =
     (if angle = 0 then m
      else let aspect' = max (flt_epsilon L) aspect; z_near' = max (flt_epsilon L) z_near; t = tanf L (angle / 2)
           in [[1 / (t * aspect'), 0, 0, 0], [0, 1 / t, 0, 0], [0, 0, 0, - 1], [0, 0, z_near', 0]])"

definition mat4f_make_orthographic :: "'a::linordered_field libm \<Rightarrow> 'a \<Rightarrow> 'a \<Rightarrow> 'a \<Rightarrow> 'a \<Rightarrow> 'a mat4f_t" where
  "mat4f_make_orthographic L angle aspect z_near z_far =
     (let aspect' = max (flt_epsilon L) aspect
      in [[(1 / 5) / aspect', 0, 0, 0], [0, 1 / 5, 0, 0], [0, 0, 0, 0], [0, 0, 0, 1]])"

definition mat4f_make_lookat :: "'a::linordered_field libm \<Rightarrow> 'a vec3f_t \<Rightarrow> 'a vec3f_t \<Rightarrow> 'a vec3f_t \<Rightarrow> 'a mat4f_t" where
  "mat4f_make_lookat L eye dir up =
     (let z = vec3f_negate (vec3f_norm L dir); x = vec3f_norm L (vec3f_cross up z); y = vec3f_norm L (vec3f_cross z x)
      in [[vx x, vx y, vx z, 0], [vy x, vy y, vy z, 0], [vz x, vz y, vz z, 0],
          [- vec3f_dot x eye, - vec3f_dot y eye, - vec3f_dot z eye, 1]])"

section \<open>Transforms\<close>

record 'a transform_t =
  translation :: "'a vec3f_t"
  tscale :: "'a vec3f_t"
  rotation :: "'a quatf_t"

definition transform_identity :: "'a::linordered_field transform_t" where
  "transform_identity = \<lparr>translation = vec3f_zero, tscale = vec3f_one, rotation = quatf_identity\<rparr>"

definition transform_to_matrix :: "'a::linordered_field transform_t \<Rightarrow> 'a mat4f_t" where
  "transform_to_matrix t =
     (let x = vx (v3 (rotation t)); y = vy (v3 (rotation t)); z = vz (v3 (rotation t)); w = qs (rotation t);
          r00 = 1 - 2 * (y * y + z * z); r10 = 2 * (x * y - z * w); r20 = 2 * (x * z + y * w);
          r01 = 2 * (x * y + z * w); r11 = 1 - 2 * (x * x + z * z); r21 = 2 * (y * z - x * w);
          r02 = 2 * (x * z - y * w); r12 = 2 * (y * z + x * w); r22 = 1 - 2 * (x * x + y * y);
          s = tscale t
      in [[vx s * r00, vx s * r01, vx s * r02, 0], [vy s * r10, vy s * r11, vy s * r12, 0],
          [vz s * r20, vz s * r21, vz s * r22, 0],
          [vx (translation t), vy (translation t), vz (translation t), 1]])"

definition transform_multiply :: "'a::linordered_field transform_t \<Rightarrow> 'a transform_t \<Rightarrow> 'a transform_t" where
  "transform_multiply result t =
     (let scaled = vec3f_mul (translation result) (tscale t); rotated = quatf_rotate_vec (rotation t) scaled
      in \<lparr>translation = vec3f_add rotated (translation t), tscale = vec3f_mul (tscale result) (tscale t),
          rotation = quatf_mul (rotation t) (rotation result)\<rparr>)"

definition transform_invert :: "'a::linordered_field transform_t \<Rightarrow> 'a transform_t" where
  "transform_invert t =
     (let inv = (\<lambda>x. if x \<noteq> 0 then 1 / x else 0);
          s = vec (inv (vx (tscale t))) (inv (vy (tscale t))) (inv (vz (tscale t)));
          q = quatf_conjugate (rotation t)
      in \<lparr>translation = vec3f_mul s (quatf_rotate_vec q (vec3f_negate (translation t))), tscale = s, rotation = q\<rparr>)"

definition transform_transform_vec3 :: "'a::linordered_field transform_t \<Rightarrow> 'a vec3f_t \<Rightarrow> 'a vec3f_t" where
  "transform_transform_vec3 t v =
     vec3f_add (quatf_rotate_vec (rotation t) (vec3f_mul v (tscale t))) (translation t)"

section \<open>Correctness\<close>

lemma upt_4: "[0..<4] = [0, 1, 2, 3 :: nat]"
  by (simp add: upt_rec)

lemmas vec_defs = vec3f_add_def vec3f_sub_def vec3f_mul_def vec3f_scale_def vec3f_negate_def vec3f_cross_def vec3f_dot_def
  vec3f_mag2_def vec3f_zero_def vec3f_one_def

lemmas mat_defs = mat4f_mul_def el_def put_el_def upt_4 mat4f_make_identity_def mat4f_make_translation_def mat4f_make_scaling_def
  mat4f_make_rotation_def

lemma identity_matrix:
  "mat4f_make_identity = [[1, 0, 0, 0], [0, 1, 0, 0], [0, 0, 1, 0], [0, 0, 0, 1 :: 'a::linordered_field]]"
  by (simp add: mat4f_make_identity_def put_el_def upt_4 eval_nat_numeral)

lemma vec_eqI: "vx a = vx b \<Longrightarrow> vy a = vy b \<Longrightarrow> vz a = vz b \<Longrightarrow> a = (b :: 'a vec3f_t)"
  by (cases a; cases b) simp

lemma scaling_matrix: "mat4f_make_scaling s = [[vx s, 0, 0, 0], [0, vy s, 0, 0], [0, 0, vz s, 0], [0, 0, 0, 1]]"
  by (simp add: mat4f_make_scaling_def identity_matrix put_el_def eval_nat_numeral)

lemma translation_matrix: "mat4f_make_translation t = [[1, 0, 0, 0], [0, 1, 0, 0], [0, 0, 1, 0], [vx t, vy t, vz t, 1]]"
  by (simp add: mat4f_make_translation_def identity_matrix put_el_def eval_nat_numeral)

text \<open>
  C34.  A transform, its matrix and the product of the scaling, rotation and translation matrices are
  the same map: \<^verbatim>\<open>transform_to_matrix\<close> is that product, written out, and applying the matrix to a vector
  gives what \<^verbatim>\<open>transform_transform_vec3\<close> gives, for any quaternion.
\<close>

theorem transform_matrix_agrees:
  fixes t :: "'a::linordered_field transform_t"
  shows "transform_to_matrix t = mat4f_mul (mat4f_mul (mat4f_make_scaling (tscale t)) (mat4f_make_rotation (rotation t)))
      (mat4f_make_translation (translation t)) \<and>
    mat4f_transform (transform_to_matrix t) v = transform_transform_vec3 t v"
proof
  show "transform_to_matrix t = mat4f_mul (mat4f_mul (mat4f_make_scaling (tscale t)) (mat4f_make_rotation (rotation t)))
      (mat4f_make_translation (translation t))"
    by (simp add: transform_to_matrix_def Let_def scaling_matrix translation_matrix mat4f_make_rotation_def mat4f_mul_def upt_4
        el_def eval_nat_numeral)
  show "mat4f_transform (transform_to_matrix t) v = transform_transform_vec3 t v"
    by (rule vec_eqI)
      (simp_all add: mat4f_transform_def transform_to_matrix_def transform_transform_vec3_def quatf_rotate_vec_def Let_def el_def
        vec_defs eval_nat_numeral algebra_simps)
qed

section \<open>Inverses and composition\<close>

lemma matrix_rows:
  assumes "length m = 4" and "\<forall>r \<in> set m. length r = 4"
  shows "\<exists>a b c d e f g h i j k l n p q r. m = [[a, b, c, d], [e, f, g, h], [i, j, k, l], [n, p, q, r]]"
  using assms by (auto simp: eval_nat_numeral length_Suc_conv)

lemma common_factor:
  fixes e :: "'a::linordered_field"
  shows "a * (x * e) + b * (y * e) + c * (z * e) + d * (w * e) = (a * x + b * y + c * z + d * w) * e"
  by (simp add: algebra_simps)

lemma scaled_entry:
  fixes e :: "'a::linordered_field"
  shows "p = 0 \<Longrightarrow> p * e = 0" and "p = D \<Longrightarrow> D * e = 1 \<Longrightarrow> p * e = 1"
  by simp_all

text \<open>\<^verbatim>\<open>mat4f_invert\<close> gives an inverse whenever it says so, and changes nothing when it does not.\<close>

lemma mat4f_invert_inverse:
  fixes m :: "'a::linordered_field mat4f_t"
  assumes "length m = 4" and "\<forall>r \<in> set m. length r = 4" and inv: "mat4f_invert m = (n, True)"
  shows "mat4f_mul m n = mat4f_make_identity"
proof -
  from matrix_rows [OF assms(1,2)] obtain a b c d e f g h i j k l o' p q r where
    m: "m = [[a, b, c, d], [e, f, g, h], [i, j, k, l], [o', p, q, r]]" by blast
  define D where "D = mat4f_det m"
  define E where "E = 1 / D"
  have D: "D \<noteq> 0" using inv by (auto simp: mat4f_invert_def Let_def D_def split: if_splits)
  then have E: "D * E = 1" by (simp add: E_def)
  have det: "D = (a * f - e * b) * (k * r - q * l) - (a * g - e * c) * (j * r - p * l) + (a * h - e * d) * (j * q - p * k) +
      (b * g - f * c) * (i * r - o' * l) - (b * h - f * d) * (i * q - o' * k) + (c * h - g * d) * (i * p - o' * j)"
    by (simp add: D_def mat4f_det_def upper_factors_def lower_factors_def m el_def Let_def eval_nat_numeral)
  have n: "n = fst (mat4f_invert m)" using inv by simp
  show ?thesis
    unfolding n identity_matrix mat4f_invert_def Let_def D_def [symmetric] E_def [symmetric]
    using D
    by (simp add: mat4f_mul_def upt_4 el_def m upper_factors_def lower_factors_def eval_nat_numeral)
      (intro conjI; (unfold common_factor)?; ((rule scaled_entry(1)) | (rule scaled_entry(2) [OF _ E])); (simp add: det algebra_simps)?)
qed

lemma mat4f_invert_singular: "mat4f_invert m = (n, False) \<longleftrightarrow> mat4f_det m = 0 \<and> n = m"
  by (auto simp: mat4f_invert_def Let_def)

lemma quatf_rotate_conjugate:
  fixes q :: "'a::linordered_field quatf_t"
  assumes "vec3f_mag2 (v3 q) + qs q * qs q = 1"
  shows "quatf_mul q (quatf_conjugate q) = quatf_identity"
  using assms by (cases q) (simp add: quatf_mul_def quatf_conjugate_def quatf_identity_def Let_def vec_defs algebra_simps)

text \<open>The combination of two transforms scales per axis of the result: with a scale that differs between
  the axes it is not the composition.\<close>

lemma transform_multiply_not_composition:
  "transform_transform_vec3 (transform_multiply
       \<lparr>translation = vec 0 0 0, tscale = vec 1 1 1, rotation = \<lparr>v3 = vec 0 0 (3 / 5), qs = 4 / 5\<rparr>\<rparr>
       \<lparr>translation = vec 0 0 0, tscale = vec 2 1 1, rotation = quatf_identity\<rparr>) (vec (1 :: real) 0 0)
   \<noteq> transform_transform_vec3 \<lparr>translation = vec 0 0 0, tscale = vec 2 1 1, rotation = quatf_identity\<rparr>
       (transform_transform_vec3 \<lparr>translation = vec 0 0 0, tscale = vec 1 1 1, rotation = \<lparr>v3 = vec 0 0 (3 / 5), qs = 4 / 5\<rparr>\<rparr>
         (vec 1 0 0))"
  by (simp add: transform_transform_vec3_def transform_multiply_def quatf_rotate_vec_def quatf_mul_def quatf_identity_def Let_def
      vec_defs)

text \<open>Nor is the inverted transform the inverse then.\<close>

lemma transform_invert_not_inverse:
  "transform_transform_vec3 (transform_invert
       \<lparr>translation = vec 0 0 0, tscale = vec 2 1 1, rotation = \<lparr>v3 = vec 0 0 (3 / 5), qs = 4 / 5\<rparr>\<rparr>)
     (transform_transform_vec3 \<lparr>translation = vec 0 0 0, tscale = vec 2 1 1, rotation = \<lparr>v3 = vec 0 0 (3 / 5), qs = 4 / 5\<rparr>\<rparr>
       (vec (1 :: real) 0 0)) \<noteq> vec 1 0 0"
  by (simp add: transform_transform_vec3_def transform_invert_def quatf_rotate_vec_def quatf_conjugate_def Let_def vec_defs)

text \<open>Only the yaw comes out of the conversion to angles, and as the first component.\<close>

lemma eulers_lose_roll_and_pitch: "vy (quatf_to_eulers L q) = 0" "vz (quatf_to_eulers L q) = 0"
  by (simp_all add: quatf_to_eulers_def Let_def)

lemma perspective_zero_angle: "mat4f_make_perspective L m 0 aspect z_near z_far = m"
  by (simp add: mat4f_make_perspective_def)

end
