(* ===== verification/Frogger.thy ===== *)
theory Frogger
  imports Ecs_Save Timers Window Render Linear
begin

text \<open>
  The game (\<^verbatim>\<open>frogger_game.c\<close>): what its components hold, spawning, the movement of the blocks, the
  player's movement and collisions, drawing, and the frame.  Components are read and written where the
  entity system keeps them, byte by byte: a \<^verbatim>\<open>float\<close> is stored through a representation (\<open>float_rep\<close>)
  that rounds, and a pointer as the number of its block and its offset.  The arithmetic between a read
  and a write is that of an ordered field, as in \<open>Linear\<close>.
\<close>

section \<open>Values in memory\<close>

record 'a float_rep =
  f_bits :: "'a \<Rightarrow> u32"
  f_val :: "u32 \<Rightarrow> 'a"

definition rounded :: "'a float_rep \<Rightarrow> 'a \<Rightarrow> 'a" where
  "rounded R x = f_val R (f_bits R x)"

definition float_bytes :: "'a float_rep \<Rightarrow> 'a list \<Rightarrow> bytes" where
  "float_bytes R xs = concat (map (\<lambda>x. le32 (f_bits R x)) xs)"

definition floats_of :: "'a float_rep \<Rightarrow> bytes \<Rightarrow> 'a list" where
  "floats_of R bs = map (\<lambda>b. f_val R (of_le32 b)) (chunks 4 (length bs div 4) bs)"

definition read_floats :: "'a float_rep \<Rightarrow> mem \<Rightarrow> ptr option \<Rightarrow> nat \<Rightarrow> 'a list outcome" where
  "read_floats R m p n = bind_ok (mem_read m p (4 * n)) (\<lambda>bs. Inr (floats_of R bs))"

definition write_floats :: "'a float_rep \<Rightarrow> mem \<Rightarrow> ptr option \<Rightarrow> 'a list \<Rightarrow> mem outcome" where
  "write_floats R m p xs = mem_write m p (float_bytes R xs)"

text \<open>A transform is its translation, its scale and its rotation, ten floats.\<close>

definition vec_floats :: "'a vec3f_t \<Rightarrow> 'a list" where
  "vec_floats v = [vx v, vy v, vz v]"

definition vec_of :: "'a list \<Rightarrow> 'a vec3f_t" where
  "vec_of xs = vec (xs ! 0) (xs ! 1) (xs ! 2)"

definition transform_floats :: "'a transform_t \<Rightarrow> 'a list" where
  "transform_floats t = vec_floats (translation t) @ vec_floats (tscale t) @ vec_floats (v3 (rotation t)) @ [qs (rotation t)]"

definition transform_of :: "'a list \<Rightarrow> 'a transform_t" where
  "transform_of xs = \<lparr>translation = vec_of xs, tscale = vec_of (drop 3 xs), rotation = \<lparr>v3 = vec_of (drop 6 xs), qs = xs ! 9\<rparr>\<rparr>"

definition read_transform :: "'a float_rep \<Rightarrow> mem \<Rightarrow> ptr option \<Rightarrow> 'a transform_t outcome" where
  "read_transform R m p = bind_ok (read_floats R m p 10) (\<lambda>xs. Inr (transform_of xs))"

definition write_transform :: "'a float_rep \<Rightarrow> mem \<Rightarrow> ptr option \<Rightarrow> 'a transform_t \<Rightarrow> mem outcome" where
  "write_transform R m p t = write_floats R m p (transform_floats t)"

text \<open>The translation is at the start; the second element of the scale is 16 bytes on.\<close>

definition read_translation :: "'a float_rep \<Rightarrow> mem \<Rightarrow> ptr option \<Rightarrow> 'a vec3f_t outcome" where
  "read_translation R m p = bind_ok (read_floats R m p 3) (\<lambda>xs. Inr (vec_of xs))"

definition write_translation :: "'a float_rep \<Rightarrow> mem \<Rightarrow> ptr option \<Rightarrow> 'a vec3f_t \<Rightarrow> mem outcome" where
  "write_translation R m p v = write_floats R m p (vec_floats v)"

definition offset_translation_y :: nat where "offset_translation_y = 4"
definition offset_scale_y :: nat where "offset_scale_y = 16"

text \<open>\<^verbatim>\<open>translation = vec3f_add(translation, v)\<close>.\<close>

definition move_by :: "'a::linordered_field float_rep \<Rightarrow> mem \<Rightarrow> ptr option \<Rightarrow> 'a vec3f_t \<Rightarrow> mem outcome" where
  "move_by R m p v = bind_ok (read_translation R m p) (\<lambda>t. write_translation R m p (vec3f_add t v))"

text \<open>A pointer is stored as one more than its block in the upper half, 0 for null.\<close>

definition ptr_bits :: "ptr option \<Rightarrow> u64" where
  "ptr_bits p = (case p of None \<Rightarrow> 0 | Some (b, off) \<Rightarrow> word_of_nat ((b + 1) * 2 ^ 32 + off))"

definition ptr_of_bits :: "u64 \<Rightarrow> ptr option" where
  "ptr_of_bits w = (if unat w < 2 ^ 32 then None else Some (unat w div 2 ^ 32 - 1, unat w mod 2 ^ 32))"

text \<open>\<^verbatim>\<open>strcpy_s\<close>: the characters and the terminator, or the end of the program.\<close>

definition write_name :: "mem \<Rightarrow> ptr option \<Rightarrow> nat \<Rightarrow> string \<Rightarrow> mem outcome" where
  "write_name m p n s =
     (if n \<le> length s then Inl Invalid_parameter else mem_write m p (map (\<lambda>c. word_of_nat (of_char c)) s @ [0]))"

section \<open>Components and state\<close>

definition sizeof_transform_component_t :: nat where "sizeof_transform_component_t = 40"
definition sizeof_camera_component_t :: nat where "sizeof_camera_component_t = 128"
definition sizeof_model_component_t :: nat where "sizeof_model_component_t = 16"
definition sizeof_player_component_t :: nat where "sizeof_player_component_t = 4"
definition sizeof_block_component_t :: nat where "sizeof_block_component_t = 4"
definition sizeof_name_component_t :: nat where "sizeof_name_component_t = 32"

record frogger_game_t =
  fg_self :: ptr
  fg_timer :: ptr
  fg_ecs :: ecs_t
  transform_type :: int
  camera_type :: int
  model_type :: int
  player_type :: int
  block_type :: int
  name_type :: int
  player_ent :: ecs_entity_ref_t
  camera_ent :: ecs_entity_ref_t
  block_ents :: "ecs_entity_ref_t list"
  cube_mesh :: gpu_mesh_info_t
  cube_shader :: gpu_shader_info_t
  block_mesh :: gpu_mesh_info_t
  vertex_shader_work :: "fs_work_t option"
  fragment_shader_work :: "fs_work_t option"

definition sizeof_frogger_game_t :: nat where "sizeof_frogger_game_t = 320"
definition offset_cube_mesh :: nat where "offset_cube_mesh = 184"
definition offset_cube_shader :: nat where "offset_cube_shader = 224"
definition offset_block_mesh :: nat where "offset_block_mesh = 264"
definition sizeof_timer_object_t :: nat where "sizeof_timer_object_t = 56"

text \<open>
  What the game runs in: the representation of floats, the C library's functions and random numbers,
  the file system's calls, and the arithmetic of the timers.
\<close>

record ('a, 'd, 't) frogger_env =
  en_floats :: "'a float_rep"
  en_libm :: "'a libm"
  en_rand :: "nat \<Rightarrow> nat"
  en_rand_max :: nat
  en_io :: "'d fs_io"
  en_fp :: "'t fp_lib"

text \<open>
  And what it changes beside itself: the memory, the disk, the number of random numbers drawn, the
  timers, and the renderer's queue.  Of the render thread this is what the game can see: the commands that
  it has taken so far, and how many more it takes while the game waits for a free place.  What it does with a
  command is the subject of \<open>Render\<close> and \<open>Gpu_Frames\<close>.
\<close>

record ('d, 't) frogger_world =
  fw_mem :: mem
  fw_disk :: 'd
  fw_rand :: nat
  fw_timers :: "'t timers"
  fw_statics :: "'t timer_statics"
  fw_window :: wm_window_t
  fw_queue :: "render_command option queue_t"
  fw_taken :: "render_command option list"
  fw_takes :: nat

text \<open>What has been pushed, in order: what the render thread has taken, and what is still in the queue.\<close>

definition fw_pushed :: "('d, 't) frogger_world \<Rightarrow> render_command option list" where
  "fw_pushed w = fw_taken w @ queue_list (fw_queue w)"

text \<open>What the game shares with the render thread.\<close>

abbreviation fw_render :: "('d, 't) frogger_world \<Rightarrow> render_command option queue_t \<times> render_command option list \<times> nat" where
  "fw_render w \<equiv> (fw_queue w, fw_taken w, fw_takes w)"

lemma fw_pushed_simps [simp]:
  "fw_pushed (w\<lparr>fw_mem := m\<rparr>) = fw_pushed w" "fw_pushed (w\<lparr>fw_disk := d\<rparr>) = fw_pushed w"
  "fw_pushed (w\<lparr>fw_rand := n\<rparr>) = fw_pushed w" "fw_pushed (w\<lparr>fw_timers := ts\<rparr>) = fw_pushed w"
  "fw_pushed (w\<lparr>fw_window := win\<rparr>) = fw_pushed w"
  by (simp_all add: fw_pushed_def)

type_synonym ('d, 't) frogger_state = "('d, 't) frogger_world \<times> frogger_game_t"

definition with_mem :: "('d, 't) frogger_state \<Rightarrow> mem \<Rightarrow> ('d, 't) frogger_state" where
  "with_mem s m = ((fst s)\<lparr>fw_mem := m\<rparr>, snd s)"

text \<open>\<^verbatim>\<open>1ULL << type\<close>, for each of the types; a shift by a negative number is undefined.\<close>

fun component_mask :: "int list \<Rightarrow> u64 outcome" where
  "component_mask [] = Inr 0"
| "component_mask (t # ts) =
     (if 0 \<le> t \<and> t < 64 then bind_ok (component_mask ts) (\<lambda>cm. Inr (push_bit (nat t) 1 OR cm)) else Inl Out_of_bounds)"

text \<open>The random width, drawn as number \<open>n\<close>.\<close>

definition random_scale :: "('a::linordered_field, 'd, 't) frogger_env \<Rightarrow> nat \<Rightarrow> 'a" where
  "random_scale E n = (of_nat (en_rand E n) / of_nat (en_rand_max E) * 2 + 1) * 4"

fun for_each_ok :: "('i \<Rightarrow> 's \<Rightarrow> 's outcome) \<Rightarrow> 'i list \<Rightarrow> 's \<Rightarrow> 's outcome" where
  "for_each_ok f [] s = Inr s"
| "for_each_ok f (i # is) s = bind_ok (f i s) (for_each_ok f is)"

text \<open>
  \<^verbatim>\<open>for (query = ecs_query_create(..); ecs_query_is_valid(..); ecs_query_next(..))\<close>: the body may change
  the entity system, and the next entity is looked for in what it leaves.
\<close>

function query_loop :: "('s \<Rightarrow> ecs_t) \<Rightarrow> (ecs_query_t \<Rightarrow> 's \<Rightarrow> 's outcome) \<Rightarrow> ecs_query_t \<Rightarrow> 's \<Rightarrow> 's outcome" where
  "query_loop ecs_of body q s =
     (if ecs_query_is_valid q
      then (case body q s of Inl e \<Rightarrow> Inl e | Inr s' \<Rightarrow> query_loop ecs_of body (ecs_query_next (ecs_of s') q) s')
      else Inr s)"
  by pat_completeness auto
termination
proof (relation "measure (\<lambda>(ecs_of, body, q, s). if q_entity q < 0 then 0 else Suc (k_max_entities - nat (q_entity q)))",
    goal_cases)
  case (2 ecs_of body q s s')
  then show ?case
    using ecs_query_next_entity [of "ecs_of s'" q] by (auto simp: ecs_query_is_valid_def)
qed simp

declare query_loop.simps [simp del]

definition game_loop :: "u64 outcome \<Rightarrow> (ecs_query_t \<Rightarrow> ('d, 't) frogger_state \<Rightarrow> ('d, 't) frogger_state outcome) \<Rightarrow>
    ('d, 't) frogger_state \<Rightarrow> ('d, 't) frogger_state outcome" where
  "game_loop cm body s =
     bind_ok cm (\<lambda>cm. query_loop (\<lambda>s. fg_ecs (snd s)) body (ecs_query_create (fg_ecs (snd s)) cm) s)"

definition query_component :: "('d, 't) frogger_state \<Rightarrow> ecs_query_t \<Rightarrow> int \<Rightarrow> ptr option outcome" where
  "query_component s q ty = ecs_query_get_component (fg_ecs (snd s)) q ty"

section \<open>Spawning\<close>

definition write_model :: "mem \<Rightarrow> ptr option \<Rightarrow> ptr \<Rightarrow> ptr \<Rightarrow> mem outcome" where
  "write_model m p mesh shader = mem_write m p (le64 (ptr_bits (Some mesh)) @ le64 (ptr_bits (Some shader)))"

definition field_ptr :: "frogger_game_t \<Rightarrow> nat \<Rightarrow> ptr" where
  "field_ptr g off = (fst (fg_self g), snd (fg_self g) + off)"

text \<open>The rows, from the top of the screen, and the four places in each.\<close>

definition block_row :: "nat \<Rightarrow> 'a::linordered_field" where
  "block_row i = (if i \<le> 3 then 2 else if i \<le> 7 then 0 else - 2)"

definition block_column :: "nat \<Rightarrow> 'a::linordered_field" where
  "block_column i = (3 / 2 - of_nat (i mod 4)) * 6"

definition spawn_block :: "('a::linordered_field, 'd, 't) frogger_env \<Rightarrow> nat \<Rightarrow> ('d, 't) frogger_state \<Rightarrow> ('d, 't) frogger_state outcome" where
  "spawn_block E i s =
     (case s of (w, g) \<Rightarrow>
      let R = en_floats E in
      bind_ok (component_mask [transform_type g, model_type g, block_type g, name_type g]) (\<lambda>cm.
      case ecs_entity_add (fg_ecs g) cm of (e, ref) \<Rightarrow>
      bind_ok (ecs_entity_get_component e ref (transform_type g) True) (\<lambda>tp.
      bind_ok (write_transform R (fw_mem w) tp transform_identity) (\<lambda>m1.
      bind_ok (move_by R m1 tp (vec3f_scale vec3f_up (block_row i))) (\<lambda>m2.
      bind_ok (move_by R m2 tp (vec3f_scale vec3f_right (block_column i))) (\<lambda>m3.
      bind_ok (ecs_entity_get_component e ref (name_type g) True) (\<lambda>np.
      bind_ok (write_name m3 np 32 ''block'') (\<lambda>m4.
      bind_ok (ecs_entity_get_component e ref (block_type g) True) (\<lambda>bp.
      bind_ok (write_floats R m4 bp [random_scale E (fw_rand w)]) (\<lambda>m5.
      bind_ok (read_floats R m5 bp 1) (\<lambda>sc.
      bind_ok (write_floats R m5 (ptr_add tp offset_scale_y) sc) (\<lambda>m6.
      bind_ok (ecs_entity_get_component e ref (model_type g) True) (\<lambda>mp.
      bind_ok (write_model m6 mp (field_ptr g offset_block_mesh) (field_ptr g offset_cube_shader)) (\<lambda>m7.
      Inr (w\<lparr>fw_mem := m7, fw_rand := Suc (fw_rand w)\<rparr>,
           g\<lparr>fg_ecs := e, block_ents := (block_ents g)[i := ref]\<rparr>)))))))))))))))"

definition spawn_blocks :: "('a::linordered_field, 'd, 't) frogger_env \<Rightarrow> ('d, 't) frogger_state \<Rightarrow> ('d, 't) frogger_state outcome" where
  "spawn_blocks E s = for_each_ok (spawn_block E) [0..<12] s"

text \<open>Where a player starts, and starts again.\<close>

definition place_player :: "'a::linordered_field float_rep \<Rightarrow> mem \<Rightarrow> ptr option \<Rightarrow> mem outcome" where
  "place_player R m tp = bind_ok (write_transform R m tp transform_identity) (\<lambda>m1. move_by R m1 tp (vec3f_scale vec3f_up 4))"

definition spawn_player :: "('a::linordered_field, 'd, 't) frogger_env \<Rightarrow> i32 \<Rightarrow> ('d, 't) frogger_state \<Rightarrow> ('d, 't) frogger_state outcome" where
  "spawn_player E index s =
     (case s of (w, g) \<Rightarrow>
      let R = en_floats E in
      bind_ok (component_mask [transform_type g, model_type g, player_type g, name_type g]) (\<lambda>cm.
      case ecs_entity_add (fg_ecs g) cm of (e, ref) \<Rightarrow>
      bind_ok (ecs_entity_get_component e ref (transform_type g) True) (\<lambda>tp.
      bind_ok (place_player R (fw_mem w) tp) (\<lambda>m1.
      bind_ok (ecs_entity_get_component e ref (name_type g) True) (\<lambda>np.
      bind_ok (write_name m1 np 32 ''player'') (\<lambda>m2.
      bind_ok (ecs_entity_get_component e ref (player_type g) True) (\<lambda>pp.
      bind_ok (mem_write m2 pp (le32 index)) (\<lambda>m3.
      bind_ok (ecs_entity_get_component e ref (model_type g) True) (\<lambda>mp.
      bind_ok (write_model m3 mp (field_ptr g offset_cube_mesh) (field_ptr g offset_cube_shader)) (\<lambda>m4.
      Inr (w\<lparr>fw_mem := m4\<rparr>, g\<lparr>fg_ecs := e, player_ent := ref\<rparr>)))))))))))"

text \<open>The near and far planes and the ratio are given, and the view looks forward from five units behind.\<close>

definition camera_floats :: "'a::linordered_field libm \<Rightarrow> 'a list" where
  "camera_floats L =
     concat (mat4f_make_orthographic L (half_pi L) (16 / 9) (1 / 10) 100) @
     concat (mat4f_make_lookat L (vec3f_scale vec3f_forward (- 5)) vec3f_forward vec3f_up)"

definition spawn_camera :: "('a::linordered_field, 'd, 't) frogger_env \<Rightarrow> ('d, 't) frogger_state \<Rightarrow> ('d, 't) frogger_state outcome" where
  "spawn_camera E s =
     (case s of (w, g) \<Rightarrow>
      bind_ok (component_mask [camera_type g, name_type g]) (\<lambda>cm.
      case ecs_entity_add (fg_ecs g) cm of (e, ref) \<Rightarrow>
      bind_ok (ecs_entity_get_component e ref (name_type g) True) (\<lambda>np.
      bind_ok (write_name (fw_mem w) np 32 ''camera'') (\<lambda>m1.
      bind_ok (ecs_entity_get_component e ref (camera_type g) True) (\<lambda>cp.
      bind_ok (write_floats (en_floats E) m1 cp (camera_floats (en_libm E))) (\<lambda>m2.
      Inr (w\<lparr>fw_mem := m2\<rparr>, g\<lparr>fg_ecs := e, camera_ent := ref\<rparr>)))))))"

section \<open>The blocks\<close>

text \<open>Past its end of the row a block comes back at the other, with a new width.\<close>

definition recycle_block :: "('a::linordered_field, 'd, 't) frogger_env \<Rightarrow> ('d, 't) frogger_state \<Rightarrow> ptr option \<Rightarrow> ptr option \<Rightarrow> 'a \<Rightarrow>
    ('d, 't) frogger_state outcome" where
  "recycle_block E s tp bp y =
     (case s of (w, g) \<Rightarrow>
      bind_ok (write_floats (en_floats E) (fw_mem w) (ptr_add tp offset_translation_y) [y]) (\<lambda>m1.
      bind_ok (write_floats (en_floats E) m1 bp [random_scale E (fw_rand w)]) (\<lambda>m2.
      Inr (w\<lparr>fw_mem := m2, fw_rand := Suc (fw_rand w)\<rparr>, g))))"

definition block_move :: "'a::linordered_field \<Rightarrow> 'a transform_t \<Rightarrow> 'a transform_t" where
  "block_move speed t =
     transform_identity\<lparr>translation := vec3f_add vec3f_zero (vec3f_scale vec3f_right
       (if vz (translation t) > 1 then - speed
        else if vz (translation t) < - 1 then - speed * 2 else speed * (3 / 2)))\<rparr>"

definition update_block :: "('a::linordered_field, 'd, 't) frogger_env \<Rightarrow> 'a \<Rightarrow> ecs_query_t \<Rightarrow> ('d, 't) frogger_state \<Rightarrow>
    ('d, 't) frogger_state outcome" where
  "update_block E speed q s =
     (let R = en_floats E in
      bind_ok (query_component s q (transform_type (snd s))) (\<lambda>tp.
      bind_ok (query_component s q (block_type (snd s))) (\<lambda>bp.
      if bp = None then Inr s else
      bind_ok (read_transform R (fw_mem (fst s)) tp) (\<lambda>t0.
      bind_ok (if vy (translation t0) > 12 \<and> vz (translation t0) < 1 \<and> vz (translation t0) > - 1
               then recycle_block E s tp bp (- 12) else Inr s) (\<lambda>s1.
      bind_ok (read_transform R (fw_mem (fst s1)) tp) (\<lambda>t1.
      bind_ok (if vy (translation t1) < - 12 \<and> (vz (translation t1) > 1 \<or> vz (translation t1) < - 1)
               then recycle_block E s1 tp bp 12 else Inr s1) (\<lambda>s2.
      bind_ok (read_floats R (fw_mem (fst s2)) bp 1) (\<lambda>sc.
      bind_ok (write_floats R (fw_mem (fst s2)) (ptr_add tp offset_scale_y) sc) (\<lambda>m3.
      bind_ok (read_transform R m3 tp) (\<lambda>t2.
      bind_ok (write_transform R m3 tp (transform_multiply t2 (block_move speed t2))) (\<lambda>m4.
      Inr (with_mem s2 m4))))))))))))"

text \<open>Two units in a second; the delta is in milliseconds.\<close>

definition frame_speed :: "('a::linordered_field, 'd, 't) frogger_env \<Rightarrow> ('d, 't) frogger_state \<Rightarrow> 'a outcome" where
  "frame_speed E s =
     (case s of (w, g) \<Rightarrow>
      bind_ok (timer_object_get_delta_ms (en_fp E) (fw_statics w) (fw_timers w) (fst (fg_timer g))) (\<lambda>d.
      Inr (of_nat (unat d) * (1 / 1000) * 2)))"

definition update_blocks :: "('a::linordered_field, 'd, 't) frogger_env \<Rightarrow> ('d, 't) frogger_state \<Rightarrow> ('d, 't) frogger_state outcome" where
  "update_blocks E s =
     bind_ok (frame_speed E s) (\<lambda>speed.
     game_loop (component_mask [transform_type (snd s), block_type (snd s)]) (update_block E speed) s)"

section \<open>The players\<close>

definition block_hits :: "'a::linordered_field \<Rightarrow> 'a \<Rightarrow> 'a \<Rightarrow> 'a \<Rightarrow> 'a \<Rightarrow> bool" where
  "block_hits player_y player_z block_y block_z block_width \<longleftrightarrow>
     (block_y - (1 / 5) * block_width \<le> player_y + 1 / 5 \<and> block_y + (1 / 5) * block_width \<ge> player_y - 1 / 5) \<and>
     (block_z - 1 / 5 \<le> player_z + 1 / 5 \<and> block_z + 1 / 5 \<ge> player_z - 1 / 5)"

text \<open>The inner loop's body, for a player at \<open>tp\<close> that was where the test began.\<close>

definition collide_block :: "('a::linordered_field, 'd, 't) frogger_env \<Rightarrow> ptr option \<Rightarrow> 'a vec3f_t \<Rightarrow> ecs_query_t \<Rightarrow>
    ('d, 't) frogger_state \<Rightarrow> ('d, 't) frogger_state outcome" where
  "collide_block E tp player q s =
     (let R = en_floats E; m = fw_mem (fst s) in
      bind_ok (query_component s q (transform_type (snd s))) (\<lambda>btp.
      bind_ok (query_component s q (block_type (snd s))) (\<lambda>bp.
      if bp = None then Inr s else
      bind_ok (read_translation R m btp) (\<lambda>b.
      bind_ok (read_floats R m bp 1) (\<lambda>sc.
      if block_hits (vy player) (vz player) (vy b) (vz b) (hd sc)
      then bind_ok (place_player R m tp) (\<lambda>m1. Inr (with_mem s m1)) else Inr s)))))"

text \<open>Every key that is held adds its direction.\<close>

definition player_move :: "'a::linordered_field \<Rightarrow> u32 \<Rightarrow> 'a transform_t" where
  "player_move speed keys =
     (let v0 = vec3f_zero;
          v1 = (if keys AND k_key_up \<noteq> 0 then vec3f_add v0 (vec3f_scale vec3f_up (- speed)) else v0);
          v2 = (if keys AND k_key_down \<noteq> 0 then vec3f_add v1 (vec3f_scale vec3f_up speed) else v1);
          v3 = (if keys AND k_key_left \<noteq> 0 then vec3f_add v2 (vec3f_scale vec3f_right (- speed)) else v2);
          v4 = (if keys AND k_key_right \<noteq> 0 then vec3f_add v3 (vec3f_scale vec3f_right speed) else v3)
      in transform_identity\<lparr>translation := v4\<rparr>)"

definition save_if :: "('a, 'd, 't) frogger_env \<Rightarrow> u32 \<Rightarrow> ('d, 't) frogger_state \<Rightarrow> ('d, 't) frogger_state outcome" where
  "save_if E buttons s =
     (case s of (w, g) \<Rightarrow>
      if buttons AND k_mouse_button_left \<noteq> 0
      then bind_ok (ecs_save_game (en_io E) (fw_disk w) (fw_mem w) (fg_ecs g)) (\<lambda>(d, m).
             Inr (w\<lparr>fw_disk := d, fw_mem := m\<rparr>, g))
      else Inr s)"

definition load_if :: "('a, 'd, 't) frogger_env \<Rightarrow> u32 \<Rightarrow> ('d, 't) frogger_state \<Rightarrow> ('d, 't) frogger_state outcome" where
  "load_if E buttons s =
     (case s of (w, g) \<Rightarrow>
      if buttons AND k_mouse_button_right \<noteq> 0
      then bind_ok (ecs_load_game (en_io E) (fw_disk w) (fw_mem w) (fg_ecs g)) (\<lambda>(d, m, e).
             Inr (w\<lparr>fw_disk := d, fw_mem := m\<rparr>, g\<lparr>fg_ecs := e\<rparr>))
      else Inr s)"

text \<open>The component's address is not looked up again after a load.\<close>

definition update_player :: "('a::linordered_field, 'd, 't) frogger_env \<Rightarrow> 'a \<Rightarrow> u32 \<Rightarrow> u32 \<Rightarrow> ecs_query_t \<Rightarrow>
    ('d, 't) frogger_state \<Rightarrow> ('d, 't) frogger_state outcome" where
  "update_player E speed keys buttons q s =
     (let R = en_floats E in
      bind_ok (query_component s q (transform_type (snd s))) (\<lambda>tp.
      bind_ok (query_component s q (player_type (snd s))) (\<lambda>pp.
      if pp = None then Inr s else
      bind_ok (read_transform R (fw_mem (fst s)) tp) (\<lambda>t0.
      bind_ok (if vz (translation t0) < - 4 then place_player R (fw_mem (fst s)) tp else Inr (fw_mem (fst s))) (\<lambda>m1.
      bind_ok (read_translation R m1 tp) (\<lambda>player.
      bind_ok (game_loop (component_mask [transform_type (snd s), block_type (snd s)]) (collide_block E tp player) (with_mem s m1)) (\<lambda>s2.
      bind_ok (save_if E buttons s2) (\<lambda>s3.
      bind_ok (load_if E buttons s3) (\<lambda>s4.
      bind_ok (read_transform R (fw_mem (fst s4)) tp) (\<lambda>t.
      bind_ok (write_transform R (fw_mem (fst s4)) tp (transform_multiply t (player_move speed keys))) (\<lambda>m5.
      Inr (with_mem s4 m5))))))))))))"

definition update_players :: "('a::linordered_field, 'd, 't) frogger_env \<Rightarrow> ('d, 't) frogger_state \<Rightarrow> ('d, 't) frogger_state outcome" where
  "update_players E s =
     bind_ok (frame_speed E s) (\<lambda>speed.
     let keys = wm_get_key_mask (fw_window (fst s)); buttons = wm_get_mouse_mask (fw_window (fst s))
     in game_loop (component_mask [transform_type (snd s), player_type (snd s)]) (update_player E speed keys buttons) s)"

section \<open>Drawing\<close>

text \<open>
  The \<^verbatim>\<open>queue_push\<close> at the end of \<^verbatim>\<open>render_push_model\<close> and \<^verbatim>\<open>render_push_done\<close>.  The queue has three places.
  When none is free the game waits until the render thread has taken a command; if that takes no more, it
  waits for ever.
\<close>

definition push_command :: "render_command \<Rightarrow> ('d, 't) frogger_world \<Rightarrow> ('d, 't) frogger_world outcome" where
  "push_command c w =
     bind_ok (queue_push (fw_queue w) (Some c)) (\<lambda>r.
     case r of
       Some q \<Rightarrow> Inr (w\<lparr>fw_queue := q\<rparr>)
     | None \<Rightarrow>
         if fw_takes w = 0 then Inl Waits_forever
         else bind_ok (queue_pop (fw_queue w)) (\<lambda>taken.
              case taken of
                None \<Rightarrow> Inl Waits_forever
              | Some (q1, c1) \<Rightarrow>
                  bind_ok (queue_push q1 (Some c)) (\<lambda>r1.
                  case r1 of
                    None \<Rightarrow> Inl Waits_forever
                  | Some q2 \<Rightarrow> Inr (w\<lparr>fw_queue := q2, fw_taken := fw_taken w @ [c1], fw_takes := fw_takes w - 1\<rparr>))))"

text \<open>A null pointer in the component is the fault here that the render thread would run into.\<close>

definition push_model :: "ecs_entity_ref_t \<Rightarrow> bytes \<Rightarrow> bytes \<Rightarrow> ('d, 't) frogger_state \<Rightarrow> ('d, 't) frogger_state outcome" where
  "push_model ref model data s =
     (case s of (w, g) \<Rightarrow>
      (case (ptr_of_bits (of_le64 (take 8 model)), ptr_of_bits (of_le64 (drop 8 model))) of
         (Some mesh, Some shader) \<Rightarrow>
           bind_ok (model_command (fw_mem w) ref mesh shader data) (\<lambda>(m, c).
           bind_ok (push_command c (w\<lparr>fw_mem := m\<rparr>)) (\<lambda>w'. Inr (w', g)))
       | _ \<Rightarrow> Inl Null_deref))"

text \<open>The uniforms: the camera's projection, the model's matrix, the camera's view.\<close>

definition draw_model :: "('a::linordered_field, 'd, 't) frogger_env \<Rightarrow> ptr option \<Rightarrow> ecs_query_t \<Rightarrow> ('d, 't) frogger_state \<Rightarrow>
    ('d, 't) frogger_state outcome" where
  "draw_model E cp q s =
     (let R = en_floats E; m = fw_mem (fst s) in
      bind_ok (query_component s q (transform_type (snd s))) (\<lambda>tp.
      bind_ok (query_component s q (model_type (snd s))) (\<lambda>mp.
      bind_ok (ecs_query_get_entity (fg_ecs (snd s)) q) (\<lambda>ref.
      bind_ok (mem_read m cp sizeof_camera_component_t) (\<lambda>camera.
      bind_ok (read_transform R m tp) (\<lambda>t.
      bind_ok (mem_read m mp sizeof_model_component_t) (\<lambda>model.
      push_model ref model (take 64 camera @ float_bytes R (concat (transform_to_matrix t)) @ drop 64 camera) s)))))))"

definition draw_camera :: "('a::linordered_field, 'd, 't) frogger_env \<Rightarrow> ecs_query_t \<Rightarrow> ('d, 't) frogger_state \<Rightarrow>
    ('d, 't) frogger_state outcome" where
  "draw_camera E q s =
     bind_ok (query_component s q (camera_type (snd s))) (\<lambda>cp.
     game_loop (component_mask [transform_type (snd s), model_type (snd s)]) (draw_model E cp) s)"

definition draw_models :: "('a::linordered_field, 'd, 't) frogger_env \<Rightarrow> ('d, 't) frogger_state \<Rightarrow> ('d, 't) frogger_state outcome" where
  "draw_models E s = game_loop (component_mask [camera_type (snd s)]) (draw_camera E) s"

definition push_done :: "('d, 't) frogger_state \<Rightarrow> ('d, 't) frogger_state outcome" where
  "push_done s =
     (case s of (w, g) \<Rightarrow>
      bind_ok (alloc_command (fw_mem w) sizeof_frame_done_command_t) (\<lambda>(m, p).
      bind_ok (push_command (Command_frame_done p) (w\<lparr>fw_mem := m\<rparr>)) (\<lambda>w'. Inr (w', g))))"

section \<open>The frame\<close>

text \<open>\<open>now\<close> is the system timer's count at the frame.\<close>

definition frogger_game_update :: "('a::linordered_field, 'd, 't) frogger_env \<Rightarrow> u64 \<Rightarrow> ('d, 't) frogger_state \<Rightarrow> ('d, 't) frogger_state outcome" where
  "frogger_game_update E now s =
     (case s of (w, g) \<Rightarrow>
      bind_ok (timer_object_update (en_fp E) (fw_timers w) now (fst (fg_timer g))) (\<lambda>ts.
      bind_ok (update_blocks E (w\<lparr>fw_timers := ts\<rparr>, g\<lparr>fg_ecs := ecs_update (fg_ecs g)\<rparr>)) (\<lambda>s1.
      bind_ok (update_players E s1) (\<lambda>s2.
      bind_ok (draw_models E s2) push_done))))"

section \<open>Creation and destruction\<close>

definition cube_verts :: "'a::linordered_field list" where
  "cube_verts = map (\<lambda>k. of_int k / 5)
     [-1, -1,  1,   0, 1, 1,
       1, -1,  1,   1, 0, 1,
       1,  1,  1,   1, 1, 0,
      -1,  1,  1,   1, 0, 0,
      -1, -1, -1,   0, 1, 0,
       1, -1, -1,   0, 0, 1,
       1,  1, -1,   1, 1, 1,
      -1,  1, -1,   0, 0, 0]"

definition cube_indices :: "nat list" where
  "cube_indices =
     [0, 1, 2,  2, 3, 0,  1, 5, 6,  6, 2, 1,  7, 6, 5,  5, 4, 7,
      4, 0, 3,  3, 7, 4,  4, 5, 1,  1, 0, 4,  3, 2, 6,  6, 7, 3]"

definition cube_info :: "'a::linordered_field float_rep \<Rightarrow> gpu_mesh_info_t" where
  "cube_info R = \<lparr>mi_layout = k_gpu_mesh_layout_tri_p444_c444_i2, mi_vertex_data = float_bytes R cube_verts,
     mi_index_data = concat (map (le_encode 2) cube_indices)\<rparr>"

text \<open>A file that was read is in its buffer; one that was not has no bytes.\<close>

definition work_bytes :: "mem \<Rightarrow> fs_work_t \<Rightarrow> bytes outcome" where
  "work_bytes m work =
     (case (fs_work_get_buffer (Some work), fs_work_get_size (Some work)) of
        (Some p, Some n) \<Rightarrow> mem_read m p (unat n) | _ \<Rightarrow> Inl Misuse)"

definition load_resources :: "('a::linordered_field, 'd, 't) frogger_env \<Rightarrow> ('d, 't) frogger_state \<Rightarrow> ('d, 't) frogger_state outcome" where
  "load_resources E s =
     (case s of (w, g) \<Rightarrow>
      bind_ok (fs_read_work (fw_mem w) ''shaders/triangle.vert.spv'' False False) (\<lambda>(m1, vertex_work).
      bind_ok (fs_read_work m1 ''shaders/triangle.frag.spv'' False False) (\<lambda>(m2, fragment_work).
      bind_ok (file_read (en_io E) (fw_disk w) m2 vertex_work) (\<lambda>(d1, m3, vertex_work', _).
      bind_ok (file_read (en_io E) d1 m3 fragment_work) (\<lambda>(d2, m4, fragment_work', _).
      bind_ok (work_bytes m4 vertex_work') (\<lambda>vs.
      bind_ok (work_bytes m4 fragment_work') (\<lambda>fs.
      Inr (w\<lparr>fw_mem := m4, fw_disk := d2\<rparr>,
           g\<lparr>vertex_shader_work := Some vertex_work', fragment_shader_work := Some fragment_work',
             cube_shader := \<lparr>si_vertex_shader = vs, si_fragment_shader = fs, si_uniform_buffer_count = 1\<rparr>,
             cube_mesh := cube_info (en_floats E), block_mesh := cube_info (en_floats E)\<rparr>))))))))"

definition destroy_work :: "mem \<Rightarrow> fs_work_t option \<Rightarrow> mem outcome" where
  "destroy_work m work = (case fs_work_destroy m work of None \<Rightarrow> Inl Misuse | Some r \<Rightarrow> r)"

definition free_work_buffer :: "mem \<Rightarrow> fs_work_t option \<Rightarrow> mem outcome" where
  "free_work_buffer m work = (case fs_work_get_buffer work of None \<Rightarrow> Inl Misuse | Some p \<Rightarrow> heap_free m p)"

definition unload_resources :: "mem \<Rightarrow> frogger_game_t \<Rightarrow> mem outcome" where
  "unload_resources m g =
     bind_ok (free_work_buffer m (vertex_shader_work g)) (\<lambda>m1.
     bind_ok (free_work_buffer m1 (fragment_shader_work g)) (\<lambda>m2.
     bind_ok (destroy_work m2 (fragment_shader_work g)) (\<lambda>m3.
     destroy_work m3 (vertex_shader_work g))))"

definition register_types :: "mem \<Rightarrow> frogger_game_t \<Rightarrow> (mem \<times> frogger_game_t) outcome" where
  "register_types m g =
     bind_ok (ecs_register_component_type m (fg_ecs g) ''transform'' (word_of_nat sizeof_transform_component_t) 4 True) (\<lambda>(m1, e1, t1).
     bind_ok (ecs_register_component_type m1 e1 ''camera'' (word_of_nat sizeof_camera_component_t) 4 False) (\<lambda>(m2, e2, t2).
     bind_ok (ecs_register_component_type m2 e2 ''model'' (word_of_nat sizeof_model_component_t) 8 False) (\<lambda>(m3, e3, t3).
     bind_ok (ecs_register_component_type m3 e3 ''player'' (word_of_nat sizeof_player_component_t) 4 True) (\<lambda>(m4, e4, t4).
     bind_ok (ecs_register_component_type m4 e4 ''block'' (word_of_nat sizeof_block_component_t) 4 True) (\<lambda>(m5, e5, t5).
     bind_ok (ecs_register_component_type m5 e5 ''name'' (word_of_nat sizeof_name_component_t) 1 False) (\<lambda>(m6, e6, t6).
     Inr (m6, g\<lparr>fg_ecs := e6, transform_type := t1, camera_type := t2, model_type := t3, player_type := t4,
                block_type := t5, name_type := t6\<rparr>)))))))"

text \<open>What the structure holds before it is assigned does not matter: every field is assigned.\<close>

definition blank_game :: "ptr \<Rightarrow> ptr \<Rightarrow> ecs_t \<Rightarrow> frogger_game_t" where
  "blank_game p t e =
     (let nobody = \<lparr>ref_entity = 0, ref_sequence = 0\<rparr>; no_mesh = \<lparr>mi_layout = k_gpu_mesh_layout_tri_p444_i2, mi_vertex_data = [], mi_index_data = []\<rparr>
      in \<lparr>fg_self = p, fg_timer = t, fg_ecs = e, transform_type = 0, camera_type = 0, model_type = 0, player_type = 0, block_type = 0,
          name_type = 0, player_ent = nobody, camera_ent = nobody, block_ents = replicate 12 nobody, cube_mesh = no_mesh,
          cube_shader = \<lparr>si_vertex_shader = [], si_fragment_shader = [], si_uniform_buffer_count = 0\<rparr>, block_mesh = no_mesh,
          vertex_shader_work = None, fragment_shader_work = None\<rparr>)"

definition frogger_game_create :: "('a::linordered_field, 'd, 't) frogger_env \<Rightarrow> u64 \<Rightarrow> ('d, 't) frogger_world \<Rightarrow> ('d, 't) frogger_state outcome" where
  "frogger_game_create E now w =
     bind_ok (alloc_command (fw_mem w) sizeof_frogger_game_t) (\<lambda>(m1, p).
     bind_ok (alloc_command m1 sizeof_timer_object_t) (\<lambda>(m2, t).
     bind_ok (timer_object_create (en_fp E) (fw_timers w) now (fst t) None) (\<lambda>ts.
     bind_ok (ecs_create m2) (\<lambda>(m3, e).
     bind_ok (register_types m3 (blank_game p t e)) (\<lambda>(m4, g).
     bind_ok (load_resources E (w\<lparr>fw_mem := m4, fw_timers := ts\<rparr>, g)) (\<lambda>s1.
     bind_ok (spawn_player E 0 s1) (\<lambda>s2.
     bind_ok (spawn_blocks E s2) (spawn_camera E))))))))"

definition frogger_game_destroy :: "('d, 't) frogger_state \<Rightarrow> ('d, 't) frogger_world outcome" where
  "frogger_game_destroy s =
     (case s of (w, g) \<Rightarrow>
      bind_ok (ecs_destroy (fw_mem w) (fg_ecs g)) (\<lambda>m1.
      bind_ok (heap_free m1 (Some (fg_timer g))) (\<lambda>m2.
      bind_ok (unload_resources m2 g) (\<lambda>m3.
      bind_ok (heap_free m3 (Some (fg_self g))) (\<lambda>m4.
      Inr (w\<lparr>fw_mem := m4, fw_timers := timer_object_destroy (fw_timers w) (fst (fg_timer g))\<rparr>))))))"

end
