(* ===== verification/Frogger_Cells.thy ===== *)
theory Frogger_Cells
  imports Frogger
begin

text \<open>
  The component tables of the game, seen as cells: one run of bytes for each type and entity.  The
  reads and writes of the game are functions of the cells, so that the proofs about its rules do not
  look into the memory.
\<close>

section \<open>Floats in bytes\<close>

lemma length_float_bytes [simp]: "length (float_bytes R xs) = 4 * length xs"
  by (simp add: float_bytes_def length_concat_const [where k = 4])

lemma float_bytes_Nil [simp]: "float_bytes R [] = []"
  by (simp add: float_bytes_def)

lemma length_chunks [simp]: "length (chunks k n bs) = n"
  by (simp add: chunks_def)

lemma length_floats_of [simp]: "length (floats_of R bs) = length bs div 4"
  by (simp add: floats_of_def)

lemma floats_of_nth: "i < length bs div 4 \<Longrightarrow> floats_of R bs ! i = f_val R (of_le32 (take 4 (drop (4 * i) bs)))"
  by (simp add: floats_of_def chunks_def mult.commute)

lemma float_bytes_nth: "i < length xs \<Longrightarrow> take 4 (drop (4 * i) (float_bytes R xs)) = le32 (f_bits R (xs ! i))"
  using chunk_of_concat [of xs "\<lambda>x. le32 (f_bits R x)" 4 i "[]"] by (simp add: float_bytes_def mult.commute)

text \<open>Writing floats at a multiple of four bytes changes those floats, to what is representable.\<close>

lemma floats_of_splice:
  assumes "4 * (k + length xs) \<le> length bs"
  shows "floats_of R (splice bs (4 * k) (float_bytes R xs)) =
    take k (floats_of R bs) @ map (rounded R) xs @ drop (k + length xs) (floats_of R bs)"
proof (rule nth_equalityI)
  show len: "length (floats_of R (splice bs (4 * k) (float_bytes R xs))) =
    length (take k (floats_of R bs) @ map (rounded R) xs @ drop (k + length xs) (floats_of R bs))"
    using assms by simp
  fix i assume "i < length (floats_of R (splice bs (4 * k) (float_bytes R xs)))"
  then have i: "i < length bs div 4" using assms by simp
  then have i4: "4 * i + 4 \<le> length bs" by linarith
  have "k + length xs \<le> length bs div 4" using assms by (simp add: less_eq_div_iff_mult_less_eq mult.commute)
  have split: "take 4 (drop (4 * i) (splice bs (4 * k) (float_bytes R xs))) =
    (if k \<le> i \<and> i < k + length xs then le32 (f_bits R (xs ! (i - k))) else take 4 (drop (4 * i) bs))"
  proof (cases "k \<le> i \<and> i < k + length xs")
    case True
    have "take 4 (drop (4 * i) (splice bs (4 * k) (float_bytes R xs))) = take 4 (drop (4 * (i - k)) (float_bytes R xs))"
      using True assms by (simp add: splice_def min_def drop_append diff_mult_distrib2)
    moreover have "i - k < length xs" using True by linarith
    ultimately show ?thesis using True by (simp add: float_bytes_nth)
  next
    case False
    then have "4 * i + 4 \<le> 4 * k \<or> 4 * k + length (float_bytes R xs) \<le> 4 * i" by auto
    then have "take 4 (drop (4 * i) (splice bs (4 * k) (float_bytes R xs))) = take 4 (drop (4 * i) bs)"
      using assms i4 by (intro splice_read_other) auto
    then show ?thesis by (simp only: False if_False)
  qed
  have "floats_of R (splice bs (4 * k) (float_bytes R xs)) ! i =
    (if k \<le> i \<and> i < k + length xs then rounded R (xs ! (i - k)) else floats_of R bs ! i)"
    using i assms split by (simp add: floats_of_nth rounded_def)
  also have "\<dots> = (take k (floats_of R bs) @ map (rounded R) xs @ drop (k + length xs) (floats_of R bs)) ! i"
    using i \<open>k + length xs \<le> length bs div 4\<close> by (auto simp: nth_append)
  finally show "floats_of R (splice bs (4 * k) (float_bytes R xs)) ! i =
    (take k (floats_of R bs) @ map (rounded R) xs @ drop (k + length xs) (floats_of R bs)) ! i" .
qed

lemma floats_of_take: "4 * n \<le> length bs \<Longrightarrow> floats_of R (take (4 * n) bs) = take n (floats_of R bs)"
proof (rule nth_equalityI)
  assume n: "4 * n \<le> length bs"
  then have d: "n \<le> length bs div 4" by (simp add: less_eq_div_iff_mult_less_eq mult.commute)
  with n show "length (floats_of R (take (4 * n) bs)) = length (take n (floats_of R bs))" by (simp add: min_def)
  fix i assume "i < length (floats_of R (take (4 * n) bs))"
  then have i: "i < n" using n by (simp add: min_def split: if_splits)
  then have "take 4 (drop (4 * i) (take (4 * n) bs)) = take 4 (drop (4 * i) bs)" by (simp add: drop_take min_def)
  with i n d show "floats_of R (take (4 * n) bs) ! i = take n (floats_of R bs) ! i" by (simp add: floats_of_nth)
qed

section \<open>Cells\<close>

definition csize :: "nat \<Rightarrow> nat" where
  "csize ty = [40, 128, 16, 4, 4, 32] ! ty"

definition table_size :: "nat \<Rightarrow> nat" where
  "table_size ty = csize ty * k_max_entities"

text \<open>The six types have their tables, each a block of its own.\<close>

definition tables_ok :: "mem \<Rightarrow> ecs_t \<Rightarrow> bool" where
  "tables_ok m e \<longleftrightarrow> mem_ok m \<and> ecs_shape e \<and>
     (\<forall>ty < 6. \<exists>b. components e ! ty = Some (b, 0) \<and> unat (component_type_sizes e ! ty) = csize ty \<and>
        block_size m (b, 0) = Some (table_size ty)) \<and>
     (\<forall>ty < 6. \<forall>ty' < 6. components e ! ty = components e ! ty' \<longrightarrow> ty = ty')"

definition table :: "ecs_t \<Rightarrow> nat \<Rightarrow> nat" where
  "table e ty = fst (the (components e ! ty))"

definition cells :: "mem \<Rightarrow> ecs_t \<Rightarrow> nat \<Rightarrow> nat \<Rightarrow> bytes" where
  "cells m e ty i = (if ty < 6 \<and> i < k_max_entities
     then take (csize ty) (drop (csize ty * i) (the (blocks m (table e ty)))) else [])"

definition set_cell :: "(nat \<Rightarrow> nat \<Rightarrow> bytes) \<Rightarrow> nat \<Rightarrow> nat \<Rightarrow> bytes \<Rightarrow> nat \<Rightarrow> nat \<Rightarrow> bytes" where
  "set_cell c ty i bs = c(ty := (c ty)(i := bs))"

lemma set_cell_simps [simp]:
  "set_cell c ty i bs ty i = bs"
  "ty' \<noteq> ty \<or> j \<noteq> i \<Longrightarrow> set_cell c ty i bs ty' j = c ty' j"
  "set_cell (set_cell c ty i as) ty i bs = set_cell c ty i bs"
  by (auto simp: set_cell_def)

text \<open>Where the cells are.\<close>

definition cell_ptr :: "ecs_t \<Rightarrow> nat \<Rightarrow> nat \<Rightarrow> ptr" where
  "cell_ptr e ty i = (table e ty, csize ty * i)"

text \<open>Only the tables differ.\<close>

definition only_tables :: "ecs_t \<Rightarrow> mem \<Rightarrow> mem \<Rightarrow> bool" where
  "only_tables e m m' \<longleftrightarrow> (\<forall>b. b \<notin> table e ` {..<6} \<longrightarrow> blocks m' b = blocks m b) \<and> block_size m' = block_size m \<and>
     next_block m' = next_block m \<and> os_avail m' = os_avail m \<and> junk m' = junk m \<and> (mem_ok m \<longrightarrow> mem_ok m')"

lemma only_tables_refl [simp]: "only_tables e m m"
  by (simp add: only_tables_def)

lemma only_tables_trans: "only_tables e m1 m2 \<Longrightarrow> only_tables e m2 m3 \<Longrightarrow> only_tables e m1 m3"
  by (simp add: only_tables_def)

lemma tables_ok_kept: "tables_ok m e \<Longrightarrow> only_tables e m m' \<Longrightarrow> tables_ok m' e"
  by (simp add: tables_ok_def only_tables_def)

lemma tables_okD:
  assumes "tables_ok m e" and "ty < 6"
  shows "components e ! ty = Some (table e ty, 0)" "unat (component_type_sizes e ! ty) = csize ty"
    "\<exists>bs. blocks m (table e ty) = Some bs \<and> length bs = table_size ty"
proof -
  from assms obtain b where b: "components e ! ty = Some (b, 0)" "unat (component_type_sizes e ! ty) = csize ty"
    "block_size m (b, 0) = Some (table_size ty)" unfolding tables_ok_def by blast
  then have "table e ty = b" by (simp add: table_def)
  with b show "components e ! ty = Some (table e ty, 0)" "unat (component_type_sizes e ! ty) = csize ty"
    "\<exists>bs. blocks m (table e ty) = Some bs \<and> length bs = table_size ty"
    by (auto simp: block_size_def)
qed

lemma tables_ok_shape: "tables_ok m e \<Longrightarrow> ecs_shape e"
  by (simp add: tables_ok_def)

lemma table_inj:
  assumes "tables_ok m e" and "ty < 6" and "ty' < 6" and "table e ty = table e ty'"
  shows "ty = ty'"
  using assms(1) tables_okD(1) [OF assms(1,2)] tables_okD(1) [OF assms(1,3)] assms(2-4) unfolding tables_ok_def by auto

lemma less_6: "ty < 6 \<longleftrightarrow> ty = 0 \<or> ty = 1 \<or> ty = 2 \<or> ty = 3 \<or> ty = 4 \<or> (ty :: nat) = 5"
  by auto

lemma csize_small: "ty < 6 \<Longrightarrow> csize ty * k_max_entities < 2 ^ 64"
  by (auto simp: less_6 csize_def k_max_entities_def)

lemma csize_simps [simp]: "csize 0 = 40" "csize 1 = 128" "csize (Suc 0) = 128" "csize 2 = 16" "csize 3 = 4" "csize 4 = 4" "csize 5 = 32"
  by (simp_all add: csize_def)

lemma length_cells: "tables_ok m e \<Longrightarrow> ty < 6 \<Longrightarrow> i < k_max_entities \<Longrightarrow> length (cells m e ty i) = csize ty"
  using tables_okD(3) [of m e ty] elem_range_in_block [of i k_max_entities "csize ty"]
  by (auto simp: cells_def table_size_def)

lemma cell_address:
  assumes "tables_ok m e" and "ty < 6" and "i < k_max_entities"
  shows "elem_ptr (components e ! ty) (component_type_sizes e ! ty) (int i) = Inr (Some (cell_ptr e ty i))"
  using tables_okD(1,2) [OF assms(1,2)] elem_offset [of "component_type_sizes e ! ty" i] csize_small [OF assms(2)] assms(3)
  by (simp add: elem_ptr_def cell_ptr_def)

lemma query_cell:
  assumes "tables_ok m (fg_ecs (snd s))" and "ty < 6" and "i < k_max_entities" and "q_entity q = int i"
  shows "query_component s q (int ty) = Inr (Some (cell_ptr (fg_ecs (snd s)) ty i))"
proof -
  have "ty < length (components (fg_ecs (snd s)))" "ty < length (component_type_sizes (fg_ecs (snd s)))"
    using tables_ok_shape [OF assms(1)] assms(2) by (simp_all add: ecs_shape_def k_max_component_types_def)
  then show ?thesis using cell_address [OF assms(1-3)] assms(4)
    by (simp add: query_component_def ecs_query_get_component_def)
qed

lemma read_cell:
  assumes ok: "tables_ok m e" and ty: "ty < 6" and i: "i < k_max_entities" and n: "off + n \<le> csize ty"
  shows "mem_read m (ptr_add (Some (cell_ptr e ty i)) off) n = Inr (take n (drop off (cells m e ty i)))"
proof -
  from tables_okD(3) [OF ok ty] obtain bs where bs: "blocks m (table e ty) = Some bs" "length bs = table_size ty" by blast
  have "csize ty * i + csize ty \<le> length bs" using elem_range_in_block [OF i] by (simp add: bs(2) table_size_def)
  then show ?thesis using bs n ty i
    by (simp add: mem_read_def ptr_add_def cell_ptr_def cells_def drop_take add.commute min_def)
qed

lemma write_cell:
  assumes ok: "tables_ok m e" and ty: "ty < 6" and i: "i < k_max_entities" and n: "off + length xs \<le> csize ty"
  shows "\<exists>m'. mem_write m (ptr_add (Some (cell_ptr e ty i)) off) xs = Inr m' \<and> only_tables e m m' \<and>
    cells m' e = set_cell (cells m e) ty i (splice (cells m e ty i) off xs)"
proof -
  from tables_okD(3) [OF ok ty] obtain bs where bs: "blocks m (table e ty) = Some bs" "length bs = table_size ty" by blast
  let ?o = "csize ty * i + off"
  have range: "csize ty * i + csize ty \<le> length bs" using elem_range_in_block [OF i] by (simp add: bs(2) table_size_def)
  define m' where "m' = m\<lparr>blocks := (blocks m)(table e ty := Some (splice bs ?o xs))\<rparr>"
  have w: "mem_write m (ptr_add (Some (cell_ptr e ty i)) off) xs = Inr m'"
    using bs range n by (simp add: mem_write_def ptr_add_def cell_ptr_def m'_def)
  have "only_tables e m m'"
    using ty mem_ok_write [OF _ w] block_size_write [OF w] by (auto simp: only_tables_def m'_def)
  moreover have "cells m' e ty' j = set_cell (cells m e) ty i (splice (cells m e ty i) off xs) ty' j" for ty' j
  proof (cases "ty' = ty \<and> j < k_max_entities")
    case False
    then show ?thesis using table_inj [OF ok ty, of ty'] i ty
      by (auto simp: cells_def m'_def set_cell_def)
  next
    case True
    have j: "csize ty * j + csize ty \<le> length bs" using elem_range_in_block [of j] True by (simp add: bs(2) table_size_def)
    show ?thesis
    proof (cases "j = i")
      case False
      then have "csize ty * i + csize ty \<le> csize ty * j \<or> csize ty * j + csize ty \<le> csize ty * i"
        using elem_ranges_disjoint by blast
      then have "take (csize ty) (drop (csize ty * j) (splice bs ?o xs)) = take (csize ty) (drop (csize ty * j) bs)"
        using range n j by (intro splice_read_other) auto
      with True False ty bs show ?thesis by (simp add: cells_def m'_def)
    next
      case eq: True
      have "take (csize ty) (drop (csize ty * i) (splice bs ?o xs)) = splice (take (csize ty) (drop (csize ty * i) bs)) off xs"
        using range n by (intro nth_equalityI) (auto simp: splice_nth)
      with True eq ty bs i show ?thesis by (simp add: cells_def m'_def)
    qed
  qed
  ultimately show ?thesis using w by blast
qed

section \<open>What the cells hold\<close>

definition slot_transform :: "'a float_rep \<Rightarrow> (nat \<Rightarrow> nat \<Rightarrow> bytes) \<Rightarrow> nat \<Rightarrow> 'a transform_t" where
  "slot_transform R c i = transform_of (floats_of R (c 0 i))"

definition slot_scale :: "'a float_rep \<Rightarrow> (nat \<Rightarrow> nat \<Rightarrow> bytes) \<Rightarrow> nat \<Rightarrow> 'a" where
  "slot_scale R c i = hd (floats_of R (c 4 i))"

definition round_vec :: "'a float_rep \<Rightarrow> 'a vec3f_t \<Rightarrow> 'a vec3f_t" where
  "round_vec R v = vec (rounded R (vx v)) (rounded R (vy v)) (rounded R (vz v))"

definition round_transform :: "'a float_rep \<Rightarrow> 'a transform_t \<Rightarrow> 'a transform_t" where
  "round_transform R t = \<lparr>translation = round_vec R (translation t), tscale = round_vec R (tscale t),
     rotation = \<lparr>v3 = round_vec R (v3 (rotation t)), qs = rounded R (qs (rotation t))\<rparr>\<rparr>"

lemma length_transform_floats [simp]: "length (transform_floats t) = 10"
  by (simp add: transform_floats_def vec_floats_def)

lemma length_vec_floats [simp]: "length (vec_floats v) = 3"
  by (simp add: vec_floats_def)

lemma transform_of_floats: "transform_of (map (rounded R) (transform_floats t)) = round_transform R t"
  by (simp add: transform_of_def transform_floats_def vec_floats_def vec_of_def round_transform_def round_vec_def)

lemma transform_of_translation:
  assumes "length xs = 10"
  shows "transform_of (take 0 xs @ map (rounded R) (vec_floats v) @ drop (0 + length (vec_floats v)) xs) =
    (transform_of xs)\<lparr>translation := round_vec R v\<rparr>"
  using assms by (simp add: transform_of_def vec_of_def round_vec_def vec_floats_def nth_append nth_Cons' eval_nat_numeral)

lemma transform_of_translation_y:
  assumes "length xs = 10"
  shows "transform_of (take 1 xs @ map (rounded R) [y] @ drop (1 + length [y]) xs) =
    (transform_of xs)\<lparr>translation := (translation (transform_of xs))\<lparr>vy := rounded R y\<rparr>\<rparr>"
  using assms by (simp add: transform_of_def vec_of_def nth_append nth_Cons') (simp add: eval_nat_numeral)

lemma transform_of_scale_y:
  assumes "length xs = 10"
  shows "transform_of (take 4 xs @ map (rounded R) [y] @ drop (4 + length [y]) xs) =
    (transform_of xs)\<lparr>tscale := (tscale (transform_of xs))\<lparr>vy := rounded R y\<rparr>\<rparr>"
  using assms by (simp add: transform_of_def vec_of_def nth_append nth_Cons' eval_nat_numeral)

subsection \<open>Reads\<close>

lemma ptr_add_0 [simp]: "ptr_add p 0 = p"
  by (cases p) (auto simp: ptr_add_def)

lemma length_cell_floats:
  assumes "tables_ok m e" and "i < k_max_entities"
  shows "length (floats_of R (cells m e 0 i)) = 10" "length (floats_of R (cells m e 4 i)) = 1"
  using length_cells [OF assms(1) _ assms(2)] by simp_all

lemma read_slot_floats:
  assumes "tables_ok m e" and "ty < 6" and "i < k_max_entities" and "4 * n \<le> csize ty"
  shows "read_floats R m (Some (cell_ptr e ty i)) n = Inr (take n (floats_of R (cells m e ty i)))"
  using read_cell [OF assms(1-3), of 0 "4 * n"] floats_of_take [of n "cells m e ty i" R] length_cells [OF assms(1-3)] assms(4)
  by (simp add: read_floats_def)

lemma read_slot_transform:
  assumes "tables_ok m e" and "i < k_max_entities"
  shows "read_transform R m (Some (cell_ptr e 0 i)) = Inr (slot_transform R (cells m e) i)"
  using read_slot_floats [OF assms(1) _ assms(2), of 0 10 R] length_cell_floats [OF assms, of R]
  by (simp add: read_transform_def slot_transform_def)

lemma read_slot_translation:
  assumes "tables_ok m e" and "i < k_max_entities"
  shows "read_translation R m (Some (cell_ptr e 0 i)) = Inr (translation (slot_transform R (cells m e) i))"
  using read_slot_floats [OF assms(1) _ assms(2), of 0 3 R] length_cell_floats [OF assms, of R]
  by (simp add: read_translation_def slot_transform_def transform_of_def vec_of_def)

lemma read_slot_scale:
  assumes "tables_ok m e" and "i < k_max_entities"
  shows "read_floats R m (Some (cell_ptr e 4 i)) (Suc 0) = Inr [slot_scale R (cells m e) i]"
proof -
  have "take (Suc 0) (floats_of R (cells m e 4 i)) = [slot_scale R (cells m e) i]"
    using length_cell_floats(2) [OF assms, of R] by (cases "floats_of R (cells m e 4 i)") (auto simp: slot_scale_def)
  then show ?thesis using read_slot_floats [OF assms(1) _ assms(2), of 4 "Suc 0" R] by simp
qed

lemmas read_slot = read_slot_transform read_slot_translation read_slot_scale

subsection \<open>Writes\<close>

lemma write_slot_floats:
  assumes "tables_ok m e" and "ty < 6" and "i < k_max_entities" and "4 * (k + length xs) \<le> csize ty"
  obtains m' c where "write_floats R m (ptr_add (Some (cell_ptr e ty i)) (4 * k)) xs = Inr m'" "only_tables e m m'"
    "cells m' e = set_cell (cells m e) ty i c"
    "floats_of R c = take k (floats_of R (cells m e ty i)) @ map (rounded R) xs @ drop (k + length xs) (floats_of R (cells m e ty i))"
  using write_cell [OF assms(1-3), of "4 * k" "float_bytes R xs"] floats_of_splice [of k xs "cells m e ty i" R]
    length_cells [OF assms(1-3)] assms(4) by (auto simp: write_floats_def)

lemma write_slot_transform:
  assumes "tables_ok m e" and "i < k_max_entities"
  obtains m' c where "write_transform R m (Some (cell_ptr e 0 i)) t = Inr m'" "only_tables e m m'"
    "cells m' e = set_cell (cells m e) 0 i c" "transform_of (floats_of R c) = round_transform R t"
  using write_slot_floats [OF assms(1) _ assms(2), of 0 0 "transform_floats t" R thesis] length_cell_floats [OF assms, of R]
  by (simp add: write_transform_def transform_of_floats)

lemma write_slot_translation:
  assumes "tables_ok m e" and "i < k_max_entities"
  obtains m' c where "write_translation R m (Some (cell_ptr e 0 i)) v = Inr m'" "only_tables e m m'"
    "cells m' e = set_cell (cells m e) 0 i c"
    "transform_of (floats_of R c) = (slot_transform R (cells m e) i)\<lparr>translation := round_vec R v\<rparr>"
  using write_slot_floats [OF assms(1) _ assms(2), of 0 0 "vec_floats v" R thesis]
    transform_of_translation [OF length_cell_floats(1) [OF assms], of R R v]
  by (simp add: write_translation_def slot_transform_def)

lemma write_slot_y:
  assumes "tables_ok m e" and "i < k_max_entities"
  obtains m' c where "write_floats R m (ptr_add (Some (cell_ptr e 0 i)) offset_translation_y) [y] = Inr m'" "only_tables e m m'"
    "cells m' e = set_cell (cells m e) 0 i c"
    "transform_of (floats_of R c) = (slot_transform R (cells m e) i)
       \<lparr>translation := (translation (slot_transform R (cells m e) i))\<lparr>vy := rounded R y\<rparr>\<rparr>"
  using write_slot_floats [OF assms(1) _ assms(2), of 0 1 "[y]" R thesis]
    transform_of_translation_y [OF length_cell_floats(1) [OF assms], of R R y]
  by (simp add: slot_transform_def offset_translation_y_def)

lemma write_slot_scale_y:
  assumes "tables_ok m e" and "i < k_max_entities"
  obtains m' c where "write_floats R m (ptr_add (Some (cell_ptr e 0 i)) offset_scale_y) [y] = Inr m'" "only_tables e m m'"
    "cells m' e = set_cell (cells m e) 0 i c"
    "transform_of (floats_of R c) = (slot_transform R (cells m e) i)
       \<lparr>tscale := (tscale (slot_transform R (cells m e) i))\<lparr>vy := rounded R y\<rparr>\<rparr>"
  using write_slot_floats [OF assms(1) _ assms(2), of 0 4 "[y]" R thesis]
    transform_of_scale_y [OF length_cell_floats(1) [OF assms], of R R y]
  by (simp add: slot_transform_def offset_scale_y_def)

lemma write_slot_scale:
  assumes "tables_ok m e" and "i < k_max_entities"
  obtains m' c where "write_floats R m (Some (cell_ptr e 4 i)) [x] = Inr m'" "only_tables e m m'"
    "cells m' e = set_cell (cells m e) 4 i c" "floats_of R c = [rounded R x]"
  using write_slot_floats [OF assms(1) _ assms(2), of 4 0 "[x]" R thesis] length_cell_floats [OF assms, of R] by simp

end
