(* ===== verification/Frogger_Rules.thy ===== *)
theory Frogger_Rules
  imports Frogger_Cells
begin

text \<open>
  The rules of the game as functions of what the cells hold, and that the code follows them: the query
  loop as a fold over the matching entities, the movement of a block, the movement of the
  player with its collisions.
\<close>

section \<open>Loops\<close>

text \<open>A loop over the entities: while the body keeps the entity system, its iterations are the matching
  entities in the order of their slots.\<close>

lemma query_loop_next:
  assumes body: "\<And>q s s'. ecs_of s = e \<Longrightarrow> body q s = Inr s' \<Longrightarrow> ecs_of s' = e"
    and "ecs_of s = e" and "-1 \<le> q_entity q"
  shows "query_loop ecs_of body (ecs_query_next e q) s =
    for_each_ok (\<lambda>i. body \<lparr>q_component_mask = q_component_mask q, q_entity = int i\<rparr>)
      (filter (query_matches e (q_component_mask q)) [nat (q_entity q + 1)..<k_max_entities]) s"
  using assms(2,3)
proof (induction "k_max_entities - nat (q_entity q + 1)" arbitrary: q s rule: less_induct)
  case less
  let ?P = "query_matches e (q_component_mask q)" and ?lo = "nat (q_entity q + 1)"
  show ?case
  proof (cases "find_from ?P ?lo k_max_entities")
    case None
    then have "filter ?P [?lo..<k_max_entities] = []" by (auto simp: filter_empty_conv search_simps)
    moreover have "ecs_query_next e q = q\<lparr>q_entity := - 1\<rparr>" using None less.prems by (simp add: ecs_query_next_def)
    ultimately show ?thesis by (simp add: query_loop.simps [of _ _ "_\<lparr>q_entity := - 1\<rparr>"] ecs_query_is_valid_def)
  next
    case (Some i)
    let ?q = "\<lparr>q_component_mask = q_component_mask q, q_entity = int i\<rparr>"
    from Some have i: "?lo \<le> i" "i < k_max_entities" by (auto dest!: find_from_SomeD)
    have q: "ecs_query_next e q = ?q" using Some less.prems by (cases q) (simp add: ecs_query_next_def)
    have list: "filter ?P [?lo..<k_max_entities] = i # filter ?P [Suc i..<k_max_entities]"
    proof -
      have "map int (filter ?P [?lo..<k_max_entities]) = map int (i # filter ?P [Suc i..<k_max_entities])"
        using filter_upt_find [of ?P ?lo k_max_entities] Some by simp
      then show ?thesis by (simp only: inj_map_eq_map [OF inj_of_nat])
    qed
    show ?thesis
    proof (cases "body ?q s")
      case (Inl f)
      then show ?thesis by (simp add: q list query_loop.simps [of _ _ ?q] ecs_query_is_valid_def)
    next
      case (Inr s')
      have "nat (q_entity ?q + 1) = Suc i" by simp
      moreover have "k_max_entities - nat (q_entity ?q + 1) < k_max_entities - ?lo" using i by simp
      ultimately have "query_loop ecs_of body (ecs_query_next e ?q) s' =
          for_each_ok (\<lambda>i. body \<lparr>q_component_mask = q_component_mask q, q_entity = int i\<rparr>) (filter ?P [Suc i..<k_max_entities]) s'"
        using less.hyps [of ?q s'] body [OF less.prems(1) Inr] by simp
      then show ?thesis using Inr body [OF less.prems(1) Inr]
        by (simp add: q list query_loop.simps [of _ _ ?q] ecs_query_is_valid_def)
    qed
  qed
qed

definition slots :: "ecs_t \<Rightarrow> u64 \<Rightarrow> nat list" where
  "slots e cm = filter (query_matches e cm) [0..<k_max_entities]"

lemma slots_less: "i \<in> set (slots e cm) \<Longrightarrow> i < k_max_entities"
  by (simp add: slots_def)

lemma distinct_slots: "distinct (slots e cm)"
  by (simp add: slots_def)

text \<open>The rule for the game's loops: an invariant over the entities done so far.\<close>

lemma for_each_ok_rule:
  assumes "I [] s"
    and "\<And>done i s. i \<in> set is \<Longrightarrow> I done s \<Longrightarrow> \<exists>s'. body i s = Inr s' \<and> I (done @ [i]) s'"
  shows "\<exists>s'. for_each_ok body is s = Inr s' \<and> I is s'"
proof -
  have "\<exists>s'. for_each_ok body js s = Inr s' \<and> I (done @ js) s'" if "set js \<subseteq> set is" "I done s" for "done" js s
    using that
  proof (induction js arbitrary: "done" s)
    case (Cons i js)
    have "i \<in> set is" "set js \<subseteq> set is" using Cons.prems(1) by simp_all
    from assms(2) [OF this(1) Cons.prems(2)] obtain s1 where s1: "body i s = Inr s1" "I (done @ [i]) s1" by blast
    from Cons.IH [OF \<open>set js \<subseteq> set is\<close> s1(2)] obtain s' where "for_each_ok body js s1 = Inr s'" "I ((done @ [i]) @ js) s'" by blast
    then show ?case using s1(1) by (intro exI [of _ s']) simp
  qed simp
  from this [of "is" "[]" s] assms(1) show ?thesis by simp
qed

lemma game_loop_slots:
  assumes cm: "cm = Inr k" and body: "\<And>q s s'. fg_ecs (snd s) = e \<Longrightarrow> body q s = Inr s' \<Longrightarrow> fg_ecs (snd s') = e"
    and "fg_ecs (snd s) = e"
  shows "game_loop cm body s = for_each_ok (\<lambda>i. body \<lparr>q_component_mask = k, q_entity = int i\<rparr>) (slots e k) s"
proof -
  let ?q = "\<lparr>q_component_mask = k, q_entity = - 1\<rparr>"
  have "game_loop cm body s = query_loop (\<lambda>s. fg_ecs (snd s)) body (ecs_query_next e ?q) s"
    by (simp add: game_loop_def ecs_query_create_def cm assms(3))
  also have "\<dots> = for_each_ok (\<lambda>i. body \<lparr>q_component_mask = q_component_mask ?q, q_entity = int i\<rparr>)
      (filter (query_matches e (q_component_mask ?q)) [nat (q_entity ?q + 1)..<k_max_entities]) s"
    by (rule query_loop_next [where ecs_of = "\<lambda>s. fg_ecs (snd s)", OF body assms(3)]) simp_all
  finally show ?thesis by (simp add: slots_def)
qed

section \<open>A game whose types are registered\<close>

definition types_ok :: "frogger_game_t \<Rightarrow> bool" where
  "types_ok g \<longleftrightarrow> transform_type g = int 0 \<and> camera_type g = int 1 \<and> model_type g = int 2 \<and> player_type g = int 3 \<and>
     block_type g = int 4 \<and> name_type g = int 5"

text \<open>The masks of the queries.\<close>

definition block_mask :: u64 where "block_mask = 17"
definition player_mask :: u64 where "player_mask = 9"
definition camera_mask :: u64 where "camera_mask = 2"
definition model_mask :: u64 where "model_mask = 5"

lemma component_masks_of [simp]:
  assumes "types_ok g"
  shows "component_mask [transform_type g, block_type g] = Inr block_mask"
    "component_mask [transform_type g, player_type g] = Inr player_mask"
    "component_mask [camera_type g] = Inr camera_mask"
    "component_mask [transform_type g, model_type g] = Inr model_mask"
  using assms by (simp_all add: types_ok_def block_mask_def player_mask_def camera_mask_def model_mask_def)

declare component_mask.simps [simp del]

section \<open>The rule of the blocks\<close>

definition set_y :: "'a \<Rightarrow> 'a transform_t \<Rightarrow> 'a transform_t" where
  "set_y y t = t\<lparr>translation := (translation t)\<lparr>vy := y\<rparr>\<rparr>"

definition set_width :: "'a \<Rightarrow> 'a transform_t \<Rightarrow> 'a transform_t" where
  "set_width x t = t\<lparr>tscale := (tscale t)\<lparr>vy := x\<rparr>\<rparr>"

text \<open>What one frame does to a block: its transform, its width, and the number of random numbers drawn.\<close>

type_synonym 'a block_view = "'a transform_t \<times> 'a \<times> nat"

definition recycled :: "('a::linordered_field, 'd, 't) frogger_env \<Rightarrow> 'a \<Rightarrow> 'a block_view \<Rightarrow> 'a block_view" where
  "recycled E y b = (case b of (t, x, n) \<Rightarrow>
     (set_y (rounded (en_floats E) y) t, rounded (en_floats E) (random_scale E n), Suc n))"

definition block_rule :: "('a::linordered_field, 'd, 't) frogger_env \<Rightarrow> 'a \<Rightarrow> 'a block_view \<Rightarrow> 'a block_view" where
  "block_rule E speed b0 =
     (let b1 = (if vy (translation (fst b0)) > 12 \<and> vz (translation (fst b0)) < 1 \<and> vz (translation (fst b0)) > - 1
                then recycled E (- 12) b0 else b0);
          (t, x, n) = (if vy (translation (fst b1)) < - 12 \<and> (vz (translation (fst b1)) > 1 \<or> vz (translation (fst b1)) < - 1)
                then recycled E 12 b1 else b1);
          t' = set_width (rounded (en_floats E) x) t
      in (round_transform (en_floats E) (transform_multiply t' (block_move speed t')), x, n))"

text \<open>A block's view of a world that differs from \<open>w\<close> in the two cells of the block only.\<close>

definition block_state :: "('a::linordered_field, 'd, 't) frogger_env \<Rightarrow> ecs_t \<Rightarrow> nat \<Rightarrow> ('d, 't) frogger_world \<Rightarrow>
    ('d, 't) frogger_world \<Rightarrow> 'a block_view \<Rightarrow> bool" where
  "block_state E e i w w' b \<longleftrightarrow> (\<exists>m c0 c4. w' = w\<lparr>fw_mem := m, fw_rand := snd (snd b)\<rparr> \<and> only_tables e (fw_mem w) m \<and>
     cells m e = set_cell (set_cell (cells (fw_mem w) e) 0 i c0) 4 i c4 \<and>
     transform_of (floats_of (en_floats E) c0) = fst b \<and> hd (floats_of (en_floats E) c4) = fst (snd b))"

lemma block_state_start:
  "block_state E e i w w (slot_transform (en_floats E) (cells (fw_mem w) e) i, slot_scale (en_floats E) (cells (fw_mem w) e) i, fw_rand w)"
  unfolding block_state_def
  by (intro exI [of _ "fw_mem w"] exI [of _ "cells (fw_mem w) e 0 i"] exI [of _ "cells (fw_mem w) e 4 i"])
    (auto simp: set_cell_def slot_transform_def slot_scale_def)

lemma block_state_reads:
  assumes "block_state E e i w w' (t, x, n)"
  shows "slot_transform (en_floats E) (cells (fw_mem w') e) i = t" "slot_scale (en_floats E) (cells (fw_mem w') e) i = x"
    "only_tables e (fw_mem w) (fw_mem w')" "fw_rand w' = n"
  using assms by (auto simp: block_state_def slot_transform_def slot_scale_def)

text \<open>A write to the block's transform.\<close>

lemma block_state_transform:
  assumes "block_state E e i w w' (t, x, n)" and "only_tables e (fw_mem w') m"
    and "cells m e = set_cell (cells (fw_mem w') e) 0 i c" and "transform_of (floats_of (en_floats E) c) = t'"
  shows "block_state E e i w (w'\<lparr>fw_mem := m\<rparr>) (t', x, n)"
proof -
  obtain m1 c0 c4 where 1: "w' = w\<lparr>fw_mem := m1, fw_rand := n\<rparr>" "only_tables e (fw_mem w) m1"
    "cells m1 e = set_cell (set_cell (cells (fw_mem w) e) 0 i c0) 4 i c4" "hd (floats_of (en_floats E) c4) = x"
    using assms(1) by (auto simp: block_state_def)
  have "cells m e = set_cell (set_cell (cells (fw_mem w) e) 0 i c) 4 i c4"
    using assms(3) 1 by (auto simp: set_cell_def fun_eq_iff)
  with 1 assms show ?thesis unfolding block_state_def
    by (intro exI [of _ m] exI [of _ c] exI [of _ c4]) (auto elim: only_tables_trans)
qed

lemma block_state_scale:
  assumes "block_state E e i w w' (t, x, n)" and "only_tables e (fw_mem w') m"
    and "cells m e = set_cell (cells (fw_mem w') e) 4 i c" and "hd (floats_of (en_floats E) c) = x'"
  shows "block_state E e i w (w'\<lparr>fw_mem := m, fw_rand := n'\<rparr>) (t, x', n')"
proof -
  obtain m1 c0 c4 where 1: "w' = w\<lparr>fw_mem := m1, fw_rand := n\<rparr>" "only_tables e (fw_mem w) m1"
    "cells m1 e = set_cell (set_cell (cells (fw_mem w) e) 0 i c0) 4 i c4" "transform_of (floats_of (en_floats E) c0) = t"
    using assms(1) by (auto simp: block_state_def)
  have "cells m e = set_cell (set_cell (cells (fw_mem w) e) 0 i c0) 4 i c" using assms(3) 1 by simp
  with 1 assms show ?thesis unfolding block_state_def
    by (intro exI [of _ m] exI [of _ c0] exI [of _ c]) (auto elim: only_tables_trans)
qed

lemma recycle_block_follows:
  assumes ok: "tables_ok (fw_mem w) e" and i: "i < k_max_entities" and b: "block_state E e i w w1 b"
  obtains w2 where "(if P then recycle_block E (w1, g) (Some (cell_ptr e 0 i)) (Some (cell_ptr e 4 i)) y else Inr (w1, g)) = Inr (w2, g)"
    "block_state E e i w w2 (if P then recycled E y b else b)"
proof (cases P)
  case True
  let ?R = "en_floats E"
  obtain t x n where b': "b = (t, x, n)" by (cases b)
  note s = block_state_reads [OF b [unfolded b']]
  have ok1: "tables_ok (fw_mem w1) e" by (rule tables_ok_kept [OF ok s(3)])
  from write_slot_y [OF ok1 i, of ?R y] obtain m1 c0 where
    1: "write_floats ?R (fw_mem w1) (ptr_add (Some (cell_ptr e 0 i)) offset_translation_y) [y] = Inr m1" "only_tables e (fw_mem w1) m1"
      "cells m1 e = set_cell (cells (fw_mem w1) e) 0 i c0" "transform_of (floats_of ?R c0) = set_y (rounded ?R y) t"
    unfolding set_y_def s(1) by blast
  note b1 = block_state_transform [OF b [unfolded b'] 1(2-4)]
  from write_slot_scale [OF tables_ok_kept [OF ok1 1(2)] i, of ?R "random_scale E n"] obtain m2 c4 where
    2: "write_floats ?R m1 (Some (cell_ptr e 4 i)) [random_scale E n] = Inr m2" "only_tables e m1 m2"
      "cells m2 e = set_cell (cells m1 e) 4 i c4" "floats_of ?R c4 = [rounded ?R (random_scale E n)]" by blast
  have b2: "block_state E e i w (w1\<lparr>fw_mem := m2, fw_rand := Suc n\<rparr>) (recycled E y b)"
    using block_state_scale [OF b1, of m2 c4 "rounded ?R (random_scale E n)" "Suc n"] 2 by (simp add: recycled_def b')
  have "recycle_block E (w1, g) (Some (cell_ptr e 0 i)) (Some (cell_ptr e 4 i)) y = Inr (w1\<lparr>fw_mem := m2, fw_rand := Suc n\<rparr>, g)"
    using 1(1) 2(1) s(4) by (simp add: recycle_block_def)
  with b2 True that show thesis by simp
qed (use b that in simp)

lemma update_block_follows:
  assumes ok: "tables_ok (fw_mem w) (fg_ecs g)" and types: "types_ok g" and i: "i < k_max_entities"
  obtains w' where "update_block E speed \<lparr>q_component_mask = k, q_entity = int i\<rparr> (w, g) = Inr (w', g)"
    "block_state E (fg_ecs g) i w w' (block_rule E speed
       (slot_transform (en_floats E) (cells (fw_mem w) (fg_ecs g)) i, slot_scale (en_floats E) (cells (fw_mem w) (fg_ecs g)) i, fw_rand w))"
proof -
  let ?R = "en_floats E" and ?e = "fg_ecs g" and ?tp = "Some (cell_ptr (fg_ecs g) 0 i)" and ?bp = "Some (cell_ptr (fg_ecs g) 4 i)"
  define b0 where "b0 = (slot_transform ?R (cells (fw_mem w) ?e) i, slot_scale ?R (cells (fw_mem w) ?e) i, fw_rand w)"
  have s0: "block_state E ?e i w w b0" unfolding b0_def by (rule block_state_start)
  define P1 where "P1 \<longleftrightarrow> vy (translation (fst b0)) > 12 \<and> vz (translation (fst b0)) < 1 \<and> vz (translation (fst b0)) > - 1"
  from recycle_block_follows [OF ok i s0, of P1 g "- 12"] obtain w1 where
    1: "(if P1 then recycle_block E (w, g) ?tp ?bp (- 12) else Inr (w, g)) = Inr (w1, g)"
      "block_state E ?e i w w1 (if P1 then recycled E (- 12) b0 else b0)" by blast
  define b1 where "b1 = (if P1 then recycled E (- 12) b0 else b0)"
  note s1 = 1(2) [folded b1_def]
  note r1 = block_state_reads [of E ?e i w w1 "fst b1" "fst (snd b1)" "snd (snd b1)", simplified, OF s1]
  define P2 where "P2 \<longleftrightarrow> vy (translation (fst b1)) < - 12 \<and> (vz (translation (fst b1)) > 1 \<or> vz (translation (fst b1)) < - 1)"
  from recycle_block_follows [OF ok i s1, of P2 g 12] obtain w2 where
    2: "(if P2 then recycle_block E (w1, g) ?tp ?bp 12 else Inr (w1, g)) = Inr (w2, g)"
      "block_state E ?e i w w2 (if P2 then recycled E 12 b1 else b1)" by blast
  obtain t x n where b2: "(if P2 then recycled E 12 b1 else b1) = (t, x, n)" by (metis prod_cases3)
  note s2 = 2(2) [unfolded b2] and r2 = block_state_reads [OF 2(2) [unfolded b2]]
  have ok1: "tables_ok (fw_mem w1) ?e" and ok2: "tables_ok (fw_mem w2) ?e"
    using tables_ok_kept [OF ok r1(3)] tables_ok_kept [OF ok r2(3)] by simp_all
  from write_slot_scale_y [OF ok2 i, of ?R x] obtain m3 c3 where
    3: "write_floats ?R (fw_mem w2) (ptr_add ?tp offset_scale_y) [x] = Inr m3" "only_tables ?e (fw_mem w2) m3"
      "cells m3 ?e = set_cell (cells (fw_mem w2) ?e) 0 i c3" "transform_of (floats_of ?R c3) = set_width (rounded ?R x) t"
    unfolding set_width_def r2(1) by blast
  define t' where "t' = set_width (rounded ?R x) t"
  note ok3 = tables_ok_kept [OF ok2 3(2)] and s3 = block_state_transform [OF s2 3(2-4)]
  have t': "slot_transform ?R (cells m3 ?e) i = t'" using 3(3,4) by (simp add: slot_transform_def t'_def)
  from write_slot_transform [OF ok3 i, of ?R "transform_multiply t' (block_move speed t')"] obtain m4 c where
    4: "write_transform ?R m3 ?tp (transform_multiply t' (block_move speed t')) = Inr m4" "only_tables ?e m3 m4"
      "cells m4 ?e = set_cell (cells m3 ?e) 0 i c"
      "transform_of (floats_of ?R c) = round_transform ?R (transform_multiply t' (block_move speed t'))" by blast
  have "block_state E ?e i w (w2\<lparr>fw_mem := m4\<rparr>) (round_transform ?R (transform_multiply t' (block_move speed t')), x, n)"
    using block_state_transform [OF s3, of m4 c] 4(2-4) by simp
  moreover have "block_rule E speed b0 = (round_transform ?R (transform_multiply t' (block_move speed t')), x, n)"
    using b2 by (simp add: block_rule_def Let_def t'_def flip: P1_def b1_def P2_def)
  moreover have "update_block E speed \<lparr>q_component_mask = k, q_entity = int i\<rparr> (w, g) = Inr (w2\<lparr>fw_mem := m4\<rparr>, g)"
  proof -
    have q: "query_component (w, g) \<lparr>q_component_mask = k, q_entity = int i\<rparr> (transform_type g) = Inr ?tp"
      "query_component (w, g) \<lparr>q_component_mask = k, q_entity = int i\<rparr> (block_type g) = Inr ?bp"
      using query_cell [of "fw_mem w" "(w, g)" 0 i] query_cell [of "fw_mem w" "(w, g)" 4 i] ok i types
      by (simp_all add: types_ok_def)
    have "fst b0 = slot_transform ?R (cells (fw_mem w) ?e) i" by (simp add: b0_def)
    note P1 = P1_def [unfolded this] and P2 = P2_def [folded r1(1)]
    show ?thesis
      unfolding update_block_def Let_def
      by (simp add: q read_slot [OF ok i] 1(1) read_slot [OF ok1 i] 2(1) read_slot [OF ok2 i] 3(1) read_slot [OF ok3 i] t' 4(1)
          r2(2) with_mem_def flip: P1 P2)
  qed
  ultimately show thesis using that by (simp add: b0_def)
qed

text \<open>All entities' transforms and widths, and the number of random numbers drawn.\<close>

type_synonym 'a field = "(nat \<Rightarrow> 'a transform_t) \<times> (nat \<Rightarrow> 'a) \<times> nat"

definition field_of :: "('a, 'd, 't) frogger_env \<Rightarrow> ('d, 't) frogger_state \<Rightarrow> 'a field" where
  "field_of E s = (slot_transform (en_floats E) (cells (fw_mem (fst s)) (fg_ecs (snd s))),
     slot_scale (en_floats E) (cells (fw_mem (fst s)) (fg_ecs (snd s))), fw_rand (fst s))"

definition block_step :: "('a::linordered_field, 'd, 't) frogger_env \<Rightarrow> 'a \<Rightarrow> nat \<Rightarrow> 'a field \<Rightarrow> 'a field" where
  "block_step E speed i f = (case f of (T, S, n) \<Rightarrow>
     (case block_rule E speed (T i, S i, n) of (t, x, n') \<Rightarrow> (T(i := t), S(i := x), n')))"

text \<open>What an update of some components keeps: the game, and of the world all but tables and counter.\<close>

definition same_but :: "nat set \<Rightarrow> ('d, 't) frogger_state \<Rightarrow> ('d, 't) frogger_state \<Rightarrow> bool" where
  "same_but tys s s' \<longleftrightarrow> snd s' = snd s \<and> fst s' = (fst s)\<lparr>fw_mem := fw_mem (fst s'), fw_rand := fw_rand (fst s')\<rparr> \<and>
     only_tables (fg_ecs (snd s)) (fw_mem (fst s)) (fw_mem (fst s')) \<and>
     (\<forall>ty. ty \<notin> tys \<longrightarrow> cells (fw_mem (fst s')) (fg_ecs (snd s)) ty = cells (fw_mem (fst s)) (fg_ecs (snd s)) ty)"

lemma same_but_refl [simp]: "same_but tys s s"
  by (simp add: same_but_def)

lemma same_but_trans:
  assumes "same_but tys s1 s2" and "same_but tys s2 s3"
  shows "same_but tys s1 s3"
proof -
  have "fst s3 = (fst s1)\<lparr>fw_mem := fw_mem (fst s3), fw_rand := fw_rand (fst s3)\<rparr>"
  proof -
    have "fst s2 = (fst s1)\<lparr>fw_mem := fw_mem (fst s2), fw_rand := fw_rand (fst s2)\<rparr>"
      and 3: "fst s3 = (fst s2)\<lparr>fw_mem := fw_mem (fst s3), fw_rand := fw_rand (fst s3)\<rparr>"
      using assms by (simp_all only: same_but_def)
    note this(1) [THEN arg_cong, of "\<lambda>w. w\<lparr>fw_mem := fw_mem (fst s3), fw_rand := fw_rand (fst s3)\<rparr>"]
    then show ?thesis using 3 by simp
  qed
  moreover have "only_tables (fg_ecs (snd s1)) (fw_mem (fst s1)) (fw_mem (fst s3))"
    using assms only_tables_trans by (auto simp: same_but_def)
  ultimately show ?thesis using assms by (auto simp: same_but_def)
qed

lemma same_but_tables: "same_but tys s s' \<Longrightarrow> tables_ok (fw_mem (fst s)) (fg_ecs (snd s)) \<Longrightarrow> tables_ok (fw_mem (fst s')) (fg_ecs (snd s'))"
  using tables_ok_kept by (auto simp: same_but_def)

lemma block_state_field:
  assumes "block_state E (fg_ecs g) i w w' (block_rule E speed
      (slot_transform (en_floats E) (cells (fw_mem w) (fg_ecs g)) i, slot_scale (en_floats E) (cells (fw_mem w) (fg_ecs g)) i, fw_rand w))"
  shows "field_of E (w', g) = block_step E speed i (field_of E (w, g))" "same_but {0, 4} (w, g) (w', g)"
proof -
  obtain t x n where b: "block_rule E speed (slot_transform (en_floats E) (cells (fw_mem w) (fg_ecs g)) i,
      slot_scale (en_floats E) (cells (fw_mem w) (fg_ecs g)) i, fw_rand w) = (t, x, n)" by (metis prod_cases3)
  from assms obtain m c0 c4 where w': "w' = w\<lparr>fw_mem := m, fw_rand := n\<rparr>" "only_tables (fg_ecs g) (fw_mem w) m"
    "cells m (fg_ecs g) = set_cell (set_cell (cells (fw_mem w) (fg_ecs g)) 0 i c0) 4 i c4"
    "transform_of (floats_of (en_floats E) c0) = t" "hd (floats_of (en_floats E) c4) = x"
    unfolding b by (auto simp: block_state_def)
  show "field_of E (w', g) = block_step E speed i (field_of E (w, g))"
    using b w' by (auto simp: field_of_def block_step_def slot_transform_def slot_scale_def set_cell_def fun_eq_iff)
  show "same_but {0, 4} (w, g) (w', g)" using w' by (simp add: same_but_def set_cell_def)
qed

lemma recycle_block_keeps: "recycle_block E s tp bp y = Inr s' \<Longrightarrow> snd s' = snd s"
  by (auto simp: recycle_block_def bind_ok_Inr_iff split: prod.splits)

lemma update_block_keeps: "update_block E speed q s = Inr s' \<Longrightarrow> snd s' = snd s"
  unfolding update_block_def Let_def
  by (auto simp: bind_ok_Inr_iff with_mem_def dest!: recycle_block_keeps split: if_split_asm)

lemma update_blocks_follow:
  assumes ok: "tables_ok (fw_mem (fst s)) (fg_ecs (snd s))" and types: "types_ok (snd s)" and speed: "frame_speed E s = Inr speed"
  obtains s' where "update_blocks E s = Inr s'" "same_but {0, 4} s s'"
    "field_of E s' = fold (block_step E speed) (slots (fg_ecs (snd s)) block_mask) (field_of E s)"
proof -
  let ?e = "fg_ecs (snd s)" and ?body = "\<lambda>i. update_block E speed \<lparr>q_component_mask = block_mask, q_entity = int i\<rparr>"
  have "\<exists>s'. for_each_ok ?body (slots ?e block_mask) s = Inr s' \<and>
    same_but {0, 4} s s' \<and> field_of E s' = fold (block_step E speed) (slots ?e block_mask) (field_of E s)"
  proof (rule for_each_ok_rule)
    fix "done" i s1
    assume i: "i \<in> set (slots ?e block_mask)"
      and I: "same_but {0, 4} s s1 \<and> field_of E s1 = fold (block_step E speed) done (field_of E s)"
    obtain w1 g1 where s1: "s1 = (w1, g1)" by (cases s1)
    have sb: "same_but {0, 4} s s1" using I by blast
    have "tables_ok (fw_mem w1) (fg_ecs g1)" "types_ok g1"
      using same_but_tables [OF sb ok] sb types by (simp_all add: same_but_def s1)
    from update_block_follows [OF this slots_less [OF i], of E speed block_mask] obtain w2 where
      2: "?body i (w1, g1) = Inr (w2, g1)" "block_state E (fg_ecs g1) i w1 w2 (block_rule E speed
        (slot_transform (en_floats E) (cells (fw_mem w1) (fg_ecs g1)) i, slot_scale (en_floats E) (cells (fw_mem w1) (fg_ecs g1)) i, fw_rand w1))"
      by blast
    note b = block_state_field [OF 2(2)]
    have "same_but {0, 4} s (w2, g1)" using I same_but_trans b(2) by (simp add: s1) blast
    then show "\<exists>s'. ?body i s1 = Inr s' \<and> same_but {0, 4} s s' \<and>
        field_of E s' = fold (block_step E speed) (done @ [i]) (field_of E s)"
      using 2(1) b(1) I by (intro exI [of _ "(w2, g1)"]) (simp add: s1)
  qed simp
  moreover have "update_blocks E s = for_each_ok ?body (slots ?e block_mask) s"
    unfolding update_blocks_def speed bind_ok_simps
    by (rule game_loop_slots [OF component_masks_of(1) [OF types]]) (auto dest: update_block_keeps)
  ultimately show thesis using that by auto
qed

section \<open>The rule of the players\<close>

definition player_start :: "'a::linordered_field float_rep \<Rightarrow> 'a transform_t" where
  "player_start R = (round_transform R transform_identity)\<lparr>translation :=
     round_vec R (vec3f_add (round_vec R vec3f_zero) (vec3f_scale vec3f_up 4))\<rparr>"

definition hit_by :: "'a::linordered_field transform_t \<Rightarrow> 'a field \<Rightarrow> nat \<Rightarrow> bool" where
  "hit_by t f j = (case f of (T, S, n) \<Rightarrow>
     block_hits (vy (translation t)) (vz (translation t)) (vy (translation (T j))) (vz (translation (T j))) (S j))"

definition player_rule :: "'a::linordered_field float_rep \<Rightarrow> 'a \<Rightarrow> u32 \<Rightarrow> nat list \<Rightarrow> 'a field \<Rightarrow> 'a transform_t \<Rightarrow> 'a transform_t" where
  "player_rule R speed keys bs f t0 =
     (let t1 = (if vz (translation t0) < - 4 then player_start R else t0);
          t2 = (if list_ex (hit_by t1 f) bs then player_start R else t1)
      in round_transform R (transform_multiply t2 (player_move speed keys)))"

definition put_field :: "nat \<Rightarrow> 'a transform_t \<Rightarrow> 'a field \<Rightarrow> 'a field" where
  "put_field i t f = (case f of (T, S, n) \<Rightarrow> (T(i := t), S, n))"

definition player_step :: "'a::linordered_field float_rep \<Rightarrow> 'a \<Rightarrow> u32 \<Rightarrow> nat list \<Rightarrow> nat \<Rightarrow> 'a field \<Rightarrow> 'a field" where
  "player_step R speed keys bs i f = put_field i (player_rule R speed keys bs f (fst f i)) f"

lemma put_field_simps [simp]: "fst (put_field i t f) i = t" "put_field i t (put_field i t' f) = put_field i t f"
  "j \<noteq> i \<Longrightarrow> hit_by x (put_field i t f) j = hit_by x f j" "put_field i (fst f i) f = f"
  by (auto simp: put_field_def hit_by_def split: prod.splits)

lemma put_transform:
  assumes "only_tables (fg_ecs (snd s)) (fw_mem (fst s)) m"
    and "cells m (fg_ecs (snd s)) = set_cell (cells (fw_mem (fst s)) (fg_ecs (snd s))) 0 i c"
    and "transform_of (floats_of (en_floats E) c) = t"
  shows "same_but {0} s (with_mem s m)" "field_of E (with_mem s m) = put_field i t (field_of E s)"
  using assms by (auto simp: same_but_def with_mem_def field_of_def put_field_def slot_transform_def slot_scale_def set_cell_def fun_eq_iff)

lemma move_by_follows:
  assumes "tables_ok m e" and "i < k_max_entities"
  obtains m' c where "move_by R m (Some (cell_ptr e 0 i)) v = Inr m'" "only_tables e m m'" "cells m' e = set_cell (cells m e) 0 i c"
    "transform_of (floats_of R c) = (slot_transform R (cells m e) i)
       \<lparr>translation := round_vec R (vec3f_add (translation (slot_transform R (cells m e) i)) v)\<rparr>"
  using write_slot_translation [OF assms, of R "vec3f_add (translation (slot_transform R (cells m e) i)) v" thesis]
  by (simp add: move_by_def read_slot [OF assms])

lemma place_player_follows:
  assumes ok: "tables_ok m e" and i: "i < k_max_entities"
  obtains m' c where "place_player R m (Some (cell_ptr e 0 i)) = Inr m'" "only_tables e m m'"
    "cells m' e = set_cell (cells m e) 0 i c" "transform_of (floats_of R c) = player_start R"
proof -
  from write_slot_transform [OF ok i, of R transform_identity] obtain m1 c1 where
    1: "write_transform R m (Some (cell_ptr e 0 i)) transform_identity = Inr m1" "only_tables e m m1"
      "cells m1 e = set_cell (cells m e) 0 i c1" "transform_of (floats_of R c1) = round_transform R transform_identity" by blast
  from move_by_follows [OF tables_ok_kept [OF ok 1(2)] i, of R "vec3f_scale vec3f_up 4"] obtain m2 c2 where
    2: "move_by R m1 (Some (cell_ptr e 0 i)) (vec3f_scale vec3f_up 4) = Inr m2" "only_tables e m1 m2"
      "cells m2 e = set_cell (cells m1 e) 0 i c2"
      "transform_of (floats_of R c2) = (slot_transform R (cells m1 e) i)
       \<lparr>translation := round_vec R (vec3f_add (translation (slot_transform R (cells m1 e) i)) (vec3f_scale vec3f_up 4))\<rparr>" by blast
  have "slot_transform R (cells m1 e) i = round_transform R transform_identity" using 1(3,4) by (simp add: slot_transform_def)
  then have "transform_of (floats_of R c2) = player_start R"
    using 2(4) by (simp add: player_start_def round_transform_def transform_identity_def)
  moreover have "place_player R m (Some (cell_ptr e 0 i)) = Inr m2" using 1(1) 2(1) by (simp add: place_player_def)
  moreover have "cells m2 e = set_cell (cells m e) 0 i c2" using 1(3) 2(3) by simp
  ultimately show thesis using that only_tables_trans [OF 1(2) 2(2)] by blast
qed

lemma collide_block_follows:
  assumes ok: "tables_ok (fw_mem (fst s)) (fg_ecs (snd s))" and types: "types_ok (snd s)" and i: "i < k_max_entities"
    and j: "j < k_max_entities"
  obtains s' where "collide_block E (Some (cell_ptr (fg_ecs (snd s)) 0 i)) player \<lparr>q_component_mask = k, q_entity = int j\<rparr> s = Inr s'"
    "same_but {0} s s'"
    "field_of E s' = (if hit_by (t\<lparr>translation := player\<rparr>) (field_of E s) j then put_field i (player_start (en_floats E)) (field_of E s)
       else field_of E s)"
proof -
  let ?R = "en_floats E" and ?e = "fg_ecs (snd s)" and ?m = "fw_mem (fst s)"
  have q: "query_component s \<lparr>q_component_mask = k, q_entity = int j\<rparr> (transform_type (snd s)) = Inr (Some (cell_ptr ?e 0 j))"
    "query_component s \<lparr>q_component_mask = k, q_entity = int j\<rparr> (block_type (snd s)) = Inr (Some (cell_ptr ?e 4 j))"
    using query_cell [OF ok, of 0 j] query_cell [OF ok, of 4 j] j types by (simp_all add: types_ok_def)
  from place_player_follows [OF ok i, of ?R] obtain m' c where
    p: "place_player ?R ?m (Some (cell_ptr ?e 0 i)) = Inr m'" "only_tables ?e ?m m'"
      "cells m' ?e = set_cell (cells ?m ?e) 0 i c" "transform_of (floats_of ?R c) = player_start ?R" by blast
  have "hit_by (t\<lparr>translation := player\<rparr>) (field_of E s) j \<longleftrightarrow> block_hits (vy player) (vz player)
      (vy (translation (slot_transform ?R (cells ?m ?e) j))) (vz (translation (slot_transform ?R (cells ?m ?e) j)))
      (slot_scale ?R (cells ?m ?e) j)"
    by (simp add: hit_by_def field_of_def)
  then show thesis
    using that [of "with_mem s m'"] that [of s] put_transform [OF p(2-4)]
    by (cases "hit_by (t\<lparr>translation := player\<rparr>) (field_of E s) j")
      (simp_all add: collide_block_def q read_slot [OF ok j] p(1))
qed

lemma collide_block_keeps: "collide_block E tp player q s = Inr s' \<Longrightarrow> snd s' = snd s"
  unfolding collide_block_def Let_def by (auto simp: bind_ok_Inr_iff with_mem_def split: if_split_asm)

lemma collisions_follow:
  assumes ok: "tables_ok (fw_mem (fst s)) (fg_ecs (snd s))" and types: "types_ok (snd s)" and i: "i < k_max_entities"
    and notin: "i \<notin> set (slots (fg_ecs (snd s)) block_mask)"
  obtains s' where "game_loop (component_mask [transform_type (snd s), block_type (snd s)])
      (collide_block E (Some (cell_ptr (fg_ecs (snd s)) 0 i)) (translation t)) s = Inr s'"
    "same_but {0} s s'"
    "field_of E s' = (if list_ex (hit_by t (field_of E s)) (slots (fg_ecs (snd s)) block_mask)
       then put_field i (player_start (en_floats E)) (field_of E s) else field_of E s)"
proof -
  let ?e = "fg_ecs (snd s)" and ?player = "player_start (en_floats E)"
  let ?body = "\<lambda>j. collide_block E (Some (cell_ptr ?e 0 i)) (translation t) \<lparr>q_component_mask = block_mask, q_entity = int j\<rparr>"
  define I where "I done s' \<longleftrightarrow> same_but {0} s s' \<and> field_of E s' =
    (if list_ex (hit_by t (field_of E s)) done then put_field i ?player (field_of E s) else field_of E s)" for "done" s'
  have "\<exists>s'. for_each_ok ?body (slots ?e block_mask) s = Inr s' \<and> I (slots ?e block_mask) s'"
  proof (rule for_each_ok_rule)
    fix "done" j s1
    assume j: "j \<in> set (slots ?e block_mask)" and "I done s1"
    then have sb: "same_but {0} s s1" and f: "field_of E s1 =
      (if list_ex (hit_by t (field_of E s)) done then put_field i ?player (field_of E s) else field_of E s)"
      by (simp_all add: I_def)
    have g: "snd s1 = snd s" using sb by (simp add: same_but_def)
    have "tables_ok (fw_mem (fst s1)) (fg_ecs (snd s1))" "types_ok (snd s1)"
      using same_but_tables [OF sb ok] types g by simp_all
    from collide_block_follows [OF this i slots_less [OF j], of E "translation t" block_mask t] obtain s2 where
      2: "?body j s1 = Inr s2" "same_but {0} s1 s2" "field_of E s2 =
        (if hit_by t (field_of E s1) j then put_field i ?player (field_of E s1) else field_of E s1)"
      by (auto simp: g)
    have "j \<noteq> i" using j notin by auto
    then have "I (done @ [j]) s2" using 2(3) f same_but_trans [OF sb 2(2)] by (auto simp: I_def)
    with 2(1) show "\<exists>s'. ?body j s1 = Inr s' \<and> I (done @ [j]) s'" by blast
  qed (simp add: I_def)
  moreover have "game_loop (component_mask [transform_type (snd s), block_type (snd s)])
      (collide_block E (Some (cell_ptr ?e 0 i)) (translation t)) s = for_each_ok ?body (slots ?e block_mask) s"
    by (rule game_loop_slots [OF component_masks_of(1) [OF types]]) (auto dest: collide_block_keeps)
  ultimately show thesis using that unfolding I_def by auto
qed

text \<open>Without the mouse buttons, that save and load.\<close>

definition no_buttons :: "u32 \<Rightarrow> bool" where
  "no_buttons b \<longleftrightarrow> b AND k_mouse_button_left = 0 \<and> b AND k_mouse_button_right = 0"

text \<open>An update of a player, up to the mouse buttons.\<close>

lemma update_player_collides:
  assumes ok: "tables_ok (fw_mem (fst s)) (fg_ecs (snd s))" and types: "types_ok (snd s)" and i: "i < k_max_entities"
    and notin: "i \<notin> set (slots (fg_ecs (snd s)) block_mask)"
  obtains s2 t2 where
    "update_player E speed keys buttons \<lparr>q_component_mask = k, q_entity = int i\<rparr> s =
      bind_ok (save_if E buttons s2) (\<lambda>s3. bind_ok (load_if E buttons s3) (\<lambda>s4.
      bind_ok (read_transform (en_floats E) (fw_mem (fst s4)) (Some (cell_ptr (fg_ecs (snd s)) 0 i))) (\<lambda>t.
      bind_ok (write_transform (en_floats E) (fw_mem (fst s4)) (Some (cell_ptr (fg_ecs (snd s)) 0 i)) (transform_multiply t (player_move speed keys))) (\<lambda>m5.
      Inr (with_mem s4 m5)))))"
    "same_but {0} s s2" "field_of E s2 = put_field i t2 (field_of E s)"
    "player_rule (en_floats E) speed keys (slots (fg_ecs (snd s)) block_mask) (field_of E s) (fst (field_of E s) i) =
      round_transform (en_floats E) (transform_multiply t2 (player_move speed keys))"
proof -
  let ?R = "en_floats E" and ?e = "fg_ecs (snd s)" and ?m = "fw_mem (fst s)" and ?tp = "Some (cell_ptr (fg_ecs (snd s)) 0 i)"
  let ?bs = "slots (fg_ecs (snd s)) block_mask"
  define t0 where "t0 = slot_transform ?R (cells ?m ?e) i"
  have f0: "fst (field_of E s) i = t0" by (simp add: field_of_def t0_def)
  define t1 where "t1 = (if vz (translation t0) < - 4 then player_start ?R else t0)"
  obtain m1 where 1: "(if vz (translation t0) < - 4 then place_player ?R ?m ?tp else Inr ?m) = Inr m1"
    "same_but {0} s (with_mem s m1)" "field_of E (with_mem s m1) = put_field i t1 (field_of E s)"
  proof (cases "vz (translation t0) < - 4")
    case True
    from place_player_follows [OF ok i, of ?R] obtain m1 c where
      "place_player ?R ?m ?tp = Inr m1" "only_tables ?e ?m m1" "cells m1 ?e = set_cell (cells ?m ?e) 0 i c"
      "transform_of (floats_of ?R c) = player_start ?R" by blast
    with True that put_transform [of s m1 i c E] show thesis by (simp add: t1_def)
  next
    case False
    have "with_mem s ?m = s" by (simp add: with_mem_def)
    moreover have "put_field i t0 (field_of E s) = field_of E s" by (simp flip: f0)
    ultimately show thesis using False that [of ?m] by (simp add: t1_def)
  qed
  let ?s1 = "with_mem s m1"
  have g1: "snd ?s1 = snd s" by (simp add: with_mem_def)
  have ok1: "tables_ok (fw_mem (fst ?s1)) (fg_ecs (snd ?s1))" by (rule same_but_tables [OF 1(2) ok])
  have t1: "slot_transform ?R (cells m1 ?e) i = t1"
    using 1(3) [THEN arg_cong, of "\<lambda>f. fst f i"] by (simp add: with_mem_def) (simp add: field_of_def)
  from collisions_follow [OF ok1, of i E t1] types i notin obtain s2 where
    2: "game_loop (component_mask [transform_type (snd s), block_type (snd s)]) (collide_block E ?tp (translation t1)) ?s1 = Inr s2"
      "same_but {0} ?s1 s2"
      "field_of E s2 = (if list_ex (hit_by t1 (field_of E ?s1)) ?bs then put_field i (player_start ?R) (field_of E ?s1) else field_of E ?s1)"
    by (auto simp: g1)
  have sb2: "same_but {0} s s2" by (rule same_but_trans [OF 1(2) 2(2)])
  have g2: "snd s2 = snd s" using sb2 by (simp add: same_but_def)
  have ok2: "tables_ok (fw_mem (fst s2)) ?e" using same_but_tables [OF sb2 ok] by (simp add: g2)
  have hits: "list_ex (hit_by t1 (field_of E ?s1)) ?bs = list_ex (hit_by t1 (field_of E s)) ?bs"
  proof -
    have "hit_by t1 (put_field i t1 (field_of E s)) j = hit_by t1 (field_of E s) j" if "j \<in> set ?bs" for j
      using that notin by (intro put_field_simps(3)) auto
    then show ?thesis by (simp add: list_ex_iff 1(3) cong: bex_cong)
  qed
  define t2 where "t2 = (if list_ex (hit_by t1 (field_of E s)) ?bs then player_start ?R else t1)"
  have f2: "field_of E s2 = put_field i t2 (field_of E s)" using 2(3) 1(3) unfolding hits by (simp add: t2_def)
  have q: "query_component s \<lparr>q_component_mask = k, q_entity = int i\<rparr> (transform_type (snd s)) = Inr ?tp"
    "query_component s \<lparr>q_component_mask = k, q_entity = int i\<rparr> (player_type (snd s)) = Inr (Some (cell_ptr ?e 3 i))"
    using query_cell [OF ok, of 0 i] query_cell [OF ok, of 3 i] i types by (simp_all add: types_ok_def)
  show thesis
  proof (rule that [OF _ sb2 f2])
    show "update_player E speed keys buttons \<lparr>q_component_mask = k, q_entity = int i\<rparr> s =
      bind_ok (save_if E buttons s2) (\<lambda>s3. bind_ok (load_if E buttons s3) (\<lambda>s4.
      bind_ok (read_transform ?R (fw_mem (fst s4)) ?tp) (\<lambda>t.
      bind_ok (write_transform ?R (fw_mem (fst s4)) ?tp (transform_multiply t (player_move speed keys))) (\<lambda>m5.
      Inr (with_mem s4 m5)))))"
      unfolding update_player_def Let_def
      using 1(1) read_slot(2) [OF ok1 i, of ?R] t1 2(1)
      by (simp only: q bind_ok_simps read_slot [OF ok i] flip: t0_def) (simp add: g1 with_mem_def)
    show "player_rule ?R speed keys ?bs (field_of E s) (fst (field_of E s) i) = round_transform ?R (transform_multiply t2 (player_move speed keys))"
      by (simp add: player_rule_def Let_def f0 t1_def t2_def)
  qed
qed

lemma update_player_follows:
  assumes ok: "tables_ok (fw_mem (fst s)) (fg_ecs (snd s))" and types: "types_ok (snd s)" and i: "i < k_max_entities"
    and notin: "i \<notin> set (slots (fg_ecs (snd s)) block_mask)" and nb: "no_buttons buttons"
  obtains s' where "update_player E speed keys buttons \<lparr>q_component_mask = k, q_entity = int i\<rparr> s = Inr s'" "same_but {0} s s'"
    "field_of E s' = player_step (en_floats E) speed keys (slots (fg_ecs (snd s)) block_mask) i (field_of E s)"
proof -
  let ?R = "en_floats E" and ?e = "fg_ecs (snd s)" and ?tp = "Some (cell_ptr (fg_ecs (snd s)) 0 i)"
  let ?bs = "slots (fg_ecs (snd s)) block_mask"
  from update_player_collides [OF ok types i notin, of E speed keys buttons k] obtain s2 t2 where
    2: "update_player E speed keys buttons \<lparr>q_component_mask = k, q_entity = int i\<rparr> s =
      bind_ok (save_if E buttons s2) (\<lambda>s3. bind_ok (load_if E buttons s3) (\<lambda>s4.
      bind_ok (read_transform ?R (fw_mem (fst s4)) ?tp) (\<lambda>t.
      bind_ok (write_transform ?R (fw_mem (fst s4)) ?tp (transform_multiply t (player_move speed keys))) (\<lambda>m5.
      Inr (with_mem s4 m5)))))"
      "same_but {0} s s2" "field_of E s2 = put_field i t2 (field_of E s)"
      "player_rule ?R speed keys ?bs (field_of E s) (fst (field_of E s) i) = round_transform ?R (transform_multiply t2 (player_move speed keys))"
    by blast
  have g2: "snd s2 = snd s" using 2(2) by (simp add: same_but_def)
  have ok2: "tables_ok (fw_mem (fst s2)) ?e" using same_but_tables [OF 2(2) ok] by (simp add: g2)
  have t2: "slot_transform ?R (cells (fw_mem (fst s2)) ?e) i = t2"
    using 2(3) [THEN arg_cong, of "\<lambda>f. fst f i"] by simp (simp add: field_of_def g2)
  let ?t3 = "transform_multiply t2 (player_move speed keys)"
  from write_slot_transform [OF ok2 i, of ?R ?t3] obtain m3 c where
    3: "write_transform ?R (fw_mem (fst s2)) ?tp ?t3 = Inr m3" "only_tables ?e (fw_mem (fst s2)) m3"
      "cells m3 ?e = set_cell (cells (fw_mem (fst s2)) ?e) 0 i c" "transform_of (floats_of ?R c) = round_transform ?R ?t3" by blast
  note p = put_transform [of s2 m3 i c E, unfolded g2, OF 3(2-4)]
  have sl: "save_if E buttons s2 = Inr s2" "load_if E buttons s2 = Inr s2"
    using nb by (cases s2; simp add: save_if_def load_if_def no_buttons_def)+
  have "update_player E speed keys buttons \<lparr>q_component_mask = k, q_entity = int i\<rparr> s = Inr (with_mem s2 m3)"
    by (simp add: 2(1) sl read_slot [OF ok2 i] t2 3(1))
  moreover have "field_of E (with_mem s2 m3) = player_step ?R speed keys ?bs i (field_of E s)"
    unfolding p(2) 2(3) player_step_def 2(4) by simp
  moreover have "same_but {0} s (with_mem s2 m3)" by (rule same_but_trans [OF 2(2) p(1)])
  ultimately show thesis using that by blast
qed

lemma same_but_world:
  assumes "same_but tys s s'"
  obtains m n where "fst s' = (fst s)\<lparr>fw_mem := m, fw_rand := n\<rparr>" "snd s' = snd s"
  using assms that unfolding same_but_def by blast

lemma same_but_speed: "same_but tys s s' \<Longrightarrow> frame_speed E s' = frame_speed E s"
  by (erule same_but_world) (simp add: frame_speed_def split_def)

lemma same_but_mono: "same_but tys s s' \<Longrightarrow> tys \<subseteq> tys' \<Longrightarrow> same_but tys' s s'"
  unfolding same_but_def by blast

lemma save_if_keeps: "no_buttons buttons \<Longrightarrow> save_if E buttons s = Inr s" "no_buttons buttons \<Longrightarrow> load_if E buttons s = Inr s"
  by (cases s; simp add: save_if_def load_if_def no_buttons_def)+

lemma game_loop_keeps:
  assumes "\<And>q s s'. body q s = Inr s' \<Longrightarrow> snd s' = snd s" and "game_loop cm body s = Inr s'"
  shows "snd s' = snd s"
proof -
  from assms(2) obtain k where "cm = Inr k" by (auto simp: game_loop_def bind_ok_Inr_iff)
  then have l: "for_each_ok (\<lambda>i. body \<lparr>q_component_mask = k, q_entity = int i\<rparr>) (slots (fg_ecs (snd s)) k) s = Inr s'"
    using game_loop_slots [of cm k "fg_ecs (snd s)" body s] assms by (metis (no_types, lifting))
  have "for_each_ok (\<lambda>i. body \<lparr>q_component_mask = k, q_entity = int i\<rparr>) is s = Inr s' \<Longrightarrow> snd s' = snd s" for "is"
  proof (induction "is" arbitrary: s)
    case (Cons i js)
    then obtain s1 where "body \<lparr>q_component_mask = k, q_entity = int i\<rparr> s = Inr s1"
      "for_each_ok (\<lambda>i. body \<lparr>q_component_mask = k, q_entity = int i\<rparr>) js s1 = Inr s'" by (auto simp: bind_ok_Inr_iff)
    with Cons.IH assms(1) show ?case by metis
  qed simp
  with l show ?thesis by blast
qed

lemma update_player_keeps:
  assumes "no_buttons buttons" and "update_player E speed keys buttons q s = Inr s'"
  shows "snd s' = snd s"
proof -
  have c: "game_loop cm (collide_block E tp player) s1 = Inr s2 \<Longrightarrow> snd s2 = snd s1" for cm tp player s1 s2
    by (rule game_loop_keeps [OF collide_block_keeps])
  show ?thesis using assms(2) unfolding update_player_def Let_def save_if_keeps [OF assms(1)]
    by (auto simp: bind_ok_Inr_iff save_if_keeps [OF assms(1)] with_mem_def split: if_split_asm dest!: c)
qed

lemma update_players_follow:
  assumes ok: "tables_ok (fw_mem (fst s)) (fg_ecs (snd s))" and types: "types_ok (snd s)" and speed: "frame_speed E s = Inr speed"
    and nb: "no_buttons (wm_get_mouse_mask (fw_window (fst s)))"
    and disj: "set (slots (fg_ecs (snd s)) player_mask) \<inter> set (slots (fg_ecs (snd s)) block_mask) = {}"
  obtains s' where "update_players E s = Inr s'" "same_but {0} s s'"
    "field_of E s' = fold (player_step (en_floats E) speed (wm_get_key_mask (fw_window (fst s))) (slots (fg_ecs (snd s)) block_mask))
       (slots (fg_ecs (snd s)) player_mask) (field_of E s)"
proof -
  let ?e = "fg_ecs (snd s)" and ?keys = "wm_get_key_mask (fw_window (fst s))" and ?buttons = "wm_get_mouse_mask (fw_window (fst s))"
  let ?body = "\<lambda>i. update_player E speed ?keys ?buttons \<lparr>q_component_mask = player_mask, q_entity = int i\<rparr>"
  let ?step = "player_step (en_floats E) speed ?keys (slots ?e block_mask)"
  have "\<exists>s'. for_each_ok ?body (slots ?e player_mask) s = Inr s' \<and>
    same_but {0} s s' \<and> field_of E s' = fold ?step (slots ?e player_mask) (field_of E s)"
  proof (rule for_each_ok_rule)
    fix "done" i s1
    assume i: "i \<in> set (slots ?e player_mask)" and I: "same_but {0} s s1 \<and> field_of E s1 = fold ?step done (field_of E s)"
    have sb: "same_but {0} s s1" using I by blast
    then have g: "snd s1 = snd s" by (simp add: same_but_def)
    have "tables_ok (fw_mem (fst s1)) (fg_ecs (snd s1))" "types_ok (snd s1)"
      using same_but_tables [OF sb ok] types g by simp_all
    from update_player_follows [OF this slots_less [OF i], of ?buttons E speed ?keys player_mask] obtain s2 where
      2: "?body i s1 = Inr s2" "same_but {0} s1 s2" "field_of E s2 = ?step i (field_of E s1)"
      using disj i nb by (auto simp: g)
    show "\<exists>s'. ?body i s1 = Inr s' \<and> same_but {0} s s' \<and> field_of E s' = fold ?step (done @ [i]) (field_of E s)"
      using 2(1,3) same_but_trans [OF sb 2(2)] I by (intro exI [of _ s2]) simp
  qed simp
  moreover have "update_players E s = for_each_ok ?body (slots ?e player_mask) s"
    unfolding update_players_def speed bind_ok_simps Let_def
    by (rule game_loop_slots [OF component_masks_of(2) [OF types]]) (auto dest: update_player_keeps [OF nb])
  ultimately show thesis using that by auto
qed

end
