(* ===== verification/Frogger_Frame.thy ===== *)
theory Frogger_Frame
  imports Frogger_Rules
begin

text \<open>
  A frame of the game: what is pushed to the renderer, the frame as the composition of the rules, what
  holds in every frame, and what a loaded game does.
\<close>

section \<open>Drawing\<close>

text \<open>Allocations only: what there was is as it was.\<close>

definition grown :: "mem \<Rightarrow> mem \<Rightarrow> nat \<Rightarrow> bool" where
  "grown m m' n \<longleftrightarrow> mem_ok m' \<and> next_block m \<le> next_block m' \<and> (\<forall>b < next_block m. blocks m' b = blocks m b) \<and>
     os_avail m' + n = os_avail m"

lemma grown_refl: "mem_ok m \<Longrightarrow> grown m m 0"
  by (simp add: grown_def)

lemma grown_trans: "grown m1 m2 n \<Longrightarrow> grown m2 m3 k \<Longrightarrow> grown m1 m3 (n + k)"
  by (auto simp: grown_def)

lemma tables_ok_grown:
  assumes ok: "tables_ok m e" and "grown m m' n"
  shows "tables_ok m' e" "cells m' e = cells m e"
proof -
  have b: "blocks m' (table e ty) = blocks m (table e ty)" if "ty < 6" for ty
  proof -
    have "table e ty < next_block m"
      using tables_okD(3) [OF ok that] ok by (auto simp: tables_ok_def mem_ok_def)
    then show ?thesis using assms(2) by (simp add: grown_def)
  qed
  have size: "block_size m' (table e ty, 0) = Some (table_size ty)" if "ty < 6" for ty
    using tables_okD(3) [OF ok that] b [OF that] by (auto simp: block_size_def)
  show "tables_ok m' e"
    unfolding tables_ok_def
  proof (intro conjI allI impI)
    show "mem_ok m'" "ecs_shape e" using assms by (simp_all add: grown_def tables_ok_def)
    show "\<exists>b. components e ! ty = Some (b, 0) \<and> unat (component_type_sizes e ! ty) = csize ty \<and>
        block_size m' (b, 0) = Some (table_size ty)" if "ty < 6" for ty
      using tables_okD(1,2) [OF ok that] size [OF that] by blast
    show "ty = ty'" if "ty < 6" "ty' < 6" "components e ! ty = components e ! ty'" for ty ty'
      using ok that unfolding tables_ok_def by blast
  qed
  show "cells m' e = cells m e" using b by (auto simp: cells_def fun_eq_iff)
qed

lemma alloc_grown:
  assumes "mem_ok m" and "0 < n" and "n \<le> os_avail m"
  obtains m' where "heap_alloc m n a = (m', Some (next_block m, 0))" "grown m m' n" "next_block m' = Suc (next_block m)"
    "blocks m' (next_block m) = Some (replicate n (junk m))"
  using assms mem_ok_alloc [OF assms(1), of n a] that by (auto simp: heap_alloc_def grown_def)

lemma block_size_grown: "mem_ok m \<Longrightarrow> grown m m' n \<Longrightarrow> block_size m p = Some k \<Longrightarrow> block_size m' p = Some k"
  by (cases p) (auto simp: block_size_def grown_def mem_ok_def split: if_splits)

text \<open>A drawing: the entity, the mesh and the shader, the uniforms.  A command carries it if its data are the uniforms.\<close>

type_synonym drawing = "ecs_entity_ref_t \<times> ptr \<times> ptr \<times> bytes"

definition carries :: "mem \<Rightarrow> render_command \<Rightarrow> drawing \<Rightarrow> bool" where
  "carries m c d \<longleftrightarrow> (case d of (entity, mesh, shader, data) \<Rightarrow> \<exists>b q.
     c = Command_model (b, 0) \<lparr>mc_entity = entity, mc_mesh = mesh, mc_shader = shader, mc_data = Some (q, 0), mc_size = length data\<rparr> \<and>
     block_size m (b, 0) = Some sizeof_model_command_t \<and> blocks m q = Some data)"

lemma carries_grown: "mem_ok m \<Longrightarrow> grown m m' n \<Longrightarrow> carries m c d \<Longrightarrow> carries m' c d"
  by (auto simp: carries_def grown_def block_size_def mem_ok_def split: prod.splits)

lemma model_command_carries:
  assumes "mem_ok m" and "data \<noteq> []" and "48 + length data \<le> os_avail m"
  obtains m' c where "model_command m entity mesh shader data = Inr (m', c)" "grown m m' (48 + length data)"
    "carries m' c (entity, mesh, shader, data)"
proof -
  from alloc_grown [OF assms(1), of 48 8] assms(3) obtain m1 where
    1: "heap_alloc m 48 8 = (m1, Some (next_block m, 0))" "grown m m1 48" "next_block m1 = Suc (next_block m)"
      "blocks m1 (next_block m) = Some (replicate 48 (junk m))" by auto
  have "mem_ok m1" "length data \<le> os_avail m1" using 1(2) assms(3) by (simp_all add: grown_def)
  with alloc_grown [of m1 "length data" 8] assms(2) obtain m2 where
    2: "heap_alloc m1 (length data) 8 = (m2, Some (next_block m1, 0))" "grown m1 m2 (length data)" "next_block m2 = Suc (next_block m1)"
      "blocks m2 (next_block m1) = Some (replicate (length data) (junk m1))" by auto
  define m3 where "m3 = m2\<lparr>blocks := (blocks m2)(next_block m1 := Some data)\<rparr>"
  have w: "mem_write m2 (Some (next_block m1, 0)) data = Inr m3" using 2(4) by (simp add: mem_write_def splice_def m3_def)
  have "grown m1 m3 (length data)" using 2(2) mem_ok_write [OF _ w] by (auto simp: grown_def m3_def)
  from grown_trans [OF 1(2) this] have "grown m m3 (48 + length data)" .
  moreover have "blocks m3 (next_block m) = Some (replicate 48 (junk m))"
    using 1(3,4) 2(2) by (simp add: m3_def grown_def)
  ultimately show thesis
    using 1(1) 2(1) w that [of m3]
    by (auto simp: model_command_def alloc_command_def sizeof_model_command_t_def carries_def block_size_def) (simp add: m3_def)
qed

definition model_at :: "(nat \<Rightarrow> nat \<Rightarrow> bytes) \<Rightarrow> nat \<Rightarrow> ptr option \<times> ptr option" where
  "model_at c i = (ptr_of_bits (of_le64 (take 8 (c 2 i))), ptr_of_bits (of_le64 (drop 8 (c 2 i))))"

definition has_model :: "(nat \<Rightarrow> nat \<Rightarrow> bytes) \<Rightarrow> nat \<Rightarrow> bool" where
  "has_model c i \<longleftrightarrow> fst (model_at c i) \<noteq> None \<and> snd (model_at c i) \<noteq> None"

definition uniforms :: "'a::linordered_field float_rep \<Rightarrow> (nat \<Rightarrow> nat \<Rightarrow> bytes) \<Rightarrow> nat \<Rightarrow> nat \<Rightarrow> bytes" where
  "uniforms R c camera i =
     take 64 (c 1 camera) @ float_bytes R (concat (transform_to_matrix (slot_transform R c i))) @ drop 64 (c 1 camera)"

definition drawing_of :: "'a::linordered_field float_rep \<Rightarrow> ecs_t \<Rightarrow> (nat \<Rightarrow> nat \<Rightarrow> bytes) \<Rightarrow> nat \<Rightarrow> nat \<Rightarrow> drawing" where
  "drawing_of R e c camera i =
     (\<lparr>ref_entity = int i, ref_sequence = sequences e ! i\<rparr>, the (fst (model_at c i)), the (snd (model_at c i)), uniforms R c camera i)"

definition drawings :: "'a::linordered_field float_rep \<Rightarrow> ecs_t \<Rightarrow> (nat \<Rightarrow> nat \<Rightarrow> bytes) \<Rightarrow> drawing list" where
  "drawings R e c = concat (map (\<lambda>camera. map (drawing_of R e c camera) (slots e model_mask)) (slots e camera_mask))"

text \<open>Room for \<open>n\<close> more commands: in the queue, with what the render thread takes while the game waits, and below the
  end of the queue's index range.\<close>

definition queue_room :: "nat \<Rightarrow> ('d, 't) frogger_world \<Rightarrow> bool" where
  "queue_room n w \<longleftrightarrow> queue_inv (fw_queue w) \<and> q_cap (fw_queue w) = 3 \<and> q_tail (fw_queue w) + n \<le> index_limit \<and>
     length (queue_list (fw_queue w)) + n \<le> 3 + fw_takes w"

lemma queue_room_simps [simp]:
  "queue_room n (w\<lparr>fw_mem := m\<rparr>) = queue_room n w" "queue_room n (w\<lparr>fw_timers := ts\<rparr>) = queue_room n w"
  "queue_room n (w\<lparr>fw_rand := k\<rparr>) = queue_room n w"
  by (simp_all add: queue_room_def)

text \<open>After a push only the queue and what was taken from it differ.\<close>

definition after_push :: "('d, 't) frogger_world \<Rightarrow> render_command \<Rightarrow> ('d, 't) frogger_world \<Rightarrow> bool" where
  "after_push w c w' \<longleftrightarrow> w' = w\<lparr>fw_queue := fw_queue w', fw_taken := fw_taken w', fw_takes := fw_takes w'\<rparr> \<and>
     fw_pushed w' = fw_pushed w @ [Some c] \<and> (\<forall>n. queue_room (Suc n) w \<longrightarrow> queue_room n w')"

lemma after_push_sel:
  assumes "after_push w c w'"
  shows "fw_mem w' = fw_mem w" "fw_timers w' = fw_timers w" "fw_rand w' = fw_rand w"
proof -
  from assms have e: "w' = w\<lparr>fw_queue := fw_queue w', fw_taken := fw_taken w', fw_takes := fw_takes w'\<rparr>" by (simp add: after_push_def)
  show "fw_mem w' = fw_mem w" "fw_timers w' = fw_timers w" "fw_rand w' = fw_rand w" by (subst e, simp)+
qed

lemma queue_room_less: "queue_room n w \<Longrightarrow> k \<le> n \<Longrightarrow> queue_room k w"
  by (auto simp: queue_room_def)

lemma push_command_room:
  assumes "queue_room (Suc 0) w"
  obtains w' where "push_command c w = Inr w'" "after_push w c w'"
proof -
  have inv: "queue_inv (fw_queue w)" and cap: "q_cap (fw_queue w) = 3" and lim: "q_tail (fw_queue w) < index_limit"
    and takes: "length (queue_list (fw_queue w)) < 3 + fw_takes w" using assms by (simp_all add: queue_room_def)
  from inv lim show thesis
  proof (cases rule: queue_push_cases [where x = "Some c"])
    case (pushed q)
    show ?thesis
    proof (rule that)
      show "push_command c w = Inr (w\<lparr>fw_queue := q\<rparr>)" by (simp add: push_command_def pushed(1))
      show "after_push w c (w\<lparr>fw_queue := q\<rparr>)"
        using pushed(2-5) cap by (simp add: after_push_def queue_room_def fw_pushed_def)
    qed
  next
    case full
    with takes cap have some: "0 < fw_takes w" by simp
    from inv lim [THEN less_imp_le] show ?thesis
    proof (cases rule: queue_pop_cases)
      case (popped q1 y ys)
      have "q_tail q1 < index_limit" using lim popped(6) by simp
      with popped(2) show ?thesis
      proof (cases rule: queue_push_cases [where x = "Some c"])
        case (pushed q2)
        let ?w = "w\<lparr>fw_queue := q2, fw_taken := fw_taken w @ [y], fw_takes := fw_takes w - 1\<rparr>"
        show ?thesis
        proof (rule that)
          show "push_command c w = Inr ?w" using some by (simp add: push_command_def full(1) popped(1) pushed(1))
          show "after_push w c ?w"
            using pushed(2-5) popped(3-6) cap some by (auto simp: after_push_def queue_room_def fw_pushed_def)
        qed
      next
        case full
        with popped(3-5) \<open>length (queue_list (fw_queue w)) = q_cap (fw_queue w)\<close> show ?thesis by simp
      qed
    next
      case empty
      with full(2) cap show ?thesis by simp
    qed
  qed
qed

text \<open>A push waits for ever exactly when the three places are taken and the render thread takes no more.\<close>

lemma push_command_waits:
  assumes "queue_inv (fw_queue w)" and "q_cap (fw_queue w) = 3" and "q_tail (fw_queue w) < index_limit"
  shows "push_command c w = Inl Waits_forever \<longleftrightarrow> length (queue_list (fw_queue w)) = 3 \<and> fw_takes w = 0"
proof (cases "length (queue_list (fw_queue w)) = 3 \<and> fw_takes w = 0")
  case True
  then have "q_tail (fw_queue w) - q_head (fw_queue w) = q_cap (fw_queue w)" using assms(2) by (simp add: length_queue_list)
  from queue_push_full [OF assms(1) this] True show ?thesis by (simp add: push_command_def)
next
  case False
  have "length (queue_list (fw_queue w)) \<le> 3" using queue_invD(9) [OF assms(1)] assms(2) by (simp add: length_queue_list)
  with False assms have "queue_room (Suc 0) w" by (auto simp: queue_room_def)
  then obtain w' where "push_command c w = Inr w'" by (rule push_command_room)
  with False show ?thesis by simp
qed

text \<open>The state after some drawings have been pushed.\<close>

definition pushed :: "('d, 't) frogger_state \<Rightarrow> drawing list \<Rightarrow> ('d, 't) frogger_state \<Rightarrow> bool" where
  "pushed s ds s' \<longleftrightarrow> snd s' = snd s \<and>
     fst s' = (fst s)\<lparr>fw_mem := fw_mem (fst s'), fw_queue := fw_queue (fst s'), fw_taken := fw_taken (fst s'), fw_takes := fw_takes (fst s')\<rparr> \<and>
     (\<exists>cs. fw_pushed (fst s') = fw_pushed (fst s) @ map Some cs \<and> list_all2 (carries (fw_mem (fst s'))) cs ds) \<and>
     grown (fw_mem (fst s)) (fw_mem (fst s')) (240 * length ds) \<and>
     (\<forall>n. queue_room (length ds + n) (fst s) \<longrightarrow> queue_room n (fst s'))"

lemma pushed_start: "mem_ok (fw_mem (fst s)) \<Longrightarrow> pushed s [] s"
  by (simp add: pushed_def grown_refl)

lemma pushed_tables:
  assumes "tables_ok (fw_mem (fst s)) (fg_ecs (snd s))" and "pushed s ds s'"
  shows "tables_ok (fw_mem (fst s')) (fg_ecs (snd s))" "cells (fw_mem (fst s')) (fg_ecs (snd s)) = cells (fw_mem (fst s)) (fg_ecs (snd s))"
    "snd s' = snd s" "os_avail (fw_mem (fst s')) + 240 * length ds = os_avail (fw_mem (fst s))"
  using assms tables_ok_grown [OF assms(1)] by (auto simp: pushed_def grown_def)

lemma pushed_sel:
  assumes "pushed s ds s'"
  shows "fw_timers (fst s') = fw_timers (fst s)" "fw_rand (fst s') = fw_rand (fst s)"
proof -
  from assms have e: "fst s' =
    (fst s)\<lparr>fw_mem := fw_mem (fst s'), fw_queue := fw_queue (fst s'), fw_taken := fw_taken (fst s'), fw_takes := fw_takes (fst s')\<rparr>"
    by (simp add: pushed_def)
  show "fw_timers (fst s') = fw_timers (fst s)" "fw_rand (fst s') = fw_rand (fst s)" by (subst e, simp)+
qed

lemma pushed_room: "pushed s ds s' \<Longrightarrow> queue_room (length ds + n) (fst s) \<Longrightarrow> queue_room n (fst s')"
  by (simp add: pushed_def)

lemma pushed_snoc:
  assumes "pushed s ds s1" and "mem_ok (fw_mem (fst s1))" and "grown (fw_mem (fst s1)) (fw_mem w) 240" and "carries (fw_mem w) c d"
    and after: "after_push ((fst s1)\<lparr>fw_mem := fw_mem w\<rparr>) c w"
  shows "pushed s (ds @ [d]) (w, snd s1)"
proof -
  from assms(1) obtain cs where 1: "fw_pushed (fst s1) = fw_pushed (fst s) @ map Some cs" "list_all2 (carries (fw_mem (fst s1))) cs ds"
    and g: "grown (fw_mem (fst s)) (fw_mem (fst s1)) (240 * length ds)" and same: "snd s1 = snd s"
    and w1: "fst s1 = (fst s)\<lparr>fw_mem := fw_mem (fst s1), fw_queue := fw_queue (fst s1), fw_taken := fw_taken (fst s1), fw_takes := fw_takes (fst s1)\<rparr>"
    and room: "\<And>n. queue_room (length ds + n) (fst s) \<Longrightarrow> queue_room n (fst s1)" unfolding pushed_def by blast
  have "list_all2 (carries (fw_mem w)) cs ds"
    using 1(2) by (rule list_all2_mono) (use carries_grown assms(2,3) in auto)
  then have "list_all2 (carries (fw_mem w)) (cs @ [c]) (ds @ [d])" using assms(4) by (simp add: list_all2_appendI)
  moreover have "fw_pushed w = fw_pushed (fst s) @ map Some (cs @ [c])" using after 1(1) by (simp add: after_push_def)
  moreover have "grown (fw_mem (fst s)) (fw_mem w) (240 * length (ds @ [d]))"
    using grown_trans [OF g assms(3)] by (simp add: add.commute)
  moreover have "w = (fst s)\<lparr>fw_mem := fw_mem w, fw_queue := fw_queue w, fw_taken := fw_taken w, fw_takes := fw_takes w\<rparr>"
  proof -
    have "w = (fst s1)\<lparr>fw_mem := fw_mem w, fw_queue := fw_queue w, fw_taken := fw_taken w, fw_takes := fw_takes w\<rparr>"
      using after by (simp add: after_push_def)
    also have "\<dots> = (fst s)\<lparr>fw_mem := fw_mem w, fw_queue := fw_queue w, fw_taken := fw_taken w, fw_takes := fw_takes w\<rparr>"
      by (subst w1) simp
    finally show ?thesis .
  qed
  moreover have "queue_room n w" if "queue_room (length (ds @ [d]) + n) (fst s)" for n
    using room [of "Suc n"] that after by (simp add: after_push_def)
  ultimately show ?thesis unfolding pushed_def using same by (intro conjI exI [of _ "cs @ [c]"] allI impI) simp_all
qed

lemma length_matrix: "length (concat (transform_to_matrix t)) = 16"
  by (simp add: transform_to_matrix_def Let_def)

lemma draw_model_follows:
  assumes ok: "tables_ok (fw_mem (fst s)) (fg_ecs (snd s))" and types: "types_ok (snd s)" and i: "i < k_max_entities"
    and camera: "camera < k_max_entities" and model: "has_model (cells (fw_mem (fst s)) (fg_ecs (snd s))) i"
    and room: "240 \<le> os_avail (fw_mem (fst s))" and place: "queue_room (Suc 0) (fst s)"
  obtains w c where "draw_model E (Some (cell_ptr (fg_ecs (snd s)) 1 camera)) \<lparr>q_component_mask = k, q_entity = int i\<rparr> s = Inr (w, snd s)"
    "grown (fw_mem (fst s)) (fw_mem w) 240" "after_push ((fst s)\<lparr>fw_mem := fw_mem w\<rparr>) c w"
    "carries (fw_mem w) c (drawing_of (en_floats E) (fg_ecs (snd s)) (cells (fw_mem (fst s)) (fg_ecs (snd s))) camera i)"
proof -
  let ?R = "en_floats E" and ?e = "fg_ecs (snd s)" and ?m = "fw_mem (fst s)" and ?q = "\<lparr>q_component_mask = k, q_entity = int i\<rparr>"
  let ?c = "cells (fw_mem (fst s)) (fg_ecs (snd s))"
  have q: "query_component s ?q (transform_type (snd s)) = Inr (Some (cell_ptr ?e 0 i))"
    "query_component s ?q (model_type (snd s)) = Inr (Some (cell_ptr ?e 2 i))"
    using query_cell [OF ok, of 0 i] query_cell [OF ok, of 2 i] i types by (simp_all add: types_ok_def)
  have len: "length (?c 1 camera) = 128" "length (?c 2 i) = 16"
    using length_cells [OF ok _ camera] length_cells [OF ok _ i] by simp_all
  have r: "mem_read ?m (Some (cell_ptr ?e 1 camera)) sizeof_camera_component_t = Inr (?c 1 camera)"
    "mem_read ?m (Some (cell_ptr ?e 2 i)) sizeof_model_component_t = Inr (?c 2 i)"
    using read_cell [OF ok _ camera, of 1 0 128] read_cell [OF ok _ i, of 2 0 16] len
    by (simp_all add: sizeof_camera_component_t_def sizeof_model_component_t_def)
  have ref: "ecs_query_get_entity ?e ?q = Inr \<lparr>ref_entity = int i, ref_sequence = sequences ?e ! i\<rparr>"
    using tables_ok_shape [OF ok] i by (simp add: ecs_query_get_entity_def ecs_shape_def)
  have ul: "length (uniforms ?R ?c camera i) = 192" using len length_matrix by (simp add: uniforms_def)
  then have ne: "uniforms ?R ?c camera i \<noteq> []" by auto
  from model obtain mesh shader where ms: "model_at ?c i = (Some mesh, Some shader)"
    by (cases "model_at ?c i") (auto simp: has_model_def)
  have "mem_ok ?m" using ok by (simp add: tables_ok_def)
  from model_command_carries [OF this ne, of "\<lparr>ref_entity = int i, ref_sequence = sequences ?e ! i\<rparr>" mesh shader] room ul
  obtain m c where mc: "model_command ?m \<lparr>ref_entity = int i, ref_sequence = sequences ?e ! i\<rparr> mesh shader (uniforms ?R ?c camera i) = Inr (m, c)"
    "grown ?m m 240" "carries m c (\<lparr>ref_entity = int i, ref_sequence = sequences ?e ! i\<rparr>, mesh, shader, uniforms ?R ?c camera i)"
    by auto
  from place have "queue_room (Suc 0) ((fst s)\<lparr>fw_mem := m\<rparr>)" by simp
  from push_command_room [OF this, of c] obtain w where
    w: "push_command c ((fst s)\<lparr>fw_mem := m\<rparr>) = Inr w" "after_push ((fst s)\<lparr>fw_mem := m\<rparr>) c w" .
  have wm: "fw_mem w = m" using after_push_sel(1) [OF w(2)] by simp
  have "draw_model E (Some (cell_ptr ?e 1 camera)) ?q s =
      push_model \<lparr>ref_entity = int i, ref_sequence = sequences ?e ! i\<rparr> (?c 2 i) (uniforms ?R ?c camera i) s"
    by (simp add: draw_model_def Let_def q ref r read_slot [OF ok i] uniforms_def del: One_nat_def)
  also have "\<dots> = Inr (w, snd s)"
    using ms mc(1) w(1) by (cases s) (simp add: push_model_def model_at_def)
  finally show thesis using that [of w c] mc(2,3) ms w(2) by (simp add: drawing_of_def wm)
qed

lemma push_model_keeps: "push_model ref model data s = Inr s' \<Longrightarrow> snd s' = snd s"
  by (cases s) (auto simp: push_model_def bind_ok_Inr_iff split: option.split_asm)

lemma draw_model_keeps: "draw_model E cp q s = Inr s' \<Longrightarrow> snd s' = snd s"
  unfolding draw_model_def Let_def by (auto simp: bind_ok_Inr_iff intro: push_model_keeps)

lemma draw_camera_keeps: "draw_camera E q s = Inr s' \<Longrightarrow> snd s' = snd s"
  unfolding draw_camera_def by (auto simp: bind_ok_Inr_iff intro: game_loop_keeps [OF draw_model_keeps])

text \<open>\<open>ds\<close> have been drawn; the models of one camera follow.\<close>

lemma draw_camera_follows:
  assumes ok: "tables_ok (fw_mem (fst s)) (fg_ecs (snd s))" and types: "types_ok (snd s)"
    and models: "\<And>i. i \<in> set (slots (fg_ecs (snd s)) model_mask) \<Longrightarrow> has_model (cells (fw_mem (fst s)) (fg_ecs (snd s))) i"
    and camera: "camera < k_max_entities"
    and before: "pushed s ds s1"
    and room: "240 * (length ds + length (slots (fg_ecs (snd s)) model_mask)) \<le> os_avail (fw_mem (fst s))"
    and places: "queue_room (length ds + length (slots (fg_ecs (snd s)) model_mask)) (fst s)"
  obtains s2 where "draw_camera E \<lparr>q_component_mask = camera_mask, q_entity = int camera\<rparr> s1 = Inr s2"
    "pushed s (ds @ map (drawing_of (en_floats E) (fg_ecs (snd s)) (cells (fw_mem (fst s)) (fg_ecs (snd s))) camera)
       (slots (fg_ecs (snd s)) model_mask)) s2"
proof -
  let ?e = "fg_ecs (snd s)" and ?c = "cells (fw_mem (fst s)) (fg_ecs (snd s))"
  let ?d = "drawing_of (en_floats E) ?e ?c camera"
  let ?body = "\<lambda>i. draw_model E (Some (cell_ptr ?e 1 camera)) \<lparr>q_component_mask = model_mask, q_entity = int i\<rparr>"
  define I where "I done s' \<longleftrightarrow> pushed s (ds @ map ?d done) s' \<and> length done \<le> length (slots ?e model_mask)" for "done" s'
  have "\<exists>s'. for_each_ok ?body (slots ?e model_mask) s1 = Inr s' \<and> pushed s (ds @ map ?d (slots ?e model_mask)) s'"
  proof -
    have step: "\<exists>s'. ?body i s1 = Inr s' \<and> pushed s (ds @ map ?d (done @ [i])) s'"
      if i: "i \<in> set (slots ?e model_mask)" and p: "pushed s (ds @ map ?d done) s1"
        and short: "length done < length (slots ?e model_mask)" for "done" i s1
    proof -
      note pt = pushed_tables [OF ok p]
      have len: "length (ds @ map ?d done) = length ds + length done" by simp
      have "240 * (length ds + length done) + 240 \<le> os_avail (fw_mem (fst s))"
      proof -
        have "length ds + length done + 1 \<le> length ds + length (slots ?e model_mask)" using short by simp
        from mult_le_mono2 [OF this, of 240] room show ?thesis by (simp add: distrib_left)
      qed
      then have room1: "240 \<le> os_avail (fw_mem (fst s1))" using pt(4) unfolding len by linarith
      have models1: "tables_ok (fw_mem (fst s1)) (fg_ecs (snd s1))" "types_ok (snd s1)" "has_model (cells (fw_mem (fst s1)) (fg_ecs (snd s1))) i"
        using pt(1-3) types models [OF i] by simp_all
      have "queue_room (length (ds @ map ?d done) + Suc 0) (fst s)"
        by (rule queue_room_less [OF places]) (use short in simp)
      from pushed_room [OF p this] have place: "queue_room (Suc 0) (fst s1)" .
      note follows = draw_model_follows [OF models1(1,2) slots_less [OF i] camera models1(3) room1 place, where E = E and k = model_mask, unfolded pt(2,3)]
      obtain w c where d: "?body i s1 = Inr (w, snd s)" "grown (fw_mem (fst s1)) (fw_mem w) 240"
        "after_push ((fst s1)\<lparr>fw_mem := fw_mem w\<rparr>) c w" "carries (fw_mem w) c (?d i)" by (rule follows)
      have "mem_ok (fw_mem (fst s1))" using pt(1) by (simp add: tables_ok_def)
      from pushed_snoc [OF p this d(2,4,3)] show ?thesis unfolding d(1) by (simp add: pt(3))
    qed
    have "\<exists>s'. for_each_ok ?body js s1 = Inr s' \<and> pushed s (ds @ map ?d (done @ js)) s'"
      if "set js \<subseteq> set (slots ?e model_mask)" "length done + length js \<le> length (slots ?e model_mask)"
        "pushed s (ds @ map ?d done) s1" for "done" js s1
      using that
    proof (induction js arbitrary: "done" s1)
      case (Cons i js)
      then have "i \<in> set (slots ?e model_mask)" "length done < length (slots ?e model_mask)" by simp_all
      from step [OF this(1) Cons.prems(3) this(2)] obtain s2 where
        2: "?body i s1 = Inr s2" "pushed s (ds @ map ?d (done @ [i])) s2" by blast
      have "set js \<subseteq> set (slots ?e model_mask)" "length (done @ [i]) + length js \<le> length (slots ?e model_mask)"
        using Cons.prems by simp_all
      from Cons.IH [OF this 2(2)] obtain s' where "for_each_ok ?body js s2 = Inr s'" "pushed s (ds @ map ?d ((done @ [i]) @ js)) s'"
        by blast
      with 2(1) show ?case by (intro exI [of _ s']) simp
    qed (auto intro: exI [of _ s1])
    from this [of "slots ?e model_mask" "[]" s1] before show ?thesis by simp
  qed
  moreover have "draw_camera E \<lparr>q_component_mask = camera_mask, q_entity = int camera\<rparr> s1 = for_each_ok ?body (slots ?e model_mask) s1"
  proof -
    note pt = pushed_tables [OF ok before]
    have "tables_ok (fw_mem (fst s1)) (fg_ecs (snd s1))" using pt by simp
    from query_cell [OF this, of 1 camera] camera types pt(3)
    have "query_component s1 \<lparr>q_component_mask = camera_mask, q_entity = int camera\<rparr> (camera_type (snd s1)) = Inr (Some (cell_ptr ?e 1 camera))"
      by (simp add: types_ok_def)
    moreover have "game_loop (component_mask [transform_type (snd s1), model_type (snd s1)]) (draw_model E (Some (cell_ptr ?e 1 camera))) s1 =
        for_each_ok ?body (slots ?e model_mask) s1"
      using types pt(3) by (intro game_loop_slots component_masks_of) (auto dest: draw_model_keeps)
    ultimately show ?thesis by (simp add: draw_camera_def)
  qed
  ultimately show thesis using that by auto
qed

lemma draw_models_follow:
  assumes ok: "tables_ok (fw_mem (fst s)) (fg_ecs (snd s))" and types: "types_ok (snd s)"
    and models: "\<And>i. i \<in> set (slots (fg_ecs (snd s)) model_mask) \<Longrightarrow> has_model (cells (fw_mem (fst s)) (fg_ecs (snd s))) i"
    and room: "240 * length (drawings (en_floats E) (fg_ecs (snd s)) (cells (fw_mem (fst s)) (fg_ecs (snd s)))) \<le> os_avail (fw_mem (fst s))"
    and places: "queue_room (length (drawings (en_floats E) (fg_ecs (snd s)) (cells (fw_mem (fst s)) (fg_ecs (snd s))))) (fst s)"
  obtains s' where "draw_models E s = Inr s'" "pushed s (drawings (en_floats E) (fg_ecs (snd s)) (cells (fw_mem (fst s)) (fg_ecs (snd s)))) s'"
proof -
  let ?e = "fg_ecs (snd s)" and ?c = "cells (fw_mem (fst s)) (fg_ecs (snd s))"
  let ?ds = "\<lambda>cs. concat (map (\<lambda>camera. map (drawing_of (en_floats E) ?e ?c camera) (slots ?e model_mask)) cs)"
  let ?body = "\<lambda>i. draw_camera E \<lparr>q_component_mask = camera_mask, q_entity = int i\<rparr>"
  have len: "length (?ds cs) = length cs * length (slots ?e model_mask)" for cs by (induction cs) simp_all
  have "\<exists>s'. for_each_ok ?body js s1 = Inr s' \<and> pushed s (?ds (done @ js)) s'"
    if "done @ js = slots ?e camera_mask" "pushed s (?ds done) s1" for "done" js s1
    using that
  proof (induction js arbitrary: "done" s1)
    case (Cons i js)
    have i: "i < k_max_entities" using Cons.prems(1) slots_less [of i ?e camera_mask] by (metis in_set_conv_decomp)
    have le: "length (?ds done) + length (slots ?e model_mask) \<le> length (?ds (slots ?e camera_mask))"
      unfolding len Cons.prems(1) [symmetric] by simp
    then have "240 * (length (?ds done) + length (slots ?e model_mask)) \<le> os_avail (fw_mem (fst s))"
      using mult_le_mono2 [of _ _ 240] room unfolding drawings_def by (meson order_trans)
    moreover have "queue_room (length (?ds done) + length (slots ?e model_mask)) (fst s)"
      using queue_room_less [OF places] le unfolding drawings_def .
    ultimately obtain s2 where
      2: "?body i s1 = Inr s2" "pushed s (?ds done @ map (drawing_of (en_floats E) ?e ?c i) (slots ?e model_mask)) s2"
      using draw_camera_follows [OF ok types models i Cons.prems(2)] by blast
    from Cons.IH [of "done @ [i]" s2] Cons.prems(1) 2(2) obtain s' where "for_each_ok ?body js s2 = Inr s'" "pushed s (?ds (done @ i # js)) s'"
      by auto
    with 2(1) show ?case by (intro exI [of _ s']) simp
  qed (auto intro: exI [of _ s1])
  from this [of "[]" "slots ?e camera_mask" s] pushed_start [of s] ok obtain s' where
    "for_each_ok ?body (slots ?e camera_mask) s = Inr s'" "pushed s (?ds (slots ?e camera_mask)) s'"
    by (auto simp: tables_ok_def)
  moreover have "draw_models E s = for_each_ok ?body (slots ?e camera_mask) s"
    unfolding draw_models_def by (rule game_loop_slots [OF component_masks_of(3) [OF types]]) (auto dest: draw_camera_keeps)
  ultimately show thesis using that by (simp add: drawings_def)
qed

section \<open>The frame\<close>

text \<open>What a frame needs and keeps: the tables, the types, the game's timer, no entity that is both player and block,
  and a mesh and a shader for every entity with a model.\<close>

definition can_run :: "('d, 't) frogger_state \<Rightarrow> bool" where
  "can_run s \<longleftrightarrow> tables_ok (fw_mem (fst s)) (fg_ecs (snd s)) \<and> types_ok (snd s) \<and>
     (\<exists>x. fw_timers (fst s) (fst (fg_timer (snd s))) = Some x \<and> to_parent x = None) \<and>
     (\<forall>i < k_max_entities. component_masks (fg_ecs (snd s)) ! i AND player_mask = player_mask \<longrightarrow>
        component_masks (fg_ecs (snd s)) ! i AND block_mask \<noteq> block_mask) \<and>
     (\<forall>i < k_max_entities. component_masks (fg_ecs (snd s)) ! i AND model_mask = model_mask \<longrightarrow>
        has_model (cells (fw_mem (fst s)) (fg_ecs (snd s))) i)"

definition frame_speed_at :: "('a::linordered_field, 'd, 't) frogger_env \<Rightarrow> u64 \<Rightarrow> ('d, 't) frogger_state \<Rightarrow> 'a outcome" where
  "frame_speed_at E now s =
     bind_ok (timer_object_update (en_fp E) (fw_timers (fst s)) now (fst (fg_timer (snd s)))) (\<lambda>ts.
     frame_speed E ((fst s)\<lparr>fw_timers := ts\<rparr>, snd s))"

text \<open>The rules of one frame.\<close>

definition frame_rule :: "('a::linordered_field, 'd, 't) frogger_env \<Rightarrow> 'a \<Rightarrow> u32 \<Rightarrow> ecs_t \<Rightarrow> 'a field \<Rightarrow> 'a field" where
  "frame_rule E speed keys e f =
     fold (player_step (en_floats E) speed keys (slots e block_mask)) (slots e player_mask)
       (fold (block_step E speed) (slots e block_mask) f)"

lemma ecs_update_tables [simp]:
  "table (ecs_update e) = table e" "cells m (ecs_update e) = cells m e" "tables_ok m (ecs_update e) = tables_ok m e"
  by (auto simp: table_def cells_def tables_ok_def ecs_update_def ecs_shape_def fun_eq_iff)

lemma timer_runs:
  assumes "ts t = Some x" and "to_parent x = None"
  obtains ts' y where "timer_object_update F ts now t = Inr ts'" "ts' t = Some y" "to_parent y = None"
  using assms that by (cases "to_paused x") (auto simp: timer_object_update_def with_timer_def base_ticks_def Let_def)

lemma frame_speed_defined:
  "fw_timers (fst s) (fst (fg_timer (snd s))) = Some x \<Longrightarrow> \<exists>speed. frame_speed E s = Inr speed"
  unfolding frame_speed_def timer_object_get_delta_ms_def with_timer_def split_def by (simp only: option.case bind_ok_simps) blast

lemma masks_of_slots: "i \<in> set (slots e cm) \<Longrightarrow> component_masks e ! i AND cm = cm"
  by (simp add: slots_def query_matches_def)

lemma can_run_masks:
  assumes "can_run s"
  shows "set (slots (ecs_update (fg_ecs (snd s))) player_mask) \<inter> set (slots (ecs_update (fg_ecs (snd s))) block_mask) = {}"
    "i \<in> set (slots (ecs_update (fg_ecs (snd s))) model_mask) \<Longrightarrow> has_model (cells (fw_mem (fst s)) (fg_ecs (snd s))) i"
proof -
  have cm: "component_masks (ecs_update (fg_ecs (snd s))) = component_masks (fg_ecs (snd s))" by (simp add: ecs_update_def)
  show "i \<in> set (slots (ecs_update (fg_ecs (snd s))) model_mask) \<Longrightarrow> has_model (cells (fw_mem (fst s)) (fg_ecs (snd s))) i"
    using assms slots_less masks_of_slots unfolding can_run_def cm [symmetric] by blast
  show "set (slots (ecs_update (fg_ecs (snd s))) player_mask) \<inter> set (slots (ecs_update (fg_ecs (snd s))) block_mask) = {}"
    using assms slots_less masks_of_slots unfolding can_run_def cm [symmetric] by blast
qed

lemma has_model_cong: "c 2 = c' 2 \<Longrightarrow> has_model c = has_model c'"
  by (simp add: has_model_def model_at_def fun_eq_iff)

lemma length_drawings: "length (drawings R e c) = length (slots e camera_mask) * length (slots e model_mask)"
proof -
  have "length (concat (map (\<lambda>camera. map (f camera) ys) xs)) = length xs * length ys" for f :: "nat \<Rightarrow> nat \<Rightarrow> drawing" and xs ys
    by (induction xs) simp_all
  then show ?thesis by (simp add: drawings_def)
qed

lemma push_done_follows:
  assumes "mem_ok (fw_mem (fst s))" and "4 \<le> os_avail (fw_mem (fst s))" and place: "queue_room (Suc 0) (fst s)"
  obtains w p where "push_done s = Inr (w, snd s)" "grown (fw_mem (fst s)) (fw_mem w) 4"
    "after_push ((fst s)\<lparr>fw_mem := fw_mem w\<rparr>) (Command_frame_done p) w"
proof -
  let ?p = "(next_block (fw_mem (fst s)), 0)"
  from alloc_grown [OF assms(1), of 4 8] assms(2) obtain m where
    m: "heap_alloc (fw_mem (fst s)) 4 8 = (m, Some ?p)" "grown (fw_mem (fst s)) m 4" by auto
  from place have "queue_room (Suc 0) ((fst s)\<lparr>fw_mem := m\<rparr>)" by simp
  from push_command_room [OF this, of "Command_frame_done ?p"] obtain w where
    w: "push_command (Command_frame_done ?p) ((fst s)\<lparr>fw_mem := m\<rparr>) = Inr w"
      "after_push ((fst s)\<lparr>fw_mem := m\<rparr>) (Command_frame_done ?p) w" .
  have wm: "fw_mem w = m" using after_push_sel(1) [OF w(2)] by simp
  have "push_done s = Inr (w, snd s)"
    using m(1) w(1) by (cases s) (simp add: push_done_def alloc_command_def sizeof_frame_done_command_t_def)
  from that [OF this] m(2) w(2) show thesis by (simp add: wm)
qed

text \<open>The frame up to the players.\<close>

lemma frame_blocks:
  assumes run: "can_run s" and e: "e = ecs_update (fg_ecs (snd s))"
  obtains ts speed s0 s1 where "timer_object_update (en_fp E) (fw_timers (fst s)) now (fst (fg_timer (snd s))) = Inr ts"
    "s0 = ((fst s)\<lparr>fw_timers := ts\<rparr>, (snd s)\<lparr>fg_ecs := e\<rparr>)" "update_blocks E s0 = Inr s1" "same_but {0, 4} s0 s1"
    "frame_speed E s1 = Inr speed" "tables_ok (fw_mem (fst s1)) e" "types_ok (snd s1)" "snd s1 = (snd s)\<lparr>fg_ecs := e\<rparr>"
    "frame_speed_at E now s = Inr speed" "field_of E s1 = fold (block_step E speed) (slots e block_mask) (field_of E s)"
    "\<exists>y. ts (fst (fg_timer (snd s))) = Some y \<and> to_parent y = None" "tables_ok (fw_mem (fst s0)) e"
proof -
  obtain w g where s: "s = (w, g)" by (cases s)
  have ok: "tables_ok (fw_mem w) (fg_ecs g)" and types: "types_ok g" using run by (simp_all add: can_run_def s)
  from run obtain x where x: "fw_timers w (fst (fg_timer g)) = Some x" "to_parent x = None" by (auto simp: can_run_def s)
  from timer_runs [of "fw_timers w" "fst (fg_timer g)", OF x, of "en_fp E" now] obtain ts y where
    ts: "timer_object_update (en_fp E) (fw_timers w) now (fst (fg_timer g)) = Inr ts" "ts (fst (fg_timer g)) = Some y" "to_parent y = None" by blast
  define s0 where "s0 = (w\<lparr>fw_timers := ts\<rparr>, g\<lparr>fg_ecs := e\<rparr>)"
  have sel0: "fw_mem (fst s0) = fw_mem w" "fg_ecs (snd s0) = e" "snd s0 = g\<lparr>fg_ecs := e\<rparr>" by (simp_all add: s0_def)
  have cells_e: "cells m e = cells m (fg_ecs g)" for m by (simp add: e s)
  have ok0: "tables_ok (fw_mem (fst s0)) (fg_ecs (snd s0))" and types0: "types_ok (snd s0)"
    using ok types by (simp_all add: sel0 e s types_ok_def)
  obtain speed where sp: "frame_speed E s0 = Inr speed"
    using frame_speed_defined [of s0 y E] ts(2) by (auto simp: s0_def)
  from update_blocks_follow [OF ok0 types0 sp] obtain s1 where
    1: "update_blocks E s0 = Inr s1" "same_but {0, 4} s0 s1" "field_of E s1 = fold (block_step E speed) (slots e block_mask) (field_of E s0)"
    by (auto simp: sel0)
  have g1: "snd s1 = g\<lparr>fg_ecs := e\<rparr>" using 1(2) by (simp add: same_but_def sel0)
  show thesis
  proof (rule that [of ts s0 s1 speed])
    show "timer_object_update (en_fp E) (fw_timers (fst s)) now (fst (fg_timer (snd s))) = Inr ts" using ts(1) by (simp add: s)
    show "frame_speed E s1 = Inr speed" using same_but_speed [OF 1(2), of E] sp by simp
    show "tables_ok (fw_mem (fst s1)) e" using same_but_tables [OF 1(2) ok0] by (simp add: g1)
    show "types_ok (snd s1)" using types by (simp add: g1 types_ok_def)
    show "frame_speed_at E now s = Inr speed" using sp ts(1) by (simp add: frame_speed_at_def s s0_def frame_speed_def)
    have "field_of E s0 = field_of E s" by (simp add: field_of_def s0_def s cells_e)
    then show "field_of E s1 = fold (block_step E speed) (slots e block_mask) (field_of E s)" using 1(3) by simp
    show "tables_ok (fw_mem (fst s0)) e" using ok0 by (simp add: sel0)
  qed (use 1 g1 ts in \<open>simp_all add: s s0_def\<close>)
qed

lemma frame_follows:
  assumes run: "can_run s" and nb: "no_buttons (wm_get_mouse_mask (fw_window (fst s)))"
    and e: "e = ecs_update (fg_ecs (snd s))"
    and room: "240 * (length (slots e camera_mask) * length (slots e model_mask)) + 4 \<le> os_avail (fw_mem (fst s))"
    and places: "queue_room (length (slots e camera_mask) * length (slots e model_mask) + 1) (fst s)"
  obtains speed s' cs p where "frame_speed_at E now s = Inr speed" "frogger_game_update E now s = Inr s'" "can_run s'"
    "snd s' = (snd s)\<lparr>fg_ecs := e\<rparr>" "field_of E s' = frame_rule E speed (wm_get_key_mask (fw_window (fst s))) e (field_of E s)"
    "fw_pushed (fst s') = fw_pushed (fst s) @ map Some (cs @ [Command_frame_done p])"
    "list_all2 (carries (fw_mem (fst s'))) cs (drawings (en_floats E) e (cells (fw_mem (fst s')) e))"
    "\<And>ty. ty \<notin> {0, 4} \<Longrightarrow> cells (fw_mem (fst s')) e ty = cells (fw_mem (fst s)) e ty"
    "os_avail (fw_mem (fst s')) + 240 * length cs + 4 = os_avail (fw_mem (fst s))"
    "\<And>q k. block_size (fw_mem (fst s)) q = Some k \<Longrightarrow> block_size (fw_mem (fst s')) q = Some k"
proof -
  obtain w g where s: "s = (w, g)" by (cases s)
  have types: "types_ok g" using run by (simp add: can_run_def s)
  obtain ts speed s0 s1 where
    0: "timer_object_update (en_fp E) (fw_timers (fst s)) now (fst (fg_timer (snd s))) = Inr ts"
      "s0 = ((fst s)\<lparr>fw_timers := ts\<rparr>, (snd s)\<lparr>fg_ecs := e\<rparr>)" and 1: "update_blocks E s0 = Inr s1" "same_but {0, 4} s0 s1"
    and sp1: "frame_speed E s1 = Inr speed" and ok1': "tables_ok (fw_mem (fst s1)) e" and types1: "types_ok (snd s1)"
    and g1: "snd s1 = (snd s)\<lparr>fg_ecs := e\<rparr>" and sp_at: "frame_speed_at E now s = Inr speed"
    and f1: "field_of E s1 = fold (block_step E speed) (slots e block_mask) (field_of E s)"
    and timer: "\<exists>y. ts (fst (fg_timer (snd s))) = Some y \<and> to_parent y = None" and ok0': "tables_ok (fw_mem (fst s0)) e"
    by (rule frame_blocks [OF run e])
  have ts1: "timer_object_update (en_fp E) (fw_timers w) now (fst (fg_timer g)) = Inr ts" using 0(1) by (simp add: s)
  have s0_def: "s0 = (w\<lparr>fw_timers := ts\<rparr>, g\<lparr>fg_ecs := e\<rparr>)" by (simp add: 0(2) s)
  have sel0: "fw_mem (fst s0) = fw_mem w" "fg_ecs (snd s0) = e" "fw_window (fst s0) = fw_window w" "snd s0 = g\<lparr>fg_ecs := e\<rparr>"
    "fw_timers (fst s0) = ts" "fw_pushed (fst s0) = fw_pushed w" "queue_room n (fst s0) = queue_room n w" for n by (simp_all add: s0_def)
  have cells_e: "cells m e = cells m (fg_ecs g)" for m by (simp add: e s)
  have ok1: "tables_ok (fw_mem (fst s1)) (fg_ecs (snd s1))" and ok0: "tables_ok (fw_mem (fst s0)) (fg_ecs (snd s0))"
    using ok1' ok0' by (simp_all add: g1 sel0)
  have w1: "fw_window (fst s1) = fw_window w" using 1(2) by (auto simp: sel0 elim: same_but_world)
  note masks = can_run_masks [OF run, folded e]
  have "types_ok (snd s1)" "no_buttons (wm_get_mouse_mask (fw_window (fst s1)))"
    "set (slots (fg_ecs (snd s1)) player_mask) \<inter> set (slots (fg_ecs (snd s1)) block_mask) = {}"
    using types1 nb masks(1) w1 by (simp_all add: g1 s)
  from update_players_follow [OF ok1 this(1) sp1 this(2,3)] obtain s2 where
    2: "update_players E s1 = Inr s2" "same_but {0} s1 s2"
      "field_of E s2 = fold (player_step (en_floats E) speed (wm_get_key_mask (fw_window w)) (slots e block_mask)) (slots e player_mask) (field_of E s1)"
    by (auto simp: sel0 g1 w1)
  have sb: "same_but {0, 4} s0 s2" by (rule same_but_trans [OF 1(2) same_but_mono [OF 2(2)]]) simp
  have g2: "snd s2 = g\<lparr>fg_ecs := e\<rparr>" using sb by (simp add: same_but_def sel0)
  have ok2: "tables_ok (fw_mem (fst s2)) (fg_ecs (snd s2))" by (rule same_but_tables [OF sb ok0])
  have c2: "cells (fw_mem (fst s2)) e ty = cells (fw_mem w) e ty" if "ty \<notin> {0, 4}" for ty
    using sb that by (simp add: same_but_def sel0)
  have avail2: "os_avail (fw_mem (fst s2)) = os_avail (fw_mem w)" using sb by (simp add: same_but_def only_tables_def sel0)
  have "has_model (cells (fw_mem (fst s2)) e) = has_model (cells (fw_mem w) e)" by (rule has_model_cong) (simp add: c2)
  then have models: "has_model (cells (fw_mem (fst s2)) (fg_ecs (snd s2))) i" if "i \<in> set (slots (fg_ecs (snd s2)) model_mask)" for i
    using masks(2) that by (simp add: g2 cells_e s)
  have room2: "240 * length (drawings (en_floats E) (fg_ecs (snd s2)) (cells (fw_mem (fst s2)) (fg_ecs (snd s2)))) \<le> os_avail (fw_mem (fst s2))"
    using room by (simp add: length_drawings g2 avail2 s)
  have types2: "types_ok (snd s2)" using types by (simp add: g2 types_ok_def)
  obtain m2 k2 where w2: "fst s2 = (fst s0)\<lparr>fw_mem := m2, fw_rand := k2\<rparr>" using sb by (rule same_but_world)
  then have pushed2: "fw_pushed (fst s2) = fw_pushed w" and places2: "queue_room n (fst s2) = queue_room n w" for n
    by (simp_all add: sel0)
  have "queue_room (length (drawings (en_floats E) (fg_ecs (snd s2)) (cells (fw_mem (fst s2)) (fg_ecs (snd s2))))) (fst s2)"
    using queue_room_less [OF places] by (simp add: length_drawings g2 places2 s)
  from draw_models_follow [OF ok2 types2 models room2 this] obtain s3 where
    3: "draw_models E s2 = Inr s3" "pushed s2 (drawings (en_floats E) e (cells (fw_mem (fst s2)) e)) s3"
    by (auto simp: g2)
  note p3 = pushed_tables [OF ok2 3(2)]
  have ok3: "tables_ok (fw_mem (fst s3)) e" using p3(1) by (simp add: g2)
  from 3(2) obtain cs where s3: "fw_pushed (fst s3) = fw_pushed (fst s2) @ map Some cs"
    and cs: "list_all2 (carries (fw_mem (fst s3))) cs (drawings (en_floats E) e (cells (fw_mem (fst s2)) e))"
    and g3: "grown (fw_mem (fst s2)) (fw_mem (fst s3)) (240 * length (drawings (en_floats E) e (cells (fw_mem (fst s2)) e)))"
    unfolding pushed_def by blast
  have lcs: "length cs = length (slots e camera_mask) * length (slots e model_mask)"
    using cs by (simp add: list_all2_lengthD length_drawings)
  have avail3: "os_avail (fw_mem (fst s3)) + 240 * length cs = os_avail (fw_mem w)"
    using p3(4) by (simp add: length_drawings g2 avail2 lcs)
  have "queue_room (length (drawings (en_floats E) e (cells (fw_mem (fst s2)) e)) + Suc 0) (fst s2)"
    using places by (simp add: length_drawings places2 s)
  from pushed_room [OF 3(2) this] have place3: "queue_room (Suc 0) (fst s3)" .
  have "mem_ok (fw_mem (fst s3))" "4 \<le> os_avail (fw_mem (fst s3))"
    using ok3 room avail3 unfolding lcs s by (simp_all add: tables_ok_def)
  from push_done_follows [OF this place3] obtain w4 p where
    4: "push_done s3 = Inr (w4, snd s3)" "grown (fw_mem (fst s3)) (fw_mem w4) 4"
      "after_push ((fst s3)\<lparr>fw_mem := fw_mem w4\<rparr>) (Command_frame_done p) w4" by blast
  define s' where "s' = (w4, snd s3)"
  note t4 = tables_ok_grown [OF ok3 4(2)]
  have cells': "cells (fw_mem w4) e = cells (fw_mem (fst s2)) e" using t4(2) p3(2) by (simp add: g2)
  have sel': "fw_mem (fst s') = fw_mem w4" "snd s' = g\<lparr>fg_ecs := e\<rparr>"
    "fw_pushed (fst s') = fw_pushed w @ map Some (cs @ [Command_frame_done p])"
    "fw_timers (fst s') = ts" "fw_rand (fst s') = fw_rand (fst s2)"
    using after_push_sel(2,3) [OF 4(3)] pushed_sel [OF 3(2)] 4(3) s3 p3(3) pushed2
    by (simp_all add: s'_def w2 sel0 g2 after_push_def)
  show thesis
  proof (rule that [of speed s' cs p])
    show "frame_speed_at E now s = Inr speed" by (rule sp_at)
    show "frogger_game_update E now s = Inr s'"
      using ts1 1(1) 2(1) 3(1) 4(1) by (simp add: frogger_game_update_def s s'_def s0_def e)
    show "snd s' = (snd s)\<lparr>fg_ecs := e\<rparr>" by (simp add: sel' s)
    have "field_of E s' = field_of E s2" by (simp add: field_of_def sel' g2 cells')
    then show "field_of E s' = frame_rule E speed (wm_get_key_mask (fw_window (fst s))) e (field_of E s)"
      using f1 2(3) by (simp add: frame_rule_def s)
    show "fw_pushed (fst s') = fw_pushed (fst s) @ map Some (cs @ [Command_frame_done p])" by (simp add: sel' s)
    show "list_all2 (carries (fw_mem (fst s'))) cs (drawings (en_floats E) e (cells (fw_mem (fst s')) e))"
      unfolding sel' cells' using cs
      by (rule list_all2_mono) (use carries_grown [OF _ 4(2)] ok3 in \<open>auto simp: tables_ok_def\<close>)
    show same: "cells (fw_mem (fst s')) e ty = cells (fw_mem (fst s)) e ty" if "ty \<notin> {0, 4}" for ty
      using c2 [OF that] by (simp add: sel' cells' s)
    show "os_avail (fw_mem (fst s')) + 240 * length cs + 4 = os_avail (fw_mem (fst s))"
      using avail3 4(2) by (simp add: sel' s grown_def)
    show "block_size (fw_mem (fst s')) q = Some k" if "block_size (fw_mem (fst s)) q = Some k" for q k
    proof -
      have "block_size (fw_mem (fst s2)) q = Some k" using that sb by (simp add: same_but_def only_tables_def sel0 s)
      from block_size_grown [OF _ g3 this] ok2 have "block_size (fw_mem (fst s3)) q = Some k" by (simp add: tables_ok_def)
      moreover have "mem_ok (fw_mem (fst s3))" using g3 by (simp add: grown_def)
      ultimately show ?thesis using block_size_grown 4(2) unfolding sel' by blast
    qed
    have "has_model (cells (fw_mem w4) e) = has_model (cells (fw_mem w) (fg_ecs g))"
      by (rule has_model_cong) (use same [of 2] in \<open>simp add: sel' s cells_e\<close>)
    then show "can_run s'"
      using run t4(1) types timer unfolding can_run_def sel' by (auto simp: s e types_ok_def ecs_update_def)
  qed
qed

end
