(* ===== verification/Frogger_Props.thy ===== *)
theory Frogger_Props
  imports Frogger_Frame
begin

text \<open>
  What the rules of the game keep: the blocks stay in their rows, between their ends, with widths from 4
  to 12; a player that is hit is back at the start, where nothing can hit it; and no frame runs into a
  fault, whatever keys are held and whatever the other threads do to their own memory in between.
\<close>

section \<open>Rounding and random numbers\<close>

text \<open>Of the representation: integers up to \<open>2\<^sup>2\<^sup>4\<close> are exact, rounding is monotone and what is rounded stays.\<close>

definition float_contract :: "'a::linordered_field float_rep \<Rightarrow> bool" where
  "float_contract R \<longleftrightarrow>
     (\<forall>k. \<bar>k\<bar> \<le> 2 ^ 24 \<longrightarrow> rounded R (of_int k) = of_int k) \<and>
     (\<forall>x y. - (2 ^ 24) \<le> x \<longrightarrow> x \<le> y \<longrightarrow> y \<le> 2 ^ 24 \<longrightarrow> rounded R x \<le> rounded R y) \<and>
     (\<forall>x. \<bar>x\<bar> \<le> 2 ^ 24 \<longrightarrow> rounded R (rounded R x) = rounded R x)"

definition rand_contract :: "('a, 'd, 't) frogger_env \<Rightarrow> bool" where
  "rand_contract E \<longleftrightarrow> 0 < en_rand_max E \<and> (\<forall>n. en_rand E n \<le> en_rand_max E)"

lemma rounded_int: "float_contract R \<Longrightarrow> \<bar>k\<bar> \<le> 2 ^ 24 \<Longrightarrow> rounded R (of_int k) = of_int k"
  and rounded_mono: "float_contract R \<Longrightarrow> - (2 ^ 24) \<le> x \<Longrightarrow> x \<le> y \<Longrightarrow> y \<le> 2 ^ 24 \<Longrightarrow> rounded R x \<le> rounded R y"
  and rounded_idem: "float_contract R \<Longrightarrow> \<bar>x\<bar> \<le> 2 ^ 24 \<Longrightarrow> rounded R (rounded R x) = rounded R x"
  unfolding float_contract_def by blast+

lemma rounded_consts:
  assumes "float_contract R"
  shows "rounded R 0 = 0" "rounded R 1 = 1" "rounded R 2 = 2" "rounded R (- 2) = - 2" "rounded R 4 = 4" "rounded R 12 = 12"
    "rounded R (- 12) = - 12"
  using rounded_int [OF assms, of 0] rounded_int [OF assms, of 1] rounded_int [OF assms, of 2] rounded_int [OF assms, of "- 2"]
    rounded_int [OF assms, of 4] rounded_int [OF assms, of 12] rounded_int [OF assms, of "- 12"] by simp_all

text \<open>What lies between two integers stays there.\<close>

lemma rounded_between:
  assumes R: "float_contract R" and a: "of_int a \<le> x" "\<bar>a\<bar> \<le> 2 ^ 24" and b: "x \<le> of_int b" "\<bar>b\<bar> \<le> 2 ^ 24"
  shows "of_int a \<le> rounded R x" "rounded R x \<le> of_int b"
proof -
  have lim: "- (2 ^ 24) \<le> (of_int k :: 'a)" "(of_int k :: 'a) \<le> 2 ^ 24" if "\<bar>k\<bar> \<le> 2 ^ 24" for k :: int
  proof -
    have "- (2 ^ 24) \<le> k" "k \<le> 2 ^ 24" using that by simp_all
    then have "(of_int (- (2 ^ 24)) :: 'a) \<le> of_int k" "(of_int k :: 'a) \<le> of_int (2 ^ 24)" by (simp_all only: of_int_le_iff)
    then show "- (2 ^ 24) \<le> (of_int k :: 'a)" "(of_int k :: 'a) \<le> 2 ^ 24" by simp_all
  qed
  have "rounded R (of_int a) \<le> rounded R x"
    by (rule rounded_mono [OF R lim(1) [OF a(2)] a(1)]) (use b(1) lim(2) [OF b(2)] in linarith)
  then show "of_int a \<le> rounded R x" using rounded_int [OF R a(2)] by simp
  have "rounded R x \<le> rounded R (of_int b)"
    by (rule rounded_mono [OF R _ b(1) lim(2) [OF b(2)]]) (use a(1) lim(1) [OF a(2)] in linarith)
  then show "rounded R x \<le> of_int b" using rounded_int [OF R b(2)] by simp
qed

lemma random_scale_range:
  assumes "rand_contract E"
  shows "4 \<le> random_scale E n" "random_scale E n \<le> 12"
proof -
  let ?q = "of_nat (en_rand E n) / of_nat (en_rand_max E) :: 'a"
  have "0 \<le> ?q" "?q \<le> 1" using assms by (simp_all add: rand_contract_def divide_le_eq_1)
  then show "4 \<le> random_scale E n" "random_scale E n \<le> 12" by (simp_all add: random_scale_def)
qed

lemma rounded_scale:
  fixes n :: nat
  assumes "float_contract (en_floats E)" and "rand_contract E"
  defines "x \<equiv> rounded (en_floats E) (random_scale E n)"
  shows "4 \<le> x" "x \<le> 12" "rounded (en_floats E) x = x"
proof -
  note r = random_scale_range [OF assms(2), of n]
  show "4 \<le> x" "x \<le> 12" using rounded_between [OF assms(1), of 4 "random_scale E n" 12] r by (simp_all add: x_def)
  have "\<bar>random_scale E n\<bar> \<le> 2 ^ 24" using r by (simp add: abs_le_iff)
  then show "rounded (en_floats E) x = x" unfolding x_def by (rule rounded_idem [OF assms(1)])
qed

section \<open>Rows\<close>

text \<open>A block in the middle row (0) or one of the outer rows (2, -2), at most \<open>d\<close> past an end.\<close>

definition block_ok :: "'a::linordered_field float_rep \<Rightarrow> nat \<Rightarrow> 'a transform_t \<Rightarrow> 'a \<Rightarrow> bool" where
  "block_ok R d t x \<longleftrightarrow> vx (translation t) = 0 \<and> vz (translation t) \<in> {2, 0, - 2} \<and>
     - (12 + of_nat d) \<le> vy (translation t) \<and> vy (translation t) \<le> 12 + of_nat d \<and>
     tscale t = vec 1 x 1 \<and> rotation t = quatf_identity \<and> 4 \<le> x \<and> x \<le> 12 \<and> rounded R x = x"

text \<open>How far a block moves in a frame, and where it comes back.\<close>

definition row_step :: "'a::linordered_field \<Rightarrow> 'a \<Rightarrow> 'a" where
  "row_step speed z = (if z > 1 then - speed else if z < - 1 then - speed * 2 else speed * (3 / 2))"

definition row_wrap :: "'a::linordered_field \<Rightarrow> 'a \<Rightarrow> 'a option" where
  "row_wrap z y = (if z = 0 \<and> y > 12 then Some (- 12) else if z \<noteq> 0 \<and> y < - 12 then Some 12 else None)"

lemma identity_move:
  assumes "rotation t = quatf_identity"
  shows "transform_multiply t (transform_identity\<lparr>translation := v\<rparr>) =
    t\<lparr>translation := vec3f_add (translation t) v\<rparr>"
  using assms
  by (simp add: transform_multiply_def Let_def transform_identity_def quatf_rotate_vec_def quatf_mul_def quatf_identity_def
      vec3f_mul_def vec3f_one_def vec3f_cross_def vec3f_scale_def vec3f_add_def vec3f_dot_def)

lemma block_rule_row:
  assumes R: "float_contract (en_floats E)" and b: "block_ok (en_floats E) d t x"
  defines "R \<equiv> en_floats E" and "z \<equiv> vz (translation t)"
  shows "block_rule E speed (t, x, n) =
    (case row_wrap z (vy (translation t)) of
       None \<Rightarrow> (\<lparr>translation = vec 0 (rounded R (vy (translation t) + row_step speed z)) z, tscale = vec 1 x 1, rotation = quatf_identity\<rparr>, x, n)
     | Some y \<Rightarrow> (let x' = rounded R (random_scale E n) in
         (\<lparr>translation = vec 0 (rounded R (y + row_step speed z)) z, tscale = vec 1 (rounded R (rounded R x')) 1, rotation = quatf_identity\<rparr>, x', Suc n)))"
proof -
  note c = rounded_consts [OF R, folded R_def]
  obtain y where t: "t = \<lparr>translation = vec 0 y z, tscale = vec 1 x 1, rotation = quatf_identity\<rparr>" and z: "z = 2 \<or> z = 0 \<or> z = - 2"
    and x: "rounded R x = x"
    using b by (cases t; cases "translation t") (auto simp: block_ok_def z_def R_def)
  have i: "rotation (\<lparr>translation = v, tscale = s, rotation = quatf_identity\<rparr> :: 'a transform_t) = quatf_identity" for v s by simp
  have q: "\<lparr>v3 = vec (rounded R (vx (v3 quatf_identity))) (rounded R (vy (v3 quatf_identity))) (rounded R (vz (v3 quatf_identity))),
      qs = rounded R (qs quatf_identity)\<rparr> = (quatf_identity :: 'a quatf_t)"
    by (simp add: quatf_identity_def c)
  note simps = block_rule_def recycled_def set_y_def set_width_def block_move_def row_wrap_def row_step_def Let_def
    identity_move [OF i] round_transform_def round_vec_def vec3f_add_def vec3f_scale_def vec3f_zero_def vec3f_right_def
  from z show ?thesis
    by (elim disjE) (simp_all add: t c x q simps flip: R_def)
qed

lemma row_bounds:
  assumes R: "float_contract R" and d: "d \<le> 2 ^ 20" and y: "- (12 + of_nat d) \<le> y" "y \<le> 12 + of_nat d"
  shows "- (12 + of_nat d) \<le> rounded R y" "rounded R y \<le> 12 + of_nat d"
proof -
  have d': "\<bar>12 + int d\<bar> \<le> 2 ^ 24" "\<bar>- (12 + int d)\<bar> \<le> 2 ^ 24" using d by simp_all
  from rounded_between [OF R, of "- (12 + int d)" y "12 + int d"] d' y
  show "- (12 + of_nat d) \<le> rounded R y" "rounded R y \<le> 12 + of_nat d" by simp_all
qed

text \<open>A frame moves a block by at most \<open>2 * speed\<close>.\<close>

lemma block_rule_ok:
  assumes R: "float_contract (en_floats E)" and rand: "rand_contract E"
    and speed: "0 \<le> speed" "2 * speed \<le> of_nat d" and d: "d \<le> 2 ^ 20"
    and b: "block_ok (en_floats E) d t x" and r: "block_rule E speed (t, x, n) = (t', x', n')"
  shows "block_ok (en_floats E) d t' x'" "vz (translation t') = vz (translation t)"
proof -
  let ?R = "en_floats E" and ?y = "vy (translation t)" and ?z = "vz (translation t)"
  have z: "?z = 2 \<or> ?z = 0 \<or> ?z = - 2" and y: "- (12 + of_nat d) \<le> ?y" "?y \<le> 12 + of_nat d"
    and x: "4 \<le> x" "x \<le> 12" "rounded ?R x = x" using b by (auto simp: block_ok_def)
  note rule = block_rule_row [OF R b, of speed n, unfolded r]
  have bound: "- (12 + of_nat d) \<le> y0 + row_step speed ?z" "y0 + row_step speed ?z \<le> 12 + of_nat d"
    if "row_wrap ?z ?y = Some y0 \<or> row_wrap ?z ?y = None \<and> y0 = ?y" for y0
    using that z y speed by (auto simp: row_wrap_def row_step_def split: if_splits)
  show "block_ok ?R d t' x'" "vz (translation t') = ?z"
  proof (atomize (full), cases "row_wrap ?z ?y")
    case None
    with rule have "t' = \<lparr>translation = vec 0 (rounded ?R (?y + row_step speed ?z)) ?z, tscale = vec 1 x 1, rotation = quatf_identity\<rparr>" "x' = x"
      by simp_all
    with None z x row_bounds [OF R d bound] show "block_ok ?R d t' x' \<and> vz (translation t') = ?z"
      by (auto simp: block_ok_def)
  next
    case (Some y0)
    define s where "s = rounded ?R (random_scale E n)"
    note s = rounded_scale [OF R rand, of n, folded s_def]
    from rule Some have "t' = \<lparr>translation = vec 0 (rounded ?R (y0 + row_step speed ?z)) ?z, tscale = vec 1 s 1, rotation = quatf_identity\<rparr>" "x' = s"
      by (simp_all add: Let_def s flip: s_def)
    with Some z s row_bounds [OF R d bound] show "block_ok ?R d t' x' \<and> vz (translation t') = ?z"
      by (auto simp: block_ok_def)
  qed
qed

text \<open>The same for all blocks of a frame; what is not in the list stays.\<close>

definition rows_ok :: "('a::linordered_field, 'd, 't) frogger_env \<Rightarrow> nat \<Rightarrow> nat set \<Rightarrow> 'a field \<Rightarrow> bool" where
  "rows_ok E d bs f \<longleftrightarrow> (\<forall>i \<in> bs. block_ok (en_floats E) d (fst f i) (fst (snd f) i))"

lemma block_steps_ok:
  assumes R: "float_contract (en_floats E)" and rand: "rand_contract E"
    and speed: "0 \<le> speed" "2 * speed \<le> of_nat d" and d: "d \<le> 2 ^ 20"
    and "set is \<subseteq> bs" and "rows_ok E d bs f"
  shows "rows_ok E d bs (fold (block_step E speed) is f) \<and>
    (\<forall>i \<in> bs. vz (translation (fst (fold (block_step E speed) is f) i)) = vz (translation (fst f i))) \<and>
    (\<forall>i. i \<notin> set is \<longrightarrow> fst (fold (block_step E speed) is f) i = fst f i)"
  using assms(6,7)
proof (induction "is" arbitrary: f)
  case (Cons i js)
  obtain T S n where f: "f = (T, S, n)" by (metis prod_cases3)
  obtain t x n' where r: "block_rule E speed (T i, S i, n) = (t, x, n')" by (metis prod_cases3)
  have i: "i \<in> bs" and js: "set js \<subseteq> bs" and b: "block_ok (en_floats E) d (T i) (S i)"
    using Cons.prems f by (auto simp: rows_ok_def)
  note step = block_rule_ok [OF R rand speed d b r]
  let ?f = "block_step E speed i f"
  have sel: "fst ?f = (fst f)(i := t)" "fst (snd ?f) = (fst (snd f))(i := x)" using r by (simp_all add: block_step_def f)
  have rows: "rows_ok E d bs ?f" using Cons.prems(2) step(1) unfolding rows_ok_def sel by simp
  from Cons.IH [OF js rows] have IH: "rows_ok E d bs (fold (block_step E speed) js ?f)"
    "\<forall>j \<in> bs. vz (translation (fst (fold (block_step E speed) js ?f) j)) = vz (translation (fst ?f j))"
    "\<forall>j. j \<notin> set js \<longrightarrow> fst (fold (block_step E speed) js ?f) j = fst ?f j" by blast+
  have "vz (translation t) = vz (translation (fst f i))" using step(2) by (simp add: f)
  with IH show ?case by (auto simp: sel)
qed simp

section \<open>Players\<close>

text \<open>A player is not scaled, not turned, and does not leave the plane of the screen.\<close>

definition player_ok :: "'a::linordered_field transform_t \<Rightarrow> bool" where
  "player_ok t \<longleftrightarrow> vx (translation t) = 0 \<and> tscale t = vec 1 1 1 \<and> rotation t = quatf_identity"

lemma player_start_simps:
  assumes "float_contract R"
  shows "player_start R = \<lparr>translation = vec 0 0 4, tscale = vec 1 1 1, rotation = quatf_identity\<rparr>"
  using rounded_consts [OF assms]
  by (simp add: player_start_def round_transform_def round_vec_def transform_identity_def vec3f_zero_def vec3f_one_def
      quatf_identity_def vec3f_add_def vec3f_scale_def vec3f_up_def)

text \<open>Every direction for itself.\<close>

definition key_step :: "'a::linordered_field \<Rightarrow> u32 \<Rightarrow> u32 \<Rightarrow> u32 \<Rightarrow> 'a" where
  "key_step speed keys back forth = (if keys AND forth \<noteq> 0 then speed else 0) - (if keys AND back \<noteq> 0 then speed else 0)"

lemma player_move_steps:
  "player_move speed keys = transform_identity\<lparr>translation :=
     vec 0 (key_step speed keys k_key_left k_key_right) (key_step speed keys k_key_up k_key_down)\<rparr>"
  by (simp add: player_move_def Let_def key_step_def vec3f_zero_def vec3f_add_def vec3f_scale_def vec3f_up_def vec3f_right_def)

text \<open>Where a player is when it moves: at the start, or where it was.\<close>

definition sent_back :: "nat list \<Rightarrow> 'a::linordered_field field \<Rightarrow> 'a transform_t \<Rightarrow> bool" where
  "sent_back bs f t \<longleftrightarrow> vz (translation t) < - 4 \<or> list_ex (hit_by t f) bs"

lemma block_misses_start:
  assumes "block_ok R d (fst f j) (fst (snd f) j)"
  shows "\<not> hit_by \<lparr>translation = vec 0 0 4, tscale = s, rotation = q\<rparr> f j"
  using assms by (cases f) (auto simp: hit_by_def block_hits_def block_ok_def)

lemma player_rule_moves:
  assumes R: "float_contract R" and t: "player_ok t"
    and blocks: "\<And>j. j \<in> set bs \<Longrightarrow> block_ok R d (fst f j) (fst (snd f) j)"
  defines "p \<equiv> (if sent_back bs f t then vec 0 0 4 else translation t)"
  shows "player_rule R speed keys bs f t = \<lparr>translation = vec 0 (rounded R (vy p + key_step speed keys k_key_left k_key_right))
      (rounded R (vz p + key_step speed keys k_key_up k_key_down)), tscale = vec 1 1 1, rotation = quatf_identity\<rparr>"
proof -
  let ?start = "\<lparr>translation = vec 0 0 4, tscale = vec 1 1 1, rotation = quatf_identity\<rparr> :: 'a transform_t"
  note c = rounded_consts [OF R]
  have t': "t = \<lparr>translation = vec 0 (vy (translation t)) (vz (translation t)), tscale = vec 1 1 1, rotation = quatf_identity\<rparr>"
    using t by (cases t; cases "translation t") (simp add: player_ok_def)
  have miss: "\<not> list_ex (hit_by ?start f) bs" using block_misses_start [OF blocks] by (auto simp: list_ex_iff)
  define t1 where "t1 = (if vz (translation t) < - 4 then ?start else t)"
  have t2: "(if list_ex (hit_by t1 f) bs then ?start else t1) = \<lparr>translation = vec 0 (vy p) (vz p), tscale = vec 1 1 1, rotation = quatf_identity\<rparr>"
    using miss t' by (auto simp: t1_def p_def sent_back_def)
  have i: "rotation (\<lparr>translation = v, tscale = s, rotation = quatf_identity\<rparr> :: 'a transform_t) = quatf_identity" for v s by simp
  have q: "\<lparr>v3 = vec (rounded R (vx (v3 quatf_identity))) (rounded R (vy (v3 quatf_identity))) (rounded R (vz (v3 quatf_identity))),
      qs = rounded R (qs quatf_identity)\<rparr> = (quatf_identity :: 'a quatf_t)"
    by (simp add: quatf_identity_def c)
  have "player_rule R speed keys bs f t =
      round_transform R (transform_multiply (if list_ex (hit_by t1 f) bs then ?start else t1) (player_move speed keys))"
    by (simp add: player_rule_def Let_def player_start_simps [OF R] t1_def)
  also have "\<dots> = round_transform R (transform_multiply \<lparr>translation = vec 0 (vy p) (vz p), tscale = vec 1 1 1, rotation = quatf_identity\<rparr>
      (player_move speed keys))"
    unfolding t2 ..
  finally show ?thesis
    by (simp add: player_move_steps identity_move [OF i] round_transform_def round_vec_def vec3f_add_def c q)
qed

lemma player_rule_cong:
  assumes "\<And>j. j \<in> set bs \<Longrightarrow> fst f' j = fst f j" and "snd f' = snd f"
  shows "player_rule R speed keys bs f' = player_rule R speed keys bs f"
proof -
  have "list_ex (hit_by t f') bs = list_ex (hit_by t f) bs" for t
    unfolding list_ex_iff using assms by (intro bex_cong) (auto simp: hit_by_def split: prod.splits)
  then show ?thesis by (simp add: player_rule_def fun_eq_iff)
qed

lemma player_steps:
  assumes "distinct ps" and "set ps \<inter> set bs = {}"
  shows "fst (fold (player_step R speed keys bs) ps f) =
      (\<lambda>i. if i \<in> set ps then player_rule R speed keys bs f (fst f i) else fst f i) \<and>
    snd (fold (player_step R speed keys bs) ps f) = snd f"
  using assms
proof (induction ps arbitrary: f)
  case (Cons i ps)
  let ?f = "player_step R speed keys bs i f"
  have sel: "fst ?f = (fst f)(i := player_rule R speed keys bs f (fst f i))" "snd ?f = snd f"
    by (simp_all add: player_step_def put_field_def split: prod.splits)
  have rule: "player_rule R speed keys bs ?f = player_rule R speed keys bs f"
    using Cons.prems by (intro player_rule_cong) (auto simp: sel)
  have "i \<notin> set ps" and IH: "fst (fold (player_step R speed keys bs) ps ?f) =
      (\<lambda>i. if i \<in> set ps then player_rule R speed keys bs ?f (fst ?f i) else fst ?f i)"
    "snd (fold (player_step R speed keys bs) ps ?f) = snd ?f"
    using Cons.IH [of ?f] Cons.prems by auto
  then show ?case by (auto simp: rule sel fun_eq_iff)
qed simp

section \<open>The game's invariant\<close>

definition with_mask :: "ecs_t \<Rightarrow> u64 \<Rightarrow> nat set" where
  "with_mask e cm = {i. i < k_max_entities \<and> component_masks e ! i AND cm = cm}"

text \<open>What the game has allocated: itself, its timer, the entity system with its tables, and the two shader files.\<close>

definition some_ptrs :: "ptr option list \<Rightarrow> ptr list" where
  "some_ptrs ps = map the (filter (\<lambda>p. p \<noteq> None) ps)"

definition work_ptrs :: "fs_work_t option \<Rightarrow> ptr list" where
  "work_ptrs work = (case work of None \<Rightarrow> [] | Some w \<Rightarrow> some_ptrs [w_buffer w, w_self w])"

definition game_blocks :: "frogger_game_t \<Rightarrow> ptr list" where
  "game_blocks g = [fg_self g, fg_timer g] @ some_ptrs (ecs_self (fg_ecs g) # components (fg_ecs g)) @
     work_ptrs (vertex_shader_work g) @ work_ptrs (fragment_shader_work g)"

definition work_loaded :: "fs_work_t option \<Rightarrow> bool" where
  "work_loaded work \<longleftrightarrow> (case work of None \<Rightarrow> False | Some w \<Rightarrow> event_is_raised (w_done w))"

definition holds_blocks :: "mem \<Rightarrow> frogger_game_t \<Rightarrow> bool" where
  "holds_blocks m g \<longleftrightarrow> distinct (game_blocks g) \<and> (\<forall>p \<in> set (game_blocks g). block_size m p \<noteq> None) \<and>
     work_loaded (vertex_shader_work g) \<and> work_loaded (fragment_shader_work g)"

lemma set_some_ptrs: "p \<in> set (some_ptrs ps) \<longleftrightarrow> Some p \<in> set ps"
proof (induction ps)
  case (Cons x ps)
  then show ?case by (cases x) (simp_all add: some_ptrs_def)
qed (simp add: some_ptrs_def)

lemma game_blocks_update [simp]: "game_blocks (g\<lparr>fg_ecs := ecs_update (fg_ecs g)\<rparr>) = game_blocks g"
  by (simp add: game_blocks_def ecs_update_def)

lemma table_game_block:
  assumes "tables_ok m (fg_ecs g)" and "ty < 6"
  shows "(table (fg_ecs g) ty, 0) \<in> set (game_blocks g)"
proof -
  have "ty < length (components (fg_ecs g))"
    using assms by (simp add: tables_ok_def ecs_shape_def k_max_component_types_def)
  from nth_mem [OF this] have "Some (table (fg_ecs g) ty, 0) \<in> set (ecs_self (fg_ecs g) # components (fg_ecs g))"
    using tables_okD(1) [OF assms] by simp
  then show ?thesis unfolding game_blocks_def by (simp add: set_some_ptrs)
qed

text \<open>The transforms, the players and the blocks are saved.\<close>

definition is_saved :: "nat \<Rightarrow> bool" where
  "is_saved ty \<longleftrightarrow> ty \<in> {0, 3, 4}"

definition saves_ok :: "ecs_t \<Rightarrow> bool" where
  "saves_ok e \<longleftrightarrow> (\<forall>ty < k_max_component_types. save_component e ! ty = is_saved ty)"

lemma saves_ok_update [simp]: "saves_ok (ecs_update e) = saves_ok e"
  by (simp add: saves_ok_def ecs_update_def)

definition game_inv :: "('a::linordered_field, 'd, 't) frogger_env \<Rightarrow> nat \<Rightarrow> ('d, 't) frogger_state \<Rightarrow> bool" where
  "game_inv E d s \<longleftrightarrow> can_run s \<and> holds_blocks (fw_mem (fst s)) (snd s) \<and> saves_ok (fg_ecs (snd s)) \<and>
     rows_ok E d (with_mask (fg_ecs (snd s)) block_mask) (field_of E s) \<and>
     (\<forall>i \<in> with_mask (fg_ecs (snd s)) player_mask. player_ok (fst (field_of E s) i))"

lemma slots_with_mask: "set (slots e cm) \<subseteq> with_mask e cm"
  using slots_less masks_of_slots by (auto simp: with_mask_def)

lemma with_mask_update [simp]: "with_mask (ecs_update e) cm = with_mask e cm"
  by (simp add: with_mask_def ecs_update_def)

lemma can_run_disjoint: "can_run s \<Longrightarrow> with_mask (fg_ecs (snd s)) player_mask \<inter> with_mask (fg_ecs (snd s)) block_mask = {}"
  by (auto simp: can_run_def with_mask_def)

lemma frame_rule_parts:
  fixes E :: "('a::linordered_field, 'd, 't) frogger_env" and speed :: 'a and f :: "'a field"
  assumes "set (slots e player_mask) \<inter> set (slots e block_mask) = {}"
  defines "f1 \<equiv> fold (block_step E speed) (slots e block_mask) f"
  shows "fst (frame_rule E speed keys e f) = (\<lambda>i. if i \<in> set (slots e player_mask)
      then player_rule (en_floats E) speed keys (slots e block_mask) f1 (fst f1 i) else fst f1 i)"
    "snd (frame_rule E speed keys e f) = snd f1"
  using player_steps [OF distinct_slots assms(1), of "en_floats E" speed keys f1] by (simp_all add: frame_rule_def f1_def)

lemma frame_rule_keeps:
  fixes E :: "('a::linordered_field, 'd, 't) frogger_env" and speed :: 'a and f :: "'a field" and keys :: u32
  assumes R: "float_contract (en_floats E)" and rand: "rand_contract E"
    and speed: "0 \<le> speed" "2 * speed \<le> of_nat d" and d: "d \<le> 2 ^ 20"
    and disj: "with_mask e player_mask \<inter> with_mask e block_mask = {}"
    and rows: "rows_ok E d (with_mask e block_mask) f"
    and players: "\<forall>i \<in> with_mask e player_mask. player_ok (fst f i)"
  defines "f' \<equiv> frame_rule E speed keys e f"
  shows "rows_ok E d (with_mask e block_mask) f'" "\<forall>i \<in> with_mask e player_mask. player_ok (fst f' i)"
    "\<forall>i \<in> with_mask e block_mask. vz (translation (fst f' i)) = vz (translation (fst f i))"
proof -
  define f1 where "f1 = fold (block_step E speed) (slots e block_mask) f"
  note sub = slots_with_mask [of e block_mask] slots_with_mask [of e player_mask]
  have "set (slots e player_mask) \<inter> set (slots e block_mask) = {}" using sub disj by blast
  note parts = frame_rule_parts [OF this, where E = E and speed = speed and keys = keys and f = f, folded f1_def f'_def]
  from block_steps_ok [OF R rand speed d sub(1) rows] have f1: "rows_ok E d (with_mask e block_mask) f1"
    "\<forall>i \<in> with_mask e block_mask. vz (translation (fst f1 i)) = vz (translation (fst f i))"
    "\<And>i. i \<notin> set (slots e block_mask) \<Longrightarrow> fst f1 i = fst f i" unfolding f1_def by blast+
  have other: "fst f' i = fst f1 i" if "i \<in> with_mask e block_mask" for i
    using that sub disj by (auto simp: parts(1))
  show "rows_ok E d (with_mask e block_mask) f'" using f1(1) other by (simp add: rows_ok_def parts(2))
  show "\<forall>i \<in> with_mask e block_mask. vz (translation (fst f' i)) = vz (translation (fst f i))" using f1(2) other by simp
  show "\<forall>i \<in> with_mask e player_mask. player_ok (fst f' i)"
  proof
    fix i assume i: "i \<in> with_mask e player_mask"
    then have "i \<notin> set (slots e block_mask)" using sub disj by blast
    then have same: "fst f1 i = fst f i" by (rule f1(3))
    have p: "player_ok (fst f1 i)" using players i by (simp add: same)
    have blocks: "block_ok (en_floats E) d (fst f1 j) (fst (snd f1) j)" if "j \<in> set (slots e block_mask)" for j
      using f1(1) that sub(1) by (auto simp: rows_ok_def)
    show "player_ok (fst f' i)"
      using p player_rule_moves [OF R p blocks] by (simp add: parts(1)) (simp add: player_ok_def)
  qed
qed

text \<open>What the other threads and the system may do between two frames: everything but change the game, its timer
  and the memory that it has allocated.  So they may save and load files, take commands from the queue, release what
  they have drawn, and press keys.\<close>

definition between_frames :: "('d, 't) frogger_state \<Rightarrow> ('d, 't) frogger_state \<Rightarrow> bool" where
  "between_frames s s' \<longleftrightarrow> snd s' = snd s \<and> fw_timers (fst s') = fw_timers (fst s) \<and> mem_ok (fw_mem (fst s')) \<and>
     (\<forall>p \<in> set (game_blocks (snd s)). blocks (fw_mem (fst s')) (fst p) = blocks (fw_mem (fst s)) (fst p))"

definition frame_room :: "ecs_t \<Rightarrow> nat" where
  "frame_room e = 240 * (length (slots (ecs_update e) camera_mask) * length (slots (ecs_update e) model_mask)) + 4"

text \<open>One command for every model that a camera sees, and the one that ends the frame.\<close>

definition frame_commands :: "ecs_t \<Rightarrow> nat" where
  "frame_commands e = length (slots (ecs_update e) camera_mask) * length (slots (ecs_update e) model_mask) + 1"

text \<open>A frame that can be played: no mouse button is held, so it neither saves nor loads; there is memory for its
  commands; the render thread takes so many that all find a place in the queue; and it is not so long that a block
  moves more than \<open>d\<close>.\<close>

definition playable :: "('a::linordered_field, 'd, 't) frogger_env \<Rightarrow> nat \<Rightarrow> u64 \<Rightarrow> ('d, 't) frogger_state \<Rightarrow> bool" where
  "playable E d now s \<longleftrightarrow> no_buttons (wm_get_mouse_mask (fw_window (fst s))) \<and>
     frame_room (fg_ecs (snd s)) \<le> os_avail (fw_mem (fst s)) \<and> queue_room (frame_commands (fg_ecs (snd s))) (fst s) \<and>
     (\<forall>speed. frame_speed_at E now s = Inr speed \<longrightarrow> 2 * speed \<le> of_nat d)"

inductive game_step :: "('a::linordered_field, 'd, 't) frogger_env \<Rightarrow> nat \<Rightarrow> ('d, 't) frogger_state \<Rightarrow> ('d, 't) frogger_state \<Rightarrow> bool"
  for E d where
  step_frame: "playable E d now s \<Longrightarrow> frogger_game_update E now s = Inr s' \<Longrightarrow> game_step E d s s'"
| step_between: "between_frames s s' \<Longrightarrow> game_step E d s s'"

lemma between_frames_inv:
  assumes inv: "game_inv E d s" and b: "between_frames s s'"
  shows "game_inv E d s'" "fst (field_of E s') = fst (field_of E s)"
proof -
  let ?e = "fg_ecs (snd s)"
  have ok: "tables_ok (fw_mem (fst s)) ?e" using inv by (simp add: game_inv_def can_run_def)
  have same: "blocks (fw_mem (fst s')) (table ?e ty) = blocks (fw_mem (fst s)) (table ?e ty)" if "ty < 6" for ty
    using b table_game_block [OF ok that] by (auto simp: between_frames_def)
  then have cells: "cells (fw_mem (fst s')) ?e = cells (fw_mem (fst s)) ?e" by (auto simp: cells_def fun_eq_iff)
  have tables: "tables_ok (fw_mem (fst s')) ?e"
    unfolding tables_ok_def
  proof (intro conjI allI impI)
    show "mem_ok (fw_mem (fst s'))" "ecs_shape ?e" using b ok by (simp_all add: between_frames_def tables_ok_def)
    show "\<exists>b. components ?e ! ty = Some (b, 0) \<and> unat (component_type_sizes ?e ! ty) = csize ty \<and>
        block_size (fw_mem (fst s')) (b, 0) = Some (table_size ty)" if "ty < 6" for ty
      using tables_okD [OF ok that] same [OF that] by (auto simp: block_size_def)
    show "ty = ty'" if "ty < 6" "ty' < 6" "components ?e ! ty = components ?e ! ty'" for ty ty'
      using ok that unfolding tables_ok_def by blast
  qed
  have field: "field_of E s' = (fst (field_of E s), fst (snd (field_of E s)), fw_rand (fst s'))"
    using b cells by (simp add: field_of_def between_frames_def)
  then show "fst (field_of E s') = fst (field_of E s)" by simp
  have "holds_blocks (fw_mem (fst s')) (snd s)"
  proof -
    have "block_size (fw_mem (fst s')) p = block_size (fw_mem (fst s)) p" if "p \<in> set (game_blocks (snd s))" for p
      using b that by (simp add: between_frames_def block_size_def)
    then show ?thesis using inv by (simp add: game_inv_def holds_blocks_def)
  qed
  then show "game_inv E d s'"
    using inv b tables cells field unfolding game_inv_def can_run_def rows_ok_def by (simp add: between_frames_def)
qed

lemma frame_speed_nonneg:
  fixes speed :: "'a::linordered_field"
  assumes "frame_speed_at E now s = Inr speed"
  shows "0 \<le> speed"
proof -
  from assms obtain k where "Inr (of_nat (unat (k :: u32)) * (1 / 1000) * 2) = (Inr speed :: 'a outcome)"
    unfolding frame_speed_at_def frame_speed_def split_def bind_ok_Inr_iff by blast
  then have s: "speed = of_nat (unat k) * (1 / 1000) * 2" by (simp only: sum.inject)
  show ?thesis unfolding s by (intro mult_nonneg_nonneg of_nat_0_le_iff) simp_all
qed

lemma playable_frame:
  assumes R: "float_contract (en_floats E)" and rand: "rand_contract E" and d: "d \<le> 2 ^ 20"
    and inv: "game_inv E d s" and play: "playable E d now s"
  obtains s' where "frogger_game_update E now s = Inr s'" "game_inv E d s'" "snd s' = (snd s)\<lparr>fg_ecs := ecs_update (fg_ecs (snd s))\<rparr>"
    "\<forall>i \<in> with_mask (fg_ecs (snd s)) block_mask. vz (translation (fst (field_of E s') i)) = vz (translation (fst (field_of E s) i))"
proof -
  have run: "can_run s" using inv by (simp add: game_inv_def)
  have nb: "no_buttons (wm_get_mouse_mask (fw_window (fst s)))"
    and room: "240 * (length (slots (ecs_update (fg_ecs (snd s))) camera_mask) * length (slots (ecs_update (fg_ecs (snd s))) model_mask)) + 4
      \<le> os_avail (fw_mem (fst s))"
    and places: "queue_room (length (slots (ecs_update (fg_ecs (snd s))) camera_mask) * length (slots (ecs_update (fg_ecs (snd s))) model_mask) + 1) (fst s)"
    using play by (simp_all add: playable_def frame_room_def frame_commands_def)
  obtain speed s' where
    s': "frame_speed_at E now s = Inr speed" "frogger_game_update E now s = Inr s'" "can_run s'"
      "snd s' = (snd s)\<lparr>fg_ecs := ecs_update (fg_ecs (snd s))\<rparr>"
      "field_of E s' = frame_rule E speed (wm_get_key_mask (fw_window (fst s))) (ecs_update (fg_ecs (snd s))) (field_of E s)"
      and kept: "\<And>q k. block_size (fw_mem (fst s)) q = Some k \<Longrightarrow> block_size (fw_mem (fst s')) q = Some k"
    by (rule frame_follows [OF run nb refl room places]) (rule that)
  have speed: "0 \<le> speed" "2 * speed \<le> of_nat d"
    using frame_speed_nonneg [OF s'(1)] play s'(1) by (simp_all add: playable_def)
  note keeps = frame_rule_keeps [OF R rand speed d, of "ecs_update (fg_ecs (snd s))" "field_of E s" "wm_get_key_mask (fw_window (fst s))", folded s'(5)]
  have "holds_blocks (fw_mem (fst s')) (snd s')"
    using inv kept unfolding game_inv_def holds_blocks_def s'(4) game_blocks_update by fastforce
  then have "game_inv E d s'"
    using keeps(1,2) can_run_disjoint [OF run] inv s'(3) by (simp add: game_inv_def s'(4))
  with s'(2,4) keeps(3) can_run_disjoint [OF run] inv that show thesis by (simp add: game_inv_def)
qed

text \<open>What holds after any number of steps.\<close>

lemma game_steps_keep:
  assumes R: "float_contract (en_floats E)" and rand: "rand_contract E" and d: "d \<le> 2 ^ 20"
    and inv: "game_inv E d s" and steps: "(game_step E d)\<^sup>*\<^sup>* s s'"
  shows "game_inv E d s' \<and> game_blocks (snd s') = game_blocks (snd s) \<and> fg_timer (snd s') = fg_timer (snd s) \<and>
    with_mask (fg_ecs (snd s')) = with_mask (fg_ecs (snd s)) \<and>
    (\<forall>i \<in> with_mask (fg_ecs (snd s)) block_mask. vz (translation (fst (field_of E s') i)) = vz (translation (fst (field_of E s) i)))"
  using steps
proof induction
  case (step s1 s2)
  then have inv1: "game_inv E d s1" by simp
  from step.hyps(2) show ?case
  proof cases
    case (step_frame now)
    from playable_frame [OF R rand d inv1 step_frame(1)] step_frame(2) have
      "game_inv E d s2" "snd s2 = (snd s1)\<lparr>fg_ecs := ecs_update (fg_ecs (snd s1))\<rparr>"
      "\<forall>i \<in> with_mask (fg_ecs (snd s1)) block_mask. vz (translation (fst (field_of E s2) i)) = vz (translation (fst (field_of E s1) i))"
      by auto
    with step.IH show ?thesis by (simp add: fun_eq_iff)
  next
    case step_between
    with between_frames_inv [OF inv1 this] step.IH show ?thesis by (simp add: between_frames_def)
  qed
qed (simp add: inv)

end
