(* ===== verification/Frogger_Create.thy ===== *)
theory Frogger_Create
  imports Frogger_Props
begin

text \<open>
  The creation of the game: the six component types, the shader files, the player, the twelve blocks and
  the camera; what is created satisfies the invariant of the game.
\<close>

section \<open>Registering the types\<close>

definition registered :: "nat \<Rightarrow> mem \<Rightarrow> ecs_t \<Rightarrow> bool" where
  "registered n m e \<longleftrightarrow> mem_ok m \<and> ecs_shape e \<and>
     (\<forall>ty < n. \<exists>b. components e ! ty = Some (b, 0) \<and> unat (component_type_sizes e ! ty) = csize ty \<and>
        block_size m (b, 0) = Some (table_size ty)) \<and>
     (\<forall>ty < n. \<forall>ty' < n. components e ! ty = components e ! ty' \<longrightarrow> ty = ty') \<and>
     (\<forall>ty. n \<le> ty \<longrightarrow> ty < k_max_component_types \<longrightarrow> components e ! ty = None) \<and>
     (\<forall>ty < k_max_component_types. save_component e ! ty = (ty < n \<and> is_saved ty)) \<and>
     global_sequence e = 1 \<and> entity_states e = replicate k_max_entities k_entity_unused \<and>
     component_masks e = replicate k_max_entities 0"

lemma registered_start:
  assumes "mem_ok m" and "sizeof_ecs_t \<le> os_avail m"
  obtains m' e where "ecs_create m = Inr (m', e)" "registered 0 m' e" "grown m m' sizeof_ecs_t"
    "ecs_self e = Some (next_block m, 0)" "next_block m' = Suc (next_block m)" "block_size m' (next_block m, 0) = Some sizeof_ecs_t"
proof -
  obtain m1 where a: "heap_alloc m sizeof_ecs_t 8 = (m1, Some (next_block m, 0))" "grown m m1 sizeof_ecs_t"
    "next_block m1 = Suc (next_block m)" "blocks m1 (next_block m) = Some (replicate sizeof_ecs_t (junk m))"
    using alloc_grown [OF assms(1) _ assms(2)] by (auto simp: sizeof_ecs_t_def)
  define m2 where "m2 = m1\<lparr>blocks := (blocks m1)(next_block m := Some (replicate sizeof_ecs_t 0))\<rparr>"
  have w: "memset m1 (Some (next_block m, 0)) 0 sizeof_ecs_t = Inr m2"
    using a(4) by (simp add: memset_def mem_write_def splice_def m2_def)
  have g: "grown m m2 sizeof_ecs_t" using a(2) mem_ok_memset [OF _ w] by (auto simp: grown_def m2_def)
  show thesis
  proof (rule that [OF _ _ g])
    show "ecs_create m = Inr (m2, (ecs_cleared (Some (next_block m, 0)))\<lparr>global_sequence := 1\<rparr>)"
      using a(1) w by (simp add: ecs_create_def)
    show "registered 0 m2 ((ecs_cleared (Some (next_block m, 0)))\<lparr>global_sequence := 1\<rparr>)"
      using g by (simp add: registered_def grown_def ecs_cleared_def ecs_shape_def)
  qed (simp_all add: ecs_cleared_def m2_def a(3) block_size_def)
qed

lemma register_next:
  assumes reg: "registered n m e" and n: "n < 6" and align: "align_component sz al = word_of_nat (csize n)"
    and name: "length name < 32" and room: "table_size n \<le> os_avail m" and sv: "sv = is_saved n"
  obtains m' e' where "ecs_register_component_type m e name sz al sv = Inr (m', e', int n)" "registered (Suc n) m' e'"
    "grown m m' (table_size n)" "ecs_self e' = ecs_self e" "next_block m' = Suc (next_block m)"
    "components e' = (components e)[n := Some (next_block m, 0)]"
proof -
  have ok: "mem_ok m" and shape: "ecs_shape e" using reg by (simp_all add: registered_def)
  have find: "find_from (\<lambda>i. components e ! i = None) 0 k_max_component_types = Some n"
  proof -
    have used: "components e ! i \<noteq> None" if "i < n" for i
    proof -
      from reg that obtain b where "components e ! i = Some (b, 0)" unfolding registered_def by blast
      then show ?thesis by simp
    qed
    have free: "components e ! n = None" "n < k_max_component_types"
      using reg n by (simp_all add: registered_def k_max_component_types_def)
    have "find_from (\<lambda>i. components e ! i = None) 0 k_max_component_types \<noteq> None"
      using free by (auto simp: search_simps)
    then obtain k where k: "find_from (\<lambda>i. components e ! i = None) 0 k_max_component_types = Some k" by blast
    from find_from_SomeD [OF k] used free have "k = n" by (metis le0 linorder_neqE_nat)
    with k show ?thesis by simp
  qed
  have size: "unat (word_of_nat (csize n) :: u64) = csize n" using n by (auto simp: less_6)
  have total: "unat (word_of_nat (csize n) * word_of_nat k_max_entities :: u64) = table_size n"
    using n by (auto simp: less_6 table_size_def k_max_entities_def)
  have pos: "0 < table_size n" using n by (auto simp: less_6 table_size_def k_max_entities_def)
  obtain m1 where a: "heap_alloc m (table_size n) (unat al) = (m1, Some (next_block m, 0))" "grown m m1 (table_size n)"
    "next_block m1 = Suc (next_block m)" "blocks m1 (next_block m) = Some (replicate (table_size n) (junk m))"
    using alloc_grown [OF ok pos room] by blast
  define m2 where "m2 = m1\<lparr>blocks := (blocks m1)(next_block m := Some (replicate (table_size n) 0))\<rparr>"
  have w: "memset m1 (Some (next_block m, 0)) 0 (table_size n) = Inr m2"
    using a(4) by (simp add: memset_def mem_write_def splice_def m2_def)
  have g: "grown m m2 (table_size n)" using a(2) mem_ok_memset [OF _ w] by (auto simp: grown_def m2_def)
  define e' where "e' = e\<lparr>component_type_names := (component_type_names e)[n := name],
      component_type_sizes := (component_type_sizes e)[n := word_of_nat (csize n)],
      components := (components e)[n := Some (next_block m, 0)], save_component := (save_component e)[n := sv]\<rparr>"
  have len: "n < length (components e)" "n < length (component_type_sizes e)" "n < length (save_component e)"
    using shape n by (simp_all add: ecs_shape_def k_max_component_types_def)
  have "registered (Suc n) m2 e'"
    unfolding registered_def
  proof (intro conjI allI impI)
    show "mem_ok m2" using g by (simp add: grown_def)
    show "ecs_shape e'" using shape by (simp add: e'_def ecs_shape_def)
    show "global_sequence e' = 1" "entity_states e' = replicate k_max_entities k_entity_unused"
      "component_masks e' = replicate k_max_entities 0" using reg by (simp_all add: e'_def registered_def)
    show "components e' ! ty = None" if "Suc n \<le> ty" "ty < k_max_component_types" for ty
      using reg that by (simp add: e'_def registered_def)
    show "save_component e' ! ty = (ty < Suc n \<and> is_saved ty)" if "ty < k_max_component_types" for ty
      using reg that len(3) sv by (cases "ty = n") (auto simp: e'_def registered_def)
    show "\<exists>b. components e' ! ty = Some (b, 0) \<and> unat (component_type_sizes e' ! ty) = csize ty \<and>
        block_size m2 (b, 0) = Some (table_size ty)" if "ty < Suc n" for ty
    proof (cases "ty = n")
      case True
      then show ?thesis using len size by (simp add: e'_def block_size_def m2_def)
    next
      case False
      with that have "ty < n" by simp
      with reg obtain b where "components e ! ty = Some (b, 0)" "unat (component_type_sizes e ! ty) = csize ty"
        "block_size m (b, 0) = Some (table_size ty)" unfolding registered_def by blast
      with False block_size_grown [OF ok g] show ?thesis by (auto simp: e'_def)
    qed
    have fresh: "components e ! ty \<noteq> Some (next_block m, 0)" if "ty < n" for ty
    proof -
      from reg that obtain b where "components e ! ty = Some (b, 0)" "block_size m (b, 0) = Some (table_size ty)"
        unfolding registered_def by blast
      with ok show ?thesis by (auto simp: block_size_def mem_ok_def)
    qed
    show "ty = ty'" if "ty < Suc n" "ty' < Suc n" "components e' ! ty = components e' ! ty'" for ty ty'
    proof (cases "ty = n \<or> ty' = n")
      case True
      with that fresh [of ty] fresh [of ty'] len show ?thesis by (auto simp: e'_def less_Suc_eq)
    next
      case False
      with that have "ty < n" "ty' < n" "components e ! ty = components e ! ty'" by (auto simp: e'_def)
      with reg show ?thesis unfolding registered_def by blast
    qed
  qed
  moreover have "ecs_register_component_type m e name sz al sv = Inr (m2, e', int n)"
    using name a(1) w by (simp add: ecs_register_component_type_def find align total Let_def e'_def)
  ultimately show thesis using that g a(3) by (simp add: e'_def m2_def)
qed

lemma registered_tables: "registered 6 m e \<Longrightarrow> tables_ok m e"
  by (simp add: registered_def tables_ok_def)

text \<open>The sizes of the components are multiples of their alignments.\<close>

lemma aligned_sizes:
  "align_component (word_of_nat sizeof_transform_component_t) 4 = word_of_nat (csize 0)"
  "align_component (word_of_nat sizeof_camera_component_t) 4 = word_of_nat (csize 1)"
  "align_component (word_of_nat sizeof_model_component_t) 8 = word_of_nat (csize 2)"
  "align_component (word_of_nat sizeof_player_component_t) 4 = word_of_nat (csize 3)"
  "align_component (word_of_nat sizeof_block_component_t) 4 = word_of_nat (csize 4)"
  "align_component (word_of_nat sizeof_name_component_t) 1 = word_of_nat (csize 5)"
  by (simp_all add: align_component_def sizeof_transform_component_t_def sizeof_camera_component_t_def sizeof_model_component_t_def
      sizeof_player_component_t_def sizeof_block_component_t_def sizeof_name_component_t_def)

definition tables_total :: nat where "tables_total = 114688"

lemma register_types_ok:
  assumes reg: "registered 0 m (fg_ecs g)" and room: "tables_total \<le> os_avail m"
  obtains m' e' where "register_types m g = Inr (m', g\<lparr>fg_ecs := e', transform_type := 0, camera_type := 1, model_type := 2,
      player_type := 3, block_type := 4, name_type := 5\<rparr>)"
    "registered 6 m' e'" "grown m m' tables_total" "ecs_self e' = ecs_self (fg_ecs g)" "next_block m' = next_block m + 6"
    "components e' = map (\<lambda>k. Some (next_block m + k, 0)) [0..<6] @ replicate 58 None"
proof -
  note sizes = table_size_def k_max_entities_def
  have n: "0 < (6 :: nat)" "1 < (6 :: nat)" "2 < (6 :: nat)" "3 < (6 :: nat)" "4 < (6 :: nat)" "5 < (6 :: nat)" by simp_all
  have suc: "Suc 0 = 1" "Suc 1 = 2" "Suc 2 = 3" "Suc 3 = 4" "Suc 4 = 5" "Suc 5 = 6" by simp_all
  have l: "length ''transform'' < 32" "length ''camera'' < 32" "length ''model'' < 32" "length ''player'' < 32"
    "length ''block'' < 32" "length ''name'' < 32" by simp_all
  have sv: "True = is_saved 0" "False = is_saved 1" "False = is_saved 2" "True = is_saved 3" "True = is_saved 4" "False = is_saved 5"
    by (simp_all add: is_saved_def)
  have "table_size 0 \<le> os_avail m" using room by (simp add: sizes tables_total_def)
  from register_next [OF reg n(1) aligned_sizes(1) l(1) this sv(1)] obtain m1 e1 where
    1: "ecs_register_component_type m (fg_ecs g) ''transform'' (word_of_nat sizeof_transform_component_t) 4 True = Inr (m1, e1, int 0)"
      "registered (Suc 0) m1 e1" "grown m m1 (table_size 0)" "ecs_self e1 = ecs_self (fg_ecs g)" "next_block m1 = Suc (next_block m)"
      "components e1 = (components (fg_ecs g))[0 := Some (next_block m, 0)]" by blast
  have "table_size 1 \<le> os_avail m1" using room 1(3) by (simp add: grown_def sizes tables_total_def)
  from register_next [OF 1(2) [unfolded suc(1)] n(2) aligned_sizes(2) l(2) this sv(2)] obtain m2 e2 where
    2: "ecs_register_component_type m1 e1 ''camera'' (word_of_nat sizeof_camera_component_t) 4 False = Inr (m2, e2, int 1)"
      "registered (Suc 1) m2 e2" "grown m1 m2 (table_size 1)" "ecs_self e2 = ecs_self e1" "next_block m2 = Suc (next_block m1)"
      "components e2 = (components e1)[1 := Some (next_block m1, 0)]" by blast
  have "table_size 2 \<le> os_avail m2" using room 1(3) 2(3) by (simp add: grown_def sizes tables_total_def)
  from register_next [OF 2(2) [unfolded suc(2)] n(3) aligned_sizes(3) l(3) this sv(3)] obtain m3 e3 where
    3: "ecs_register_component_type m2 e2 ''model'' (word_of_nat sizeof_model_component_t) 8 False = Inr (m3, e3, int 2)"
      "registered (Suc 2) m3 e3" "grown m2 m3 (table_size 2)" "ecs_self e3 = ecs_self e2" "next_block m3 = Suc (next_block m2)"
      "components e3 = (components e2)[2 := Some (next_block m2, 0)]" by blast
  have "table_size 3 \<le> os_avail m3" using room 1(3) 2(3) 3(3) by (simp add: grown_def sizes tables_total_def)
  from register_next [OF 3(2) [unfolded suc(3)] n(4) aligned_sizes(4) l(4) this sv(4)] obtain m4 e4 where
    4: "ecs_register_component_type m3 e3 ''player'' (word_of_nat sizeof_player_component_t) 4 True = Inr (m4, e4, int 3)"
      "registered (Suc 3) m4 e4" "grown m3 m4 (table_size 3)" "ecs_self e4 = ecs_self e3" "next_block m4 = Suc (next_block m3)"
      "components e4 = (components e3)[3 := Some (next_block m3, 0)]" by blast
  have "table_size 4 \<le> os_avail m4" using room 1(3) 2(3) 3(3) 4(3) by (simp add: grown_def sizes tables_total_def)
  from register_next [OF 4(2) [unfolded suc(4)] n(5) aligned_sizes(5) l(5) this sv(5)] obtain m5 e5 where
    5: "ecs_register_component_type m4 e4 ''block'' (word_of_nat sizeof_block_component_t) 4 True = Inr (m5, e5, int 4)"
      "registered (Suc 4) m5 e5" "grown m4 m5 (table_size 4)" "ecs_self e5 = ecs_self e4" "next_block m5 = Suc (next_block m4)"
      "components e5 = (components e4)[4 := Some (next_block m4, 0)]" by blast
  have "table_size 5 \<le> os_avail m5" using room 1(3) 2(3) 3(3) 4(3) 5(3) by (simp add: grown_def sizes tables_total_def)
  from register_next [OF 5(2) [unfolded suc(5)] n(6) aligned_sizes(6) l(6) this sv(6)] obtain m6 e6 where
    6: "ecs_register_component_type m5 e5 ''name'' (word_of_nat sizeof_name_component_t) 1 False = Inr (m6, e6, int 5)"
      "registered (Suc 5) m6 e6" "grown m5 m6 (table_size 5)" "ecs_self e6 = ecs_self e5" "next_block m6 = Suc (next_block m5)"
      "components e6 = (components e5)[5 := Some (next_block m5, 0)]" by blast
  note g12 = grown_trans [OF 1(3) 2(3)] note g123 = grown_trans [OF g12 3(3)] note g1234 = grown_trans [OF g123 4(3)]
  note g = grown_trans [OF grown_trans [OF g1234 5(3)] 6(3)]
  have "grown m m6 tables_total" using g by (simp add: sizes tables_total_def)
  moreover have "register_types m g = Inr (m6, g\<lparr>fg_ecs := e6, transform_type := 0, camera_type := 1, model_type := 2,
      player_type := 3, block_type := 4, name_type := 5\<rparr>)"
    using 1(1) 2(1) 3(1) 4(1) 5(1) 6(1) by (simp add: register_types_def)
  moreover have "components (fg_ecs g) = replicate 64 None"
    using reg by (intro nth_equalityI) (simp_all add: registered_def ecs_shape_def k_max_component_types_def)
  then have "components e6 = map (\<lambda>k. Some (next_block m + k, 0)) [0..<6] @ replicate 58 None"
    unfolding 6(6) 5(6) 4(6) 3(6) 2(6) 1(6) 5(5) 4(5) 3(5) 2(5) 1(5) by (simp add: upt_rec eval_nat_numeral)
  moreover have "next_block m6 = next_block m + 6" by (simp add: 6(5) 5(5) 4(5) 3(5) 2(5) 1(5))
  ultimately show thesis using that 6(2) [unfolded suc(6)] 1(4) 2(4) 3(4) 4(4) 5(4) 6(4) by simp
qed

section \<open>Spawning\<close>

text \<open>The first \<open>k\<close> slots have been given out.\<close>

definition spawned :: "nat \<Rightarrow> ecs_t \<Rightarrow> bool" where
  "spawned k e \<longleftrightarrow> ecs_shape e \<and> global_sequence e = word_of_nat (Suc k) \<and>
     (\<forall>i < k. entity_states e ! i = k_entity_pending_add) \<and>
     (\<forall>i. k \<le> i \<longrightarrow> i < k_max_entities \<longrightarrow> entity_states e ! i = k_entity_unused \<and> component_masks e ! i = 0)"

lemma registered_spawned: "registered n m e \<Longrightarrow> spawned 0 e"
  by (simp add: registered_def spawned_def)

lemma spawn_entity:
  assumes sp: "spawned k e" and k: "k < k_max_entities" and ok: "tables_ok m e"
  obtains e' ref where "ecs_entity_add e cm = (e', ref)" "spawned (Suc k) e'" "tables_ok m e'" "cells m e' = cells m e" "table e' = table e"
    "component_masks e' = (component_masks e)[k := cm]" "components e' = components e" "ecs_self e' = ecs_self e" "save_component e' = save_component e"
    "\<And>ty. ty < 6 \<Longrightarrow> ecs_entity_get_component e' ref (int ty) True = Inr (Some (cell_ptr e' ty k))"
proof -
  have shape: "ecs_shape e" using sp by (simp add: spawned_def)
  have find: "find_from (\<lambda>i. entity_states e ! i = k_entity_unused) 0 k_max_entities = Some k"
  proof -
    have used: "entity_states e ! i \<noteq> k_entity_unused" if "i < k" for i using sp that by (simp add: spawned_def)
    have free: "entity_states e ! k = k_entity_unused" using sp k by (simp add: spawned_def)
    have "find_from (\<lambda>i. entity_states e ! i = k_entity_unused) 0 k_max_entities \<noteq> None"
      using free k by (auto simp: search_simps)
    then obtain j where j: "find_from (\<lambda>i. entity_states e ! i = k_entity_unused) 0 k_max_entities = Some j" by blast
    from find_from_SomeD [OF j] used free have "j = k" by (metis le0 linorder_neqE_nat)
    with j show ?thesis by simp
  qed
  define e' where "e' = e\<lparr>entity_states := (entity_states e)[k := k_entity_pending_add],
      sequences := (sequences e)[k := global_sequence e], global_sequence := global_sequence e + 1,
      component_masks := (component_masks e)[k := cm]\<rparr>"
  define ref where "ref = \<lparr>ref_entity = int k, ref_sequence = global_sequence e\<rparr>"
  have add: "ecs_entity_add e cm = (e', ref)" by (simp add: ecs_entity_add_def find e'_def ref_def)
  have table: "table e' = table e" by (simp add: e'_def table_def fun_eq_iff)
  have ok': "tables_ok m e'" using ok by (simp add: tables_ok_def e'_def ecs_shape_def)
  have len: "k < length (sequences e)" "k < length (entity_states e)" using shape k by (simp_all add: ecs_shape_def)
  have valid: "ecs_is_entity_ref_valid e' ref True = Inr True"
    using len by (simp add: ecs_is_entity_ref_valid_def ref_def e'_def)
  show thesis
  proof (rule that [OF add _ ok' _ table])
    show "spawned (Suc k) e'" using sp len by (auto simp: spawned_def e'_def ecs_shape_def less_Suc_eq)
    show "cells m e' = cells m e" by (simp add: cells_def table fun_eq_iff)
    show "ecs_entity_get_component e' ref (int ty) True = Inr (Some (cell_ptr e' ty k))" if ty: "ty < 6" for ty
    proof -
      have "ty < length (components e')" "ty < length (component_type_sizes e')"
        using tables_ok_shape [OF ok'] ty by (simp_all add: ecs_shape_def k_max_component_types_def)
      then show ?thesis using cell_address [OF ok' ty k] tables_okD(1) [OF ok' ty] valid
        by (simp add: ecs_entity_get_component_def ref_def)
    qed
  qed (simp_all add: e'_def)
qed

text \<open>Addresses that fit the representation: fewer than \<open>2\<^sup>3\<^sup>2\<close> blocks, each smaller than \<open>2\<^sup>3\<^sup>2\<close> bytes.\<close>

definition storable :: "ptr \<Rightarrow> bool" where
  "storable p \<longleftrightarrow> fst p + 1 < 2 ^ 32 \<and> snd p < 2 ^ 32"

lemma ptr_of_bits_bits: "storable p \<Longrightarrow> ptr_of_bits (ptr_bits (Some p)) = Some p"
proof -
  assume s: "storable p"
  obtain b off where p: "p = (b, off)" by (cases p)
  have "(b + 1) * 2 ^ 32 + off < (b + 2) * 2 ^ 32" using s by (simp add: storable_def p)
  also have "\<dots> \<le> 2 ^ 32 * 2 ^ 32" using s by (intro mult_le_mono1) (simp add: storable_def p)
  finally have "(b + 1) * 2 ^ 32 + off < 2 ^ 64" by simp
  then have u: "unat (word_of_nat ((b + 1) * 2 ^ 32 + off) :: u64) = (b + 1) * 2 ^ 32 + off"
    by (subst unat_of_nat) simp
  have "off < 2 ^ 32" using s by (simp add: storable_def p)
  then have d: "((b + 1) * 2 ^ 32 + off) div 2 ^ 32 = b + 1" "((b + 1) * 2 ^ 32 + off) mod 2 ^ 32 = off"
    by (simp_all only: div_mult_self3 mod_mult_self3 div_less mod_less power_not_zero zero_neq_numeral not_False_eq_True
        add_0_right)
  have "\<not> (b + 1) * 2 ^ 32 + off < (2 :: nat) ^ 32" by simp
  then show ?thesis
    by (simp only: ptr_of_bits_def ptr_bits_def p option.case prod.case u d if_False) simp
qed

lemma write_model_cell:
  assumes ok: "tables_ok m e" and i: "i < k_max_entities" and st: "storable mesh" "storable shader"
  obtains m' c where "write_model m (Some (cell_ptr e 2 i)) mesh shader = Inr m'" "only_tables e m m'"
    "cells m' e = set_cell (cells m e) 2 i c" "ptr_of_bits (of_le64 (take 8 c)) = Some mesh" "ptr_of_bits (of_le64 (drop 8 c)) = Some shader"
proof -
  let ?xs = "le64 (ptr_bits (Some mesh)) @ le64 (ptr_bits (Some shader))"
  from write_cell [OF ok _ i, of 2 0 ?xs] obtain m' where
    "mem_write m (Some (cell_ptr e 2 i)) ?xs = Inr m'" "only_tables e m m'" "cells m' e = set_cell (cells m e) 2 i (splice (cells m e 2 i) 0 ?xs)"
    by auto
  moreover have "splice (cells m e 2 i) 0 ?xs = ?xs" using length_cells [OF ok _ i, of 2] by (simp add: splice_def)
  ultimately show thesis using that ptr_of_bits_bits st by (simp add: write_model_def)
qed

lemma write_name_cell:
  assumes ok: "tables_ok m e" and i: "i < k_max_entities" and "length s < 32"
  obtains m' c where "write_name m (Some (cell_ptr e 5 i)) 32 s = Inr m'" "only_tables e m m'" "cells m' e = set_cell (cells m e) 5 i c"
proof -
  let ?xs = "map (\<lambda>c. word_of_nat (of_char c)) s @ [0] :: bytes"
  have "\<exists>m'. mem_write m (Some (cell_ptr e 5 i)) ?xs = Inr m' \<and> only_tables e m m' \<and>
      cells m' e = set_cell (cells m e) 5 i (splice (cells m e 5 i) 0 ?xs)"
    using write_cell [OF ok _ i, of 5 0 ?xs] assms(3) by simp
  then show thesis using that assms(3) by (auto simp: write_name_def)
qed

text \<open>What a spawn does to the world: the new slot's cells, and nothing else.\<close>

definition spawn_step :: "nat \<Rightarrow> u64 \<Rightarrow> ('d, 't) frogger_state \<Rightarrow> ('d, 't) frogger_state \<Rightarrow> bool" where
  "spawn_step k cm s s' \<longleftrightarrow> spawned (Suc k) (fg_ecs (snd s')) \<and> tables_ok (fw_mem (fst s')) (fg_ecs (snd s')) \<and>
     only_tables (fg_ecs (snd s)) (fw_mem (fst s)) (fw_mem (fst s')) \<and>
     table (fg_ecs (snd s')) = table (fg_ecs (snd s)) \<and> components (fg_ecs (snd s')) = components (fg_ecs (snd s)) \<and>
     ecs_self (fg_ecs (snd s')) = ecs_self (fg_ecs (snd s)) \<and> save_component (fg_ecs (snd s')) = save_component (fg_ecs (snd s)) \<and>
     component_masks (fg_ecs (snd s')) = (component_masks (fg_ecs (snd s)))[k := cm] \<and>
     (\<forall>ty j. j \<noteq> k \<longrightarrow> cells (fw_mem (fst s')) (fg_ecs (snd s')) ty j = cells (fw_mem (fst s)) (fg_ecs (snd s)) ty j) \<and>
     fw_timers (fst s') = fw_timers (fst s)"

lemma spawn_player_ok:
  assumes ok: "tables_ok (fw_mem w) (fg_ecs g)" and types: "types_ok g" and sp: "spawned k (fg_ecs g)" and k: "k < k_max_entities"
    and st: "storable (field_ptr g offset_cube_mesh)" "storable (field_ptr g offset_cube_shader)"
  obtains m e ref where "spawn_player E index (w, g) = Inr (w\<lparr>fw_mem := m\<rparr>, g\<lparr>fg_ecs := e, player_ent := ref\<rparr>)"
    "spawn_step k 45 (w, g) (w\<lparr>fw_mem := m\<rparr>, g\<lparr>fg_ecs := e, player_ent := ref\<rparr>)"
    "slot_transform (en_floats E) (cells m e) k = player_start (en_floats E)" "has_model (cells m e) k"
proof -
  let ?R = "en_floats E"
  have cm: "component_mask [0, 2, 3, 5] = Inr 45" by (simp add: component_mask.simps)
  from spawn_entity [OF sp k ok, of 45] obtain e ref where
    a: "ecs_entity_add (fg_ecs g) 45 = (e, ref)" "spawned (Suc k) e" "tables_ok (fw_mem w) e" "cells (fw_mem w) e = cells (fw_mem w) (fg_ecs g)"
      "table e = table (fg_ecs g)" "component_masks e = (component_masks (fg_ecs g))[k := 45]" "components e = components (fg_ecs g)"
      "ecs_self e = ecs_self (fg_ecs g)" "save_component e = save_component (fg_ecs g)"
    and get: "\<And>ty. ty < 6 \<Longrightarrow> ecs_entity_get_component e ref (int ty) True = Inr (Some (cell_ptr e ty k))" by blast
  from place_player_follows [OF a(3) k, of ?R] obtain m1 c1 where
    1: "place_player ?R (fw_mem w) (Some (cell_ptr e 0 k)) = Inr m1" "only_tables e (fw_mem w) m1"
      "cells m1 e = set_cell (cells (fw_mem w) e) 0 k c1" "transform_of (floats_of ?R c1) = player_start ?R" by blast
  note ok1 = tables_ok_kept [OF a(3) 1(2)]
  from write_name_cell [OF ok1 k, of "''player''"] obtain m2 c2 where
    2: "write_name m1 (Some (cell_ptr e 5 k)) 32 ''player'' = Inr m2" "only_tables e m1 m2" "cells m2 e = set_cell (cells m1 e) 5 k c2" by auto
  note ok2 = tables_ok_kept [OF ok1 2(2)]
  have "\<exists>m3. mem_write m2 (Some (cell_ptr e 3 k)) (le32 index) = Inr m3 \<and> only_tables e m2 m3 \<and>
      cells m3 e = set_cell (cells m2 e) 3 k (splice (cells m2 e 3 k) 0 (le32 index))"
    using write_cell [OF ok2 _ k, of 3 0 "le32 index"] by simp
  then obtain m3 c3 where
    3: "mem_write m2 (Some (cell_ptr e 3 k)) (le32 index) = Inr m3" "only_tables e m2 m3" "cells m3 e = set_cell (cells m2 e) 3 k c3" by blast
  note ok3 = tables_ok_kept [OF ok2 3(2)]
  from write_model_cell [OF ok3 k st] obtain m4 c4 where
    4: "write_model m3 (Some (cell_ptr e 2 k)) (field_ptr g offset_cube_mesh) (field_ptr g offset_cube_shader) = Inr m4" "only_tables e m3 m4"
      "cells m4 e = set_cell (cells m3 e) 2 k c4" "ptr_of_bits (of_le64 (take 8 c4)) = Some (field_ptr g offset_cube_mesh)"
      "ptr_of_bits (of_le64 (drop 8 c4)) = Some (field_ptr g offset_cube_shader)" by blast
  have run: "spawn_player E index (w, g) = Inr (w\<lparr>fw_mem := m4\<rparr>, g\<lparr>fg_ecs := e, player_ent := ref\<rparr>)"
    using get [of 0] get [of 5] get [of 3] get [of 2] types 1(1) 2(1) 3(1) 4(1)
    by (simp add: spawn_player_def cm a(1) types_ok_def Let_def)
  have cells: "cells m4 e = set_cell (set_cell (set_cell (set_cell (cells (fw_mem w) (fg_ecs g)) 0 k c1) 5 k c2) 3 k c3) 2 k c4"
    using 1(3) 2(3) 3(3) 4(3) a(4) by simp
  have only: "only_tables e (fw_mem w) m4"
    using only_tables_trans [OF only_tables_trans [OF only_tables_trans [OF 1(2) 2(2)] 3(2)] 4(2)] .
  have "spawn_step k 45 (w, g) (w\<lparr>fw_mem := m4\<rparr>, g\<lparr>fg_ecs := e, player_ent := ref\<rparr>)"
    using a only tables_ok_kept [OF ok3 4(2)] cells by (simp add: spawn_step_def only_tables_def)
  moreover have "slot_transform ?R (cells m4 e) k = player_start ?R" using 1(4) by (simp add: slot_transform_def cells)
  moreover have "has_model (cells m4 e) k" using 4(4,5) by (simp add: has_model_def model_at_def cells)
  ultimately show thesis using that run by blast
qed

lemma spawn_camera_ok:
  assumes ok: "tables_ok (fw_mem w) (fg_ecs g)" and types: "types_ok g" and sp: "spawned k (fg_ecs g)" and k: "k < k_max_entities"
  obtains m e ref where "spawn_camera E (w, g) = Inr (w\<lparr>fw_mem := m\<rparr>, g\<lparr>fg_ecs := e, camera_ent := ref\<rparr>)"
    "spawn_step k 34 (w, g) (w\<lparr>fw_mem := m\<rparr>, g\<lparr>fg_ecs := e, camera_ent := ref\<rparr>)"
    "floats_of (en_floats E) (cells m e 1 k) = map (rounded (en_floats E)) (camera_floats (en_libm E))"
proof -
  let ?R = "en_floats E"
  have cm: "component_mask [1, 5] = Inr 34" by (simp add: component_mask.simps)
  from spawn_entity [OF sp k ok, of 34] obtain e ref where
    a: "ecs_entity_add (fg_ecs g) 34 = (e, ref)" "spawned (Suc k) e" "tables_ok (fw_mem w) e" "cells (fw_mem w) e = cells (fw_mem w) (fg_ecs g)"
      "table e = table (fg_ecs g)" "component_masks e = (component_masks (fg_ecs g))[k := 34]" "components e = components (fg_ecs g)"
      "ecs_self e = ecs_self (fg_ecs g)" "save_component e = save_component (fg_ecs g)"
    and get: "\<And>ty. ty < 6 \<Longrightarrow> ecs_entity_get_component e ref (int ty) True = Inr (Some (cell_ptr e ty k))" by blast
  from write_name_cell [OF a(3) k, of "''camera''"] obtain m1 c1 where
    1: "write_name (fw_mem w) (Some (cell_ptr e 5 k)) 32 ''camera'' = Inr m1" "only_tables e (fw_mem w) m1"
      "cells m1 e = set_cell (cells (fw_mem w) e) 5 k c1" by auto
  note ok1 = tables_ok_kept [OF a(3) 1(2)]
  have len: "length (camera_floats (en_libm E)) = 32"
    by (simp add: camera_floats_def mat4f_make_orthographic_def mat4f_make_lookat_def Let_def)
  have len1: "length (cells m1 e 1 k) = 128" using length_cells [OF ok1 _ k, of 1] by simp
  from write_slot_floats [OF ok1 _ k, of 1 0 "camera_floats (en_libm E)" ?R] len obtain m2 c2 where
    2: "write_floats ?R m1 (Some (cell_ptr e 1 k)) (camera_floats (en_libm E)) = Inr m2" "only_tables e m1 m2"
      "cells m2 e = set_cell (cells m1 e) 1 k c2" "floats_of ?R c2 = map (rounded ?R) (camera_floats (en_libm E))"
    using len1 by auto
  have run: "spawn_camera E (w, g) = Inr (w\<lparr>fw_mem := m2\<rparr>, g\<lparr>fg_ecs := e, camera_ent := ref\<rparr>)"
    using get [of 5] get [of 1] types 1(1) 2(1) by (simp add: spawn_camera_def cm a(1) types_ok_def)
  have cells: "cells m2 e = set_cell (set_cell (cells (fw_mem w) (fg_ecs g)) 5 k c1) 1 k c2" using 1(3) 2(3) a(4) by simp
  have "spawn_step k 34 (w, g) (w\<lparr>fw_mem := m2\<rparr>, g\<lparr>fg_ecs := e, camera_ent := ref\<rparr>)"
    using a only_tables_trans [OF 1(2) 2(2)] tables_ok_kept [OF ok1 2(2)] cells by (simp add: spawn_step_def only_tables_def)
  moreover have "floats_of ?R (cells m2 e 1 k) = map (rounded ?R) (camera_floats (en_libm E))" using 2(4) by (simp add: cells)
  ultimately show thesis using that run by blast
qed

lemma rounded_columns:
  assumes "float_contract R"
  shows "rounded R (block_column i) = block_column i" "rounded R (block_row i) = block_row i"
proof -
  have "i mod 4 = 0 \<or> i mod 4 = 1 \<or> i mod 4 = 2 \<or> i mod 4 = 3" by linarith
  then have "block_column i = (9 :: 'a) \<or> block_column i = (3 :: 'a) \<or> block_column i = (- 3 :: 'a) \<or> block_column i = (- 9 :: 'a)"
    by (elim disjE) (simp_all add: block_column_def)
  then show "rounded R (block_column i) = block_column i"
    using rounded_int [OF assms, of 9] rounded_int [OF assms, of 3] rounded_int [OF assms, of "- 3"] rounded_int [OF assms, of "- 9"]
    by (elim disjE) simp_all
  show "rounded R (block_row i) = block_row i" using rounded_consts [OF assms] by (simp add: block_row_def)
qed

lemma block_places: "block_column i \<in> {9, 3, - 3, - 9 :: 'a::linordered_field}" "block_row i \<in> {2, 0, - 2 :: 'a}"
proof -
  have "i mod 4 = 0 \<or> i mod 4 = 1 \<or> i mod 4 = 2 \<or> i mod 4 = 3" by linarith
  then show "block_column i \<in> {9, 3, - 3, - 9 :: 'a}" by (elim disjE) (simp_all add: block_column_def)
  show "block_row i \<in> {2, 0, - 2 :: 'a}" by (simp add: block_row_def)
qed

text \<open>A new block: in its row and place, with its own random width.\<close>

definition new_block :: "('a::linordered_field, 'd, 't) frogger_env \<Rightarrow> nat \<Rightarrow> nat \<Rightarrow> 'a transform_t \<Rightarrow> 'a \<Rightarrow> bool" where
  "new_block E i n t x \<longleftrightarrow> x = rounded (en_floats E) (random_scale E n) \<and>
     t = \<lparr>translation = vec 0 (block_column i) (block_row i), tscale = vec 1 x 1, rotation = quatf_identity\<rparr>"

lemma new_block_ok:
  fixes E :: "('a::linordered_field, 'd, 't) frogger_env"
  assumes "float_contract (en_floats E)" and "rand_contract E" and "new_block E i n t x"
  shows "block_ok (en_floats E) d t x"
proof -
  have "\<bar>block_column i :: 'a\<bar> \<le> 12" using block_places(1) [of i, where 'a = 'a] by auto
  moreover have "0 \<le> (of_nat d :: 'a)" by simp
  ultimately have "- (12 + of_nat d) \<le> (block_column i :: 'a)" "(block_column i :: 'a) \<le> 12 + of_nat d" by linarith+
  with rounded_scale [OF assms(1,2), of n] assms(3) block_places(2) [of i, where 'a = 'a] show ?thesis
    by (simp add: block_ok_def new_block_def)
qed

lemma spawn_block_ok:
  fixes E :: "('a::linordered_field, 'd, 't) frogger_env"
  assumes R: "float_contract (en_floats E)" and rand: "rand_contract E"
    and ok: "tables_ok (fw_mem w) (fg_ecs g)" and types: "types_ok g" and sp: "spawned k (fg_ecs g)" and k: "k < k_max_entities"
    and st: "storable (field_ptr g offset_block_mesh)" "storable (field_ptr g offset_cube_shader)"
  obtains m e ref where
    "spawn_block E i (w, g) = Inr (w\<lparr>fw_mem := m, fw_rand := Suc (fw_rand w)\<rparr>, g\<lparr>fg_ecs := e, block_ents := (block_ents g)[i := ref]\<rparr>)"
    "spawn_step k 53 (w, g) (w\<lparr>fw_mem := m, fw_rand := Suc (fw_rand w)\<rparr>, g\<lparr>fg_ecs := e, block_ents := (block_ents g)[i := ref]\<rparr>)"
    "new_block E i (fw_rand w) (slot_transform (en_floats E) (cells m e) k) (slot_scale (en_floats E) (cells m e) k)" "has_model (cells m e) k"
proof -
  let ?R = "en_floats E"
  define x where "x = rounded ?R (random_scale E (fw_rand w))"
  note c = rounded_consts [OF R] and x = rounded_scale [OF R rand, of "fw_rand w", folded x_def]
  have cm: "component_mask [0, 2, 4, 5] = Inr 53" by (simp add: component_mask.simps)
  from spawn_entity [OF sp k ok, of 53] obtain e ref where
    a: "ecs_entity_add (fg_ecs g) 53 = (e, ref)" "spawned (Suc k) e" "tables_ok (fw_mem w) e" "cells (fw_mem w) e = cells (fw_mem w) (fg_ecs g)"
      "table e = table (fg_ecs g)" "component_masks e = (component_masks (fg_ecs g))[k := 53]" "components e = components (fg_ecs g)"
      "ecs_self e = ecs_self (fg_ecs g)" "save_component e = save_component (fg_ecs g)"
    and get: "\<And>ty. ty < 6 \<Longrightarrow> ecs_entity_get_component e ref (int ty) True = Inr (Some (cell_ptr e ty k))" by blast
  let ?tp = "Some (cell_ptr e 0 k)" and ?bp = "Some (cell_ptr e 4 k)"
  from write_slot_transform [OF a(3) k, of ?R transform_identity] obtain m1 c1 where
    1: "write_transform ?R (fw_mem w) ?tp transform_identity = Inr m1" "only_tables e (fw_mem w) m1"
      "cells m1 e = set_cell (cells (fw_mem w) e) 0 k c1" "transform_of (floats_of ?R c1) = round_transform ?R transform_identity" by blast
  note ok1 = tables_ok_kept [OF a(3) 1(2)]
  have t1: "slot_transform ?R (cells m1 e) k = \<lparr>translation = vec 0 0 0, tscale = vec 1 1 1, rotation = quatf_identity\<rparr>"
    using 1(3,4) c by (simp add: slot_transform_def round_transform_def round_vec_def transform_identity_def vec3f_zero_def vec3f_one_def quatf_identity_def)
  from move_by_follows [OF ok1 k, of ?R "vec3f_scale vec3f_up (block_row i)"] obtain m2 c2 where
    2: "move_by ?R m1 ?tp (vec3f_scale vec3f_up (block_row i)) = Inr m2" "only_tables e m1 m2" "cells m2 e = set_cell (cells m1 e) 0 k c2"
      "transform_of (floats_of ?R c2) = \<lparr>translation = vec 0 0 (block_row i), tscale = vec 1 1 1, rotation = quatf_identity\<rparr>"
    by (auto simp: t1 round_vec_def vec3f_add_def vec3f_scale_def vec3f_up_def c rounded_columns [OF R])
  note ok2 = tables_ok_kept [OF ok1 2(2)]
  have t2: "slot_transform ?R (cells m2 e) k = \<lparr>translation = vec 0 0 (block_row i), tscale = vec 1 1 1, rotation = quatf_identity\<rparr>"
    using 2(3,4) by (simp add: slot_transform_def)
  from move_by_follows [OF ok2 k, of ?R "vec3f_scale vec3f_right (block_column i)"] obtain m3 c3 where
    3: "move_by ?R m2 ?tp (vec3f_scale vec3f_right (block_column i)) = Inr m3" "only_tables e m2 m3" "cells m3 e = set_cell (cells m2 e) 0 k c3"
      "transform_of (floats_of ?R c3) = \<lparr>translation = vec 0 (block_column i) (block_row i), tscale = vec 1 1 1, rotation = quatf_identity\<rparr>"
    by (auto simp: t2 round_vec_def vec3f_add_def vec3f_scale_def vec3f_right_def c rounded_columns [OF R])
  note ok3 = tables_ok_kept [OF ok2 3(2)]
  from write_name_cell [OF ok3 k, of "''block''"] obtain m4 c4 where
    4: "write_name m3 (Some (cell_ptr e 5 k)) 32 ''block'' = Inr m4" "only_tables e m3 m4" "cells m4 e = set_cell (cells m3 e) 5 k c4" by auto
  note ok4 = tables_ok_kept [OF ok3 4(2)]
  from write_slot_scale [OF ok4 k, of ?R "random_scale E (fw_rand w)"] obtain m5 c5 where
    5: "write_floats ?R m4 ?bp [random_scale E (fw_rand w)] = Inr m5" "only_tables e m4 m5" "cells m5 e = set_cell (cells m4 e) 4 k c5"
      "floats_of ?R c5 = [x]" unfolding x_def by blast
  note ok5 = tables_ok_kept [OF ok4 5(2)]
  have s5: "slot_scale ?R (cells m5 e) k = x" using 5(3,4) by (simp add: slot_scale_def)
  have t5: "slot_transform ?R (cells m5 e) k = \<lparr>translation = vec 0 (block_column i) (block_row i), tscale = vec 1 1 1, rotation = quatf_identity\<rparr>"
    using 3(3,4) 4(3) 5(3) by (simp add: slot_transform_def)
  from write_slot_scale_y [OF ok5 k, of ?R x] obtain m6 c6 where
    6: "write_floats ?R m5 (ptr_add ?tp offset_scale_y) [x] = Inr m6" "only_tables e m5 m6" "cells m6 e = set_cell (cells m5 e) 0 k c6"
      "transform_of (floats_of ?R c6) = \<lparr>translation = vec 0 (block_column i) (block_row i), tscale = vec 1 x 1, rotation = quatf_identity\<rparr>"
    by (auto simp: t5 x(3))
  note ok6 = tables_ok_kept [OF ok5 6(2)]
  from write_model_cell [OF ok6 k st] obtain m7 c7 where
    7: "write_model m6 (Some (cell_ptr e 2 k)) (field_ptr g offset_block_mesh) (field_ptr g offset_cube_shader) = Inr m7" "only_tables e m6 m7"
      "cells m7 e = set_cell (cells m6 e) 2 k c7" "ptr_of_bits (of_le64 (take 8 c7)) = Some (field_ptr g offset_block_mesh)"
      "ptr_of_bits (of_le64 (drop 8 c7)) = Some (field_ptr g offset_cube_shader)" by blast
  have run: "spawn_block E i (w, g) = Inr (w\<lparr>fw_mem := m7, fw_rand := Suc (fw_rand w)\<rparr>, g\<lparr>fg_ecs := e, block_ents := (block_ents g)[i := ref]\<rparr>)"
    using get [of 0] get [of 5] get [of 4] get [of 2] types 1(1) 2(1) 3(1) 4(1) 5(1) read_slot(3) [OF ok5 k, of ?R] s5 6(1) 7(1)
    by (simp add: spawn_block_def cm a(1) types_ok_def Let_def)
  have cells: "cells m7 e = set_cell (set_cell (set_cell (set_cell (set_cell (set_cell (set_cell
      (cells (fw_mem w) (fg_ecs g)) 0 k c1) 0 k c2) 0 k c3) 5 k c4) 4 k c5) 0 k c6) 2 k c7"
    using 1(3) 2(3) 3(3) 4(3) 5(3) 6(3) 7(3) a(4) by simp
  note o12 = only_tables_trans [OF 1(2) 2(2)] note o123 = only_tables_trans [OF o12 3(2)] note o1234 = only_tables_trans [OF o123 4(2)]
  note only = only_tables_trans [OF only_tables_trans [OF only_tables_trans [OF o1234 5(2)] 6(2)] 7(2)]
  have "spawn_step k 53 (w, g) (w\<lparr>fw_mem := m7, fw_rand := Suc (fw_rand w)\<rparr>, g\<lparr>fg_ecs := e, block_ents := (block_ents g)[i := ref]\<rparr>)"
    using a only tables_ok_kept [OF ok6 7(2)] cells by (simp add: spawn_step_def only_tables_def)
  moreover have "new_block E i (fw_rand w) (slot_transform ?R (cells m7 e) k) (slot_scale ?R (cells m7 e) k)"
    using 6(4) 5(4) by (simp add: new_block_def slot_transform_def slot_scale_def cells x_def)
  moreover have "has_model (cells m7 e) k" using 7(4,5) by (simp add: has_model_def model_at_def cells)
  ultimately show thesis using that run by blast
qed

end
