(* ===== verification/Frogger_Start.thy ===== *)
theory Frogger_Start
  imports Frogger_Create
begin

text \<open>
  The game from its creation to its destruction: what \<^verbatim>\<open>frogger_game_create\<close> makes satisfies the
  invariant, and \<^verbatim>\<open>frogger_game_destroy\<close> releases what the game has allocated, and nothing else.
\<close>

section \<open>The shader files\<close>

text \<open>A file that is there, is read completely, and fits the arguments of the calls.\<close>

definition shader_file :: "'d fs_io \<Rightarrow> 'd \<Rightarrow> string \<Rightarrow> bytes \<Rightarrow> 'd \<Rightarrow> bool" where
  "shader_file io d path bs d' \<longleftrightarrow> 0 < io_wide io path \<and> io_open_read io d path = Inr d' \<and>
     io_size io d' path = Inr (word_of_nat (length bs)) \<and> io_read io d' path (word_of_nat (length bs)) = Inr bs \<and>
     bs \<noteq> [] \<and> length bs < 2 ^ 31"

lemma shader_read:
  assumes ok: "mem_ok m" and f: "shader_file io d (w_path work) bs d'" and plain: "\<not> w_null_terminate work" "\<not> w_use_compression work"
    and room: "length bs \<le> os_avail m"
  obtains m' where "file_read io d m work =
      Inr (d', m', work_done (work\<lparr>w_buffer := Some (next_block m, 0), w_size := word_of_nat (length bs)\<rparr>), False)"
    "grown m m' (length bs)" "next_block m' = Suc (next_block m)" "blocks m' (next_block m) = Some bs"
proof -
  have len: "unat (word_of_nat (length bs) :: u64) = length bs"
    using f by (subst unat_of_nat) (simp add: shader_file_def)
  have pos: "0 < length bs" using f by (simp add: shader_file_def)
  obtain m1 where a: "heap_alloc m (length bs) 8 = (m1, Some (next_block m, 0))" "grown m m1 (length bs)"
    "next_block m1 = Suc (next_block m)" "blocks m1 (next_block m) = Some (replicate (length bs) (junk m))"
    using alloc_grown [OF ok pos room] by blast
  define m2 where "m2 = m1\<lparr>blocks := (blocks m1)(next_block m := Some bs)\<rparr>"
  have w: "mem_write m1 (Some (next_block m, 0)) bs = Inr m2" using a(4) by (simp add: mem_write_def splice_def m2_def)
  have "grown m m2 (length bs)" using a(2) mem_ok_write [OF _ w] by (auto simp: grown_def m2_def)
  moreover have "file_read io d m work =
      Inr (d', m2, work_done (work\<lparr>w_buffer := Some (next_block m, 0), w_size := word_of_nat (length bs)\<rparr>), False)"
    using f plain len a(1) w by (simp add: file_read_def shader_file_def Let_def unsigned_of_nat)
  ultimately show thesis using that a(3) by (simp add: m2_def)
qed

lemma fs_read_work_grown:
  assumes ok: "mem_ok m" and room: "sizeof_fs_work_t \<le> os_avail m" and path: "length path < k_path_size"
  obtains m' where "fs_read_work m path nt c = Inr (m', \<lparr>w_self = Some (next_block m, 0), w_op = k_fs_work_op_read, w_path = path,
      w_null_terminate = nt, w_use_compression = c, w_buffer = None, w_size = 0, w_done = False, w_result = 0\<rparr>)"
    "grown m m' sizeof_fs_work_t" "next_block m' = Suc (next_block m)" "block_size m' (next_block m, 0) = Some sizeof_fs_work_t"
proof -
  obtain m1 where a: "heap_alloc m sizeof_fs_work_t 8 = (m1, Some (next_block m, 0))" "grown m m1 sizeof_fs_work_t"
    "next_block m1 = Suc (next_block m)" "blocks m1 (next_block m) = Some (replicate sizeof_fs_work_t (junk m))"
    using alloc_grown [OF ok _ room] by (auto simp: sizeof_fs_work_t_def)
  then show thesis using that [of m1] path
    by (simp add: fs_read_work_def fs_work_new_def event_create_def block_size_def)
qed

text \<open>Blocks of the heap from \<open>b\<close> to \<open>b'\<close> that are live.\<close>

definition live_from :: "mem \<Rightarrow> nat \<Rightarrow> nat \<Rightarrow> bool" where
  "live_from m b b' \<longleftrightarrow> next_block m = b' \<and> (\<forall>k. b \<le> k \<longrightarrow> k < b' \<longrightarrow> block_size m (k, 0) \<noteq> None)"

lemma live_from_next:
  assumes l: "live_from m b b'" and ok: "mem_ok m" and g: "grown m m' n" and nb: "next_block m' = Suc b'" and s: "block_size m' (b', 0) \<noteq> None"
  shows "live_from m' b (Suc b')"
proof -
  have "block_size m' (k, 0) \<noteq> None" if "b \<le> k" "k < b'" for k
  proof -
    from l that obtain j where "block_size m (k, 0) = Some j" unfolding live_from_def by blast
    from block_size_grown [OF ok g this] show ?thesis by simp
  qed
  with nb s show ?thesis by (auto simp: live_from_def less_Suc_eq)
qed

text \<open>The works and then the buffers, four blocks.\<close>

lemma load_resources_ok:
  fixes E :: "('a::linordered_field, 'd, 't) frogger_env"
  assumes ok: "mem_ok (fw_mem w)"
    and vert: "shader_file (en_io E) (fw_disk w) ''shaders/triangle.vert.spv'' vs d1"
    and frag: "shader_file (en_io E) d1 ''shaders/triangle.frag.spv'' fs d2"
    and room: "2 * sizeof_fs_work_t + length vs + length fs \<le> os_avail (fw_mem w)"
    and live: "live_from (fw_mem w) b0 (next_block (fw_mem w))"
  defines "b \<equiv> next_block (fw_mem w)"
  obtains m wv wg where
    "load_resources E (w, g) = Inr (w\<lparr>fw_mem := m, fw_disk := d2\<rparr>, g\<lparr>vertex_shader_work := Some wv, fragment_shader_work := Some wg,
       cube_shader := \<lparr>si_vertex_shader = vs, si_fragment_shader = fs, si_uniform_buffer_count = 1\<rparr>,
       cube_mesh := cube_info (en_floats E), block_mesh := cube_info (en_floats E)\<rparr>)"
    "grown (fw_mem w) m (2 * sizeof_fs_work_t + length vs + length fs)" "live_from m b0 (b + 4)"
    "w_self wv = Some (b, 0)" "w_self wg = Some (b + 1, 0)" "w_buffer wv = Some (b + 2, 0)" "w_buffer wg = Some (b + 3, 0)"
    "w_done wv" "w_done wg"
proof -
  have p: "length ''shaders/triangle.vert.spv'' < k_path_size" "length ''shaders/triangle.frag.spv'' < k_path_size"
    by (simp_all add: k_path_size_def)
  let ?work = "\<lambda>k path. \<lparr>w_self = Some (k, 0), w_op = k_fs_work_op_read, w_path = path, w_null_terminate = False,
      w_use_compression = False, w_buffer = None, w_size = 0, w_done = False, w_result = 0\<rparr>"
  define wv wg where "wv = work_done ((?work b ''shaders/triangle.vert.spv'')\<lparr>w_size := word_of_nat (length vs), w_buffer := Some (b + 2, 0)\<rparr>)"
    and "wg = work_done ((?work (b + 1) ''shaders/triangle.frag.spv'')\<lparr>w_size := word_of_nat (length fs), w_buffer := Some (b + 3, 0)\<rparr>)"
  have "sizeof_fs_work_t \<le> os_avail (fw_mem w)" using room by simp
  from fs_read_work_grown [OF ok this p(1), of False False] obtain m1 where
    1: "fs_read_work (fw_mem w) ''shaders/triangle.vert.spv'' False False = Inr (m1, ?work b ''shaders/triangle.vert.spv'')"
      "grown (fw_mem w) m1 sizeof_fs_work_t" "next_block m1 = Suc b" "block_size m1 (b, 0) = Some sizeof_fs_work_t" unfolding b_def by blast
  have ok1: "mem_ok m1" using 1(2) by (simp add: grown_def)
  have "sizeof_fs_work_t \<le> os_avail m1" using room 1(2) by (simp add: grown_def)
  from fs_read_work_grown [OF ok1 this p(2), of False False] obtain m2 where
    2: "fs_read_work m1 ''shaders/triangle.frag.spv'' False False = Inr (m2, ?work (b + 1) ''shaders/triangle.frag.spv'')"
      "grown m1 m2 sizeof_fs_work_t" "next_block m2 = Suc (b + 1)" "block_size m2 (b + 1, 0) = Some sizeof_fs_work_t"
    unfolding 1(3) Suc_eq_plus1 by blast
  have ok2: "mem_ok m2" using 2(2) by (simp add: grown_def)
  have nb2: "next_block m2 = b + 2" using 2(3) by simp
  have "shader_file (en_io E) (fw_disk w) (w_path (?work b ''shaders/triangle.vert.spv'')) vs d1" using vert by simp
  from shader_read [OF ok2 this] room 1(2) 2(2) obtain m3 where
    3: "file_read (en_io E) (fw_disk w) m2 (?work b ''shaders/triangle.vert.spv'') = Inr (d1, m3, wv, False)"
      "grown m2 m3 (length vs)" "next_block m3 = Suc (b + 2)" "blocks m3 (b + 2) = Some vs"
    by (auto simp: grown_def nb2 wv_def)
  have ok3: "mem_ok m3" using 3(2) by (simp add: grown_def)
  have nb3: "next_block m3 = b + 3" using 3(3) by simp
  have "shader_file (en_io E) d1 (w_path (?work (b + 1) ''shaders/triangle.frag.spv'')) fs d2" using frag by simp
  from shader_read [OF ok3 this] room 1(2) 2(2) 3(2) obtain m4 where
    4: "file_read (en_io E) d1 m3 (?work (b + 1) ''shaders/triangle.frag.spv'') = Inr (d2, m4, wg, False)"
      "grown m3 m4 (length fs)" "next_block m4 = Suc (b + 3)" "blocks m4 (b + 3) = Some fs"
    by (auto simp: grown_def nb3 wg_def)
  have vs4: "blocks m4 (b + 2) = Some vs" using 3(4) 4(2) by (simp add: grown_def nb3)
  have len: "unat (word_of_nat (length vs) :: u64) = length vs" "unat (word_of_nat (length fs) :: u64) = length fs"
    using vert frag by (subst unat_of_nat, simp add: shader_file_def)+
  have bytes: "work_bytes m4 wv = Inr vs" "work_bytes m4 wg = Inr fs"
    using vs4 4(4) len by (simp_all add: work_bytes_def wv_def wg_def work_done_def fs_work_get_buffer_def fs_work_get_size_def
        fs_work_wait_def event_wait_def event_signal_def mem_read_def)
  note g12 = grown_trans [OF 1(2) 2(2)] note g = grown_trans [OF grown_trans [OF g12 3(2)] 4(2)]
  have l1: "live_from m1 b0 (Suc b)"
    by (rule live_from_next [OF _ ok 1(2) 1(3)]) (use live 1(4) in \<open>simp_all add: b_def\<close>)
  have l2: "live_from m2 b0 (b + 2)"
    using live_from_next [OF l1 ok1 2(2)] 2(3,4) by simp
  have l3: "live_from m3 b0 (b + 3)"
    using live_from_next [OF l2 ok2 3(2)] 3(3,4) by (simp add: block_size_def eval_nat_numeral)
  have l4: "live_from m4 b0 (b + 4)"
    using live_from_next [OF l3 ok3 4(2)] 4(3,4) by (simp add: block_size_def eval_nat_numeral)
  show thesis
  proof (rule that [where m = m4 and wv = wv and wg = wg])
    show "load_resources E (w, g) = Inr (w\<lparr>fw_mem := m4, fw_disk := d2\<rparr>, g\<lparr>vertex_shader_work := Some wv, fragment_shader_work := Some wg,
       cube_shader := \<lparr>si_vertex_shader = vs, si_fragment_shader = fs, si_uniform_buffer_count = 1\<rparr>,
       cube_mesh := cube_info (en_floats E), block_mesh := cube_info (en_floats E)\<rparr>)"
      using 1(1) 2(1) 3(1) 4(1) bytes by (simp add: load_resources_def)
    show "grown (fw_mem w) m4 (2 * sizeof_fs_work_t + length vs + length fs)" using g by (simp add: mult_2 add.assoc)
  qed (use l4 in \<open>simp_all add: wv_def wg_def work_done_def event_signal_def\<close>)
qed

section \<open>The blocks\<close>

text \<open>After \<open>n\<close> blocks, in the slots from 1.\<close>

definition blocks_made :: "('a::linordered_field, 'd, 't) frogger_env \<Rightarrow> nat \<Rightarrow> ('d, 't) frogger_state \<Rightarrow> ('d, 't) frogger_state \<Rightarrow> bool" where
  "blocks_made E n s0 s \<longleftrightarrow>
     spawned (Suc n) (fg_ecs (snd s)) \<and> tables_ok (fw_mem (fst s)) (fg_ecs (snd s)) \<and>
     only_tables (fg_ecs (snd s0)) (fw_mem (fst s0)) (fw_mem (fst s)) \<and>
     table (fg_ecs (snd s)) = table (fg_ecs (snd s0)) \<and> components (fg_ecs (snd s)) = components (fg_ecs (snd s0)) \<and>
     ecs_self (fg_ecs (snd s)) = ecs_self (fg_ecs (snd s0)) \<and> save_component (fg_ecs (snd s)) = save_component (fg_ecs (snd s0)) \<and>
     (\<forall>j < k_max_entities. component_masks (fg_ecs (snd s)) ! j =
        (if 1 \<le> j \<and> j \<le> n then 53 else component_masks (fg_ecs (snd s0)) ! j)) \<and>
     (\<forall>ty j. \<not> (1 \<le> j \<and> j \<le> n) \<longrightarrow> cells (fw_mem (fst s)) (fg_ecs (snd s)) ty j = cells (fw_mem (fst s0)) (fg_ecs (snd s0)) ty j) \<and>
     (\<forall>j. 1 \<le> j \<and> j \<le> n \<longrightarrow> has_model (cells (fw_mem (fst s)) (fg_ecs (snd s))) j \<and>
        new_block E (j - 1) (fw_rand (fst s0) + (j - 1)) (fst (field_of E s) j) (fst (snd (field_of E s)) j)) \<and>
     fst s = (fst s0)\<lparr>fw_mem := fw_mem (fst s), fw_rand := fw_rand (fst s0) + n\<rparr> \<and>
     snd s = (snd s0)\<lparr>fg_ecs := fg_ecs (snd s), block_ents := block_ents (snd s)\<rparr>"

lemma blocks_made_start:
  "spawned 1 (fg_ecs (snd s)) \<Longrightarrow> tables_ok (fw_mem (fst s)) (fg_ecs (snd s)) \<Longrightarrow> blocks_made E 0 s s"
  by (simp add: blocks_made_def)

lemma blocks_made_next:
  fixes E :: "('a::linordered_field, 'd, 't) frogger_env"
  assumes made: "blocks_made E n s0 s" and n: "Suc n < k_max_entities" and types: "types_ok (snd s0)"
    and R: "float_contract (en_floats E)" and rand: "rand_contract E"
    and st: "storable (field_ptr (snd s0) offset_block_mesh)" "storable (field_ptr (snd s0) offset_cube_shader)"
  obtains s' where "spawn_block E n s = Inr s'" "blocks_made E (Suc n) s0 s'"
proof -
  obtain w g where s: "s = (w, g)" by (cases s)
  have ok: "tables_ok (fw_mem w) (fg_ecs g)" and sp: "spawned (Suc n) (fg_ecs g)"
    and g: "g = (snd s0)\<lparr>fg_ecs := fg_ecs g, block_ents := block_ents g\<rparr>"
    and w: "w = (fst s0)\<lparr>fw_mem := fw_mem w, fw_rand := fw_rand (fst s0) + n\<rparr>"
    using made by (simp_all add: blocks_made_def s)
  have self: "types_ok g" "fg_self g = fg_self (snd s0)"
    using types by (subst g, simp add: types_ok_def) (subst g, simp)
  have st': "storable (field_ptr g offset_block_mesh)" "storable (field_ptr g offset_cube_shader)"
    using st self(2) by (simp_all add: field_ptr_def)
  have nr: "fw_rand w = fw_rand (fst s0) + n" by (subst w) simp
  from spawn_block_ok [OF R rand ok self(1) sp n st', of n] obtain m e ref where
    a: "spawn_block E n (w, g) = Inr (w\<lparr>fw_mem := m, fw_rand := Suc (fw_rand w)\<rparr>, g\<lparr>fg_ecs := e, block_ents := (block_ents g)[n := ref]\<rparr>)"
    and step: "spawn_step (Suc n) 53 (w, g) (w\<lparr>fw_mem := m, fw_rand := Suc (fw_rand w)\<rparr>, g\<lparr>fg_ecs := e, block_ents := (block_ents g)[n := ref]\<rparr>)"
    and new: "new_block E n (fw_rand w) (slot_transform (en_floats E) (cells m e) (Suc n)) (slot_scale (en_floats E) (cells m e) (Suc n))"
      "has_model (cells m e) (Suc n)" by blast
  define s' where "s' = (w\<lparr>fw_mem := m, fw_rand := Suc (fw_rand w)\<rparr>, g\<lparr>fg_ecs := e, block_ents := (block_ents g)[n := ref]\<rparr>)"
  have sel: "fw_mem (fst s') = m" "fg_ecs (snd s') = e" "fw_rand (fst s') = Suc (fw_rand w)" by (simp_all add: s'_def)
  have len: "length (component_masks (fg_ecs g)) = k_max_entities" using tables_ok_shape [OF ok] by (simp add: ecs_shape_def)
  have masks: "component_masks e = (component_masks (fg_ecs g))[Suc n := 53]" using step by (simp add: spawn_step_def)
  have others: "cells m e ty j = cells (fw_mem w) (fg_ecs g) ty j" if "j \<noteq> Suc n" for ty j
    using step that by (simp_all add: spawn_step_def)
  have "blocks_made E (Suc n) s0 s'"
    unfolding blocks_made_def sel
  proof (intro conjI allI impI)
    show "spawned (Suc (Suc n)) e" "tables_ok m e" using step by (simp_all add: spawn_step_def)
    have "table (fg_ecs g) = table (fg_ecs (snd s0))" using made by (simp add: blocks_made_def s)
    moreover from this have "only_tables (fg_ecs (snd s0)) (fw_mem w) m" using step by (simp add: spawn_step_def only_tables_def)
    ultimately show "only_tables (fg_ecs (snd s0)) (fw_mem (fst s0)) m" "table e = table (fg_ecs (snd s0))"
      using made step only_tables_trans by (auto simp: blocks_made_def s spawn_step_def)
    show "components e = components (fg_ecs (snd s0))" "ecs_self e = ecs_self (fg_ecs (snd s0))"
      "save_component e = save_component (fg_ecs (snd s0))"
      using made step by (simp_all add: blocks_made_def s spawn_step_def)
    show "component_masks e ! j = (if 1 \<le> j \<and> j \<le> Suc n then 53 else component_masks (fg_ecs (snd s0)) ! j)" if "j < k_max_entities" for j
    proof -
      have "component_masks (fg_ecs g) ! j = (if 1 \<le> j \<and> j \<le> n then 53 else component_masks (fg_ecs (snd s0)) ! j)"
        using made that by (simp add: blocks_made_def s)
      then show ?thesis using that len by (cases "j = Suc n") (auto simp: masks)
    qed
    show "cells m e ty j = cells (fw_mem (fst s0)) (fg_ecs (snd s0)) ty j" if "\<not> (1 \<le> j \<and> j \<le> Suc n)" for ty j
      using made that others [of j ty] by (auto simp: blocks_made_def s)
    show "has_model (cells m e) j" if "1 \<le> j \<and> j \<le> Suc n" for j
    proof (cases "j = Suc n")
      case False
      with that made have "has_model (cells (fw_mem w) (fg_ecs g)) j" by (simp add: blocks_made_def s)
      then show ?thesis using others [OF False] by (simp add: has_model_def model_at_def)
    qed (use new(2) in simp)
    show "new_block E (j - 1) (fw_rand (fst s0) + (j - 1)) (fst (field_of E s') j) (fst (snd (field_of E s')) j)"
      if "1 \<le> j \<and> j \<le> Suc n" for j
    proof (cases "j = Suc n")
      case False
      with that made have "new_block E (j - 1) (fw_rand (fst s0) + (j - 1)) (fst (field_of E s) j) (fst (snd (field_of E s)) j)"
        by (simp add: blocks_made_def)
      moreover have "fst (field_of E s') j = fst (field_of E s) j" "fst (snd (field_of E s')) j = fst (snd (field_of E s)) j"
        using others [OF False] by (simp_all add: field_of_def sel s slot_transform_def slot_scale_def)
      ultimately show ?thesis by simp
    qed (use new(1) in \<open>simp add: field_of_def sel nr\<close>)
    show "fst s' = (fst s0)\<lparr>fw_mem := m, fw_rand := fw_rand (fst s0) + Suc n\<rparr>"
      unfolding s'_def fst_conv nr by (subst w) simp
    show "snd s' = (snd s0)\<lparr>fg_ecs := e, block_ents := block_ents (snd s')\<rparr>"
      unfolding s'_def snd_conv by (subst (1) g) simp
  qed
  with a show thesis by (intro that [of s']) (simp_all add: s s'_def)
qed

lemma spawn_blocks_ok:
  fixes E :: "('a::linordered_field, 'd, 't) frogger_env"
  assumes "spawned 1 (fg_ecs (snd s))" and "tables_ok (fw_mem (fst s)) (fg_ecs (snd s))" and types: "types_ok (snd s)"
    and R: "float_contract (en_floats E)" and rand: "rand_contract E"
    and st: "storable (field_ptr (snd s) offset_block_mesh)" "storable (field_ptr (snd s) offset_cube_shader)"
  obtains s' where "spawn_blocks E s = Inr s'" "blocks_made E 12 s s'"
proof -
  have "\<exists>s'. for_each_ok (spawn_block E) [n..<n + k] s1 = Inr s' \<and> blocks_made E (n + k) s s'"
    if "blocks_made E n s s1" "n + k \<le> 12" for n k s1
    using that
  proof (induction k arbitrary: n s1)
    case (Suc k)
    have "Suc n < k_max_entities" using Suc.prems(2) by (simp add: k_max_entities_def)
    from blocks_made_next [OF Suc.prems(1) this types R rand st] obtain s2 where
      2: "spawn_block E n s1 = Inr s2" "blocks_made E (Suc n) s s2" .
    from Suc.IH [OF 2(2)] Suc.prems(2) obtain s' where "for_each_ok (spawn_block E) [Suc n..<Suc n + k] s2 = Inr s'" "blocks_made E (Suc n + k) s s'"
      by auto
    moreover have "[n..<n + Suc k] = n # [Suc n..<Suc n + k]" by (simp add: upt_conv_Cons del: upt_Suc)
    ultimately show ?case using 2(1) by (intro exI [of _ s']) (simp del: upt_Suc)
  qed auto
  from this [OF blocks_made_start [OF assms(1,2)], of 12] show thesis using that by (auto simp: spawn_blocks_def)
qed

section \<open>The creation\<close>

definition game_room :: "bytes \<Rightarrow> bytes \<Rightarrow> nat" where
  "game_room vs fs = sizeof_frogger_game_t + sizeof_timer_object_t + sizeof_ecs_t + tables_total +
     (2 * sizeof_fs_work_t + length vs + length fs)"

text \<open>The game without its entities: thirteen blocks from \<open>b\<close>.\<close>

definition new_timer :: "'t fp_lib \<Rightarrow> u64 \<Rightarrow> 't timer_object_t" where
  "new_timer F now = \<lparr>current_ticks = 0, delta_ticks = 0, to_parent = None, bias_ticks = now, to_scale = fp_one F, to_paused = False\<rparr>"

definition empty_game :: "'t fp_lib \<Rightarrow> u64 \<Rightarrow> nat \<Rightarrow> ('d, 't) frogger_state \<Rightarrow> bool" where
  "empty_game F now b s \<longleftrightarrow> tables_ok (fw_mem (fst s)) (fg_ecs (snd s)) \<and> spawned 0 (fg_ecs (snd s)) \<and>
     component_masks (fg_ecs (snd s)) = replicate k_max_entities 0 \<and> types_ok (snd s) \<and> saves_ok (fg_ecs (snd s)) \<and>
     fg_self (snd s) = (b, 0) \<and> fst (fg_timer (snd s)) = b + 1 \<and>
     fw_timers (fst s) (b + 1) = Some (new_timer F now) \<and>
     holds_blocks (fw_mem (fst s)) (snd s) \<and> set (game_blocks (snd s)) = (\<lambda>k. (k, 0)) ` {b..<b + 13} \<and>
     next_block (fw_mem (fst s)) = b + 13"

lemma alloc_command_grown:
  assumes "mem_ok m" and "0 < n" and "n \<le> os_avail m"
  obtains m' where "alloc_command m n = Inr (m', (next_block m, 0))" "grown m m' n" "next_block m' = Suc (next_block m)"
    "block_size m' (next_block m, 0) = Some n"
proof -
  from alloc_grown [OF assms, of 8] obtain m' where "heap_alloc m n 8 = (m', Some (next_block m, 0))" "grown m m' n"
    "next_block m' = Suc (next_block m)" "blocks m' (next_block m) = Some (replicate n (junk m))" by blast
  then show thesis using that [of m'] by (simp add: alloc_command_def block_size_def)
qed

lemma game_blocks_consecutive:
  assumes "components (fg_ecs g) = map (\<lambda>k. Some (b + 3 + k, 0)) [0..<6] @ replicate 58 None" and "ecs_self (fg_ecs g) = Some (b + 2, 0)"
    and "fg_self g = (b, 0)" "fg_timer g = (b + 1, 0)"
    and "vertex_shader_work g = Some wv" "fragment_shader_work g = Some wg"
    and "w_self wv = Some (b + 9, 0)" "w_self wg = Some (b + 10, 0)" "w_buffer wv = Some (b + 11, 0)" "w_buffer wg = Some (b + 12, 0)"
  shows "game_blocks g = map (\<lambda>k. (b + k, 0)) [0, 1, 2, 3, 4, 5, 6, 7, 8, 11, 9, 12, 10]"
proof -
  have "filter (\<lambda>p. p \<noteq> None) (replicate n None) = []" for n :: nat by (induction n) simp_all
  then have "some_ptrs (map (\<lambda>k. Some (b + 3 + k, 0)) [0..<6] @ replicate 58 None) = map (\<lambda>k. (b + 3 + k, 0)) [0..<6]"
    by (simp add: some_ptrs_def filter_map o_def del: upt.simps)
  also have "\<dots> = map (\<lambda>k. (b + k, 0)) [3, 4, 5, 6, 7, 8]" by (simp add: upt_rec eval_nat_numeral)
  finally have "some_ptrs (Some (b + 2, 0) # components (fg_ecs g)) = map (\<lambda>k. (b + k, 0)) [2, 3, 4, 5, 6, 7, 8]"
    unfolding assms(1) by (simp add: some_ptrs_def)
  then show ?thesis using assms by (simp add: game_blocks_def work_ptrs_def some_ptrs_def)
qed

lemma empty_game_ok:
  fixes E :: "('a::linordered_field, 'd, 't) frogger_env" and w :: "('d, 't) frogger_world"
  assumes ok: "mem_ok (fw_mem w)"
    and vert: "shader_file (en_io E) (fw_disk w) ''shaders/triangle.vert.spv'' vs d1"
    and frag: "shader_file (en_io E) d1 ''shaders/triangle.frag.spv'' fs d2"
    and room: "game_room vs fs \<le> os_avail (fw_mem w)"
  obtains s where "frogger_game_create E now w = bind_ok (spawn_player E 0 s) (\<lambda>s2. bind_ok (spawn_blocks E s2) (spawn_camera E))"
    "empty_game (en_fp E) now (next_block (fw_mem w)) s" "grown (fw_mem w) (fw_mem (fst s)) (game_room vs fs)"
    "fw_rand (fst s) = fw_rand w" "fw_disk (fst s) = d2" "fw_render (fst s) = fw_render w"
    "cube_shader (snd s) = \<lparr>si_vertex_shader = vs, si_fragment_shader = fs, si_uniform_buffer_count = 1\<rparr>"
    "fw_statics (fst s) = fw_statics w" "fw_window (fst s) = fw_window w"
proof -
  define b where "b = next_block (fw_mem w)"
  note sizes = game_room_def sizeof_frogger_game_t_def sizeof_timer_object_t_def
  have "sizeof_frogger_game_t \<le> os_avail (fw_mem w)" using room by (simp add: game_room_def)
  from alloc_command_grown [OF ok _ this] obtain m1 where
    1: "alloc_command (fw_mem w) sizeof_frogger_game_t = Inr (m1, (b, 0))" "grown (fw_mem w) m1 sizeof_frogger_game_t"
      "next_block m1 = Suc b" "block_size m1 (b, 0) = Some sizeof_frogger_game_t" by (auto simp: sizeof_frogger_game_t_def b_def)
  have ok1: "mem_ok m1" using 1(2) by (simp add: grown_def)
  have "sizeof_timer_object_t \<le> os_avail m1" using room 1(2) by (simp add: game_room_def grown_def)
  from alloc_command_grown [OF ok1 _ this] obtain m2 where
    2: "alloc_command m1 sizeof_timer_object_t = Inr (m2, (b + 1, 0))" "grown m1 m2 sizeof_timer_object_t"
      "next_block m2 = Suc (b + 1)" "block_size m2 (b + 1, 0) = Some sizeof_timer_object_t"
    by (auto simp: sizeof_timer_object_t_def 1(3))
  have ok2: "mem_ok m2" using 2(2) by (simp add: grown_def)
  have nb2: "next_block m2 = b + 2" using 2(3) by simp
  obtain ts where ts: "timer_object_create (en_fp E) (fw_timers w) now (b + 1) None = Inr ts" "ts (b + 1) = Some (new_timer (en_fp E) now)"
    by (simp add: timer_object_create_def base_ticks_def new_timer_def)
  have "sizeof_ecs_t \<le> os_avail m2" using room 1(2) 2(2) by (simp add: game_room_def grown_def)
  from registered_start [OF ok2 this] obtain m3 e where
    3: "ecs_create m2 = Inr (m3, e)" "registered 0 m3 e" "grown m2 m3 sizeof_ecs_t" "ecs_self e = Some (b + 2, 0)" "next_block m3 = Suc (b + 2)"
      "block_size m3 (b + 2, 0) = Some sizeof_ecs_t"
    unfolding nb2 .
  have ok3: "mem_ok m3" using 3(3) by (simp add: grown_def)
  have nb3: "next_block m3 = b + 3" using 3(5) by simp
  define g0 where "g0 = blank_game (b, 0) (b + 1, 0) e"
  have "registered 0 m3 (fg_ecs g0)" using 3(2) by (simp add: g0_def blank_game_def Let_def)
  moreover have "tables_total \<le> os_avail m3" using room 1(2) 2(2) 3(3) by (simp add: game_room_def grown_def)
  ultimately obtain m4 e4 where
    4: "register_types m3 g0 = Inr (m4, g0\<lparr>fg_ecs := e4, transform_type := 0, camera_type := 1, model_type := 2,
        player_type := 3, block_type := 4, name_type := 5\<rparr>)"
      "registered 6 m4 e4" "grown m3 m4 tables_total" "ecs_self e4 = ecs_self (fg_ecs g0)" "next_block m4 = b + 3 + 6"
      "components e4 = map (\<lambda>k. Some (b + 3 + k, 0)) [0..<6] @ replicate 58 None"
    using register_types_ok [of m3 g0] unfolding nb3 by blast
  have ok4: "mem_ok m4" using 4(3) by (simp add: grown_def)
  have nb4: "next_block m4 = b + 9" using 4(5) by simp
  have l1: "live_from m1 b (Suc b)" using 1(3,4) by (simp add: live_from_def less_Suc_eq)
  have l2: "live_from m2 b (b + 2)" using live_from_next [OF l1 ok1 2(2)] 2(3,4) by simp
  have l3: "live_from m3 b (b + 3)" using live_from_next [OF l2 ok2 3(3)] 3(5,6) by (simp add: eval_nat_numeral)
  have l4: "live_from m4 b (b + 9)"
  proof -
    have "block_size m4 (k, 0) \<noteq> None" if "b \<le> k" "k < b + 9" for k
    proof (cases "k < b + 3")
      case True
      with l3 that obtain j where "block_size m3 (k, 0) = Some j" unfolding live_from_def by blast
      from block_size_grown [OF ok3 4(3) this] show ?thesis by simp
    next
      case False
      define ty where "ty = k - (b + 3)"
      have ty: "ty < 6" "k = b + 3 + ty" using False that by (simp_all add: ty_def)
      have "components e4 ! ty = Some (k, 0)" using ty by (simp add: 4(6) nth_append)
      with 4(2) ty(1) show ?thesis by (auto simp: registered_def)
    qed
    with nb4 show ?thesis by (simp add: live_from_def)
  qed
  define w4 where "w4 = w\<lparr>fw_mem := m4, fw_timers := ts\<rparr>"
  define g4 where "g4 = g0\<lparr>fg_ecs := e4, transform_type := 0, camera_type := 1, model_type := 2,
        player_type := 3, block_type := 4, name_type := 5\<rparr>"
  have r4: "2 * sizeof_fs_work_t + length vs + length fs \<le> os_avail (fw_mem w4)"
    using room 1(2) 2(2) 3(3) 4(3) by (simp add: game_room_def grown_def w4_def)
  have m4: "mem_ok (fw_mem w4)" "live_from (fw_mem w4) b (next_block (fw_mem w4))" using ok4 l4 nb4 by (simp_all add: w4_def)
  have v4: "shader_file (en_io E) (fw_disk w4) ''shaders/triangle.vert.spv'' vs d1" using vert by (simp add: w4_def)
  have sel4: "fw_mem w4 = m4" by (simp add: w4_def)
  from load_resources_ok [OF m4(1) v4 frag r4 m4(2), of g4, unfolded sel4 nb4] obtain m wv wg where
    5: "load_resources E (w4, g4) = Inr (w4\<lparr>fw_mem := m, fw_disk := d2\<rparr>, g4\<lparr>vertex_shader_work := Some wv, fragment_shader_work := Some wg,
       cube_shader := \<lparr>si_vertex_shader = vs, si_fragment_shader = fs, si_uniform_buffer_count = 1\<rparr>,
       cube_mesh := cube_info (en_floats E), block_mesh := cube_info (en_floats E)\<rparr>)"
    "grown m4 m (2 * sizeof_fs_work_t + length vs + length fs)" "live_from m b (b + 9 + 4)"
    "w_self wv = Some (b + 9, 0)" "w_self wg = Some (b + 9 + 1, 0)" "w_buffer wv = Some (b + 9 + 2, 0)" "w_buffer wg = Some (b + 9 + 3, 0)"
    "w_done wv" "w_done wg"
    by blast
  define s where "s = (w4\<lparr>fw_mem := m, fw_disk := d2\<rparr>, g4\<lparr>vertex_shader_work := Some wv, fragment_shader_work := Some wg,
       cube_shader := \<lparr>si_vertex_shader = vs, si_fragment_shader = fs, si_uniform_buffer_count = 1\<rparr>,
       cube_mesh := cube_info (en_floats E), block_mesh := cube_info (en_floats E)\<rparr>)"
  have sel: "fw_mem (fst s) = m" "fg_ecs (snd s) = e4" "fw_timers (fst s) = ts" "fw_rand (fst s) = fw_rand w" "fw_disk (fst s) = d2"
    "fw_render (fst s) = fw_render w" "fg_self (snd s) = (b, 0)" "fg_timer (snd s) = (b + 1, 0)"
    "vertex_shader_work (snd s) = Some wv" "fragment_shader_work (snd s) = Some wg"
    by (simp_all add: s_def w4_def g4_def g0_def blank_game_def Let_def)
  have g: "grown (fw_mem w) m (game_room vs fs)"
  proof -
    note g12 = grown_trans [OF 1(2) 2(2)] note g1234 = grown_trans [OF grown_trans [OF g12 3(3)] 4(3)]
    from grown_trans [OF g1234 5(2)] show ?thesis by (simp add: game_room_def add.assoc)
  qed
  have self4: "ecs_self e4 = Some (b + 2, 0)" using 4(4) 3(4) by (simp add: g0_def blank_game_def Let_def)
  have blocks: "game_blocks (snd s) = map (\<lambda>k. (b + k, 0)) [0, 1, 2, 3, 4, 5, 6, 7, 8, 11, 9, 12, 10]"
    by (rule game_blocks_consecutive [of _ _ wv wg]) (use 4(6) self4 5(4-7) in \<open>simp_all add: sel\<close>)
  have set_blocks: "set (game_blocks (snd s)) = (\<lambda>k. (k, 0)) ` {b..<b + 13}"
  proof -
    have "{b..<b + 13} = (\<lambda>k. b + k) ` {0..<13}" by (simp add: image_add_atLeastLessThan add.commute)
    moreover have "{0..<13} = set [0, 1, 2, 3, 4, 5, 6, 7, 8, 11, 9, 12, 10 :: nat]" by (simp add: eval_nat_numeral atLeast0_lessThan_Suc insert_commute)
    ultimately show ?thesis unfolding blocks by (simp only: set_map image_image)
  qed
  have dist: "distinct (game_blocks (snd s))" and types: "types_ok (snd s)"
    by (simp add: blocks) (simp add: s_def g4_def types_ok_def)
  have live: "block_size m p \<noteq> None" if "p \<in> set (game_blocks (snd s))" for p
    using that 5(3) unfolding set_blocks live_from_def by auto
  show thesis
  proof (rule that [of s])
    show "frogger_game_create E now w = bind_ok (spawn_player E 0 s) (\<lambda>s2. bind_ok (spawn_blocks E s2) (spawn_camera E))"
      using 1(1) 2(1) ts(1) 3(1) 4(1) 5(1) by (simp add: frogger_game_create_def g0_def w4_def g4_def s_def)
    have "component_masks e4 = replicate k_max_entities 0" "saves_ok e4"
      using 4(2) by (simp_all add: registered_def) (auto simp: saves_ok_def is_saved_def)
    then show "empty_game (en_fp E) now (next_block (fw_mem w)) s"
      unfolding empty_game_def sel b_def [symmetric]
      using tables_ok_grown(1) [OF registered_tables [OF 4(2)] 5(2)] registered_spawned [OF 4(2)] ts(2) live 5(3,8,9) dist types
      by (simp add: set_blocks holds_blocks_def work_loaded_def sel event_is_raised_def live_from_def)
    show "grown (fw_mem w) (fw_mem (fst s)) (game_room vs fs)" using g by (simp add: sel)
  qed (simp_all add: sel, simp_all add: s_def w4_def)
qed

text \<open>Which entities there are: the player, the blocks, the camera.\<close>

definition game_mask :: "nat \<Rightarrow> u64" where
  "game_mask j = (if j = 0 then 45 else if j \<le> 12 then 53 else if j = 13 then 34 else 0)"

lemma game_masks:
  "(game_mask j AND player_mask = player_mask) = (j = 0)"
  "(game_mask j AND block_mask = block_mask) = (1 \<le> j \<and> j \<le> 12)"
  "(game_mask j AND model_mask = model_mask) = (j \<le> 12)"
  "(game_mask j AND camera_mask = camera_mask) = (j = 13)"
  by (simp_all add: game_mask_def player_mask_def block_mask_def model_mask_def camera_mask_def)

definition game_entities :: "ecs_t \<Rightarrow> bool" where
  "game_entities e \<longleftrightarrow> (\<forall>j < k_max_entities. component_masks e ! j = game_mask j)"

lemma game_entities_with_mask:
  assumes "game_entities e"
  shows "with_mask e player_mask = {0}" "with_mask e block_mask = {1..12}"
proof -
  have "with_mask e cm = {j. j < k_max_entities \<and> game_mask j AND cm = cm}" for cm
    using assms by (auto simp: with_mask_def game_entities_def)
  then show "with_mask e player_mask = {0}" "with_mask e block_mask = {1..12}"
    by (auto simp: game_masks k_max_entities_def)
qed

lemma spawn_all_ok:
  fixes E :: "('a::linordered_field, 'd, 't) frogger_env" and s :: "('d, 't) frogger_state"
  assumes R: "float_contract (en_floats E)" and rand: "rand_contract E"
    and e: "empty_game F now b s" and b: "b + 1 < 2 ^ 32"
  obtains s' where "bind_ok (spawn_player E 0 s) (\<lambda>s2. bind_ok (spawn_blocks E s2) (spawn_camera E)) = Inr s'"
    "game_inv E d s'" "game_entities (fg_ecs (snd s'))" "game_blocks (snd s') = game_blocks (snd s)"
    "block_size (fw_mem (fst s')) = block_size (fw_mem (fst s))" "os_avail (fw_mem (fst s')) = os_avail (fw_mem (fst s))"
    "fst (field_of E s') 0 = player_start (en_floats E)"
    "\<forall>j. 1 \<le> j \<and> j \<le> 12 \<longrightarrow>
      new_block E (j - 1) (fw_rand (fst s) + (j - 1)) (fst (field_of E s') j) (fst (snd (field_of E s')) j)"
    "fw_render (fst s') = fw_render (fst s)" "spawned 14 (fg_ecs (snd s'))" "mem_ok (fw_mem (fst s'))"
    "fw_timers (fst s') (fst (fg_timer (snd s'))) = Some (new_timer F now)" "fw_statics (fst s') = fw_statics (fst s)"
    "fw_window (fst s') = fw_window (fst s)"
proof -
  let ?R = "en_floats E"
  obtain w g where s: "s = (w, g)" by (cases s)
  have ok: "tables_ok (fw_mem w) (fg_ecs g)" and sp: "spawned 0 (fg_ecs g)" and types: "types_ok g"
    and masks0: "component_masks (fg_ecs g) = replicate k_max_entities 0" and self: "fg_self g = (b, 0)" "fst (fg_timer g) = b + 1"
    and timer: "fw_timers w (b + 1) = Some (new_timer F now)" and holds: "holds_blocks (fw_mem w) g"
    using e by (simp_all add: empty_game_def s)
  have storable: "storable (b, k)" if "k < 320" for k using b that by (simp add: storable_def)
  have st: "storable (field_ptr g offset_cube_mesh)" "storable (field_ptr g offset_cube_shader)"
    "storable (field_ptr g offset_block_mesh)"
    by (simp_all add: field_ptr_def self offset_cube_mesh_def offset_cube_shader_def offset_block_mesh_def storable)
  have k0: "0 < k_max_entities" and k13: "13 < k_max_entities" by (simp_all add: k_max_entities_def)
  from spawn_player_ok [OF ok types sp k0 st(1,2), of E 0] obtain m1 e1 r1 where
    1: "spawn_player E 0 (w, g) = Inr (w\<lparr>fw_mem := m1\<rparr>, g\<lparr>fg_ecs := e1, player_ent := r1\<rparr>)"
      "spawn_step 0 45 (w, g) (w\<lparr>fw_mem := m1\<rparr>, g\<lparr>fg_ecs := e1, player_ent := r1\<rparr>)"
      "slot_transform ?R (cells m1 e1) 0 = player_start ?R" "has_model (cells m1 e1) 0" by blast
  define s1 where "s1 = (w\<lparr>fw_mem := m1\<rparr>, g\<lparr>fg_ecs := e1, player_ent := r1\<rparr>)"
  have p1: "spawned 1 (fg_ecs (snd s1))" "tables_ok (fw_mem (fst s1)) (fg_ecs (snd s1))" "types_ok (snd s1)"
    "storable (field_ptr (snd s1) offset_block_mesh)" "storable (field_ptr (snd s1) offset_cube_shader)"
    using 1(2) types st by (simp_all add: spawn_step_def s1_def types_ok_def field_ptr_def)
  from spawn_blocks_ok [OF p1(1-3) R rand p1(4,5)] obtain s2 where
    2: "spawn_blocks E s1 = Inr s2" "blocks_made E 12 s1 s2" .
  obtain w2 g2 where s2: "s2 = (w2, g2)" by (cases s2)
  have g2: "g2 = (snd s1)\<lparr>fg_ecs := fg_ecs g2, block_ents := block_ents g2\<rparr>"
    and w2: "w2 = (fst s1)\<lparr>fw_mem := fw_mem w2, fw_rand := fw_rand (fst s1) + 12\<rparr>"
    and ok2: "tables_ok (fw_mem w2) (fg_ecs g2)" and sp2: "spawned 13 (fg_ecs g2)" and t2: "table (fg_ecs g2) = table (fg_ecs (snd s1))"
    and m2: "only_tables (fg_ecs (snd s1)) (fw_mem (fst s1)) (fw_mem w2)" and c2: "components (fg_ecs g2) = components (fg_ecs (snd s1))"
      "ecs_self (fg_ecs g2) = ecs_self (fg_ecs (snd s1))" "save_component (fg_ecs g2) = save_component (fg_ecs (snd s1))"
    using 2(2) by (simp_all add: blocks_made_def s2)
  have types2: "types_ok g2" by (subst g2) (use p1(3) in \<open>simp add: types_ok_def\<close>)
  from spawn_camera_ok [OF ok2 types2 sp2 k13, of E] obtain m3 e3 r3 where
    3: "spawn_camera E (w2, g2) = Inr (w2\<lparr>fw_mem := m3\<rparr>, g2\<lparr>fg_ecs := e3, camera_ent := r3\<rparr>)"
      "spawn_step 13 34 (w2, g2) (w2\<lparr>fw_mem := m3\<rparr>, g2\<lparr>fg_ecs := e3, camera_ent := r3\<rparr>)" by blast
  define s' where "s' = (w2\<lparr>fw_mem := m3\<rparr>, g2\<lparr>fg_ecs := e3, camera_ent := r3\<rparr>)"
  have run: "bind_ok (spawn_player E 0 s) (\<lambda>s2. bind_ok (spawn_blocks E s2) (spawn_camera E)) = Inr s'"
    using 1(1) 2(1) 3(1) by (simp add: s s1_def s2 s'_def)
  have sel: "fw_mem (fst s') = m3" "fg_ecs (snd s') = e3" by (simp_all add: s'_def)
  have field2: "fst (field_of E s2) j = slot_transform ?R (cells (fw_mem w2) (fg_ecs g2)) j"
    "fst (snd (field_of E s2)) j = slot_scale ?R (cells (fw_mem w2) (fg_ecs g2)) j" for j
    by (simp_all add: field_of_def s2)
  have cells3: "cells m3 e3 ty j = cells (fw_mem w2) (fg_ecs g2) ty j" if "j \<noteq> 13" for ty j
    using 3(2) that by (simp add: spawn_step_def)
  have cells2: "cells (fw_mem w2) (fg_ecs g2) ty 0 = cells m1 e1 ty 0" for ty
    using 2(2) by (simp add: blocks_made_def s2) (simp add: s1_def)
  have entities: "game_entities e3"
    unfolding game_entities_def
  proof (intro allI impI)
    fix j assume j: "j < k_max_entities"
    have len: "length (component_masks (fg_ecs g2)) = k_max_entities" using tables_ok_shape [OF ok2] by (simp add: ecs_shape_def)
    have "component_masks e1 ! j = (if j = 0 then 45 else 0)"
      using 1(2) j by (simp add: spawn_step_def masks0 nth_list_update)
    moreover have "component_masks (fg_ecs g2) ! j = (if 1 \<le> j \<and> j \<le> 12 then 53 else component_masks e1 ! j)"
      using 2(2) j by (simp add: blocks_made_def s2) (simp add: s1_def)
    ultimately have "component_masks (fg_ecs g2) ! j = (if 1 \<le> j \<and> j \<le> 12 then 53 else if j = 0 then 45 else 0)"
      by (simp only:)
    moreover have "component_masks e3 = (component_masks (fg_ecs g2))[13 := 34]" using 3(2) by (simp add: spawn_step_def)
    ultimately show "component_masks e3 ! j = game_mask j"
      using j len by (cases "j = 13") (auto simp: game_mask_def)
  qed
  have only12: "only_tables (fg_ecs g) (fw_mem w) (fw_mem w2)"
  proof -
    have "table e1 = table (fg_ecs g)" "only_tables (fg_ecs g) (fw_mem w) m1" using 1(2) by (simp_all add: spawn_step_def)
    then show ?thesis using only_tables_trans m2 by (auto simp: only_tables_def s1_def)
  qed
  have size3: "block_size m3 = block_size (fw_mem w)" "os_avail m3 = os_avail (fw_mem w)"
    using 3(2) only12 by (simp_all add: spawn_step_def only_tables_def)
  have comps: "components e3 = components (fg_ecs g)" "ecs_self e3 = ecs_self (fg_ecs g)" "save_component e3 = save_component (fg_ecs g)"
    using 1(2) 3(2) c2 by (simp_all add: spawn_step_def s1_def)
  have same: "fg_self g2 = fg_self g" "fg_timer g2 = fg_timer g" "vertex_shader_work g2 = vertex_shader_work g"
    "fragment_shader_work g2 = fragment_shader_work g"
    by (subst g2, simp add: s1_def)+
  have blocks: "game_blocks (snd s') = game_blocks g"
    by (simp add: game_blocks_def s'_def comps same)
  have worlds: "fw_queue w2 = fw_queue w" "fw_taken w2 = fw_taken w" "fw_takes w2 = fw_takes w"
    "fw_timers w2 = fw_timers w" "fw_statics w2 = fw_statics w" "fw_window w2 = fw_window w"
    by (subst w2, simp add: s1_def)+
  have fields: "fst (field_of E s') j = fst (field_of E s2) j" "fst (snd (field_of E s')) j = fst (snd (field_of E s2)) j" if "j \<le> 12" for j
    using that cells3 by (simp_all add: field_of_def sel s2 slot_transform_def slot_scale_def)
  have player: "fst (field_of E s') 0 = player_start ?R"
    using 1(3) cells2 by (simp add: fields field2 slot_transform_def)
  have new: "new_block E (j - 1) (fw_rand w + (j - 1)) (fst (field_of E s') j) (fst (snd (field_of E s')) j)"
    if "1 \<le> j" "j \<le> 12" for j
    using 2(2) that fields [OF that(2)] by (simp add: blocks_made_def) (simp add: s1_def)
  have models: "has_model (cells m3 e3) j" if "j \<le> 12" for j
  proof (cases "j = 0")
    case True
    then show ?thesis using 1(4) cells3 cells2 by (simp add: has_model_def model_at_def)
  next
    case False
    with that 2(2) have "has_model (cells (fw_mem w2) (fg_ecs g2)) j" by (simp add: blocks_made_def s2)
    then show ?thesis using cells3 that by (simp add: has_model_def model_at_def)
  qed
  have run': "can_run s'"
    unfolding can_run_def sel
  proof (intro conjI allI impI)
    show "tables_ok m3 e3" using 3(2) by (simp add: spawn_step_def)
    show "types_ok (snd s')" using types2 by (simp add: s'_def types_ok_def)
    show "\<exists>x. fw_timers (fst s') (fst (fg_timer (snd s'))) = Some x \<and> to_parent x = None"
      using timer self(2) by (simp add: s'_def worlds same new_timer_def)
    fix i assume i: "i < k_max_entities"
    then have mask: "component_masks e3 ! i = game_mask i" using entities by (simp add: game_entities_def)
    show "component_masks e3 ! i AND block_mask \<noteq> block_mask" if "component_masks e3 ! i AND player_mask = player_mask"
      using that unfolding mask game_masks by simp
    show "has_model (cells m3 e3) i" if "component_masks e3 ! i AND model_mask = model_mask"
      using that models unfolding mask game_masks by simp
  qed
  note sets = game_entities_with_mask [OF entities]
  have "game_inv E d s'"
    unfolding game_inv_def sel sets
  proof (intro conjI ballI)
    show "can_run s'" by (rule run')
    show "holds_blocks m3 (snd s')"
      using holds unfolding holds_blocks_def blocks size3 by (simp add: s'_def same)
    show "saves_ok e3" using e by (simp add: empty_game_def s saves_ok_def comps(3))
    show "rows_ok E d {1..12} (field_of E s')"
      unfolding rows_ok_def by (intro ballI new_block_ok [OF R rand new]) simp_all
    show "player_ok (fst (field_of E s') i)" if "i \<in> {0}" for i
      using that by (simp add: player player_start_simps [OF R] player_ok_def)
  qed
  moreover have "spawned 14 e3" "mem_ok m3" using 3(2) by (simp_all add: spawn_step_def tables_ok_def)
  ultimately show thesis using run entities blocks size3 player new timer self(2)
    by (intro that [of s']) (simp_all add: sel s s'_def worlds same)
qed

section \<open>The destruction\<close>

lemma free_components_Cons: "free_components m (p # ps) = bind_ok (heap_free m p) (\<lambda>m'. free_components m' ps)"
  by (cases p) (simp_all add: heap_free_def)

lemma free_components_append:
  "free_components m (ps @ rs) = bind_ok (free_components m ps) (\<lambda>m'. free_components m' rs)"
proof (induction ps arbitrary: m)
  case (Cons p ps)
  then show ?case by (cases "heap_free m p") (simp_all add: free_components_Cons del: free_components.simps(2))
qed simp

lemma map_Some_some_ptrs: "map Some (some_ptrs ps) = filter (\<lambda>p. p \<noteq> None) ps"
proof (induction ps)
  case (Cons p ps)
  then show ?case by (cases p) (simp_all add: some_ptrs_def)
qed (simp add: some_ptrs_def)

text \<open>The order in which they are released.\<close>

definition release_order :: "frogger_game_t \<Rightarrow> ptr option list" where
  "release_order g =
     (case (vertex_shader_work g, fragment_shader_work g) of
        (Some v, Some f) \<Rightarrow> components (fg_ecs g) @
          [ecs_self (fg_ecs g), Some (fg_timer g), w_buffer v, w_buffer f, w_self f, w_self v, Some (fg_self g)]
      | _ \<Rightarrow> [])"

lemma release_order_blocks:
  assumes "work_loaded (vertex_shader_work g)" and "work_loaded (fragment_shader_work g)"
  shows "mset (filter (\<lambda>p. p \<noteq> None) (release_order g)) = mset (map Some (game_blocks g))"
proof -
  from assms obtain v f where vf: "vertex_shader_work g = Some v" "fragment_shader_work g = Some f"
    by (auto simp: work_loaded_def split: option.splits)
  show ?thesis
    by (simp add: vf release_order_def game_blocks_def work_ptrs_def map_Some_some_ptrs del: mset_map)
qed

lemma destroy_order:
  assumes "work_loaded (vertex_shader_work g)" and "work_loaded (fragment_shader_work g)"
  shows "frogger_game_destroy (w, g) = bind_ok (free_components (fw_mem w) (release_order g)) (\<lambda>m.
    Inr (w\<lparr>fw_mem := m, fw_timers := timer_object_destroy (fw_timers w) (fst (fg_timer g))\<rparr>))"
proof -
  from assms obtain v f where vf: "vertex_shader_work g = Some v" "fragment_shader_work g = Some f" "w_done v" "w_done f"
    by (auto simp: work_loaded_def event_is_raised_def split: option.splits)
  have assoc: "bind_ok (bind_ok x f) g = bind_ok x (\<lambda>a. bind_ok (f a) g)" for x f g by (cases x) simp_all
  show ?thesis
    unfolding frogger_game_destroy_def release_order_def
    by (simp add: vf free_components_append free_components_Cons ecs_destroy_def unload_resources_def free_work_buffer_def destroy_work_def
        fs_work_get_buffer_def fs_work_wait_def fs_work_destroy_def event_wait_def assoc del: free_components.simps(2))
qed

lemma game_destroyed:
  assumes "mem_ok (fw_mem w)" and holds: "holds_blocks (fw_mem w) g"
  obtains w' where "frogger_game_destroy (w, g) = Inr w'"
    "\<And>q. block_size (fw_mem w') q = (if q \<in> set (game_blocks g) then None else block_size (fw_mem w) q)"
    "fw_timers w' = (fw_timers w)(fst (fg_timer g) := None)"
proof -
  have loaded: "work_loaded (vertex_shader_work g)" "work_loaded (fragment_shader_work g)"
    and dist: "distinct (game_blocks g)" and live: "\<And>q. q \<in> set (game_blocks g) \<Longrightarrow> block_size (fw_mem w) q \<noteq> None"
    using holds by (simp_all add: holds_blocks_def)
  note same = release_order_blocks [OF loaded]
  have "distinct (filter (\<lambda>p. p \<noteq> None) (release_order g))"
    using mset_eq_imp_distinct_iff [OF same] dist by (simp add: distinct_map)
  moreover have mem: "Some q \<in> set (release_order g) \<longleftrightarrow> q \<in> set (game_blocks g)" for q
  proof -
    have "Some q \<in> set (release_order g) \<longleftrightarrow> Some q \<in> set (filter (\<lambda>p. p \<noteq> None) (release_order g))" by simp
    also have "\<dots> \<longleftrightarrow> Some q \<in> set (map Some (game_blocks g))" unfolding mset_eq_setD [OF same] ..
    also have "\<dots> \<longleftrightarrow> q \<in> set (game_blocks g)" by auto
    finally show ?thesis .
  qed
  ultimately obtain m' where f: "free_components (fw_mem w) (release_order g) = Inr m'"
    and size: "\<forall>q. block_size m' q = (if Some q \<in> set (release_order g) then None else block_size (fw_mem w) q)"
    using free_components_all [OF assms(1)] live by blast
  have gone: "block_size m' q = (if q \<in> set (game_blocks g) then None else block_size (fw_mem w) q)" for q
    using spec [OF size, of q] by (simp only: mem)
  show thesis
    by (rule that [of "w\<lparr>fw_mem := m', fw_timers := timer_object_destroy (fw_timers w) (fst (fg_timer g))\<rparr>"])
      (simp_all add: destroy_order [OF loaded] f gone timer_object_destroy_def)
qed

end
