(* ===== verification/Frogger_Load.thy ===== *)
theory Frogger_Load
  imports Frogger_Start
begin

text \<open>
  The right mouse button: loading a saved game inside the update of a player.  The loaded components
  are in memory that has been released, and the same frame goes on to use them.
\<close>

section \<open>After a load\<close>

lemma mem_read_blocks: "blocks m = blocks m' \<Longrightarrow> mem_read m p n = mem_read m' p n"
  unfolding mem_read_def by (simp only:)

lemma mem_write_blocks:
  "blocks m = blocks m' \<Longrightarrow> mem_write m p xs = Inr m1 \<Longrightarrow> \<exists>m2. mem_write m' p xs = Inr m2 \<and> blocks m2 = blocks m1"
  by (auto simp: mem_write_def split: option.splits if_splits)

text \<open>The entity system that has been loaded from an image of \<open>e0\<close> into \<open>e\<close>: the entities of \<open>e0\<close>, the tables
  of \<open>e\<close> for what is not saved, and released memory for what is.\<close>

definition dangling :: "ecs_t \<Rightarrow> ecs_t \<Rightarrow> mem \<Rightarrow> ecs_t \<Rightarrow> bool" where
  "dangling e0 e m e' \<longleftrightarrow> ecs_shape e' \<and> entity_states e' = entity_states e0 \<and> component_masks e' = component_masks e0 \<and>
     (\<forall>ty \<in> {0, 3}. \<exists>b off. components e' ! ty = Some (b, off) \<and> blocks m b = None) \<and>
     (\<forall>ty \<in> {1, 2}. components e' ! ty = components e ! ty) \<and> component_type_sizes e' = component_type_sizes e \<and>
     (\<exists>m'. tables_ok m' e \<and> blocks m' = blocks m)"

lemma dangling_slots: "dangling e0 e m e' \<Longrightarrow> slots e' cm = slots e0 cm"
  by (auto simp: dangling_def slots_def query_matches_def intro!: filter_cong)

lemma dangling_query:
  assumes d: "dangling e0 e m (fg_ecs (snd s))" and q: "q_entity q = int i"
  shows "ty \<in> {0, 3} \<Longrightarrow> \<exists>b off. query_component s q (int ty) = Inr (Some (b, off)) \<and> blocks m b = None"
    "ty \<in> {1, 2} \<Longrightarrow> i < k_max_entities \<Longrightarrow> query_component s q (int ty) = Inr (Some (cell_ptr e ty i))"
proof -
  let ?e = "fg_ecs (snd s)"
  obtain m' where ok: "tables_ok m' e" using d by (auto simp: dangling_def)
  have len: "ty < 6 \<Longrightarrow> ty < length (components ?e)" "ty < 6 \<Longrightarrow> ty < length (component_type_sizes ?e)"
    using d unfolding dangling_def ecs_shape_def k_max_component_types_def by linarith+
  show "\<exists>b off. query_component s q (int ty) = Inr (Some (b, off)) \<and> blocks m b = None" if ty: "ty \<in> {0, 3}"
  proof -
    from d ty obtain b off where b: "components ?e ! ty = Some (b, off)" "blocks m b = None" unfolding dangling_def by blast
    have "ty < 6" using ty by auto
    with b len show ?thesis by (simp add: query_component_def ecs_query_get_component_def elem_ptr_def q)
  qed
  show "query_component s q (int ty) = Inr (Some (cell_ptr e ty i))" if ty: "ty \<in> {1, 2}" and i: "i < k_max_entities"
  proof -
    have "ty < 6" using ty by auto
    moreover have "components ?e ! ty = components e ! ty" "component_type_sizes ?e = component_type_sizes e"
      using d ty unfolding dangling_def by blast+
    ultimately show ?thesis using cell_address [OF ok _ i] len
      by (simp add: query_component_def ecs_query_get_component_def q)
  qed
qed

lemma dangling_mem:
  assumes "dangling e0 e m e'" and "\<And>b. blocks m b = None \<Longrightarrow> blocks m' b = None" and "tables_ok m1 e" and "blocks m1 = blocks m'"
  shows "dangling e0 e m' e'"
  unfolding dangling_def
proof (intro conjI ballI)
  show "\<exists>b off. components e' ! ty = Some (b, off) \<and> blocks m' b = None" if "ty \<in> {0, 3}" for ty
  proof -
    from assms(1) that obtain b off where "components e' ! ty = Some (b, off)" "blocks m b = None" unfolding dangling_def by blast
    with assms(2) show ?thesis by blast
  qed
  show "components e' ! ty = components e ! ty" if "ty \<in> {1, 2}" for ty
    using assms(1) that unfolding dangling_def by blast
  show "\<exists>m1. tables_ok m1 e \<and> blocks m1 = blocks m'" using assms(3,4) by blast
qed (use assms(1) in \<open>simp_all add: dangling_def\<close>)

text \<open>What reads a transform faults: the next player, and the first model that is drawn.\<close>

lemma read_released: "blocks m b = None \<Longrightarrow> read_transform R m (Some (b, off)) = Inl Use_after_free"
  by (simp add: read_transform_def read_floats_def mem_read_def)

lemma dangling_player_faults:
  assumes d: "dangling e0 e (fw_mem (fst s)) (fg_ecs (snd s))" and types: "types_ok (snd s)" and q: "0 \<le> q_entity q"
  shows "update_player E speed keys buttons q s = Inl Use_after_free"
proof -
  have q': "q_entity q = int (nat (q_entity q))" using q by simp
  from dangling_query(1) [OF d q', of 0] obtain b off where
    0: "query_component s q (transform_type (snd s)) = Inr (Some (b, off))" "blocks (fw_mem (fst s)) b = None"
    using types by (auto simp: types_ok_def)
  from dangling_query(1) [OF d q', of 3] obtain p where 3: "query_component s q (player_type (snd s)) = Inr (Some p)"
    using types by (auto simp: types_ok_def)
  show ?thesis by (simp add: update_player_def Let_def 0(1) 3 read_released [OF 0(2)])
qed

lemma for_each_ok_first: "i \<in> set is \<Longrightarrow> \<forall>i \<in> set is. f i s = Inl err \<Longrightarrow> for_each_ok f is s = Inl err"
  by (cases "is") auto

lemma dangling_draw_faults:
  assumes d: "dangling e0 e (fw_mem (fst s)) (fg_ecs (snd s))" and types: "types_ok (snd s)"
    and camera: "camera \<in> set (slots e0 camera_mask)" and model: "model \<in> set (slots e0 model_mask)"
  shows "draw_models E s = Inl Use_after_free"
proof -
  let ?e = "fg_ecs (snd s)" and ?m = "fw_mem (fst s)"
  obtain m' where ok: "tables_ok m' e" "blocks m' = blocks ?m" using d by (auto simp: dangling_def)
  note slots = dangling_slots [OF d]
  have one: "draw_model E (Some (cell_ptr e 1 c)) \<lparr>q_component_mask = model_mask, q_entity = int i\<rparr> s = Inl Use_after_free"
    if c: "c < k_max_entities" and i: "i < k_max_entities" for c i
  proof -
    let ?q = "\<lparr>q_component_mask = model_mask, q_entity = int i\<rparr>"
    have q: "q_entity ?q = int i" by simp
    from dangling_query(1) [OF d q, of 0] obtain b off where
      0: "query_component s ?q (transform_type (snd s)) = Inr (Some (b, off))" "blocks ?m b = None"
      using types by (auto simp: types_ok_def)
    have 2: "query_component s ?q (model_type (snd s)) = Inr (Some (cell_ptr e 2 i))"
      using dangling_query(2) [OF d q _ i, of 2] types by (simp add: types_ok_def)
    have ref: "\<exists>r. ecs_query_get_entity ?e ?q = Inr r"
      using d i by (simp add: ecs_query_get_entity_def dangling_def ecs_shape_def)
    have "mem_read ?m (Some (cell_ptr e 1 c)) sizeof_camera_component_t = mem_read m' (Some (cell_ptr e 1 c)) sizeof_camera_component_t"
      by (rule mem_read_blocks) (simp add: ok(2))
    also have "\<dots> = Inr (cells m' e 1 c)"
      using read_cell [OF ok(1) _ c, of 1 0 128] length_cells [OF ok(1) _ c, of 1] by (simp add: sizeof_camera_component_t_def)
    finally have cam: "mem_read ?m (Some (cell_ptr e 1 c)) sizeof_camera_component_t = Inr (cells m' e 1 c)" .
    from ref show ?thesis
      by (auto simp: draw_model_def Let_def 0(1) 2 cam read_released [OF 0(2)] simp del: One_nat_def)
  qed
  have all: "draw_camera E \<lparr>q_component_mask = camera_mask, q_entity = int c\<rparr> s = Inl Use_after_free"
    if "c \<in> set (slots ?e camera_mask)" for c
  proof -
    have c: "c < k_max_entities" using slots_less that .
    have "query_component s \<lparr>q_component_mask = camera_mask, q_entity = int c\<rparr> (camera_type (snd s)) = Inr (Some (cell_ptr e 1 c))"
      using dangling_query(2) [OF d _ _ c, of _ 1] types by (simp add: types_ok_def)
    moreover have "game_loop (component_mask [transform_type (snd s), model_type (snd s)]) (draw_model E (Some (cell_ptr e 1 c))) s =
        for_each_ok (\<lambda>i. draw_model E (Some (cell_ptr e 1 c)) \<lparr>q_component_mask = model_mask, q_entity = int i\<rparr>) (slots ?e model_mask) s"
      using types by (intro game_loop_slots component_masks_of) (auto dest: draw_model_keeps)
    moreover have "\<dots> = Inl Use_after_free"
      by (rule for_each_ok_first [of model]) (use model one [OF c] slots_less in \<open>auto simp: slots\<close>)
    ultimately show ?thesis by (simp add: draw_camera_def)
  qed
  have "draw_models E s = for_each_ok (\<lambda>i. draw_camera E \<lparr>q_component_mask = camera_mask, q_entity = int i\<rparr>) (slots ?e camera_mask) s"
    unfolding draw_models_def by (rule game_loop_slots [OF component_masks_of(3) [OF types]]) (auto dest: draw_camera_keeps)
  also have "\<dots> = Inl Use_after_free"
    by (rule for_each_ok_first [of camera]) (use camera all in \<open>auto simp: slots\<close>)
  finally show ?thesis .
qed

section \<open>The load\<close>

lemma same_but_sel:
  assumes "same_but tys s s'"
  shows "fw_disk (fst s') = fw_disk (fst s)" "fw_window (fst s') = fw_window (fst s)" "os_avail (fw_mem (fst s')) = os_avail (fw_mem (fst s))"
proof -
  from assms obtain m n where w: "fst s' = (fst s)\<lparr>fw_mem := m, fw_rand := n\<rparr>" by (rule same_but_world)
  show "fw_disk (fst s') = fw_disk (fst s)" "fw_window (fst s') = fw_window (fst s)" by (simp_all add: w)
  show "os_avail (fw_mem (fst s')) = os_avail (fw_mem (fst s))" using assms by (simp add: same_but_def only_tables_def)
qed

text \<open>A file that holds the image of \<open>e0\<close>, and room to read it.\<close>

definition saved_file :: "('a, 'd, 't) frogger_env \<Rightarrow> 'd \<Rightarrow> nat \<Rightarrow> ecs_t \<Rightarrow> bool" where
  "saved_file E disk room e0 \<longleftrightarrow> ecs_shape e0 \<and> (\<forall>st \<in> set (entity_states e0). es_proper st) \<and>
     (\<exists>d m img. ecs_image m e0 = Inr img \<and> length img < 2 ^ 31 \<and> length img + 1 + sizeof_fs_work_t \<le> room \<and>
        fs_io_contract (en_io E) savegame_path d disk img)"

lemma attach_components_kept:
  "length ss = length ps \<Longrightarrow> length zs = length ps \<Longrightarrow> c < length ps \<Longrightarrow> \<not> ss ! c \<Longrightarrow>
   attach_components ss zs ps data ctr ! c = ps ! c"
proof (induction ps arbitrary: ss zs ctr c)
  case (Cons p ps)
  from Cons.prems(1,2) obtain s ss' z zs' where l: "ss = s # ss'" "zs = z # zs'" "length ss' = length ps" "length zs' = length ps"
    by (cases ss; cases zs) auto
  with Cons.prems(3,4) Cons.IH [OF l(3,4)] show ?case by (cases c) auto
qed simp

lemma load_dangles:
  assumes ok: "tables_ok (fw_mem w) (fg_ecs g)" and saves: "saves_ok (fg_ecs g)"
    and f: "saved_file E (fw_disk w) (os_avail (fw_mem w)) e0"
    and right: "buttons AND k_mouse_button_right \<noteq> 0"
  obtains w' e' where "load_if E buttons (w, g) = Inr (w', g\<lparr>fg_ecs := e'\<rparr>)" "dangling e0 (fg_ecs g) (fw_mem w') e'"
    "blocks (fw_mem w') = blocks (fw_mem w)"
proof -
  let ?e = "fg_ecs g" and ?b = "Suc (next_block (fw_mem w))"
  from f obtain d m img where img: "ecs_image m e0 = Inr img" "length img < 2 ^ 31" "length img + 1 + sizeof_fs_work_t \<le> os_avail (fw_mem w)"
    "fs_io_contract (en_io E) savegame_path d (fw_disk w) img" and shape0: "ecs_shape e0"
    and proper: "\<forall>st \<in> set (entity_states e0). es_proper st" unfolding saved_file_def by blast
  have mok: "mem_ok (fw_mem w)" and shape: "ecs_shape ?e" using ok by (simp_all add: tables_ok_def)
  define e' where "e' = ?e\<lparr>global_sequence := global_sequence e0, sequences := sequences e0,
        entity_states := map (\<lambda>s. es_of_word (es_word s)) (entity_states e0),
        component_masks := component_masks e0,
        components := attach_components (save_component ?e) (component_type_sizes ?e) (components ?e) (Some (?b, 0)) save_header_size\<rparr>"
  from load_game_ok [OF shape0 img(1,2) mok img(3,4), of ?e, folded e'_def] obtain d2 m3 where
    l: "ecs_load_game (en_io E) (fw_disk w) (fw_mem w) ?e = Inr (d2, m3, e')" "blocks m3 = blocks (fw_mem w)" by blast
  have len: "length (save_component ?e) = length (components ?e)" "length (component_type_sizes ?e) = length (components ?e)"
    "length (components ?e) = k_max_component_types"
    using shape by (simp_all add: ecs_shape_def)
  have save: "ty < k_max_component_types \<Longrightarrow> save_component ?e ! ty = is_saved ty" for ty using saves by (simp add: saves_ok_def)
  have "dangling e0 ?e m3 e'"
    unfolding dangling_def
  proof (intro conjI ballI)
    show "ecs_shape e'" using shape shape0 length_attach_components [OF len(1,2)] by (simp add: e'_def ecs_shape_def)
    show "entity_states e' = entity_states e0" using proper by (simp add: e'_def map_idI)
    show "component_masks e' = component_masks e0" "component_type_sizes e' = component_type_sizes ?e" by (simp_all add: e'_def)
    show "\<exists>b off. components e' ! ty = Some (b, off) \<and> blocks m3 b = None" if "ty \<in> {0, 3}" for ty
    proof -
      have ty: "ty < k_max_component_types" "is_saved ty" using that by (auto simp: k_max_component_types_def is_saved_def)
      with attach_components_nth [OF len(1,2), of ty ?b save_header_size] save len(3) obtain off where "components e' ! ty = Some (?b, off)"
        by (auto simp: e'_def)
      moreover have "blocks m3 ?b = None" unfolding l(2) using mok by (auto simp: mem_ok_def)
      ultimately show ?thesis by blast
    qed
    show "components e' ! ty = components ?e ! ty" if "ty \<in> {1, 2}" for ty
    proof -
      have ty: "ty < k_max_component_types" "\<not> is_saved ty" using that by (auto simp: k_max_component_types_def is_saved_def)
      with attach_components_kept [OF len(1,2)] save len(3) show ?thesis by (simp add: e'_def)
    qed
    show "\<exists>m'. tables_ok m' ?e \<and> blocks m' = blocks m3" using ok l(2) by auto
  qed
  moreover have "load_if E buttons (w, g) = Inr (w\<lparr>fw_disk := d2, fw_mem := m3\<rparr>, g\<lparr>fg_ecs := e'\<rparr>)"
    using right l(1) by (simp add: load_if_def)
  ultimately show thesis using that l(2) by simp
qed

lemma update_player_loads:
  assumes ok: "tables_ok (fw_mem (fst s)) (fg_ecs (snd s))" and types: "types_ok (snd s)" and i: "i < k_max_entities"
    and notin: "i \<notin> set (slots (fg_ecs (snd s)) block_mask)" and saves: "saves_ok (fg_ecs (snd s))"
    and f: "saved_file E (fw_disk (fst s)) (os_avail (fw_mem (fst s))) e0"
    and right: "buttons AND k_mouse_button_right \<noteq> 0" and left: "buttons AND k_mouse_button_left = 0"
  obtains w' e' where "update_player E speed keys buttons \<lparr>q_component_mask = k, q_entity = int i\<rparr> s = Inr (w', (snd s)\<lparr>fg_ecs := e'\<rparr>)"
    "dangling e0 (fg_ecs (snd s)) (fw_mem w') e'"
proof -
  let ?R = "en_floats E" and ?e = "fg_ecs (snd s)" and ?tp = "Some (cell_ptr (fg_ecs (snd s)) 0 i)"
  from update_player_collides [OF ok types i notin, of E speed keys buttons k] obtain s2 where
    2: "update_player E speed keys buttons \<lparr>q_component_mask = k, q_entity = int i\<rparr> s =
      bind_ok (save_if E buttons s2) (\<lambda>s3. bind_ok (load_if E buttons s3) (\<lambda>s4.
      bind_ok (read_transform ?R (fw_mem (fst s4)) ?tp) (\<lambda>t.
      bind_ok (write_transform ?R (fw_mem (fst s4)) ?tp (transform_multiply t (player_move speed keys))) (\<lambda>m5.
      Inr (with_mem s4 m5)))))" "same_but {0} s s2"
    by blast
  obtain w2 where s2: "s2 = (w2, snd s)" using 2(2) by (cases s2) (simp add: same_but_def)
  have ok2: "tables_ok (fw_mem w2) ?e" using same_but_tables [OF 2(2) ok] by (simp add: s2)
  have f2: "saved_file E (fw_disk w2) (os_avail (fw_mem w2)) e0"
    using f same_but_sel [OF 2(2)] by (simp add: s2)
  have "save_if E buttons s2 = Inr s2" using left by (simp add: save_if_def s2)
  moreover from load_dangles [OF ok2 saves f2 right] obtain w3 e' where
    3: "load_if E buttons (w2, snd s) = Inr (w3, (snd s)\<lparr>fg_ecs := e'\<rparr>)" "dangling e0 ?e (fw_mem w3) e'" "blocks (fw_mem w3) = blocks (fw_mem w2)" .
  let ?t = "slot_transform ?R (cells (fw_mem w2) ?e) i"
  have rd: "read_transform ?R (fw_mem w3) ?tp = Inr ?t"
  proof -
    have "mem_read (fw_mem w3) ?tp = mem_read (fw_mem w2) ?tp" using mem_read_blocks [OF 3(3)] by (simp add: fun_eq_iff)
    then have "read_transform ?R (fw_mem w3) ?tp = read_transform ?R (fw_mem w2) ?tp"
      by (simp add: read_transform_def read_floats_def)
    then show ?thesis using read_slot [OF ok2 i] by simp
  qed
  obtain m4 c where 4: "write_transform ?R (fw_mem w2) ?tp (transform_multiply ?t (player_move speed keys)) = Inr m4" "only_tables ?e (fw_mem w2) m4"
    using write_slot_transform [OF ok2 i, of ?R "transform_multiply ?t (player_move speed keys)"] by blast
  obtain m5 where 5: "write_transform ?R (fw_mem w3) ?tp (transform_multiply ?t (player_move speed keys)) = Inr m5" "blocks m5 = blocks m4"
    using mem_write_blocks [OF 3(3) [symmetric]] 4(1) unfolding write_transform_def write_floats_def by blast
  have "dangling e0 ?e m5 e'"
  proof -
    have "tables_ok m4 ?e" by (rule tables_ok_kept [OF ok2 4(2)])
    moreover have "blocks m5 b = None" if "blocks (fw_mem w3) b = None" for b
    proof -
      have "block_size m4 (b, 0) = block_size (fw_mem w2) (b, 0)" using 4(2) by (simp add: only_tables_def)
      with that show ?thesis by (simp add: block_size_def 5(2) 3(3))
    qed
    ultimately show ?thesis by (intro dangling_mem [OF 3(2)]) (simp_all add: 5(2))
  qed
  moreover have "update_player E speed keys buttons \<lparr>q_component_mask = k, q_entity = int i\<rparr> s =
      Inr (w3\<lparr>fw_mem := m5\<rparr>, (snd s)\<lparr>fg_ecs := e'\<rparr>)"
    by (simp add: 2(1) \<open>save_if E buttons s2 = Inr s2\<close>) (simp add: s2 3(1) rd 5(1) with_mem_def)
  ultimately show thesis using that [of "w3\<lparr>fw_mem := m5\<rparr>" e'] by simp
qed

section \<open>The frame\<close>

lemma update_players_load:
  assumes ok: "tables_ok (fw_mem (fst s)) (fg_ecs (snd s))" and types: "types_ok (snd s)"
    and disj: "set (slots (fg_ecs (snd s)) player_mask) \<inter> set (slots (fg_ecs (snd s)) block_mask) = {}"
    and player: "slots (fg_ecs (snd s)) player_mask \<noteq> []" and saves: "saves_ok (fg_ecs (snd s))"
    and f: "saved_file E (fw_disk (fst s)) (os_avail (fw_mem (fst s))) e0" and speed: "frame_speed E s = Inr speed"
    and right: "wm_get_mouse_mask (fw_window (fst s)) AND k_mouse_button_right \<noteq> 0"
    and left: "wm_get_mouse_mask (fw_window (fst s)) AND k_mouse_button_left = 0"
  shows "update_players E s = Inl Use_after_free \<or>
    (\<exists>s'. update_players E s = Inr s' \<and> dangling e0 (fg_ecs (snd s)) (fw_mem (fst s')) (fg_ecs (snd s')) \<and> types_ok (snd s'))"
proof -
  let ?e = "fg_ecs (snd s)" and ?keys = "wm_get_key_mask (fw_window (fst s))" and ?buttons = "wm_get_mouse_mask (fw_window (fst s))"
  let ?body = "update_player E speed ?keys ?buttons"
  obtain i where find: "find_from (query_matches ?e player_mask) 0 k_max_entities = Some i"
  proof -
    from player obtain j where "j < k_max_entities" "query_matches ?e player_mask j" by (auto simp: slots_def filter_empty_conv)
    then have "find_from (query_matches ?e player_mask) 0 k_max_entities \<noteq> None" by (auto simp: search_simps)
    with that show thesis by blast
  qed
  from find_from_SomeD [OF find] have i: "i < k_max_entities" and "i \<in> set (slots ?e player_mask)" by (auto simp: slots_def)
  with disj have notin: "i \<notin> set (slots ?e block_mask)" by blast
  let ?q = "\<lparr>q_component_mask = player_mask, q_entity = int i\<rparr>"
  have first: "ecs_query_create ?e player_mask = ?q" using find by (simp add: ecs_query_create_def ecs_query_next_def)
  from update_player_loads [OF ok types i notin saves f right left, of speed ?keys player_mask] obtain w' e' where
    1: "?body ?q s = Inr (w', (snd s)\<lparr>fg_ecs := e'\<rparr>)" "dangling e0 ?e (fw_mem w') e'" .
  define s' where "s' = (w', (snd s)\<lparr>fg_ecs := e'\<rparr>)"
  have types': "types_ok (snd s')" and d: "dangling e0 ?e (fw_mem (fst s')) (fg_ecs (snd s'))"
    using types 1(2) by (simp_all add: s'_def types_ok_def)
  let ?q' = "ecs_query_next (fg_ecs (snd s')) ?q"
  have "update_players E s = query_loop (\<lambda>s. fg_ecs (snd s)) ?body ?q s"
    using types by (simp add: update_players_def speed game_loop_def first)
  also have "\<dots> = query_loop (\<lambda>s. fg_ecs (snd s)) ?body ?q' s'"
    by (subst query_loop.simps) (simp add: ecs_query_is_valid_def 1(1) flip: s'_def)
  also have "\<dots> = (if ecs_query_is_valid ?q' then Inl Use_after_free else Inr s')"
  proof (cases "ecs_query_is_valid ?q'")
    case True
    then have "?body ?q' s' = Inl Use_after_free" by (intro dangling_player_faults [OF d types']) (simp add: ecs_query_is_valid_def)
    with True show ?thesis by (subst query_loop.simps) simp
  qed (subst query_loop.simps, simp)
  finally have u: "update_players E s = (if ecs_query_is_valid ?q' then Inl Use_after_free else Inr s')" .
  show ?thesis
  proof (cases "ecs_query_is_valid ?q'")
    case False
    with u d types' show ?thesis by (intro disjI2 exI [of _ s']) simp
  qed (simp add: u)
qed

lemma frame_loads:
  assumes run: "can_run s" and saves: "saves_ok (fg_ecs (snd s))" and e: "e = ecs_update (fg_ecs (snd s))"
    and player: "slots e player_mask \<noteq> []"
    and f: "saved_file E (fw_disk (fst s)) (os_avail (fw_mem (fst s))) e0"
    and camera: "slots e0 camera_mask \<noteq> []" and model: "slots e0 model_mask \<noteq> []"
    and right: "wm_get_mouse_mask (fw_window (fst s)) AND k_mouse_button_right \<noteq> 0"
    and left: "wm_get_mouse_mask (fw_window (fst s)) AND k_mouse_button_left = 0"
  shows "frogger_game_update E now s = Inl Use_after_free"
proof -
  obtain ts speed s0 s1 where
    1: "timer_object_update (en_fp E) (fw_timers (fst s)) now (fst (fg_timer (snd s))) = Inr ts"
      "s0 = ((fst s)\<lparr>fw_timers := ts\<rparr>, (snd s)\<lparr>fg_ecs := e\<rparr>)" "update_blocks E s0 = Inr s1" "same_but {0, 4} s0 s1"
      "frame_speed E s1 = Inr speed" "tables_ok (fw_mem (fst s1)) e" "types_ok (snd s1)" "snd s1 = (snd s)\<lparr>fg_ecs := e\<rparr>"
    by (rule frame_blocks [OF run e]) (rule that)
  have keeps: "fw_disk (fst s1) = fw_disk (fst s)" "os_avail (fw_mem (fst s1)) = os_avail (fw_mem (fst s))" "fw_window (fst s1) = fw_window (fst s)"
    using same_but_sel [OF 1(4)] by (simp_all add: 1(2))
  have masks: "set (slots (fg_ecs (snd s1)) player_mask) \<inter> set (slots (fg_ecs (snd s1)) block_mask) = {}"
    using can_run_masks(1) [OF run] by (simp add: 1(8) e)
  have "update_players E s1 = Inl Use_after_free \<or>
    (\<exists>s'. update_players E s1 = Inr s' \<and> dangling e0 (fg_ecs (snd s1)) (fw_mem (fst s')) (fg_ecs (snd s')) \<and> types_ok (snd s'))"
    by (rule update_players_load [OF _ 1(7) masks])
      (use 1(5,6,8) player saves f right left in \<open>simp_all add: keeps e\<close>)
  then show ?thesis
  proof
    assume "update_players E s1 = Inl Use_after_free"
    then show ?thesis using 1(1,3) by (cases s) (simp add: frogger_game_update_def 1(2) e)
  next
    assume "\<exists>s'. update_players E s1 = Inr s' \<and> dangling e0 (fg_ecs (snd s1)) (fw_mem (fst s')) (fg_ecs (snd s')) \<and> types_ok (snd s')"
    then obtain s2 where 2: "update_players E s1 = Inr s2" "dangling e0 (fg_ecs (snd s1)) (fw_mem (fst s2)) (fg_ecs (snd s2))" "types_ok (snd s2)"
      by blast
    obtain c i where "c \<in> set (slots e0 camera_mask)" "i \<in> set (slots e0 model_mask)"
      using camera model by (meson list.set_sel(1))
    from dangling_draw_faults [OF 2(2,3) this] have "draw_models E s2 = Inl Use_after_free" .
    then show ?thesis using 1(1,3) 2(1) by (cases s) (simp add: frogger_game_update_def 1(2) e)
  qed
qed

end
