(* ===== verification/Frogger_Game.thy ===== *)
theory Frogger_Game
  imports Frogger_Load
begin

text \<open>
  The properties of the game: a frame follows the rules; the rules keep the blocks in their rows and
  no frame faults; where a player goes; what loading a game does; creation and destruction.
\<close>

section \<open>The created game\<close>

lemma game_created:
  fixes E :: "('a::linordered_field, 'd, 't) frogger_env" and w :: "('d, 't) frogger_world"
  assumes R: "float_contract (en_floats E)" and rand: "rand_contract E"
    and ok: "mem_ok (fw_mem w)" and b: "next_block (fw_mem w) + 1 < 2 ^ 32"
    and vert: "shader_file (en_io E) (fw_disk w) ''shaders/triangle.vert.spv'' vs d1"
    and frag: "shader_file (en_io E) d1 ''shaders/triangle.frag.spv'' fs d2"
    and room: "game_room vs fs \<le> os_avail (fw_mem w)"
  obtains s where "frogger_game_create E now w = Inr s" "game_inv E d s" "game_entities (fg_ecs (snd s))" "spawned 14 (fg_ecs (snd s))"
    "fst (field_of E s) 0 = player_start (en_floats E)"
    "\<forall>j. 1 \<le> j \<and> j \<le> 12 \<longrightarrow>
      new_block E (j - 1) (fw_rand w + (j - 1)) (fst (field_of E s) j) (fst (snd (field_of E s)) j)"
    "\<forall>p. (block_size (fw_mem (fst s)) p \<noteq> None) = (block_size (fw_mem w) p \<noteq> None \<or> p \<in> set (game_blocks (snd s)))"
    "\<forall>p \<in> set (game_blocks (snd s)). block_size (fw_mem w) p = None"
    "os_avail (fw_mem (fst s)) + game_room vs fs = os_avail (fw_mem w)" "mem_ok (fw_mem (fst s))"
    "fw_timers (fst s) (fst (fg_timer (snd s))) = Some (new_timer (en_fp E) now)" "fw_statics (fst s) = fw_statics w"
    "fw_window (fst s) = fw_window w" "fw_render (fst s) = fw_render w"
proof -
  let ?b = "next_block (fw_mem w)"
  obtain s0 where 0: "frogger_game_create E now w = bind_ok (spawn_player E 0 s0) (\<lambda>s2. bind_ok (spawn_blocks E s2) (spawn_camera E))"
    "empty_game (en_fp E) now ?b s0" "grown (fw_mem w) (fw_mem (fst s0)) (game_room vs fs)" "fw_rand (fst s0) = fw_rand w"
    "fw_render (fst s0) = fw_render w" "fw_statics (fst s0) = fw_statics w" "fw_window (fst s0) = fw_window w"
    by (rule empty_game_ok [OF ok vert frag room]) (rule that)
  obtain s where 1: "bind_ok (spawn_player E 0 s0) (\<lambda>s2. bind_ok (spawn_blocks E s2) (spawn_camera E)) = Inr s"
    "game_inv E d s" "game_entities (fg_ecs (snd s))" "game_blocks (snd s) = game_blocks (snd s0)"
    "block_size (fw_mem (fst s)) = block_size (fw_mem (fst s0))" "os_avail (fw_mem (fst s)) = os_avail (fw_mem (fst s0))"
    "fst (field_of E s) 0 = player_start (en_floats E)"
    "\<forall>j. 1 \<le> j \<and> j \<le> 12 \<longrightarrow>
      new_block E (j - 1) (fw_rand (fst s0) + (j - 1)) (fst (field_of E s) j) (fst (snd (field_of E s)) j)"
    "fw_render (fst s) = fw_render (fst s0)" "spawned 14 (fg_ecs (snd s))" "mem_ok (fw_mem (fst s))"
    "fw_timers (fst s) (fst (fg_timer (snd s))) = Some (new_timer (en_fp E) now)" "fw_statics (fst s) = fw_statics (fst s0)"
    "fw_window (fst s) = fw_window (fst s0)"
    by (rule spawn_all_ok [OF R rand 0(2) b])
  have blocks: "set (game_blocks (snd s)) = (\<lambda>k. (k, 0)) ` {?b..<?b + 13}" and nb: "next_block (fw_mem (fst s0)) = ?b + 13"
    and holds: "\<And>p. p \<in> set (game_blocks (snd s)) \<Longrightarrow> block_size (fw_mem (fst s0)) p \<noteq> None"
    using 0(2) by (simp_all add: empty_game_def 1(4) holds_blocks_def)
  have fresh: "block_size (fw_mem w) (k, i) = None" if "?b \<le> k" for k i
  proof -
    have "blocks (fw_mem w) k = None" using ok that by (metis mem_ok_def leD)
    then show ?thesis by (simp add: block_size_def)
  qed
  have old: "block_size (fw_mem (fst s0)) (k, i) = block_size (fw_mem w) (k, i)" if "k < ?b" for k i
    using 0(3) that by (simp add: grown_def block_size_def)
  have ok0: "mem_ok (fw_mem (fst s0))" using 0(3) by (simp add: grown_def)
  have beyond: "block_size (fw_mem (fst s0)) (k, i) = None" if "?b + 13 \<le> k" for k i
  proof -
    have "blocks (fw_mem (fst s0)) k = None" using ok0 that nb by (metis mem_ok_def leD)
    then show ?thesis by (simp add: block_size_def)
  qed
  have "(block_size (fw_mem (fst s)) p \<noteq> None) = (block_size (fw_mem w) p \<noteq> None \<or> p \<in> set (game_blocks (snd s)))" for p
  proof -
    obtain k i where p: "p = (k, i)" by (cases p)
    consider "k < ?b" | "?b \<le> k" "k < ?b + 13" "i = 0" | "?b \<le> k" "i \<noteq> 0" | "?b + 13 \<le> k" by linarith
    then show ?thesis
    proof cases
      case 1
      then show ?thesis using old by (auto simp: p \<open>block_size (fw_mem (fst s)) = _\<close> blocks)
    next
      case 2
      then have "p \<in> set (game_blocks (snd s))" by (auto simp: p blocks)
      with holds show ?thesis by (simp add: \<open>block_size (fw_mem (fst s)) = _\<close>)
    next
      case 3
      then show ?thesis using fresh by (auto simp: p blocks block_size_def)
    next
      case 4
      then show ?thesis using fresh beyond by (auto simp: p \<open>block_size (fw_mem (fst s)) = _\<close> blocks)
    qed
  qed
  moreover have "\<forall>p \<in> set (game_blocks (snd s)). block_size (fw_mem w) p = None"
    using fresh by (auto simp: blocks)
  moreover have "os_avail (fw_mem (fst s)) + game_room vs fs = os_avail (fw_mem w)" using 0(3) 1(6) by (simp add: grown_def)
  moreover have "frogger_game_create E now w = Inr s" using 0(1) 1(1) by simp
  ultimately show thesis using 1 0 by (intro that [of s]) simp_all
qed

lemma filter_upt_less: "a \<le> n \<Longrightarrow> filter (\<lambda>i. i < a \<and> Q i) [0..<n] = filter Q [0..<a]"
proof (induction n)
  case (Suc n)
  show ?case
  proof (cases "a = Suc n")
    case True
    then show ?thesis by (intro filter_cong) auto
  qed (use Suc in simp)
qed simp

text \<open>From the first update on, the entities are found by the loops.\<close>

lemma slots_started:
  assumes sp: "spawned 14 e" and ent: "game_entities e"
  shows "slots (ecs_update e) cm = filter (\<lambda>i. game_mask i AND cm = cm) [0..<14]"
proof -
  have len: "length (entity_states e) = k_max_entities" using sp by (simp add: spawned_def ecs_shape_def)
  have "query_matches (ecs_update e) cm i = (i < 14 \<and> game_mask i AND cm = cm)" if i: "i < k_max_entities" for i
  proof -
    have "entity_states e ! i = (if i < 14 then k_entity_pending_add else k_entity_unused)"
      using sp i by (auto simp: spawned_def)
    moreover have "component_masks e ! i = game_mask i" using ent i by (simp add: game_entities_def)
    ultimately show ?thesis using i len by (simp add: query_matches_def ecs_update_def ecs_update_state_def less_eq_entity_state_t_def)
  qed
  then have "slots (ecs_update e) cm = filter (\<lambda>i. i < 14 \<and> game_mask i AND cm = cm) [0..<k_max_entities]"
    unfolding slots_def by (intro filter_cong) simp_all
  also have "\<dots> = filter (\<lambda>i. game_mask i AND cm = cm) [0..<14]"
    by (rule filter_upt_less) (simp add: k_max_entities_def)
  finally show ?thesis .
qed

section \<open>A concrete game\<close>

text \<open>Rounding to whole numbers, a disk with the two shader files, a clock that counts milliseconds.\<close>

definition demo_floats :: "rat float_rep" where
  "demo_floats = \<lparr>f_bits = (\<lambda>x. word_of_int \<lfloor>x\<rfloor>), f_val = (\<lambda>w. of_int (sint w))\<rparr>"

definition demo_libm :: "rat libm" where
  "demo_libm = \<lparr>sqrtf = (\<lambda>x. x), sinf = (\<lambda>x. x), cosf = (\<lambda>x. 1), tanf = (\<lambda>x. x), asinf = (\<lambda>x. x), atan2f = (\<lambda>y x. y),
     half_pi = 11 / 7, flt_epsilon = 1 / 8388608\<rparr>"

definition demo_env :: "(rat, string \<Rightarrow> bytes option, nat) frogger_env" where
  "demo_env = \<lparr>en_floats = demo_floats, en_libm = demo_libm, en_rand = (\<lambda>n. n mod 3), en_rand_max = 2, en_io = plain_io, en_fp = whole_fp\<rparr>"

definition demo_world :: "(string \<Rightarrow> bytes option, nat) frogger_world" where
  "demo_world = \<lparr>fw_mem = mem_init 1000000 0,
     fw_disk = [''shaders/triangle.vert.spv'' \<mapsto> [1], ''shaders/triangle.frag.spv'' \<mapsto> [2]], fw_rand = 0,
     fw_timers = (\<lambda>_. None), fw_statics = \<lparr>s_ticks_start = 0, s_us_per_tick = 1000, s_ms_per_tick = 1\<rparr>,
     fw_window = \<lparr>wm_self = (0, 0), wm_hwnd = 1, wm_quit = False, has_focus = True, mouse_mask = 0, key_mask = k_key_up, mouse_x = 0, mouse_y = 0\<rparr>,
     fw_queue = \<lparr>used_items = \<lparr>sem_count = 0, sem_max = 3\<rparr>, free_items = \<lparr>sem_count = 3, sem_max = 3\<rparr>, items = [None, None, None],
       capacity = 3, head_index = 0, tail_index = 0\<rparr>, fw_taken = [], fw_takes = 11\<rparr>"

text \<open>Its queue is the renderer's, just created; eleven commands taken are enough for the fourteen of a frame.\<close>

lemma demo_queue: "queue_create [None, None, None] 3 = Inr (fw_queue demo_world)"
  by (simp add: queue_create_def semaphore_create_def demo_world_def)

lemma demo_queue_room: "fw_render w = fw_render demo_world \<Longrightarrow> queue_room 14 w"
  by (simp add: queue_room_def demo_world_def queue_inv_def queue_list_def q_cap_def q_head_def q_tail_def index_limit_def)

lemma demo_rounded: "\<bar>x\<bar> \<le> 2 ^ 24 \<Longrightarrow> rounded demo_floats x = of_int \<lfloor>x\<rfloor>"
proof -
  assume "\<bar>x\<bar> \<le> 2 ^ 24"
  then have "- (2 ^ 24) \<le> x" "x \<le> 2 ^ 24" by (simp_all add: abs_le_iff)
  then have "- (2 ^ 24) \<le> \<lfloor>x\<rfloor>" "\<lfloor>x\<rfloor> \<le> 2 ^ 24" by (simp_all add: le_floor_iff floor_le_iff)
  then have "sint (word_of_int \<lfloor>x\<rfloor> :: u32) = \<lfloor>x\<rfloor>" by (simp add: signed_of_int signed_take_bit_int_eq_self)
  then show ?thesis by (simp only: rounded_def demo_floats_def float_rep.simps)
qed

lemma demo_float_contract: "float_contract (en_floats demo_env)"
  unfolding float_contract_def
proof (intro conjI allI impI)
  have e: "en_floats demo_env = demo_floats" by (simp add: demo_env_def)
  show "rounded (en_floats demo_env) (of_int k) = of_int k" if "\<bar>k\<bar> \<le> 2 ^ 24" for k
  proof -
    have "\<bar>of_int k :: rat\<bar> \<le> 2 ^ 24" using that by (simp flip: of_int_abs)
    then show ?thesis by (simp add: e demo_rounded)
  qed
  show "rounded (en_floats demo_env) x \<le> rounded (en_floats demo_env) y" if "- (2 ^ 24) \<le> x" "x \<le> y" "y \<le> 2 ^ 24" for x y :: rat
  proof -
    have "\<bar>x\<bar> \<le> 2 ^ 24" "\<bar>y\<bar> \<le> 2 ^ 24" using that by (simp_all add: abs_le_iff)
    then show ?thesis using that(2) by (simp add: e demo_rounded floor_mono)
  qed
  show "rounded (en_floats demo_env) (rounded (en_floats demo_env) x) = rounded (en_floats demo_env) x" if x: "\<bar>x\<bar> \<le> 2 ^ 24" for x :: rat
  proof -
    have "- (2 ^ 24) \<le> x" "x \<le> 2 ^ 24" using x by (simp_all add: abs_le_iff)
    then have "- (2 ^ 24) \<le> \<lfloor>x\<rfloor>" "\<lfloor>x\<rfloor> \<le> 2 ^ 24" by (simp_all add: le_floor_iff floor_le_iff)
    then have "\<bar>\<lfloor>x\<rfloor>\<bar> \<le> 2 ^ 24" by linarith
    then have "\<bar>of_int \<lfloor>x\<rfloor> :: rat\<bar> \<le> 2 ^ 24" by (simp flip: of_int_abs)
    then show ?thesis by (simp add: e demo_rounded [OF x] demo_rounded)
  qed
qed

lemma demo_rand_contract: "rand_contract demo_env"
proof -
  have "n mod 3 \<le> 2" for n :: nat by linarith
  then show ?thesis by (simp add: rand_contract_def demo_env_def)
qed

lemma plain_shader_file:
  "d path = Some bs \<Longrightarrow> bs \<noteq> [] \<Longrightarrow> length bs < 2 ^ 31 \<Longrightarrow> shader_file plain_io d path bs d"
  by (simp add: shader_file_def plain_io_def unsigned_of_nat take_bit_nat_eq_self)

lemma demo_shaders:
  "shader_file (en_io demo_env) (fw_disk demo_world) ''shaders/triangle.vert.spv'' [1] (fw_disk demo_world)"
  "shader_file (en_io demo_env) (fw_disk demo_world) ''shaders/triangle.frag.spv'' [2] (fw_disk demo_world)"
  by (simp_all add: demo_env_def, (rule plain_shader_file; simp add: demo_world_def)+)

lemma demo_room: "mem_ok (fw_mem demo_world)" "game_room [1] [2] \<le> os_avail (fw_mem demo_world)" "next_block (fw_mem demo_world) + 1 < 2 ^ 32"
  by (simp_all add: demo_world_def game_room_def sizeof_frogger_game_t_def sizeof_timer_object_t_def sizeof_ecs_t_def tables_total_def
      sizeof_fs_work_t_def k_max_entities_def k_max_component_types_def)

lemma demo_game:
  obtains s where "frogger_game_create demo_env 100 demo_world = Inr s" "game_inv demo_env 1 s" "game_entities (fg_ecs (snd s))"
    "spawned 14 (fg_ecs (snd s))" "100000 \<le> os_avail (fw_mem (fst s))" "mem_ok (fw_mem (fst s))"
    "fw_timers (fst s) (fst (fg_timer (snd s))) = Some (new_timer whole_fp 100)" "fw_statics (fst s) = fw_statics demo_world"
    "fw_window (fst s) = fw_window demo_world" "fw_render (fst s) = fw_render demo_world"
    "vz (translation (fst (field_of demo_env s) 1)) = 2" "fst (field_of demo_env s) 0 = player_start (en_floats demo_env)"
proof -
  obtain s where s: "frogger_game_create demo_env 100 demo_world = Inr s" "game_inv demo_env 1 s" "game_entities (fg_ecs (snd s))"
    "spawned 14 (fg_ecs (snd s))" "os_avail (fw_mem (fst s)) + game_room [1] [2] = os_avail (fw_mem demo_world)" "mem_ok (fw_mem (fst s))"
    "fw_timers (fst s) (fst (fg_timer (snd s))) = Some (new_timer (en_fp demo_env) 100)" "fw_statics (fst s) = fw_statics demo_world"
    "fw_window (fst s) = fw_window demo_world" "fw_render (fst s) = fw_render demo_world"
    and player: "fst (field_of demo_env s) 0 = player_start (en_floats demo_env)" and new: "\<forall>j. 1 \<le> j \<and> j \<le> 12 \<longrightarrow>
      new_block demo_env (j - 1) (fw_rand demo_world + (j - 1)) (fst (field_of demo_env s) j) (fst (snd (field_of demo_env s)) j)"
    by (rule game_created [OF demo_float_contract demo_rand_contract demo_room(1,3) demo_shaders demo_room(2)]) (rule that)
  have "100000 + game_room [1] [2] \<le> os_avail (fw_mem demo_world)"
    by (simp add: demo_world_def game_room_def sizeof_frogger_game_t_def sizeof_timer_object_t_def sizeof_ecs_t_def tables_total_def
        sizeof_fs_work_t_def k_max_entities_def k_max_component_types_def)
  with s(5) have room: "100000 \<le> os_avail (fw_mem (fst s))" by linarith
  have "vz (translation (fst (field_of demo_env s) 1)) = 2"
    using spec [OF new, of 1] by (simp add: new_block_def block_row_def)
  then show thesis using s(1-4,6-10) room player by (intro that [of s]) (simp_all add: demo_env_def demo_world_def)
qed

lemma demo_slots:
  assumes "spawned 14 e" and "game_entities e"
  shows "slots (ecs_update e) camera_mask = [13]" "length (slots (ecs_update e) model_mask) = 13" "slots (ecs_update e) player_mask = [0]"
    "slots (ecs_update e) block_mask = [1..<13]"
  by (simp_all add: slots_started [OF assms] game_masks upt_rec eval_nat_numeral)

lemma demo_playable:
  assumes "game_entities (fg_ecs (snd s))" and "spawned 14 (fg_ecs (snd s))" and "100000 \<le> os_avail (fw_mem (fst s))"
    and "fw_timers (fst s) (fst (fg_timer (snd s))) = Some (new_timer whole_fp 100)" and "fw_statics (fst s) = fw_statics demo_world"
    and "fw_window (fst s) = fw_window demo_world" and "fw_render (fst s) = fw_render demo_world"
  shows "playable demo_env 1 116 s"
proof -
  have "frame_room (fg_ecs (snd s)) \<le> os_avail (fw_mem (fst s))"
    using assms(3) by (simp add: frame_room_def demo_slots [OF assms(2,1)])
  moreover have "queue_room (frame_commands (fg_ecs (snd s))) (fst s)"
    using demo_queue_room [OF assms(7)] by (simp add: frame_commands_def demo_slots [OF assms(2,1)])
  moreover have "no_buttons (wm_get_mouse_mask (fw_window (fst s)))"
    by (simp add: assms(6) demo_world_def no_buttons_def wm_get_mouse_mask_def)
  moreover have "2 * speed \<le> of_nat 1" if "frame_speed_at demo_env 116 s = Inr speed" for speed
    using that assms(4,5)
    by (simp add: frame_speed_at_def timer_object_update_def with_timer_def base_ticks_def new_timer_def demo_env_def whole_fp_def
        frame_speed_def timer_object_get_delta_ms_def timer_ticks_to_ms_def demo_world_def split_def Let_def)
  ultimately show ?thesis by (simp add: playable_def)
qed

text \<open>The image of a game with its tables: the transforms, the players and the blocks.\<close>

lemma component_images_defined:
  "length ss = length ps \<Longrightarrow> length zs = length ps \<Longrightarrow>
   \<forall>c < length ps. ss ! c \<longrightarrow> (\<exists>bs. mem_read m (ps ! c) (k_max_entities * unat (zs ! c)) = Inr bs) \<Longrightarrow>
   \<exists>cs. component_images m ss zs ps = Inr cs"
proof (induction ps arbitrary: ss zs)
  case (Cons p ps)
  from Cons.prems(1,2) obtain b ss' z zs' where l: "ss = b # ss'" "zs = z # zs'" "length ss' = length ps" "length zs' = length ps"
    by (cases ss; cases zs) auto
  have "\<forall>c < length ps. ss' ! c \<longrightarrow> (\<exists>bs. mem_read m (ps ! c) (k_max_entities * unat (zs' ! c)) = Inr bs)"
    using Cons.prems(3) by (auto simp: l dest: spec [of _ "Suc _"])
  from Cons.IH [OF l(3,4) this] obtain cs where "component_images m ss' zs' ps = Inr cs" ..
  with spec [OF Cons.prems(3), of 0] show ?case by (auto simp: l)
qed simp

lemma saved_total_sum:
  "length ss = length zs \<Longrightarrow> saved_total ss zs = (\<Sum>c < length zs. if ss ! c then k_max_entities * unat (zs ! c) else 0)"
proof (induction ss zs rule: list_induct2)
  case (Cons s ss z zs)
  then show ?case by (simp add: sum.lessThan_Suc_shift del: sum.lessThan_Suc cong: if_cong)
qed simp

lemma saved_image:
  assumes ok: "tables_ok m e" and saves: "saves_ok e"
  obtains img where "ecs_image m e = Inr img" "length img = save_header_size + 24576"
proof -
  have shape: "ecs_shape e" using ok by (simp add: tables_ok_def)
  then have len: "length (save_component e) = 64" "length (component_type_sizes e) = 64" "length (components e) = 64"
    by (simp_all add: ecs_shape_def k_max_component_types_def)
  have save: "save_component e ! c = is_saved c" if "c < 64" for c
    using saves that by (simp add: saves_ok_def k_max_component_types_def)
  have "\<exists>bs. mem_read m (components e ! c) (k_max_entities * unat (component_type_sizes e ! c)) = Inr bs" if "is_saved c" for c
  proof -
    have c: "c < 6" using that by (auto simp: is_saved_def)
    show ?thesis using tables_okD [OF ok c] by (auto simp: mem_read_def table_size_def mult.commute)
  qed
  then have "\<exists>cs. component_images m (save_component e) (component_type_sizes e) (components e) = Inr cs"
    using len save by (intro component_images_defined) auto
  then obtain img where img: "ecs_image m e = Inr img" by (auto simp: ecs_image_def)
  have sizes: "unat (component_type_sizes e ! 0) = 40" "unat (component_type_sizes e ! 3) = 4" "unat (component_type_sizes e ! 4) = 4"
    using tables_okD(2) [OF ok, of 0] tables_okD(2) [OF ok, of 3] tables_okD(2) [OF ok, of 4] by (simp_all add: csize_def)
  have "saved_total (save_component e) (component_type_sizes e) =
      (\<Sum>c < 64. if is_saved c then k_max_entities * unat (component_type_sizes e ! c) else 0)"
    using len save by (simp add: saved_total_sum)
  also have "\<dots> = (\<Sum>c \<in> {0, 3, 4}. k_max_entities * unat (component_type_sizes e ! c))"
    by (intro sum.mono_neutral_cong_right) (auto simp: is_saved_def)
  also have "\<dots> = 24576" using sizes by (simp add: k_max_entities_def)
  finally show thesis using that [OF img] length_ecs_image [OF shape img] by simp
qed

lemma spawned_states:
  assumes "spawned k e"
  shows "\<forall>st \<in> set (entity_states (ecs_update e)). es_proper st"
proof -
  have "entity_states e ! i \<in> {k_entity_pending_add, k_entity_unused}" if "i < k_max_entities" for i
    using assms that by (cases "i < k") (simp_all add: spawned_def)
  moreover have "length (entity_states e) = k_max_entities" using assms by (simp add: spawned_def ecs_shape_def)
  ultimately have "\<forall>st \<in> set (entity_states e). st \<in> {k_entity_pending_add, k_entity_unused}" by (metis in_set_conv_nth)
  then show ?thesis by (auto simp: ecs_update_def ecs_update_state_def es_proper_def)
qed

lemma game_inv_update: "game_inv E d s \<Longrightarrow> game_inv E d (fst s, (snd s)\<lparr>fg_ecs := ecs_update (fg_ecs (snd s))\<rparr>)"
proof -
  have "component_masks (ecs_update e) = component_masks e" for e by (simp add: ecs_update_def)
  moreover have "field_of E (fst s, (snd s)\<lparr>fg_ecs := ecs_update (fg_ecs (snd s))\<rparr>) = field_of E s" by (simp add: field_of_def)
  moreover assume "game_inv E d s"
  ultimately show ?thesis by (simp add: game_inv_def can_run_def types_ok_def holds_blocks_def)
qed

section \<open>Properties\<close>

text \<open>
  C35.  A frame in which no mouse button is held, so that it neither saves nor loads, with memory for its commands and a
  render thread that takes enough of them for all to find a place in its queue of three, returns and does what the rules
  say: every block moves by its rule, then every player by the rule of the keys, the collisions and the start;
  nothing else in the component tables changes; and what is pushed to the renderer is, for every camera, one drawing for
  every entity with a transform and a model, with its mesh, its shader and its matrices, and then the end of the frame.
\<close>

theorem frogger_frame_follows_rules:
  fixes E :: "('a::linordered_field, 'd, 't) frogger_env"
  assumes "can_run s" and "no_buttons (wm_get_mouse_mask (fw_window (fst s)))"
    and "frame_room (fg_ecs (snd s)) \<le> os_avail (fw_mem (fst s))"
    and "queue_room (frame_commands (fg_ecs (snd s))) (fst s)"
  shows "\<exists>speed s' cs p.
    frame_speed_at E now s = Inr speed \<and> frogger_game_update E now s = Inr s' \<and> can_run s' \<and>
    snd s' = (snd s)\<lparr>fg_ecs := ecs_update (fg_ecs (snd s))\<rparr> \<and>
    field_of E s' = frame_rule E speed (wm_get_key_mask (fw_window (fst s))) (fg_ecs (snd s')) (field_of E s) \<and>
    (\<forall>ty. ty \<notin> {0, 4} \<longrightarrow> cells (fw_mem (fst s')) (fg_ecs (snd s')) ty = cells (fw_mem (fst s)) (fg_ecs (snd s)) ty) \<and>
    fw_pushed (fst s') = fw_pushed (fst s) @ map Some (cs @ [Command_frame_done p]) \<and>
    list_all2 (carries (fw_mem (fst s'))) cs
      (drawings (en_floats E) (fg_ecs (snd s')) (cells (fw_mem (fst s')) (fg_ecs (snd s'))))"
proof -
  let ?e = "ecs_update (fg_ecs (snd s))"
  have room: "240 * (length (slots ?e camera_mask) * length (slots ?e model_mask)) + 4 \<le> os_avail (fw_mem (fst s))"
    using assms(3) by (simp add: frame_room_def)
  have places: "queue_room (length (slots ?e camera_mask) * length (slots ?e model_mask) + 1) (fst s)"
    using assms(4) by (simp add: frame_commands_def)
  obtain speed s' cs p where f: "frame_speed_at E now s = Inr speed" "frogger_game_update E now s = Inr s'" "can_run s'"
    "snd s' = (snd s)\<lparr>fg_ecs := ?e\<rparr>" "field_of E s' = frame_rule E speed (wm_get_key_mask (fw_window (fst s))) ?e (field_of E s)"
    "fw_pushed (fst s') = fw_pushed (fst s) @ map Some (cs @ [Command_frame_done p])"
    "list_all2 (carries (fw_mem (fst s'))) cs (drawings (en_floats E) ?e (cells (fw_mem (fst s')) ?e))"
    "\<And>ty. ty \<notin> {0, 4} \<Longrightarrow> cells (fw_mem (fst s')) ?e ty = cells (fw_mem (fst s)) ?e ty"
    by (rule frame_follows [OF assms(1,2) refl room places]) (rule that)
  have e: "fg_ecs (snd s') = ?e" by (simp add: f(4))
  show ?thesis
    unfolding e using f by (intro exI [of _ speed] exI [of _ s'] exI [of _ cs] exI [of _ p]) auto
qed

text \<open>The created game draws its thirteen models.\<close>

theorem frogger_frame_follows_rules_witness:
  "\<exists>s s'. frogger_game_create demo_env 100 demo_world = Inr s \<and> frogger_game_update demo_env 116 s = Inr s' \<and>
     can_run s' \<and> length (fw_pushed (fst s')) = 14"
proof -
  obtain s where s: "frogger_game_create demo_env 100 demo_world = Inr s" "game_inv demo_env 1 s" "game_entities (fg_ecs (snd s))"
    "spawned 14 (fg_ecs (snd s))" "100000 \<le> os_avail (fw_mem (fst s))" "mem_ok (fw_mem (fst s))"
    "fw_timers (fst s) (fst (fg_timer (snd s))) = Some (new_timer whole_fp 100)" "fw_statics (fst s) = fw_statics demo_world"
    "fw_window (fst s) = fw_window demo_world" "fw_render (fst s) = fw_render demo_world" by (rule demo_game) (rule that)
  have run: "can_run s" using s(2) by (simp add: game_inv_def)
  have "playable demo_env 1 116 s" by (rule demo_playable [OF s(3,4,5,7,8,9,10)])
  then have "no_buttons (wm_get_mouse_mask (fw_window (fst s)))" "frame_room (fg_ecs (snd s)) \<le> os_avail (fw_mem (fst s))"
    "queue_room (frame_commands (fg_ecs (snd s))) (fst s)"
    by (simp_all add: playable_def)
  from frogger_frame_follows_rules [OF run this, of demo_env 116] obtain s' cs p where
    f: "frogger_game_update demo_env 116 s = Inr s'" "can_run s'" "snd s' = (snd s)\<lparr>fg_ecs := ecs_update (fg_ecs (snd s))\<rparr>"
      "fw_pushed (fst s') = fw_pushed (fst s) @ map Some (cs @ [Command_frame_done p])"
      "list_all2 (carries (fw_mem (fst s'))) cs
        (drawings (en_floats demo_env) (fg_ecs (snd s')) (cells (fw_mem (fst s')) (fg_ecs (snd s'))))" by blast
  have "length cs = 13" using list_all2_lengthD [OF f(5)] by (simp add: length_drawings f(3) demo_slots [OF s(4,3)])
  moreover have "fw_pushed (fst s) = []" using s(10) by (simp add: fw_pushed_def demo_world_def queue_list_def q_head_def q_tail_def)
  ultimately have "length (fw_pushed (fst s')) = 14" by (simp add: f(4))
  with s(1) f(1,2) show ?thesis by blast
qed

text \<open>
  C36.  Every frame that is played keeps the game: over any sequence of playable frames (no mouse button is held, and
  there is room for the frame's commands), with any keys, and any activity of the other threads in between, every block stays in its row and within \<open>d\<close> of the row's ends, where \<open>d\<close>
  bounds how far a frame can move it, with a width from 4 to 12 that is also its scale; the player stays in the plane
  of the screen, and no block can reach the start; and the next playable frame does not fault.
\<close>

theorem frogger_game_stays_in_bounds:
  fixes E :: "('a::linordered_field, 'd, 't) frogger_env"
  assumes R: "float_contract (en_floats E)" and rand: "rand_contract E" and d: "d \<le> 2 ^ 20"
    and inv: "game_inv E d s" and steps: "(game_step E d)\<^sup>*\<^sup>* s s'"
  shows "(\<forall>i \<in> with_mask (fg_ecs (snd s)) block_mask. \<exists>y z x.
      fst (field_of E s') i = \<lparr>translation = vec 0 y z, tscale = vec 1 x 1, rotation = quatf_identity\<rparr> \<and>
      z \<in> {2, 0, - 2} \<and> z = vz (translation (fst (field_of E s) i)) \<and> - (12 + of_nat d) \<le> y \<and> y \<le> 12 + of_nat d \<and>
      fst (snd (field_of E s')) i = x \<and> 4 \<le> x \<and> x \<le> 12 \<and> \<not> block_hits 0 4 y z x) \<and>
    (\<forall>i \<in> with_mask (fg_ecs (snd s)) player_mask. player_ok (fst (field_of E s') i)) \<and>
    (\<forall>now. playable E d now s' \<longrightarrow> (\<exists>s''. frogger_game_update E now s' = Inr s''))"
proof -
  have k: "game_inv E d s'" "with_mask (fg_ecs (snd s')) = with_mask (fg_ecs (snd s))"
    "\<forall>i \<in> with_mask (fg_ecs (snd s)) block_mask. vz (translation (fst (field_of E s') i)) = vz (translation (fst (field_of E s) i))"
    using game_steps_keep [OF R rand d inv steps] by blast+
  have rows: "rows_ok E d (with_mask (fg_ecs (snd s)) block_mask) (field_of E s')"
    and players: "\<forall>i \<in> with_mask (fg_ecs (snd s)) player_mask. player_ok (fst (field_of E s') i)"
    using k(1) unfolding game_inv_def k(2) by blast+
  show ?thesis
  proof (intro conjI ballI allI impI)
    fix i assume i: "i \<in> with_mask (fg_ecs (snd s)) block_mask"
    let ?t = "fst (field_of E s') i" and ?x = "fst (snd (field_of E s')) i"
    have b: "block_ok (en_floats E) d ?t ?x" using rows i by (simp add: rows_ok_def)
    have "?t = \<lparr>translation = vec 0 (vy (translation ?t)) (vz (translation ?t)), tscale = vec 1 ?x 1, rotation = quatf_identity\<rparr>"
      using b by (cases ?t; cases "translation ?t") (simp add: block_ok_def)
    moreover have "\<not> block_hits 0 4 (vy (translation ?t)) (vz (translation ?t)) ?x"
      using b by (auto simp: block_ok_def block_hits_def)
    ultimately show "\<exists>y z x.
      ?t = \<lparr>translation = vec 0 y z, tscale = vec 1 x 1, rotation = quatf_identity\<rparr> \<and>
      z \<in> {2, 0, - 2} \<and> z = vz (translation (fst (field_of E s) i)) \<and> - (12 + of_nat d) \<le> y \<and> y \<le> 12 + of_nat d \<and>
      ?x = x \<and> 4 \<le> x \<and> x \<le> 12 \<and> \<not> block_hits 0 4 y z x"
      using b k(3) i by (intro exI [of _ "vy (translation ?t)"] exI [of _ "vz (translation ?t)"] exI [of _ ?x]) (simp add: block_ok_def)
  next
    show "player_ok (fst (field_of E s') i)" if "i \<in> with_mask (fg_ecs (snd s)) player_mask" for i
      using players that by blast
    show "\<exists>s''. frogger_game_update E now s' = Inr s''" if "playable E d now s'" for now
      by (rule playable_frame [OF R rand d k(1) that]) blast
  qed
qed

theorem frogger_game_stays_in_bounds_witness:
  "\<exists>s s'. frogger_game_create demo_env 100 demo_world = Inr s \<and> frogger_game_update demo_env 116 s = Inr s' \<and>
     (\<exists>y x. fst (field_of demo_env s') 1 = \<lparr>translation = vec 0 y 2, tscale = vec 1 x 1, rotation = quatf_identity\<rparr> \<and> - 13 \<le> y \<and> y \<le> 13)"
proof -
  obtain s where s: "frogger_game_create demo_env 100 demo_world = Inr s" "game_inv demo_env 1 s" "game_entities (fg_ecs (snd s))"
    "spawned 14 (fg_ecs (snd s))" "100000 \<le> os_avail (fw_mem (fst s))" "mem_ok (fw_mem (fst s))"
    "fw_timers (fst s) (fst (fg_timer (snd s))) = Some (new_timer whole_fp 100)" "fw_statics (fst s) = fw_statics demo_world"
    "fw_window (fst s) = fw_window demo_world" "vz (translation (fst (field_of demo_env s) 1)) = 2"
    "fw_render (fst s) = fw_render demo_world"
    by (rule demo_game) (rule that)
  note play = demo_playable [OF s(3,4,5,7,8,9,11)]
  from frogger_game_stays_in_bounds [OF demo_float_contract demo_rand_contract _ s(2), of s] play obtain s' where
    s': "frogger_game_update demo_env 116 s = Inr s'" by auto
  have "(game_step demo_env 1)\<^sup>*\<^sup>* s s'" using step_frame [OF play s'] by blast
  note bounds = frogger_game_stays_in_bounds [OF demo_float_contract demo_rand_contract _ s(2) this]
  have "1 \<in> with_mask (fg_ecs (snd s)) block_mask" by (simp add: game_entities_with_mask [OF s(3)])
  from bounds [THEN conjunct1, THEN bspec, OF _ this] obtain y z x where
    "fst (field_of demo_env s') 1 = \<lparr>translation = vec 0 y z, tscale = vec 1 x 1, rotation = quatf_identity\<rparr>"
    "z = vz (translation (fst (field_of demo_env s) 1))" "- (12 + of_nat 1) \<le> y" "y \<le> 12 + of_nat 1"
    by auto
  with s(10) have "fst (field_of demo_env s') 1 = \<lparr>translation = vec 0 y 2, tscale = vec 1 x 1, rotation = quatf_identity\<rparr> \<and>
      - 13 \<le> y \<and> y \<le> 13" by simp
  then have "\<exists>y x. fst (field_of demo_env s') 1 = \<lparr>translation = vec 0 y 2, tscale = vec 1 x 1, rotation = quatf_identity\<rparr> \<and>
      - 13 \<le> y \<and> y \<le> 13" by blast
  with s(1) s' show ?thesis by blast
qed

text \<open>
  C37.  The update of a player: past the far edge, or hit by any of the blocks where they are in this frame, the player
  is put back at the start; from there or from where it was it then moves by the frame's step in every direction whose
  key is held, opposite keys cancelling; and no other transform changes.
\<close>

theorem frogger_player_moves:
  fixes E :: "('a::linordered_field, 'd, 't) frogger_env" and speed :: 'a
  assumes R: "float_contract (en_floats E)" and inv: "game_inv E d s" and nb: "no_buttons buttons"
    and i: "i \<in> set (slots (fg_ecs (snd s)) player_mask)"
  shows "\<exists>s'. update_player E speed keys buttons \<lparr>q_component_mask = player_mask, q_entity = int i\<rparr> s = Inr s' \<and>
    (let (T, S, n) = field_of E s; pos = translation (T i);
         hit = (\<exists>j \<in> set (slots (fg_ecs (snd s)) block_mask).
                  block_hits (vy pos) (vz pos) (vy (translation (T j))) (vz (translation (T j))) (S j));
         start = (if vz pos < - 4 \<or> hit then vec 0 0 4 else pos)
     in field_of E s' = (T(i := \<lparr>translation = vec 0 (rounded (en_floats E) (vy start + key_step speed keys k_key_left k_key_right))
                                  (rounded (en_floats E) (vz start + key_step speed keys k_key_up k_key_down)),
                                tscale = vec 1 1 1, rotation = quatf_identity\<rparr>), S, n))"
proof -
  let ?R = "en_floats E" and ?bs = "slots (fg_ecs (snd s)) block_mask"
  obtain T S n where f: "field_of E s = (T, S, n)" by (metis prod_cases3)
  have run: "can_run s" and rows: "rows_ok E d (with_mask (fg_ecs (snd s)) block_mask) (field_of E s)"
    using inv by (simp_all add: game_inv_def)
  have im: "i \<in> with_mask (fg_ecs (snd s)) player_mask" using slots_with_mask i by blast
  then have p: "player_ok (T i)" using inv by (simp add: game_inv_def f)
  have notin: "i \<notin> set ?bs" using can_run_disjoint [OF run] slots_with_mask im by blast
  have b: "block_ok ?R d (fst (field_of E s) j) (fst (snd (field_of E s)) j)" if "j \<in> set ?bs" for j
    using rows that slots_with_mask unfolding rows_ok_def by blast
  have "tables_ok (fw_mem (fst s)) (fg_ecs (snd s))" "types_ok (snd s)" using run by (simp_all add: can_run_def)
  from update_player_follows [OF this slots_less [OF i] notin nb, of E speed keys player_mask] obtain s' where
    s': "update_player E speed keys buttons \<lparr>q_component_mask = player_mask, q_entity = int i\<rparr> s = Inr s'"
      "field_of E s' = player_step ?R speed keys ?bs i (field_of E s)" by blast
  have hit: "list_ex (hit_by (T i) (T, S, n)) ?bs \<longleftrightarrow> (\<exists>j \<in> set ?bs.
      block_hits (vy (translation (T i))) (vz (translation (T i))) (vy (translation (T j))) (vz (translation (T j))) (S j))"
    by (simp add: list_ex_iff hit_by_def)
  have rule: "player_rule ?R speed keys ?bs (T, S, n) (T i) =
    (let start = (if sent_back ?bs (T, S, n) (T i) then vec 0 0 4 else translation (T i))
     in \<lparr>translation = vec 0 (rounded ?R (vy start + key_step speed keys k_key_left k_key_right))
          (rounded ?R (vz start + key_step speed keys k_key_up k_key_down)), tscale = vec 1 1 1, rotation = quatf_identity\<rparr>)"
    unfolding Let_def by (rule player_rule_moves [OF R p, where bs = ?bs and f = "(T, S, n)" and d = d]) (use b f in simp)
  have "field_of E s' = (T(i := player_rule ?R speed keys ?bs (T, S, n) (T i)), S, n)"
    by (simp add: s'(2) f player_step_def put_field_def)
  with s'(1) show ?thesis
    unfolding rule f sent_back_def hit by (intro exI [of _ s']) (simp add: Let_def)
qed

text \<open>The player of the created game steps up from its start.\<close>

theorem frogger_player_moves_witness:
  "\<exists>s s'. frogger_game_create demo_env 100 demo_world = Inr s \<and>
     update_player demo_env 1 k_key_up 0 \<lparr>q_component_mask = player_mask, q_entity = 0\<rparr> (fst s, (snd s)\<lparr>fg_ecs := ecs_update (fg_ecs (snd s))\<rparr>) = Inr s' \<and>
     translation (fst (field_of demo_env s') 0) = vec 0 0 3"
proof -
  obtain s where s: "frogger_game_create demo_env 100 demo_world = Inr s" "game_inv demo_env 1 s" "game_entities (fg_ecs (snd s))"
    "spawned 14 (fg_ecs (snd s))" "fst (field_of demo_env s) 0 = player_start (en_floats demo_env)"
    by (rule demo_game) (rule that)
  let ?e = "ecs_update (fg_ecs (snd s))"
  define s1 where "s1 = (fst s, (snd s)\<lparr>fg_ecs := ?e\<rparr>)"
  have e1: "fg_ecs (snd s1) = ?e" and f1: "field_of demo_env s1 = field_of demo_env s" by (simp_all add: s1_def field_of_def)
  have inv: "game_inv demo_env 1 s1" unfolding s1_def by (rule game_inv_update [OF s(2)])
  have "0 \<in> set (slots (fg_ecs (snd s1)) player_mask)" by (simp add: e1 demo_slots [OF s(4,3)])
  from frogger_player_moves [OF demo_float_contract inv _ this, of 0 1 k_key_up] obtain s' where
    u: "update_player demo_env 1 k_key_up 0 \<lparr>q_component_mask = player_mask, q_entity = int 0\<rparr> s1 = Inr s'" and
    f: "let (T, S, n) = field_of demo_env s1; pos = translation (T 0);
         hit = (\<exists>j \<in> set (slots (fg_ecs (snd s1)) block_mask).
                  block_hits (vy pos) (vz pos) (vy (translation (T j))) (vz (translation (T j))) (S j));
         start = (if vz pos < - 4 \<or> hit then vec 0 0 4 else pos)
     in field_of demo_env s' = (T(0 := \<lparr>translation = vec 0 (rounded (en_floats demo_env) (vy start + key_step 1 k_key_up k_key_left k_key_right))
                                  (rounded (en_floats demo_env) (vz start + key_step 1 k_key_up k_key_up k_key_down)),
                                tscale = vec 1 1 1, rotation = quatf_identity\<rparr>), S, n)"
    by (auto simp: no_buttons_def)
  have "key_step (1 :: rat) k_key_up k_key_left k_key_right = 0" "key_step (1 :: rat) k_key_up k_key_up k_key_down = - 1"
    by (simp_all add: key_step_def k_key_up_def k_key_down_def k_key_left_def k_key_right_def)
  moreover have "rounded (en_floats demo_env) 0 = 0" "rounded (en_floats demo_env) 3 = 3"
    using rounded_int [OF demo_float_contract, of 0] rounded_int [OF demo_float_contract, of 3] by simp_all
  moreover obtain T S n where T: "field_of demo_env s1 = (T, S, n)" by (metis prod_cases3)
  moreover have "translation (T 0) = vec 0 0 4" using s(5) T f1 by (simp add: player_start_simps [OF demo_float_contract])
  ultimately have "translation (fst (field_of demo_env s') 0) = vec 0 0 3"
    using f by (simp add: Let_def)
  moreover have "update_player demo_env 1 k_key_up 0 \<lparr>q_component_mask = player_mask, q_entity = 0\<rparr> s1 = Inr s'" using u by simp
  ultimately show ?thesis using s(1) unfolding s1_def by blast
qed

text \<open>
  C38.  Loading a saved game with the right mouse button faults in the frame that loads it. With a player in the game
  and a file that holds a camera and a model, the frame goes on to use the loaded transforms, of the next player or of
  the first model that is drawn, in the file's buffer, which \<^verbatim>\<open>ecs_load_game\<close> has released.
\<close>

theorem frogger_load_faults:
  fixes E :: "('a::linordered_field, 'd, 't) frogger_env"
  assumes "game_inv E d s" and "slots (ecs_update (fg_ecs (snd s))) player_mask \<noteq> []"
    and "saved_file E (fw_disk (fst s)) (os_avail (fw_mem (fst s))) e0"
    and "slots e0 camera_mask \<noteq> []" and "slots e0 model_mask \<noteq> []"
    and "wm_get_mouse_mask (fw_window (fst s)) AND k_mouse_button_right \<noteq> 0"
    and "wm_get_mouse_mask (fw_window (fst s)) AND k_mouse_button_left = 0"
  shows "frogger_game_update E now s = Inl Use_after_free"
  using assms by (intro frame_loads [OF _ _ refl _ assms(3)]) (simp_all add: game_inv_def)

text \<open>The created game, saved after its first update and loaded again.\<close>

theorem frogger_load_faults_witness:
  "\<exists>s disk. frogger_game_create demo_env 100 demo_world = Inr s \<and>
     (\<exists>d m. ecs_save_game plain_io d (fw_mem (fst s)) (ecs_update (fg_ecs (snd s))) = Inr (disk, m)) \<and>
     frogger_game_update demo_env 116
       ((fst s)\<lparr>fw_disk := disk, fw_window := (fw_window (fst s))\<lparr>mouse_mask := k_mouse_button_right\<rparr>\<rparr>, snd s) = Inl Use_after_free"
proof -
  obtain s where s: "frogger_game_create demo_env 100 demo_world = Inr s" "game_inv demo_env 1 s" "game_entities (fg_ecs (snd s))"
    "spawned 14 (fg_ecs (snd s))" "100000 \<le> os_avail (fw_mem (fst s))" "mem_ok (fw_mem (fst s))"
    by (rule demo_game) (rule that)
  let ?e = "ecs_update (fg_ecs (snd s))"
  have ok: "tables_ok (fw_mem (fst s)) ?e" and saves: "saves_ok ?e" using s(2) by (simp_all add: game_inv_def can_run_def)
  from saved_image [OF ok saves] obtain img where img: "ecs_image (fw_mem (fst s)) ?e = Inr img" "length img = save_header_size + 24576" .
  have small: "length img < 2 ^ 31" "length img + 1 + sizeof_fs_work_t \<le> os_avail (fw_mem (fst s))"
    using s(5) by (simp_all add: img(2) save_header_size_def k_max_entities_def sizeof_fs_work_t_def)
  define disk where "disk = (fw_disk (fst s))(savegame_path := Some img)"
  have io: "fs_io_contract plain_io savegame_path (fw_disk (fst s)) disk img"
    unfolding disk_def by (rule plain_io_contract [OF small(1)])
  have shape: "ecs_shape ?e" and proper: "\<forall>st \<in> set (entity_states ?e). es_proper st"
    using spawned_states [OF s(4)] ok by (auto simp: tables_ok_def)
  have "length img + sizeof_fs_work_t \<le> os_avail (fw_mem (fst s))" using small(2) by simp
  from save_game_ok [OF shape s(6) img(1) small(1) this io] obtain m where
    save: "ecs_save_game plain_io (fw_disk (fst s)) (fw_mem (fst s)) ?e = Inr (disk, m)" by blast
  define s1 where "s1 = ((fst s)\<lparr>fw_disk := disk, fw_window := (fw_window (fst s))\<lparr>mouse_mask := k_mouse_button_right\<rparr>\<rparr>, snd s)"
  have "between_frames s s1" using s(6) by (simp add: between_frames_def s1_def)
  from between_frames_inv(1) [OF s(2) this] have inv: "game_inv demo_env 1 s1" .
  have "saved_file demo_env (fw_disk (fst s1)) (os_avail (fw_mem (fst s1))) ?e"
    unfolding saved_file_def using shape proper img small io
    by (intro conjI exI [of _ "fw_disk (fst s)"] exI [of _ "fw_mem (fst s)"] exI [of _ img]) (simp_all add: s1_def demo_env_def)
  moreover have "slots (ecs_update (fg_ecs (snd s1))) player_mask \<noteq> []" "slots ?e camera_mask \<noteq> []" "slots ?e model_mask \<noteq> []"
    using demo_slots [OF s(4,3)] by (auto simp: s1_def)
  ultimately have "frogger_game_update demo_env 116 s1 = Inl Use_after_free"
    by (intro frogger_load_faults [OF inv]) (simp_all add: s1_def wm_get_mouse_mask_def k_mouse_button_right_def k_mouse_button_left_def)
  with s(1) save show ?thesis unfolding s1_def by blast
qed

text \<open>
  C39.  Creating the game succeeds when the shader files can be read and there is memory for its blocks, and makes a
  well-formed game: six tables of components, one player at the start, twelve blocks, four in each row at their places
  with random widths, and the camera; its fields hold exactly the blocks of the heap that are new.
\<close>

theorem frogger_game_create_well_formed:
  fixes E :: "('a::linordered_field, 'd, 't) frogger_env" and w :: "('d, 't) frogger_world"
  assumes R: "float_contract (en_floats E)" and rand: "rand_contract E"
    and ok: "mem_ok (fw_mem w)" and b: "next_block (fw_mem w) + 1 < 2 ^ 32"
    and vert: "shader_file (en_io E) (fw_disk w) ''shaders/triangle.vert.spv'' vs d1"
    and frag: "shader_file (en_io E) d1 ''shaders/triangle.frag.spv'' fs d2"
    and room: "game_room vs fs \<le> os_avail (fw_mem w)"
  shows "\<exists>s. frogger_game_create E now w = Inr s \<and> game_inv E d s \<and>
    (\<forall>j < k_max_entities. component_masks (fg_ecs (snd s)) ! j = game_mask j) \<and>
    fst (field_of E s) 0 = player_start (en_floats E) \<and>
    (\<forall>j. 1 \<le> j \<and> j \<le> 12 \<longrightarrow>
      (let x = rounded (en_floats E) (random_scale E (fw_rand w + (j - 1)))
       in fst (snd (field_of E s)) j = x \<and> fst (field_of E s) j =
         \<lparr>translation = vec 0 (block_column (j - 1)) (block_row (j - 1)), tscale = vec 1 x 1, rotation = quatf_identity\<rparr>)) \<and>
    (\<forall>p. (block_size (fw_mem (fst s)) p \<noteq> None) = (block_size (fw_mem w) p \<noteq> None \<or> p \<in> set (game_blocks (snd s)))) \<and>
    (\<forall>p \<in> set (game_blocks (snd s)). block_size (fw_mem w) p = None)"
proof -
  obtain s where s: "frogger_game_create E now w = Inr s" "game_inv E d s" "game_entities (fg_ecs (snd s))"
    "fst (field_of E s) 0 = player_start (en_floats E)"
    "\<forall>j. 1 \<le> j \<and> j \<le> 12 \<longrightarrow>
      new_block E (j - 1) (fw_rand w + (j - 1)) (fst (field_of E s) j) (fst (snd (field_of E s)) j)"
    "\<forall>p. (block_size (fw_mem (fst s)) p \<noteq> None) = (block_size (fw_mem w) p \<noteq> None \<or> p \<in> set (game_blocks (snd s)))"
    "\<forall>p \<in> set (game_blocks (snd s)). block_size (fw_mem w) p = None"
    by (rule game_created [OF R rand ok b vert frag room]) (rule that)
  have "\<forall>j. 1 \<le> j \<and> j \<le> 12 \<longrightarrow>
      (let x = rounded (en_floats E) (random_scale E (fw_rand w + (j - 1)))
       in fst (snd (field_of E s)) j = x \<and> fst (field_of E s) j =
         \<lparr>translation = vec 0 (block_column (j - 1)) (block_row (j - 1)), tscale = vec 1 x 1, rotation = quatf_identity\<rparr>)"
    using s(5) unfolding new_block_def Let_def by simp
  with s(1-4,6,7) show ?thesis unfolding game_entities_def by blast
qed

theorem frogger_game_create_well_formed_witness:
  "\<exists>s. frogger_game_create demo_env 100 demo_world = Inr s \<and>
     translation (fst (field_of demo_env s) 1) = vec 0 9 2 \<and> translation (fst (field_of demo_env s) 12) = vec 0 (- 9) (- 2)"
proof -
  from frogger_game_create_well_formed [OF demo_float_contract demo_rand_contract demo_room(1,3) demo_shaders demo_room(2), of 100 1]
  obtain s where s: "frogger_game_create demo_env 100 demo_world = Inr s"
    "\<forall>j. 1 \<le> j \<and> j \<le> 12 \<longrightarrow>
      (let x = rounded (en_floats demo_env) (random_scale demo_env (fw_rand demo_world + (j - 1)))
       in fst (snd (field_of demo_env s)) j = x \<and> fst (field_of demo_env s) j =
         \<lparr>translation = vec 0 (block_column (j - 1)) (block_row (j - 1)), tscale = vec 1 x 1, rotation = quatf_identity\<rparr>)"
    by blast
  have "translation (fst (field_of demo_env s) 1) = vec 0 9 2" "translation (fst (field_of demo_env s) 12) = vec 0 (- 9) (- 2)"
    using spec [OF s(2), of 1] spec [OF s(2), of 12] by (simp_all add: Let_def block_column_def block_row_def)
  with s(1) show ?thesis by blast
qed

text \<open>
  C40.  Destroying the game, after any number of playable frames (no mouse button is held, so nothing has been saved or
  loaded) and whatever the other threads do in between, succeeds and releases every block that the creation made, once,
  and no other; the game's timer is gone.
\<close>

theorem frogger_game_destroy_releases:
  fixes E :: "('a::linordered_field, 'd, 't) frogger_env"
  assumes R: "float_contract (en_floats E)" and rand: "rand_contract E" and d: "d \<le> 2 ^ 20"
    and inv: "game_inv E d s" and steps: "(game_step E d)\<^sup>*\<^sup>* s s'"
  shows "\<exists>w'. frogger_game_destroy s' = Inr w' \<and>
    (\<forall>q. block_size (fw_mem w') q = (if q \<in> set (game_blocks (snd s)) then None else block_size (fw_mem (fst s')) q)) \<and>
    fw_timers w' (fst (fg_timer (snd s))) = None"
proof -
  have k: "game_inv E d s'" "game_blocks (snd s') = game_blocks (snd s)" "fg_timer (snd s') = fg_timer (snd s)"
    using game_steps_keep [OF R rand d inv steps] by blast+
  have "mem_ok (fw_mem (fst s'))" "holds_blocks (fw_mem (fst s')) (snd s')"
    using k(1) by (simp_all add: game_inv_def can_run_def tables_ok_def)
  from game_destroyed [OF this] obtain w' where w': "frogger_game_destroy s' = Inr w'"
    "\<And>q. block_size (fw_mem w') q = (if q \<in> set (game_blocks (snd s')) then None else block_size (fw_mem (fst s')) q)"
    "fw_timers w' = (fw_timers (fst s'))(fst (fg_timer (snd s')) := None)" by auto
  show ?thesis
    unfolding k(2,3) [symmetric] using w' by (intro exI [of _ w']) simp
qed

text \<open>The created game, after a frame.\<close>

theorem frogger_game_destroy_releases_witness:
  "\<exists>s s' w'. frogger_game_create demo_env 100 demo_world = Inr s \<and> frogger_game_update demo_env 116 s = Inr s' \<and>
     frogger_game_destroy s' = Inr w' \<and> block_size (fw_mem w') (fg_self (snd s)) = None"
proof -
  obtain s where s: "frogger_game_create demo_env 100 demo_world = Inr s" "game_inv demo_env 1 s" "game_entities (fg_ecs (snd s))"
    "spawned 14 (fg_ecs (snd s))" "100000 \<le> os_avail (fw_mem (fst s))"
    "fw_timers (fst s) (fst (fg_timer (snd s))) = Some (new_timer whole_fp 100)" "fw_statics (fst s) = fw_statics demo_world"
    "fw_window (fst s) = fw_window demo_world" "fw_render (fst s) = fw_render demo_world"
    by (rule demo_game) (rule that)
  note play = demo_playable [OF s(3-9)]
  obtain s' where s': "frogger_game_update demo_env 116 s = Inr s'"
    by (rule playable_frame [OF demo_float_contract demo_rand_contract _ s(2) play]) simp
  have "(game_step demo_env 1)\<^sup>*\<^sup>* s s'" using step_frame [OF play s'] by blast
  from frogger_game_destroy_releases [OF demo_float_contract demo_rand_contract _ s(2) this] obtain w' where
    w': "frogger_game_destroy s' = Inr w'"
      "\<forall>q. block_size (fw_mem w') q = (if q \<in> set (game_blocks (snd s)) then None else block_size (fw_mem (fst s')) q)" by auto
  have "fg_self (snd s) \<in> set (game_blocks (snd s))" by (simp add: game_blocks_def)
  with spec [OF w'(2), of "fg_self (snd s)"] have "block_size (fw_mem w') (fg_self (snd s)) = None" by simp
  with s(1) s' w'(1) show ?thesis by blast
qed

end
