(* ===== verification/Fs_Shutdown.thy ===== *)
theory Fs_Shutdown
  imports Fs_Threads
begin

text \<open>
  The life of the file system as a user of memory and of system handles: the blocks and handles
  that \<^verbatim>\<open>fs_create\<close> and \<^verbatim>\<open>queue_create\<close> take, and \<^verbatim>\<open>fs_destroy\<close> as the sequence of its calls,
  interleaved with the two threads, with \<^verbatim>\<open>queue_destroy\<close> and the closing of the handles in full.  A thread that uses a queue reads the structures of the file system and of
  the queue, so that a queue which is already released is a fault.  An idle file system shuts down
  cleanly in every interleaving; one whose compression thread still holds a write does not.
\<close>

section \<open>The queue's memory and handles\<close>

definition sizeof_queue_t :: nat where "sizeof_queue_t = 48"
definition sizeof_fs_t :: nat where "sizeof_fs_t = 40"

record queue_objects =
  qo_self :: ptr
  qo_items :: "ptr option"
  qo_used :: "nat option"
  qo_free :: "nat option"

definition semaphore_handle :: "win_handles \<Rightarrow> int \<Rightarrow> int \<Rightarrow> win_handles \<times> nat option" where
  "semaphore_handle os initial_count max_count =
     (case semaphore_create initial_count max_count of None \<Rightarrow> (os, None) | Some _ \<Rightarrow> open_handle os)"

definition queue_create_objects :: "mem \<Rightarrow> win_handles \<Rightarrow> i32 \<Rightarrow> (mem \<times> win_handles \<times> queue_objects) outcome" where
  "queue_create_objects m os cap =
     (let (m1, p) = heap_alloc m sizeof_queue_t 8;
          (m2, slots) = heap_alloc m1 (unat (8 * scast cap :: u64)) 8;
          (os1, used) = semaphore_handle os 0 (sint cap);
          (os2, free) = semaphore_handle os1 (sint cap) (sint cap)
      in case p of None \<Rightarrow> Inl Null_deref
         | Some self \<Rightarrow> Inr (m2, os2, \<lparr>qo_self = self, qo_items = slots, qo_used = used, qo_free = free\<rparr>))"

definition queue_destroy :: "mem \<Rightarrow> win_handles \<Rightarrow> queue_objects \<Rightarrow> (mem \<times> win_handles) outcome" where
  "queue_destroy m os qo =
     bind_ok (mem_read m (Some (qo_self qo)) sizeof_queue_t) (\<lambda>_.
       let os' = semaphore_destroy (semaphore_destroy os (qo_used qo)) (qo_free qo)
       in bind_ok (heap_free m (qo_items qo)) (\<lambda>m1.
          bind_ok (heap_free m1 (Some (qo_self qo))) (\<lambda>m2. Inr (m2, os'))))"

section \<open>The file system with its memory and handles\<close>

text \<open>Where \<^verbatim>\<open>fs_destroy\<close> is: before the call named.\<close>

datatype closing = C_push_file | C_push_compression | C_join_file | C_free_file
  | C_join_compression | C_free_compression | C_free_fs | C_closed

record 'd fs_session =
  se_fs :: "'d fs_t"
  se_self :: ptr
  se_file_queue :: queue_objects
  se_compression_queue :: queue_objects
  se_file_thread :: "nat option"
  se_compression_thread :: "nat option"
  se_handles :: win_handles
  se_pc :: closing

definition fs_create_session ::
  "mem \<Rightarrow> win_handles \<Rightarrow> 'd \<Rightarrow> nat option list \<Rightarrow> nat option list \<Rightarrow> i32 \<Rightarrow> 'd fs_session outcome" where
  "fs_create_session m os d fresh1 fresh2 queue_capacity =
     (let (m1, p) = heap_alloc m sizeof_fs_t 8
      in case p of None \<Rightarrow> Inl Null_deref
         | Some self \<Rightarrow>
             bind_ok (queue_create_objects m1 os queue_capacity) (\<lambda>(m2, os2, fq).
               let (os3, ft) = open_handle os2
               in bind_ok (queue_create_objects m2 os3 queue_capacity) (\<lambda>(m3, os4, cq).
                    let (os5, ct) = open_handle os4
                    in bind_ok (fs_create m3 d fresh1 fresh2 queue_capacity) (\<lambda>s.
                         Inr \<lparr>se_fs = s, se_self = self, se_file_queue = fq, se_compression_queue = cq,
                              se_file_thread = ft, se_compression_thread = ct, se_handles = os5,
                              se_pc = C_push_file\<rparr>))))"

text \<open>A use of a queue through the file system's structure.\<close>

definition fs_queue_access :: "'d fs_session \<Rightarrow> queue_objects \<Rightarrow> unit outcome" where
  "fs_queue_access z qo =
     bind_ok (mem_read (fs_mem (se_fs z)) (Some (se_self z)) sizeof_fs_t) (\<lambda>_.
     bind_ok (mem_read (fs_mem (se_fs z)) (Some (qo_self qo)) sizeof_queue_t) (\<lambda>_. Inr ()))"

definition file_worker :: "'d fs_io \<Rightarrow> 'd fs_session \<Rightarrow> 'd fs_session option outcome" where
  "file_worker io z =
     bind_ok (case file_thread (se_fs z) of
         W_wait \<Rightarrow> fs_queue_access z (se_file_queue z)
       | W_push i \<Rightarrow> fs_queue_access z (se_compression_queue z)
       | _ \<Rightarrow> Inr ()) (\<lambda>_.
     bind_ok (file_thread_func io (se_fs z)) (\<lambda>r. Inr (map_option (\<lambda>s. z\<lparr>se_fs := s\<rparr>) r)))"

definition compression_worker :: "lz4_lib \<Rightarrow> 'd fs_session \<Rightarrow> 'd fs_session option outcome" where
  "compression_worker L z =
     bind_ok (case compression_thread (se_fs z) of
         W_wait \<Rightarrow> fs_queue_access z (se_compression_queue z)
       | W_push i \<Rightarrow> fs_queue_access z (se_file_queue z)
       | _ \<Rightarrow> Inr ()) (\<lambda>_.
     bind_ok (compression_thread_func L (se_fs z)) (\<lambda>r. Inr (map_option (\<lambda>s. z\<lparr>se_fs := s\<rparr>) r)))"

text \<open>Both thread functions return 0.\<close>

definition exit_code :: "worker \<Rightarrow> i32 option" where
  "exit_code w = (if w = W_stopped then Some 0 else None)"

definition fs_join :: "'d fs_session \<Rightarrow> nat option \<Rightarrow> worker \<Rightarrow> closing \<Rightarrow> 'd fs_session option outcome" where
  "fs_join z thread w pc =
     bind_ok (mem_read (fs_mem (se_fs z)) (Some (se_self z)) sizeof_fs_t) (\<lambda>_.
       Inr (map_option (\<lambda>(os, code). z\<lparr>se_handles := os, se_pc := pc\<rparr>)
              (thread_join (se_handles z) thread (exit_code w))))"

definition fs_free_queue :: "'d fs_session \<Rightarrow> queue_objects \<Rightarrow> closing \<Rightarrow> 'd fs_session option outcome" where
  "fs_free_queue z qo pc =
     bind_ok (mem_read (fs_mem (se_fs z)) (Some (se_self z)) sizeof_fs_t) (\<lambda>_.
     bind_ok (queue_destroy (fs_mem (se_fs z)) (se_handles z) qo) (\<lambda>(m, os).
       Inr (Some (z\<lparr>se_fs := (se_fs z)\<lparr>fs_mem := m\<rparr>, se_handles := os, se_pc := pc\<rparr>))))"

definition fs_destroy_step :: "'d fs_session \<Rightarrow> 'd fs_session option outcome" where
  "fs_destroy_step z =
     (case se_pc z of
        C_push_file \<Rightarrow>
          bind_ok (fs_queue_access z (se_file_queue z)) (\<lambda>_.
          bind_ok (fs_stop_file (se_fs z)) (\<lambda>r.
            Inr (map_option (\<lambda>s. z\<lparr>se_fs := s, se_pc := C_push_compression\<rparr>) r)))
      | C_push_compression \<Rightarrow>
          bind_ok (fs_queue_access z (se_compression_queue z)) (\<lambda>_.
          bind_ok (fs_stop_compression (se_fs z)) (\<lambda>r.
            Inr (map_option (\<lambda>s. z\<lparr>se_fs := s, se_pc := C_join_file\<rparr>) r)))
      | C_join_file \<Rightarrow> fs_join z (se_file_thread z) (file_thread (se_fs z)) C_free_file
      | C_free_file \<Rightarrow> fs_free_queue z (se_file_queue z) C_join_compression
      | C_join_compression \<Rightarrow>
          fs_join z (se_compression_thread z) (compression_thread (se_fs z)) C_free_compression
      | C_free_compression \<Rightarrow> fs_free_queue z (se_compression_queue z) C_free_fs
      | C_free_fs \<Rightarrow>
          bind_ok (heap_free (fs_mem (se_fs z)) (Some (se_self z))) (\<lambda>m.
            Inr (Some (z\<lparr>se_fs := (se_fs z)\<lparr>fs_mem := m\<rparr>, se_pc := C_closed\<rparr>)))
      | C_closed \<Rightarrow> Inr None)"

inductive closing_step :: "'d fs_io \<Rightarrow> lz4_lib \<Rightarrow> 'd fs_session \<Rightarrow> 'd fs_session \<Rightarrow> bool"
  for io L where
  closing_destroy: "fs_destroy_step z = Inr (Some z') \<Longrightarrow> closing_step io L z z'"
| closing_file: "file_worker io z = Inr (Some z') \<Longrightarrow> closing_step io L z z'"
| closing_compression: "compression_worker L z = Inr (Some z') \<Longrightarrow> closing_step io L z z'"

inductive_cases closing_step_elims: "closing_step io L z z'"

lemmas closing_step_cases = closing_step_elims [consumes 1, case_names destroying filing compressing]

definition closing_fault :: "'d fs_io \<Rightarrow> lz4_lib \<Rightarrow> 'd fs_session \<Rightarrow> bool" where
  "closing_fault io L z \<longleftrightarrow>
     (\<exists>f. fs_destroy_step z = Inl f \<or> file_worker io z = Inl f \<or> compression_worker L z = Inl f)"

section \<open>What a shutdown has released\<close>

fun stage :: "closing \<Rightarrow> nat" where
  "stage C_push_file = 0" | "stage C_push_compression = 1" | "stage C_join_file = 2"
| "stage C_free_file = 3" | "stage C_join_compression = 4" | "stage C_free_compression = 5"
| "stage C_free_fs = 6" | "stage C_closed = 7"

definition queue_ptrs :: "queue_objects \<Rightarrow> ptr list" where
  "queue_ptrs qo = [qo_self qo, the (qo_items qo)]"

definition session_ptrs :: "'d fs_session \<Rightarrow> ptr list" where
  "session_ptrs z = se_self z # queue_ptrs (se_file_queue z) @ queue_ptrs (se_compression_queue z)"

definition freed_ptrs :: "'d fs_session \<Rightarrow> closing \<Rightarrow> ptr list" where
  "freed_ptrs z pc = (if 3 < stage pc then queue_ptrs (se_file_queue z) else []) @
     (if 5 < stage pc then queue_ptrs (se_compression_queue z) else []) @ (if 6 < stage pc then [se_self z] else [])"

definition session_handles :: "'d fs_session \<Rightarrow> nat set" where
  "session_handles z = set_option (se_file_thread z) \<union> set_option (qo_used (se_file_queue z)) \<union>
     set_option (qo_free (se_file_queue z)) \<union> set_option (se_compression_thread z) \<union>
     set_option (qo_used (se_compression_queue z)) \<union> set_option (qo_free (se_compression_queue z))"

definition queue_handles :: "queue_objects \<Rightarrow> nat set" where
  "queue_handles qo = set_option (qo_used qo) \<union> set_option (qo_free qo)"

definition closed_handles :: "'d fs_session \<Rightarrow> closing \<Rightarrow> nat set" where
  "closed_handles z pc = (if 2 < stage pc then set_option (se_file_thread z) else {}) \<union>
     (if 3 < stage pc then queue_handles (se_file_queue z) else {}) \<union>
     (if 4 < stage pc then set_option (se_compression_thread z) else {}) \<union>
     (if 5 < stage pc then queue_handles (se_compression_queue z) else {})"

definition queue_live :: "mem \<Rightarrow> queue_objects \<Rightarrow> bool" where
  "queue_live m qo \<longleftrightarrow> qo_items qo \<noteq> None \<and> block_size m (qo_self qo) = Some sizeof_queue_t \<and>
     block_size m (the (qo_items qo)) \<noteq> None \<and> qo_self qo \<noteq> the (qo_items qo)"

definition session_ok :: "'d fs_session \<Rightarrow> bool" where
  "session_ok z \<longleftrightarrow> mem_ok (fs_mem (se_fs z)) \<and> distinct (session_ptrs z) \<and>
     block_size (fs_mem (se_fs z)) (se_self z) = Some sizeof_fs_t \<and>
     queue_live (fs_mem (se_fs z)) (se_file_queue z) \<and> queue_live (fs_mem (se_fs z)) (se_compression_queue z)"

section \<open>Single calls\<close>

lemma read_live:
  assumes "block_size m p = Some n" shows "\<exists>bs. mem_read m (Some p) n = Inr bs"
  using assms by (cases p) (auto simp: block_size_def mem_read_def split: if_splits)

lemma read_dead:
  assumes "block_size m p = None" and "snd p = 0" shows "mem_read m (Some p) n = Inl Use_after_free"
  using assms by (cases p) (simp add: block_size_def mem_read_def)

lemma block_size_start: "block_size m p = Some n \<Longrightarrow> snd p = 0"
  by (simp add: block_size_def split: if_splits)

lemma free_live_block:
  assumes "mem_ok m" and "block_size m p \<noteq> None"
  shows "\<exists>m'. heap_free m (Some p) = Inr m' \<and> mem_ok m' \<and>
    (\<forall>q. block_size m' q = (if q = p then None else block_size m q))"
proof -
  obtain m' where m': "heap_free m (Some p) = Inr m'" using heap_mem.free_live [OF assms] by blast
  then show ?thesis
    using mem_ok_free [OF assms(1) m'] heap_mem.free_gone [OF assms(1) m'] heap_mem.free_other [OF assms(1) m']
    by simp
qed

lemma queue_destroy_live:
  assumes ok: "mem_ok m" and live: "queue_live m qo"
  shows "\<exists>m' os'. queue_destroy m os qo = Inr (m', os') \<and> h_open os' = h_open os - queue_handles qo \<and>
    mem_ok m' \<and> (\<forall>q. block_size m' q = (if q \<in> set (queue_ptrs qo) then None else block_size m q))"
proof -
  from live obtain x where x: "qo_items qo = Some x" "block_size m x \<noteq> None" "qo_self qo \<noteq> x"
    and self: "block_size m (qo_self qo) = Some sizeof_queue_t"
    unfolding queue_live_def by auto
  obtain bs where bs: "mem_read m (Some (qo_self qo)) sizeof_queue_t = Inr bs"
    using read_live [OF self] by blast
  obtain m1 where m1: "heap_free m (Some x) = Inr m1" "mem_ok m1"
    "\<forall>q. block_size m1 q = (if q = x then None else block_size m q)"
    using free_live_block [OF ok x(2)] by blast
  have "block_size m1 (qo_self qo) \<noteq> None" using spec [OF m1(3), of "qo_self qo"] x(3) self by simp
  then obtain m2 where m2: "heap_free m1 (Some (qo_self qo)) = Inr m2" "mem_ok m2"
    "\<forall>q. block_size m2 q = (if q = qo_self qo then None else block_size m1 q)"
    using free_live_block [OF m1(2)] by blast
  show ?thesis
    using bs m1 m2 x(1)
    by (simp add: queue_destroy_def semaphore_destroy_def queue_handles_def queue_ptrs_def Diff_insert
        Un_commute set_diff_eq) auto
qed

lemma fs_queue_access_live:
  assumes "block_size (fs_mem (se_fs z)) (se_self z) = Some sizeof_fs_t"
    and "block_size (fs_mem (se_fs z)) (qo_self qo) = Some sizeof_queue_t"
  shows "fs_queue_access z qo = Inr ()"
  using read_live [OF assms(1)] read_live [OF assms(2)] by (auto simp: fs_queue_access_def)

text \<open>Pushing the stop item onto an empty queue, and popping it.\<close>

lemma push_stop:
  assumes "queue_inv q" and "queue_list q = []" and "q_tail q < index_limit"
  obtains q' where "queue_push q None = Inr (Some q')" "queue_inv q'" "queue_list q' = [None]"
    "q_cap q' = q_cap q" "q_tail q' \<le> index_limit"
proof -
  have "q_tail q - q_head q < q_cap q"
    using length_queue_list [of q] assms(2) queue_invD(6) [OF assms(1)] by simp
  from queue_push_room [OF assms(1,3) this, of None] assms show thesis by (auto intro: that)
qed

lemma pop_stop:
  assumes "queue_inv q" and "queue_list q = [None]" and "q_tail q \<le> index_limit"
  obtains q' where "queue_pop q = Inr (Some (q', None))" "queue_inv q'" "queue_list q' = []"
    "q_cap q' = q_cap q" "q_tail q' \<le> index_limit"
  using queue_pop_item [OF assms(1,3,2)] assms(3) by (auto intro: that)

section \<open>The invariant of an idle shutdown\<close>

text \<open>One thread with its queue: nothing happens before the stop item is pushed; then the item is in
  the queue or the thread has stopped; a joined thread has stopped.\<close>

definition side_closing :: "nat \<Rightarrow> bool \<Rightarrow> bool \<Rightarrow> nat option queue_t \<Rightarrow> worker \<Rightarrow> bool" where
  "side_closing cap pushed joined q w \<longleftrightarrow> queue_inv q \<and> q_cap q = cap \<and> (joined \<longrightarrow> w = W_stopped) \<and>
     (if pushed then q_tail q \<le> index_limit \<and>
        (w = W_wait \<or> w = W_stopped) \<and> queue_list q = (if w = W_wait then [None] else [])
      else q_tail q < index_limit \<and> w = W_wait \<and> queue_list q = [])"

definition same_session :: "'d fs_session \<Rightarrow> 'd fs_session \<Rightarrow> bool" where
  "same_session z0 z \<longleftrightarrow> se_self z = se_self z0 \<and> se_file_queue z = se_file_queue z0 \<and>
     se_compression_queue z = se_compression_queue z0 \<and> se_file_thread z = se_file_thread z0 \<and>
     se_compression_thread z = se_compression_thread z0 \<and> fs_works (se_fs z) = fs_works (se_fs z0)"

definition closing_inv :: "nat \<Rightarrow> 'd fs_session \<Rightarrow> 'd fs_session \<Rightarrow> bool" where
  "closing_inv cap z0 z \<longleftrightarrow> same_session z0 z \<and> mem_ok (fs_mem (se_fs z)) \<and>
     (\<forall>q. block_size (fs_mem (se_fs z)) q =
        (if q \<in> set (freed_ptrs z0 (se_pc z)) then None else block_size (fs_mem (se_fs z0)) q)) \<and>
     h_open (se_handles z) = h_open (se_handles z0) - closed_handles z0 (se_pc z) \<and>
     side_closing cap (0 < stage (se_pc z)) (2 < stage (se_pc z)) (file_queue (se_fs z)) (file_thread (se_fs z)) \<and>
     side_closing cap (1 < stage (se_pc z)) (4 < stage (se_pc z)) (compression_queue (se_fs z))
       (compression_thread (se_fs z))"

definition closing_left :: "'d fs_session \<Rightarrow> nat" where
  "closing_left z = (7 - stage (se_pc z)) + (if file_thread (se_fs z) = W_wait then 1 else 0) +
     (if compression_thread (se_fs z) = W_wait then 1 else 0)"

definition closing_moved :: "nat \<Rightarrow> 'd fs_session \<Rightarrow> 'd fs_session \<Rightarrow> 'd fs_session \<Rightarrow> bool" where
  "closing_moved cap z0 z z' \<longleftrightarrow> closing_inv cap z0 z' \<and> closing_left z' < closing_left z"

text \<open>What is still live at each stage.\<close>

lemma session_ptrs_differ:
  assumes "session_ok z0"
  shows "se_self z0 \<notin> set (queue_ptrs (se_file_queue z0))" "se_self z0 \<notin> set (queue_ptrs (se_compression_queue z0))"
    "qo_self (se_compression_queue z0) \<notin> set (queue_ptrs (se_file_queue z0))"
    "the (qo_items (se_compression_queue z0)) \<notin> set (queue_ptrs (se_file_queue z0))"
  using assms unfolding session_ok_def session_ptrs_def queue_ptrs_def by auto

lemma closing_live:
  assumes ok: "session_ok z0" and inv: "closing_inv cap z0 z"
  shows "stage (se_pc z) \<le> 6 \<Longrightarrow> block_size (fs_mem (se_fs z)) (se_self z) = Some sizeof_fs_t"
    and "stage (se_pc z) \<le> 3 \<Longrightarrow> queue_live (fs_mem (se_fs z)) (se_file_queue z)"
    and "stage (se_pc z) \<le> 5 \<Longrightarrow> queue_live (fs_mem (se_fs z)) (se_compression_queue z)"
proof -
  have B: "block_size (fs_mem (se_fs z)) q =
      (if q \<in> set (freed_ptrs z0 (se_pc z)) then None else block_size (fs_mem (se_fs z0)) q)" for q
    using inv unfolding closing_inv_def by blast
  have S: "same_session z0 z" using inv unfolding closing_inv_def by blast
  note D = session_ptrs_differ [OF ok]
  have ok': "block_size (fs_mem (se_fs z0)) (se_self z0) = Some sizeof_fs_t"
    "queue_live (fs_mem (se_fs z0)) (se_file_queue z0)" "queue_live (fs_mem (se_fs z0)) (se_compression_queue z0)"
    using ok unfolding session_ok_def by blast+
  show "stage (se_pc z) \<le> 6 \<Longrightarrow> block_size (fs_mem (se_fs z)) (se_self z) = Some sizeof_fs_t"
    using D ok'(1) S by (simp add: B freed_ptrs_def same_session_def)
  show "stage (se_pc z) \<le> 3 \<Longrightarrow> queue_live (fs_mem (se_fs z)) (se_file_queue z)"
    using ok'(2) S by (simp add: queue_live_def B freed_ptrs_def same_session_def)
  show "stage (se_pc z) \<le> 5 \<Longrightarrow> queue_live (fs_mem (se_fs z)) (se_compression_queue z)"
    using D ok'(3) S by (simp add: queue_live_def B freed_ptrs_def same_session_def)
qed

lemma closing_access:
  assumes ok: "session_ok z0" and inv: "closing_inv cap z0 z"
  shows "stage (se_pc z) \<le> 3 \<Longrightarrow> fs_queue_access z (se_file_queue z) = Inr ()"
    and "stage (se_pc z) \<le> 5 \<Longrightarrow> fs_queue_access z (se_compression_queue z) = Inr ()"
    and "stage (se_pc z) \<le> 6 \<Longrightarrow> \<exists>bs. mem_read (fs_mem (se_fs z)) (Some (se_self z)) sizeof_fs_t = Inr bs"
  using closing_live [OF ok inv] by (auto intro!: fs_queue_access_live read_live simp: queue_live_def)

section \<open>The threads' steps\<close>

lemma file_worker_closing:
  assumes ok: "session_ok z0" and inv: "closing_inv cap z0 z"
  obtains (waits) "file_worker io z = Inr None"
      "file_thread (se_fs z) = W_stopped \<or> se_pc z = C_push_file"
    | (moved) z' where "file_worker io z = Inr (Some z')" "closing_moved cap z0 z z'"
proof -
  have side: "side_closing cap (0 < stage (se_pc z)) (2 < stage (se_pc z)) (file_queue (se_fs z)) (file_thread (se_fs z))"
    using inv unfolding closing_inv_def by blast
  consider (stopped) "file_thread (se_fs z) = W_stopped"
    | (early) "file_thread (se_fs z) = W_wait" "stage (se_pc z) = 0" "queue_list (file_queue (se_fs z)) = []"
      "queue_inv (file_queue (se_fs z))"
    | (stop) "file_thread (se_fs z) = W_wait" "0 < stage (se_pc z)" "stage (se_pc z) \<le> 2"
      "queue_list (file_queue (se_fs z)) = [None]" "queue_inv (file_queue (se_fs z))"
      "q_tail (file_queue (se_fs z)) \<le> index_limit"
    using side unfolding side_closing_def by (cases "0 < stage (se_pc z)") (auto simp: not_less)
  then show thesis
  proof cases
    case stopped
    then show thesis by (intro waits) (simp_all add: file_worker_def file_thread_func_def)
  next
    case early
    then have "se_pc z = C_push_file" by (cases "se_pc z") simp_all
    with early closing_access(1) [OF ok inv] queue_pop_empty [OF early(4,3)] show thesis
      by (intro waits) (simp_all add: file_worker_def file_thread_func_def)
  next
    case stop
    obtain q' where q': "queue_pop (file_queue (se_fs z)) = Inr (Some (q', None))" "queue_inv q'"
      "queue_list q' = []" "q_cap q' = q_cap (file_queue (se_fs z))" "q_tail q' \<le> index_limit"
      by (rule pop_stop [OF stop(5,4,6)])
    let ?z = "z\<lparr>se_fs := (se_fs z)\<lparr>file_queue := q', file_thread := W_stopped\<rparr>\<rparr>"
    have "file_worker io z = Inr (Some ?z)"
      using closing_access(1) [OF ok inv] stop q'(1) by (simp add: file_worker_def file_thread_func_def)
    moreover have "closing_moved cap z0 z ?z"
      using inv stop side q'(2-) unfolding closing_moved_def closing_inv_def
      by (simp add: same_session_def side_closing_def closing_left_def)
    ultimately show thesis by (rule moved)
  qed
qed

lemma compression_worker_closing:
  assumes ok: "session_ok z0" and inv: "closing_inv cap z0 z"
  obtains (waits) "compression_worker L z = Inr None"
      "compression_thread (se_fs z) = W_stopped \<or> stage (se_pc z) < 2"
    | (moved) z' where "compression_worker L z = Inr (Some z')" "closing_moved cap z0 z z'"
proof -
  have side: "side_closing cap (1 < stage (se_pc z)) (4 < stage (se_pc z)) (compression_queue (se_fs z))
      (compression_thread (se_fs z))"
    using inv unfolding closing_inv_def by blast
  consider (stopped) "compression_thread (se_fs z) = W_stopped"
    | (early) "compression_thread (se_fs z) = W_wait" "stage (se_pc z) < 2"
      "queue_list (compression_queue (se_fs z)) = []" "queue_inv (compression_queue (se_fs z))"
    | (stop) "compression_thread (se_fs z) = W_wait" "1 < stage (se_pc z)" "stage (se_pc z) \<le> 4"
      "queue_list (compression_queue (se_fs z)) = [None]" "queue_inv (compression_queue (se_fs z))"
      "q_tail (compression_queue (se_fs z)) \<le> index_limit"
    using side unfolding side_closing_def by (cases "1 < stage (se_pc z)") (auto simp: not_less)
  then show thesis
  proof cases
    case stopped
    then show thesis by (intro waits) (simp_all add: compression_worker_def compression_thread_func_def)
  next
    case early
    with closing_access(2) [OF ok inv] queue_pop_empty [OF early(4,3)] show thesis
      by (intro waits) (simp_all add: compression_worker_def compression_thread_func_def)
  next
    case stop
    obtain q' where q': "queue_pop (compression_queue (se_fs z)) = Inr (Some (q', None))" "queue_inv q'"
      "queue_list q' = []" "q_cap q' = q_cap (compression_queue (se_fs z))" "q_tail q' \<le> index_limit"
      by (rule pop_stop [OF stop(5,4,6)])
    let ?z = "z\<lparr>se_fs := (se_fs z)\<lparr>compression_queue := q', compression_thread := W_stopped\<rparr>\<rparr>"
    have "compression_worker L z = Inr (Some ?z)"
      using closing_access(2) [OF ok inv] stop q'(1) by (simp add: compression_worker_def compression_thread_func_def)
    moreover have "closing_moved cap z0 z ?z"
      using inv stop side q'(2-) unfolding closing_moved_def closing_inv_def
      by (simp add: same_session_def side_closing_def closing_left_def)
    ultimately show thesis by (rule moved)
  qed
qed

section \<open>The steps of fs_destroy\<close>

lemma closing_invD:
  assumes "closing_inv cap z0 z"
  shows "same_session z0 z" "mem_ok (fs_mem (se_fs z))"
    "block_size (fs_mem (se_fs z)) q =
       (if q \<in> set (freed_ptrs z0 (se_pc z)) then None else block_size (fs_mem (se_fs z0)) q)"
    "h_open (se_handles z) = h_open (se_handles z0) - closed_handles z0 (se_pc z)"
    "side_closing cap (0 < stage (se_pc z)) (2 < stage (se_pc z)) (file_queue (se_fs z)) (file_thread (se_fs z))"
    "side_closing cap (1 < stage (se_pc z)) (4 < stage (se_pc z)) (compression_queue (se_fs z))
       (compression_thread (se_fs z))"
  using assms unfolding closing_inv_def by blast+

lemma destroy_push_file:
  assumes ok: "session_ok z0" and inv: "closing_inv cap z0 z" and pc: "se_pc z = C_push_file"
  obtains z' where "fs_destroy_step z = Inr (Some z')" "closing_moved cap z0 z z'"
proof -
  note I = closing_invD [OF inv]
  from I(5) pc have side: "queue_inv (file_queue (se_fs z))" "queue_list (file_queue (se_fs z)) = []"
    "q_tail (file_queue (se_fs z)) < index_limit" "file_thread (se_fs z) = W_wait"
    by (simp_all add: side_closing_def)
  obtain q' where q': "queue_push (file_queue (se_fs z)) None = Inr (Some q')" "queue_inv q'"
    "queue_list q' = [None]" "q_cap q' = q_cap (file_queue (se_fs z))" "q_tail q' \<le> index_limit"
    by (rule push_stop [OF side(1-3)])
  let ?z = "z\<lparr>se_fs := (se_fs z)\<lparr>file_queue := q'\<rparr>, se_pc := C_push_compression\<rparr>"
  have "fs_destroy_step z = Inr (Some ?z)"
    using closing_access(1) [OF ok inv] pc q'(1) by (simp add: fs_destroy_step_def fs_stop_file_def)
  moreover have "closing_moved cap z0 z ?z"
    using inv pc q'(2-) side(4) unfolding closing_moved_def closing_inv_def
    by (simp add: same_session_def side_closing_def closing_left_def freed_ptrs_def closed_handles_def)
  ultimately show thesis by (rule that)
qed

lemma destroy_push_compression:
  assumes ok: "session_ok z0" and inv: "closing_inv cap z0 z" and pc: "se_pc z = C_push_compression"
  obtains z' where "fs_destroy_step z = Inr (Some z')" "closing_moved cap z0 z z'"
proof -
  note I = closing_invD [OF inv]
  from I(6) pc have side: "queue_inv (compression_queue (se_fs z))" "queue_list (compression_queue (se_fs z)) = []"
    "q_tail (compression_queue (se_fs z)) < index_limit" "compression_thread (se_fs z) = W_wait"
    by (simp_all add: side_closing_def)
  obtain q' where q': "queue_push (compression_queue (se_fs z)) None = Inr (Some q')" "queue_inv q'"
    "queue_list q' = [None]" "q_cap q' = q_cap (compression_queue (se_fs z))" "q_tail q' \<le> index_limit"
    by (rule push_stop [OF side(1-3)])
  let ?z = "z\<lparr>se_fs := (se_fs z)\<lparr>compression_queue := q'\<rparr>, se_pc := C_join_file\<rparr>"
  have "fs_destroy_step z = Inr (Some ?z)"
    using closing_access(2) [OF ok inv] pc q'(1) by (simp add: fs_destroy_step_def fs_stop_compression_def)
  moreover have "closing_moved cap z0 z ?z"
    using inv pc q'(2-) side(4) unfolding closing_moved_def closing_inv_def
    by (simp add: same_session_def side_closing_def closing_left_def freed_ptrs_def closed_handles_def)
  ultimately show thesis by (rule that)
qed

text \<open>A join waits for its thread and then closes the handle.\<close>

lemma fs_join_runs:
  assumes "mem_read (fs_mem (se_fs z)) (Some (se_self z)) sizeof_fs_t = Inr bs"
  shows "fs_join z thread w pc = Inr (if w = W_stopped
    then Some (z\<lparr>se_handles := close_handle (se_handles z) thread, se_pc := pc\<rparr>) else None)"
  using assms by (simp add: fs_join_def thread_join_def thread_destroy_def exit_code_def)

lemma destroy_join_file:
  assumes ok: "session_ok z0" and inv: "closing_inv cap z0 z" and pc: "se_pc z = C_join_file"
  obtains (waits) "fs_destroy_step z = Inr None" "file_thread (se_fs z) = W_wait"
    | (moved) z' where "fs_destroy_step z = Inr (Some z')" "closing_moved cap z0 z z'"
proof -
  note I = closing_invD [OF inv]
  obtain bs where bs: "mem_read (fs_mem (se_fs z)) (Some (se_self z)) sizeof_fs_t = Inr bs"
    using closing_access(3) [OF ok inv] pc by auto
  let ?z = "z\<lparr>se_handles := close_handle (se_handles z) (se_file_thread z), se_pc := C_free_file\<rparr>"
  have step: "fs_destroy_step z = Inr (if file_thread (se_fs z) = W_stopped then Some ?z else None)"
    using pc by (simp add: fs_destroy_step_def fs_join_runs [OF bs])
  have same: "se_file_thread z = se_file_thread z0" using I(1) by (simp add: same_session_def)
  show thesis
  proof (cases "file_thread (se_fs z) = W_stopped")
    case True
    have "closing_moved cap z0 z ?z"
      using inv pc True unfolding closing_moved_def closing_inv_def
      by (simp add: same_session_def side_closing_def closing_left_def freed_ptrs_def closed_handles_def)
    with step True show thesis by (intro moved [of ?z]) simp_all
  next
    case False
    with I(5) pc have "file_thread (se_fs z) = W_wait" by (auto simp: side_closing_def)
    with step False show thesis by (intro waits) simp_all
  qed
qed

lemma destroy_join_compression:
  assumes ok: "session_ok z0" and inv: "closing_inv cap z0 z" and pc: "se_pc z = C_join_compression"
  obtains (waits) "fs_destroy_step z = Inr None" "compression_thread (se_fs z) = W_wait"
    | (moved) z' where "fs_destroy_step z = Inr (Some z')" "closing_moved cap z0 z z'"
proof -
  note I = closing_invD [OF inv]
  obtain bs where bs: "mem_read (fs_mem (se_fs z)) (Some (se_self z)) sizeof_fs_t = Inr bs"
    using closing_access(3) [OF ok inv] pc by auto
  let ?z = "z\<lparr>se_handles := close_handle (se_handles z) (se_compression_thread z), se_pc := C_free_compression\<rparr>"
  have step: "fs_destroy_step z = Inr (if compression_thread (se_fs z) = W_stopped then Some ?z else None)"
    using pc by (simp add: fs_destroy_step_def fs_join_runs [OF bs])
  show thesis
  proof (cases "compression_thread (se_fs z) = W_stopped")
    case True
    have "closing_moved cap z0 z ?z"
      using inv pc True unfolding closing_moved_def closing_inv_def
      by (simp add: same_session_def side_closing_def closing_left_def freed_ptrs_def closed_handles_def Diff_eq Int_assoc)
    with step True show thesis by (intro moved [of ?z]) simp_all
  next
    case False
    with I(6) pc have "compression_thread (se_fs z) = W_wait" by (auto simp: side_closing_def)
    with step False show thesis by (intro waits) simp_all
  qed
qed

lemma fs_free_queue_runs:
  assumes ok: "session_ok z0" and inv: "closing_inv cap z0 z" and pc: "stage (se_pc z) \<le> 6"
    and live: "queue_live (fs_mem (se_fs z)) qo"
  obtains m os where "fs_free_queue z qo pc' = Inr (Some (z\<lparr>se_fs := (se_fs z)\<lparr>fs_mem := m\<rparr>, se_handles := os, se_pc := pc'\<rparr>))"
    "h_open os = h_open (se_handles z) - queue_handles qo" "mem_ok m"
    "\<And>q. block_size m q = (if q \<in> set (queue_ptrs qo) then None else block_size (fs_mem (se_fs z)) q)"
proof -
  obtain bs where bs: "mem_read (fs_mem (se_fs z)) (Some (se_self z)) sizeof_fs_t = Inr bs"
    using closing_access(3) [OF ok inv pc] by blast
  obtain m os where m: "queue_destroy (fs_mem (se_fs z)) (se_handles z) qo = Inr (m, os)"
    "h_open os = h_open (se_handles z) - queue_handles qo" "mem_ok m"
    "\<forall>q. block_size m q = (if q \<in> set (queue_ptrs qo) then None else block_size (fs_mem (se_fs z)) q)"
    using queue_destroy_live [OF closing_invD(2) [OF inv] live, of "se_handles z"] by blast
  show thesis
    by (rule that [where m = m and os = os, OF _ m(2,3) spec [OF m(4)]])
      (use bs m(1) in \<open>simp add: fs_free_queue_def\<close>)
qed

lemma destroy_free_file:
  assumes ok: "session_ok z0" and inv: "closing_inv cap z0 z" and pc: "se_pc z = C_free_file"
  obtains z' where "fs_destroy_step z = Inr (Some z')" "closing_moved cap z0 z z'"
proof -
  have live: "queue_live (fs_mem (se_fs z)) (se_file_queue z)" using closing_live(2) [OF ok inv] pc by simp
  obtain m os where m: "fs_free_queue z (se_file_queue z) C_join_compression =
      Inr (Some (z\<lparr>se_fs := (se_fs z)\<lparr>fs_mem := m\<rparr>, se_handles := os, se_pc := C_join_compression\<rparr>))"
    "h_open os = h_open (se_handles z) - queue_handles (se_file_queue z)" "mem_ok m"
    "\<And>q. block_size m q = (if q \<in> set (queue_ptrs (se_file_queue z)) then None else block_size (fs_mem (se_fs z)) q)"
    by (rule fs_free_queue_runs [OF ok inv _ live, of C_join_compression]) (use pc in simp_all)
  have same: "se_file_queue z = se_file_queue z0" using closing_invD(1) [OF inv] by (simp add: same_session_def)
  show thesis
  proof (rule that)
    show "fs_destroy_step z = Inr (Some (z\<lparr>se_fs := (se_fs z)\<lparr>fs_mem := m\<rparr>, se_handles := os, se_pc := C_join_compression\<rparr>))"
      using pc m(1) by (simp add: fs_destroy_step_def)
    show "closing_moved cap z0 z (z\<lparr>se_fs := (se_fs z)\<lparr>fs_mem := m\<rparr>, se_handles := os, se_pc := C_join_compression\<rparr>)"
      using inv pc m(2-) unfolding closing_moved_def closing_inv_def
      by (simp add: same same_session_def side_closing_def closing_left_def freed_ptrs_def closed_handles_def
          Diff_eq Int_assoc)
  qed
qed

lemma destroy_free_compression:
  assumes ok: "session_ok z0" and inv: "closing_inv cap z0 z" and pc: "se_pc z = C_free_compression"
  obtains z' where "fs_destroy_step z = Inr (Some z')" "closing_moved cap z0 z z'"
proof -
  have live: "queue_live (fs_mem (se_fs z)) (se_compression_queue z)" using closing_live(3) [OF ok inv] pc by simp
  obtain m os where m: "fs_free_queue z (se_compression_queue z) C_free_fs =
      Inr (Some (z\<lparr>se_fs := (se_fs z)\<lparr>fs_mem := m\<rparr>, se_handles := os, se_pc := C_free_fs\<rparr>))"
    "h_open os = h_open (se_handles z) - queue_handles (se_compression_queue z)" "mem_ok m"
    "\<And>q. block_size m q = (if q \<in> set (queue_ptrs (se_compression_queue z)) then None else block_size (fs_mem (se_fs z)) q)"
    by (rule fs_free_queue_runs [OF ok inv _ live, of C_free_fs]) (use pc in simp_all)
  have same: "se_compression_queue z = se_compression_queue z0"
    using closing_invD(1) [OF inv] by (simp add: same_session_def)
  show thesis
  proof (rule that)
    show "fs_destroy_step z = Inr (Some (z\<lparr>se_fs := (se_fs z)\<lparr>fs_mem := m\<rparr>, se_handles := os, se_pc := C_free_fs\<rparr>))"
      using pc m(1) by (simp add: fs_destroy_step_def)
    show "closing_moved cap z0 z (z\<lparr>se_fs := (se_fs z)\<lparr>fs_mem := m\<rparr>, se_handles := os, se_pc := C_free_fs\<rparr>)"
      using inv pc m(2-) unfolding closing_moved_def closing_inv_def
      by (simp add: same same_session_def side_closing_def closing_left_def freed_ptrs_def closed_handles_def
          Diff_eq Int_assoc)
  qed
qed

lemma destroy_free_fs:
  assumes ok: "session_ok z0" and inv: "closing_inv cap z0 z" and pc: "se_pc z = C_free_fs"
  obtains z' where "fs_destroy_step z = Inr (Some z')" "closing_moved cap z0 z z'"
proof -
  have "block_size (fs_mem (se_fs z)) (se_self z) \<noteq> None" using closing_live(1) [OF ok inv] pc by simp
  then obtain m where m: "heap_free (fs_mem (se_fs z)) (Some (se_self z)) = Inr m" "mem_ok m"
    "\<forall>q. block_size m q = (if q = se_self z then None else block_size (fs_mem (se_fs z)) q)"
    using free_live_block [OF closing_invD(2) [OF inv]] by blast
  have same: "se_self z = se_self z0" using closing_invD(1) [OF inv] by (simp add: same_session_def)
  show thesis
  proof (rule that)
    show "fs_destroy_step z = Inr (Some (z\<lparr>se_fs := (se_fs z)\<lparr>fs_mem := m\<rparr>, se_pc := C_closed\<rparr>))"
      using pc m(1) by (simp add: fs_destroy_step_def)
    show "closing_moved cap z0 z (z\<lparr>se_fs := (se_fs z)\<lparr>fs_mem := m\<rparr>, se_pc := C_closed\<rparr>)"
      using inv pc m(2-) unfolding closing_moved_def closing_inv_def
      by (simp add: same same_session_def side_closing_def closing_left_def freed_ptrs_def closed_handles_def)
  qed
qed

text \<open>Every step together.\<close>

lemma fs_destroy_step_closing:
  assumes ok: "session_ok z0" and inv: "closing_inv cap z0 z"
  obtains (waits) "fs_destroy_step z = Inr None"
      "se_pc z = C_closed \<or> se_pc z = C_join_file \<and> file_thread (se_fs z) = W_wait \<or>
       se_pc z = C_join_compression \<and> compression_thread (se_fs z) = W_wait"
    | (moved) z' where "fs_destroy_step z = Inr (Some z')" "closing_moved cap z0 z z'"
proof (cases "se_pc z")
  case C_push_file
  then show thesis using destroy_push_file [OF ok inv] moved by blast
next
  case C_push_compression
  then show thesis using destroy_push_compression [OF ok inv] moved by blast
next
  case C_join_file
  then show thesis by (cases rule: destroy_join_file [OF ok inv]) (auto intro: waits moved)
next
  case C_free_file
  then show thesis using destroy_free_file [OF ok inv] moved by blast
next
  case C_join_compression
  then show thesis by (cases rule: destroy_join_compression [OF ok inv]) (auto intro: waits moved)
next
  case C_free_compression
  then show thesis using destroy_free_compression [OF ok inv] moved by blast
next
  case C_free_fs
  then show thesis using destroy_free_fs [OF ok inv] moved by blast
next
  case C_closed
  then show thesis by (intro waits) (simp_all add: fs_destroy_step_def)
qed

section \<open>The whole shutdown\<close>

lemma closing_step_moved:
  assumes "session_ok z0" and "closing_inv cap z0 z" and "closing_step io L z z'"
  shows "closing_moved cap z0 z z'"
  using assms(3)
proof (cases rule: closing_step_cases)
  case destroying
  with fs_destroy_step_closing [OF assms(1,2)] show ?thesis by force
next
  case filing
  with file_worker_closing [OF assms(1,2), of io] show ?thesis by force
next
  case compressing
  with compression_worker_closing [OF assms(1,2), of L] show ?thesis by force
qed

lemma closing_no_fault:
  assumes "session_ok z0" and "closing_inv cap z0 z"
  shows "\<not> closing_fault io L z"
proof -
  have "fs_destroy_step z \<noteq> Inl f" for f by (cases rule: fs_destroy_step_closing [OF assms]) auto
  moreover have "file_worker io z \<noteq> Inl f" for f by (cases rule: file_worker_closing [OF assms, of io]) auto
  moreover have "compression_worker L z \<noteq> Inl f" for f
    by (cases rule: compression_worker_closing [OF assms, of L]) auto
  ultimately show ?thesis unfolding closing_fault_def by blast
qed

lemma closing_run:
  assumes "(closing_step io L ^^ n) z t" and "session_ok z0" and "closing_inv cap z0 z"
  shows "closing_inv cap z0 t \<and> n + closing_left t \<le> closing_left z"
  using assms(1)
proof (induction n arbitrary: t)
  case 0
  then show ?case using assms by simp
next
  case (Suc n)
  then obtain u where u: "(closing_step io L ^^ n) z u" "closing_step io L u t" by auto
  with Suc.IH [OF u(1)] closing_step_moved [OF assms(2) _ u(2)] show ?case
    by (fastforce simp: closing_moved_def)
qed

text \<open>A shutdown that cannot go on is complete.\<close>

lemma closing_stuck_closed:
  assumes ok: "session_ok z0" and inv: "closing_inv cap z0 z" and stuck: "\<And>z'. \<not> closing_step io L z z'"
  shows "se_pc z = C_closed"
proof -
  have d: "fs_destroy_step z = Inr None"
    "se_pc z = C_closed \<or> se_pc z = C_join_file \<and> file_thread (se_fs z) = W_wait \<or>
     se_pc z = C_join_compression \<and> compression_thread (se_fs z) = W_wait"
    using fs_destroy_step_closing [OF ok inv] stuck closing_destroy by metis+
  have "file_thread (se_fs z) = W_stopped \<or> se_pc z = C_push_file"
    using file_worker_closing [OF ok inv, of io] stuck closing_file by metis
  moreover have "compression_thread (se_fs z) = W_stopped \<or> stage (se_pc z) < 2"
    using compression_worker_closing [OF ok inv, of L] stuck closing_compression by metis
  ultimately show ?thesis using d(2) by auto
qed

text \<open>An idle file system: nothing is unfinished.\<close>

lemma idle_sides:
  assumes "fs_inv cap s" and "unfinished (fs_works s) = {}"
  shows "file_thread s = W_wait" "compression_thread s = W_wait" "queue_list (file_queue s) = []"
    "queue_list (compression_queue s) = []" "queue_inv (file_queue s)" "queue_inv (compression_queue s)"
    "q_cap (file_queue s) = cap" "q_cap (compression_queue s) = cap"
proof -
  have "in_file_part s = []" "in_compression_part s = []" "file_thread s \<noteq> W_stopped" "compression_thread s \<noteq> W_stopped"
    using assms unfolding fs_inv_def by auto
  then show "file_thread s = W_wait" "compression_thread s = W_wait" "queue_list (file_queue s) = []"
    "queue_list (compression_queue s) = []"
    unfolding fs_parts by (cases "file_thread s"; cases "compression_thread s"; simp)+
  show "queue_inv (file_queue s)" "queue_inv (compression_queue s)"
    "q_cap (file_queue s) = cap" "q_cap (compression_queue s) = cap"
    using assms(1) unfolding fs_inv_def by blast+
qed

lemma idle_closing_inv:
  assumes "session_ok z" and "se_pc z = C_push_file" and "fs_inv cap (se_fs z)"
    and "unfinished (fs_works (se_fs z)) = {}" and "2 * fs_next (se_fs z) < index_limit"
  shows "closing_inv cap z z"
proof -
  have "q_tail (file_queue (se_fs z)) < index_limit" "q_tail (compression_queue (se_fs z)) < index_limit"
    using assms(3,5) by (auto simp: fs_inv_def)
  with idle_sides [OF assms(3,4)] assms(1,2) show ?thesis
    by (simp add: closing_inv_def same_session_def side_closing_def freed_ptrs_def closed_handles_def session_ok_def)
qed

lemma closed_everything:
  assumes "closing_inv cap z0 z" and "se_pc z = C_closed"
  shows "fs_stopped (se_fs z)" "set (freed_ptrs z0 (se_pc z)) = set (session_ptrs z0)"
    "closed_handles z0 (se_pc z) = session_handles z0"
  using assms unfolding closing_inv_def
  by (auto simp: fs_stopped_def side_closing_def freed_ptrs_def session_ptrs_def closed_handles_def
      session_handles_def queue_handles_def)

end
