(* ===== verification/Fs_Life.thy ===== *)
theory Fs_Life
  imports Fs_Shutdown Fs_Props
begin

text \<open>
  The file system from its creation to its destruction: the creation makes the blocks and handles that
  \<open>Fs_Shutdown\<close> works on, requests leave them alone, and then \<^verbatim>\<open>fs_destroy\<close> runs.  The two
  properties are the clean shutdown of an idle file system and the released queue that a compressed
  write meets otherwise.
\<close>

section \<open>Creation\<close>

lemma slot_bytes:
  assumes "0 < sint (c :: i32)" shows "unat (8 * scast c :: u64) = 8 * nat (sint c)"
proof -
  have "sint c < 2 ^ 31" using sint_lt [of c] by simp
  then have m: "8 * sint c mod 2 ^ 64 = 8 * sint c"
    using assms by (intro mod_pos_pos_trivial) simp_all
  have "(8 * scast c :: u64) = word_of_int (8 * sint c)"
    by (simp only: scast_eq of_int_mult of_int_numeral)
  then have "uint (8 * scast c :: u64) = take_bit 64 (8 * sint c)"
    by (simp only: uint_word_of_int_eq len_bit0 len_num1) simp
  then have "uint (8 * scast c :: u64) = 8 * sint c" using m by (simp only: take_bit_eq_mod)
  then have "unat (8 * scast c :: u64) = nat (8 * sint c)" by (simp only: unat_eq_nat_uint)
  then show ?thesis using assms by (simp only: nat_mult_distrib) simp
qed

definition handles_ok :: "win_handles \<Rightarrow> bool" where
  "handles_ok os \<longleftrightarrow> (\<forall>h \<in> h_open os. h < h_next os)"

text \<open>An allocation that succeeds: a new block, everything else as it was.\<close>

lemma alloc_new_block:
  assumes ok: "mem_ok m" and n: "0 < n" and room: "n \<le> os_avail m"
  obtains m' where "heap_alloc m n a = (m', Some (next_block m, 0))" "mem_ok m'"
    "os_avail m' = os_avail m - n" "next_block m' = Suc (next_block m)"
    "\<And>q. block_size m' q = (if q = (next_block m, 0) then Some n else block_size m q)"
    "block_size m (next_block m, 0) = None"
proof -
  define m' where "m' = m\<lparr>blocks := (blocks m)(next_block m := Some (replicate n (junk m))),
    next_block := Suc (next_block m), os_avail := os_avail m - n\<rparr>"
  have a: "heap_alloc m n a = (m', Some (next_block m, 0))" using n room by (simp add: heap_alloc_def m'_def)
  have none: "block_size m (next_block m, off) = None" for off using ok by (auto simp: block_size_def mem_ok_def)
  have "block_size m' q = (if q = (next_block m, 0) then Some n else block_size m q)" for q
    using none by (cases q) (auto simp: block_size_def m'_def split: if_splits)
  with a none show thesis
    using mem_ok_alloc [OF ok, of n a] by (intro that [of m']) (simp_all add: m'_def)
qed

lemma semaphore_handle_new:
  assumes "0 \<le> i" and "i \<le> k" and "0 < k"
  shows "semaphore_handle os i k = (os\<lparr>h_open := insert (h_next os) (h_open os), h_next := Suc (h_next os)\<rparr>, Some (h_next os))"
  using assms by (simp add: semaphore_handle_def semaphore_create_def open_handle_def)

lemma queue_create_objects_new:
  assumes ok: "mem_ok m" and c: "0 < sint c" and room: "sizeof_queue_t + 8 * nat (sint c) \<le> os_avail m"
  obtains m' os' where "queue_create_objects m os c = Inr (m', os',
      \<lparr>qo_self = (next_block m, 0), qo_items = Some (Suc (next_block m), 0), qo_used = Some (h_next os), qo_free = Some (Suc (h_next os))\<rparr>)"
    "mem_ok m'" "os_avail m' = os_avail m - (sizeof_queue_t + 8 * nat (sint c))" "next_block m' = next_block m + 2"
    "\<And>q. block_size m' q = (if q = (next_block m, 0) then Some sizeof_queue_t
       else if q = (Suc (next_block m), 0) then Some (8 * nat (sint c)) else block_size m q)"
    "h_open os' = h_open os \<union> {h_next os, Suc (h_next os)}" "h_next os' = h_next os + 2"
proof -
  obtain m1 where m1: "heap_alloc m sizeof_queue_t 8 = (m1, Some (next_block m, 0))" "mem_ok m1"
    "os_avail m1 = os_avail m - sizeof_queue_t" "next_block m1 = Suc (next_block m)"
    "\<And>q. block_size m1 q = (if q = (next_block m, 0) then Some sizeof_queue_t else block_size m q)"
    by (rule alloc_new_block [OF ok, of sizeof_queue_t 8]) (use room in \<open>simp_all add: sizeof_queue_t_def\<close>)
  obtain m2 where m2: "heap_alloc m1 (8 * nat (sint c)) 8 = (m2, Some (next_block m1, 0))" "mem_ok m2"
    "os_avail m2 = os_avail m1 - 8 * nat (sint c)" "next_block m2 = Suc (next_block m1)"
    "\<And>q. block_size m2 q = (if q = (next_block m1, 0) then Some (8 * nat (sint c)) else block_size m1 q)"
    by (rule alloc_new_block [OF m1(2), of "8 * nat (sint c)" 8]) (use c room m1(3) in simp_all)
  define os1 where "os1 = os\<lparr>h_open := insert (h_next os) (h_open os), h_next := Suc (h_next os)\<rparr>"
  define os2 where "os2 = os1\<lparr>h_open := insert (h_next os1) (h_open os1), h_next := Suc (h_next os1)\<rparr>"
  have "queue_create_objects m os c = Inr (m2, os2, \<lparr>qo_self = (next_block m, 0),
      qo_items = Some (Suc (next_block m), 0), qo_used = Some (h_next os), qo_free = Some (Suc (h_next os))\<rparr>)"
    using c m1(1,4) m2(1)
    by (simp add: queue_create_objects_def slot_bytes [OF c] semaphore_handle_new os1_def os2_def)
  then show thesis
    by (rule that) (use m1 m2 in \<open>auto simp: os1_def os2_def\<close>)
qed

lemma fs_create_session_ok:
  assumes create: "fs_create_session m os d f1 f2 c = Inr z" and ok: "mem_ok m" and os: "handles_ok os"
    and c: "0 < sint c" and room: "sizeof_fs_t + 2 * (sizeof_queue_t + 8 * nat (sint c)) \<le> os_avail m"
  shows "session_ok z" "se_pc z = C_push_file" "\<forall>p \<in> set (session_ptrs z). block_size m p = None \<and> fst p < next_block (fs_mem (se_fs z))"
    "h_open (se_handles z) = h_open os \<union> session_handles z" "h_open os \<inter> session_handles z = {}"
    "\<exists>m'. fs_create m' d f1 f2 c = Inr (se_fs z)"
proof -
  let ?n = "next_block m" and ?h = "h_next os"
  obtain m1 where m1: "heap_alloc m sizeof_fs_t 8 = (m1, Some (?n, 0))" "mem_ok m1"
    "os_avail m1 = os_avail m - sizeof_fs_t" "next_block m1 = Suc ?n"
    "\<And>q. block_size m1 q = (if q = (?n, 0) then Some sizeof_fs_t else block_size m q)"
    by (rule alloc_new_block [OF ok, of sizeof_fs_t 8]) (use room in \<open>simp_all add: sizeof_fs_t_def\<close>)
  obtain m2 os2 where q1: "queue_create_objects m1 os c = Inr (m2, os2,
      \<lparr>qo_self = (next_block m1, 0), qo_items = Some (Suc (next_block m1), 0), qo_used = Some ?h, qo_free = Some (Suc ?h)\<rparr>)"
    and m2: "mem_ok m2" "os_avail m2 = os_avail m1 - (sizeof_queue_t + 8 * nat (sint c))" "next_block m2 = next_block m1 + 2"
    "\<And>q. block_size m2 q = (if q = (next_block m1, 0) then Some sizeof_queue_t
       else if q = (Suc (next_block m1), 0) then Some (8 * nat (sint c)) else block_size m1 q)"
    and os2: "h_open os2 = h_open os \<union> {?h, Suc ?h}" "h_next os2 = ?h + 2"
    by (rule queue_create_objects_new [OF m1(2) c, of os]) (use room m1(3) in simp_all)
  define os3 where "os3 = fst (open_handle os2)"
  obtain m3 os4 where q2: "queue_create_objects m2 os3 c = Inr (m3, os4,
      \<lparr>qo_self = (next_block m2, 0), qo_items = Some (Suc (next_block m2), 0), qo_used = Some (h_next os3), qo_free = Some (Suc (h_next os3))\<rparr>)"
    and m3: "mem_ok m3" "next_block m3 = next_block m2 + 2"
    "\<And>q. block_size m3 q = (if q = (next_block m2, 0) then Some sizeof_queue_t
       else if q = (Suc (next_block m2), 0) then Some (8 * nat (sint c)) else block_size m2 q)"
    and os4: "h_open os4 = h_open os3 \<union> {h_next os3, Suc (h_next os3)}" "h_next os4 = h_next os3 + 2"
    by (rule queue_create_objects_new [OF m2(1) c, of os3]) (use room m1(3) m2(2) in simp_all)
  have os3': "h_open os3 = h_open os \<union> {?h, Suc ?h, ?h + 2}" "h_next os3 = ?h + 3"
    using os2 by (auto simp: os3_def open_handle_def)
  have o3: "open_handle os2 = (os3, Some (?h + 2))" using os2(2) by (simp add: os3_def open_handle_def)
  have o5: "open_handle os4 = (fst (open_handle os4), Some (?h + 5))"
    using os4(2) os3'(2) by (simp add: open_handle_def)
  have n: "next_block m1 = Suc ?n" "next_block m2 = ?n + 3" using m1(4) m2(3) by simp_all
  define os5 where "os5 = fst (open_handle os4)"
  from create obtain s where s: "fs_create m3 d f1 f2 c = Inr s"
    and z: "z = \<lparr>se_fs = s, se_self = (?n, 0),
      se_file_queue = \<lparr>qo_self = (Suc ?n, 0), qo_items = Some (?n + 2, 0), qo_used = Some ?h, qo_free = Some (Suc ?h)\<rparr>,
      se_compression_queue = \<lparr>qo_self = (?n + 3, 0), qo_items = Some (?n + 4, 0), qo_used = Some (?h + 3), qo_free = Some (?h + 4)\<rparr>,
      se_file_thread = Some (?h + 2), se_compression_thread = Some (?h + 5),
      se_handles = os5, se_pc = C_push_file\<rparr>"
    by (simp add: fs_create_session_def m1(1) q1 o3 q2 o5 [folded os5_def] os3'(2) n bind_ok_Inr_iff) (auto simp: add.commute [of 4])
  have os5: "h_open os5 = insert (?h + 5) (h_open os4)" using os4(2) os3'(2) by (simp add: os5_def open_handle_def ac_simps)
  have mem: "fs_mem s = m3" using s by (auto simp: fs_create_def bind_ok_Inr_iff)
  have none: "block_size m (k, 0) = None" if "?n \<le> k" for k
    using ok that by (auto simp: block_size_def mem_ok_def not_le [symmetric])
  show "session_ok z"
    using m3(1,3) m2(3,4) m1(4,5) c
    by (simp add: z session_ok_def mem session_ptrs_def queue_ptrs_def queue_live_def)
  show "se_pc z = C_push_file" by (simp add: z)
  show "\<forall>p \<in> set (session_ptrs z). block_size m p = None \<and> fst p < next_block (fs_mem (se_fs z))"
    using none m3(2) m2(3) m1(4) by (simp add: z mem session_ptrs_def queue_ptrs_def)
  show "h_open (se_handles z) = h_open os \<union> session_handles z"
    using os3' os4 os5 by (auto simp: z session_handles_def)
  show "h_open os \<inter> session_handles z = {}" using os by (auto simp: z session_handles_def handles_ok_def)
  show "\<exists>m'. fs_create m' d f1 f2 c = Inr (se_fs z)" using s by (auto simp: z)
qed

section \<open>Requests leave the file system's blocks alone\<close>

text \<open>\<open>spares P m m'\<close>: the blocks of \<open>P\<close> are as they were.  \<open>foreign P p\<close>: releasing \<open>p\<close> releases none of them.\<close>

definition spares :: "ptr set \<Rightarrow> mem \<Rightarrow> mem \<Rightarrow> bool" where
  "spares P m m' \<longleftrightarrow> mem_ok m' \<and> (\<forall>p \<in> P. block_size m' p = block_size m p)"

definition foreign :: "ptr set \<Rightarrow> ptr option \<Rightarrow> bool" where
  "foreign P p \<longleftrightarrow> (\<forall>q. p = Some q \<longrightarrow> fst q \<notin> fst ` P)"

definition all_live :: "ptr set \<Rightarrow> mem \<Rightarrow> bool" where
  "all_live P m \<longleftrightarrow> mem_ok m \<and> (\<forall>p \<in> P. block_size m p \<noteq> None)"

lemma spares_trans: "spares P m m1 \<Longrightarrow> spares P m1 m2 \<Longrightarrow> spares P m m2"
  by (simp add: spares_def)

lemma spares_live: "all_live P m \<Longrightarrow> spares P m m' \<Longrightarrow> all_live P m'"
  by (simp add: spares_def all_live_def)

lemma spares_refl: "all_live P m \<Longrightarrow> spares P m m"
  by (simp add: spares_def all_live_def)

lemma spares_write: "all_live P m \<Longrightarrow> mem_write m p xs = Inr m' \<Longrightarrow> spares P m m'"
  using block_size_write [of m p xs m'] mem_ok_write [of m p xs m'] by (simp add: spares_def all_live_def)

lemma spares_alloc:
  assumes "all_live P m" and "heap_alloc m n a = (m', p)"
  shows "spares P m m' \<and> foreign P p"
proof (cases p)
  case None
  then show ?thesis using assms heap_alloc_None [of m n a m'] by (simp add: spares_refl foreign_def)
next
  case (Some x)
  have ok: "mem_ok m'" using assms mem_ok_alloc [of m n a] by (simp add: all_live_def)
  have x: "x = (next_block m, 0)" using heap_alloc_Some(1) assms(2) Some by blast
  have new: "fst q \<noteq> next_block m" if "q \<in> P" for q
  proof -
    have "block_size m q \<noteq> None" using assms(1) that by (simp add: all_live_def)
    then have "blocks m (fst q) \<noteq> None" by (auto simp: block_size_def split: if_splits)
    then have "fst q < next_block m" using assms(1) unfolding all_live_def mem_ok_def by blast
    then show ?thesis by simp
  qed
  have "block_size m' q = block_size m q" if "q \<in> P" for q
  proof -
    have "q \<noteq> x" using new [OF that] x by (cases q) auto
    then show ?thesis using heap_mem.alloc_other [of m n a m' x q] assms Some by (simp add: all_live_def)
  qed
  moreover have "fst x \<notin> fst ` P"
  proof
    assume "fst x \<in> fst ` P"
    then obtain q where "q \<in> P" "fst q = fst x" by (metis imageE)
    with new [OF this(1)] x show False by simp
  qed
  ultimately show ?thesis using ok Some by (simp add: spares_def foreign_def)
qed

lemma spares_free:
  assumes "all_live P m" and "foreign P p" and "heap_free m p = Inr m'"
  shows "spares P m m'"
proof (cases p)
  case None
  then show ?thesis using assms by (simp add: heap_free_def spares_refl)
next
  case (Some x)
  have "q \<noteq> x" if "q \<in> P" for q using assms(2) that Some by (auto simp: foreign_def)
  then show ?thesis
    using assms Some heap_mem.free_other [of m x m'] mem_ok_free [of m p m']
    by (auto simp: spares_def all_live_def)
qed

text \<open>The four operations on a work item.\<close>

lemma file_read_spares:
  assumes live: "all_live P m" and w: "foreign P (w_buffer w)" and run: "file_read io d m w = Inr (d', m', w', onward)"
  shows "spares P m m' \<and> foreign P (w_buffer w')"
proof (cases "0 < io_wide io (w_path w)")
  case False
  with live w run show ?thesis by (auto simp: file_read_def work_failed_def spares_refl)
next
  case wide: True
  show ?thesis
  proof (cases "io_open_read io d (w_path w)")
    case (Inl e)
    with wide live w run show ?thesis by (auto simp: file_read_def work_failed_def spares_refl)
  next
    case op: (Inr d1)
    show ?thesis
    proof (cases "io_size io d1 (w_path w)")
      case (Inl e)
      with wide op live w run show ?thesis by (auto simp: file_read_def work_failed_def spares_refl)
    next
      case sz: (Inr n)
      obtain m1 p where a: "heap_alloc m (unat (if w_null_terminate w then n + 1 else n)) 8 = (m1, p)" by fastforce
      from spares_alloc [OF live a] have s1: "spares P m m1" and p: "foreign P p" by simp_all
      have l1: "all_live P m1" by (rule spares_live [OF live s1])
      show ?thesis
      proof (cases "io_read io d1 (w_path w) (ucast n)")
        case (Inl e)
        with wide op sz a s1 p run show ?thesis
          by (auto simp: file_read_def work_failed_def Let_def simp del: if_split)
      next
        case (Inr bs)
        with wide op sz a run obtain m2 where m2: "mem_write m1 p bs = Inr m2"
          and m3: "(if w_null_terminate w then mem_write m2 (ptr_add p (length bs)) [0] else Inr m2) = Inr m'"
          and w': "w_buffer w' = p"
          by (auto simp: file_read_def Let_def bind_ok_Inr_iff work_done_def split: if_split_asm simp del: if_split)
        have s2: "spares P m1 m2" by (rule spares_write [OF l1 m2])
        have "spares P m2 m'"
          using m3 spares_write [OF spares_live [OF l1 s2]] spares_refl [OF spares_live [OF l1 s2]]
          by (auto split: if_split_asm)
        with spares_trans [OF s1 s2] w' p show ?thesis by (auto intro: spares_trans)
      qed
    qed
  qed
qed

lemma file_compress_spares:
  assumes live: "all_live P m" and run: "file_compress L m w = Inr (m', w')"
  shows "spares P m m' \<and> foreign P (w_buffer w')"
proof -
  obtain m1 p where a: "heap_alloc m (nat (sint (LZ4_compressBound (ucast (w_size w)) + 22))) 8 = (m1, p)" by fastforce
  from run a obtain m2 out hdr where m2: "mem_write m1 (ptr_add p 22) out = Inr m2"
    and m3: "mem_write m2 p hdr = Inr m'" and w': "w_buffer w' = p"
    by (auto simp: file_compress_def Let_def bind_ok_Inr_iff)
  from spares_alloc [OF live a] have s1: "spares P m m1" and p: "foreign P p" by simp_all
  have l1: "all_live P m1" by (rule spares_live [OF live s1])
  have s2: "spares P m1 m2" by (rule spares_write [OF l1 m2])
  have "spares P m2 m'" by (rule spares_write [OF spares_live [OF l1 s2] m3])
  with spares_trans [OF s1 s2] w' p show ?thesis by (auto intro: spares_trans)
qed

lemma file_decompress_spares:
  assumes live: "all_live P m" and w: "foreign P (w_buffer w)" and run: "file_decompress L m w = Inr (m', w')"
  shows "spares P m m' \<and> foreign P (w_buffer w')"
proof -
  from run obtain hdr where hdr: "mem_read m (w_buffer w) 21 = Inr hdr"
    by (auto simp: file_decompress_def bind_ok_Inr_iff)
  obtain c e where s: "read_sizes 10 hdr = (c, e)" by fastforce
  obtain m1 p where a: "heap_alloc m (unat (scast (if w_null_terminate w then e + 1 else e) :: u64)) 8 = (m1, p)"
    by fastforce
  from run obtain xs m2 m3 where m2: "mem_write m1 p xs = Inr m2"
    and m3: "(if w_null_terminate w then (if sint e < 0 then Inl Out_of_bounds
        else mem_write m2 (ptr_add p (nat (sint e))) [0]) else Inr m2) = Inr m3"
    and m4: "heap_free m3 (w_buffer w) = Inr m'" and w': "w_buffer w' = p"
    unfolding file_decompress_def hdr bind_ok_simps s Let_def prod.case a bind_ok_Inr_iff work_done_def by auto
  from spares_alloc [OF live a] have s1: "spares P m m1" and p: "foreign P p" by simp_all
  have l1: "all_live P m1" by (rule spares_live [OF live s1])
  have s2: "spares P m1 m2" by (rule spares_write [OF l1 m2])
  have l2: "all_live P m2" by (rule spares_live [OF l1 s2])
  have s3: "spares P m2 m3"
    using m3 spares_write [OF l2] spares_refl [OF l2] by (auto split: if_split_asm)
  have "spares P m3 m'" by (rule spares_free [OF spares_live [OF l2 s3] w m4])
  with spares_trans [OF spares_trans [OF s1 s2] s3] w' p show ?thesis by (auto intro: spares_trans)
qed

text \<open>A read's buffer is never one of the blocks; only such a buffer is released.\<close>

definition works_foreign :: "ptr set \<Rightarrow> (nat \<Rightarrow> fs_work_t option) \<Rightarrow> bool" where
  "works_foreign P wk \<longleftrightarrow> (\<forall>i w. wk i = Some w \<longrightarrow> w_op w = k_fs_work_op_read \<longrightarrow> foreign P (w_buffer w))"

lemma works_foreign_upd:
  "works_foreign P wk \<Longrightarrow> (w_op w = k_fs_work_op_read \<longrightarrow> foreign P (w_buffer w)) \<Longrightarrow> works_foreign P (wk(i \<mapsto> w))"
  by (simp add: works_foreign_def)

definition requests_spare :: "ptr set \<Rightarrow> 'd fs_t \<Rightarrow> 'd fs_t \<Rightarrow> bool" where
  "requests_spare P s s' \<longleftrightarrow> spares P (fs_mem s) (fs_mem s') \<and> works_foreign P (fs_works s')"

lemma file_thread_spares:
  assumes live: "all_live P (fs_mem s)" and wk: "works_foreign P (fs_works s)"
    and run: "file_thread_func io s = Inr (Some s')"
  shows "requests_spare P s s'"
proof (cases "file_thread s")
  case (W_has i)
  with run obtain w where w: "fs_works s i = Some w" by (auto simp: file_thread_func_def split: option.split_asm)
  show ?thesis
  proof (cases "w_op w")
    case k_fs_work_op_read
    with run W_has w obtain d m w' onward where f: "file_read io (fs_disk s) (fs_mem s) w = Inr (d, m, w', onward)"
      and s': "s' = (set_work s i w')\<lparr>fs_disk := d, fs_mem := m, file_thread := (if onward then W_push i else W_wait)\<rparr>"
      by (auto simp: file_thread_func_def bind_ok_Inr_iff)
    have "foreign P (w_buffer w)" using wk w k_fs_work_op_read unfolding works_foreign_def by blast
    from file_read_spares [OF live this f] show ?thesis
      using works_foreign_upd [OF wk] by (simp add: requests_spare_def s' set_work_def)
  next
    case k_fs_work_op_write
    with run W_has w obtain d w' where f: "file_write io (fs_disk s) (fs_mem s) w = Inr (d, w')"
      and s': "s' = (set_work s i w')\<lparr>fs_disk := d, file_thread := W_wait\<rparr>"
      by (auto simp: file_thread_func_def bind_ok_Inr_iff)
    with file_write_item(1) [OF f] k_fs_work_op_write show ?thesis
      using works_foreign_upd [OF wk] spares_refl [OF live] by (simp add: requests_spare_def s' set_work_def)
  qed
qed (use run wk spares_refl [OF live] in \<open>auto simp: file_thread_func_def bind_ok_Inr_iff requests_spare_def\<close>)

lemma compression_thread_spares:
  assumes live: "all_live P (fs_mem s)" and wk: "works_foreign P (fs_works s)"
    and run: "compression_thread_func L s = Inr (Some s')"
  shows "requests_spare P s s'"
proof (cases "compression_thread s")
  case (W_has i)
  with run obtain w where w: "fs_works s i = Some w" by (auto simp: compression_thread_func_def split: option.split_asm)
  show ?thesis
  proof (cases "w_op w")
    case k_fs_work_op_read
    with run W_has w obtain m w' where f: "file_decompress L (fs_mem s) w = Inr (m, w')"
      and s': "s' = (set_work s i w')\<lparr>fs_mem := m, compression_thread := W_wait\<rparr>"
      by (auto simp: compression_thread_func_def bind_ok_Inr_iff)
    have "foreign P (w_buffer w)" using wk w k_fs_work_op_read unfolding works_foreign_def by blast
    from file_decompress_spares [OF live this f] show ?thesis
      using works_foreign_upd [OF wk] by (simp add: requests_spare_def s' set_work_def)
  next
    case k_fs_work_op_write
    with run W_has w obtain m w' where f: "file_compress L (fs_mem s) w = Inr (m, w')"
      and s': "s' = (set_work s i w')\<lparr>fs_mem := m, compression_thread := W_push i\<rparr>"
      by (auto simp: compression_thread_func_def bind_ok_Inr_iff)
    from file_compress_spares [OF live f] show ?thesis
      using works_foreign_upd [OF wk] by (simp add: requests_spare_def s' set_work_def)
  qed
qed (use run wk spares_refl [OF live] in \<open>auto simp: compression_thread_func_def bind_ok_Inr_iff requests_spare_def\<close>)

lemma fs_submit_spares:
  assumes live: "all_live P (fs_mem s)" and wk: "works_foreign P (fs_works s)"
    and new: "fs_work_new (fs_mem s) op path buf sz nt c = Inr (m, w)" and buf: "op = k_fs_work_op_read \<longrightarrow> buf = None"
    and sub: "fs_submit s compress m w = Inr (Some s')"
  shows "requests_spare P s s'"
proof -
  obtain p where a: "heap_alloc (fs_mem s) sizeof_fs_work_t 8 = (m, p)" and w: "w_op w = op" "w_buffer w = buf"
    using new by (auto simp: fs_work_new_def Let_def split: prod.split_asm if_split_asm)
  have "fs_mem s' = m" "fs_works s' = (fs_works s)(fs_next s \<mapsto> w)"
    using sub by (auto simp: fs_submit_def Let_def bind_ok_Inr_iff split: if_split_asm)
  then show ?thesis
    using spares_alloc [OF live a] works_foreign_upd [OF wk] w buf
    by (auto simp: requests_spare_def foreign_def)
qed

lemma fs_step_spares:
  assumes live: "all_live P (fs_mem s)" and wk: "works_foreign P (fs_works s)" and step: "fs_step io L s s'"
  shows "requests_spare P s s'"
  using step
proof (cases rule: fs_step_cases)
  case work
  then show ?thesis
    by (cases rule: worker_step_cases)
      (auto intro: file_thread_spares [OF live wk] compression_thread_spares [OF live wk])
next
  case (reading path nt c)
  then show ?thesis
    by (auto simp: fs_read_def fs_read_work_def bind_ok_Inr_iff intro: fs_submit_spares [OF live wk])
next
  case (writing path buf sz c)
  then show ?thesis
    by (auto simp: fs_write_def fs_write_work_def bind_ok_Inr_iff intro: fs_submit_spares [OF live wk])
qed

lemma fs_steps_spare:
  assumes "(fs_step io L)\<^sup>*\<^sup>* s s'" and "all_live P (fs_mem s)" and "works_foreign P (fs_works s)"
  shows "requests_spare P s s'"
  using assms
proof (induction rule: rtranclp_induct)
  case base
  then show ?case by (simp add: requests_spare_def spares_refl)
next
  case (step t u)
  then have "requests_spare P s t" by blast
  then have t: "spares P (fs_mem s) (fs_mem t)" "works_foreign P (fs_works t)" by (simp_all add: requests_spare_def)
  have "requests_spare P t u" by (rule fs_step_spares [OF spares_live [OF step.prems(1) t(1)] t(2) step.hyps(2)])
  with t(1) show ?case by (auto simp: requests_spare_def intro: spares_trans)
qed

text \<open>A session in use is in order, as at its creation.\<close>

lemma session_in_use:
  assumes ok: "session_ok z" and wk: "fs_works (se_fs z) = (\<lambda>_. None)" and steps: "(fs_step io L)\<^sup>*\<^sup>* (se_fs z) s"
  shows "session_ok (z\<lparr>se_fs := s\<rparr>)"
proof -
  let ?P = "set (session_ptrs z)"
  have "all_live ?P (fs_mem (se_fs z))"
    using ok by (auto simp: all_live_def session_ok_def session_ptrs_def queue_ptrs_def queue_live_def)
  moreover have "works_foreign ?P (fs_works (se_fs z))" using wk by (simp add: works_foreign_def)
  ultimately have "requests_spare ?P (se_fs z) s" by (rule fs_steps_spare [OF steps])
  then have "mem_ok (fs_mem s)" "\<forall>p \<in> ?P. block_size (fs_mem s) p = block_size (fs_mem (se_fs z)) p"
    by (simp_all add: requests_spare_def spares_def)
  with ok show ?thesis by (simp add: session_ok_def session_ptrs_def queue_ptrs_def queue_live_def)
qed

lemma session_reached:
  assumes create: "fs_create_session m os d f1 f2 c = Inr z" and m: "mem_ok m" and os: "handles_ok os"
    and c: "0 < sint c" and fresh: "nat (sint c) \<le> length f1" "nat (sint c) \<le> length f2"
    and room: "sizeof_fs_t + 2 * (sizeof_queue_t + 8 * nat (sint c)) \<le> os_avail m"
    and use: "(fs_step io L)\<^sup>*\<^sup>* (se_fs z) s" and lim: "2 * fs_next s < index_limit"
  shows "session_ok (z\<lparr>se_fs := s\<rparr>)" "fs_inv (nat (sint c)) s"
proof -
  note Z = fs_create_session_ok [OF create m os c room]
  obtain m' where m': "fs_create m' d f1 f2 c = Inr (se_fs z)" using Z(6) by blast
  have F: "fs_inv (nat (sint c)) (se_fs z) \<and> fs_works (se_fs z) = (\<lambda>_. None)"
    using fs_create_inv [OF m' c fresh] by blast
  show "session_ok (z\<lparr>se_fs := s\<rparr>)" by (rule session_in_use [OF Z(1) conjunct2 [OF F] use])
  show "fs_inv (nat (sint c)) s" by (rule fs_steps_inv [OF use conjunct1 [OF F]]) (use lim in simp)
qed

text \<open>There is a run to the end.\<close>

lemma closing_completes:
  assumes "session_ok z0" and "closing_inv cap z0 z"
  shows "\<exists>n t. (closing_step io L ^^ n) z t \<and> (\<nexists>t'. closing_step io L t t')"
  using assms(2)
proof (induction "closing_left z" arbitrary: z rule: less_induct)
  case less
  show ?case
  proof (cases "\<exists>z'. closing_step io L z z'")
    case False
    then show ?thesis by (intro exI [of _ 0]) auto
  next
    case True
    then obtain z' where z': "closing_step io L z z'" by blast
    have "closing_inv cap z0 z'" "closing_left z' < closing_left z"
      using closing_step_moved [OF assms(1) less.prems z'] by (simp_all add: closing_moved_def)
    then obtain n t where t: "(closing_step io L ^^ n) z' t" "\<nexists>t'. closing_step io L t t'"
      using less.hyps [of z'] by blast
    have "(closing_step io L ^^ Suc n) z t" using z' t(1) by (rule relpowp_Suc_I2)
    with t(2) show ?thesis by blast
  qed
qed

section \<open>Concrete sessions\<close>

text \<open>One compressed write: completed, and on its way.\<close>

definition no_handles :: win_handles where "no_handles = \<lparr>h_open = {}, h_next = 0\<rparr>"

lemma demo_session_written:
  "\<exists>z s. fs_create_session (mem_init 20000 0) no_handles demo_disk [None] [None] 1 = Inr z \<and>
     fs_run plain_io stored_lz4 [A_write, A_compression, A_compression, A_compression, A_file, A_file] (se_fs z) = Some s \<and>
     unfinished (fs_works s) = {} \<and> fs_next s = 1"
  by (simp add: fs_eval fs_create_session_def queue_create_objects_def no_handles_def sizeof_fs_t_def
      sizeof_queue_t_def semaphore_handle_def open_handle_def unfinished_def file_write_def work_done_def event_signal_def
      length_size_header)

lemma demo_session_pushing:
  "\<exists>z s. fs_create_session (mem_init 20000 0) no_handles demo_disk [None] [None] 1 = Inr z \<and>
     fs_run plain_io stored_lz4 [A_write, A_compression, A_compression] (se_fs z) = Some s \<and>
     compression_thread s = W_push 0 \<and> file_thread s = W_wait \<and> queue_list (file_queue s) = [] \<and>
     queue_list (compression_queue s) = [] \<and> fs_next s = 1"
  by (simp add: fs_eval fs_create_session_def queue_create_objects_def no_handles_def sizeof_fs_t_def
      sizeof_queue_t_def semaphore_handle_def open_handle_def queue_list_def q_head_def q_tail_def)

section \<open>An idle file system\<close>

text \<open>
  C15. Shutting down an idle file system. Create a file system with room for its five blocks, let
  any requests come and complete, and call \<^verbatim>\<open>fs_destroy\<close>. However the calls of \<^verbatim>\<open>fs_destroy\<close> and
  the two threads interleave, nothing faults, there are at most nine actions, and when none is
  left both threads have stopped, exactly the five blocks of the creation are released, what the
  requests have allocated is untouched, and the open handles are those of before the creation.
\<close>

theorem fs_destroy_idle_releases:
  assumes create: "fs_create_session m os d f1 f2 c = Inr z" and m: "mem_ok m" and os: "handles_ok os"
    and c: "0 < sint c" and fresh: "nat (sint c) \<le> length f1" "nat (sint c) \<le> length f2"
    and room: "sizeof_fs_t + 2 * (sizeof_queue_t + 8 * nat (sint c)) \<le> os_avail m"
    and use: "(fs_step io L)\<^sup>*\<^sup>* (se_fs z) s" and idle: "unfinished (fs_works s) = {}"
    and lim: "2 * fs_next s < index_limit"
    and run: "(closing_step io L ^^ n) (z\<lparr>se_fs := s\<rparr>) t"
  shows "n \<le> 9 \<and> \<not> closing_fault io L t \<and> ((\<nexists>t'. closing_step io L t t') \<longrightarrow>
    se_pc t = C_closed \<and> fs_stopped (se_fs t) \<and> h_open (se_handles t) = h_open os \<and>
    (\<forall>p \<in> set (session_ptrs z). block_size m p = None) \<and>
    (\<forall>q. block_size (fs_mem (se_fs t)) q =
      (if q \<in> set (session_ptrs z) then None else block_size (fs_mem s) q)))"
proof -
  note Z = fs_create_session_ok [OF create m os c room]
    and U = session_reached [OF create m os c fresh room use lim]
  define y where "y = z\<lparr>se_fs := s\<rparr>"
  have ok: "session_ok y" unfolding y_def by (rule U(1))
  have inv: "closing_inv (nat (sint c)) y y"
    using U(2) idle lim Z(2) by (intro idle_closing_inv [OF ok]) (simp_all add: y_def)
  note R = closing_run [OF run [folded y_def] ok inv]
  have "closing_left y \<le> 9" using Z(2) by (simp add: closing_left_def y_def)
  then have "n \<le> 9" using R by linarith
  moreover have "\<not> closing_fault io L t" using closing_no_fault [OF ok] R by blast
  moreover have "se_pc t = C_closed \<and> fs_stopped (se_fs t) \<and> h_open (se_handles t) = h_open os \<and>
      (\<forall>p \<in> set (session_ptrs z). block_size m p = None) \<and>
      (\<forall>q. block_size (fs_mem (se_fs t)) q =
        (if q \<in> set (session_ptrs z) then None else block_size (fs_mem s) q))"
    if stuck: "\<nexists>t'. closing_step io L t t'"
  proof -
    have pc: "se_pc t = C_closed" using closing_stuck_closed [OF ok] R stuck by blast
    note E = closed_everything [OF conjunct1 [OF R] pc]
    have same: "session_handles y = session_handles z" "session_ptrs y = session_ptrs z"
      "se_handles y = se_handles z" "se_fs y = s"
      by (simp_all add: y_def session_handles_def session_ptrs_def)
    have "h_open (se_handles t) = h_open os \<union> session_handles z - session_handles z"
      using closing_invD(4) [OF conjunct1 [OF R]] unfolding E(3) same Z(4) .
    then have "h_open (se_handles t) = h_open os" using Z(5) by blast
    moreover have "block_size (fs_mem (se_fs t)) q =
        (if q \<in> set (session_ptrs z) then None else block_size (fs_mem s) q)" for q
      using closing_invD(3) [OF conjunct1 [OF R], of q] unfolding E(2) same .
    ultimately show ?thesis using pc E(1) Z(3) by blast
  qed
  ultimately show ?thesis by blast
qed

theorem fs_destroy_idle_releases_witness:
  "\<exists>z s t n. fs_create_session (mem_init 20000 0) no_handles demo_disk [None] [None] 1 = Inr z \<and>
     (fs_step plain_io stored_lz4)\<^sup>*\<^sup>* (se_fs z) s \<and> fs_next s = 1 \<and>
     (closing_step plain_io stored_lz4 ^^ n) (z\<lparr>se_fs := s\<rparr>) t \<and> n \<le> 9 \<and>
     se_pc t = C_closed \<and> fs_stopped (se_fs t) \<and> h_open (se_handles t) = {}"
proof -
  obtain z s where z: "fs_create_session (mem_init 20000 0) no_handles demo_disk [None] [None] 1 = Inr z"
    and run: "fs_run plain_io stored_lz4 [A_write, A_compression, A_compression, A_compression, A_file, A_file] (se_fs z) = Some s"
    and s: "unfinished (fs_works s) = {}" "fs_next s = 1"
    using demo_session_written by blast
  have room: "0 < sint (1 :: i32)" "nat (sint (1 :: i32)) \<le> length [None :: nat option]"
    "sizeof_fs_t + 2 * (sizeof_queue_t + 8 * nat (sint (1 :: i32))) \<le> os_avail (mem_init 20000 0)"
    "handles_ok no_handles" "2 * fs_next s < index_limit"
    by (simp_all add: sizeof_fs_t_def sizeof_queue_t_def handles_ok_def no_handles_def s index_limit_def)
  note use = fs_run_steps [OF run]
  note U = session_reached [OF z mem_init_ok room(4,1,2,2,3) use room(5)]
  have "closing_inv (nat (sint (1 :: i32))) (z\<lparr>se_fs := s\<rparr>) (z\<lparr>se_fs := s\<rparr>)"
    using U(2) s(1) room(5) fs_create_session_ok(2) [OF z mem_init_ok room(4,1,3)]
    by (intro idle_closing_inv [OF U(1)]) simp_all
  then obtain n t where t: "(closing_step plain_io stored_lz4 ^^ n) (z\<lparr>se_fs := s\<rparr>) t"
    "\<nexists>t'. closing_step plain_io stored_lz4 t t'"
    using closing_completes [OF U(1)] by blast
  have "n \<le> 9 \<and> se_pc t = C_closed \<and> fs_stopped (se_fs t) \<and> h_open (se_handles t) = h_open no_handles"
    using fs_destroy_idle_releases [OF z mem_init_ok room(4,1,2,2,3) use s(1) room(5) t(1)] t(2) by blast
  with z use s(2) t(1) show ?thesis by (auto simp: no_handles_def)
qed

section \<open>A write that is still on its way\<close>

lemma stop_frees_file_queue:
  assumes ok: "session_ok z" and pc: "se_pc z = C_push_file"
    and f: "file_thread (se_fs z) = W_wait" "queue_inv (file_queue (se_fs z))" "queue_list (file_queue (se_fs z)) = []"
      "q_tail (file_queue (se_fs z)) < index_limit"
    and q: "queue_inv (compression_queue (se_fs z))" "q_tail (compression_queue (se_fs z)) < index_limit"
      "length (queue_list (compression_queue (se_fs z))) < q_cap (compression_queue (se_fs z))"
  obtains t where "(closing_step io L)\<^sup>*\<^sup>* z t" "same_session z t"
    "compression_thread (se_fs t) = compression_thread (se_fs z)"
    "\<And>p. block_size (fs_mem (se_fs t)) p =
      (if p \<in> set (queue_ptrs (se_file_queue z)) then None else block_size (fs_mem (se_fs z)) p)"
proof -
  have live: "block_size (fs_mem (se_fs z)) (se_self z) = Some sizeof_fs_t"
    "queue_live (fs_mem (se_fs z)) (se_file_queue z)" "mem_ok (fs_mem (se_fs z))"
    "block_size (fs_mem (se_fs z)) (qo_self (se_file_queue z)) = Some sizeof_queue_t"
    "block_size (fs_mem (se_fs z)) (qo_self (se_compression_queue z)) = Some sizeof_queue_t"
    using ok by (auto simp: session_ok_def queue_live_def)
  note access = fs_queue_access_live [OF live(1)]
  obtain bs where bs: "mem_read (fs_mem (se_fs z)) (Some (se_self z)) sizeof_fs_t = Inr bs"
    using read_live [OF live(1)] by blast
  obtain q1 where q1: "queue_push (file_queue (se_fs z)) None = Inr (Some q1)" "queue_inv q1"
    "queue_list q1 = [None]" "q_tail q1 \<le> index_limit"
    by (rule push_stop [OF f(2-4)])
  obtain q1' where q1': "queue_pop q1 = Inr (Some (q1', None))" by (rule pop_stop [OF q1(2-4)])
  obtain q2 where q2: "queue_push (compression_queue (se_fs z)) None = Inr (Some q2)"
    using queue_push_cases [OF q(1,2), of None] q(3) by (metis less_irrefl)
  define z1 where "z1 = z\<lparr>se_fs := (se_fs z)\<lparr>file_queue := q1\<rparr>, se_pc := C_push_compression\<rparr>"
  define z2 where "z2 = z1\<lparr>se_fs := (se_fs z1)\<lparr>compression_queue := q2\<rparr>, se_pc := C_join_file\<rparr>"
  define z3 where "z3 = z2\<lparr>se_fs := (se_fs z2)\<lparr>file_queue := q1', file_thread := W_stopped\<rparr>\<rparr>"
  define z4 where "z4 = z3\<lparr>se_handles := close_handle (se_handles z3) (se_file_thread z3), se_pc := C_free_file\<rparr>"
  have mem: "fs_mem (se_fs z1) = fs_mem (se_fs z)" "fs_mem (se_fs z2) = fs_mem (se_fs z)"
    "fs_mem (se_fs z3) = fs_mem (se_fs z)" "fs_mem (se_fs z4) = fs_mem (se_fs z)"
    by (simp_all add: z1_def z2_def z3_def z4_def)
  obtain m os where m: "queue_destroy (fs_mem (se_fs z)) (se_handles z4) (se_file_queue z) = Inr (m, os)"
    "\<forall>q. block_size m q = (if q \<in> set (queue_ptrs (se_file_queue z)) then None else block_size (fs_mem (se_fs z)) q)"
    using queue_destroy_live [OF live(3,2), of "se_handles z4"] by blast
  define t where "t = z4\<lparr>se_fs := (se_fs z4)\<lparr>fs_mem := m\<rparr>, se_handles := os, se_pc := C_join_compression\<rparr>"
  have "fs_destroy_step z = Inr (Some z1)"
    using pc access [OF live(4)] q1(1) by (simp add: fs_destroy_step_def fs_stop_file_def z1_def)
  moreover have "fs_destroy_step z1 = Inr (Some z2)"
    using fs_queue_access_live [of z1 "se_compression_queue z1"] live(1,5) q2 mem
    by (simp add: fs_destroy_step_def fs_stop_compression_def z1_def z2_def)
  moreover have "file_worker io z2 = Inr (Some z3)"
    using fs_queue_access_live [of z2 "se_file_queue z2"] live(1,4) q1' mem f(1)
    by (simp add: file_worker_def file_thread_func_def z1_def z2_def z3_def)
  moreover have "fs_destroy_step z3 = Inr (Some z4)"
    using fs_join_runs [of z3 bs] bs mem by (simp add: fs_destroy_step_def z1_def z2_def z3_def z4_def)
  moreover have "fs_destroy_step z4 = Inr (Some t)"
    using m(1) bs mem by (simp add: fs_destroy_step_def fs_free_queue_def t_def z1_def z2_def z3_def z4_def)
  ultimately have "(closing_step io L)\<^sup>*\<^sup>* z t"
    by (meson closing_destroy closing_file rtranclp.rtrancl_into_rtrancl rtranclp.rtrancl_refl)
  then show thesis
    by (rule that) (use spec [OF m(2)] in \<open>simp_all add: t_def same_session_def z1_def z2_def z3_def z4_def\<close>)
qed

text \<open>
  C16. A compressed write meets a released queue. If the compression thread is about to hand a
  compressed write on when \<^verbatim>\<open>fs_destroy\<close> is called, and the file thread is idle, then there is a
  schedule in which the file thread takes its stop item first, \<^verbatim>\<open>fs_destroy\<close> joins it and
  releases the file queue, and the compression thread pushes the write onto that queue: a use after
  free.
\<close>

theorem fs_destroy_use_after_free:
  assumes create: "fs_create_session m os d f1 f2 c = Inr z" and m: "mem_ok m" and os: "handles_ok os"
    and c: "0 < sint c" and fresh: "nat (sint c) \<le> length f1" "nat (sint c) \<le> length f2"
    and room: "sizeof_fs_t + 2 * (sizeof_queue_t + 8 * nat (sint c)) \<le> os_avail m"
    and use: "(fs_step io L)\<^sup>*\<^sup>* (se_fs z) s" and lim: "2 * fs_next s < index_limit"
    and busy: "compression_thread s = W_push i" "file_thread s = W_wait" "queue_list (file_queue s) = []"
      "length (queue_list (compression_queue s)) < nat (sint c)"
  shows "\<exists>t. (closing_step io L)\<^sup>*\<^sup>* (z\<lparr>se_fs := s\<rparr>) t \<and> compression_worker L t = Inl Use_after_free"
proof -
  note Z = fs_create_session_ok [OF create m os c room]
    and U = session_reached [OF create m os c fresh room use lim]
  define y where "y = z\<lparr>se_fs := s\<rparr>"
  have ok: "session_ok y" unfolding y_def by (rule U(1))
  have S: "queue_inv (file_queue s)" "queue_inv (compression_queue s)" "q_cap (compression_queue s) = nat (sint c)"
    "q_tail (file_queue s) < index_limit" "q_tail (compression_queue s) < index_limit"
    using U(2) lim by (auto simp: fs_inv_def)
  obtain t where t: "(closing_step io L)\<^sup>*\<^sup>* y t" "same_session y t"
    "compression_thread (se_fs t) = compression_thread (se_fs y)"
    "\<And>p. block_size (fs_mem (se_fs t)) p =
      (if p \<in> set (queue_ptrs (se_file_queue y)) then None else block_size (fs_mem (se_fs y)) p)"
    by (rule stop_frees_file_queue [OF ok, of io L]) (use Z(2) S busy in \<open>simp_all add: y_def\<close>)
  have self: "block_size (fs_mem (se_fs t)) (se_self t) = Some sizeof_fs_t"
    using t(2,4) session_ptrs_differ(1) [OF ok] ok by (simp add: same_session_def session_ok_def)
  have "block_size (fs_mem (se_fs t)) (qo_self (se_file_queue t)) = None"
    using t(2,4) by (simp add: same_session_def queue_ptrs_def)
  moreover have "snd (qo_self (se_file_queue t)) = 0"
  proof -
    have "block_size (fs_mem (se_fs y)) (qo_self (se_file_queue y)) = Some sizeof_queue_t"
      using ok by (simp add: session_ok_def queue_live_def)
    then have "snd (qo_self (se_file_queue y)) = 0" by (rule block_size_start)
    then show ?thesis using t(2) by (simp add: same_session_def)
  qed
  ultimately have "fs_queue_access t (se_file_queue t) = Inl Use_after_free"
    using read_live [OF self] read_dead by (auto simp: fs_queue_access_def)
  then have "compression_worker L t = Inl Use_after_free"
    using t(3) busy(1) by (simp add: compression_worker_def y_def)
  with t(1) show ?thesis unfolding y_def by blast
qed

theorem fs_destroy_use_after_free_witness:
  "\<exists>z s t. fs_create_session (mem_init 20000 0) no_handles demo_disk [None] [None] 1 = Inr z \<and>
     (fs_step plain_io stored_lz4)\<^sup>*\<^sup>* (se_fs z) s \<and> compression_thread s = W_push 0 \<and>
     (closing_step plain_io stored_lz4)\<^sup>*\<^sup>* (z\<lparr>se_fs := s\<rparr>) t \<and>
     compression_worker stored_lz4 t = Inl Use_after_free"
proof -
  obtain z s where z: "fs_create_session (mem_init 20000 0) no_handles demo_disk [None] [None] 1 = Inr z"
    and run: "fs_run plain_io stored_lz4 [A_write, A_compression, A_compression] (se_fs z) = Some s"
    and s: "compression_thread s = W_push 0" "file_thread s = W_wait" "queue_list (file_queue s) = []"
      "queue_list (compression_queue s) = []" "fs_next s = 1"
    using demo_session_pushing by blast
  have "\<exists>t. (closing_step plain_io stored_lz4)\<^sup>*\<^sup>* (z\<lparr>se_fs := s\<rparr>) t \<and>
      compression_worker stored_lz4 t = Inl Use_after_free"
    by (rule fs_destroy_use_after_free [OF z mem_init_ok _ _ _ _ _ fs_run_steps [OF run] _ s(1-3)])
      (simp_all add: sizeof_fs_t_def sizeof_queue_t_def handles_ok_def no_handles_def s index_limit_def)
  with z fs_run_steps [OF run] s(1) show ?thesis by blast
qed

end
