(* ===== verification/Spec2Isabelle.thy ===== *)
theory Spec2Isabelle
  imports Ecs_Props Queue_Threads Fs_Props Ecs_Save Net_Ring Net_Mirror Counter_Report Heap_Arena Timers Window Render Linear
    Frogger_Game Fs_Life Tlsf_Bits
begin

text \<open>
  A verification development for EvilEngine, a small multi-threaded game engine in C for Windows and
  Vulkan (sources in \<^verbatim>\<open>src/src\<close>).

  \<^bold>\<open>The program.\<close>  A game (\<^verbatim>\<open>frogger_game.c\<close>) keeps its entities in the entity component system
  (\<^verbatim>\<open>ecs.c\<close>), which allocates from the heap (\<^verbatim>\<open>heap.c\<close> over the vendored \<^verbatim>\<open>tlsf\<close>).  Each frame it updates
  the timers (\<^verbatim>\<open>timer.c\<close>, \<^verbatim>\<open>timer_object.c\<close>), reads the keys (\<^verbatim>\<open>wm.c\<close>), moves entities (\<^verbatim>\<open>transform.c\<close> and
  the linear algebra below it) and pushes draw commands to the renderer (\<^verbatim>\<open>render.c\<close>), whose thread takes
  them from a bounded queue (\<^verbatim>\<open>queue.c\<close>) and drives the Vulkan wrapper (\<^verbatim>\<open>gpu.c\<close>).  Files go through two
  worker threads (\<^verbatim>\<open>fs.c\<close>) that compress with the vendored \<^verbatim>\<open>lz4\<close>; entities are replicated to peers over
  UDP (\<^verbatim>\<open>net.c\<close>).  The threads use thin wrappers of the system's objects (\<^verbatim>\<open>atomic.c\<close>,
  \<^verbatim>\<open>semaphore.c\<close>, \<^verbatim>\<open>mutex.c\<close>, \<^verbatim>\<open>event.c\<close>, \<^verbatim>\<open>thread.c\<close>).

  \<^bold>\<open>How it is modelled.\<close>  A C function is a HOL function from the state it reads to the state it leaves,
  in \<open>'a outcome\<close>: a value, or the \<open>fault\<close> (null or dangling pointer, index out of range, misuse of
  an interface) that the code would run into.  A call that may wait for ever is an option: \<open>None\<close> is waiting.
  Machine integers are words of their width; a C \<^verbatim>\<open>int\<close> is read with \<open>sint\<close>.  Threads are step
  functions or step relations over their shared state, one atomic action at a time.  What is not in
  the sources (the system, Vulkan, \<^verbatim>\<open>lz4\<close>, \<^verbatim>\<open>tlsf\<close>, the C library's real functions) is an argument of the
  definitions, with what is relied on as a named hypothesis or a locale, and concrete instances in the witnesses.

  \<^bold>\<open>Foundations.\<close>
  \<^item> \<open>Engine_Prelude\<close>: integer types, faults, outcomes, checked array access, the search loop,
    little-endian bytes, the lemma collections.
  \<^item> \<open>Memory\<close>: dynamic memory as the clients of \<^verbatim>\<open>heap.h\<close> see it: blocks that are never reused, so that
    a stale pointer is a fault; the contract \<open>allocator\<close> and its interpretation.
  \<^item> \<open>Tlsf_Bits\<close>: of the vendored \<^verbatim>\<open>tlsf.c\<close> the bit scans, the rounding of requests and the size classes: both
    versions of the scans agree, the classes are in range, and a search finds no block that is too small.
  \<^item> \<open>Heap_Arena\<close>: \<^verbatim>\<open>heap.c\<close> itself, whatever the vendored allocator's operations do: every pool it is given is the
    part of a new region behind the arena's header, and destruction gives back exactly the regions that were taken.
  \<^item> \<open>Sync\<close>: the wrappers of the system's objects.

  \<^bold>\<open>Entities.\<close>
  \<^item> \<open>Ecs\<close>: \<^verbatim>\<open>ecs_t\<close> and every operation of \<^verbatim>\<open>ecs.c\<close> on it; its invariants.
  \<^item> \<open>Handles\<close>, \<open>Ecs_Refs\<close>: the locale of generation-counted handles, its interpretation on the entity
    table, the life cycle of an entity and the query loop.  \<open>Ecs_Store\<close>: where component data lives.
    \<open>Ecs_Props\<close>: stale references stay stale, queries visit exactly the matching entities, components do
    not overlap, destruction releases everything.  These are about the steps of \<open>ecs_step\<close>, which are every call that
    changes the entity system but \<^verbatim>\<open>ecs_load_game\<close>.
  \<^item> \<open>Ecs_Save\<close>: saving and loading: the entities come back, the components' addresses do not.  A load ends what
    \<open>Ecs_Props\<close> shows: a reference that was stale can be valid again, and destruction cannot succeed.

  \<^bold>\<open>Queues, files, threads.\<close>
  \<^item> \<open>Ring_Queue\<close>: \<^verbatim>\<open>queue.c\<close> sequentially, refining a bounded FIFO (locale \<open>bounded_fifo\<close>), and what happens
    when its indices wrap; \<open>Queue_Threads\<close>: the same code as atomic actions: order and delivery for one
    producer and one consumer (a measure bounds the actions), and the race of two producers.
  \<^item> \<open>Fs\<close>, \<open>Fs_Threads\<close>, \<open>Fs_Codec\<close>, \<open>Fs_Props\<close>: the work items, the two threads around two queues, the
    compressed file format (round trip), completion within the queues' capacity and deadlock beyond it.
  \<^item> \<open>Fs_Shutdown\<close>, \<open>Fs_Life\<close>: the file system's memory and handles, \<^verbatim>\<open>fs_destroy\<close> and \<^verbatim>\<open>queue_destroy\<close> as
    steps between those of the threads: the clean shutdown when idle, the released queue otherwise.
  \<^item> \<open>Counter_Demo\<close>, \<open>Counter_Report\<close>: \<^verbatim>\<open>lecture7.c\<close>: the counter protocols, exactness for the synchronised
    ones, and what the demonstration prints.  \<open>Debug_Output\<close>: \<^verbatim>\<open>debug.c\<close> and \<^verbatim>\<open>timeofday.c\<close>.

  \<^bold>\<open>Network.\<close>
  \<^item> \<open>Net\<close>: connections and registries; \<open>Net_Snapshot\<close>, \<open>Net_Props\<close>: the ring of snapshots and the
    delta encoding (reconstruction, overflow of a packet, the sender that stops at a failed \<^verbatim>\<open>sendto\<close>).
  \<^item> \<open>Net_Ring\<close>: the frames of a sender as a step relation: registrations, the entity system's own steps, updates;
    the snapshot of a frame never leaves its array, and the ring keeps the last frames.
  \<^item> \<open>Net_Recv\<close>, \<open>Net_Replication\<close>: reading packets and the sequence filter.  \<open>Net_Mirror\<close>: a whole packet at a
    peer: the entities it knows are updated, those it does not know are spawned through the configuring callback, and
    which ones are removed.

  \<^bold>\<open>Time, window, mathematics.\<close>
  \<^item> \<open>Timers\<close>: a timer counts exactly the running time.  \<open>Window\<close>: the input masks are what is held.
  \<^item> \<open>Linear\<close>: \<^verbatim>\<open>vec3f.h\<close>, \<^verbatim>\<open>quatf.h\<close>, \<^verbatim>\<open>mat4f.c\<close>, \<^verbatim>\<open>transform.c\<close> over an ordered field: the transform
    and its matrix agree, the matrix inverse is one; where composition and inverse of transforms fail.

  \<^bold>\<open>Graphics.\<close>
  \<^item> \<open>Gpu\<close>: the Vulkan driver as a table of live objects, with an oracle for the result of every fallible
    call; the five resources of \<^verbatim>\<open>gpu.c\<close>; \<open>owns\<close>, the relation that describes what a structure holds on the
    device and on the heap; creation and destruction leave nothing behind on any failure.
  \<^item> \<open>Gpu_Device\<close>: \<^verbatim>\<open>gpu_create\<close> as the composition of its stages, with a rule of composition for what a
    stage keeps (\<open>stage_ok\<close>), and \<^verbatim>\<open>gpu_destroy\<close>.  \<open>Gpu_Frames\<close>: command buffers and fences as a
    state machine, the frame from beginning to end, and what the device is asked to draw.
  \<^item> \<open>Render\<close>: \<^verbatim>\<open>render.c\<close>: commands, the three tables of device objects (locale \<open>table_entries\<close>, once
    for each table), the render thread; the removal of stale entries as a filter, and the slot that is reused.

  \<^bold>\<open>The game.\<close>
  \<^item> \<open>Frogger\<close>: \<^verbatim>\<open>frogger_game.c\<close>, function by function: every component is read and written as bytes in
    the tables of the entity system, the clock, the keys and the random numbers are the environment of a frame.
    Commands go into the renderer's queue of three (\<open>queue_push\<close> of \<open>Ring_Queue\<close>): how many the render thread takes
    while the game waits is the parameter \<open>fw_takes\<close>, and a push that would wait for ever is \<open>Waits_forever\<close>.
  \<^item> \<open>Frogger_Cells\<close>: which bytes of a table belong to which component, and that a write changes one of them.
    \<open>Frogger_Rules\<close>: the rules of the game as functions on coordinates, and that the code follows them;
    \<open>Frogger_Frame\<close>: drawing, and the frame as a whole.
  \<^item> \<open>Frogger_Props\<close>: the invariant of the blocks and the player over any number of playable frames (no mouse button,
    which saves or loads; room for the commands), with what the rest of the program may do between them.  \<open>Frogger_Create\<close>, \<open>Frogger_Start\<close>: the creation, and the
    destruction as its converse.  \<open>Frogger_Load\<close>: loading a saved game.  \<open>Frogger_Game\<close>: the properties.

  \<^bold>\<open>Bounds.\<close>  Loops are structural recursions, recursions with a measure, or folds over index lists; there
  is no fuel.  Capacities are the code's constants (512 entities and drawables, 256 snapshots, queues of
  the given capacity).  Where an \<^verbatim>\<open>int\<close> can wrap, either the statement bounds it or the wrap-around is
  the statement.  Sizes of structures are those of 64-bit Windows.

  \<^bold>\<open>Not modelled.\<close>  \<^verbatim>\<open>main.c\<close> is the sequence of creations, the loop and the destructions;
  \<^verbatim>\<open>trace.c\<close> has empty bodies; \<^verbatim>\<open>lz4\<close>, the free lists of \<^verbatim>\<open>tlsf\<close> and the Vulkan headers are vendored.  Of the modelled
  files, left out are the messages that other components print, the contents of the crash dump, in \<^verbatim>\<open>gpu.c\<close>, the semaphores' state and the acquired
  image's index, which order work on the device only, and in \<^verbatim>\<open>net.c\<close> the race of the receiving
  thread with the main thread on the connection table.  Floating-point arithmetic is that of an
  ordered field; only the game's stores into component memory round, through the parameter \<open>float_rep\<close>.
\<close>

end
